(* ===== verification/Prelude.thy ===== *)
theory Prelude
  imports Complex_Main "HOL-Library.Multiset" "HOL-Library.Sublist" "HOL-Library.List_Lexorder"
    "HOL-Library.Char_ord"
begin

text \<open>
  Shared ground of the development: JavaScript numbers and their rounding, the stable
  array sort the sources rely on, the ambient request context (tenant, request time,
  database clock), and the list lemmas the component theories use.

  A JavaScript \<open>number\<close> that the code treats as a finite amount is a \<open>rat\<close>: every
  operation of the sources on amounts (\<open>+\<close>, \<open>-\<close>, \<open>*\<close>, \<open>/\<close>, comparison, \<open>Math.round\<close>,
  \<open>Math.floor\<close>, \<open>Math.ceil\<close>, \<open>Math.min\<close>, \<open>Math.max\<close>, \<open>Math.abs\<close>) is then exact. The
  binary rounding of each single IEEE operation is not modelled; the tolerances the
  sources write down (\<open>0.005\<close>, \<open>1e-6\<close>, \<open>1e-9\<close> and so on) are kept as they stand.
  Where a source tests for \<open>NaN\<close> or an infinity the argument has type \<open>jsnum\<close>.
\<close>

section \<open>Proof collections\<close>

named_theorems money_simps \<open>unfolding rules of the money rounding functions\<close>
named_theorems row_simps \<open>frame rules of the table updates\<close>

section \<open>JavaScript numbers\<close>

type_synonym amount = rat

datatype jsnum = Fin rat | NaN | PosInf | NegInf

text \<open>\<open>Math.round\<close> rounds to the nearest integer and a tie upwards.\<close>

definition math_round :: "rat \<Rightarrow> int" where
  "math_round x = \<lfloor>x + 1 / 2\<rfloor>"

text \<open>\<open>a || b\<close> on numbers: \<open>0\<close> is falsy.\<close>

definition js_or :: "rat \<Rightarrow> rat \<Rightarrow> rat" where
  "js_or a b = (if a = 0 then b else a)"

text \<open>Rounding to a fixed number of decimals: \<open>Math.round(x * k) / k\<close>.\<close>

definition round_scaled :: "rat \<Rightarrow> rat \<Rightarrow> rat" where
  "round_scaled k x = of_int (math_round (x * k)) / k"

lemma math_round_of_int [simp]: "math_round (of_int n) = n"
proof -
  have "\<lfloor>of_int n + (1 / 2 :: rat)\<rfloor> = n"
    by (simp add: floor_eq_iff)
  then show ?thesis by (simp add: math_round_def)
qed

lemma math_round_zero [simp]: "math_round 0 = 0"
  using math_round_of_int [of 0] by simp

lemma math_round_error: "\<bar>of_int (math_round x) - x\<bar> \<le> 1 / 2"
  unfolding math_round_def
  using of_int_floor_le [of "x + 1 / 2"] floor_correct [of "x + 1 / 2"] by linarith

lemma math_round_mono: "x \<le> y \<Longrightarrow> math_round x \<le> math_round y"
  by (simp add: math_round_def floor_mono)

lemma math_round_nonneg: "0 \<le> x \<Longrightarrow> 0 \<le> math_round x"
  by (simp add: math_round_def)

lemma math_round_pos_iff: "0 < math_round x \<longleftrightarrow> 1 / 2 \<le> x"
  by (auto simp: math_round_def)

lemma round_scaled_error:
  assumes "0 < k"
  shows "\<bar>round_scaled k x - x\<bar> \<le> 1 / (2 * k)"
proof -
  let ?r = "of_int (math_round (x * k)) :: rat"
  have "round_scaled k x - x = (?r - x * k) / k"
    using assms by (simp add: round_scaled_def field_simps)
  then have "\<bar>round_scaled k x - x\<bar> = \<bar>?r - x * k\<bar> / k"
    using assms by simp
  also have "\<dots> \<le> (1 / 2) / k"
    using assms math_round_error [of "x * k"] by (intro divide_right_mono) auto
  finally show ?thesis by simp
qed

section \<open>Rounding functions as an interface\<close>

text \<open>
  The money rounders of the sources (\<open>roundUsd\<close>, \<open>roundLbp\<close>, \<open>roundMoney\<close>) share one
  contract: a result on a grid of step \<open>u\<close>, at most half a step away, in order and
  exact on the grid. Clients use the contract only.
\<close>

locale rounding =
  fixes rnd :: "rat \<Rightarrow> rat" and u :: rat
  assumes unit_pos: "0 < u"
    and on_grid: "\<exists>n :: int. rnd x = of_int n * u"
    and near: "\<bar>rnd x - x\<bar> \<le> u / 2"
    and mono: "x \<le> y \<Longrightarrow> rnd x \<le> rnd y"
    and exact: "rnd (of_int n * u) = of_int n * u"
begin

lemma rnd_zero: "rnd 0 = 0"
  using exact [of 0] by simp

lemma rnd_nonneg: "0 \<le> x \<Longrightarrow> 0 \<le> rnd x"
  using mono [of 0 x] by (simp add: rnd_zero)

lemma rnd_idem: "rnd (rnd x) = rnd x"
  using on_grid [of x] exact by metis

lemma rnd_upper: "rnd x \<le> x + u / 2"
  using near [of x] by linarith

lemma rnd_lower: "x - u / 2 \<le> rnd x"
  using near [of x] by linarith

lemma rnd_grid_le: "x \<le> of_int n * u \<Longrightarrow> rnd x \<le> of_int n * u"
  using mono [of x "of_int n * u"] by (simp add: exact)

text \<open>The amounts the rounder leaves alone are closed under the ledger arithmetic.\<close>

lemma fixed_iff: "rnd x = x \<longleftrightarrow> (\<exists>n :: int. x = of_int n * u)"
  using on_grid [of x] exact by metis

lemma fixed_add: "rnd x = x \<Longrightarrow> rnd y = y \<Longrightarrow> rnd (x + y) = x + y"
  unfolding fixed_iff by (metis distrib_right of_int_add)

lemma fixed_diff: "rnd x = x \<Longrightarrow> rnd y = y \<Longrightarrow> rnd (x - y) = x - y"
  unfolding fixed_iff by (metis left_diff_distrib of_int_diff)

lemma fixed_min: "rnd x = x \<Longrightarrow> rnd y = y \<Longrightarrow> rnd (min x y) = min x y"
  by (simp add: min_def)

lemma fixed_max: "rnd x = x \<Longrightarrow> rnd y = y \<Longrightarrow> rnd (max x y) = max x y"
  by (simp add: max_def)

lemma rnd_le_fixed: "x \<le> y \<Longrightarrow> rnd y = y \<Longrightarrow> rnd x \<le> y"
  using mono by metis

lemmas fixed_closed = fixed_add fixed_diff fixed_min fixed_max rnd_zero

lemma rnd_sum_grid: "\<exists>n :: int. sum_list (map (\<lambda>x. rnd (g x)) xs) = of_int n * u"
proof (induction xs)
  case Nil
  show ?case by (intro exI [of _ 0]) simp
next
  case (Cons x xs)
  then obtain n where n: "sum_list (map (\<lambda>x. rnd (g x)) xs) = of_int n * u" by blast
  obtain m where "rnd (g x) = of_int m * u" using on_grid by blast
  with n show ?case by (intro exI [of _ "m + n"]) (simp add: algebra_simps)
qed

lemma rnd_sum_exact:
  "rnd (sum_list (map (\<lambda>x. rnd (g x)) xs)) = sum_list (map (\<lambda>x. rnd (g x)) xs)"
  using rnd_sum_grid [of g xs] exact by metis

lemma rnd_sum_error:
  "\<bar>sum_list (map (\<lambda>x. rnd (g x)) xs) - sum_list (map g xs)\<bar> \<le> of_nat (length xs) * (u / 2)"
proof (induction xs)
  case (Cons x xs)
  let ?d = "sum_list (map (\<lambda>x. rnd (g x)) xs) - sum_list (map g xs)"
  have "\<bar>(rnd (g x) - g x) + ?d\<bar> \<le> u / 2 + of_nat (length xs) * (u / 2)"
    using abs_triangle_ineq [of "rnd (g x) - g x" ?d] near [of "g x"] Cons.IH by linarith
  then show ?case by (simp add: algebra_simps)
qed simp

end

lemma rounding_round_scaled:
  assumes "0 < k"
  shows "rounding (round_scaled k) (1 / k)"
proof
  show "0 < 1 / k" using assms by simp
  show "\<exists>n. round_scaled k x = of_int n * (1 / k)" for x
    by (auto simp: round_scaled_def intro!: exI [of _ "math_round (x * k)"])
  show "\<bar>round_scaled k x - x\<bar> \<le> 1 / k / 2" for x
    using round_scaled_error [OF assms, of x] by (simp add: mult.commute)
  show "x \<le> y \<Longrightarrow> round_scaled k x \<le> round_scaled k y" for x y
    using assms
    by (auto simp: round_scaled_def intro!: divide_right_mono math_round_mono mult_right_mono)
  show "round_scaled k (of_int n * (1 / k)) = of_int n * (1 / k)" for n
    using assms by (simp add: round_scaled_def)
qed

section \<open>The stable array sort\<close>

text \<open>
  \<open>Array.prototype.sort\<close> with a comparator is stable: elements the comparator does not
  separate keep their order. Insertion from the right computes that arrangement.
\<close>

fun js_insert :: "('a \<Rightarrow> 'a \<Rightarrow> rat) \<Rightarrow> 'a \<Rightarrow> 'a list \<Rightarrow> 'a list" where
  "js_insert cmp x [] = [x]"
| "js_insert cmp x (y # ys) = (if cmp x y \<le> 0 then x # y # ys else y # js_insert cmp x ys)"

definition js_sort :: "('a \<Rightarrow> 'a \<Rightarrow> rat) \<Rightarrow> 'a list \<Rightarrow> 'a list" where
  "js_sort cmp xs = foldr (js_insert cmp) xs []"

lemma js_sort_Nil [simp]: "js_sort cmp [] = []"
  by (simp add: js_sort_def)

lemma js_sort_Cons [simp]: "js_sort cmp (x # xs) = js_insert cmp x (js_sort cmp xs)"
  by (simp add: js_sort_def)

lemma mset_js_insert [simp]: "mset (js_insert cmp x xs) = add_mset x (mset xs)"
  by (induction xs) auto

lemma mset_js_sort [simp]: "mset (js_sort cmp xs) = mset xs"
  by (induction xs) auto

lemma set_js_sort [simp]: "set (js_sort cmp xs) = set xs"
  by (rule mset_eq_setD) simp

lemma length_js_sort [simp]: "length (js_sort cmp xs) = length xs"
  by (rule mset_eq_length) simp

lemma distinct_js_sort [simp]: "distinct (js_sort cmp xs) = distinct xs"
  by (rule mset_eq_imp_distinct_iff) simp

lemma sum_list_map_js_sort [simp]:
  "sum_list (map f (js_sort cmp xs)) = (sum_list (map f xs) :: 'b :: comm_monoid_add)"
  using mset_map [of f "js_sort cmp xs"] mset_map [of f xs]
  by (metis mset_js_sort sum_mset_sum_list)

lemma mset_map_js_sort: "mset (map f (js_sort cmp xs)) = mset (map f xs)"
  by simp

text \<open>
  A comparator is consistent when it is total and transitive; then the sort is ordered
  and keeps the order of elements it does not separate.
\<close>

locale js_comparator =
  fixes cmp :: "'a \<Rightarrow> 'a \<Rightarrow> rat"
  assumes cmp_total: "cmp x y \<le> 0 \<or> cmp y x \<le> 0"
    and cmp_trans: "cmp x y \<le> 0 \<Longrightarrow> cmp y z \<le> 0 \<Longrightarrow> cmp x z \<le> 0"
begin

abbreviation before :: "'a \<Rightarrow> 'a \<Rightarrow> bool" where
  "before x y \<equiv> cmp x y \<le> 0"

lemma set_js_insert: "set (js_insert cmp x xs) = insert x (set xs)"
  by (induction xs) auto

lemma sorted_js_insert:
  "sorted_wrt before xs \<Longrightarrow> sorted_wrt before (js_insert cmp x xs)"
proof (induction xs)
  case Nil
  then show ?case by simp
next
  case (Cons y ys)
  show ?case
  proof (cases "before x y")
    case True
    with Cons.prems cmp_trans [OF True] show ?thesis by auto
  next
    case False
    with cmp_total [of x y] have "before y x" by blast
    with Cons False show ?thesis by (auto simp: set_js_insert)
  qed
qed

lemma sorted_js_sort: "sorted_wrt before (js_sort cmp xs)"
  by (induction xs) (auto intro: sorted_js_insert)

lemma js_insert_first:
  "\<forall>y \<in> set ys. before x y \<Longrightarrow> js_insert cmp x ys = x # ys"
  by (cases ys) auto

lemma js_sort_sorted_id: "sorted_wrt before xs \<Longrightarrow> js_sort cmp xs = xs"
  by (induction xs) (auto simp: js_insert_first)

lemma filter_js_insert:
  assumes "\<And>y. P y \<Longrightarrow> before x y" and "sorted_wrt before ys"
  shows "filter P (js_insert cmp x ys) = filter P (x # ys)"
  using assms(2) by (induction ys) (auto dest: assms(1))

lemma js_sort_stable:
  assumes "\<And>x y. P x \<Longrightarrow> P y \<Longrightarrow> before x y"
  shows "filter P (js_sort cmp xs) = filter P xs"
proof (induction xs)
  case Nil
  then show ?case by simp
next
  case (Cons x xs)
  show ?case
  proof (cases "P x")
    case True
    then have "filter P (js_insert cmp x (js_sort cmp xs)) = filter P (x # js_sort cmp xs)"
      using assms by (intro filter_js_insert sorted_js_sort) auto
    with Cons True show ?thesis by simp
  next
    case False
    have "filter P (js_insert cmp x ys) = filter P ys" for ys
      using False by (induction ys) auto
    with Cons False show ?thesis by simp
  qed
qed

lemma filter_js_insert_skip: "\<not> P x \<Longrightarrow> filter P (js_insert cmp x ys) = filter P ys"
  by (induction ys) auto

lemma filter_js_insert_keep:
  "P x \<Longrightarrow> sorted_wrt before ys \<Longrightarrow> filter P (js_insert cmp x ys) = js_insert cmp x (filter P ys)"
proof (induction ys)
  case (Cons y ys)
  show ?case
  proof (cases "before x y")
    case True
    with Cons.prems have "\<forall>z \<in> set (filter P (y # ys)). before x z"
      by (auto intro: cmp_trans)
    from js_insert_first [OF this] True Cons.prems(1) show ?thesis by simp
  qed (use Cons in auto)
qed simp

lemma filter_js_sort: "filter P (js_sort cmp xs) = js_sort cmp (filter P xs)"
  by (induction xs) (simp_all add: filter_js_insert_skip filter_js_insert_keep sorted_js_sort)

end

section \<open>The request context\<close>

text \<open>
  What an operation reads from its surroundings: the tenant of the request
  (\<open>getCurrentTenantId\<close>), the request time text (\<open>requestNow\<close>, one value per operation)
  and SQLite's \<open>CURRENT_TIMESTAMP\<close>.
\<close>

record env =
  tenant :: nat
  now :: string
  clock :: string

section \<open>Lists\<close>

abbreviation sum_of :: "('a \<Rightarrow> 'b :: comm_monoid_add) \<Rightarrow> 'a list \<Rightarrow> 'b" where
  "sum_of f xs \<equiv> sum_list (map f xs)"

lemma sum_of_nonneg:
  "(\<And>x. x \<in> set xs \<Longrightarrow> 0 \<le> f x) \<Longrightarrow> 0 \<le> (sum_of f xs :: rat)"
  by (rule sum_list_nonneg) auto

lemma sum_of_mono:
  "(\<And>x. x \<in> set xs \<Longrightarrow> f x \<le> g x) \<Longrightarrow> sum_of f xs \<le> (sum_of g xs :: rat)"
  by (rule sum_list_mono)

lemma sum_of_filter_split:
  "sum_of f xs = sum_of f (filter P xs) + (sum_of f (filter (\<lambda>x. \<not> P x) xs) :: rat)"
  by (induction xs) auto

lemma sum_of_cong: "(\<And>x. x \<in> set xs \<Longrightarrow> f x = g x) \<Longrightarrow> sum_of f xs = sum_of g xs"
  by (metis map_eq_conv)

lemma sum_of_scale: "sum_of (\<lambda>x. c * f x) xs = c * (sum_of f xs :: rat)"
  by (induction xs) (auto simp: algebra_simps)

lemma map_nth_upt: "map (\<lambda>i. g (xs ! i)) [0..<length xs] = map g xs"
  by (rule nth_equalityI) auto

lemma sum_list_bump:
  "i < length xs \<Longrightarrow> sum_list (xs[i := xs ! i + d]) = sum_list xs + (d :: 'a :: comm_ring)"
proof (induction xs arbitrary: i)
  case (Cons x xs)
  then show ?case by (cases i) (auto simp: algebra_simps)
qed simp

lemma member_sum_of_le:
  "x \<in> set xs \<Longrightarrow> (\<And>y. y \<in> set xs \<Longrightarrow> 0 \<le> f y) \<Longrightarrow> f x \<le> (sum_of f xs :: rat)"
  by (rule member_le_sum_list) auto

text \<open>One row of a keyed table is replaced: what happens to a column sum.\<close>

lemma map_key_absent:
  "k \<notin> key ` set xs \<Longrightarrow> map (\<lambda>y. if key y = k then f y else y) xs = xs"
  by (induction xs) auto

lemma sum_of_update_key:
  "distinct (map key xs) \<Longrightarrow> x \<in> set xs \<Longrightarrow>
     sum_of h (map (\<lambda>y. if key y = key x then f y else y) xs)
       = sum_of h xs - h x + (h (f x) :: rat)"
proof (induction xs)
  case (Cons y ys)
  show ?case
  proof (cases "key y = key x")
    case True
    with Cons.prems have "y = x" and "key x \<notin> key ` set ys"
      by (auto simp: image_iff)
    then show ?thesis by (simp add: map_key_absent)
  next
    case False
    with Cons show ?thesis by auto
  qed
qed simp

lemma sum_of_filter_update_key:
  assumes "distinct (map key xs)" and "x \<in> set xs"
  shows "sum_of g (filter P (map (\<lambda>y. if key y = key x then f y else y) xs))
     = sum_of g (filter P xs) - (if P x then g x else 0) + (if P (f x) then g (f x) else (0 :: rat))"
  using sum_of_update_key [OF assms, of "\<lambda>y. if P y then g y else 0"]
  by (simp add: sum_list_map_filter')

lemma sum_of_swap:
  "sum_of (\<lambda>x. sum_of (f x) ys) xs = sum_of (\<lambda>y. sum_of (\<lambda>x. f x y) xs) (ys :: 'b list)"
  for f :: "'a \<Rightarrow> 'b \<Rightarrow> rat"
proof (induction xs)
  case Nil
  show ?case by (induction ys) auto
next
  case (Cons x xs)
  then show ?case by (simp add: sum_list_addf)
qed

lemma sum_of_concat: "sum_of f (concat xss) = sum_of (\<lambda>xs. sum_of f xs) xss"
  by (induction xss) auto

lemma sum_of_mset_eq:
  assumes "mset xs = mset ys"
  shows "sum_of f xs = (sum_of f ys :: 'b :: comm_monoid_add)"
proof -
  have "mset (map f xs) = mset (map f ys)" using assms by simp
  then show ?thesis by (simp only: flip: sum_mset_sum_list)
qed

lemma sum_of_zero: "(\<And>x. x \<in> set xs \<Longrightarrow> f x = 0) \<Longrightarrow> sum_of f xs = (0 :: 'b :: comm_monoid_add)"
  by (induction xs) auto

section \<open>Step relations and their invariants\<close>

text \<open>A relation between states, and a property every step keeps.\<close>

locale step_invariant =
  fixes step :: "'s \<Rightarrow> 's \<Rightarrow> bool" and inv :: "'s \<Rightarrow> bool"
  assumes step_keeps: "step s t \<Longrightarrow> inv s \<Longrightarrow> inv t"
begin

lemma run_keeps: "step\<^sup>*\<^sup>* s t \<Longrightarrow> inv s \<Longrightarrow> inv t"
  by (induction rule: rtranclp_induct) (auto intro: step_keeps)

end

section \<open>Texts\<close>

text \<open>\<open>String.prototype.trim\<close> on the characters of a byte.\<close>

definition is_space :: "char \<Rightarrow> bool" where
  "is_space c \<longleftrightarrow> (of_char c :: nat) \<in> {9, 10, 11, 12, 13, 32, 160}"

definition trim :: "string \<Rightarrow> string" where
  "trim s = rev (dropWhile is_space (rev (dropWhile is_space s)))"

text \<open>\<open>Number\<close> of a text of digits.\<close>

definition is_digit :: "char \<Rightarrow> bool" where
  "is_digit c \<longleftrightarrow> 48 \<le> (of_char c :: nat) \<and> of_char c \<le> (57 :: nat)"

definition digits_value :: "string \<Rightarrow> nat" where
  "digits_value s = foldl (\<lambda>n c. 10 * n + (of_char c - 48)) 0 s"

text \<open>A whole number in a template literal.\<close>

fun nat_text :: "nat \<Rightarrow> string" where
  "nat_text n = (if n < 10 then [char_of (48 + n)] else nat_text (n div 10) @ [char_of (48 + n mod 10)])"

declare nat_text.simps [simp del]

lemma nat_text_value: "foldl (\<lambda>k c. 10 * k + (of_char c - 48)) 0 (nat_text n) = n"
proof (induction n rule: nat_text.induct)
  case (1 n)
  have d: "of_char (char_of (48 + n mod 10)) - 48 = n mod 10" by (simp add: of_char_of)
  show ?case
  proof (cases "n < 10")
    case True
    then show ?thesis by (simp add: nat_text.simps of_char_of)
  next
    case False
    with 1 d show ?thesis by (subst nat_text.simps) simp
  qed
qed

lemma digits_value_text [simp]: "digits_value (nat_text n) = n"
  by (simp add: digits_value_def nat_text_value)

lemma nat_text_inject [simp]: "nat_text m = nat_text n \<longleftrightarrow> m = n"
  using nat_text_value by metis

lemma nat_text_digits: "c \<in> set (nat_text n) \<Longrightarrow> of_char c \<in> {48 .. (57 :: nat)}"
proof (induction n rule: nat_text.induct)
  case (1 n)
  then show ?case by (subst (asm) (2) nat_text.simps) (auto simp: of_char_of split: if_splits)
qed

end
