(* ===== verification/Fifo_Coverage.thy ===== *)
theory Fifo_Coverage
  imports Prelude
begin

text \<open>
  Model of \<open>packages/core/src/utils/fifoCoverage.ts\<close>: the one oldest-first allocator of a
  budget over open rows, with its tolerance. The locale \<open>fifo_allocator\<close> states what its
  callers (stock batches, account settlement) rely on; it is interpreted on
  \<open>allocateFifo\<close>.
\<close>

section \<open>Definitions\<close>

record 'i FifoOpenRow =
  fo_id :: 'i
  outstanding :: amount

record 'i FifoTake =
  ft_id :: 'i
  ft_take :: amount

fun allocateFifo_loop ::
    "'i FifoOpenRow list \<Rightarrow> amount \<Rightarrow> amount \<Rightarrow> 'i FifoTake list" where
  "allocateFifo_loop [] remaining epsilon = []"
| "allocateFifo_loop (row # rows) remaining epsilon =
     (if remaining \<le> epsilon then []
      else let tk = min remaining (outstanding row) in
        if tk \<le> epsilon then allocateFifo_loop rows remaining epsilon
        else \<lparr>ft_id = fo_id row, ft_take = tk\<rparr>
               # allocateFifo_loop rows (remaining - tk) epsilon)"

definition allocateFifo ::
    "'i FifoOpenRow list \<Rightarrow> amount \<Rightarrow> amount \<Rightarrow> 'i FifoTake list" where
  "allocateFifo open_rows budget epsilon =
     (if budget \<le> epsilon then [] else allocateFifo_loop open_rows budget epsilon)"

section \<open>What an allocation is\<close>

text \<open>
  \<open>drawn_by R takes rows\<close>: every take comes from a row of its own, in the order of the
  rows, and relates to that row's outstanding amount by \<open>R\<close>.
\<close>

fun drawn_by ::
    "(amount \<Rightarrow> amount \<Rightarrow> bool) \<Rightarrow> 'i FifoTake list \<Rightarrow> 'i FifoOpenRow list \<Rightarrow> bool" where
  "drawn_by R [] rows = True"
| "drawn_by R (t # ts) [] = False"
| "drawn_by R (t # ts) (r # rs) =
     ((ft_id t = fo_id r \<and> R (ft_take t) (outstanding r) \<and> drawn_by R ts rs)
      \<or> drawn_by R (t # ts) rs)"

lemma drawn_by_skip: "drawn_by R ts rs \<Longrightarrow> drawn_by R ts (r # rs)"
  by (cases ts) auto

lemma drawn_by_member:
  "drawn_by R ts rs \<Longrightarrow> t \<in> set ts \<Longrightarrow>
     \<exists>r \<in> set rs. fo_id r = ft_id t \<and> R (ft_take t) (outstanding r)"
  by (induction R ts rs rule: drawn_by.induct) auto

lemma drawn_by_subseq: "drawn_by R ts rs \<Longrightarrow> subseq (map ft_id ts) (map fo_id rs)"
  by (induction R ts rs rule: drawn_by.induct) (auto dest: subseq_Cons')

lemma drawn_by_distinct:
  "drawn_by R ts rs \<Longrightarrow> distinct (map fo_id rs) \<Longrightarrow> distinct (map ft_id ts)"
proof (induction R ts rs rule: drawn_by.induct)
  case (3 R t ts r rs)
  have "ft_id ` set ts \<subseteq> fo_id ` set rs" if "drawn_by R ts rs"
    using that by (force dest: drawn_by_member)
  with 3 show ?case by (auto simp: image_subset_iff) (metis imageE)
qed auto

lemma drawn_by_sum_le:
  "drawn_by (\<le>) ts rs \<Longrightarrow> sum_of ft_take ts \<le> sum_of (\<lambda>r. max 0 (outstanding r)) rs"
proof (induction "(\<le>) :: amount \<Rightarrow> amount \<Rightarrow> bool" ts rs rule: drawn_by.induct)
  case (1 rows)
  show ?case by (simp add: sum_of_nonneg)
next
  case (3 t ts r rs)
  let ?S = "sum_of (\<lambda>r. max 0 (outstanding r)) rs"
  from 3 have "ft_take t \<le> outstanding r \<and> sum_of ft_take ts \<le> ?S \<or> ft_take t + sum_of ft_take ts \<le> ?S"
    by auto
  then show ?case by (simp add: max_def) linarith
qed simp

section \<open>The loop\<close>

lemma fifo_loop_take_pos:
  "t \<in> set (allocateFifo_loop rows b e) \<Longrightarrow> e < ft_take t"
  by (induction rows b e rule: allocateFifo_loop.induct)
     (auto simp: Let_def split: if_splits)

lemma fifo_loop_drawn: "drawn_by (\<le>) (allocateFifo_loop rows b e) rows"
  by (induction rows b e rule: allocateFifo_loop.induct)
     (auto simp: Let_def intro: drawn_by_skip)

lemma fifo_loop_sum_le:
  "0 \<le> e \<Longrightarrow> 0 \<le> b \<Longrightarrow> sum_of ft_take (allocateFifo_loop rows b e) \<le> b"
proof (induction rows b e rule: allocateFifo_loop.induct)
  case (2 row rows b e)
  then show ?case by (auto simp: Let_def min_def algebra_simps split: if_splits)
qed simp

lemma fifo_loop_exhausts:
  "0 \<le> e \<Longrightarrow>
     b - sum_of ft_take (allocateFifo_loop rows b e) \<le> e \<or>
     sum_of ft_take (allocateFifo_loop rows b e)
       = sum_of outstanding (filter (\<lambda>r. e < outstanding r) rows)"
proof (induction rows b e rule: allocateFifo_loop.induct)
  case (2 row rows b e)
  show ?case
  proof (cases "b \<le> e")
    case False
    let ?t = "min b (outstanding row)"
    show ?thesis
    proof (cases "?t \<le> e")
      case True
      with False have "\<not> e < outstanding row" by (simp add: min_def split: if_splits)
      with 2 True False show ?thesis by (simp add: Let_def)
    next
      case nt: False
      then have out: "e < outstanding row" by (simp add: min_def split: if_splits)
      show ?thesis
      proof (cases "b \<le> outstanding row")
        case True
        then have t: "?t = b" by simp
        have "allocateFifo_loop rows 0 e = []"
          using \<open>0 \<le> e\<close> by (cases rows) auto
        with nt False t \<open>0 \<le> e\<close> show ?thesis by (simp add: Let_def)
      next
        case big: False
        with 2 nt False out show ?thesis by (auto simp: Let_def min_def algebra_simps)
      qed
    qed
  qed simp
qed simp

lemma fifo_loop_full_before_last:
  "0 \<le> e \<Longrightarrow> allocateFifo_loop rows b e = ts @ [t] \<Longrightarrow> drawn_by (=) ts rows"
proof (induction rows b e arbitrary: ts rule: allocateFifo_loop.induct)
  case (2 row rows b e)
  let ?t = "min b (outstanding row)"
  have nb: "\<not> b \<le> e" using "2.prems" by auto
  show ?case
  proof (cases "?t \<le> e")
    case True
    with nb "2.prems" have "allocateFifo_loop rows b e = ts @ [t]"
      by (simp add: Let_def min_le_iff_disj)
    with True nb "2.IH"(1) \<open>0 \<le> e\<close> show ?thesis by (auto intro: drawn_by_skip)
  next
    case False
    show ?thesis
    proof (cases ts)
      case (Cons t' ts')
      with "2.prems" nb False
      have rest: "allocateFifo_loop rows (b - ?t) e = ts' @ [t]"
        and t': "t' = \<lparr>ft_id = fo_id row, ft_take = ?t\<rparr>"
        by (auto simp: Let_def)
      have "e < b - ?t" using rest by (cases rows) (auto split: if_splits)
      with \<open>0 \<le> e\<close> have "?t = outstanding row" by (auto simp: min_def split: if_splits)
      with rest t' Cons "2.IH" nb False \<open>0 \<le> e\<close> show ?thesis by auto
    qed simp
  qed
qed simp

section \<open>The allocator's contract\<close>

locale fifo_allocator =
  fixes alloc :: "'i FifoOpenRow list \<Rightarrow> amount \<Rightarrow> amount \<Rightarrow> 'i FifoTake list"
  assumes take_pos: "t \<in> set (alloc rows b e) \<Longrightarrow> e < ft_take t"
    and drawn: "drawn_by (\<le>) (alloc rows b e) rows"
    and sum_le: "0 \<le> e \<Longrightarrow> 0 \<le> b \<Longrightarrow> sum_of ft_take (alloc rows b e) \<le> b"
    and exhausts: "0 \<le> e \<Longrightarrow>
      b - sum_of ft_take (alloc rows b e) \<le> e \<or>
      sum_of ft_take (alloc rows b e)
        = sum_of outstanding (filter (\<lambda>r. e < outstanding r) rows)"
begin

lemma take_from_row:
  "t \<in> set (alloc rows b e) \<Longrightarrow>
     \<exists>r \<in> set rows. fo_id r = ft_id t \<and> ft_take t \<le> outstanding r"
  using drawn drawn_by_member by blast

lemma take_ids_distinct:
  "distinct (map fo_id rows) \<Longrightarrow> distinct (map ft_id (alloc rows b e))"
  using drawn drawn_by_distinct by blast

lemma take_ids_subset: "ft_id ` set (alloc rows b e) \<subseteq> fo_id ` set rows"
proof
  fix i
  assume "i \<in> ft_id ` set (alloc rows b e)"
  then obtain t where "t \<in> set (alloc rows b e)" and "i = ft_id t" by blast
  with take_from_row [of t rows b e] show "i \<in> fo_id ` set rows" by force
qed

lemma sum_nonneg: "0 \<le> e \<Longrightarrow> 0 \<le> sum_of ft_take (alloc rows b e)"
proof (rule sum_of_nonneg)
  fix t
  assume "0 \<le> e" "t \<in> set (alloc rows b e)"
  with take_pos [of t rows b e] show "0 \<le> ft_take t" by linarith
qed

lemma sum_le_rows: "sum_of ft_take (alloc rows b e) \<le> sum_of (\<lambda>r. max 0 (outstanding r)) rows"
  by (rule drawn_by_sum_le [OF drawn])

lemma sum_covers_need:
  assumes "0 \<le> e" "0 \<le> b"
    and enough: "b \<le> sum_of outstanding (filter (\<lambda>r. e < outstanding r) rows)"
  shows "b - sum_of ft_take (alloc rows b e) \<le> e"
  using exhausts [OF assms(1), of b rows] enough assms(1) by auto

end

lemma allocateFifo_sum_le:
  "0 \<le> e \<Longrightarrow> 0 \<le> b \<Longrightarrow> sum_of ft_take (allocateFifo rows b e) \<le> b"
  by (simp add: allocateFifo_def fifo_loop_sum_le)

lemma allocateFifo_exhausts:
  assumes "0 \<le> e"
  shows "b - sum_of ft_take (allocateFifo rows b e) \<le> e \<or>
    sum_of ft_take (allocateFifo rows b e)
      = sum_of outstanding (filter (\<lambda>r. e < outstanding r) rows)"
  using fifo_loop_exhausts [OF assms, of b rows] by (auto simp: allocateFifo_def)

interpretation fifo: fifo_allocator allocateFifo
proof unfold_locales
  fix t :: "'a FifoTake" and rows b e
  show "t \<in> set (allocateFifo rows b e) \<Longrightarrow> e < ft_take t"
    by (auto simp: allocateFifo_def fifo_loop_take_pos split: if_splits)
  show "drawn_by (\<le>) (allocateFifo rows b e) rows"
    by (simp add: allocateFifo_def fifo_loop_drawn)
qed (simp_all add: allocateFifo_sum_le allocateFifo_exhausts)

section \<open>A declarative reference\<close>

text \<open>
  With tolerance 0 the allocation has a closed form: row \<open>k\<close> receives what the earlier
  rows leave of the budget, clamped to its own outstanding amount.
\<close>

fun fifo_reference :: "'i FifoOpenRow list \<Rightarrow> amount \<Rightarrow> amount \<Rightarrow> 'i FifoTake list" where
  "fifo_reference [] budget earlier = []"
| "fifo_reference (r # rs) budget earlier =
     (let share = min (outstanding r) (budget - earlier);
          rest = fifo_reference rs budget (earlier + max 0 (outstanding r))
      in if 0 < share then \<lparr>ft_id = fo_id r, ft_take = share\<rparr> # rest else rest)"

lemma fifo_reference_spent: "budget \<le> earlier \<Longrightarrow> fifo_reference rows budget earlier = []"
proof (induction rows arbitrary: earlier)
  case (Cons r rs)
  then have "fifo_reference rs budget (earlier + max 0 (outstanding r)) = []" by simp
  with Cons.prems show ?case by (auto simp: Let_def min_def)
qed simp

lemma fifo_loop_reference:
  "allocateFifo_loop rows (budget - earlier) 0 = fifo_reference rows budget earlier"
proof (induction rows arbitrary: earlier)
  case (Cons r rs)
  show ?case
  proof (cases "budget \<le> earlier")
    case True
    then have "fifo_reference (r # rs) budget earlier = []" by (rule fifo_reference_spent)
    with True show ?thesis by simp
  next
    case open_budget: False
    show ?thesis
    proof (cases "budget - earlier \<le> outstanding r")
      case True
      have "fifo_reference rs budget (earlier + max 0 (outstanding r)) = []"
        using True by (intro fifo_reference_spent) auto
      moreover have "allocateFifo_loop rs 0 0 = []" by (cases rs) auto
      ultimately show ?thesis using True open_budget by (auto simp: Let_def min_def)
    next
      case False
      with open_budget Cons.IH [of "earlier + max 0 (outstanding r)"] Cons.IH [of earlier]
      show ?thesis by (auto simp: Let_def min_def max_def algebra_simps)
    qed
  qed
qed simp

section \<open>Properties\<close>

text \<open>C13. For every non-negative tolerance the FIFO allocation takes more than the
  tolerance from each row it touches, takes from distinct rows in their given order and
  never more than a row's outstanding amount, never exceeds the budget, and stops only
  when the rest of the budget is within the tolerance or every row that exceeds the
  tolerance is covered in full.\<close>

theorem allocateFifo_sound_complete:
  assumes "0 \<le> e"
  shows "(\<forall>t \<in> set (allocateFifo rows b e). e < ft_take t)
    \<and> drawn_by (\<le>) (allocateFifo rows b e) rows
    \<and> sum_of ft_take (allocateFifo rows b e) \<le> max 0 b
    \<and> (b - sum_of ft_take (allocateFifo rows b e) \<le> e
       \<or> sum_of ft_take (allocateFifo rows b e)
           = sum_of outstanding (filter (\<lambda>r. e < outstanding r) rows))"
proof (intro conjI ballI)
  show "sum_of ft_take (allocateFifo rows b e) \<le> max 0 b"
  proof (cases "0 \<le> b")
    case True
    with fifo.sum_le [OF assms this, of rows] show ?thesis by simp
  next
    case False
    with assms show ?thesis by (simp add: allocateFifo_def)
  qed
qed (use assms in \<open>auto simp: fifo.drawn dest: fifo.take_pos fifo.exhausts [of e b rows]\<close>)

theorem allocateFifo_sound_complete_witness:
  "(0 :: rat) \<le> 1 / 200
    \<and> sum_of ft_take (allocateFifo
        [\<lparr>fo_id = 1 :: nat, outstanding = 10\<rparr>, \<lparr>fo_id = 2, outstanding = 1 / 1000\<rparr>,
         \<lparr>fo_id = 3, outstanding = 5\<rparr>] 12 (1 / 200)) \<le> 12"
  using allocateFifo_sound_complete
    [of "1 / 200"
        "[\<lparr>fo_id = 1 :: nat, outstanding = 10\<rparr>, \<lparr>fo_id = 2, outstanding = 1 / 1000\<rparr>,
          \<lparr>fo_id = 3, outstanding = 5\<rparr>]" 12]
  by simp

text \<open>the allocation is strictly first-in-first-out: every take before the last one
  covers its row completely.\<close>

theorem allocateFifo_full_before_last:
  assumes "0 \<le> e" and "allocateFifo rows b e = ts @ [t]"
  shows "drawn_by (=) ts rows"
  using assms fifo_loop_full_before_last
  by (auto simp: allocateFifo_def split: if_splits)

theorem allocateFifo_full_before_last_witness:
  "drawn_by (=) [\<lparr>ft_id = 7 :: nat, ft_take = 3\<rparr>]
     [\<lparr>fo_id = 7, outstanding = 3\<rparr>, \<lparr>fo_id = 8, outstanding = 9\<rparr>]"
  by (rule allocateFifo_full_before_last
        [of 0 "[\<lparr>fo_id = 7, outstanding = 3\<rparr>, \<lparr>fo_id = 8, outstanding = 9\<rparr>]" 5
            "[\<lparr>ft_id = 7, ft_take = 3\<rparr>]" "\<lparr>ft_id = 8, ft_take = 2\<rparr>"])
     (simp_all add: allocateFifo_def)

text \<open>With tolerance 0 (stock units, supplier purchases) the loop computes the
  declarative allocation in which each row gets what the rows before it leave.\<close>

theorem allocateFifo_eq_reference:
  "allocateFifo rows budget 0 = fifo_reference rows budget 0"
  using fifo_loop_reference [of rows budget 0]
  by (auto simp: allocateFifo_def fifo_reference_spent)

end
