(* ===== verification/Largest_Remainder.thy ===== *)
theory Largest_Remainder
  imports Prelude
begin

text \<open>
  Model of \<open>packages/core/src/utils/largestRemainder.ts\<close>: splitting a total over weighted
  rows in whole units, the leftover units going to the largest fractional remainders.
\<close>

section \<open>Definitions\<close>

record 'i WeightedAllocationRow =
  wr_id :: 'i
  weight :: amount

record 'i AllocationShare =
  sh_id :: 'i
  sh_amount :: amount

definition zero_shares :: "'i WeightedAllocationRow list \<Rightarrow> 'i AllocationShare list" where
  "zero_shares rows = map (\<lambda>r. \<lparr>sh_id = wr_id r, sh_amount = 0\<rparr>) rows"

text \<open>The exact, fractional share of each row in units: \<open>rawShareUnits\<close>.\<close>

definition rawShareUnits :: "'i WeightedAllocationRow list \<Rightarrow> int \<Rightarrow> rat list" where
  "rawShareUnits rows totalUnits =
     (let clampedWeights = map (\<lambda>r. max 0 (weight r)) rows;
          weightSum = sum_list clampedWeights;
          effectiveWeights = (if weightSum > 0 then clampedWeights else map (\<lambda>_. 1) rows);
          effectiveSum = (if weightSum > 0 then weightSum else of_nat (length rows))
      in map (\<lambda>w. (w / effectiveSum) * of_int totalUnits) effectiveWeights)"

text \<open>The comparator of the remainder list: larger fraction first, then the lower index.\<close>

definition cmpRemainder :: "nat \<times> rat \<Rightarrow> nat \<times> rat \<Rightarrow> rat" where
  "cmpRemainder a b = js_or (snd b - snd a) (of_nat (fst a) - of_nat (fst b))"

definition byRemainder :: "rat list \<Rightarrow> (nat \<times> rat) list" where
  "byRemainder raw =
     js_sort cmpRemainder
       (map (\<lambda>i. (i, raw ! i - of_int \<lfloor>raw ! i\<rfloor>)) [0..<length raw])"

fun hand_out :: "nat list \<Rightarrow> int list \<Rightarrow> int list" where
  "hand_out [] shareUnits = shareUnits"
| "hand_out (i # is) shareUnits = hand_out is (shareUnits[i := shareUnits ! i + 1])"

definition shareUnits :: "rat list \<Rightarrow> int \<Rightarrow> int list" where
  "shareUnits raw totalUnits =
     (let flooredUnits = map floor raw;
          remainderUnits = totalUnits - sum_list flooredUnits
      in hand_out (take (nat remainderUnits) (map fst (byRemainder raw))) flooredUnits)"

definition unit_shares ::
    "'i WeightedAllocationRow list \<Rightarrow> rat \<Rightarrow> int \<Rightarrow> amount \<Rightarrow> 'i AllocationShare list" where
  "unit_shares rows sign totalUnits unit =
     map (\<lambda>(r, n). \<lparr>sh_id = wr_id r, sh_amount = sign * of_int n * unit\<rparr>)
       (zip rows (shareUnits (rawShareUnits rows totalUnits) totalUnits))"

definition allocateProportional ::
    "'i WeightedAllocationRow list \<Rightarrow> jsnum \<Rightarrow> amount \<Rightarrow> 'i AllocationShare list" where
  "allocateProportional rows tot unit =
     (if rows = [] then []
      else case tot of
        Fin t \<Rightarrow>
          if \<bar>t\<bar> < unit / 2 then zero_shares rows
          else let sign = (if t < 0 then - 1 else 1);
                   totalUnits = math_round (\<bar>t\<bar> / unit)
               in if totalUnits = 0 then zero_shares rows
                  else unit_shares rows sign totalUnits unit
      | _ \<Rightarrow> zero_shares rows)"

section \<open>The fractional shares\<close>

lemma length_raw [simp]: "length (rawShareUnits rows n) = length rows"
  by (simp add: rawShareUnits_def Let_def)

lemma sum_map_div: "sum_list (map (\<lambda>w. w / s * c) ws) = sum_list ws / s * (c :: rat)"
  by (induction ws) (auto simp: algebra_simps add_divide_distrib)

lemma sum_raw:
  assumes "rows \<noteq> []"
  shows "sum_list (rawShareUnits rows n) = of_int n"
proof -
  let ?c = "map (\<lambda>r. max 0 (weight r)) rows"
  show ?thesis
  proof (cases "sum_list ?c > 0")
    case True
    then show ?thesis unfolding rawShareUnits_def Let_def if_P [OF True] sum_map_div by simp
  next
    case False
    with assms show ?thesis
      unfolding rawShareUnits_def Let_def if_not_P [OF False] sum_map_div
      by (simp add: sum_list_triv)
  qed
qed

lemma raw_nonneg:
  assumes "0 \<le> n" and "v \<in> set (rawShareUnits rows n)"
  shows "0 \<le> v"
  using assms by (auto simp: rawShareUnits_def Let_def split: if_splits)

section \<open>The remainder order\<close>

interpretation remainder_order: js_comparator cmpRemainder
proof
  show "cmpRemainder x y \<le> 0 \<or> cmpRemainder y x \<le> 0" for x y
    by (auto simp: cmpRemainder_def js_or_def)
  show "cmpRemainder x y \<le> 0 \<Longrightarrow> cmpRemainder y z \<le> 0 \<Longrightarrow> cmpRemainder x z \<le> 0" for x y z
    by (auto simp: cmpRemainder_def js_or_def split: if_splits)
qed

lemma byRemainder_indices:
  "mset (map fst (byRemainder raw)) = mset [0..<length raw]"
  unfolding byRemainder_def mset_map_js_sort by (simp add: comp_def)

lemma byRemainder_entry:
  "p \<in> set (byRemainder raw) \<Longrightarrow>
     fst p < length raw \<and> snd p = raw ! fst p - of_int \<lfloor>raw ! fst p\<rfloor>"
  by (auto simp: byRemainder_def)

lemma byRemainder_distinct: "distinct (map fst (byRemainder raw))"
  using mset_eq_imp_distinct_iff [OF byRemainder_indices] by simp

lemma byRemainder_length [simp]: "length (byRemainder raw) = length raw"
  by (simp add: byRemainder_def)

lemma byRemainder_descending:
  "i < j \<Longrightarrow> j < length raw \<Longrightarrow> snd (byRemainder raw ! j) \<le> snd (byRemainder raw ! i)"
  using sorted_wrt_nth_less [OF remainder_order.sorted_js_sort, of i j
      "map (\<lambda>i. (i, raw ! i - of_int \<lfloor>raw ! i\<rfloor>)) [0..<length raw]"]
  by (auto simp: byRemainder_def cmpRemainder_def js_or_def split: if_splits)

section \<open>Handing out the leftover units\<close>

lemma length_hand_out [simp]: "length (hand_out is xs) = length xs"
  by (induction "is" xs rule: hand_out.induct) auto

lemma hand_out_nth:
  "distinct is \<Longrightarrow> j < length xs \<Longrightarrow>
     hand_out is xs ! j = xs ! j + (if j \<in> set is then 1 else 0)"
proof (induction "is" xs rule: hand_out.induct)
  case (2 i "is" xs)
  then show ?case by (cases "i = j") auto
qed simp

lemma sum_hand_out:
  "\<forall>i \<in> set is. i < length xs \<Longrightarrow> sum_list (hand_out is xs) = sum_list xs + int (length is)"
  by (induction "is" xs rule: hand_out.induct) (auto simp: sum_list_bump)

text \<open>The fractional parts add up to the number of leftover units.\<close>

definition frac_of :: "rat \<Rightarrow> rat" where
  "frac_of v = v - of_int \<lfloor>v\<rfloor>"

lemma frac_of_bounds: "0 \<le> frac_of v" "frac_of v < 1"
  unfolding frac_of_def using floor_correct [of v] by linarith+

lemma sum_frac: "sum_list (map frac_of raw) = sum_list raw - of_int (sum_list (map floor raw))"
  by (induction raw) (auto simp: frac_of_def)

lemma sum_frac_le_count:
  "sum_list (map frac_of raw) \<le> of_nat (length (filter (\<lambda>v. 0 < frac_of v) raw))"
proof (induction raw)
  case (Cons v raw)
  with frac_of_bounds [of v] show ?case by auto
qed simp

lemma length_filter_le_prefix:
  assumes "\<And>j. k \<le> j \<Longrightarrow> j < length xs \<Longrightarrow> \<not> P (xs ! j)"
  shows "length (filter P xs) \<le> k"
proof -
  have "\<forall>x \<in> set (drop k xs). \<not> P x"
    using assms by (auto simp: in_set_conv_nth)
  then have "filter P (drop k xs) = []" by (simp add: filter_empty_conv)
  then have "filter P xs = filter P (take k xs)"
    by (metis append_Nil2 append_take_drop_id filter_append)
  then show ?thesis
    by (metis length_filter_le length_take min.bounded_iff)
qed

lemma byRemainder_count:
  "length (filter (\<lambda>p. 0 < snd p) (byRemainder raw))
     = length (filter (\<lambda>v. 0 < frac_of v) raw)"
proof -
  have "mset (map snd (byRemainder raw)) = mset (map frac_of raw)"
    unfolding byRemainder_def mset_map_js_sort map_map comp_def snd_conv
      map_nth_upt [of "\<lambda>v. v - of_int \<lfloor>v\<rfloor>"] frac_of_def ..
  then have "mset (filter ((<) 0) (map snd (byRemainder raw)))
      = mset (filter ((<) 0) (map frac_of raw))" by (simp only: mset_filter)
  from mset_eq_length [OF this] show ?thesis by (simp add: filter_map comp_def)
qed

section \<open>The unit shares\<close>

lemma remainder_units:
  assumes "sum_list raw = of_int n"
  shows "of_int (n - sum_list (map floor raw)) = sum_list (map frac_of raw)"
  using assms by (simp add: sum_frac)

lemma remainder_units_bounds:
  assumes "sum_list raw = of_int n"
  shows "0 \<le> n - sum_list (map floor raw)"
    and "nat (n - sum_list (map floor raw)) \<le> length (filter (\<lambda>v. 0 < frac_of v) raw)"
proof -
  let ?r = "n - sum_list (map floor raw)"
  have "(0 :: rat) \<le> of_int ?r"
    unfolding remainder_units [OF assms]
    using frac_of_bounds by (intro sum_list_nonneg) auto
  then show nonneg: "0 \<le> ?r" by simp
  have "of_int ?r \<le> (of_nat (length (filter (\<lambda>v. 0 < frac_of v) raw)) :: rat)"
    unfolding remainder_units [OF assms] by (rule sum_frac_le_count)
  then have "?r \<le> int (length (filter (\<lambda>v. 0 < frac_of v) raw))"
    by (metis of_int_le_iff of_int_of_nat_eq)
  with nonneg show "nat ?r \<le> length (filter (\<lambda>v. 0 < frac_of v) raw)" by linarith
qed

lemma length_shareUnits [simp]: "length (shareUnits raw n) = length raw"
  by (simp add: shareUnits_def Let_def)

lemma sum_shareUnits:
  assumes "sum_list raw = of_int n"
  shows "sum_list (shareUnits raw n) = n"
proof -
  let ?r = "n - sum_list (map floor raw)"
  let ?is = "take (nat ?r) (map fst (byRemainder raw))"
  have "nat ?r \<le> length raw"
    using remainder_units_bounds(2) [OF assms] length_filter_le le_trans by blast
  then have "length ?is = nat ?r" by simp
  moreover have "\<forall>i \<in> set ?is. i < length (map floor raw)"
    by (auto dest!: in_set_takeD byRemainder_entry)
  ultimately have "sum_list (hand_out ?is (map floor raw)) = sum_list (map floor raw) + ?r"
    using remainder_units_bounds(1) [OF assms] by (simp add: sum_hand_out)
  then show ?thesis by (simp add: shareUnits_def Let_def)
qed

lemma extra_only_for_fractions:
  assumes "sum_list raw = of_int n"
    and "i \<in> set (take (nat (n - sum_list (map floor raw))) (map fst (byRemainder raw)))"
  shows "0 < frac_of (raw ! i)"
proof (rule ccontr)
  assume none: "\<not> 0 < frac_of (raw ! i)"
  let ?r = "nat (n - sum_list (map floor raw))"
  from assms(2) obtain k where k: "k < ?r" "k < length raw" "fst (byRemainder raw ! k) = i"
    by (auto simp: in_set_conv_nth)
  have at_k: "\<not> 0 < snd (byRemainder raw ! k)"
    using none k byRemainder_entry [of "byRemainder raw ! k" raw] by (simp add: frac_of_def)
  have "length (filter (\<lambda>p. 0 < snd p) (byRemainder raw)) \<le> k"
  proof (rule length_filter_le_prefix)
    fix j
    assume "k \<le> j" "j < length (byRemainder raw)"
    then have "snd (byRemainder raw ! j) \<le> snd (byRemainder raw ! k)"
      by (cases "k = j") (auto intro: byRemainder_descending)
    with at_k show "\<not> 0 < snd (byRemainder raw ! j)" by linarith
  qed
  with k(1) remainder_units_bounds(2) [OF assms(1)] show False
    by (simp add: byRemainder_count)
qed

lemma shareUnits_quota:
  assumes "sum_list raw = of_int n" and "i < length raw"
  shows "\<lfloor>raw ! i\<rfloor> \<le> shareUnits raw n ! i \<and> shareUnits raw n ! i \<le> \<lceil>raw ! i\<rceil>"
proof -
  let ?is = "take (nat (n - sum_list (map floor raw))) (map fst (byRemainder raw))"
  have dist: "distinct ?is" by (intro distinct_take byRemainder_distinct)
  have "shareUnits raw n ! i = \<lfloor>raw ! i\<rfloor> + (if i \<in> set ?is then 1 else 0)"
    using assms(2) hand_out_nth [OF dist, of i "map floor raw"]
    by (simp add: shareUnits_def Let_def)
  moreover have "\<lfloor>raw ! i\<rfloor> + 1 \<le> \<lceil>raw ! i\<rceil>" if "i \<in> set ?is"
    using extra_only_for_fractions [OF assms(1) that]
    by (simp add: frac_of_def) (metis add.commute less_ceiling_iff zless_imp_add1_zle)
  ultimately show ?thesis using floor_le_ceiling [of "raw ! i"] by auto
qed

section \<open>The allocation\<close>

lemma sum_zip_amounts:
  "length ns = length rows \<Longrightarrow>
     sum_of sh_amount (map (\<lambda>(r, n). \<lparr>sh_id = wr_id r, sh_amount = s * of_int n * u\<rparr>) (zip rows ns))
       = s * of_int (sum_list ns) * u"
proof (induction ns arbitrary: rows)
  case (Cons n ns)
  then obtain r rs where "rows = r # rs" by (cases rows) auto
  with Cons show ?case by (auto simp: algebra_simps)
qed simp

lemma sum_unit_shares:
  "rows \<noteq> [] \<Longrightarrow> sum_of sh_amount (unit_shares rows s n u) = s * of_int n * u"
  using sum_zip_amounts [of "shareUnits (rawShareUnits rows n) n" rows s u]
  by (simp add: unit_shares_def sum_shareUnits [OF sum_raw])

lemma ids_unit_shares [simp]: "map sh_id (unit_shares rows s n u) = map wr_id rows"
  by (rule nth_equalityI) (auto simp: unit_shares_def)

lemma nth_unit_shares:
  "i < length rows \<Longrightarrow>
     sh_amount (unit_shares rows s n u ! i) = s * of_int (shareUnits (rawShareUnits rows n) n ! i) * u"
  by (simp add: unit_shares_def)

lemma sum_zero_shares [simp]: "sum_of sh_amount (zero_shares rows) = 0"
  by (induction rows) (auto simp: zero_shares_def)

lemma ids_zero_shares [simp]: "map sh_id (zero_shares rows) = map wr_id rows"
  by (simp add: zero_shares_def comp_def)

lemma allocateProportional_ids:
  "map sh_id (allocateProportional rows tot unit) = map wr_id rows"
  by (auto simp: allocateProportional_def Let_def split: jsnum.splits)

text \<open>Less than half a unit rounds to no unit at all, so the two early returns agree.\<close>

lemma allocateProportional_Fin:
  fixes t :: rat
  assumes "0 < unit" and "rows \<noteq> []"
  defines "n \<equiv> math_round (\<bar>t\<bar> / unit)"
  shows "allocateProportional rows (Fin t) unit =
    (if n = 0 then zero_shares rows else unit_shares rows (if t < 0 then - 1 else 1) n unit)"
proof -
  have "n = 0" if "\<bar>t\<bar> < unit / 2"
  proof -
    have "\<not> 0 < n"
      using that assms(1) unfolding n_def math_round_pos_iff by (simp add: le_divide_eq)
    moreover have "0 \<le> n" using assms(1) unfolding n_def by (intro math_round_nonneg) simp
    ultimately show ?thesis by simp
  qed
  with assms(2) show ?thesis unfolding n_def by (simp add: allocateProportional_def Let_def)
qed

lemma allocateProportional_sum:
  assumes "0 < unit" and "rows \<noteq> []"
  shows "sum_of sh_amount (allocateProportional rows (Fin t) unit)
    = (if t < 0 then - 1 else 1) * of_int (math_round (\<bar>t\<bar> / unit)) * unit"
  unfolding allocateProportional_Fin [OF assms] using assms(2)
  by (simp add: sum_unit_shares)

section \<open>Properties\<close>

lemma signed_rounding:
  fixes t unit :: rat
  assumes "0 < unit"
  defines "n \<equiv> math_round (\<bar>t\<bar> / unit)"
  defines "s \<equiv> (if t < 0 then - 1 else 1) * of_int n * unit"
  shows "\<bar>s - t\<bar> \<le> unit / 2"
    and "\<bar>s - t\<bar> = unit / 2 \<Longrightarrow> \<bar>t\<bar> < \<bar>s\<bar>"
proof -
  have n0: "0 \<le> n" using assms(1) unfolding n_def by (intro math_round_nonneg) simp
  have t: "\<bar>t\<bar> = (\<bar>t\<bar> / unit) * unit" using assms(1) by simp
  have diff: "\<bar>s - t\<bar> = \<bar>of_int n * unit - \<bar>t\<bar>\<bar>" by (auto simp: s_def)
  have size: "\<bar>s\<bar> = of_int n * unit" using n0 assms(1) by (auto simp: s_def abs_mult)
  have scaled: "of_int n * unit - \<bar>t\<bar> = (of_int n - \<bar>t\<bar> / unit) * unit"
    using assms(1) by (simp add: algebra_simps)
  have err: "\<bar>of_int n - \<bar>t\<bar> / unit\<bar> \<le> 1 / 2" unfolding n_def by (rule math_round_error)
  show "\<bar>s - t\<bar> \<le> unit / 2"
    unfolding diff scaled abs_mult
    using mult_right_mono [OF err, of unit] assms(1) by simp
  show "\<bar>t\<bar> < \<bar>s\<bar>" if tie: "\<bar>s - t\<bar> = unit / 2"
  proof -
    have "\<bar>of_int n - \<bar>t\<bar> / unit\<bar> * unit = (1 / 2) * unit"
      using tie assms(1) unfolding diff scaled abs_mult by simp
    then have "\<bar>of_int n - \<bar>t\<bar> / unit\<bar> = 1 / 2" using assms(1) by simp
    moreover have "\<bar>t\<bar> / unit + 1 / 2 < of_int n + 1"
      unfolding n_def math_round_def using floor_correct [of "\<bar>t\<bar> / unit + 1 / 2"] by simp
    ultimately have "\<bar>t\<bar> / unit < of_int n" by linarith
    then show ?thesis unfolding size using assms(1) by (simp add: divide_less_eq)
  qed
qed

text \<open>C16. Splitting a total over at least one row returns one share per row, in the rows'
  order and under their ids, and the shares add up to the total rounded to whole units: to a
  whole number of units, at most half a unit away from the total and away from zero where
  two of them are equally near; so exactly to the total when it is a whole number of units
  itself.\<close>

theorem allocateProportional_exact:
  assumes "0 < unit" and "rows \<noteq> []"
  shows "let shares = allocateProportional rows (Fin t) unit; tot = sum_of sh_amount shares
    in map sh_id shares = map wr_id rows
      \<and> (\<exists>n. tot = of_int n * unit)
      \<and> \<bar>tot - t\<bar> \<le> unit / 2
      \<and> (\<bar>tot - t\<bar> = unit / 2 \<longrightarrow> \<bar>t\<bar> < \<bar>tot\<bar>)
      \<and> ((\<exists>n. t = of_int n * unit) \<longrightarrow> tot = t)"
proof -
  let ?n = "math_round (\<bar>t\<bar> / unit)"
  have tot: "sum_of sh_amount (allocateProportional rows (Fin t) unit)
      = (if t < 0 then - 1 else 1) * of_int ?n * unit"
    by (rule allocateProportional_sum [OF assms])
  have whole: "\<exists>n. (if t < 0 then - 1 else 1) * of_int ?n * unit = of_int n * unit"
    by (rule exI [of _ "(if t < 0 then - 1 else 1) * ?n"]) simp
  have exact: "(if t < 0 then - 1 else 1) * of_int ?n * unit = t" if "t = of_int n * unit" for n
  proof -
    have "\<bar>t\<bar> / unit = of_int \<bar>n\<bar>" using that assms(1) by (simp add: abs_mult)
    then have "?n = \<bar>n\<bar>" by (simp only: math_round_of_int)
    then show ?thesis using that assms(1) by (simp add: mult_less_0_iff)
  qed
  show ?thesis
    unfolding Let_def tot
    using allocateProportional_ids whole exact signed_rounding [OF assms(1), of t] by blast
qed

theorem allocateProportional_exact_witness:
  "let rows = [\<lparr>wr_id = 1 :: nat, weight = 1\<rparr>, \<lparr>wr_id = 2, weight = 1\<rparr>, \<lparr>wr_id = 3, weight = 1\<rparr>];
       shares = allocateProportional rows (Fin (- (2 / 3))) (1 / 100);
       tot = sum_of sh_amount shares
   in map sh_id shares = map wr_id rows
      \<and> (\<exists>n. tot = of_int n * (1 / 100))
      \<and> \<bar>tot - - (2 / 3)\<bar> \<le> 1 / 100 / 2
      \<and> (\<bar>tot - - (2 / 3)\<bar> = 1 / 100 / 2 \<longrightarrow> \<bar>- (2 / 3)\<bar> < \<bar>tot\<bar>)
      \<and> ((\<exists>n. - (2 / 3) = of_int n * (1 / 100 :: rat)) \<longrightarrow> tot = - (2 / 3))"
  unfolding Let_def
  by (rule allocateProportional_exact [unfolded Let_def]) simp_all

text \<open>The split satisfies the quota rule: counted in units, a row's share lies between
  the floor and the ceiling of its exact proportional share, so it is never a full unit
  away from it, and a row whose exact share is a whole number (a zero weight among positive
  ones in particular) receives precisely that.\<close>

theorem allocateProportional_quota:
  assumes "0 < unit" and "i < length rows"
  shows "let n = math_round (\<bar>t\<bar> / unit);
             share = sh_amount (allocateProportional rows (Fin t) unit ! i) / unit
         in of_int \<lfloor>rawShareUnits rows n ! i\<rfloor> \<le> \<bar>share\<bar>
            \<and> \<bar>share\<bar> \<le> of_int \<lceil>rawShareUnits rows n ! i\<rceil>"
proof -
  define n where "n = math_round (\<bar>t\<bar> / unit)"
  let ?share = "sh_amount (allocateProportional rows (Fin t) unit ! i) / unit"
  let ?raw = "rawShareUnits rows n"
  have ne: "rows \<noteq> []" using assms(2) by auto
  have n0: "0 \<le> n" using assms(1) unfolding n_def by (intro math_round_nonneg) simp
  have floor0: "0 \<le> \<lfloor>?raw ! i\<rfloor>"
    using raw_nonneg [OF n0, of "?raw ! i" rows] assms(2) by simp
  have quota: "\<lfloor>?raw ! i\<rfloor> \<le> shareUnits ?raw n ! i \<and> shareUnits ?raw n ! i \<le> \<lceil>?raw ! i\<rceil>"
    using assms(2) by (intro shareUnits_quota sum_raw ne) simp
  have s0: "0 \<le> shareUnits ?raw n ! i" using quota floor0 by linarith
  have "\<bar>?share\<bar> = (if n = 0 then 0 else of_int (shareUnits ?raw n ! i))"
    unfolding allocateProportional_Fin [OF assms(1) ne] n_def [symmetric]
    using assms s0 by (auto simp: zero_shares_def nth_unit_shares abs_mult)
  moreover have "?raw ! i = 0" if "n = 0"
    using assms(2) that by (auto simp: rawShareUnits_def Let_def)
  ultimately show ?thesis using quota by (auto simp: Let_def n_def [symmetric])
qed

theorem allocateProportional_quota_witness:
  "let n = math_round (\<bar>1\<bar> / (1 / 100));
       rows = [\<lparr>wr_id = 1 :: nat, weight = 2\<rparr>, \<lparr>wr_id = 2, weight = 0\<rparr>];
       share = sh_amount (allocateProportional rows (Fin 1) (1 / 100) ! 1) / (1 / 100)
   in of_int \<lfloor>rawShareUnits rows n ! 1\<rfloor> \<le> \<bar>share\<bar>
      \<and> \<bar>share\<bar> \<le> of_int \<lceil>rawShareUnits rows n ! 1\<rceil>"
  unfolding Let_def
  using allocateProportional_quota
    [of "1 / 100" 1 "[\<lparr>wr_id = 1 :: nat, weight = 2\<rparr>, \<lparr>wr_id = 2, weight = 0\<rparr>]" 1]
  by (simp add: Let_def)

end
