(* ===== verification/Exchange_Lots.thy ===== *)
theory Exchange_Lots
  imports Fifo_Coverage "HOL-Library.Product_Lexorder"
begin

text \<open>
  Model of \<open>packages/core/src/repositories/ExchangeLotRepository.ts\<close> and of the policy
  constants in \<open>constants/exchangeLotPolicy.ts\<close>: cost-basis lots of exotic currencies,
  their first-in-first-out settlement, reversals, reads and the admin adjustment.

  The three tables are lists of records in insertion order, each with the
  \<open>AUTOINCREMENT\<close> counter of its primary key. A flag column that the code writes as 0 or 1
  is a \<open>bool\<close>. The foreign key of a lot to its tenant's currency row is not modelled: an
  insert is taken to satisfy it.
\<close>

section \<open>Policy\<close>

definition LOT_EXEMPT_CURRENCIES :: "string list" where
  "LOT_EXEMPT_CURRENCIES = [''USD'', ''LBP'']"

definition isLotTrackedCurrency :: "string \<Rightarrow> bool" where
  "isLotTrackedCurrency code = (\<not> List.member LOT_EXEMPT_CURRENCIES code)"

definition LOT_QTY_EPSILON :: amount where
  "LOT_QTY_EPSILON = 5 / 1000"

section \<open>Tables\<close>

datatype LotSourceType = EXCHANGE_BUY | DRAWER_TOPUP | ADJUSTMENT

datatype LotBasisSource = LOT | MARKET

record ExchangeLotEntity =
  lot_id :: nat
  lot_tenant_id :: "nat option"
  lot_currency_code :: string
  lot_drawer_name :: string
  lot_source_type :: LotSourceType
  lot_source_table :: "string option"
  lot_source_id :: "nat option"
  original_qty :: amount
  remaining_qty :: amount
  lot_unit_cost_usd :: amount
  acquired_at :: string
  lot_is_voided :: bool
  lot_created_at :: string
  lot_updated_at :: string

record ExchangeLotSettlementEntity =
  st_id :: nat
  st_tenant_id :: "nat option"
  st_lot_id :: "nat option"
  st_basis_source :: LotBasisSource
  settled_by_table :: string
  settled_by_id :: nat
  st_qty :: amount
  st_unit_cost_usd :: amount
  st_unit_proceeds_usd :: amount
  st_profit_usd :: amount
  is_refunded :: bool
  refunded_at :: "string option"
  st_created_at :: string
  st_updated_at :: string

record ExchangePositionAdjustmentEntity =
  adj_id :: nat
  adj_tenant_id :: "nat option"
  adj_currency_code :: string
  adj_qty :: amount
  adj_unit_cost_usd :: "amount option"
  adj_note :: "string option"
  adj_created_by :: "string option"
  adj_created_at :: string
  adj_updated_at :: string

record lot_db =
  exchange_lots :: "ExchangeLotEntity list"
  lots_seq :: nat
  exchange_lot_settlements :: "ExchangeLotSettlementEntity list"
  settlements_seq :: nat
  exchange_position_adjustments :: "ExchangePositionAdjustmentEntity list"
  adjustments_seq :: nat

datatype lot_error =
    LotReadBackFailed
  | QtyNotPositive
  | CurrencyNotLotTracked string
  | AdjustQtyZero
  | UnitCostNotPositive
  | WriteOffExceedsOpen amount amount
  | AdjustmentReadBackFailed

section \<open>Method inputs and results\<close>

record CreateLotInput =
  cl_currencyCode :: string
  cl_drawerName :: "string option"
  cl_sourceType :: LotSourceType
  cl_sourceTable :: string
  cl_sourceId :: nat
  cl_qty :: amount
  cl_unitCostUsd :: amount
  cl_acquiredAt :: string

record LotSettlementResult =
  sr_id :: "nat option"
  sr_lot_id :: "nat option"
  sr_basis_source :: LotBasisSource
  sr_qty :: amount
  sr_unit_cost_usd :: amount
  sr_unit_proceeds_usd :: amount
  sr_profit_usd :: amount

record FifoConsumeResult =
  fc_settlements :: "LotSettlementResult list"
  realizedProfitUsd :: amount
  coveredQty :: amount
  marketQty :: amount

record ConsumeFifoInput =
  cf_currencyCode :: string
  cf_qty :: amount
  cf_unitProceedsUsd :: amount
  cf_settledByTable :: string
  cf_settledById :: nat
  cf_marketUnitCostUsd :: amount

record AdjustInput =
  ai_currencyCode :: string
  ai_qty :: amount
  ai_unitCostUsd :: "amount option"
  ai_note :: "string option"
  ai_createdBy :: string

record AdjustResult =
  ar_adjustment :: ExchangePositionAdjustmentEntity
  ar_lot :: "ExchangeLotEntity option"
  ar_consume :: "FifoConsumeResult option"

datatype WalkMode = SETTLE | WRITE_OFF

record WalkParams =
  wp_currencyCode :: string
  wp_qty :: amount
  wp_mode :: WalkMode
  wp_unitProceedsUsd :: amount
  wp_marketUnitCostUsd :: amount
  wp_settledByTable :: string
  wp_settledById :: nat
  wp_write :: bool

section \<open>Statements\<close>

definition open_lot :: "ExchangeLotEntity \<Rightarrow> bool" where
  "open_lot l = (\<not> lot_is_voided l \<and> remaining_qty l > LOT_QTY_EPSILON)"

definition roundMoney :: "amount \<Rightarrow> amount" where
  "roundMoney amount = round_scaled 100 amount"

definition find_lot :: "env \<Rightarrow> nat \<Rightarrow> lot_db \<Rightarrow> ExchangeLotEntity option" where
  "find_lot e i db =
     find (\<lambda>l. lot_id l = i \<and> lot_tenant_id l = Some (tenant e)) (exchange_lots db)"

definition insert_lot :: "env \<Rightarrow> CreateLotInput \<Rightarrow> lot_db \<Rightarrow> nat \<times> lot_db" where
  "insert_lot e inp db =
     (let i = Suc (lots_seq db) in
      (i, db\<lparr>exchange_lots := exchange_lots db @
               [\<lparr>lot_id = i, lot_tenant_id = Some (tenant e),
                 lot_currency_code = cl_currencyCode inp,
                 lot_drawer_name = (case cl_drawerName inp of None \<Rightarrow> ''General'' | Some d \<Rightarrow> d),
                 lot_source_type = cl_sourceType inp,
                 lot_source_table = Some (cl_sourceTable inp),
                 lot_source_id = Some (cl_sourceId inp),
                 original_qty = cl_qty inp, remaining_qty = cl_qty inp,
                 lot_unit_cost_usd = cl_unitCostUsd inp,
                 acquired_at = cl_acquiredAt inp, lot_is_voided = False,
                 lot_created_at = now e, lot_updated_at = clock e\<rparr>],
             lots_seq := i\<rparr>))"

definition createLot ::
    "env \<Rightarrow> CreateLotInput \<Rightarrow> lot_db \<Rightarrow> lot_error + ExchangeLotEntity \<times> lot_db" where
  "createLot e inp db =
     (case insert_lot e inp db of (i, db') \<Rightarrow>
        case find_lot e i db' of
          None \<Rightarrow> Inl LotReadBackFailed
        | Some lot \<Rightarrow> Inr (lot, db'))"

definition select_open_lots :: "env \<Rightarrow> string \<Rightarrow> lot_db \<Rightarrow> ExchangeLotEntity list" where
  "select_open_lots e code db =
     sort_key (\<lambda>l. (acquired_at l, lot_id l))
       (filter (\<lambda>l. lot_tenant_id l = Some (tenant e) \<and> lot_currency_code l = code \<and> open_lot l)
          (exchange_lots db))"

definition insert_settlement ::
    "env \<Rightarrow> nat option \<Rightarrow> LotBasisSource \<Rightarrow> WalkParams \<Rightarrow> amount \<Rightarrow> amount \<Rightarrow> amount \<Rightarrow> amount
      \<Rightarrow> lot_db \<Rightarrow> nat \<times> lot_db" where
  "insert_settlement e lid basis p qty cost proceeds profit db =
     (let i = Suc (settlements_seq db) in
      (i, db\<lparr>exchange_lot_settlements := exchange_lot_settlements db @
               [\<lparr>st_id = i, st_tenant_id = Some (tenant e), st_lot_id = lid,
                 st_basis_source = basis,
                 settled_by_table = wp_settledByTable p, settled_by_id = wp_settledById p,
                 st_qty = qty, st_unit_cost_usd = cost, st_unit_proceeds_usd = proceeds,
                 st_profit_usd = profit, is_refunded = False, refunded_at = None,
                 st_created_at = now e, st_updated_at = clock e\<rparr>],
             settlements_seq := i\<rparr>))"

definition add_to_lot :: "env \<Rightarrow> nat \<Rightarrow> amount \<Rightarrow> lot_db \<Rightarrow> lot_db" where
  "add_to_lot e i d db =
     db\<lparr>exchange_lots :=
          map (\<lambda>l. if lot_id l = i
                    then l\<lparr>remaining_qty := remaining_qty l + d, lot_updated_at := clock e\<rparr>
                    else l) (exchange_lots db)\<rparr>"

section \<open>The FIFO walker\<close>

record walk_state =
  ws_db :: lot_db
  ws_settlements :: "LotSettlementResult list"
  ws_remaining :: amount
  ws_covered :: amount

definition settle_lot ::
    "env \<Rightarrow> WalkParams \<Rightarrow> ExchangeLotEntity \<Rightarrow> amount \<Rightarrow> walk_state \<Rightarrow> walk_state" where
  "settle_lot e p lot tk s =
     (let unitProceeds = (case wp_mode p of WRITE_OFF \<Rightarrow> lot_unit_cost_usd lot
                                          | SETTLE \<Rightarrow> wp_unitProceedsUsd p);
          profit = roundMoney (tk * (unitProceeds - lot_unit_cost_usd lot));
          (rid, db) =
            (if wp_write p
             then case insert_settlement e (Some (lot_id lot)) LOT p tk (lot_unit_cost_usd lot)
                         unitProceeds profit (ws_db s) of
                    (i, db1) \<Rightarrow> (Some i, add_to_lot e (lot_id lot) (- tk) db1)
             else (None, ws_db s))
      in s\<lparr>ws_db := db,
           ws_settlements := ws_settlements s @
             [\<lparr>sr_id = rid, sr_lot_id = Some (lot_id lot), sr_basis_source = LOT, sr_qty = tk,
               sr_unit_cost_usd = lot_unit_cost_usd lot, sr_unit_proceeds_usd = unitProceeds,
               sr_profit_usd = profit\<rparr>],
           ws_remaining := ws_remaining s - tk,
           ws_covered := ws_covered s + tk\<rparr>)"

fun walk_lots ::
    "env \<Rightarrow> WalkParams \<Rightarrow> ExchangeLotEntity list \<Rightarrow> walk_state \<Rightarrow> walk_state" where
  "walk_lots e p [] s = s"
| "walk_lots e p (lot # lots) s =
     (if ws_remaining s \<le> LOT_QTY_EPSILON then s
      else let tk = min (ws_remaining s) (remaining_qty lot) in
        if tk \<le> LOT_QTY_EPSILON then walk_lots e p lots s
        else walk_lots e p lots (settle_lot e p lot tk s))"

definition settle_market :: "env \<Rightarrow> WalkParams \<Rightarrow> walk_state \<Rightarrow> amount \<times> walk_state" where
  "settle_market e p s =
     (if wp_mode p = SETTLE \<and> ws_remaining s > LOT_QTY_EPSILON
      then let mq = ws_remaining s;
               unitProceeds = wp_unitProceedsUsd p;
               marketCost = wp_marketUnitCostUsd p;
               profit = roundMoney (mq * (unitProceeds - marketCost));
               (rid, db) =
                 (if wp_write p
                  then case insert_settlement e None MARKET p mq marketCost unitProceeds profit
                              (ws_db s) of (i, db1) \<Rightarrow> (Some i, db1)
                  else (None, ws_db s))
           in (mq, s\<lparr>ws_db := db,
                     ws_settlements := ws_settlements s @
                       [\<lparr>sr_id = rid, sr_lot_id = None, sr_basis_source = MARKET, sr_qty = mq,
                         sr_unit_cost_usd = marketCost, sr_unit_proceeds_usd = unitProceeds,
                         sr_profit_usd = profit\<rparr>]\<rparr>)
      else (0, s))"

definition walkFifo :: "env \<Rightarrow> WalkParams \<Rightarrow> lot_db \<Rightarrow> FifoConsumeResult \<times> lot_db" where
  "walkFifo e p db =
     (let s1 = walk_lots e p (select_open_lots e (wp_currencyCode p) db)
                 \<lparr>ws_db = db, ws_settlements = [], ws_remaining = wp_qty p, ws_covered = 0\<rparr>;
          (mq, s2) = settle_market e p s1
      in (\<lparr>fc_settlements = ws_settlements s2,
           realizedProfitUsd = roundMoney (sum_of sr_profit_usd (ws_settlements s2)),
           coveredQty = ws_covered s2, marketQty = mq\<rparr>, ws_db s2))"

section \<open>Consumption\<close>

definition consume_params :: "ConsumeFifoInput \<Rightarrow> WalkParams" where
  "consume_params inp =
     \<lparr>wp_currencyCode = cf_currencyCode inp, wp_qty = cf_qty inp, wp_mode = SETTLE,
      wp_unitProceedsUsd = cf_unitProceedsUsd inp,
      wp_marketUnitCostUsd = cf_marketUnitCostUsd inp,
      wp_settledByTable = cf_settledByTable inp, wp_settledById = cf_settledById inp,
      wp_write = True\<rparr>"

definition consumeFifo ::
    "env \<Rightarrow> ConsumeFifoInput \<Rightarrow> lot_db \<Rightarrow> lot_error + FifoConsumeResult \<times> lot_db" where
  "consumeFifo e inp db =
     (if \<not> cf_qty inp > 0 then Inl QtyNotPositive
      else Inr (walkFifo e (consume_params inp) db))"

definition previewConsume ::
    "env \<Rightarrow> ConsumeFifoInput \<Rightarrow> lot_db \<Rightarrow> lot_error + FifoConsumeResult \<times> lot_db" where
  "previewConsume e inp db =
     (if \<not> cf_qty inp > 0 then Inl QtyNotPositive
      else Inr (walkFifo e ((consume_params inp)
             \<lparr>wp_settledByTable := '''', wp_settledById := 0, wp_write := False\<rparr>) db))"

definition writeOffFifo ::
    "env \<Rightarrow> string \<Rightarrow> amount \<Rightarrow> string \<Rightarrow> nat \<Rightarrow> lot_db \<Rightarrow> FifoConsumeResult \<times> lot_db" where
  "writeOffFifo e code qty by_table by_id db =
     walkFifo e \<lparr>wp_currencyCode = code, wp_qty = qty, wp_mode = WRITE_OFF,
                 wp_unitProceedsUsd = 0, wp_marketUnitCostUsd = 0,
                 wp_settledByTable = by_table, wp_settledById = by_id, wp_write = True\<rparr> db"

section \<open>Reversals\<close>

definition active_of_settler ::
    "env \<Rightarrow> string \<Rightarrow> nat \<Rightarrow> lot_db \<Rightarrow> ExchangeLotSettlementEntity list" where
  "active_of_settler e tbl i db =
     filter (\<lambda>s. st_tenant_id s = Some (tenant e) \<and> settled_by_table s = tbl
                \<and> settled_by_id s = i \<and> \<not> is_refunded s) (exchange_lot_settlements db)"

definition flag_refunded :: "env \<Rightarrow> nat \<Rightarrow> lot_db \<Rightarrow> lot_db" where
  "flag_refunded e i db =
     db\<lparr>exchange_lot_settlements :=
          map (\<lambda>s. if st_id s = i
                    then s\<lparr>is_refunded := True, refunded_at := Some (now e),
                           st_updated_at := clock e\<rparr>
                    else s) (exchange_lot_settlements db)\<rparr>"

fun restore_rows :: "env \<Rightarrow> ExchangeLotSettlementEntity list \<Rightarrow> lot_db \<Rightarrow> lot_db" where
  "restore_rows e [] db = db"
| "restore_rows e (s # ss) db =
     restore_rows e ss
       (flag_refunded e (st_id s)
          (case st_lot_id s of None \<Rightarrow> db | Some l \<Rightarrow> add_to_lot e l (st_qty s) db))"

definition restoreSettlements :: "env \<Rightarrow> string \<Rightarrow> nat \<Rightarrow> lot_db \<Rightarrow> nat \<times> lot_db" where
  "restoreSettlements e tbl i db =
     (let active = active_of_settler e tbl i db in
      if active = [] then (0, db) else (length active, restore_rows e active db))"

definition voidLotsBySource :: "env \<Rightarrow> string \<Rightarrow> nat \<Rightarrow> lot_db \<Rightarrow> nat \<times> lot_db" where
  "voidLotsBySource e tbl i db =
     (let hit = (\<lambda>l. lot_tenant_id l = Some (tenant e) \<and> lot_source_table l = Some tbl
                     \<and> lot_source_id l = Some i)
      in (length (filter hit (exchange_lots db)),
          db\<lparr>exchange_lots :=
               map (\<lambda>l. if hit l then l\<lparr>lot_is_voided := True, lot_updated_at := clock e\<rparr> else l)
                 (exchange_lots db)\<rparr>))"

text \<open>The join of settlements with their lots (\<open>l.id = s.lot_id AND l.tenant_id =
  s.tenant_id\<close>), restricted to the request's tenant.\<close>

definition settlements_with_lots ::
    "env \<Rightarrow> lot_db \<Rightarrow> (ExchangeLotSettlementEntity \<times> ExchangeLotEntity) list" where
  "settlements_with_lots e db =
     [(s, l). s \<leftarrow> exchange_lot_settlements db, st_tenant_id s = Some (tenant e),
              l \<leftarrow> exchange_lots db, st_lot_id s = Some (lot_id l),
              lot_tenant_id l = st_tenant_id s]"

definition from_source :: "string \<Rightarrow> nat \<Rightarrow> ExchangeLotEntity \<Rightarrow> bool" where
  "from_source tbl i l = (lot_source_table l = Some tbl \<and> lot_source_id l = Some i)"

definition hasActiveSettlementsAgainstSource :: "env \<Rightarrow> string \<Rightarrow> nat \<Rightarrow> lot_db \<Rightarrow> bool" where
  "hasActiveSettlementsAgainstSource e tbl i db =
     list_ex (\<lambda>(s, l). from_source tbl i l \<and> \<not> is_refunded s) (settlements_with_lots e db)"

definition getActiveSettlerTablesAgainstSource ::
    "env \<Rightarrow> string \<Rightarrow> nat \<Rightarrow> lot_db \<Rightarrow> string list" where
  "getActiveSettlerTablesAgainstSource e tbl i db =
     remdups (map (settled_by_table \<circ> fst)
       (filter (\<lambda>(s, l). from_source tbl i l \<and> \<not> is_refunded s) (settlements_with_lots e db)))"

section \<open>Reads\<close>

record LotPosition =
  pos_currency_code :: string
  open_qty :: amount
  avg_unit_cost_usd :: amount
  lot_count :: nat

definition tenant_open_lots :: "env \<Rightarrow> lot_db \<Rightarrow> ExchangeLotEntity list" where
  "tenant_open_lots e db =
     filter (\<lambda>l. lot_tenant_id l = Some (tenant e) \<and> open_lot l) (exchange_lots db)"

definition position_of :: "ExchangeLotEntity list \<Rightarrow> string \<Rightarrow> LotPosition" where
  "position_of ls code =
     (let rows = filter (\<lambda>l. lot_currency_code l = code) ls;
          oq = sum_of remaining_qty rows;
          wc = sum_of (\<lambda>l. remaining_qty l * lot_unit_cost_usd l) rows
      in \<lparr>pos_currency_code = code, open_qty = oq,
          avg_unit_cost_usd = (if oq > 0 then wc / oq else 0), lot_count = length rows\<rparr>)"

definition getPositions :: "env \<Rightarrow> lot_db \<Rightarrow> LotPosition list" where
  "getPositions e db =
     (let ls = tenant_open_lots e db
      in map (position_of ls) (sort (remdups (map lot_currency_code ls))))"

record LotSettlementWithLot =
  sl_settlement :: ExchangeLotSettlementEntity
  sl_lot_acquired_at :: "string option"
  sl_lot_source_table :: "string option"
  sl_lot_source_id :: "nat option"

definition getSettlementsBySettler ::
    "env \<Rightarrow> string \<Rightarrow> nat \<Rightarrow> lot_db \<Rightarrow> LotSettlementWithLot list" where
  "getSettlementsBySettler e tbl i db =
     map (\<lambda>s. let lot = Option.bind (st_lot_id s)
                           (\<lambda>k. find (\<lambda>l. lot_id l = k) (exchange_lots db))
               in \<lparr>sl_settlement = s,
                   sl_lot_acquired_at = map_option acquired_at lot,
                   sl_lot_source_table = Option.bind lot lot_source_table,
                   sl_lot_source_id = Option.bind lot lot_source_id\<rparr>)
       (sort_key st_id
          (filter (\<lambda>s. st_tenant_id s = Some (tenant e) \<and> settled_by_table s = tbl
                      \<and> settled_by_id s = i) (exchange_lot_settlements db)))"

definition getSettlementsAgainstSource ::
    "env \<Rightarrow> string \<Rightarrow> nat \<Rightarrow> lot_db \<Rightarrow> ExchangeLotSettlementEntity list" where
  "getSettlementsAgainstSource e tbl i db =
     sort_key st_id
       (map fst (filter (\<lambda>(s, l). from_source tbl i l) (settlements_with_lots e db)))"

record SettlerSummary =
  settled_qty :: amount
  realized_profit_usd :: amount

definition getSummaryForSettlers ::
    "env \<Rightarrow> string \<Rightarrow> nat list \<Rightarrow> lot_db \<Rightarrow> nat \<rightharpoonup> SettlerSummary" where
  "getSummaryForSettlers e tbl ids db =
     (\<lambda>i. let rows = active_of_settler e tbl i db in
          if List.member ids i \<and> rows \<noteq> []
          then Some \<lparr>settled_qty = sum_of st_qty rows,
                     realized_profit_usd = sum_of st_profit_usd rows\<rparr>
          else None)"

record SourceSummary =
  src_settled_qty :: amount
  src_realized_profit_usd :: amount
  src_original_qty :: amount
  src_remaining_qty :: amount
  src_is_voided :: bool

definition getSummaryForSources ::
    "env \<Rightarrow> string \<Rightarrow> nat list \<Rightarrow> lot_db \<Rightarrow> nat \<rightharpoonup> SourceSummary" where
  "getSummaryForSources e tbl ids db =
     (\<lambda>i. let ls = filter (\<lambda>l. lot_tenant_id l = Some (tenant e) \<and> from_source tbl i l)
                     (exchange_lots db);
              ss = map fst (filter (\<lambda>(s, l). from_source tbl i l \<and> \<not> is_refunded s)
                     (settlements_with_lots e db))
          in if List.member ids i \<and> ls \<noteq> []
             then Some \<lparr>src_settled_qty = sum_of st_qty ss,
                        src_realized_profit_usd = sum_of st_profit_usd ss,
                        src_original_qty = sum_of original_qty ls,
                        src_remaining_qty = sum_of remaining_qty ls,
                        src_is_voided = list_ex lot_is_voided ls\<rparr>
             else None)"

definition getOpenQtyForCurrency :: "env \<Rightarrow> string \<Rightarrow> lot_db \<Rightarrow> amount" where
  "getOpenQtyForCurrency e code db =
     sum_of remaining_qty
       (filter (\<lambda>l. lot_tenant_id l = Some (tenant e) \<and> lot_currency_code l = code \<and> open_lot l)
          (exchange_lots db))"

section \<open>Position adjustment\<close>

definition insert_adjustment ::
    "env \<Rightarrow> AdjustInput \<Rightarrow> amount option \<Rightarrow> lot_db \<Rightarrow> nat \<times> lot_db" where
  "insert_adjustment e inp cost db =
     (let i = Suc (adjustments_seq db) in
      (i, db\<lparr>exchange_position_adjustments := exchange_position_adjustments db @
               [\<lparr>adj_id = i, adj_tenant_id = Some (tenant e),
                 adj_currency_code = ai_currencyCode inp, adj_qty = ai_qty inp,
                 adj_unit_cost_usd = cost, adj_note = ai_note inp,
                 adj_created_by = Some (ai_createdBy inp),
                 adj_created_at = now e, adj_updated_at = clock e\<rparr>],
             adjustments_seq := i\<rparr>))"

definition getAdjustmentById ::
    "env \<Rightarrow> nat \<Rightarrow> lot_db \<Rightarrow> lot_error + ExchangePositionAdjustmentEntity" where
  "getAdjustmentById e i db =
     (case find (\<lambda>a. adj_id a = i \<and> adj_tenant_id a = Some (tenant e))
             (exchange_position_adjustments db) of
        None \<Rightarrow> Inl AdjustmentReadBackFailed
      | Some a \<Rightarrow> Inr a)"

definition adjust_add :: "env \<Rightarrow> AdjustInput \<Rightarrow> lot_db \<Rightarrow> lot_error + AdjustResult \<times> lot_db" where
  "adjust_add e inp db =
     (case ai_unitCostUsd inp of
        None \<Rightarrow> Inl UnitCostNotPositive
      | Some cost \<Rightarrow>
          if \<not> cost > 0 then Inl UnitCostNotPositive
          else case insert_adjustment e inp (Some cost) db of (i, db1) \<Rightarrow>
            case getAdjustmentById e i db1 of
              Inl err \<Rightarrow> Inl err
            | Inr a \<Rightarrow>
                (case createLot e
                   \<lparr>cl_currencyCode = ai_currencyCode inp, cl_drawerName = None,
                    cl_sourceType = ADJUSTMENT,
                    cl_sourceTable = ''exchange_position_adjustments'', cl_sourceId = adj_id a,
                    cl_qty = ai_qty inp, cl_unitCostUsd = cost, cl_acquiredAt = now e\<rparr> db1 of
                   Inl err \<Rightarrow> Inl err
                 | Inr (lot, db2) \<Rightarrow>
                     Inr (\<lparr>ar_adjustment = a, ar_lot = Some lot, ar_consume = None\<rparr>, db2)))"

definition adjust_write_off ::
    "env \<Rightarrow> AdjustInput \<Rightarrow> lot_db \<Rightarrow> lot_error + AdjustResult \<times> lot_db" where
  "adjust_write_off e inp db =
     (let writeOffQty = \<bar>ai_qty inp\<bar>;
          openQty = getOpenQtyForCurrency e (ai_currencyCode inp) db
      in if writeOffQty > openQty + LOT_QTY_EPSILON
         then Inl (WriteOffExceedsOpen writeOffQty openQty)
         else case insert_adjustment e inp None db of (i, db1) \<Rightarrow>
           case getAdjustmentById e i db1 of
             Inl err \<Rightarrow> Inl err
           | Inr a \<Rightarrow>
               (case writeOffFifo e (ai_currencyCode inp) writeOffQty
                       ''exchange_position_adjustments'' (adj_id a) db1 of
                  (r, db2) \<Rightarrow>
                    Inr (\<lparr>ar_adjustment = a, ar_lot = None, ar_consume = Some r\<rparr>, db2)))"

definition adjust :: "env \<Rightarrow> AdjustInput \<Rightarrow> lot_db \<Rightarrow> lot_error + AdjustResult \<times> lot_db" where
  "adjust e inp db =
     (if \<not> isLotTrackedCurrency (ai_currencyCode inp)
      then Inl (CurrencyNotLotTracked (ai_currencyCode inp))
      else if ai_qty inp = 0 then Inl AdjustQtyZero
      else if ai_qty inp > 0 then adjust_add e inp db
      else adjust_write_off e inp db)"

end
