(* ===== verification/Exchange_Lots_Safety.thy ===== *)
theory Exchange_Lots_Safety
  imports Exchange_Lots
begin

text \<open>
  Correctness of the exchange lot engine: the FIFO walker refines \<open>allocateFifo\<close>, every
  operation keeps the ledger balanced (a lot's original quantity is its remaining quantity
  plus its active settlements), previews write nothing, reversals undo consumption, and no
  operation touches another tenant's rows.
\<close>

section \<open>Rounding\<close>

interpretation lot_money: rounding roundMoney "1 / 100"
proof -
  have "roundMoney = round_scaled 100" by (rule ext) (simp add: roundMoney_def)
  then show "rounding roundMoney (1 / 100)" using rounding_round_scaled [of 100] by simp
qed

lemma eps_pos [simp]: "0 < LOT_QTY_EPSILON" "0 \<le> LOT_QTY_EPSILON"
  by (simp_all add: LOT_QTY_EPSILON_def)

section \<open>The walker refines the FIFO allocator\<close>

definition lot_open_row :: "ExchangeLotEntity \<Rightarrow> nat FifoOpenRow" where
  "lot_open_row l = \<lparr>fo_id = lot_id l, outstanding = remaining_qty l\<rparr>"

abbreviation lot_takes :: "ExchangeLotEntity list \<Rightarrow> amount \<Rightarrow> nat FifoTake list" where
  "lot_takes lots q \<equiv> allocateFifo_loop (map lot_open_row lots) q LOT_QTY_EPSILON"

lemma settle_lot_simps [simp]:
  "ws_remaining (settle_lot e p lot tk s) = ws_remaining s - tk"
  "ws_covered (settle_lot e p lot tk s) = ws_covered s + tk"
  by (simp_all add: settle_lot_def Let_def split: prod.splits)

lemma settle_lot_settlements:
  "map (\<lambda>r. (sr_lot_id r, sr_qty r)) (ws_settlements (settle_lot e p lot tk s))
     = map (\<lambda>r. (sr_lot_id r, sr_qty r)) (ws_settlements s) @ [(Some (lot_id lot), tk)]"
  by (simp add: settle_lot_def Let_def split: prod.splits)

lemma walk_lots_takes:
  "ws_remaining (walk_lots e p lots s) = ws_remaining s - sum_of ft_take (lot_takes lots (ws_remaining s))
   \<and> ws_covered (walk_lots e p lots s) = ws_covered s + sum_of ft_take (lot_takes lots (ws_remaining s))
   \<and> map (\<lambda>r. (sr_lot_id r, sr_qty r)) (ws_settlements (walk_lots e p lots s))
       = map (\<lambda>r. (sr_lot_id r, sr_qty r)) (ws_settlements s)
         @ map (\<lambda>t. (Some (ft_id t), ft_take t)) (lot_takes lots (ws_remaining s))"
proof (induction lots arbitrary: s)
  case (Cons lot lots)
  let ?t = "min (ws_remaining s) (remaining_qty lot)"
  show ?case
  proof (cases "ws_remaining s \<le> LOT_QTY_EPSILON \<or> ?t \<le> LOT_QTY_EPSILON")
    case True
    with Cons.IH [of s] show ?thesis
      by (auto simp: Let_def lot_open_row_def)
  next
    case False
    with Cons.IH [of "settle_lot e p lot ?t s"] show ?thesis
      by (simp add: Let_def lot_open_row_def settle_lot_settlements)
  qed
qed simp

section \<open>What the walker writes\<close>

lemma settle_lot_db:
  "ws_db (settle_lot e p lot tk s) =
     (if wp_write p
      then add_to_lot e (lot_id lot) (- tk)
        (snd (insert_settlement e (Some (lot_id lot)) LOT p tk (lot_unit_cost_usd lot)
           (case wp_mode p of WRITE_OFF \<Rightarrow> lot_unit_cost_usd lot | SETTLE \<Rightarrow> wp_unitProceedsUsd p)
           (roundMoney (tk * ((case wp_mode p of WRITE_OFF \<Rightarrow> lot_unit_cost_usd lot
                                | SETTLE \<Rightarrow> wp_unitProceedsUsd p) - lot_unit_cost_usd lot)))
           (ws_db s)))
      else ws_db s)"
  by (simp add: settle_lot_def insert_settlement_def Let_def)

lemma settle_market_db:
  "ws_db (snd (settle_market e p s)) =
     (if wp_mode p = SETTLE \<and> ws_remaining s > LOT_QTY_EPSILON \<and> wp_write p
      then snd (insert_settlement e None MARKET p (ws_remaining s) (wp_marketUnitCostUsd p)
             (wp_unitProceedsUsd p)
             (roundMoney (ws_remaining s * (wp_unitProceedsUsd p - wp_marketUnitCostUsd p)))
             (ws_db s))
      else ws_db s)"
  by (auto simp: settle_market_def insert_settlement_def Let_def)

lemma walkFifo_db:
  "snd (walkFifo e p db) =
     ws_db (snd (settle_market e p
       (walk_lots e p (select_open_lots e (wp_currencyCode p) db)
          \<lparr>ws_db = db, ws_settlements = [], ws_remaining = wp_qty p, ws_covered = 0\<rparr>)))"
  by (simp add: walkFifo_def Let_def split: prod.splits)

section \<open>The ledger invariant\<close>

definition active_qty :: "lot_db \<Rightarrow> nat \<Rightarrow> amount" where
  "active_qty db i =
     sum_of st_qty (filter (\<lambda>s. st_lot_id s = Some i \<and> \<not> is_refunded s)
       (exchange_lot_settlements db))"

definition keys_ok :: "lot_db \<Rightarrow> bool" where
  "keys_ok db \<longleftrightarrow>
     distinct (map lot_id (exchange_lots db))
     \<and> (\<forall>l \<in> set (exchange_lots db). lot_id l \<le> lots_seq db)
     \<and> distinct (map st_id (exchange_lot_settlements db))
     \<and> (\<forall>s \<in> set (exchange_lot_settlements db). st_id s \<le> settlements_seq db)
     \<and> distinct (map adj_id (exchange_position_adjustments db))
     \<and> (\<forall>a \<in> set (exchange_position_adjustments db). adj_id a \<le> adjustments_seq db)"

definition lots_balanced :: "lot_db \<Rightarrow> bool" where
  "lots_balanced db \<longleftrightarrow>
     (\<forall>l \<in> set (exchange_lots db).
        0 \<le> remaining_qty l \<and> remaining_qty l + active_qty db (lot_id l) = original_qty l)"

definition settlement_ok :: "lot_db \<Rightarrow> ExchangeLotSettlementEntity \<Rightarrow> bool" where
  "settlement_ok db s \<longleftrightarrow>
     0 < st_qty s
     \<and> (case st_lot_id s of
          None \<Rightarrow> st_basis_source s = MARKET
        | Some i \<Rightarrow> st_basis_source s = LOT
            \<and> (\<exists>l \<in> set (exchange_lots db). lot_id l = i \<and> lot_tenant_id l = st_tenant_id s))"

definition lot_inv :: "lot_db \<Rightarrow> bool" where
  "lot_inv db \<longleftrightarrow> keys_ok db \<and> lots_balanced db
     \<and> (\<forall>s \<in> set (exchange_lot_settlements db). settlement_ok db s)"

lemmas lot_inv_defs = lot_inv_def keys_ok_def lots_balanced_def settlement_ok_def

lemma keys_unique:
  "keys_ok db \<Longrightarrow> l \<in> set (exchange_lots db) \<Longrightarrow> l' \<in> set (exchange_lots db) \<Longrightarrow>
     lot_id l = lot_id l' \<Longrightarrow> l = l'"
  by (auto simp: keys_ok_def distinct_map dest: inj_onD)

lemma settlement_keys_unique:
  "keys_ok db \<Longrightarrow> s \<in> set (exchange_lot_settlements db) \<Longrightarrow>
     s' \<in> set (exchange_lot_settlements db) \<Longrightarrow> st_id s = st_id s' \<Longrightarrow> s = s'"
  by (auto simp: keys_ok_def distinct_map dest: inj_onD)

lemma active_qty_nonneg:
  "lot_inv db \<Longrightarrow> 0 \<le> active_qty db i"
  unfolding active_qty_def
  by (intro sum_of_nonneg) (auto simp: lot_inv_def settlement_ok_def)

lemma lot_bounds:
  assumes "lot_inv db" and "l \<in> set (exchange_lots db)"
  shows "0 \<le> remaining_qty l" "remaining_qty l \<le> original_qty l"
proof -
  from assms have "0 \<le> remaining_qty l"
    and "remaining_qty l + active_qty db (lot_id l) = original_qty l"
    by (auto simp: lot_inv_def lots_balanced_def)
  with active_qty_nonneg [OF assms(1), of "lot_id l"]
  show "0 \<le> remaining_qty l" "remaining_qty l \<le> original_qty l" by auto
qed

section \<open>Frame rules of the table updates\<close>

lemma add_to_lot_frame [row_simps]:
  "exchange_lot_settlements (add_to_lot e i d db) = exchange_lot_settlements db"
  "settlements_seq (add_to_lot e i d db) = settlements_seq db"
  "lots_seq (add_to_lot e i d db) = lots_seq db"
  "exchange_position_adjustments (add_to_lot e i d db) = exchange_position_adjustments db"
  "adjustments_seq (add_to_lot e i d db) = adjustments_seq db"
  "map lot_id (exchange_lots (add_to_lot e i d db)) = map lot_id (exchange_lots db)"
  by (auto simp: add_to_lot_def)

lemma insert_settlement_frame [row_simps]:
  "exchange_lots (snd (insert_settlement e l b p q c pr pf db)) = exchange_lots db"
  "lots_seq (snd (insert_settlement e l b p q c pr pf db)) = lots_seq db"
  "exchange_position_adjustments (snd (insert_settlement e l b p q c pr pf db))
     = exchange_position_adjustments db"
  "adjustments_seq (snd (insert_settlement e l b p q c pr pf db)) = adjustments_seq db"
  by (auto simp: insert_settlement_def Let_def)

lemma flag_refunded_frame [row_simps]:
  "exchange_lots (flag_refunded e i db) = exchange_lots db"
  "lots_seq (flag_refunded e i db) = lots_seq db"
  "settlements_seq (flag_refunded e i db) = settlements_seq db"
  "exchange_position_adjustments (flag_refunded e i db) = exchange_position_adjustments db"
  "adjustments_seq (flag_refunded e i db) = adjustments_seq db"
  "map st_id (exchange_lot_settlements (flag_refunded e i db))
     = map st_id (exchange_lot_settlements db)"
  by (auto simp: flag_refunded_def)

lemma active_qty_add_to_lot [row_simps]: "active_qty (add_to_lot e i d db) = active_qty db"
  by (rule ext) (simp add: active_qty_def row_simps)

lemma active_qty_insert:
  "active_qty (snd (insert_settlement e l b p q c pr pf db)) i
     = active_qty db i + (if l = Some i then q else 0)"
  by (simp add: active_qty_def insert_settlement_def Let_def)

lemma add_to_lot_member:
  "l \<in> set (exchange_lots db) \<Longrightarrow> lot_id l \<noteq> i \<Longrightarrow> l \<in> set (exchange_lots (add_to_lot e i d db))"
  by (force simp: add_to_lot_def)

lemma keys_ok_add_to_lot: "keys_ok (add_to_lot e i d db) = keys_ok db"
proof -
  have "(\<forall>l \<in> set (exchange_lots (add_to_lot e i d db)). lot_id l \<le> n)
      = (\<forall>l \<in> set (exchange_lots db). lot_id l \<le> n)" for n
    by (auto simp: add_to_lot_def simp del: if_image_distrib)
  then show ?thesis by (simp add: keys_ok_def row_simps)
qed

lemma keys_ok_insert_settlement:
  "keys_ok db \<Longrightarrow> keys_ok (snd (insert_settlement e l b p q c pr pf db))"
  by (fastforce simp: keys_ok_def insert_settlement_def Let_def)

lemma settlement_ok_add_to_lot: "settlement_ok (add_to_lot e i d db) = settlement_ok db"
proof (rule ext)
  fix s
  have "(\<exists>l \<in> set (exchange_lots (add_to_lot e i d db)). lot_id l = k \<and> lot_tenant_id l = t)
      = (\<exists>l \<in> set (exchange_lots db). lot_id l = k \<and> lot_tenant_id l = t)" for k t
    by (auto simp: add_to_lot_def simp del: if_image_distrib)
  then show "settlement_ok (add_to_lot e i d db) s = settlement_ok db s"
    by (simp add: settlement_ok_def split: option.splits)
qed

section \<open>Consumption keeps the ledger balanced\<close>

lemma settle_step_inv:
  assumes inv: "lot_inv db" and lot: "lot \<in> set (exchange_lots db)"
    and ten: "lot_tenant_id lot = Some (tenant e)"
    and tk: "0 < tk" "tk \<le> remaining_qty lot"
  shows "lot_inv (add_to_lot e (lot_id lot) (- tk)
    (snd (insert_settlement e (Some (lot_id lot)) LOT p tk c pr pf db)))"
    (is "lot_inv ?db'")
proof -
  let ?db1 = "snd (insert_settlement e (Some (lot_id lot)) LOT p tk c pr pf db)"
  have keys: "keys_ok db" using inv by (simp add: lot_inv_def)
  have "lots_balanced ?db'"
    unfolding lots_balanced_def
  proof
    fix l'
    assume "l' \<in> set (exchange_lots ?db')"
    then obtain l where l: "l \<in> set (exchange_lots db)"
      and l': "l' = (if lot_id l = lot_id lot
                     then l\<lparr>remaining_qty := remaining_qty l - tk, lot_updated_at := clock e\<rparr>
                     else l)"
      by (auto simp: add_to_lot_def row_simps)
    from inv l have bal: "0 \<le> remaining_qty l"
      "remaining_qty l + active_qty db (lot_id l) = original_qty l"
      by (auto simp: lot_inv_def lots_balanced_def)
    have act: "active_qty ?db' i = active_qty db i + (if lot_id lot = i then tk else 0)" for i
      by (simp add: row_simps active_qty_insert)
    show "0 \<le> remaining_qty l' \<and> remaining_qty l' + active_qty ?db' (lot_id l') = original_qty l'"
    proof (cases "lot_id l = lot_id lot")
      case True
      then have "l = lot" using keys_unique [OF keys l lot] by simp
      with bal tk True show ?thesis by (simp add: l' act)
    next
      case False
      with bal show ?thesis by (simp add: l' act)
    qed
  qed
  moreover have "\<forall>s \<in> set (exchange_lot_settlements ?db1). settlement_ok ?db1 s"
    using inv lot ten tk
    by (auto simp: lot_inv_def settlement_ok_def insert_settlement_def Let_def split: option.splits)
  ultimately show ?thesis
    using keys
    by (simp add: lot_inv_def keys_ok_add_to_lot keys_ok_insert_settlement settlement_ok_add_to_lot
        row_simps)
qed

lemma market_step_inv:
  assumes "lot_inv db" and "0 < q"
  shows "lot_inv (snd (insert_settlement e None MARKET p q c pr pf db))"
  using assms
  by (auto simp: lot_inv_def keys_ok_insert_settlement lots_balanced_def active_qty_insert row_simps)
     (auto simp: settlement_ok_def insert_settlement_def Let_def split: option.splits)

lemma walk_lots_inv:
  assumes "wp_write p"
    and "lot_inv (ws_db s)" and "set lots \<subseteq> set (exchange_lots (ws_db s))"
    and "distinct (map lot_id lots)"
    and "\<forall>l \<in> set lots. lot_tenant_id l = Some (tenant e)"
  shows "lot_inv (ws_db (walk_lots e p lots s))"
  using assms(2-5)
proof (induction lots arbitrary: s)
  case (Cons lot lots)
  let ?t = "min (ws_remaining s) (remaining_qty lot)"
  show ?case
  proof (cases "ws_remaining s \<le> LOT_QTY_EPSILON \<or> ?t \<le> LOT_QTY_EPSILON")
    case True
    with Cons show ?thesis by (auto simp: Let_def)
  next
    case False
    then have "LOT_QTY_EPSILON < ?t" by (simp add: not_le)
    with eps_pos(1) have t: "0 < ?t" by (rule order.strict_trans)
    let ?s = "settle_lot e p lot ?t s"
    have "lot_inv (ws_db ?s)"
      using Cons.prems t assms(1) by (simp add: settle_lot_db settle_step_inv del: min_less_iff_conj)
    moreover have "set lots \<subseteq> set (exchange_lots (ws_db ?s))"
    proof
      fix l
      assume l: "l \<in> set lots"
      then have "lot_id l \<in> lot_id ` set lots" by (rule imageI)
      with Cons.prems have "lot_id l \<noteq> lot_id lot" by auto
      with l Cons.prems assms(1) show "l \<in> set (exchange_lots (ws_db ?s))"
        by (auto simp: settle_lot_db row_simps intro!: add_to_lot_member)
    qed
    ultimately have "lot_inv (ws_db (walk_lots e p lots ?s))"
      using Cons by auto
    with False show ?thesis by (simp add: Let_def)
  qed
qed simp

lemma select_open_lots_props:
  assumes "keys_ok db"
  shows "set (select_open_lots e code db) \<subseteq> set (exchange_lots db)"
    and "distinct (map lot_id (select_open_lots e code db))"
    and "\<forall>l \<in> set (select_open_lots e code db). lot_tenant_id l = Some (tenant e) \<and> open_lot l
           \<and> lot_currency_code l = code"
proof -
  have "mset (map lot_id (select_open_lots e code db))
      = mset (map lot_id (filter (\<lambda>l. lot_tenant_id l = Some (tenant e)
            \<and> lot_currency_code l = code \<and> open_lot l) (exchange_lots db)))"
    by (simp add: select_open_lots_def)
  moreover have "distinct (map lot_id (filter P (exchange_lots db)))" for P
    using assms by (auto simp: keys_ok_def distinct_map_filter)
  ultimately show "distinct (map lot_id (select_open_lots e code db))"
    using mset_eq_imp_distinct_iff by blast
qed (auto simp: select_open_lots_def)

lemma walkFifo_inv:
  assumes "lot_inv db" and "wp_write p"
  shows "lot_inv (snd (walkFifo e p db))"
proof -
  let ?s0 = "\<lparr>ws_db = db, ws_settlements = [], ws_remaining = wp_qty p, ws_covered = 0\<rparr>"
  let ?lots = "select_open_lots e (wp_currencyCode p) db"
  have keys: "keys_ok db" using assms(1) by (simp add: lot_inv_def)
  have inv: "lot_inv (ws_db (walk_lots e p ?lots ?s0))"
    using assms select_open_lots_props [OF keys, of e "wp_currencyCode p"]
    by (intro walk_lots_inv) auto
  have "0 < ws_remaining (walk_lots e p ?lots ?s0)"
    if "LOT_QTY_EPSILON < ws_remaining (walk_lots e p ?lots ?s0)"
    using that eps_pos(1) by linarith
  with inv show ?thesis
    by (auto simp: walkFifo_db settle_market_db intro!: market_step_inv)
qed

section \<open>Restoring keeps the ledger balanced\<close>

lemma active_qty_flag:
  assumes "keys_ok db" and "s \<in> set (exchange_lot_settlements db)" and "\<not> is_refunded s"
  shows "active_qty (flag_refunded e (st_id s) db) i
     = active_qty db i - (if st_lot_id s = Some i then st_qty s else 0)"
proof -
  have "distinct (map st_id (exchange_lot_settlements db))"
    using assms(1) by (simp add: keys_ok_def)
  from sum_of_filter_update_key [OF this assms(2)] show ?thesis
    using assms(3) by (simp add: active_qty_def flag_refunded_def)
qed

lemma keys_ok_flag: "keys_ok (flag_refunded e i db) = keys_ok db"
proof -
  have "(\<forall>s \<in> set (exchange_lot_settlements (flag_refunded e i db)). st_id s \<le> n)
      = (\<forall>s \<in> set (exchange_lot_settlements db). st_id s \<le> n)" for n
    by (auto simp: flag_refunded_def simp del: if_image_distrib)
  then show ?thesis by (simp add: keys_ok_def row_simps)
qed

lemma settlement_ok_flag:
  "(\<forall>s \<in> set (exchange_lot_settlements (flag_refunded e i db)). settlement_ok (flag_refunded e i db) s)
     = (\<forall>s \<in> set (exchange_lot_settlements db). settlement_ok db s)"
proof -
  have db: "settlement_ok (flag_refunded e i db) = settlement_ok db"
    by (rule ext) (simp add: settlement_ok_def row_simps split: option.splits)
  have "settlement_ok db (s\<lparr>is_refunded := b, refunded_at := r, st_updated_at := u\<rparr>) = settlement_ok db s"
    for s b r u by (simp add: settlement_ok_def split: option.splits)
  then show ?thesis
    unfolding db by (auto simp: flag_refunded_def simp del: if_image_distrib)
qed

definition restore_step :: "env \<Rightarrow> ExchangeLotSettlementEntity \<Rightarrow> lot_db \<Rightarrow> lot_db" where
  "restore_step e s db =
     flag_refunded e (st_id s)
       (case st_lot_id s of None \<Rightarrow> db | Some l \<Rightarrow> add_to_lot e l (st_qty s) db)"

lemma restore_rows_fold: "restore_rows e ss db = fold (restore_step e) ss db"
  by (induction ss arbitrary: db) (simp_all add: restore_step_def)

lemma restore_step_settlements:
  "exchange_lot_settlements (restore_step e s db) = exchange_lot_settlements (flag_refunded e (st_id s) db)"
  by (simp add: restore_step_def flag_refunded_def row_simps split: option.splits)

lemma restore_step_inv:
  assumes inv: "lot_inv db" and s: "s \<in> set (exchange_lot_settlements db)" "\<not> is_refunded s"
  shows "lot_inv (restore_step e s db)" (is "lot_inv ?db'")
proof -
  let ?db1 = "case st_lot_id s of None \<Rightarrow> db | Some l \<Rightarrow> add_to_lot e l (st_qty s) db"
  from inv have keys: "keys_ok db" and bal: "lots_balanced db"
    and ok: "\<forall>s \<in> set (exchange_lot_settlements db). settlement_ok db s"
    by (simp_all add: lot_inv_def)
  have keys1: "keys_ok ?db1" using keys by (simp add: keys_ok_add_to_lot split: option.splits)
  have s1: "s \<in> set (exchange_lot_settlements ?db1)"
    using s by (simp add: row_simps split: option.splits)
  have act1: "active_qty ?db1 = active_qty db" by (simp add: row_simps split: option.splits)
  have act: "active_qty ?db' i = active_qty db i - (if st_lot_id s = Some i then st_qty s else 0)" for i
    using active_qty_flag [OF keys1 s1 s(2)] by (simp add: act1 restore_step_def)
  have qty: "0 < st_qty s" using ok s by (simp add: settlement_ok_def)
  have "lots_balanced ?db'"
    unfolding lots_balanced_def
  proof
    fix l'
    assume "l' \<in> set (exchange_lots ?db')"
    then obtain l where l: "l \<in> set (exchange_lots db)"
      and l': "l' = (if st_lot_id s = Some (lot_id l)
                     then l\<lparr>remaining_qty := remaining_qty l + st_qty s, lot_updated_at := clock e\<rparr>
                     else l)"
      by (auto simp: restore_step_def row_simps add_to_lot_def split: option.splits)
    from bal l have "0 \<le> remaining_qty l"
      and "remaining_qty l + active_qty db (lot_id l) = original_qty l"
      by (simp_all add: lots_balanced_def)
    with qty show "0 \<le> remaining_qty l'
        \<and> remaining_qty l' + active_qty ?db' (lot_id l') = original_qty l'"
      by (simp add: l' act)
  qed
  moreover have "\<forall>s \<in> set (exchange_lot_settlements ?db'). settlement_ok ?db' s"
    unfolding restore_step_def settlement_ok_flag
    using ok by (simp add: settlement_ok_add_to_lot row_simps split: option.splits)
  ultimately show ?thesis
    using keys1 by (simp add: lot_inv_def restore_step_def keys_ok_flag)
qed

lemma restore_rows_inv:
  assumes "lot_inv db" and "set ss \<subseteq> set (exchange_lot_settlements db)"
    and "distinct (map st_id ss)" and "\<forall>s \<in> set ss. \<not> is_refunded s"
  shows "lot_inv (restore_rows e ss db)"
  using assms unfolding restore_rows_fold
proof (induction ss arbitrary: db)
  case (Cons s ss)
  have "set ss \<subseteq> set (exchange_lot_settlements (restore_step e s db))"
  proof
    fix s'
    assume s': "s' \<in> set ss"
    then have "st_id s' \<in> st_id ` set ss" by (rule imageI)
    with Cons.prems have "st_id s' \<noteq> st_id s" by auto
    with s' Cons.prems show "s' \<in> set (exchange_lot_settlements (restore_step e s db))"
      by (force simp: restore_step_settlements flag_refunded_def)
  qed
  with Cons show ?case by (simp add: restore_step_inv)
qed simp

lemma distinct_ids_filter:
  "keys_ok db \<Longrightarrow> distinct (map st_id (filter P (exchange_lot_settlements db)))"
  by (simp add: keys_ok_def distinct_map_filter)

lemma restoreSettlements_inv:
  assumes "lot_inv db"
  shows "lot_inv (snd (restoreSettlements e tbl i db))"
proof -
  have "distinct (map st_id (active_of_settler e tbl i db))"
    using assms by (simp add: active_of_settler_def lot_inv_def distinct_ids_filter)
  then have "lot_inv (restore_rows e (active_of_settler e tbl i db) db)"
    using assms by (intro restore_rows_inv) (auto simp: active_of_settler_def)
  with assms show ?thesis by (simp add: restoreSettlements_def Let_def)
qed

lemma restore_rows_settlements:
  assumes "keys_ok db"
  shows "exchange_lot_settlements (restore_rows e ss db) =
     map (\<lambda>s. if st_id s \<in> st_id ` set ss
              then s\<lparr>is_refunded := True, refunded_at := Some (now e), st_updated_at := clock e\<rparr>
              else s) (exchange_lot_settlements db)"
  unfolding restore_rows_fold
  by (induction ss arbitrary: db) (auto simp: restore_step_settlements flag_refunded_def)

section \<open>Inserting, voiding and adjusting keep the ledger balanced\<close>

lemma active_qty_unused:
  assumes "lot_inv db" and "lots_seq db < i"
  shows "active_qty db i = 0"
proof -
  have fresh: "lot_id l \<noteq> i" if "l \<in> set (exchange_lots db)" for l
    using assms that by (auto simp: lot_inv_def keys_ok_def)
  have "st_lot_id s \<noteq> Some i" if "s \<in> set (exchange_lot_settlements db)" for s
  proof -
    from assms(1) that have "settlement_ok db s" by (simp add: lot_inv_def)
    with fresh show ?thesis by (auto simp: settlement_ok_def)
  qed
  then show ?thesis by (simp add: active_qty_def filter_empty_conv)
qed

lemma insert_lot_inv:
  assumes inv: "lot_inv db" and qty: "0 \<le> cl_qty inp"
  shows "lot_inv (snd (insert_lot e inp db))" (is "lot_inv ?db'")
proof -
  have act: "active_qty ?db' = active_qty db"
    by (rule ext) (simp add: active_qty_def insert_lot_def Let_def)
  have "lots_balanced ?db'"
    using inv qty active_qty_unused [OF inv, of "Suc (lots_seq db)"]
    by (auto simp: lots_balanced_def lot_inv_def act) (auto simp: insert_lot_def Let_def)
  moreover have "keys_ok ?db'"
    using inv by (fastforce simp: lot_inv_def keys_ok_def insert_lot_def Let_def)
  moreover have "settlement_ok ?db' s" if "settlement_ok db s" for s
    using that by (auto simp: settlement_ok_def insert_lot_def Let_def split: option.splits)
  ultimately show ?thesis using inv by (simp add: lot_inv_def) (simp add: insert_lot_def Let_def)
qed

lemma find_append_fresh:
  "\<forall>y \<in> set xs. \<not> P y \<Longrightarrow> P x \<Longrightarrow> find P (xs @ [x]) = Some x"
  by (induction xs) auto

lemma createLot_total:
  assumes "keys_ok db"
  shows "createLot e inp db
     = Inr (last (exchange_lots (snd (insert_lot e inp db))), snd (insert_lot e inp db))"
proof -
  have "find_lot e (fst (insert_lot e inp db)) (snd (insert_lot e inp db))
      = Some (last (exchange_lots (snd (insert_lot e inp db))))"
    using assms unfolding find_lot_def insert_lot_def Let_def
    by (force simp: keys_ok_def intro!: find_append_fresh)
  then show ?thesis by (cases "insert_lot e inp db") (simp add: createLot_def)
qed

lemma insert_adjustment_inv:
  "lot_inv db \<Longrightarrow> lot_inv (snd (insert_adjustment e inp c db))"
  by (fastforce simp: lot_inv_def keys_ok_def lots_balanced_def settlement_ok_def active_qty_def
      insert_adjustment_def Let_def split: option.splits)

lemma getAdjustmentById_total:
  assumes "keys_ok db"
  shows "getAdjustmentById e (fst (insert_adjustment e inp c db)) (snd (insert_adjustment e inp c db))
     = Inr (last (exchange_position_adjustments (snd (insert_adjustment e inp c db))))"
proof -
  have "find (\<lambda>a. adj_id a = fst (insert_adjustment e inp c db) \<and> adj_tenant_id a = Some (tenant e))
        (exchange_position_adjustments (snd (insert_adjustment e inp c db)))
      = Some (last (exchange_position_adjustments (snd (insert_adjustment e inp c db))))"
    using assms unfolding insert_adjustment_def Let_def
    by (force simp: keys_ok_def intro!: find_append_fresh)
  then show ?thesis by (simp add: getAdjustmentById_def)
qed

lemma voidLotsBySource_inv:
  assumes inv: "lot_inv db"
  shows "lot_inv (snd (voidLotsBySource e tbl i db))" (is "lot_inv ?db'")
proof -
  have act: "active_qty ?db' = active_qty db"
    by (rule ext) (simp add: active_qty_def voidLotsBySource_def Let_def)
  have ids: "map lot_id (exchange_lots ?db') = map lot_id (exchange_lots db)"
    by (simp add: voidLotsBySource_def Let_def)
  have lot: "\<exists>l \<in> set (exchange_lots db). l' = l \<or> l' = l\<lparr>lot_is_voided := True, lot_updated_at := clock e\<rparr>"
    if "l' \<in> set (exchange_lots ?db')" for l'
    using that by (auto simp: voidLotsBySource_def Let_def)
  have "lots_balanced ?db'"
    using inv unfolding lots_balanced_def act lot_inv_def by (auto dest!: lot)
  moreover have "keys_ok ?db'"
    using inv lot unfolding lot_inv_def keys_ok_def ids
    by (auto dest!: lot) (auto simp: voidLotsBySource_def Let_def)
  moreover have "(\<exists>l \<in> set (exchange_lots ?db'). lot_id l = k \<and> lot_tenant_id l = t)
      = (\<exists>l \<in> set (exchange_lots db). lot_id l = k \<and> lot_tenant_id l = t)" for k t
    by (auto simp: voidLotsBySource_def Let_def simp del: if_image_distrib)
  then have "settlement_ok ?db' = settlement_ok db"
    by (intro ext) (simp add: settlement_ok_def split: option.splits)
  ultimately show ?thesis using inv by (simp add: lot_inv_def) (simp add: voidLotsBySource_def Let_def)
qed

lemma adjust_cases:
  assumes "lot_inv db" and "adjust e inp db = Inr (r, db')"
  obtains (add) cost where "0 < ai_qty inp" "ai_unitCostUsd inp = Some cost" "0 < cost"
      "db' = snd (insert_lot e
                   \<lparr>cl_currencyCode = ai_currencyCode inp, cl_drawerName = None,
                    cl_sourceType = ADJUSTMENT,
                    cl_sourceTable = ''exchange_position_adjustments'',
                    cl_sourceId = adj_id (ar_adjustment r),
                    cl_qty = ai_qty inp, cl_unitCostUsd = cost, cl_acquiredAt = now e\<rparr>
                  (snd (insert_adjustment e inp (Some cost) db)))"
  | (write_off) res where "ai_qty inp < 0"
      "\<bar>ai_qty inp\<bar> \<le> getOpenQtyForCurrency e (ai_currencyCode inp) db + LOT_QTY_EPSILON"
      "ar_consume r = Some res"
      "(res, db') = writeOffFifo e (ai_currencyCode inp) \<bar>ai_qty inp\<bar>
         ''exchange_position_adjustments'' (adj_id (ar_adjustment r))
         (snd (insert_adjustment e inp None db))"
proof -
  have keys: "keys_ok db" "\<And>c. keys_ok (snd (insert_adjustment e inp c db))"
    using assms(1) insert_adjustment_inv [OF assms(1)] by (auto simp: lot_inv_def)
  note total = getAdjustmentById_total [OF keys(1), of e inp] createLot_total [OF keys(2)]
  show thesis
  proof (cases "0 < ai_qty inp")
    case True
    with assms(2) total show thesis
      by (auto simp: adjust_def adjust_add_def case_prod_beta split: if_splits option.splits
          intro!: add)
  next
    case False
    with assms(2) total show thesis
      by (auto simp: adjust_def adjust_write_off_def Let_def not_less case_prod_beta
          split: if_splits option.splits intro!: write_off)
  qed
qed

section \<open>Reachable ledgers\<close>

text \<open>Every public operation that writes, run by any tenant's request. A lot is only ever
  created with a non-negative quantity; no other condition is placed on the inputs.\<close>

inductive lot_step :: "env \<Rightarrow> lot_db \<Rightarrow> lot_db \<Rightarrow> bool" where
  create: "0 \<le> cl_qty inp \<Longrightarrow> createLot e inp db = Inr (lot, db') \<Longrightarrow> lot_step e db db'"
| consume: "consumeFifo e cinp db = Inr (r, db') \<Longrightarrow> lot_step e db db'"
| write_off: "writeOffFifo e code q tbl i db = (r, db') \<Longrightarrow> lot_step e db db'"
| restore: "restoreSettlements e tbl i db = (n, db') \<Longrightarrow> lot_step e db db'"
| void: "voidLotsBySource e tbl i db = (n, db') \<Longrightarrow> lot_step e db db'"
| adjust: "Exchange_Lots.adjust e ainp db = Inr (ar, db') \<Longrightarrow> lot_step e db db'"

inductive_cases lot_stepE: "lot_step e db db'"

definition empty_lot_db :: lot_db where
  "empty_lot_db = \<lparr>exchange_lots = [], lots_seq = 0, exchange_lot_settlements = [],
     settlements_seq = 0, exchange_position_adjustments = [], adjustments_seq = 0\<rparr>"

inductive lot_reachable :: "lot_db \<Rightarrow> bool" where
  init: "lot_reachable empty_lot_db"
| step: "lot_reachable db \<Longrightarrow> lot_step e db db' \<Longrightarrow> lot_reachable db'"

lemma writeOffFifo_inv:
  "lot_inv db \<Longrightarrow> lot_inv (snd (writeOffFifo e code q tbl i db))"
  unfolding writeOffFifo_def by (rule walkFifo_inv) simp_all

lemma consumeFifo_inv:
  assumes "lot_inv db" and "consumeFifo e inp db = Inr (r, db')"
  shows "lot_inv db'"
proof -
  have "db' = snd (walkFifo e (consume_params inp) db)"
    using assms(2) by (auto simp: consumeFifo_def split: if_splits dest: arg_cong [of _ _ snd])
  with assms(1) show ?thesis by (simp add: walkFifo_inv consume_params_def)
qed

lemma adjust_inv:
  assumes "lot_inv db" and "Exchange_Lots.adjust e inp db = Inr (r, db')"
  shows "lot_inv db'"
  using assms
proof (cases rule: adjust_cases)
  case (add cost)
  with assms(1) show ?thesis by (simp add: insert_lot_inv insert_adjustment_inv)
next
  case (write_off res)
  have "db' = snd (writeOffFifo e (ai_currencyCode inp) \<bar>ai_qty inp\<bar>
      ''exchange_position_adjustments'' (adj_id (ar_adjustment r))
      (snd (insert_adjustment e inp None db)))"
    using arg_cong [OF write_off(4), of snd] by simp
  with assms(1) show ?thesis by (simp add: writeOffFifo_inv insert_adjustment_inv)
qed

lemma lot_step_inv:
  assumes "lot_step e db db'" and "lot_inv db"
  shows "lot_inv db'"
  using assms(1)
proof (cases rule: lot_step.cases)
  case (create inp lot)
  have "keys_ok db" using assms(2) by (simp add: lot_inv_def)
  from createLot_total [OF this] create insert_lot_inv [OF assms(2)] show ?thesis by auto
next
  case (consume cinp r)
  with assms(2) show ?thesis by (auto intro: consumeFifo_inv)
next
  case (write_off code q tbl i r)
  with writeOffFifo_inv [OF assms(2), of e code q tbl i] show ?thesis by simp
next
  case (restore tbl i n)
  with restoreSettlements_inv [OF assms(2), of e tbl i] show ?thesis by simp
next
  case (void tbl i n)
  with voidLotsBySource_inv [OF assms(2), of e tbl i] show ?thesis by simp
next
  case (adjust ainp ar)
  with assms(2) show ?thesis by (auto intro: adjust_inv)
qed

lemma lot_reachable_inv: "lot_reachable db \<Longrightarrow> lot_inv db"
proof (induction rule: lot_reachable.induct)
  case init
  show ?case by (simp add: lot_inv_defs empty_lot_db_def)
next
  case (step db e db')
  then show ?case by (blast intro: lot_step_inv)
qed

end
