(* ===== verification/Exchange_Lots_Properties.thy ===== *)
theory Exchange_Lots_Properties
  imports Exchange_Lots_Safety
begin

text \<open>
  The properties of the exchange lot engine: the ledger balance on every reachable state,
  tenant isolation, the refinement of the FIFO allocator, previews, the round trip of
  consumption and reversal, the profit arithmetic, the admin adjustment and the reads.
\<close>

section \<open>Sample ledger\<close>

definition sample_env :: env where
  "sample_env = \<lparr>tenant = 1, now = ''n'', clock = ''c''\<rparr>"

definition sample_buy :: "string \<Rightarrow> nat \<Rightarrow> amount \<Rightarrow> amount \<Rightarrow> CreateLotInput" where
  "sample_buy day i q cost =
     \<lparr>cl_currencyCode = ''EUR'', cl_drawerName = None, cl_sourceType = EXCHANGE_BUY,
      cl_sourceTable = ''exchange_transactions'', cl_sourceId = i, cl_qty = q,
      cl_unitCostUsd = cost, cl_acquiredAt = day\<rparr>"

definition sample_db :: lot_db where
  "sample_db = snd (insert_lot sample_env (sample_buy ''b'' 8 50 (11 / 10))
     (snd (insert_lot sample_env (sample_buy ''a'' 7 100 1) empty_lot_db)))"

definition sample_sell :: "amount \<Rightarrow> ConsumeFifoInput" where
  "sample_sell q =
     \<lparr>cf_currencyCode = ''EUR'', cf_qty = q, cf_unitProceedsUsd = 6 / 5,
      cf_settledByTable = ''exchange_transactions'', cf_settledById = 9,
      cf_marketUnitCostUsd = 23 / 20\<rparr>"

lemma sample_reachable: "lot_reachable sample_db"
proof -
  have step: "lot_reachable (snd (insert_lot sample_env (sample_buy t i q c) db))"
    if "lot_reachable db" "0 \<le> q" for t i q c db
  proof (rule lot_reachable.step [OF that(1) lot_step.create])
    show "0 \<le> cl_qty (sample_buy t i q c)" using that by (simp add: sample_buy_def)
    show "createLot sample_env (sample_buy t i q c) db
        = Inr (last (exchange_lots (snd (insert_lot sample_env (sample_buy t i q c) db))),
               snd (insert_lot sample_env (sample_buy t i q c) db))"
      using lot_reachable_inv [OF that(1)] by (intro createLot_total) (simp add: lot_inv_def)
  qed
  show ?thesis
    unfolding sample_db_def by (intro step lot_reachable.init) simp_all
qed

lemma sample_inv: "lot_inv sample_db"
  by (rule lot_reachable_inv [OF sample_reachable])

section \<open>Balance\<close>

text \<open>C3. On every ledger reachable by the repository's writing operations, by whatever
  tenants and in whatever order, each lot's remaining quantity is between zero and its
  original quantity, and the original quantity is exactly the remaining quantity plus the
  settlements against the lot that are not refunded.\<close>

theorem reachable_lots_balanced:
  assumes "lot_reachable db" and "l \<in> set (exchange_lots db)"
  shows "0 \<le> remaining_qty l \<and> remaining_qty l \<le> original_qty l
     \<and> original_qty l = remaining_qty l
         + sum_of st_qty (filter (\<lambda>s. st_lot_id s = Some (lot_id l) \<and> \<not> is_refunded s)
             (exchange_lot_settlements db))"
proof -
  have inv: "lot_inv db" by (rule lot_reachable_inv [OF assms(1)])
  with assms(2) have "remaining_qty l + active_qty db (lot_id l) = original_qty l"
    by (simp add: lot_inv_def lots_balanced_def)
  with lot_bounds [OF inv assms(2)] show ?thesis by (simp add: active_qty_def)
qed

lemma consume_Inr:
  "0 < cf_qty inp \<Longrightarrow> consumeFifo e inp db
     = Inr (fst (walkFifo e (consume_params inp) db), snd (walkFifo e (consume_params inp) db))"
  by (simp add: consumeFifo_def)

definition sample_sold :: lot_db where
  "sample_sold = snd (walkFifo sample_env (consume_params (sample_sell 120)) sample_db)"

theorem reachable_lots_balanced_witness:
  "lot_reachable sample_sold \<and> map remaining_qty (exchange_lots sample_sold) = [0, 30]
   \<and> original_qty (exchange_lots sample_sold ! 1) = remaining_qty (exchange_lots sample_sold ! 1)
       + sum_of st_qty (filter (\<lambda>s. st_lot_id s = Some (lot_id (exchange_lots sample_sold ! 1))
           \<and> \<not> is_refunded s) (exchange_lot_settlements sample_sold))"
proof -
  have "lot_step sample_env sample_db sample_sold"
    unfolding sample_sold_def
    by (rule lot_step.consume [OF consume_Inr]) (simp add: sample_sell_def)
  with sample_reachable have reach: "lot_reachable sample_sold" by (rule lot_reachable.step)
  have rem: "map remaining_qty (exchange_lots sample_sold) = [0, 30]" by code_simp
  then have "1 < length (exchange_lots sample_sold)" by (auto dest: arg_cong [of _ _ length])
  then have "exchange_lots sample_sold ! 1 \<in> set (exchange_lots sample_sold)" by (rule nth_mem)
  from reachable_lots_balanced [OF reach this] reach rem show ?thesis by blast
qed

section \<open>Tenant isolation\<close>

definition foreign_lots :: "env \<Rightarrow> lot_db \<Rightarrow> ExchangeLotEntity list" where
  "foreign_lots e db = filter (\<lambda>l. lot_tenant_id l \<noteq> Some (tenant e)) (exchange_lots db)"

definition foreign_settlements :: "env \<Rightarrow> lot_db \<Rightarrow> ExchangeLotSettlementEntity list" where
  "foreign_settlements e db =
     filter (\<lambda>s. st_tenant_id s \<noteq> Some (tenant e)) (exchange_lot_settlements db)"

definition own_lot :: "env \<Rightarrow> nat \<Rightarrow> lot_db \<Rightarrow> bool" where
  "own_lot e i db \<longleftrightarrow> (\<forall>l \<in> set (exchange_lots db). lot_id l = i \<longrightarrow> lot_tenant_id l = Some (tenant e))"

lemma filter_map_if:
  assumes "\<And>x. x \<in> set xs \<Longrightarrow> C x \<Longrightarrow> \<not> P x \<and> \<not> P (f x)"
  shows "filter P (map (\<lambda>x. if C x then f x else x) xs) = filter P xs"
  using assms by (induction xs) auto

lemma foreign_add_to_lot:
  "own_lot e i db \<Longrightarrow> foreign_lots e (add_to_lot e i d db) = foreign_lots e db"
  unfolding foreign_lots_def add_to_lot_def own_lot_def by (simp add: filter_map_if)

lemma own_lot_add_to_lot: "own_lot e j (add_to_lot e i d db) = own_lot e j db"
  by (auto simp: own_lot_def add_to_lot_def simp del: if_image_distrib)

lemma own_lot_insert_settlement [row_simps]:
  "own_lot e j (snd (insert_settlement e l b p q c pr pf db)) = own_lot e j db"
  by (simp add: own_lot_def row_simps)

lemma own_lot_flag [row_simps]: "own_lot e j (flag_refunded e i db) = own_lot e j db"
  by (simp add: own_lot_def row_simps)

lemma foreign_insert_settlement [row_simps]:
  "foreign_lots e (snd (insert_settlement e l b p q c pr pf db)) = foreign_lots e db"
  "foreign_settlements e (snd (insert_settlement e l b p q c pr pf db)) = foreign_settlements e db"
  by (simp_all add: foreign_lots_def foreign_settlements_def row_simps)
     (simp add: insert_settlement_def Let_def)

lemma foreign_settlements_add_to_lot [row_simps]:
  "foreign_settlements e' (add_to_lot e i d db) = foreign_settlements e' db"
  by (simp add: foreign_settlements_def row_simps)

lemma walk_lots_foreign:
  assumes "\<forall>l \<in> set lots. own_lot e (lot_id l) (ws_db s)"
  shows "foreign_lots e (ws_db (walk_lots e p lots s)) = foreign_lots e (ws_db s)
    \<and> foreign_settlements e (ws_db (walk_lots e p lots s)) = foreign_settlements e (ws_db s)"
  using assms
proof (induction lots arbitrary: s)
  case (Cons lot lots)
  let ?s = "\<lambda>tk. settle_lot e p lot tk s"
  have "own_lot e j (ws_db (?s tk)) = own_lot e j (ws_db s)" for j tk
    by (simp add: settle_lot_db own_lot_add_to_lot row_simps)
  moreover have "foreign_lots e (ws_db (?s tk)) = foreign_lots e (ws_db s)"
    and "foreign_settlements e (ws_db (?s tk)) = foreign_settlements e (ws_db s)" for tk
    using Cons.prems by (simp_all add: settle_lot_db foreign_add_to_lot row_simps)
  ultimately show ?case using Cons by (simp add: Let_def)
qed simp

lemma walkFifo_foreign:
  assumes "lot_inv db"
  shows "foreign_lots e (snd (walkFifo e p db)) = foreign_lots e db
    \<and> foreign_settlements e (snd (walkFifo e p db)) = foreign_settlements e db"
proof -
  let ?s0 = "\<lparr>ws_db = db, ws_settlements = [], ws_remaining = wp_qty p, ws_covered = 0\<rparr>"
  have keys: "keys_ok db" using assms by (simp add: lot_inv_def)
  have "\<forall>l \<in> set (select_open_lots e (wp_currencyCode p) db). own_lot e (lot_id l) (ws_db ?s0)"
    using select_open_lots_props [OF keys, of e "wp_currencyCode p"] keys_unique [OF keys]
    by (simp add: own_lot_def) blast
  from walk_lots_foreign [OF this] show ?thesis
    by (simp add: walkFifo_db settle_market_db row_simps)
qed

lemma restore_rows_foreign:
  assumes "\<forall>s \<in> set ss. s \<in> set (exchange_lot_settlements db) \<and> st_tenant_id s = Some (tenant e)
      \<and> (\<forall>i. st_lot_id s = Some i \<longrightarrow> own_lot e i db)"
    and "keys_ok db"
  shows "foreign_lots e (restore_rows e ss db) = foreign_lots e db
    \<and> foreign_settlements e (restore_rows e ss db) = foreign_settlements e db"
proof
  have "\<forall>i. st_lot_id s = Some i \<longrightarrow> own_lot e i db" if "s \<in> set ss" for s
    using assms that by blast
  then show "foreign_lots e (restore_rows e ss db) = foreign_lots e db"
    unfolding restore_rows_fold
  proof (induction ss arbitrary: db)
    case (Cons s ss)
    have "own_lot e j (restore_step e s db) = own_lot e j db" for j
      by (simp add: restore_step_def own_lot_add_to_lot row_simps split: option.splits)
    moreover have "foreign_lots e (restore_step e s db) = foreign_lots e db"
      using Cons.prems [of s] foreign_add_to_lot
      by (simp add: restore_step_def foreign_lots_def row_simps split: option.splits)
    ultimately show ?case using Cons.IH [of "restore_step e s db"] Cons.prems by auto
  qed simp
  have "st_tenant_id s = Some (tenant e)"
    if "s \<in> set (exchange_lot_settlements db)" "st_id s \<in> st_id ` set ss" for s
    using assms that settlement_keys_unique by fastforce
  then show "foreign_settlements e (restore_rows e ss db) = foreign_settlements e db"
    unfolding foreign_settlements_def restore_rows_settlements [OF assms(2)]
    by (intro filter_map_if) auto
qed

lemma restoreSettlements_foreign:
  assumes "lot_inv db"
  shows "foreign_lots e (snd (restoreSettlements e tbl i db)) = foreign_lots e db
    \<and> foreign_settlements e (snd (restoreSettlements e tbl i db)) = foreign_settlements e db"
proof -
  have keys: "keys_ok db" using assms by (simp add: lot_inv_def)
  have "own_lot e k db" if s: "s \<in> set (active_of_settler e tbl i db)" and k: "st_lot_id s = Some k" for s k
  proof -
    from s assms have "settlement_ok db s" and ten: "st_tenant_id s = Some (tenant e)"
      by (auto simp: active_of_settler_def lot_inv_def)
    then obtain l where "l \<in> set (exchange_lots db)" "lot_id l = k" "lot_tenant_id l = Some (tenant e)"
      using k by (auto simp: settlement_ok_def)
    with keys_unique [OF keys] show ?thesis by (auto simp: own_lot_def)
  qed
  then show ?thesis
    using restore_rows_foreign [of "active_of_settler e tbl i db" db e] keys
    by (auto simp: restoreSettlements_def Let_def active_of_settler_def)
qed

lemma other_ops_foreign [row_simps]:
  "foreign_lots e (snd (insert_lot e inp db)) = foreign_lots e db"
  "foreign_settlements e (snd (insert_lot e inp db)) = foreign_settlements e db"
  "foreign_lots e (snd (insert_adjustment e ainp c db)) = foreign_lots e db"
  "foreign_settlements e (snd (insert_adjustment e ainp c db)) = foreign_settlements e db"
  "foreign_settlements e (snd (voidLotsBySource e tbl i db)) = foreign_settlements e db"
  by (simp_all add: foreign_lots_def foreign_settlements_def insert_lot_def insert_adjustment_def
      voidLotsBySource_def Let_def)

lemma voidLotsBySource_foreign:
  "foreign_lots e (snd (voidLotsBySource e tbl i db)) = foreign_lots e db"
  unfolding foreign_lots_def voidLotsBySource_def Let_def
  by simp (rule filter_map_if, simp)

text \<open>C35. Tenant isolation: on a reachable ledger, no writing operation of a request changes
  any lot or any settlement that belongs to another tenant, although the statements that add
  to a lot and that flag a settlement select their row by its id only.\<close>

theorem lot_step_tenant_isolation:
  assumes "lot_reachable db" and "lot_step e db db'"
  shows "filter (\<lambda>l. lot_tenant_id l \<noteq> Some (tenant e)) (exchange_lots db')
           = filter (\<lambda>l. lot_tenant_id l \<noteq> Some (tenant e)) (exchange_lots db)
       \<and> filter (\<lambda>s. st_tenant_id s \<noteq> Some (tenant e)) (exchange_lot_settlements db')
           = filter (\<lambda>s. st_tenant_id s \<noteq> Some (tenant e)) (exchange_lot_settlements db)"
proof -
  have inv: "lot_inv db" by (rule lot_reachable_inv [OF assms(1)])
  then have keys: "keys_ok db" by (simp add: lot_inv_def)
  have wo: "foreign_lots e (snd (writeOffFifo e code q tbl i db0)) = foreign_lots e db0
      \<and> foreign_settlements e (snd (writeOffFifo e code q tbl i db0)) = foreign_settlements e db0"
    if "lot_inv db0" for code q tbl i db0
    unfolding writeOffFifo_def by (rule walkFifo_foreign [OF that])
  from assms(2) have "foreign_lots e db' = foreign_lots e db
      \<and> foreign_settlements e db' = foreign_settlements e db"
  proof (cases rule: lot_step.cases)
    case (create inp lot)
    with createLot_total [OF keys] show ?thesis by (auto simp: row_simps)
  next
    case (consume cinp r)
    with walkFifo_foreign [OF inv, of e "consume_params cinp"] show ?thesis
      by (auto simp: consumeFifo_def split: if_splits)
  next
    case (write_off code q tbl i r)
    with wo [OF inv, of code q tbl i] show ?thesis by simp
  next
    case (restore tbl i n)
    with restoreSettlements_foreign [OF inv, of e tbl i] show ?thesis by simp
  next
    case (void tbl i n)
    with voidLotsBySource_foreign [of e tbl i db] other_ops_foreign(5) [of e tbl i db]
    show ?thesis by simp
  next
    case (adjust ainp ar)
    from inv adjust show ?thesis
    proof (cases rule: adjust_cases)
      case (add cost)
      then show ?thesis by (simp add: row_simps)
    next
      case (write_off res)
      with wo [OF insert_adjustment_inv [OF inv]] show ?thesis
        by (metis other_ops_foreign(3,4) snd_conv)
    qed
  qed
  then show ?thesis by (simp add: foreign_lots_def foreign_settlements_def)
qed

theorem lot_step_tenant_isolation_witness:
  "filter (\<lambda>l. lot_tenant_id l \<noteq> Some 2)
       (exchange_lots (snd (voidLotsBySource (sample_env\<lparr>tenant := 2\<rparr>) ''exchange_transactions'' 7 sample_db)))
     = exchange_lots sample_db"
proof -
  have "lot_step (sample_env\<lparr>tenant := 2\<rparr>) sample_db
      (snd (voidLotsBySource (sample_env\<lparr>tenant := 2\<rparr>) ''exchange_transactions'' 7 sample_db))"
    by (rule lot_step.void) (rule prod.collapse [symmetric])
  from lot_step_tenant_isolation [OF sample_reachable this] show ?thesis
    by (simp add: sample_db_def insert_lot_def sample_env_def empty_lot_db_def Let_def)
qed

section \<open>What a walk returns\<close>

abbreviation open_rows_of :: "env \<Rightarrow> string \<Rightarrow> lot_db \<Rightarrow> nat FifoOpenRow list" where
  "open_rows_of e code db \<equiv> map lot_open_row (select_open_lots e code db)"

abbreviation walk_takes :: "env \<Rightarrow> WalkParams \<Rightarrow> lot_db \<Rightarrow> nat FifoTake list" where
  "walk_takes e p db \<equiv> allocateFifo (open_rows_of e (wp_currencyCode p) db) (wp_qty p) LOT_QTY_EPSILON"

lemma allocateFifo_eq_loop: "allocateFifo rows b eps = allocateFifo_loop rows b eps"
  by (cases rows) (simp_all add: allocateFifo_def)

lemma walkFifo_result:
  fixes e p db
  defines "d \<equiv> sum_of ft_take (walk_takes e p db)"
  shows "coveredQty (fst (walkFifo e p db)) = d"
    and "marketQty (fst (walkFifo e p db))
      = (if wp_mode p = SETTLE \<and> LOT_QTY_EPSILON < wp_qty p - d then wp_qty p - d else 0)"
    and "map (\<lambda>r. (sr_lot_id r, sr_qty r)) (fc_settlements (fst (walkFifo e p db)))
      = map (\<lambda>t. (Some (ft_id t), ft_take t)) (walk_takes e p db)
        @ (if wp_mode p = SETTLE \<and> LOT_QTY_EPSILON < wp_qty p - d then [(None, wp_qty p - d)] else [])"
  using walk_lots_takes [of e p "select_open_lots e (wp_currencyCode p) db"
      "\<lparr>ws_db = db, ws_settlements = [], ws_remaining = wp_qty p, ws_covered = 0\<rparr>"]
  by (auto simp: walkFifo_def settle_market_def Let_def d_def allocateFifo_eq_loop case_prod_beta)

lemma open_rows_total:
  "sum_of outstanding (filter (\<lambda>r. LOT_QTY_EPSILON < outstanding r) (open_rows_of e code db))
     = getOpenQtyForCurrency e code db"
proof -
  have "filter (\<lambda>r. LOT_QTY_EPSILON < outstanding r) (open_rows_of e code db) = open_rows_of e code db"
    by (auto simp: filter_id_conv select_open_lots_def open_lot_def lot_open_row_def)
  moreover have "sum_of outstanding (open_rows_of e code db)
      = sum_of remaining_qty (select_open_lots e code db)"
    by (simp add: comp_def lot_open_row_def)
  moreover have "mset (select_open_lots e code db)
      = mset (filter (\<lambda>l. lot_tenant_id l = Some (tenant e) \<and> lot_currency_code l = code \<and> open_lot l)
                (exchange_lots db))"
    by (simp add: select_open_lots_def)
  then have "sum_of remaining_qty (select_open_lots e code db) = getOpenQtyForCurrency e code db"
    unfolding getOpenQtyForCurrency_def by (rule sum_of_mset_eq)
  ultimately show ?thesis by simp
qed

text \<open>C17. Consumption refines the shared FIFO allocator: the lots drawn and the quantities
  taken are exactly those of \<open>allocateFifo\<close> on the tenant's open lots in (acquired, id) order,
  followed by at most one market row; the covered and the market quantity add up to the
  requested quantity within the tolerance; and a market row is written only when every open
  lot of the currency has been drawn in full.\<close>

theorem consumeFifo_refines_allocateFifo:
  assumes "consumeFifo e inp db = Inr (r, db')"
  defines "takes \<equiv> allocateFifo (map lot_open_row (select_open_lots e (cf_currencyCode inp) db))
                   (cf_qty inp) LOT_QTY_EPSILON"
  shows "map (\<lambda>x. (sr_lot_id x, sr_qty x)) (fc_settlements r)
       = map (\<lambda>t. (Some (ft_id t), ft_take t)) takes
         @ (if marketQty r = 0 then [] else [(None, marketQty r)])
    \<and> coveredQty r = sum_of ft_take takes
    \<and> 0 \<le> cf_qty inp - (coveredQty r + marketQty r)
    \<and> cf_qty inp - (coveredQty r + marketQty r) \<le> LOT_QTY_EPSILON
    \<and> (marketQty r \<noteq> 0 \<longrightarrow> coveredQty r = getOpenQtyForCurrency e (cf_currencyCode inp) db)"
proof -
  let ?p = "consume_params inp"
  have q: "0 < cf_qty inp" and r: "r = fst (walkFifo e ?p db)"
    using assms(1) by (auto simp: consumeFifo_def split: if_splits dest: arg_cong [of _ _ fst])
  have p: "wp_qty ?p = cf_qty inp" "wp_currencyCode ?p = cf_currencyCode inp" "wp_mode ?p = SETTLE"
    by (simp_all add: consume_params_def)
  have le: "sum_of ft_take takes \<le> cf_qty inp"
    unfolding takes_def using q by (intro fifo.sum_le) auto
  have ex: "cf_qty inp - sum_of ft_take takes \<le> LOT_QTY_EPSILON
      \<or> sum_of ft_take takes = getOpenQtyForCurrency e (cf_currencyCode inp) db"
    unfolding takes_def open_rows_total [symmetric] by (intro fifo.exhausts) simp
  note res = walkFifo_result [of e ?p db, folded r, unfolded p, folded takes_def]
  show ?thesis
  proof (cases "LOT_QTY_EPSILON < cf_qty inp - sum_of ft_take takes")
    case True
    with eps_pos(1) have "0 < cf_qty inp - sum_of ft_take takes" by (rule order.strict_trans)
    with True res ex show ?thesis by auto
  next
    case False
    with res le show ?thesis by auto
  qed
qed

theorem consumeFifo_refines_allocateFifo_witness:
  "coveredQty (fst (walkFifo sample_env (consume_params (sample_sell 170)) sample_db)) = 150
   \<and> marketQty (fst (walkFifo sample_env (consume_params (sample_sell 170)) sample_db)) = 20"
proof -
  let ?r = "fst (walkFifo sample_env (consume_params (sample_sell 170)) sample_db)"
  have "consumeFifo sample_env (sample_sell 170) sample_db
      = Inr (?r, snd (walkFifo sample_env (consume_params (sample_sell 170)) sample_db))"
    by (rule consume_Inr) (simp add: sample_sell_def)
  note spec = consumeFifo_refines_allocateFifo [OF this]
  have takes: "sum_of ft_take (allocateFifo
      (map lot_open_row (select_open_lots sample_env (cf_currencyCode (sample_sell 170)) sample_db))
      (cf_qty (sample_sell 170)) LOT_QTY_EPSILON) = 150"
    by code_simp
  have "marketQty ?r = 20" by code_simp
  with spec takes show ?thesis by simp
qed

section \<open>Previews\<close>

abbreviation without_id :: "LotSettlementResult \<Rightarrow> LotSettlementResult" where
  "without_id r \<equiv> r\<lparr>sr_id := None\<rparr>"

definition same_walk :: "walk_state \<Rightarrow> walk_state \<Rightarrow> bool" where
  "same_walk s t \<longleftrightarrow> ws_remaining s = ws_remaining t \<and> ws_covered s = ws_covered t
     \<and> ws_settlements s = map without_id (ws_settlements t)"

abbreviation dry :: "WalkParams \<Rightarrow> WalkParams" where
  "dry p \<equiv> p\<lparr>wp_settledByTable := '''', wp_settledById := 0, wp_write := False\<rparr>"

lemma settle_lot_dry:
  "same_walk s t \<Longrightarrow> same_walk (settle_lot e (dry p) lot tk s) (settle_lot e p lot tk t)"
  "ws_db (settle_lot e (dry p) lot tk s) = ws_db s"
  by (simp_all add: same_walk_def settle_lot_def Let_def case_prod_beta cong: WalkMode.case_cong)

lemma walk_lots_dry:
  "same_walk s t \<Longrightarrow> same_walk (walk_lots e (dry p) lots s) (walk_lots e p lots t)
     \<and> ws_db (walk_lots e (dry p) lots s) = ws_db s"
proof (induction lots arbitrary: s t)
  case (Cons lot lots)
  have "ws_remaining s = ws_remaining t" using Cons.prems by (simp add: same_walk_def)
  with Cons.IH [OF Cons.prems] Cons.IH [OF settle_lot_dry(1) [OF Cons.prems]] Cons.prems
  show ?case by (simp add: Let_def settle_lot_dry(2) min_le_iff_disj)
qed simp

lemma settle_market_dry:
  "same_walk s t \<Longrightarrow> fst (settle_market e (dry p) s) = fst (settle_market e p t)
     \<and> same_walk (snd (settle_market e (dry p) s)) (snd (settle_market e p t))
     \<and> ws_db (snd (settle_market e (dry p) s)) = ws_db s"
  by (simp add: same_walk_def settle_market_def Let_def case_prod_beta)

lemma profit_without_id: "sr_profit_usd \<circ> without_id = sr_profit_usd"
  by (rule ext) simp

lemma walkFifo_dry:
  "walkFifo e (dry p) db =
     ((fst (walkFifo e p db))\<lparr>fc_settlements := map without_id (fc_settlements (fst (walkFifo e p db)))\<rparr>, db)"
proof -
  let ?s0 = "\<lparr>ws_db = db, ws_settlements = [], ws_remaining = wp_qty p, ws_covered = 0\<rparr>"
  let ?lots = "select_open_lots e (wp_currencyCode p) db"
  have "same_walk ?s0 ?s0" by (simp add: same_walk_def)
  note w = walk_lots_dry [OF this, of e p ?lots]
  with settle_market_dry [of "walk_lots e (dry p) ?lots ?s0" "walk_lots e p ?lots ?s0" e p]
  show ?thesis
    by (simp add: walkFifo_def Let_def case_prod_beta same_walk_def profit_without_id)
qed

text \<open>A preview is the consumption that would be written: it fails exactly when the
  consumption fails, returns the same settlements, quantities and profit but for the row
  ids, and leaves the ledger as it is.\<close>

theorem previewConsume_agrees:
  "previewConsume e inp db =
     (case consumeFifo e inp db of
        Inl err \<Rightarrow> Inl err
      | Inr (r, db') \<Rightarrow>
          Inr (r\<lparr>fc_settlements := map (\<lambda>x. x\<lparr>sr_id := None\<rparr>) (fc_settlements r)\<rparr>, db))"
  by (simp add: previewConsume_def consumeFifo_def walkFifo_dry case_prod_beta)

section \<open>The rows a walk appends\<close>

definition row_result :: "ExchangeLotSettlementEntity \<Rightarrow> LotSettlementResult" where
  "row_result s = \<lparr>sr_id = Some (st_id s), sr_lot_id = st_lot_id s, sr_basis_source = st_basis_source s,
     sr_qty = st_qty s, sr_unit_cost_usd = st_unit_cost_usd s,
     sr_unit_proceeds_usd = st_unit_proceeds_usd s, sr_profit_usd = st_profit_usd s\<rparr>"

definition row_of_walk :: "env \<Rightarrow> WalkParams \<Rightarrow> ExchangeLotSettlementEntity \<Rightarrow> bool" where
  "row_of_walk e p s \<longleftrightarrow> st_tenant_id s = Some (tenant e) \<and> settled_by_table s = wp_settledByTable p
     \<and> settled_by_id s = wp_settledById p \<and> \<not> is_refunded s"

text \<open>\<open>appended e p rows s t\<close>: between walk states \<open>s\<close> and \<open>t\<close> the settlement table grew by
  exactly the rows the result list grew by, and the lots changed in no column but the
  remaining quantity and the update time.\<close>

definition fixed_columns :: "lot_db \<Rightarrow> ExchangeLotEntity list" where
  "fixed_columns db = map (\<lambda>l. l\<lparr>remaining_qty := 0, lot_updated_at := ''''\<rparr>) (exchange_lots db)"

definition appended :: "env \<Rightarrow> WalkParams \<Rightarrow> walk_state \<Rightarrow> walk_state \<Rightarrow> bool" where
  "appended e p s t \<longleftrightarrow>
     (\<exists>new. exchange_lot_settlements (ws_db t) = exchange_lot_settlements (ws_db s) @ new
        \<and> ws_settlements t = ws_settlements s @ map row_result new \<and> list_all (row_of_walk e p) new)
     \<and> fixed_columns (ws_db t) = fixed_columns (ws_db s)"

lemma appended_refl: "appended e p s s"
  by (simp add: appended_def)

lemma appended_trans: "appended e p s t \<Longrightarrow> appended e p t u \<Longrightarrow> appended e p s u"
  by (fastforce simp: appended_def)

lemma fixed_columns_add_to_lot [row_simps]: "fixed_columns (add_to_lot e i d db) = fixed_columns db"
  by (simp add: fixed_columns_def add_to_lot_def)

lemma appended_settle_lot: "wp_write p \<Longrightarrow> appended e p s (settle_lot e p lot tk s)"
  unfolding appended_def
  by (auto simp: settle_lot_def Let_def insert_settlement_def row_simps row_result_def row_of_walk_def)
     (simp add: fixed_columns_def)

lemma appended_settle_market: "wp_write p \<Longrightarrow> appended e p s (snd (settle_market e p s))"
  unfolding appended_def
  by (auto simp: settle_market_def Let_def insert_settlement_def row_result_def row_of_walk_def
      fixed_columns_def)

lemma appended_walk_lots: "wp_write p \<Longrightarrow> appended e p s (walk_lots e p lots s)"
proof (induction lots arbitrary: s)
  case (Cons lot lots)
  have "appended e p s (walk_lots e p lots (settle_lot e p lot tk s))" for tk
    by (rule appended_trans [OF appended_settle_lot Cons.IH]) (rule Cons.prems)+
  with Cons show ?case by (simp add: Let_def appended_refl)
qed (simp add: appended_refl)

lemma walkFifo_appends:
  assumes "wp_write p"
  obtains new where
    "exchange_lot_settlements (snd (walkFifo e p db)) = exchange_lot_settlements db @ new"
    "fc_settlements (fst (walkFifo e p db)) = map row_result new"
    "list_all (row_of_walk e p) new"
    "fixed_columns (snd (walkFifo e p db)) = fixed_columns db"
proof -
  let ?s0 = "\<lparr>ws_db = db, ws_settlements = [], ws_remaining = wp_qty p, ws_covered = 0\<rparr>"
  let ?s1 = "walk_lots e p (select_open_lots e (wp_currencyCode p) db) ?s0"
  have "appended e p ?s0 (snd (settle_market e p ?s1))"
    by (rule appended_trans [OF appended_walk_lots [OF assms] appended_settle_market [OF assms]])
  then show thesis
    by (auto simp: appended_def walkFifo_def Let_def case_prod_beta intro: that)
qed

section \<open>Consumption and reversal\<close>

lemma restore_rows_fixed_columns: "fixed_columns (restore_rows e ss db) = fixed_columns db"
proof -
  have step: "fixed_columns (restore_step e s db) = fixed_columns db" for s db
    by (simp add: restore_step_def fixed_columns_def row_simps split: option.splits)
       (simp add: add_to_lot_def)
  show ?thesis
    unfolding restore_rows_fold by (induction ss arbitrary: db) (simp_all add: step)
qed

lemma lots_determined:
  assumes "lot_inv db" "lot_inv db'" "fixed_columns db' = fixed_columns db"
    and "active_qty db' = active_qty db"
  shows "map (\<lambda>l. l\<lparr>lot_updated_at := ''''\<rparr>) (exchange_lots db')
       = map (\<lambda>l. l\<lparr>lot_updated_at := ''''\<rparr>) (exchange_lots db)"
proof (rule nth_equalityI)
  have len: "length (exchange_lots db') = length (exchange_lots db)"
    using arg_cong [OF assms(3), of length] by (simp add: fixed_columns_def)
  then show "length (map (\<lambda>l. l\<lparr>lot_updated_at := ''''\<rparr>) (exchange_lots db'))
      = length (map (\<lambda>l. l\<lparr>lot_updated_at := ''''\<rparr>) (exchange_lots db))" by simp
  fix k
  assume "k < length (map (\<lambda>l. l\<lparr>lot_updated_at := ''''\<rparr>) (exchange_lots db'))"
  then have k: "k < length (exchange_lots db')" "k < length (exchange_lots db)" using len by simp_all
  let ?l' = "exchange_lots db' ! k" and ?l = "exchange_lots db ! k"
  have eq: "?l'\<lparr>remaining_qty := 0, lot_updated_at := ''''\<rparr> = ?l\<lparr>remaining_qty := 0, lot_updated_at := ''''\<rparr>"
    using arg_cong [OF assms(3), of "\<lambda>ls. ls ! k"] k by (simp add: fixed_columns_def)
  have "lot_id ?l' = lot_id ?l" "original_qty ?l' = original_qty ?l"
    using arg_cong [OF eq, of lot_id] arg_cong [OF eq, of original_qty] by simp_all
  moreover have "remaining_qty ?l' + active_qty db (lot_id ?l') = original_qty ?l'"
    and "remaining_qty ?l + active_qty db (lot_id ?l) = original_qty ?l"
    using assms k by (simp_all add: lot_inv_def lots_balanced_def)
  ultimately have "remaining_qty ?l' = remaining_qty ?l" by simp
  with eq have "?l'\<lparr>lot_updated_at := ''''\<rparr> = ?l\<lparr>lot_updated_at := ''''\<rparr>"
    by (cases ?l'; cases ?l) simp
  with k show "map (\<lambda>l. l\<lparr>lot_updated_at := ''''\<rparr>) (exchange_lots db') ! k
      = map (\<lambda>l. l\<lparr>lot_updated_at := ''''\<rparr>) (exchange_lots db) ! k" by simp
qed

lemma active_qty_restored:
  assumes keys: "keys_ok db1"
    and rows: "exchange_lot_settlements db1 = exchange_lot_settlements db @ new"
    and sel: "active_of_settler e tbl i db1 = new"
  shows "active_qty (restore_rows e new db1) = active_qty db"
proof
  fix k
  have dist: "distinct (map st_id (exchange_lot_settlements db @ new))"
    using keys by (simp add: keys_ok_def rows)
  have old: "st_id s \<notin> st_id ` set new" if "s \<in> set (exchange_lot_settlements db)" for s
    using dist that by auto
  have "filter (\<lambda>s. st_lot_id s = Some k \<and> \<not> is_refunded s)
      (exchange_lot_settlements (restore_rows e new db1))
      = filter (\<lambda>s. st_lot_id s = Some k \<and> \<not> is_refunded s) (exchange_lot_settlements db)"
    unfolding restore_rows_settlements [OF keys] rows
    using old by (auto simp: filter_empty_conv cong: map_cong)
  then show "active_qty (restore_rows e new db1) k = active_qty db k" by (simp add: active_qty_def)
qed

lemma consumeFifo_cases:
  assumes "consumeFifo e inp db = Inr (r, db')"
  shows "0 < cf_qty inp" "r = fst (walkFifo e (consume_params inp) db)"
    "db' = snd (walkFifo e (consume_params inp) db)"
  using assms by (auto simp: consumeFifo_def split: if_splits dest: arg_cong [of _ _ fst] arg_cong [of _ _ snd])

lemma consumed_rows:
  assumes "consumeFifo e inp db = Inr (r, db')"
    and "active_of_settler e (cf_settledByTable inp) (cf_settledById inp) db = []"
  obtains new where
    "exchange_lot_settlements db' = exchange_lot_settlements db @ new"
    "fc_settlements r = map row_result new"
    "active_of_settler e (cf_settledByTable inp) (cf_settledById inp) db' = new"
    "fixed_columns db' = fixed_columns db"
proof -
  have "wp_write (consume_params inp)" by (simp add: consume_params_def)
  then obtain new where
    new: "exchange_lot_settlements db' = exchange_lot_settlements db @ new"
      "fc_settlements r = map row_result new" "list_all (row_of_walk e (consume_params inp)) new"
      "fixed_columns db' = fixed_columns db"
    using consumeFifo_cases [OF assms(1)] by (metis walkFifo_appends)
  moreover have "active_of_settler e (cf_settledByTable inp) (cf_settledById inp) db' = new"
  proof -
    have "filter (\<lambda>s. st_tenant_id s = Some (tenant e) \<and> settled_by_table s = cf_settledByTable inp
        \<and> settled_by_id s = cf_settledById inp \<and> \<not> is_refunded s) new = new"
      using new(3)
      by (auto simp: filter_id_conv list_all_iff row_of_walk_def consume_params_def)
    with assms(2) new(1) show ?thesis by (simp add: active_of_settler_def)
  qed
  ultimately show thesis using that by blast
qed

text \<open>C27. Refunding a sale restores the lots: after a consumption recorded under a settler
  that had no active settlements, restoring that settler, by any later request of the same
  tenant, refunds exactly the rows the consumption wrote and gives every lot back its
  quantities (all columns agree but the update time); no active settlement of the settler is
  left, so a second restore is a no-op.\<close>

theorem consume_then_restore:
  assumes "lot_reachable db"
    and "consumeFifo e inp db = Inr (r, db1)"
    and "active_of_settler e (cf_settledByTable inp) (cf_settledById inp) db = []"
    and "tenant e' = tenant e"
    and "restoreSettlements e' (cf_settledByTable inp) (cf_settledById inp) db1 = (n, db2)"
  shows "map (\<lambda>l. l\<lparr>lot_updated_at := ''''\<rparr>) (exchange_lots db2)
       = map (\<lambda>l. l\<lparr>lot_updated_at := ''''\<rparr>) (exchange_lots db)
    \<and> n = length (fc_settlements r)
    \<and> restoreSettlements e' (cf_settledByTable inp) (cf_settledById inp) db2 = (0, db2)"
proof -
  let ?t = "cf_settledByTable inp" and ?i = "cf_settledById inp"
  have inv: "lot_inv db" by (rule lot_reachable_inv [OF assms(1)])
  have inv1: "lot_inv db1" by (rule consumeFifo_inv [OF inv assms(2)])
  then have keys1: "keys_ok db1" by (simp add: lot_inv_def)
  have inv2: "lot_inv db2" using restoreSettlements_inv [OF inv1, of e' ?t ?i] assms(5) by simp
  obtain new where rows: "exchange_lot_settlements db1 = exchange_lot_settlements db @ new"
    and res: "fc_settlements r = map row_result new"
    and sel: "active_of_settler e ?t ?i db1 = new"
    and cols: "fixed_columns db1 = fixed_columns db"
    by (rule consumed_rows [OF assms(2,3)])
  have sel': "active_of_settler e' ?t ?i db1 = new"
    using sel assms(4) by (simp add: active_of_settler_def)
  have db2: "db2 = restore_rows e' new db1" and n: "n = length new"
    using assms(5) sel' by (auto simp: restoreSettlements_def Let_def split: if_splits)
  have "active_qty db2 = active_qty db"
    unfolding db2 by (rule active_qty_restored [OF keys1 rows sel'])
  then have "map (\<lambda>l. l\<lparr>lot_updated_at := ''''\<rparr>) (exchange_lots db2)
      = map (\<lambda>l. l\<lparr>lot_updated_at := ''''\<rparr>) (exchange_lots db)"
    using inv inv2 cols by (intro lots_determined) (simp_all add: db2 restore_rows_fixed_columns)
  moreover have "active_of_settler e' ?t ?i db2 = []"
    using assms(3,4)
    unfolding active_of_settler_def db2 restore_rows_settlements [OF keys1] rows
    by (auto simp: filter_empty_conv)
  ultimately show ?thesis
    using res n by (simp add: restoreSettlements_def)
qed

theorem consume_then_restore_witness:
  "map remaining_qty (exchange_lots (snd (restoreSettlements sample_env ''exchange_transactions'' 9
     (snd (walkFifo sample_env (consume_params (sample_sell 120)) sample_db))))) = [100, 50]"
proof -
  let ?w = "walkFifo sample_env (consume_params (sample_sell 120)) sample_db"
  let ?r = "restoreSettlements sample_env ''exchange_transactions'' 9 (snd ?w)"
  have "map (\<lambda>l. l\<lparr>lot_updated_at := ''''\<rparr>) (exchange_lots (snd ?r))
      = map (\<lambda>l. l\<lparr>lot_updated_at := ''''\<rparr>) (exchange_lots sample_db)"
  proof -
    have settler: "cf_settledByTable (sample_sell 120) = ''exchange_transactions''"
      "cf_settledById (sample_sell 120) = 9" "0 < cf_qty (sample_sell 120)"
      by (simp_all add: sample_sell_def)
    have "active_of_settler sample_env ''exchange_transactions'' 9 sample_db = []"
      by (simp add: sample_db_def insert_lot_def empty_lot_db_def Let_def active_of_settler_def)
    with consume_then_restore [OF sample_reachable consume_Inr [OF settler(3)], of sample_env sample_env
        "fst ?r" "snd ?r"]
    show ?thesis by (simp add: settler)
  qed
  then have "map remaining_qty (exchange_lots (snd ?r)) = map remaining_qty (exchange_lots sample_db)"
    by (auto dest!: arg_cong [of _ _ "map remaining_qty"] simp: comp_def)
  also have "\<dots> = [100, 50]" by code_simp
  finally show ?thesis .
qed

section \<open>Profit\<close>

definition margin :: "LotSettlementResult \<Rightarrow> amount" where
  "margin x = sr_qty x * (sr_unit_proceeds_usd x - sr_unit_cost_usd x)"

definition priced :: "WalkParams \<Rightarrow> LotSettlementResult \<Rightarrow> bool" where
  "priced p x \<longleftrightarrow> sr_profit_usd x = roundMoney (margin x)
     \<and> sr_unit_proceeds_usd x = (case wp_mode p of WRITE_OFF \<Rightarrow> sr_unit_cost_usd x
                                   | SETTLE \<Rightarrow> wp_unitProceedsUsd p)
     \<and> (wp_mode p = WRITE_OFF \<longrightarrow> sr_basis_source x = LOT)"

lemma walk_lots_priced:
  "list_all (priced p) (ws_settlements s) \<Longrightarrow> list_all (priced p) (ws_settlements (walk_lots e p lots s))"
proof (induction lots arbitrary: s)
  case (Cons lot lots)
  have "list_all (priced p) (ws_settlements (settle_lot e p lot tk s))" for tk
    using Cons.prems
    by (cases "wp_mode p")
       (simp_all add: settle_lot_def Let_def case_prod_beta priced_def margin_def list_all_iff)
  with Cons show ?case by (simp add: Let_def)
qed simp

lemma walkFifo_priced: "list_all (priced p) (fc_settlements (fst (walkFifo e p db)))"
proof -
  have "list_all (priced p) (ws_settlements (snd (settle_market e p s)))"
    if "list_all (priced p) (ws_settlements s)" for s
    using that by (cases "wp_mode p")
      (simp_all add: settle_market_def Let_def case_prod_beta priced_def margin_def list_all_iff)
  then show ?thesis by (simp add: walkFifo_def Let_def case_prod_beta walk_lots_priced)
qed

lemma walkFifo_profit:
  fixes e p db
  defines "r \<equiv> fst (walkFifo e p db)"
  shows "realizedProfitUsd r = sum_of sr_profit_usd (fc_settlements r)"
    and "\<bar>realizedProfitUsd r - sum_of margin (fc_settlements r)\<bar>
      \<le> of_nat (length (fc_settlements r)) * (1 / 200)"
proof -
  have total: "realizedProfitUsd r = roundMoney (sum_of sr_profit_usd (fc_settlements r))"
    by (simp add: r_def walkFifo_def Let_def case_prod_beta)
  have "sum_of sr_profit_usd (fc_settlements r) = sum_of (\<lambda>x. roundMoney (margin x)) (fc_settlements r)"
    using walkFifo_priced [of p e db] by (intro sum_of_cong) (auto simp: r_def list_all_iff priced_def)
  with total show "realizedProfitUsd r = sum_of sr_profit_usd (fc_settlements r)"
    and "\<bar>realizedProfitUsd r - sum_of margin (fc_settlements r)\<bar>
      \<le> of_nat (length (fc_settlements r)) * (1 / 200)"
    using lot_money.rnd_sum_error [of margin "fc_settlements r"]
    by (simp_all add: lot_money.rnd_sum_exact)
qed

text \<open>The realized profit of a consumption is the exact sum of its rows' rounded profits
  (the final rounding never changes it), it is within half a cent per row of the unrounded
  margin, and the settler's summary read back from the tables reports the same quantity and
  the same profit.\<close>

theorem consumeFifo_profit_and_summary:
  assumes "consumeFifo e inp db = Inr (r, db')"
    and "active_of_settler e (cf_settledByTable inp) (cf_settledById inp) db = []"
  shows "realizedProfitUsd r = sum_of sr_profit_usd (fc_settlements r)
    \<and> \<bar>realizedProfitUsd r
         - sum_of (\<lambda>x. sr_qty x * (cf_unitProceedsUsd inp - sr_unit_cost_usd x)) (fc_settlements r)\<bar>
       \<le> of_nat (length (fc_settlements r)) * (1 / 200)
    \<and> (fc_settlements r \<noteq> [] \<longrightarrow>
         getSummaryForSettlers e (cf_settledByTable inp) [cf_settledById inp] db' (cf_settledById inp)
           = Some \<lparr>settled_qty = coveredQty r + marketQty r, realized_profit_usd = realizedProfitUsd r\<rparr>)"
proof -
  let ?p = "consume_params inp"
  note r = consumeFifo_cases [OF assms(1)]
  have prof: "realizedProfitUsd r = sum_of sr_profit_usd (fc_settlements r)"
    and err: "\<bar>realizedProfitUsd r - sum_of margin (fc_settlements r)\<bar>
      \<le> of_nat (length (fc_settlements r)) * (1 / 200)"
    unfolding r(2) by (rule walkFifo_profit)+
  have "sum_of margin (fc_settlements r)
      = sum_of (\<lambda>x. sr_qty x * (cf_unitProceedsUsd inp - sr_unit_cost_usd x)) (fc_settlements r)"
    using walkFifo_priced [of ?p e db]
    by (intro sum_of_cong) (auto simp: r list_all_iff priced_def margin_def consume_params_def)
  moreover have qty: "sum_of sr_qty (fc_settlements r) = coveredQty r + marketQty r"
    using arg_cong [OF walkFifo_result(3) [of e ?p db], of "sum_of snd"] walkFifo_result(1,2) [of e ?p db]
    by (simp add: r comp_def)
  moreover obtain new where new: "fc_settlements r = map row_result new"
    and sel: "active_of_settler e (cf_settledByTable inp) (cf_settledById inp) db' = new"
    by (rule consumed_rows [OF assms])
  have "sum_of st_qty new = sum_of sr_qty (fc_settlements r)"
    and "sum_of st_profit_usd new = sum_of sr_profit_usd (fc_settlements r)"
    by (simp_all add: new comp_def row_result_def)
  ultimately show ?thesis
    using prof err sel new by (auto simp: getSummaryForSettlers_def)
qed

theorem consumeFifo_profit_and_summary_witness:
  "getSummaryForSettlers sample_env ''exchange_transactions'' [9]
     (snd (walkFifo sample_env (consume_params (sample_sell 120)) sample_db)) 9
   = Some \<lparr>settled_qty = 120, realized_profit_usd = 22\<rparr>"
proof -
  let ?w = "walkFifo sample_env (consume_params (sample_sell 120)) sample_db"
  have settler: "cf_settledByTable (sample_sell 120) = ''exchange_transactions''"
    "cf_settledById (sample_sell 120) = 9" "0 < cf_qty (sample_sell 120)"
    by (simp_all add: sample_sell_def)
  have "active_of_settler sample_env ''exchange_transactions'' 9 sample_db = []"
    by (simp add: sample_db_def insert_lot_def empty_lot_db_def Let_def active_of_settler_def)
  moreover have "fc_settlements (fst ?w) \<noteq> []" "coveredQty (fst ?w) = 120" "marketQty (fst ?w) = 0"
    "realizedProfitUsd (fst ?w) = 22" by code_simp+
  ultimately show ?thesis
    using consumeFifo_profit_and_summary [OF consume_Inr [OF settler(3)], of sample_env sample_db]
    by (simp add: settler)
qed

section \<open>Position adjustment\<close>

text \<open>An adjustment fails exactly for a currency that is exempt from lot tracking, a zero
  quantity, a positive quantity without a positive unit cost, or a write-off of more than the
  open quantity plus the tolerance; the read-back errors of the code never occur.\<close>

theorem adjust_fails_iff:
  assumes "lot_reachable db"
  shows "(\<exists>err. Exchange_Lots.adjust e inp db = Inl err) \<longleftrightarrow>
     \<not> isLotTrackedCurrency (ai_currencyCode inp)
     \<or> ai_qty inp = 0
     \<or> (0 < ai_qty inp \<and> (\<forall>c. ai_unitCostUsd inp = Some c \<longrightarrow> c \<le> 0))
     \<or> (ai_qty inp < 0 \<and> getOpenQtyForCurrency e (ai_currencyCode inp) db + LOT_QTY_EPSILON < - ai_qty inp)"
proof -
  have inv: "lot_inv db" by (rule lot_reachable_inv [OF assms])
  then have keys: "keys_ok db" "\<And>c. keys_ok (snd (insert_adjustment e inp c db))"
    using insert_adjustment_inv [OF inv] by (auto simp: lot_inv_def)
  note total = getAdjustmentById_total [OF keys(1), of e inp] createLot_total [OF keys(2)]
  show ?thesis
    by (auto simp: Exchange_Lots.adjust_def adjust_add_def adjust_write_off_def Let_def
        case_prod_beta total not_less split: option.splits)
qed

definition sample_adjust :: "amount \<Rightarrow> AdjustInput" where
  "sample_adjust q = \<lparr>ai_currencyCode = ''EUR'', ai_qty = q, ai_unitCostUsd = None, ai_note = None,
     ai_createdBy = ''admin''\<rparr>"

theorem adjust_fails_iff_witness:
  "(\<exists>err. Exchange_Lots.adjust sample_env (sample_adjust (- 151)) sample_db = Inl err)
   \<and> \<not> (\<exists>err. Exchange_Lots.adjust sample_env (sample_adjust (- 150)) sample_db = Inl err)"
proof -
  have tracked: "isLotTrackedCurrency ''EUR''" by code_simp
  have openq: "getOpenQtyForCurrency sample_env ''EUR'' sample_db = 150" by code_simp
  show ?thesis
    using adjust_fails_iff [OF sample_reachable, of sample_env "sample_adjust (- 151)"]
      adjust_fails_iff [OF sample_reachable, of sample_env "sample_adjust (- 150)"] tracked openq
    by (simp add: sample_adjust_def LOT_QTY_EPSILON_def)
qed

lemma open_qty_insert_adjustment:
  "getOpenQtyForCurrency e code (snd (insert_adjustment e inp c db)) = getOpenQtyForCurrency e code db"
  by (simp add: getOpenQtyForCurrency_def insert_adjustment_def Let_def)

text \<open>A successful negative adjustment writes off the requested quantity within the
  tolerance, out of lots only, at each lot's own cost: no row and no total carries a profit
  or a loss, and no market row is written.\<close>

theorem adjust_write_off_at_cost:
  assumes "lot_reachable db"
    and "Exchange_Lots.adjust e inp db = Inr (res, db')"
    and "ai_qty inp < 0"
  shows "\<exists>r. ar_consume res = Some r
    \<and> \<bar>ai_qty inp\<bar> - LOT_QTY_EPSILON \<le> coveredQty r \<and> coveredQty r \<le> \<bar>ai_qty inp\<bar>
    \<and> marketQty r = 0 \<and> realizedProfitUsd r = 0
    \<and> (\<forall>x \<in> set (fc_settlements r). sr_profit_usd x = 0 \<and> sr_basis_source x = LOT)"
proof -
  have inv: "lot_inv db" by (rule lot_reachable_inv [OF assms(1)])
  from inv assms(2) show ?thesis
  proof (cases rule: adjust_cases)
    case (add cost)
    with assms(3) show ?thesis by simp
  next
    case (write_off r)
    let ?db0 = "snd (insert_adjustment e inp None db)"
    define p where "p = \<lparr>wp_currencyCode = ai_currencyCode inp, wp_qty = \<bar>ai_qty inp\<bar>,
      wp_mode = WRITE_OFF, wp_unitProceedsUsd = 0, wp_marketUnitCostUsd = 0,
      wp_settledByTable = ''exchange_position_adjustments'',
      wp_settledById = adj_id (ar_adjustment res), wp_write = True\<rparr>"
    have r: "r = fst (walkFifo e p ?db0)"
      using arg_cong [OF write_off(4), of fst] by (simp add: writeOffFifo_def p_def)
    have mode: "wp_mode p = WRITE_OFF" "wp_qty p = \<bar>ai_qty inp\<bar>" "wp_currencyCode p = ai_currencyCode inp"
      by (simp_all add: p_def)
    let ?d = "sum_of ft_take (walk_takes e p ?db0)"
    have "wp_qty p - ?d \<le> LOT_QTY_EPSILON \<or> ?d = getOpenQtyForCurrency e (wp_currencyCode p) ?db0"
      unfolding open_rows_total [symmetric] by (intro fifo.exhausts) simp
    moreover have "?d \<le> wp_qty p"
      by (rule fifo.sum_le) (simp_all add: mode)
    ultimately have d: "\<bar>ai_qty inp\<bar> - LOT_QTY_EPSILON \<le> ?d" "?d \<le> \<bar>ai_qty inp\<bar>"
      using write_off(2) by (auto simp: mode open_qty_insert_adjustment)
    have rows: "sr_profit_usd x = 0 \<and> sr_basis_source x = LOT" if "x \<in> set (fc_settlements r)" for x
      using walkFifo_priced [of p e ?db0] that lot_money.rnd_zero
      by (auto simp: r list_all_iff priced_def margin_def mode)
    then have "realizedProfitUsd r = 0"
      unfolding r walkFifo_profit(1) by (simp add: r [symmetric] sum_list_0 cong: map_cong)
    with rows write_off(3) d walkFifo_result(1,2) [of e p ?db0] show ?thesis
      by (auto simp: r mode)
  qed
qed

theorem adjust_write_off_at_cost_witness:
  "\<exists>r. Option.bind (case Exchange_Lots.adjust sample_env (sample_adjust (- 120)) sample_db of
                     Inl _ \<Rightarrow> None | Inr (res, _) \<Rightarrow> Some res) ar_consume = Some r
     \<and> 120 - LOT_QTY_EPSILON \<le> coveredQty r \<and> realizedProfitUsd r = 0"
proof (cases "Exchange_Lots.adjust sample_env (sample_adjust (- 120)) sample_db")
  case (Inl err)
  moreover have "isl (Exchange_Lots.adjust sample_env (sample_adjust (- 120)) sample_db) = False"
    by code_simp
  ultimately show ?thesis by simp
next
  case (Inr x)
  obtain res db' where x: "x = (res, db')" by (cases x)
  from adjust_write_off_at_cost [OF sample_reachable Inr [unfolded x]] x Inr show ?thesis
    by (auto simp: sample_adjust_def)
qed

section \<open>Reads against a source\<close>

lemma sum_over_join:
  "sum_of st_qty (map fst (filter (\<lambda>(s, l). C s l) (settlements_with_lots e db)))
     = sum_of (\<lambda>l. sum_of (\<lambda>s. if st_tenant_id s = Some (tenant e) \<and> st_lot_id s = Some (lot_id l)
          \<and> lot_tenant_id l = st_tenant_id s \<and> C s l then st_qty s else 0)
          (exchange_lot_settlements db)) (exchange_lots db)"
proof -
  have inner: "sum_of (st_qty \<circ> fst) (filter (\<lambda>(s, l). C s l)
      (concat (map (\<lambda>l. if A s l then if B s l then [(s, l)] else [] else []) ls)))
      = sum_of (\<lambda>l. if A s l \<and> B s l \<and> C s l then st_qty s else 0) ls" for A B s ls
    by (induction ls) auto
  have outer: "sum_of (st_qty \<circ> fst) (filter (\<lambda>(s, l). C s l) (concat (map (\<lambda>s.
        if T s then concat (map (\<lambda>l. if A s l then if B s l then [(s, l)] else [] else []) ls) else []) ss)))
     = sum_of (\<lambda>s. sum_of (\<lambda>l. if T s \<and> A s l \<and> B s l \<and> C s l then st_qty s else 0) ls) ss"
    for T A B ls ss
    by (induction ss) (auto simp: inner [unfolded comp_def])
  have "sum_of st_qty (map fst (filter (\<lambda>(s, l). C s l) (settlements_with_lots e db)))
     = sum_of (\<lambda>s. sum_of (\<lambda>l. if st_tenant_id s = Some (tenant e) \<and> st_lot_id s = Some (lot_id l)
          \<and> lot_tenant_id l = st_tenant_id s \<and> C s l then st_qty s else 0) (exchange_lots db))
          (exchange_lot_settlements db)"
    unfolding settlements_with_lots_def map_map
    by (rule outer [of "\<lambda>s. st_tenant_id s = Some (tenant e)" "\<lambda>s l. st_lot_id s = Some (lot_id l)"
          "\<lambda>s l. lot_tenant_id l = st_tenant_id s" "exchange_lots db" "exchange_lot_settlements db"])
  then show ?thesis by (rule trans [OF _ sum_of_swap])
qed

lemma settled_of_lot:
  assumes inv: "lot_inv db" and l: "l \<in> set (exchange_lots db)"
  shows "sum_of (\<lambda>s. if st_tenant_id s = Some t \<and> st_lot_id s = Some (lot_id l)
        \<and> lot_tenant_id l = st_tenant_id s \<and> F l \<and> \<not> is_refunded s then st_qty s else 0)
        (exchange_lot_settlements db)
     = (if lot_tenant_id l = Some t \<and> F l then active_qty db (lot_id l) else 0)"
proof (cases "lot_tenant_id l = Some t \<and> F l")
  case True
  have "st_tenant_id s = lot_tenant_id l"
    if "s \<in> set (exchange_lot_settlements db)" "st_lot_id s = Some (lot_id l)" for s
  proof -
    from inv that obtain l' where "l' \<in> set (exchange_lots db)" "lot_id l' = lot_id l"
      "lot_tenant_id l' = st_tenant_id s"
      by (force simp: lot_inv_def settlement_ok_def)
    with keys_unique [of db l' l] inv l show ?thesis by (simp add: lot_inv_def)
  qed
  with True show ?thesis
    unfolding active_qty_def sum_list_map_filter' by (simp cong: map_cong) (rule sum_of_cong, auto)
next
  case False
  then show ?thesis by (subst sum_of_zero) auto
qed

text \<open>The summary of a source document is consistent with the lots it created: original
  quantity = remaining quantity + quantity settled against it. In particular, when the guard
  \<open>hasActiveSettlementsAgainstSource\<close> lets the source be voided, all its lots are untouched.\<close>

theorem source_summary_consistent:
  assumes "lot_reachable db"
    and "getSummaryForSources e tbl ids db i = Some sm"
  shows "src_original_qty sm = src_remaining_qty sm + src_settled_qty sm
    \<and> (\<not> hasActiveSettlementsAgainstSource e tbl i db \<longrightarrow> src_remaining_qty sm = src_original_qty sm)"
proof -
  have inv: "lot_inv db" by (rule lot_reachable_inv [OF assms(1)])
  let ?own = "\<lambda>l. lot_tenant_id l = Some (tenant e) \<and> from_source tbl i l"
  let ?ss = "map fst (filter (\<lambda>(s, l). from_source tbl i l \<and> \<not> is_refunded s) (settlements_with_lots e db))"
  have sm: "src_original_qty sm = sum_of original_qty (filter ?own (exchange_lots db))"
    "src_remaining_qty sm = sum_of remaining_qty (filter ?own (exchange_lots db))"
    "src_settled_qty sm = sum_of st_qty ?ss"
    using assms(2) by (auto simp: getSummaryForSources_def Let_def split: if_splits)
  have settled: "sum_of st_qty ?ss
      = sum_of (\<lambda>l. active_qty db (lot_id l)) (filter ?own (exchange_lots db))"
    unfolding sum_over_join sum_list_map_filter'
    by (rule sum_of_cong) (simp add: settled_of_lot [OF inv, where F = "from_source tbl i"])
  have "sum_of original_qty (filter ?own (exchange_lots db))
      = sum_of (\<lambda>l. remaining_qty l + active_qty db (lot_id l)) (filter ?own (exchange_lots db))"
    using inv by (intro sum_of_cong) (auto simp: lot_inv_def lots_balanced_def)
  then have eq: "src_original_qty sm = src_remaining_qty sm + src_settled_qty sm"
    unfolding sm settled by (simp add: sum_list_addf)
  have "src_settled_qty sm = 0" if "\<not> hasActiveSettlementsAgainstSource e tbl i db"
  proof -
    have "?ss = []"
      using that by (auto simp: hasActiveSettlementsAgainstSource_def list_ex_iff filter_empty_conv)
    then show ?thesis unfolding sm(3) by (metis sum_list.Nil list.map(1))
  qed
  with eq show ?thesis by simp
qed

theorem source_summary_consistent_witness:
  "map_option src_settled_qty (getSummaryForSources sample_env ''exchange_transactions'' [7] 
     (snd (walkFifo sample_env (consume_params (sample_sell 70)) sample_db)) 7) = Some (100 - 30)"
proof -
  let ?db = "snd (walkFifo sample_env (consume_params (sample_sell 70)) sample_db)"
  have "lot_step sample_env sample_db ?db"
    by (rule lot_step.consume [OF consume_Inr]) (simp add: sample_sell_def)
  with sample_reachable have reach: "lot_reachable ?db" by (rule lot_reachable.step)
  have "map_option (\<lambda>s. (src_original_qty s, src_remaining_qty s))
      (getSummaryForSources sample_env ''exchange_transactions'' [7] ?db 7) = Some (100, 30)"
    by code_simp
  then obtain sm where sm: "getSummaryForSources sample_env ''exchange_transactions'' [7] ?db 7 = Some sm"
    "src_original_qty sm = 100" "src_remaining_qty sm = 30" by auto
  with source_summary_consistent [OF reach sm(1)] show ?thesis by simp
qed

end
