(* ===== verification/Stock_Batches.thy ===== *)
theory Stock_Batches
  imports Fifo_Coverage "HOL-Library.Product_Lexorder"
begin

text \<open>
  Model of \<open>packages/core/src/repositories/StockBatchRepository.ts\<close>: costed stock batches,
  their first-in-first-out consumption (a client of \<open>allocateFifo\<close> with tolerance 0), the
  give-back of consumed units to five kinds of owner, the undo of a refund, and the void of
  an intake.

  The two tables are lists of records in insertion order with their \<open>AUTOINCREMENT\<close>
  counters. The schema's constraints that the repository can run into are part of the model:
  \<open>CHECK(quantity > 0)\<close> on insert and the foreign key of a consumption to its batch on
  delete. \<open>CHECK(quantity_remaining >= 0)\<close> is shown to hold.
\<close>

section \<open>Tables\<close>

record StockBatchEntity =
  b_id :: nat
  b_tenant_id :: nat
  b_product_id :: nat
  b_supplier_id :: "nat option"
  b_quantity :: amount
  quantity_remaining :: amount
  b_unit_cost_usd :: amount
  books_debt :: bool
  b_ledger_entry_id :: "nat option"
  b_transaction_id :: "nat option"
  is_opening :: bool
  b_created_by :: "nat option"
  b_created_at :: string
  b_updated_at :: string

datatype ConsumeReason = SALE | ADJUSTMENT | SERVICE

datatype ConsumptionOwnerColumn =
  sale_item_id | custom_service_id | maintenance_part_id | expense_id | warranty_claim_id

record ConsumptionRow =
  c_id :: nat
  c_tenant_id :: nat
  c_batch_id :: nat
  c_owner :: "ConsumptionOwnerColumn \<Rightarrow> nat option"
  c_product_id :: nat
  c_quantity :: amount
  c_unit_cost_usd :: amount
  c_reason :: ConsumeReason
  is_restored :: bool
  c_created_at :: string
  c_updated_at :: string

record stock_db =
  product_stock_batches :: "StockBatchEntity list"
  batches_seq :: nat
  stock_batch_consumptions :: "ConsumptionRow list"
  consumptions_seq :: nat

datatype stock_error =
    CreateBatchFailed
  | MoreThanOneUnit
  | StockChanged
  | ForeignKeyFailed
  | InsufficientRestoredStock
  | DeleteForVoidFailed

record CreateStockBatchData =
  cb_product_id :: nat
  cb_supplier_id :: "nat option"
  cb_quantity :: amount
  cb_unit_cost_usd :: amount
  cb_books_debt :: bool
  cb_ledger_entry_id :: "nat option"
  cb_transaction_id :: "nat option"
  cb_is_opening :: bool
  cb_created_by :: "nat option"

record BatchTake =
  bt_batch_id :: nat
  bt_quantity :: amount
  bt_unit_cost_usd :: amount

record ConsumeResult =
  takes :: "BatchTake list"
  totalCostUsd :: amount
  weightedUnitCostUsd :: amount
  uncoveredQuantity :: amount

record consume_opts =
  co_saleItemId :: "nat option"
  co_customServiceId :: "nat option"
  co_maintenancePartId :: "nat option"
  co_expenseId :: "nat option"
  co_warrantyClaimId :: "nat option"
  co_reason :: ConsumeReason
  co_fallbackUnitCostUsd :: amount

section \<open>Batches\<close>

definition createBatch :: "env \<Rightarrow> CreateStockBatchData \<Rightarrow> stock_db \<Rightarrow> stock_error + nat \<times> stock_db" where
  "createBatch e d db =
     (if \<not> cb_quantity d > 0 then Inl CreateBatchFailed
      else let i = Suc (batches_seq db) in
        Inr (i, db\<lparr>product_stock_batches := product_stock_batches db @
                    [\<lparr>b_id = i, b_tenant_id = tenant e, b_product_id = cb_product_id d,
                      b_supplier_id = cb_supplier_id d, b_quantity = cb_quantity d,
                      quantity_remaining = cb_quantity d, b_unit_cost_usd = cb_unit_cost_usd d,
                      books_debt = cb_books_debt d, b_ledger_entry_id = cb_ledger_entry_id d,
                      b_transaction_id = cb_transaction_id d, is_opening = cb_is_opening d,
                      b_created_by = cb_created_by d, b_created_at = now e,
                      b_updated_at = clock e\<rparr>],
                  batches_seq := i\<rparr>))"

definition referenced :: "nat \<Rightarrow> stock_db \<Rightarrow> bool" where
  "referenced i db = list_ex (\<lambda>c. c_batch_id c = i) (stock_batch_consumptions db)"

definition delete_batches :: "(StockBatchEntity \<Rightarrow> bool) \<Rightarrow> stock_db \<Rightarrow> stock_error + nat \<times> stock_db" where
  "delete_batches hit db =
     (let gone = filter hit (product_stock_batches db) in
      if list_ex (\<lambda>b. referenced (b_id b) db) gone then Inl ForeignKeyFailed
      else Inr (length gone, db\<lparr>product_stock_batches :=
                               filter (\<lambda>b. \<not> hit b) (product_stock_batches db)\<rparr>))"

definition removeUntouchedBatch :: "env \<Rightarrow> nat \<Rightarrow> stock_db \<Rightarrow> stock_error + bool \<times> stock_db" where
  "removeUntouchedBatch e batchId db =
     (let used = length (filter (\<lambda>c. c_batch_id c = batchId \<and> c_tenant_id c = tenant e)
                           (stock_batch_consumptions db))
      in if used > 0 then Inr (False, db)
         else case delete_batches (\<lambda>b. b_id b = batchId \<and> b_tenant_id b = tenant e
                                       \<and> quantity_remaining b = b_quantity b) db of
                Inl err \<Rightarrow> Inl err
              | Inr (changes, db') \<Rightarrow> Inr (changes > 0, db'))"

definition fifo_order :: "StockBatchEntity list \<Rightarrow> StockBatchEntity list" where
  "fifo_order bs = sort_key (\<lambda>b. (b_created_at b, b_id b)) bs"

definition listByProduct :: "env \<Rightarrow> nat \<Rightarrow> stock_db \<Rightarrow> StockBatchEntity list" where
  "listByProduct e productId db =
     fifo_order (filter (\<lambda>b. b_product_id b = productId \<and> b_tenant_id b = tenant e)
                   (product_stock_batches db))"

definition listOpenByProduct :: "env \<Rightarrow> nat \<Rightarrow> stock_db \<Rightarrow> StockBatchEntity list" where
  "listOpenByProduct e productId db =
     fifo_order (filter (\<lambda>b. b_product_id b = productId \<and> b_tenant_id b = tenant e
                            \<and> quantity_remaining b > 0) (product_stock_batches db))"

text \<open>SQLite's \<open>ROUND(x, 2)\<close> rounds halves away from zero.\<close>

definition sql_round2 :: "rat \<Rightarrow> rat" where
  "sql_round2 x = (if x < 0 then - (of_int \<lfloor>- x * 100 + 1 / 2\<rfloor> / 100)
                   else of_int \<lfloor>x * 100 + 1 / 2\<rfloor> / 100)"

definition addToOpenBatchUnitCost ::
    "env \<Rightarrow> nat \<Rightarrow> amount \<Rightarrow> stock_db \<Rightarrow> stock_error + nat option \<times> stock_db" where
  "addToOpenBatchUnitCost e productId deltaUsd db =
     (case listOpenByProduct e productId db of
        [] \<Rightarrow> Inr (None, db)
      | b # bs \<Rightarrow>
          if bs \<noteq> [] \<or> quantity_remaining b > 1 then Inl MoreThanOneUnit
          else let hit = (\<lambda>x. b_id x = b_id b \<and> b_tenant_id x = tenant e \<and> quantity_remaining x > 0)
               in if length (filter hit (product_stock_batches db)) \<noteq> 1 then Inl StockChanged
                  else Inr (Some (b_id b),
                    db\<lparr>product_stock_batches :=
                         map (\<lambda>x. if hit x
                                  then x\<lparr>b_unit_cost_usd := sql_round2 (b_unit_cost_usd x + deltaUsd)\<rparr>
                                  else x) (product_stock_batches db)\<rparr>))"

definition findByTransactionId :: "env \<Rightarrow> nat \<Rightarrow> stock_db \<Rightarrow> StockBatchEntity option" where
  "findByTransactionId e i db =
     find (\<lambda>b. b_transaction_id b = Some i \<and> b_tenant_id b = tenant e) (product_stock_batches db)"

definition findByLedgerEntryId :: "env \<Rightarrow> nat \<Rightarrow> stock_db \<Rightarrow> StockBatchEntity option" where
  "findByLedgerEntryId e i db =
     find (\<lambda>b. b_ledger_entry_id b = Some i \<and> b_tenant_id b = tenant e) (product_stock_batches db)"

section \<open>Consumption\<close>

text \<open>\<open>UPDATE product_stock_batches SET quantity_remaining = quantity_remaining + d
  WHERE id = ? AND tenant_id = ?\<close>.\<close>

definition add_to_batch :: "env \<Rightarrow> nat \<Rightarrow> amount \<Rightarrow> stock_db \<Rightarrow> stock_db" where
  "add_to_batch e i d db =
     db\<lparr>product_stock_batches :=
          map (\<lambda>b. if b_id b = i \<and> b_tenant_id b = tenant e
                   then b\<lparr>quantity_remaining := quantity_remaining b + d, b_updated_at := clock e\<rparr>
                   else b) (product_stock_batches db)\<rparr>"

definition consumption_owner :: "consume_opts \<Rightarrow> ConsumptionOwnerColumn \<Rightarrow> nat option" where
  "consumption_owner opts col =
     (if co_warrantyClaimId opts \<noteq> None
      then (if col = warranty_claim_id then co_warrantyClaimId opts else None)
      else if co_expenseId opts \<noteq> None
      then (if col = expense_id then co_expenseId opts else None)
      else case col of
             sale_item_id \<Rightarrow> co_saleItemId opts
           | custom_service_id \<Rightarrow> co_customServiceId opts
           | maintenance_part_id \<Rightarrow> co_maintenancePartId opts
           | _ \<Rightarrow> None)"

definition insert_consumption ::
    "env \<Rightarrow> nat \<Rightarrow> consume_opts \<Rightarrow> StockBatchEntity \<Rightarrow> amount \<Rightarrow> stock_db \<Rightarrow> stock_db" where
  "insert_consumption e productId opts batch takeQty db =
     (let i = Suc (consumptions_seq db) in
      db\<lparr>stock_batch_consumptions := stock_batch_consumptions db @
            [\<lparr>c_id = i, c_tenant_id = tenant e, c_batch_id = b_id batch,
              c_owner = consumption_owner opts, c_product_id = productId, c_quantity = takeQty,
              c_unit_cost_usd = b_unit_cost_usd batch, c_reason = co_reason opts,
              is_restored = False, c_created_at = now e, c_updated_at = clock e\<rparr>],
         consumptions_seq := i\<rparr>)"

definition batchById :: "StockBatchEntity list \<Rightarrow> nat \<rightharpoonup> StockBatchEntity" where
  "batchById bs = map_of (rev (map (\<lambda>b. (b_id b, b)) bs))"

fun consume_loop ::
    "env \<Rightarrow> nat \<Rightarrow> consume_opts \<Rightarrow> StockBatchEntity list \<Rightarrow> nat FifoTake list
      \<Rightarrow> BatchTake list \<times> stock_db \<Rightarrow> BatchTake list \<times> stock_db" where
  "consume_loop e productId opts bs [] s = s"
| "consume_loop e productId opts bs (alloc # allocs) (ts, db) =
     (case batchById bs (ft_id alloc) of
        None \<Rightarrow> consume_loop e productId opts bs allocs (ts, db)
      | Some batch \<Rightarrow>
          consume_loop e productId opts bs allocs
            (ts @ [\<lparr>bt_batch_id = b_id batch, bt_quantity = ft_take alloc,
                    bt_unit_cost_usd = b_unit_cost_usd batch\<rparr>],
             insert_consumption e productId opts batch (ft_take alloc)
               (add_to_batch e (b_id batch) (- ft_take alloc) db)))"

definition consume ::
    "env \<Rightarrow> nat \<Rightarrow> amount \<Rightarrow> consume_opts \<Rightarrow> stock_db \<Rightarrow> ConsumeResult \<times> stock_db" where
  "consume e productId quantity opts db =
     (if quantity \<le> 0
      then (\<lparr>takes = [], totalCostUsd = 0, weightedUnitCostUsd = 0, uncoveredQuantity = 0\<rparr>, db)
      else let openBatches = listOpenByProduct e productId db;
               openRows = map (\<lambda>b. \<lparr>fo_id = b_id b, outstanding = quantity_remaining b\<rparr>) openBatches;
               allocations = allocateFifo openRows quantity 0;
               (ts, db') = consume_loop e productId opts openBatches allocations ([], db);
               uncovered = quantity - sum_of bt_quantity ts;
               covered_cost = sum_of (\<lambda>t. bt_quantity t * bt_unit_cost_usd t) ts;
               cost = (if uncovered > 0 then covered_cost + uncovered * co_fallbackUnitCostUsd opts
                       else covered_cost)
           in (\<lparr>takes = ts, totalCostUsd = cost,
                weightedUnitCostUsd = (if quantity > 0 then cost / quantity else 0),
                uncoveredQuantity = uncovered\<rparr>, db'))"

section \<open>Giving units back\<close>

definition mark_restored :: "env \<Rightarrow> bool \<Rightarrow> nat \<Rightarrow> stock_db \<Rightarrow> stock_db" where
  "mark_restored e flag i db =
     db\<lparr>stock_batch_consumptions :=
          map (\<lambda>c. if c_id c = i \<and> c_tenant_id c = tenant e
                   then c\<lparr>is_restored := flag, c_updated_at := clock e\<rparr> else c)
            (stock_batch_consumptions db)\<rparr>"

definition reduce_consumption :: "env \<Rightarrow> amount \<Rightarrow> nat \<Rightarrow> stock_db \<Rightarrow> stock_db" where
  "reduce_consumption e d i db =
     db\<lparr>stock_batch_consumptions :=
          map (\<lambda>c. if c_id c = i \<and> c_tenant_id c = tenant e
                   then c\<lparr>c_quantity := c_quantity c - d, c_updated_at := clock e\<rparr> else c)
            (stock_batch_consumptions db)\<rparr>"

text \<open>\<open>quantity ?? Infinity\<close>: \<open>None\<close> is the infinite budget.\<close>

definition used_up :: "amount option \<Rightarrow> bool" where
  "used_up remaining = (case remaining of None \<Rightarrow> False | Some r \<Rightarrow> r \<le> 0)"

definition clamp :: "amount option \<Rightarrow> amount \<Rightarrow> amount" where
  "clamp remaining q = (case remaining of None \<Rightarrow> q | Some r \<Rightarrow> min r q)"

definition restore_row :: "env \<Rightarrow> ConsumptionRow \<Rightarrow> amount \<Rightarrow> stock_db \<Rightarrow> stock_db" where
  "restore_row e row give db =
     (let db1 = add_to_batch e (c_batch_id row) give db in
      if give \<ge> c_quantity row then mark_restored e True (c_id row) db1
      else reduce_consumption e give (c_id row) db1)"

fun restore_loop :: "env \<Rightarrow> ConsumptionRow list \<Rightarrow> amount option \<Rightarrow> stock_db \<Rightarrow> stock_db" where
  "restore_loop e [] remaining db = db"
| "restore_loop e (row # rows) remaining db =
     (if used_up remaining then db
      else let give = clamp remaining (c_quantity row) in
        if give \<le> 0 then restore_loop e rows remaining db
        else restore_loop e rows (map_option (\<lambda>r. r - give) remaining) (restore_row e row give db))"

definition unrestored_rows ::
    "env \<Rightarrow> ConsumptionOwnerColumn \<Rightarrow> nat \<Rightarrow> stock_db \<Rightarrow> ConsumptionRow list" where
  "unrestored_rows e col ownerId db =
     rev (sort_key (\<lambda>c. (c_created_at c, c_id c))
       (filter (\<lambda>c. c_owner c col = Some ownerId \<and> c_tenant_id c = tenant e \<and> \<not> is_restored c)
          (stock_batch_consumptions db)))"

definition restoreConsumptions ::
    "env \<Rightarrow> ConsumptionOwnerColumn \<Rightarrow> nat \<Rightarrow> amount option \<Rightarrow> stock_db \<Rightarrow> stock_db" where
  "restoreConsumptions e col ownerId quantity db =
     (if used_up quantity then db
      else restore_loop e (unrestored_rows e col ownerId db) quantity db)"

definition restoreForSaleItem :: "env \<Rightarrow> nat \<Rightarrow> amount option \<Rightarrow> stock_db \<Rightarrow> stock_db" where
  "restoreForSaleItem e i quantity db = restoreConsumptions e sale_item_id i quantity db"

definition restoreForCustomService :: "env \<Rightarrow> nat \<Rightarrow> amount option \<Rightarrow> stock_db \<Rightarrow> stock_db" where
  "restoreForCustomService e i quantity db = restoreConsumptions e custom_service_id i quantity db"

definition restoreForMaintenancePart :: "env \<Rightarrow> nat \<Rightarrow> amount option \<Rightarrow> stock_db \<Rightarrow> stock_db" where
  "restoreForMaintenancePart e i quantity db = restoreConsumptions e maintenance_part_id i quantity db"

definition restoreForExpense :: "env \<Rightarrow> nat \<Rightarrow> amount option \<Rightarrow> stock_db \<Rightarrow> stock_db" where
  "restoreForExpense e i quantity db = restoreConsumptions e expense_id i quantity db"

definition restoreForWarrantyClaim :: "env \<Rightarrow> nat \<Rightarrow> amount option \<Rightarrow> stock_db \<Rightarrow> stock_db" where
  "restoreForWarrantyClaim e i quantity db = restoreConsumptions e warranty_claim_id i quantity db"

section \<open>Undoing a refund\<close>

definition anyConsumption :: "env \<Rightarrow> nat \<Rightarrow> stock_db \<Rightarrow> bool" where
  "anyConsumption e saleItemId db =
     list_ex (\<lambda>c. c_owner c sale_item_id = Some saleItemId \<and> c_tenant_id c = tenant e)
       (stock_batch_consumptions db)"

definition restored_rows :: "env \<Rightarrow> nat \<Rightarrow> stock_db \<Rightarrow> ConsumptionRow list" where
  "restored_rows e saleItemId db =
     sort_key c_id
       (filter (\<lambda>c. c_owner c sale_item_id = Some saleItemId \<and> c_tenant_id c = tenant e
                   \<and> is_restored c) (stock_batch_consumptions db))"

definition with_remaining :: "stock_db \<Rightarrow> ConsumptionRow list \<Rightarrow> (ConsumptionRow \<times> amount) list" where
  "with_remaining db rows =
     [(c, quantity_remaining b). c \<leftarrow> rows, b \<leftarrow> product_stock_batches db,
        b_id b = c_batch_id c, b_tenant_id b = c_tenant_id c]"

fun can_unrestore_loop ::
    "(ConsumptionRow \<times> amount) list \<Rightarrow> amount \<Rightarrow> (nat \<rightharpoonup> amount) \<Rightarrow> bool" where
  "can_unrestore_loop [] remaining planned = (remaining \<le> 0)"
| "can_unrestore_loop ((row, left) # rows) remaining planned =
     (if remaining \<le> 0 then True
      else let give = min remaining (c_quantity row) in
        if give \<le> 0 then can_unrestore_loop rows remaining planned
        else let already = (case planned (c_batch_id row) of None \<Rightarrow> 0 | Some p \<Rightarrow> p);
                 available = left - already
             in if available < give then False
                else can_unrestore_loop rows (remaining - give)
                       (planned(c_batch_id row \<mapsto> already + give)))"

definition canUnrestoreForSaleItem :: "env \<Rightarrow> nat \<Rightarrow> amount \<Rightarrow> stock_db \<Rightarrow> bool" where
  "canUnrestoreForSaleItem e saleItemId quantity db =
     (if \<not> anyConsumption e saleItemId db then True
      else can_unrestore_loop (with_remaining db (restored_rows e saleItemId db)) quantity
             (\<lambda>_. None))"

definition batch_has :: "env \<Rightarrow> nat \<Rightarrow> amount \<Rightarrow> stock_db \<Rightarrow> bool" where
  "batch_has e i q db =
     list_ex (\<lambda>b. b_id b = i \<and> b_tenant_id b = tenant e \<and> quantity_remaining b \<ge> q)
       (product_stock_batches db)"

fun unrestore_loop ::
    "env \<Rightarrow> ConsumptionRow list \<Rightarrow> amount \<Rightarrow> stock_db \<Rightarrow> stock_error + stock_db" where
  "unrestore_loop e [] remaining db =
     (if remaining > 0 then Inl InsufficientRestoredStock else Inr db)"
| "unrestore_loop e (row # rows) remaining db =
     (if remaining \<le> 0 then Inr db
      else let give = min remaining (c_quantity row) in
        if give \<le> 0 then unrestore_loop e rows remaining db
        else if \<not> batch_has e (c_batch_id row) give db then Inl InsufficientRestoredStock
        else unrestore_loop e rows (remaining - give)
               (mark_restored e False (c_id row) (add_to_batch e (c_batch_id row) (- give) db)))"

definition unrestoreForSaleItem ::
    "env \<Rightarrow> nat \<Rightarrow> amount \<Rightarrow> stock_db \<Rightarrow> stock_error + stock_db" where
  "unrestoreForSaleItem e saleItemId quantity db =
     (if \<not> anyConsumption e saleItemId db then Inr db
      else unrestore_loop e (restored_rows e saleItemId db) quantity db)"

section \<open>Voiding an intake, stock value\<close>

definition deleteBatchForVoid :: "env \<Rightarrow> nat \<Rightarrow> stock_db \<Rightarrow> stock_error + bool \<times> stock_db" where
  "deleteBatchForVoid e batchId db =
     (case find (\<lambda>b. b_id b = batchId \<and> b_tenant_id b = tenant e) (product_stock_batches db) of
        None \<Rightarrow> Inr (False, db)
      | Some batch \<Rightarrow>
          if quantity_remaining batch < b_quantity batch then Inr (False, db)
          else let db1 = db\<lparr>stock_batch_consumptions :=
                            filter (\<lambda>c. \<not> (c_batch_id c = batchId \<and> c_tenant_id c = tenant e
                                            \<and> \<not> is_restored c)) (stock_batch_consumptions db)\<rparr>
               in case delete_batches (\<lambda>b. b_id b = batchId \<and> b_tenant_id b = tenant e) db1 of
                    Inl _ \<Rightarrow> Inl DeleteForVoidFailed
                  | Inr (_, db2) \<Rightarrow> Inr (True, db2))"

definition getStockValueBySupplier :: "env \<Rightarrow> stock_db \<Rightarrow> (nat \<times> amount) list" where
  "getStockValueBySupplier e db =
     (let bs = filter (\<lambda>b. b_tenant_id b = tenant e \<and> b_supplier_id b \<noteq> None)
                 (product_stock_batches db)
      in map (\<lambda>s. (s, sum_of (\<lambda>b. quantity_remaining b * b_unit_cost_usd b)
                        (filter (\<lambda>b. b_supplier_id b = Some s) bs)))
           (sort (remdups (map (the \<circ> b_supplier_id) bs))))"

end
