(* ===== verification/Stock_Batches_Safety.thy ===== *)
theory Stock_Batches_Safety
  imports Stock_Batches
begin

text \<open>
  The ledger invariant of the stock batches: what a batch received is what it has left plus
  what is consumed from it and not given back. Every operation keeps it (the undo of a refund
  exactly only when it undoes whole consumption rows). Consumption relies on the \<open>fifo_allocator\<close>
  contract only.
\<close>

section \<open>The invariant\<close>

definition consumed :: "ConsumptionRow \<Rightarrow> amount" where
  "consumed c = (if is_restored c then 0 else c_quantity c)"

definition batch_active :: "stock_db \<Rightarrow> nat \<Rightarrow> amount" where
  "batch_active db i = sum_of consumed (filter (\<lambda>c. c_batch_id c = i) (stock_batch_consumptions db))"

definition stock_keys :: "stock_db \<Rightarrow> bool" where
  "stock_keys db \<longleftrightarrow>
     distinct (map b_id (product_stock_batches db))
     \<and> (\<forall>b \<in> set (product_stock_batches db). b_id b \<le> batches_seq db)
     \<and> distinct (map c_id (stock_batch_consumptions db))
     \<and> (\<forall>c \<in> set (stock_batch_consumptions db). c_id c \<le> consumptions_seq db)"

text \<open>The balance of a batch comes in two strengths: never short (what is left and what is consumed
  make up at least what was received) and, in an exact ledger, equal to what was received.\<close>

definition stock_balanced :: "bool \<Rightarrow> stock_db \<Rightarrow> bool" where
  "stock_balanced exact db \<longleftrightarrow>
     (\<forall>b \<in> set (product_stock_batches db).
        0 < b_quantity b \<and> 0 \<le> quantity_remaining b
        \<and> b_quantity b \<le> quantity_remaining b + batch_active db (b_id b)
        \<and> (exact \<longrightarrow> quantity_remaining b + batch_active db (b_id b) = b_quantity b))"

definition has_batch :: "stock_db \<Rightarrow> nat \<Rightarrow> nat \<Rightarrow> bool" where
  "has_batch db i t \<longleftrightarrow> (\<exists>b \<in> set (product_stock_batches db). b_id b = i \<and> b_tenant_id b = t)"

definition consumptions_ok :: "stock_db \<Rightarrow> bool" where
  "consumptions_ok db \<longleftrightarrow>
     (\<forall>c \<in> set (stock_batch_consumptions db).
        0 < c_quantity c \<and> has_batch db (c_batch_id c) (c_tenant_id c)
        \<and> c_batch_id c \<le> batches_seq db)"

definition stock_ledger :: "bool \<Rightarrow> stock_db \<Rightarrow> bool" where
  "stock_ledger exact db \<longleftrightarrow> stock_keys db \<and> stock_balanced exact db \<and> consumptions_ok db"

abbreviation stock_inv :: "stock_db \<Rightarrow> bool" where
  "stock_inv \<equiv> stock_ledger True"

lemmas stock_inv_defs = stock_ledger_def stock_keys_def stock_balanced_def consumptions_ok_def

lemma stock_ledger_mono: "stock_ledger m db \<Longrightarrow> (m' \<Longrightarrow> m) \<Longrightarrow> stock_ledger m' db"
  by (auto simp: stock_ledger_def stock_balanced_def)

lemma batch_unique:
  "stock_keys db \<Longrightarrow> b \<in> set (product_stock_batches db) \<Longrightarrow> b' \<in> set (product_stock_batches db) \<Longrightarrow>
     b_id b = b_id b' \<Longrightarrow> b = b'"
  by (auto simp: stock_keys_def distinct_map dest: inj_onD)

lemma consumption_unique:
  "stock_keys db \<Longrightarrow> c \<in> set (stock_batch_consumptions db) \<Longrightarrow> c' \<in> set (stock_batch_consumptions db) \<Longrightarrow>
     c_id c = c_id c' \<Longrightarrow> c = c'"
  by (auto simp: stock_keys_def distinct_map dest: inj_onD)

section \<open>Updates of one row\<close>

definition update_row :: "env \<Rightarrow> (ConsumptionRow \<Rightarrow> ConsumptionRow) \<Rightarrow> nat \<Rightarrow> stock_db \<Rightarrow> stock_db" where
  "update_row e f i db =
     db\<lparr>stock_batch_consumptions :=
          map (\<lambda>c. if c_id c = i \<and> c_tenant_id c = tenant e then f c else c)
            (stock_batch_consumptions db)\<rparr>"

lemma mark_restored_update:
  "mark_restored e flag i = update_row e (\<lambda>c. c\<lparr>is_restored := flag, c_updated_at := clock e\<rparr>) i"
  by (rule ext) (simp add: mark_restored_def update_row_def)

lemma reduce_consumption_update:
  "reduce_consumption e d i = update_row e (\<lambda>c. c\<lparr>c_quantity := c_quantity c - d, c_updated_at := clock e\<rparr>) i"
  by (rule ext) (simp add: reduce_consumption_def update_row_def)

lemma add_to_batch_frame [row_simps]:
  "stock_batch_consumptions (add_to_batch e i d db) = stock_batch_consumptions db"
  "consumptions_seq (add_to_batch e i d db) = consumptions_seq db"
  "batches_seq (add_to_batch e i d db) = batches_seq db"
  "map b_id (product_stock_batches (add_to_batch e i d db)) = map b_id (product_stock_batches db)"
  by (auto simp: add_to_batch_def)

lemma update_row_frame [row_simps]:
  "product_stock_batches (update_row e f i db) = product_stock_batches db"
  "batches_seq (update_row e f i db) = batches_seq db"
  "consumptions_seq (update_row e f i db) = consumptions_seq db"
  "has_batch (update_row e f i db) = has_batch db"
  by (auto simp: update_row_def has_batch_def intro!: ext)

lemma batch_active_add_to_batch [row_simps]: "batch_active (add_to_batch e i d db) = batch_active db"
  by (rule ext) (simp add: batch_active_def row_simps)

lemma has_batch_add_to_batch [row_simps]: "has_batch (add_to_batch e i d db) = has_batch db"
  by (intro ext) (auto simp: has_batch_def add_to_batch_def simp del: if_image_distrib)

lemma batches_add_to_batch:
  assumes "b' \<in> set (product_stock_batches (add_to_batch e i d db))"
  obtains b where "b \<in> set (product_stock_batches db)"
    "b' = (if b_id b = i \<and> b_tenant_id b = tenant e
           then b\<lparr>quantity_remaining := quantity_remaining b + d, b_updated_at := clock e\<rparr> else b)"
  using assms by (auto simp: add_to_batch_def)

lemma stock_keys_add_to_batch: "stock_keys (add_to_batch e i d db) = stock_keys db"
proof -
  have "(\<forall>b \<in> set (product_stock_batches (add_to_batch e i d db)). b_id b \<le> n)
      = (\<forall>b \<in> set (product_stock_batches db). b_id b \<le> n)" for n
    by (auto simp: add_to_batch_def simp del: if_image_distrib)
  then show ?thesis by (simp add: stock_keys_def row_simps)
qed

lemma update_row_one:
  assumes "stock_keys db" and "c \<in> set (stock_batch_consumptions db)" and "c_tenant_id c = tenant e"
  shows "stock_batch_consumptions (update_row e f (c_id c) db)
     = map (\<lambda>x. if c_id x = c_id c then f x else x) (stock_batch_consumptions db)"
  unfolding update_row_def using assms consumption_unique [OF assms(1) _ assms(2)]
  by (auto intro!: map_cong)

lemma batch_active_update_row:
  assumes "stock_keys db" "c \<in> set (stock_batch_consumptions db)" "c_tenant_id c = tenant e"
    and "c_batch_id (f c) = c_batch_id c"
  shows "batch_active (update_row e f (c_id c) db) i
     = batch_active db i - (if c_batch_id c = i then consumed c - consumed (f c) else 0)"
proof -
  have "distinct (map c_id (stock_batch_consumptions db))"
    using assms(1) by (simp add: stock_keys_def)
  from sum_of_filter_update_key [OF this assms(2), of consumed "\<lambda>c. c_batch_id c = i" f]
  show ?thesis using assms(4) by (simp add: batch_active_def update_row_one [OF assms(1-3)])
qed

text \<open>One consumption row changes and its batch receives the units that are no longer consumed, or
  more of them: the ledger stays as balanced as it was, exactly so when it receives exactly these.\<close>

lemma transfer_inv:
  fixes db e c f
  assumes inv: "stock_ledger m db" and c: "c \<in> set (stock_batch_consumptions db)" "c_tenant_id c = tenant e"
    and f: "c_id (f c) = c_id c" "c_tenant_id (f c) = c_tenant_id c" "c_batch_id (f c) = c_batch_id c"
      "0 < c_quantity (f c)"
    and room: "\<And>b. b \<in> set (product_stock_batches db) \<Longrightarrow> b_id b = c_batch_id c \<Longrightarrow> 0 \<le> quantity_remaining b + d"
    and d: "consumed c - consumed (f c) \<le> d" "m \<Longrightarrow> d = consumed c - consumed (f c)"
  shows "stock_ledger m (update_row e f (c_id c) (add_to_batch e (c_batch_id c) d db))"
    (is "stock_ledger m ?db'")
proof -
  let ?db1 = "add_to_batch e (c_batch_id c) d db"
  from inv have keys: "stock_keys db" and bal: "stock_balanced m db" and ok: "consumptions_ok db"
    by (simp_all add: stock_ledger_def)
  have keys1: "stock_keys ?db1" using keys by (simp add: stock_keys_add_to_batch)
  have c1: "c \<in> set (stock_batch_consumptions ?db1)" using c by (simp add: row_simps)
  have act: "batch_active ?db' i
      = batch_active db i - (if c_batch_id c = i then consumed c - consumed (f c) else 0)" for i
    using batch_active_update_row [where f = f, OF keys1 c1 c(2) f(3)] by (simp add: row_simps)
  have own: "b_tenant_id b = tenant e" if "b \<in> set (product_stock_batches db)" "b_id b = c_batch_id c" for b
  proof -
    from ok c have "has_batch db (c_batch_id c) (tenant e)" by (auto simp: consumptions_ok_def)
    then obtain b' where "b' \<in> set (product_stock_batches db)" "b_id b' = c_batch_id c" "b_tenant_id b' = tenant e"
      by (auto simp: has_batch_def)
    with batch_unique [OF keys that(1)] that(2) show ?thesis by simp
  qed
  have "stock_balanced m ?db'"
    unfolding stock_balanced_def
  proof
    fix b'
    assume "b' \<in> set (product_stock_batches ?db')"
    then have "b' \<in> set (product_stock_batches ?db1)" by (simp add: row_simps)
    then obtain b where b: "b \<in> set (product_stock_batches db)"
      and b': "b' = (if b_id b = c_batch_id c \<and> b_tenant_id b = tenant e
           then b\<lparr>quantity_remaining := quantity_remaining b + d, b_updated_at := clock e\<rparr> else b)"
      by (rule batches_add_to_batch)
    from bal b have "0 < b_quantity b" "0 \<le> quantity_remaining b"
      "b_quantity b \<le> quantity_remaining b + batch_active db (b_id b)"
      "m \<Longrightarrow> quantity_remaining b + batch_active db (b_id b) = b_quantity b"
      by (simp_all add: stock_balanced_def)
    then show "0 < b_quantity b' \<and> 0 \<le> quantity_remaining b'
        \<and> b_quantity b' \<le> quantity_remaining b' + batch_active ?db' (b_id b')
        \<and> (m \<longrightarrow> quantity_remaining b' + batch_active ?db' (b_id b') = b_quantity b')"
      using own [OF b] room [OF b] d unfolding act by (auto simp: b')
  qed
  moreover have rows: "stock_batch_consumptions ?db'
      = map (\<lambda>x. if c_id x = c_id c then f x else x) (stock_batch_consumptions db)"
    using update_row_one [OF keys1 c1 c(2)] by (simp add: row_simps)
  have fx: "f x = f c" if "x \<in> set (stock_batch_consumptions db)" "c_id x = c_id c" for x
    using consumption_unique [OF keys that(1) c(1) that(2)] by simp
  have row: "\<exists>x \<in> set (stock_batch_consumptions db). c_id y = c_id x \<and> c_batch_id y = c_batch_id x
      \<and> c_tenant_id y = c_tenant_id x \<and> 0 < c_quantity y"
    if "y \<in> set (stock_batch_consumptions ?db')" for y
  proof -
    from that obtain x where x: "x \<in> set (stock_batch_consumptions db)"
      and y: "y = (if c_id x = c_id c then f x else x)" unfolding rows by auto
    show ?thesis
    proof (cases "c_id x = c_id c")
      case True
      with y fx [OF x] have "y = f c" by simp
      with f c show ?thesis by (intro bexI [of _ c]) auto
    next
      case False
      with x y ok show ?thesis by (auto simp: consumptions_ok_def)
    qed
  qed
  have "consumptions_ok ?db'"
    unfolding consumptions_ok_def
    using row ok by (fastforce simp: consumptions_ok_def row_simps)
  moreover have "map c_id (stock_batch_consumptions ?db') = map c_id (stock_batch_consumptions db)"
    unfolding rows map_map using f(1) fx by (intro map_cong) auto
  then have "stock_keys ?db'"
    using keys1 row unfolding stock_keys_def by (fastforce simp: row_simps)
  ultimately show ?thesis by (simp add: stock_ledger_def)
qed

section \<open>Giving back\<close>

lemma batch_room:
  "stock_ledger m db \<Longrightarrow> b \<in> set (product_stock_batches db) \<Longrightarrow> 0 \<le> d \<Longrightarrow> 0 \<le> quantity_remaining b + d"
  by (auto simp: stock_ledger_def stock_balanced_def)

lemma restore_row_inv:
  assumes inv: "stock_ledger m db" and c: "c \<in> set (stock_batch_consumptions db)" "c_tenant_id c = tenant e"
    and act: "\<not> is_restored c" and give: "0 < g" "g \<le> c_quantity c"
  shows "stock_ledger m (restore_row e c g db)"
proof (cases "c_quantity c \<le> g")
  case True
  with give have "g = c_quantity c" by simp
  then have "restore_row e c g db = update_row e (\<lambda>c. c\<lparr>is_restored := True, c_updated_at := clock e\<rparr>) (c_id c)
      (add_to_batch e (c_batch_id c) (consumed c - consumed (c\<lparr>is_restored := True, c_updated_at := clock e\<rparr>)) db)"
    using act by (simp add: restore_row_def mark_restored_update consumed_def)
  moreover have "0 < c_quantity c" using give by linarith
  ultimately show ?thesis
    using inv c act by (simp only:) (rule transfer_inv, auto simp: consumed_def intro: batch_room)
next
  case False
  then have "restore_row e c g db
      = update_row e (\<lambda>c. c\<lparr>c_quantity := c_quantity c - g, c_updated_at := clock e\<rparr>) (c_id c)
      (add_to_batch e (c_batch_id c)
        (consumed c - consumed (c\<lparr>c_quantity := c_quantity c - g, c_updated_at := clock e\<rparr>)) db)"
    using act by (simp add: restore_row_def reduce_consumption_update consumed_def)
  then show ?thesis
    using inv c act give False by (simp only:) (rule transfer_inv, auto simp: consumed_def intro: batch_room)
qed

lemma other_rows_kept:
  assumes "x \<in> set (stock_batch_consumptions db)" and "c_id x \<noteq> i"
  shows "x \<in> set (stock_batch_consumptions (update_row e f i (add_to_batch e' j d db)))"
  using assms by (force simp: update_row_def row_simps)

lemma restore_row_update:
  "\<exists>f d. restore_row e c g db = update_row e f (c_id c) (add_to_batch e (c_batch_id c) d db)"
  unfolding restore_row_def Let_def mark_restored_update reduce_consumption_update by metis

lemma clamp_bounds: "clamp r q \<le> q"
  by (simp add: clamp_def split: option.splits)

lemma restore_loop_inv:
  assumes "stock_ledger m db" "set rows \<subseteq> set (stock_batch_consumptions db)" "distinct (map c_id rows)"
    and "\<forall>c \<in> set rows. c_tenant_id c = tenant e \<and> \<not> is_restored c"
  shows "stock_ledger m (restore_loop e rows q db)"
  using assms
proof (induction rows arbitrary: q db)
  case (Cons c rows)
  let ?g = "clamp q (c_quantity c)"
  show ?case
  proof (cases "used_up q \<or> ?g \<le> 0")
    case True
    with Cons show ?thesis by (auto simp: Let_def)
  next
    case False
    let ?db = "restore_row e c ?g db"
    have "stock_ledger m ?db"
      using Cons.prems False by (intro restore_row_inv) (auto simp: clamp_bounds)
    moreover have "set rows \<subseteq> set (stock_batch_consumptions ?db)"
    proof
      fix x
      assume x: "x \<in> set rows"
      then have "c_id x \<in> c_id ` set rows" by (rule imageI)
      with Cons.prems have "c_id x \<noteq> c_id c" by auto
      moreover have "x \<in> set (stock_batch_consumptions db)" using x Cons.prems by auto
      ultimately show "x \<in> set (stock_batch_consumptions ?db)"
        using restore_row_update [of e c ?g db] other_rows_kept by metis
    qed
    ultimately show ?thesis using Cons False by (simp add: Let_def)
  qed
qed simp

lemma unrestored_rows_props:
  assumes "stock_keys db"
  shows "set (unrestored_rows e col i db) \<subseteq> set (stock_batch_consumptions db)"
    and "distinct (map c_id (unrestored_rows e col i db))"
    and "\<forall>c \<in> set (unrestored_rows e col i db). c_tenant_id c = tenant e \<and> \<not> is_restored c
           \<and> c_owner c col = Some i"
proof -
  have "mset (map c_id (unrestored_rows e col i db))
      = mset (map c_id (filter (\<lambda>c. c_owner c col = Some i \<and> c_tenant_id c = tenant e \<and> \<not> is_restored c)
          (stock_batch_consumptions db)))"
    by (simp add: unrestored_rows_def)
  moreover have "distinct (map c_id (filter P (stock_batch_consumptions db)))" for P
    using assms by (simp add: stock_keys_def distinct_map_filter)
  ultimately show "distinct (map c_id (unrestored_rows e col i db))"
    using mset_eq_imp_distinct_iff by blast
qed (auto simp: unrestored_rows_def)

lemma restoreConsumptions_inv:
  assumes "stock_ledger m db"
  shows "stock_ledger m (restoreConsumptions e col i q db)"
proof -
  have "stock_keys db" using assms by (simp add: stock_ledger_def)
  note rows = unrestored_rows_props [OF this, of e col i]
  have "stock_ledger m (restore_loop e (unrestored_rows e col i db) q db)"
    by (rule restore_loop_inv [OF assms rows(1,2)]) (use rows(3) in auto)
  with assms show ?thesis by (simp add: restoreConsumptions_def)
qed

section \<open>Consuming\<close>

lemma draw_inv:
  assumes inv: "stock_ledger m db" and b: "b \<in> set (product_stock_batches db)" "b_tenant_id b = tenant e"
    and t: "0 < t" "t \<le> quantity_remaining b" and batch: "b_id batch = b_id b"
  shows "stock_ledger m (insert_consumption e pid opts batch t (add_to_batch e (b_id b) (- t) db))"
    (is "stock_ledger m ?db'")
proof -
  let ?db1 = "add_to_batch e (b_id b) (- t) db"
  from inv have keys: "stock_keys db" and bal: "stock_balanced m db" and ok: "consumptions_ok db"
    by (simp_all add: stock_ledger_def)
  have bs: "product_stock_batches ?db' = product_stock_batches ?db1"
    and seq: "batches_seq ?db' = batches_seq db"
    by (simp_all add: insert_consumption_def Let_def row_simps)
  have act: "batch_active ?db' i = batch_active db i + (if b_id b = i then t else 0)" for i
    by (simp add: batch_active_def insert_consumption_def Let_def row_simps batch consumed_def)
  have "has_batch ?db' = has_batch ?db1" by (simp add: has_batch_def bs fun_eq_iff)
  then have has: "has_batch ?db' = has_batch db" by (simp add: row_simps)
  have "stock_balanced m ?db'"
    unfolding stock_balanced_def
  proof
    fix x'
    assume "x' \<in> set (product_stock_batches ?db')"
    then obtain x where x: "x \<in> set (product_stock_batches db)"
      and x': "x' = (if b_id x = b_id b \<and> b_tenant_id x = tenant e
           then x\<lparr>quantity_remaining := quantity_remaining x + - t, b_updated_at := clock e\<rparr> else x)"
      unfolding bs by (rule batches_add_to_batch)
    from bal x have bx: "0 < b_quantity x" "0 \<le> quantity_remaining x"
      "b_quantity x \<le> quantity_remaining x + batch_active db (b_id x)"
      "m \<Longrightarrow> quantity_remaining x + batch_active db (b_id x) = b_quantity x"
      by (simp_all add: stock_balanced_def)
    show "0 < b_quantity x' \<and> 0 \<le> quantity_remaining x'
        \<and> b_quantity x' \<le> quantity_remaining x' + batch_active ?db' (b_id x')
        \<and> (m \<longrightarrow> quantity_remaining x' + batch_active ?db' (b_id x') = b_quantity x')"
    proof (cases "b_id x = b_id b")
      case True
      with batch_unique [OF keys x b(1)] have "x = b" by simp
      with bx b(2) t show ?thesis by (simp add: x' act)
    next
      case False
      with bx show ?thesis by (simp add: x' act)
    qed
  qed
  moreover have "consumptions_ok ?db'"
  proof -
    have "has_batch db (b_id b) (tenant e)" using b by (auto simp: has_batch_def)
    moreover have "b_id b \<le> batches_seq db" using keys b by (simp add: stock_keys_def)
    ultimately show ?thesis
      using ok t unfolding consumptions_ok_def has seq
      by (simp add: insert_consumption_def Let_def row_simps batch)
  qed
  moreover have "stock_keys ?db'"
    using keys stock_keys_add_to_batch [of e "b_id b" "- t" db]
    unfolding stock_keys_def by (fastforce simp: insert_consumption_def Let_def row_simps)
  ultimately show ?thesis by (simp add: stock_ledger_def)
qed

definition drawable :: "env \<Rightarrow> stock_db \<Rightarrow> nat FifoTake \<Rightarrow> bool" where
  "drawable e db a \<longleftrightarrow> 0 < ft_take a \<and>
     (\<exists>b \<in> set (product_stock_batches db). b_id b = ft_id a \<and> b_tenant_id b = tenant e
        \<and> ft_take a \<le> quantity_remaining b)"

lemma drawable_after:
  "drawable e db a \<Longrightarrow> ft_id a \<noteq> i \<Longrightarrow>
     drawable e (insert_consumption e pid opts batch t (add_to_batch e i d db)) a"
  by (force simp: drawable_def insert_consumption_def add_to_batch_def Let_def)

lemma consume_loop_inv:
  assumes "stock_ledger m db" and "\<forall>a \<in> set allocs. drawable e db a" and "distinct (map ft_id allocs)"
    and "\<And>i batch. batchById bs i = Some batch \<Longrightarrow> b_id batch = i"
  shows "stock_ledger m (snd (consume_loop e pid opts bs allocs (ts, db)))"
  using assms(1-3)
proof (induction allocs arbitrary: ts db)
  case (Cons a allocs)
  show ?case
  proof (cases "batchById bs (ft_id a)")
    case None
    with Cons show ?thesis by simp
  next
    case (Some batch)
    then have id: "b_id batch = ft_id a" by (rule assms(4))
    let ?db = "insert_consumption e pid opts batch (ft_take a) (add_to_batch e (b_id batch) (- ft_take a) db)"
    from Cons.prems obtain b where b: "b \<in> set (product_stock_batches db)" "b_id b = ft_id a"
      "b_tenant_id b = tenant e" "ft_take a \<le> quantity_remaining b" "0 < ft_take a"
      by (auto simp: drawable_def)
    have "stock_ledger m ?db"
      using draw_inv [OF Cons.prems(1) b(1,3,5,4), of batch pid opts] id b(2) by simp
    moreover have "drawable e ?db a'" if "a' \<in> set allocs" for a'
    proof (rule drawable_after)
      show "drawable e db a'" using Cons.prems that by simp
      have "ft_id a' \<in> ft_id ` set allocs" using that by (rule imageI)
      then show "ft_id a' \<noteq> b_id batch" using Cons.prems id by auto
    qed
    ultimately show ?thesis using Cons Some by simp
  qed
qed simp

lemma listOpen_props:
  assumes "stock_keys db"
  shows "set (listOpenByProduct e pid db)
      = {b \<in> set (product_stock_batches db). b_product_id b = pid \<and> b_tenant_id b = tenant e
           \<and> 0 < quantity_remaining b}"
    and "distinct (map b_id (listOpenByProduct e pid db))"
proof -
  have "mset (map b_id (listOpenByProduct e pid db))
      = mset (map b_id (filter (\<lambda>b. b_product_id b = pid \<and> b_tenant_id b = tenant e
           \<and> 0 < quantity_remaining b) (product_stock_batches db)))"
    by (simp add: listOpenByProduct_def fifo_order_def)
  moreover have "distinct (map b_id (filter P (product_stock_batches db)))" for P
    using assms by (simp add: stock_keys_def distinct_map_filter)
  ultimately show "distinct (map b_id (listOpenByProduct e pid db))"
    using mset_eq_imp_distinct_iff by blast
qed (auto simp: listOpenByProduct_def fifo_order_def)

lemma batchById_in: "batchById bs i = Some b \<Longrightarrow> b \<in> set bs \<and> b_id b = i"
  by (auto simp: batchById_def dest!: map_of_SomeD)

lemma batchById_mem: "distinct (map b_id bs) \<Longrightarrow> b \<in> set bs \<Longrightarrow> batchById bs (b_id b) = Some b"
  unfolding batchById_def
  by (intro map_of_is_SomeI) (auto simp: comp_def rev_map [symmetric] distinct_rev)

abbreviation batch_row :: "StockBatchEntity \<Rightarrow> nat FifoOpenRow" where
  "batch_row b \<equiv> \<lparr>fo_id = b_id b, outstanding = quantity_remaining b\<rparr>"

abbreviation batch_takes :: "env \<Rightarrow> nat \<Rightarrow> amount \<Rightarrow> stock_db \<Rightarrow> nat FifoTake list" where
  "batch_takes e pid q db \<equiv> allocateFifo (map batch_row (listOpenByProduct e pid db)) q 0"

lemma consume_db:
  "snd (consume e pid q opts db)
     = (if q \<le> 0 then db
        else snd (consume_loop e pid opts (listOpenByProduct e pid db) (batch_takes e pid q db) ([], db)))"
  by (simp add: consume_def Let_def case_prod_beta)

lemma batch_takes_drawable:
  assumes "stock_keys db" and "a \<in> set (batch_takes e pid q db)"
  shows "drawable e db a"
proof -
  from fifo.take_from_row [OF assms(2)] obtain b where
    "b \<in> set (listOpenByProduct e pid db)" "b_id b = ft_id a" "ft_take a \<le> quantity_remaining b"
    by auto
  with fifo.take_pos [OF assms(2)] listOpen_props(1) [OF assms(1)] show ?thesis
    by (auto simp: drawable_def)
qed

lemma consume_inv:
  assumes "stock_ledger m db"
  shows "stock_ledger m (snd (consume e pid q opts db))"
proof -
  have keys: "stock_keys db" using assms by (simp add: stock_ledger_def)
  have "distinct (map ft_id (batch_takes e pid q db))"
    using listOpen_props(2) [OF keys] by (intro fifo.take_ids_distinct) (simp add: comp_def)
  then have "stock_ledger m (snd (consume_loop e pid opts (listOpenByProduct e pid db)
      (batch_takes e pid q db) ([], db)))"
    using assms batch_takes_drawable [OF keys]
    by (intro consume_loop_inv) (auto dest: batchById_in)
  with assms show ?thesis by (simp add: consume_db)
qed

section \<open>Creating, removing, re-costing\<close>

lemma batch_active_unused:
  assumes "stock_ledger m db" and "batches_seq db < i"
  shows "batch_active db i = 0"
proof -
  have "c_batch_id c \<noteq> i" if "c \<in> set (stock_batch_consumptions db)" for c
    using assms that by (auto simp: stock_ledger_def consumptions_ok_def)
  then show ?thesis by (simp add: batch_active_def filter_empty_conv)
qed

lemma createBatch_inv:
  assumes inv: "stock_ledger m db" and "createBatch e d db = Inr (i, db')"
  shows "stock_ledger m db'"
proof -
  from assms(2) have q: "0 < cb_quantity d" and bs: "batches_seq db' = Suc (batches_seq db)"
    and rows: "stock_batch_consumptions db' = stock_batch_consumptions db"
      "consumptions_seq db' = consumptions_seq db"
    by (auto simp: createBatch_def Let_def split: if_splits)
  obtain b where b: "product_stock_batches db' = product_stock_batches db @ [b]"
      "b_id b = Suc (batches_seq db)" "b_quantity b = cb_quantity d" "quantity_remaining b = cb_quantity d"
    using assms(2) by (auto simp: createBatch_def Let_def split: if_splits)
  have act: "batch_active db' = batch_active db" by (rule ext) (simp add: batch_active_def rows)
  have "stock_balanced m db'"
    using inv q batch_active_unused [OF inv, of "Suc (batches_seq db)"]
    by (auto simp: stock_balanced_def stock_ledger_def act b)
  moreover have "stock_keys db'"
    using inv by (fastforce simp: stock_ledger_def stock_keys_def b bs rows)
  moreover have "consumptions_ok db'"
    using inv by (auto simp: stock_ledger_def consumptions_ok_def has_batch_def b bs rows le_SucI)
  ultimately show ?thesis by (simp add: stock_ledger_def)
qed

lemma delete_batches_inv:
  assumes inv: "stock_ledger m db" and "delete_batches hit db = Inr (n, db')"
  shows "stock_ledger m db'"
proof -
  have db': "db' = db\<lparr>product_stock_batches := filter (\<lambda>b. \<not> hit b) (product_stock_batches db)\<rparr>"
    and free: "\<And>b. b \<in> set (product_stock_batches db) \<Longrightarrow> hit b \<Longrightarrow> \<not> referenced (b_id b) db"
    using assms(2) by (auto simp: delete_batches_def Let_def list_ex_iff split: if_splits)
  have act: "batch_active db' = batch_active db" by (rule ext) (simp add: batch_active_def db')
  have "has_batch db' (c_batch_id c) (c_tenant_id c)"
    if "c \<in> set (stock_batch_consumptions db)" "has_batch db (c_batch_id c) (c_tenant_id c)" for c
  proof -
    from that(2) obtain b where "b \<in> set (product_stock_batches db)" "b_id b = c_batch_id c"
      "b_tenant_id b = c_tenant_id c" by (auto simp: has_batch_def)
    moreover from this free [of b] that(1) have "\<not> hit b" by (auto simp: referenced_def list_ex_iff)
    ultimately show ?thesis by (auto simp: has_batch_def db')
  qed
  then have "consumptions_ok db'"
    using inv by (simp add: stock_ledger_def consumptions_ok_def) (simp add: db')
  moreover have "stock_balanced m db'"
    using inv unfolding stock_ledger_def stock_balanced_def act by (simp add: db')
  moreover have "stock_keys db'"
    using inv by (auto simp: stock_ledger_def stock_keys_def db' distinct_map_filter)
  ultimately show ?thesis by (simp add: stock_ledger_def)
qed

lemma removeUntouchedBatch_inv:
  "stock_ledger m db \<Longrightarrow> removeUntouchedBatch e i db = Inr (r, db') \<Longrightarrow> stock_ledger m db'"
  by (auto simp: removeUntouchedBatch_def Let_def split: if_splits sum.splits intro: delete_batches_inv)

lemma recost_inv:
  assumes "stock_ledger m db"
    and db': "db' = db\<lparr>product_stock_batches :=
      map (\<lambda>x. if hit x then x\<lparr>b_unit_cost_usd := f x\<rparr> else x) (product_stock_batches db)\<rparr>"
  shows "stock_ledger m db'"
proof -
  have act: "batch_active db' = batch_active db" by (rule ext) (simp add: batch_active_def db')
  have "has_batch db' = has_batch db"
    by (intro ext) (auto simp: has_batch_def db' simp del: if_image_distrib)
  then have "consumptions_ok db'"
    using assms(1) by (simp add: stock_ledger_def consumptions_ok_def) (simp add: db')
  moreover have b: "\<exists>b \<in> set (product_stock_batches db). b_id b' = b_id b \<and> b_quantity b' = b_quantity b
      \<and> quantity_remaining b' = quantity_remaining b" if "b' \<in> set (product_stock_batches db')" for b'
    using that by (auto simp: db')
  have "stock_balanced m db'"
    using assms(1) unfolding stock_balanced_def stock_ledger_def act by (auto dest!: b)
  moreover have frame: "map b_id (product_stock_batches db') = map b_id (product_stock_batches db)"
    "batches_seq db' = batches_seq db" "consumptions_seq db' = consumptions_seq db"
    "stock_batch_consumptions db' = stock_batch_consumptions db"
    by (simp_all add: db')
  have "stock_keys db'"
    using assms(1) unfolding stock_ledger_def stock_keys_def frame by (auto dest!: b)
  ultimately show ?thesis by (simp add: stock_ledger_def)
qed

lemma addToOpenBatchUnitCost_inv:
  assumes "stock_ledger m db" and "addToOpenBatchUnitCost e pid d db = Inr (r, db')"
  shows "stock_ledger m db'"
proof (cases "listOpenByProduct e pid db")
  case Nil
  with assms show ?thesis by (simp add: addToOpenBatchUnitCost_def)
next
  case (Cons b bs)
  let ?hit = "\<lambda>x. b_id x = b_id b \<and> b_tenant_id x = tenant e \<and> quantity_remaining x > 0"
  have "db' = db\<lparr>product_stock_batches :=
      map (\<lambda>x. if ?hit x then x\<lparr>b_unit_cost_usd := sql_round2 (b_unit_cost_usd x + d)\<rparr> else x)
        (product_stock_batches db)\<rparr>"
    using assms(2) by (simp add: addToOpenBatchUnitCost_def Cons Let_def split: if_splits)
  then show ?thesis by (rule recost_inv [OF assms(1)])
qed

section \<open>Voiding an intake\<close>

lemma full_batch_unconsumed:
  assumes inv: "stock_inv db" and b: "b \<in> set (product_stock_batches db)"
    and full: "b_quantity b \<le> quantity_remaining b"
    and c: "c \<in> set (stock_batch_consumptions db)" "c_batch_id c = b_id b"
  shows "is_restored c"
proof (rule ccontr)
  assume "\<not> is_restored c"
  moreover have pos: "0 \<le> consumed x" if "x \<in> set (stock_batch_consumptions db)" for x
    using inv that by (force simp: stock_ledger_def consumptions_ok_def consumed_def)
  have "consumed c \<le> batch_active db (b_id b)"
    unfolding batch_active_def using c pos by (intro member_sum_of_le) auto
  moreover have "batch_active db (b_id b) \<le> 0"
    using inv b full by (force simp: stock_ledger_def stock_balanced_def)
  moreover have "0 < c_quantity c" using inv c by (auto simp: stock_ledger_def consumptions_ok_def)
  ultimately show False by (simp add: consumed_def)
qed

lemma deleteBatchForVoid_eq:
  assumes inv: "stock_inv db"
  shows "deleteBatchForVoid e i db =
     (case find (\<lambda>b. b_id b = i \<and> b_tenant_id b = tenant e) (product_stock_batches db) of
        None \<Rightarrow> Inr (False, db)
      | Some b \<Rightarrow> if quantity_remaining b < b_quantity b then Inr (False, db)
          else case delete_batches (\<lambda>b. b_id b = i \<and> b_tenant_id b = tenant e) db of
                 Inl _ \<Rightarrow> Inl DeleteForVoidFailed | Inr (_, db') \<Rightarrow> Inr (True, db'))"
proof (cases "find (\<lambda>b. b_id b = i \<and> b_tenant_id b = tenant e) (product_stock_batches db)")
  case None
  then show ?thesis by (simp add: deleteBatchForVoid_def)
next
  case (Some b)
  then have b: "b \<in> set (product_stock_batches db)" "b_id b = i"
    by (auto simp: find_Some_iff nth_mem)
  have "db\<lparr>stock_batch_consumptions := filter (\<lambda>c. \<not> (c_batch_id c = i \<and> c_tenant_id c = tenant e
      \<and> \<not> is_restored c)) (stock_batch_consumptions db)\<rparr> = db"
    if "\<not> quantity_remaining b < b_quantity b"
  proof -
    have "filter (\<lambda>c. \<not> (c_batch_id c = i \<and> c_tenant_id c = tenant e \<and> \<not> is_restored c))
        (stock_batch_consumptions db) = stock_batch_consumptions db"
      using full_batch_unconsumed [OF inv b(1)] that b(2) by (auto simp: filter_id_conv)
    then show ?thesis by simp
  qed
  with Some show ?thesis by (simp add: deleteBatchForVoid_def Let_def)
qed

lemma deleteBatchForVoid_inv:
  assumes inv: "stock_ledger m db" and run: "deleteBatchForVoid e i db = Inr (r, db')"
  shows "stock_ledger m db'"
proof (cases "db' = db")
  case False
  let ?mine = "\<lambda>b. b_id b = i \<and> b_tenant_id b = tenant e"
  let ?gone = "\<lambda>c. c_batch_id c = i \<and> c_tenant_id c = tenant e \<and> \<not> is_restored c"
  let ?rows = "filter (\<lambda>c. \<not> ?gone c) (stock_batch_consumptions db)"
  obtain b where b: "find ?mine (product_stock_batches db) = Some b"
    using run False by (auto simp: deleteBatchForVoid_def split: option.splits)
  then have mine: "b \<in> set (product_stock_batches db)" "?mine b" by (auto simp: find_Some_iff)
  obtain n where del: "delete_batches ?mine (db\<lparr>stock_batch_consumptions := ?rows\<rparr>) = Inr (n, db')"
    using run False b by (auto simp: deleteBatchForVoid_def Let_def split: if_splits sum.splits)
  then have db': "db' = db\<lparr>stock_batch_consumptions := ?rows,
        product_stock_batches := filter (\<lambda>b. \<not> ?mine b) (product_stock_batches db)\<rparr>"
    and free: "\<And>c. c \<in> set ?rows \<Longrightarrow> c_batch_id c \<noteq> i"
    using mine by (auto simp: delete_batches_def Let_def list_ex_iff referenced_def split: if_splits)
  from inv have keys: "stock_keys db" and bal: "stock_balanced m db" and ok: "consumptions_ok db"
    by (simp_all add: stock_ledger_def)
  have other: "b_id x \<noteq> i" if "x \<in> set (product_stock_batches db)" "\<not> ?mine x" for x
    using batch_unique [OF keys that(1) mine(1)] mine(2) that(2) by auto
  have act: "batch_active db' j = batch_active db j" if "j \<noteq> i" for j
    unfolding batch_active_def db' using that by (auto intro!: arg_cong [of _ _ "sum_of consumed"] filter_cong)
  have bal': "stock_balanced m db'"
    unfolding stock_balanced_def
  proof
    fix x assume "x \<in> set (product_stock_batches db')"
    then have x: "x \<in> set (product_stock_batches db)" "\<not> ?mine x" by (auto simp: db')
    from bal x(1) show "0 < b_quantity x \<and> 0 \<le> quantity_remaining x
        \<and> b_quantity x \<le> quantity_remaining x + batch_active db' (b_id x)
        \<and> (m \<longrightarrow> quantity_remaining x + batch_active db' (b_id x) = b_quantity x)"
      unfolding act [OF other [OF x]] stock_balanced_def by blast
  qed
  have "has_batch db' (c_batch_id c) (c_tenant_id c)" if c: "c \<in> set ?rows" for c
  proof -
    have "has_batch db (c_batch_id c) (c_tenant_id c)" using ok c by (auto simp: consumptions_ok_def)
    with free [OF c] show ?thesis by (auto simp: has_batch_def db')
  qed
  moreover have "stock_batch_consumptions db' = ?rows" "batches_seq db' = batches_seq db" by (simp_all add: db')
  ultimately have "consumptions_ok db'" using ok unfolding consumptions_ok_def by simp
  moreover have "stock_keys db'" using keys by (auto simp: stock_keys_def db' distinct_map_filter)
  ultimately show ?thesis using bal' by (simp add: stock_ledger_def)
qed (use inv in simp)

end
