(* ===== verification/Stock_Batches_Properties.thy ===== *)
theory Stock_Batches_Properties
  imports Stock_Batches_Safety
begin

text \<open>
  The properties of the stock batch repository: balance on every reachable state, the result
  of a consumption, give-back and its round trip, the agreement of the undo check with the
  undo, the exact outcome of voiding an intake, and the state in which a checked undo leaves
  the ledger out of balance.
\<close>

section \<open>Undoing a refund\<close>

text \<open>A row reactivated for fewer units than it has leaves its batch with more than it should.\<close>

lemma unrestore_step_inv:
  assumes inv: "stock_ledger m db" and c: "c \<in> set (stock_batch_consumptions db)" "c_tenant_id c = tenant e"
    and r: "is_restored c" and has: "batch_has e (c_batch_id c) g db"
    and g: "g \<le> c_quantity c" "m \<Longrightarrow> g = c_quantity c"
  shows "stock_ledger m (mark_restored e False (c_id c) (add_to_batch e (c_batch_id c) (- g) db))"
proof -
  let ?f = "\<lambda>c. c\<lparr>is_restored := False, c_updated_at := clock e\<rparr>"
  have d: "consumed c - consumed (?f c) = - c_quantity c" using r by (simp add: consumed_def)
  have keys: "stock_keys db" using inv by (simp add: stock_ledger_def)
  have "0 \<le> quantity_remaining b + - g"
    if "b \<in> set (product_stock_batches db)" "b_id b = c_batch_id c" for b
  proof -
    from has obtain b' where "b' \<in> set (product_stock_batches db)" "b_id b' = c_batch_id c"
      "g \<le> quantity_remaining b'" by (auto simp: batch_has_def list_ex_iff)
    with batch_unique [OF keys that(1)] that(2) show ?thesis by simp
  qed
  moreover have "0 < c_quantity c" using inv c by (auto simp: stock_ledger_def consumptions_ok_def)
  ultimately show ?thesis
    using inv c g unfolding mark_restored_update by (intro transfer_inv) (auto simp: consumed_def r)
qed

lemma unrestore_loop_inv:
  assumes "stock_ledger m db" "set rows \<subseteq> set (stock_batch_consumptions db)" "distinct (map c_id rows)"
    and "\<forall>c \<in> set rows. c_tenant_id c = tenant e \<and> is_restored c"
    and "unrestore_loop e rows q db = Inr db'"
    and "m \<Longrightarrow> q \<le> 0 \<or> (\<exists>k. q = sum_of c_quantity (take k rows))"
  shows "stock_ledger m db'"
  using assms
proof (induction rows arbitrary: q db)
  case (Cons c rows)
  show ?case
  proof (cases "q \<le> 0")
    case False
    let ?g = "min q (c_quantity c)"
    have pos: "0 < c_quantity x" if "x \<in> set (stock_batch_consumptions db)" for x
      using Cons.prems(1) that by (auto simp: stock_ledger_def consumptions_ok_def)
    have c: "0 < c_quantity c" using pos Cons.prems(2) by simp
    have whole: "?g = c_quantity c \<and> (\<exists>k. q - ?g = sum_of c_quantity (take k rows))" if exact: m
    proof -
      obtain k where k: "q = sum_of c_quantity (take k (c # rows))" using Cons.prems(6) [OF exact] False by blast
      with False obtain j where j: "k = Suc j" by (cases k) auto
      have "0 \<le> sum_of c_quantity (take j rows)"
        using Cons.prems(2) by (intro sum_of_nonneg) (meson in_set_takeD list.set_intros(2) pos less_imp_le subsetD)
      with k j show ?thesis by auto
    qed
    let ?db = "mark_restored e False (c_id c) (add_to_batch e (c_batch_id c) (- ?g) db)"
    from Cons.prems(5) False c have has: "batch_has e (c_batch_id c) ?g db"
      and run: "unrestore_loop e rows (q - ?g) ?db = Inr db'"
      by (auto simp: Let_def split: if_splits)
    have "stock_ledger m ?db" using Cons.prems has whole by (intro unrestore_step_inv) auto
    moreover have "set rows \<subseteq> set (stock_batch_consumptions ?db)"
    proof
      fix x
      assume x: "x \<in> set rows"
      then have "c_id x \<in> c_id ` set rows" by (rule imageI)
      with Cons.prems(3) have "c_id x \<noteq> c_id c" by auto
      then show "x \<in> set (stock_batch_consumptions ?db)"
        using x Cons.prems(2) other_rows_kept unfolding mark_restored_update by auto
    qed
    ultimately show ?thesis using Cons.prems whole by (intro Cons.IH [OF _ _ _ _ run]) auto
  qed (use Cons.prems in simp)
qed (auto split: if_splits)

lemma restored_rows_props:
  assumes "stock_keys db"
  shows "set (restored_rows e i db) \<subseteq> set (stock_batch_consumptions db)"
    and "distinct (map c_id (restored_rows e i db))"
    and "\<forall>c \<in> set (restored_rows e i db). c_tenant_id c = tenant e \<and> is_restored c"
proof -
  have "mset (map c_id (restored_rows e i db))
      = mset (map c_id (filter (\<lambda>c. c_owner c sale_item_id = Some i \<and> c_tenant_id c = tenant e
          \<and> is_restored c) (stock_batch_consumptions db)))"
    by (simp add: restored_rows_def)
  moreover have "distinct (map c_id (filter P (stock_batch_consumptions db)))" for P
    using assms by (simp add: stock_keys_def distinct_map_filter)
  ultimately show "distinct (map c_id (restored_rows e i db))"
    using mset_eq_imp_distinct_iff by blast
qed (auto simp: restored_rows_def)

text \<open>An undo of a refund covers whole consumption rows, oldest first.\<close>

definition whole_rows :: "env \<Rightarrow> nat \<Rightarrow> amount \<Rightarrow> stock_db \<Rightarrow> bool" where
  "whole_rows e i q db \<longleftrightarrow> \<not> anyConsumption e i db \<or> q \<le> 0
     \<or> (\<exists>k. q = sum_of c_quantity (take k (restored_rows e i db)))"

lemma unrestoreForSaleItem_inv:
  assumes "stock_ledger m db" and "unrestoreForSaleItem e i q db = Inr db'"
  shows "stock_ledger (m \<and> whole_rows e i q db) db'"
proof (cases "anyConsumption e i db")
  case True
  have "stock_keys db" using assms(1) by (simp add: stock_ledger_def)
  note rows = restored_rows_props [OF this, of e i]
  have "stock_ledger (m \<and> whole_rows e i q db) db" by (rule stock_ledger_mono [OF assms(1)]) simp
  moreover have "unrestore_loop e (restored_rows e i db) q db = Inr db'"
    using assms(2) True by (simp add: unrestoreForSaleItem_def)
  ultimately show ?thesis
    by (rule unrestore_loop_inv [OF _ rows]) (use True in \<open>auto simp: whole_rows_def\<close>)
next
  case False
  with assms show ?thesis by (simp add: unrestoreForSaleItem_def whole_rows_def)
qed

section \<open>Reachable stock ledgers\<close>

text \<open>Every writing operation with every argument. The label of a step says whether it keeps the
  ledger exact: only the undo of a refund for a part of a consumption row does not.\<close>

inductive stock_step :: "bool \<Rightarrow> env \<Rightarrow> stock_db \<Rightarrow> stock_db \<Rightarrow> bool" where
  create: "createBatch e d db = Inr (i, db') \<Longrightarrow> stock_step True e db db'"
| remove: "removeUntouchedBatch e i db = Inr (r, db') \<Longrightarrow> stock_step True e db db'"
| recost: "addToOpenBatchUnitCost e pid x db = Inr (j, db') \<Longrightarrow> stock_step True e db db'"
| consume: "Stock_Batches.consume e pid q opts db = (res, db') \<Longrightarrow> stock_step True e db db'"
| restore: "stock_step True e db (restoreConsumptions e col i oq db)"
| unrestore: "unrestoreForSaleItem e i q db = Inr db' \<Longrightarrow> stock_step (whole_rows e i q db) e db db'"
| void: "deleteBatchForVoid e i db = Inr (r, db') \<Longrightarrow> stock_step True e db db'"

definition empty_stock_db :: stock_db where
  "empty_stock_db = \<lparr>product_stock_batches = [], batches_seq = 0, stock_batch_consumptions = [],
     consumptions_seq = 0\<rparr>"

text \<open>The ledgers the operations reach; the label says that every undo of a refund on the way
  covered whole consumption rows.\<close>

inductive stock_reachable :: "bool \<Rightarrow> stock_db \<Rightarrow> bool" where
  init: "stock_reachable True empty_stock_db"
| step: "stock_reachable exact db \<Longrightarrow> stock_step now_exact e db db' \<Longrightarrow> stock_reachable (exact \<and> now_exact) db'"

lemma consume_run_inv: "consume e pid q opts db = (res, db') \<Longrightarrow> stock_ledger m db \<Longrightarrow> stock_ledger m db'"
  using consume_inv [of m db e pid q opts] by simp

lemma stock_step_inv: "stock_step exact e db db' \<Longrightarrow> stock_ledger m db \<Longrightarrow> stock_ledger (m \<and> exact) db'"
  by (induction rule: stock_step.induct)
    (auto intro: createBatch_inv removeUntouchedBatch_inv addToOpenBatchUnitCost_inv consume_run_inv
      restoreConsumptions_inv unrestoreForSaleItem_inv deleteBatchForVoid_inv)

lemma stock_reachable_inv: "stock_reachable exact db \<Longrightarrow> stock_ledger exact db"
proof (induction rule: stock_reachable.induct)
  case init
  show ?case by (simp add: stock_inv_defs empty_stock_db_def)
next
  case (step exact db now_exact e db')
  then show ?case by (blast intro: stock_step_inv)
qed

lemma stock_reachable_exact: "stock_reachable True db \<Longrightarrow> stock_step True e db db' \<Longrightarrow> stock_reachable True db'"
  using stock_reachable.step [of True db True e db'] by simp

section \<open>Sample ledger\<close>

definition shop_env :: env where
  "shop_env = \<lparr>tenant = 1, now = ''n'', clock = ''c''\<rparr>"

definition intake :: "amount \<Rightarrow> amount \<Rightarrow> CreateStockBatchData" where
  "intake q cost = \<lparr>cb_product_id = 5, cb_supplier_id = Some 3, cb_quantity = q, cb_unit_cost_usd = cost,
     cb_books_debt = True, cb_ledger_entry_id = None, cb_transaction_id = None,
     cb_is_opening = False, cb_created_by = None\<rparr>"

definition sale_opts :: "nat \<Rightarrow> consume_opts" where
  "sale_opts i = \<lparr>co_saleItemId = Some i, co_customServiceId = None, co_maintenancePartId = None,
     co_expenseId = None, co_warrantyClaimId = None, co_reason = SALE, co_fallbackUnitCostUsd = 15\<rparr>"

definition received :: "amount \<Rightarrow> amount \<Rightarrow> stock_db \<Rightarrow> stock_db" where
  "received q cost db = (case createBatch shop_env (intake q cost) db of Inl _ \<Rightarrow> db | Inr (_, db') \<Rightarrow> db')"

definition shop_db :: stock_db where
  "shop_db = received 5 12 (received 3 10 empty_stock_db)"

definition sold_db :: stock_db where
  "sold_db = snd (consume shop_env 5 3 (sale_opts 40) shop_db)"

lemma received_reachable: "stock_reachable True db \<Longrightarrow> stock_reachable True (received q cost db)"
  by (auto simp: received_def split: sum.splits intro: stock_reachable_exact stock_step.create)

lemma shop_reachable: "stock_reachable True shop_db"
  unfolding shop_db_def by (intro received_reachable stock_reachable.init)

lemma sold_reachable: "stock_reachable True sold_db"
  unfolding sold_db_def
  by (rule stock_reachable_exact [OF shop_reachable stock_step.consume]) (rule prod.collapse [symmetric])

section \<open>Balance\<close>

text \<open>C4. On every stock ledger the operations reach, for every batch: the units left are never
  negative, and the units left plus the units of its consumption rows that are not restored make up
  at least the units received. They make up exactly the units received when every undo of a refund
  on the way covered whole consumption rows; an undo for a part of a row, which the code accepts,
  reactivates the whole row and leaves the difference too much.\<close>

theorem reachable_batches_balanced:
  assumes "stock_reachable exact db" and "b \<in> set (product_stock_batches db)"
  defines "accounted \<equiv> quantity_remaining b + sum_of c_quantity
      (filter (\<lambda>c. c_batch_id c = b_id b \<and> \<not> is_restored c) (stock_batch_consumptions db))"
  shows "0 \<le> quantity_remaining b \<and> b_quantity b \<le> accounted \<and> (exact \<longrightarrow> b_quantity b = accounted)"
proof -
  have inv: "stock_ledger exact db" by (rule stock_reachable_inv [OF assms(1)])
  have "batch_active db (b_id b) = sum_of c_quantity (filter (\<lambda>c. c_batch_id c = b_id b \<and> \<not> is_restored c)
      (stock_batch_consumptions db))"
    unfolding batch_active_def sum_list_map_filter' by (rule sum_of_cong) (simp add: consumed_def)
  with inv assms(2) show ?thesis by (auto simp: stock_ledger_def stock_balanced_def accounted_def)
qed

theorem reachable_batches_balanced_witness:
  "stock_reachable True sold_db \<and> map quantity_remaining (product_stock_batches sold_db) = [0, 5]
   \<and> b_quantity (hd (product_stock_batches sold_db)) = 0
       + sum_of c_quantity (filter (\<lambda>c. c_batch_id c = b_id (hd (product_stock_batches sold_db))
           \<and> \<not> is_restored c) (stock_batch_consumptions sold_db))"
proof -
  have rem: "map quantity_remaining (product_stock_batches sold_db) = [0, 5]" by code_simp
  then have "hd (product_stock_batches sold_db) \<in> set (product_stock_batches sold_db)"
    and "quantity_remaining (hd (product_stock_batches sold_db)) = 0" by auto
  with reachable_batches_balanced [OF sold_reachable] rem sold_reachable show ?thesis by force
qed

section \<open>What a consumption returns\<close>

lemma consume_loop_takes:
  assumes "\<forall>a \<in> set allocs. \<exists>b. batchById bs (ft_id a) = Some b \<and> b_id b = ft_id a"
  shows "fst (consume_loop e pid opts bs allocs (ts, db))
     = ts @ map (\<lambda>a. \<lparr>bt_batch_id = ft_id a, bt_quantity = ft_take a,
                     bt_unit_cost_usd = b_unit_cost_usd (the (batchById bs (ft_id a)))\<rparr>) allocs"
  using assms by (induction allocs arbitrary: ts db) auto

lemma takes_found:
  assumes "stock_keys db" and "a \<in> set (batch_takes e pid q db)"
  shows "\<exists>b. batchById (listOpenByProduct e pid db) (ft_id a) = Some b \<and> b_id b = ft_id a"
proof -
  from fifo.take_from_row [OF assms(2)] obtain b where
    "b \<in> set (listOpenByProduct e pid db)" "b_id b = ft_id a" by auto
  with batchById_mem [OF listOpen_props(2) [OF assms(1)]] show ?thesis by metis
qed

lemma consume_takes:
  assumes "stock_keys db" and "0 < q"
  shows "map (\<lambda>t. (bt_batch_id t, bt_quantity t)) (takes (fst (consume e pid q opts db)))
       = map (\<lambda>t. (ft_id t, ft_take t)) (batch_takes e pid q db)"
    and "uncoveredQuantity (fst (consume e pid q opts db)) = q - sum_of ft_take (batch_takes e pid q db)"
  using assms takes_found [OF assms(1)]
  by (simp_all add: consume_def Let_def case_prod_beta consume_loop_takes comp_def)

lemma consume_cost:
  assumes "0 < q"
  shows "totalCostUsd (fst (consume e pid q opts db))
       = sum_of (\<lambda>t. bt_quantity t * bt_unit_cost_usd t) (takes (fst (consume e pid q opts db)))
         + max 0 (uncoveredQuantity (fst (consume e pid q opts db))) * co_fallbackUnitCostUsd opts"
    and "weightedUnitCostUsd (fst (consume e pid q opts db)) * q = totalCostUsd (fst (consume e pid q opts db))"
  using assms by (simp_all add: consume_def Let_def case_prod_beta)

lemma open_batches_total:
  "sum_of outstanding (filter (\<lambda>r. 0 < outstanding r) (map batch_row (listOpenByProduct e pid db)))
     = sum_of quantity_remaining (listOpenByProduct e pid db)"
proof -
  have "filter (\<lambda>r. 0 < outstanding r) (map batch_row (listOpenByProduct e pid db))
      = map batch_row (listOpenByProduct e pid db)"
    by (auto simp: filter_id_conv listOpenByProduct_def fifo_order_def)
  then show ?thesis by (simp add: comp_def)
qed

lemma batch_takes_sum:
  assumes "0 < q"
  shows "sum_of ft_take (batch_takes e pid q db) = min q (sum_of quantity_remaining (listOpenByProduct e pid db))"
proof -
  let ?rows = "map batch_row (listOpenByProduct e pid db)"
  let ?s = "sum_of quantity_remaining (listOpenByProduct e pid db)"
  have le: "sum_of ft_take (batch_takes e pid q db) \<le> q"
    using assms by (intro fifo.sum_le) auto
  have "q - sum_of ft_take (batch_takes e pid q db) \<le> 0 \<or> sum_of ft_take (batch_takes e pid q db) = ?s"
    unfolding open_batches_total [symmetric] by (intro fifo.exhausts) simp
  moreover have "sum_of ft_take (batch_takes e pid q db) \<le> ?s"
  proof -
    have "sum_of (\<lambda>r. max 0 (outstanding r)) ?rows = ?s"
      unfolding map_map by (rule sum_of_cong) (auto simp: listOpenByProduct_def fifo_order_def)
    then show ?thesis using fifo.sum_le_rows [of ?rows q 0] by simp
  qed
  ultimately show ?thesis using le by (auto simp: min_def)
qed

lemma consume_take_costs:
  assumes "stock_keys db" and "0 < q" and "t \<in> set (takes (fst (consume e pid q opts db)))"
  shows "0 < bt_quantity t"
    and "\<exists>b \<in> set (listOpenByProduct e pid db). bt_batch_id t = b_id b \<and> bt_unit_cost_usd t = b_unit_cost_usd b"
proof -
  from assms takes_found [OF assms(1)] obtain a where a: "a \<in> set (batch_takes e pid q db)"
    and t: "t = \<lparr>bt_batch_id = ft_id a, bt_quantity = ft_take a,
       bt_unit_cost_usd = b_unit_cost_usd (the (batchById (listOpenByProduct e pid db) (ft_id a)))\<rparr>"
    by (auto simp: consume_def Let_def case_prod_beta consume_loop_takes)
  show "0 < bt_quantity t" using fifo.take_pos [OF a] by (simp add: t)
  from takes_found [OF assms(1) a] obtain b where
    b: "batchById (listOpenByProduct e pid db) (ft_id a) = Some b" "b_id b = ft_id a" by blast
  with batchById_in [OF b(1)] show "\<exists>b \<in> set (listOpenByProduct e pid db).
      bt_batch_id t = b_id b \<and> bt_unit_cost_usd t = b_unit_cost_usd b"
    by (intro bexI [of _ b]) (simp_all add: t)
qed

lemma weighted_between:
  fixes g c :: "'a \<Rightarrow> rat"
  assumes "\<And>t. t \<in> set ts \<Longrightarrow> 0 \<le> g t \<and> lo \<le> c t \<and> c t \<le> hi"
  shows "lo * sum_of g ts \<le> sum_of (\<lambda>t. g t * c t) ts" "sum_of (\<lambda>t. g t * c t) ts \<le> hi * sum_of g ts"
  unfolding sum_of_scale [symmetric]
  using assms by (auto intro!: sum_of_mono simp: mult.commute mult_right_mono)

text \<open>C25. Consuming units of a product (quantity positive): the batches drawn and the units
  taken are those of \<open>allocateFifo\<close> over the open batches in (created, id) order with
  tolerance 0; exactly the shortfall against the open stock is reported uncovered; the total
  cost is the cost of the units taken plus the shortfall at the fallback cost; and the unit
  cost stamped on the sale lies between the lowest and the highest cost involved.\<close>

theorem consume_spec:
  assumes "stock_reachable exact db" and "0 < q"
    and "\<And>b. b \<in> set (listOpenByProduct e pid db) \<Longrightarrow> lo \<le> b_unit_cost_usd b \<and> b_unit_cost_usd b \<le> hi"
    and "lo \<le> co_fallbackUnitCostUsd opts" "co_fallbackUnitCostUsd opts \<le> hi"
  defines "r \<equiv> fst (consume e pid q opts db)"
  shows "map (\<lambda>t. (bt_batch_id t, bt_quantity t)) (takes r)
       = map (\<lambda>t. (ft_id t, ft_take t))
           (allocateFifo (map (\<lambda>b. \<lparr>fo_id = b_id b, outstanding = quantity_remaining b\<rparr>)
              (listOpenByProduct e pid db)) q 0)
    \<and> uncoveredQuantity r = max 0 (q - sum_of quantity_remaining (listOpenByProduct e pid db))
    \<and> totalCostUsd r = sum_of (\<lambda>t. bt_quantity t * bt_unit_cost_usd t) (takes r)
         + uncoveredQuantity r * co_fallbackUnitCostUsd opts
    \<and> lo \<le> weightedUnitCostUsd r \<and> weightedUnitCostUsd r \<le> hi"
proof -
  have keys: "stock_keys db" using stock_reachable_inv [OF assms(1)] by (simp add: stock_ledger_def)
  note takes_eq = consume_takes [OF keys assms(2), of e pid opts, folded r_def]
  have unc: "uncoveredQuantity r = max 0 (q - sum_of quantity_remaining (listOpenByProduct e pid db))"
    unfolding takes_eq(2) batch_takes_sum [OF assms(2)] by (simp add: min_def max_def)
  then have unc_pos: "0 \<le> uncoveredQuantity r" by simp
  have cost: "totalCostUsd r = sum_of (\<lambda>t. bt_quantity t * bt_unit_cost_usd t) (takes r)
      + uncoveredQuantity r * co_fallbackUnitCostUsd opts"
    using consume_cost(1) [OF assms(2), of e pid opts db] unc_pos by (simp add: r_def)
  have "0 \<le> bt_quantity t \<and> lo \<le> bt_unit_cost_usd t \<and> bt_unit_cost_usd t \<le> hi" if "t \<in> set (takes r)" for t
    using consume_take_costs [OF keys assms(2), of t e pid opts] that assms(3)
    by (fastforce simp: r_def)
  then have w: "lo * sum_of bt_quantity (takes r) \<le> sum_of (\<lambda>t. bt_quantity t * bt_unit_cost_usd t) (takes r)"
    "sum_of (\<lambda>t. bt_quantity t * bt_unit_cost_usd t) (takes r) \<le> hi * sum_of bt_quantity (takes r)"
    by (auto intro: weighted_between)
  have "sum_of bt_quantity (takes r) + uncoveredQuantity r = q"
    using arg_cong [OF takes_eq(1), of "\<lambda>xs. sum_of snd xs"] takes_eq(2) by (simp add: comp_def)
  then have q: "lo * q = lo * sum_of bt_quantity (takes r) + lo * uncoveredQuantity r"
    "hi * q = hi * sum_of bt_quantity (takes r) + hi * uncoveredQuantity r"
    by (auto simp: algebra_simps)
  have "lo * uncoveredQuantity r \<le> uncoveredQuantity r * co_fallbackUnitCostUsd opts"
    "uncoveredQuantity r * co_fallbackUnitCostUsd opts \<le> hi * uncoveredQuantity r"
    using mult_left_mono [OF assms(4) unc_pos] mult_left_mono [OF assms(5) unc_pos]
    by (simp_all add: mult.commute)
  with w q cost have "lo * q \<le> totalCostUsd r" "totalCostUsd r \<le> hi * q" by linarith+
  then have "lo \<le> weightedUnitCostUsd r" "weightedUnitCostUsd r \<le> hi"
    unfolding consume_cost(2) [OF assms(2), of e pid opts db, folded r_def, symmetric]
    using assms(2) by simp_all
  with takes_eq(1) unc cost show ?thesis by blast
qed

theorem consume_spec_witness:
  "uncoveredQuantity (fst (consume shop_env 5 10 (sale_opts 41) shop_db)) = 2
   \<and> totalCostUsd (fst (consume shop_env 5 10 (sale_opts 41) shop_db)) = 3 * 10 + 5 * 12 + 2 * 15
   \<and> 10 \<le> weightedUnitCostUsd (fst (consume shop_env 5 10 (sale_opts 41) shop_db))"
proof -
  have costs: "map b_unit_cost_usd (listOpenByProduct shop_env 5 shop_db) = [10, 12]" by code_simp
  have units: "sum_of quantity_remaining (listOpenByProduct shop_env 5 shop_db) = 8" by code_simp
  have fb: "co_fallbackUnitCostUsd (sale_opts 41) = 15" by (simp add: sale_opts_def)
  have "10 \<le> b_unit_cost_usd b \<and> b_unit_cost_usd b \<le> 15"
    if "b \<in> set (listOpenByProduct shop_env 5 shop_db)" for b
    using imageI [OF that, of b_unit_cost_usd] costs [THEN arg_cong [of _ _ set]] by auto
  from consume_spec [OF shop_reachable, of 10 shop_env 5 10 15 "sale_opts 41", OF _ this] fb units
  have "uncoveredQuantity (fst (consume shop_env 5 10 (sale_opts 41) shop_db)) = 2"
    and "10 \<le> weightedUnitCostUsd (fst (consume shop_env 5 10 (sale_opts 41) shop_db))" by auto
  moreover have "totalCostUsd (fst (consume shop_env 5 10 (sale_opts 41) shop_db)) = 3 * 10 + 5 * 12 + 2 * 15"
    by code_simp
  ultimately show ?thesis by blast
qed

section \<open>Consumption and give-back\<close>

definition batch_columns :: "stock_db \<Rightarrow> StockBatchEntity list" where
  "batch_columns db = map (\<lambda>b. b\<lparr>quantity_remaining := 0, b_updated_at := ''''\<rparr>) (product_stock_batches db)"

lemma batch_columns_frame [row_simps]:
  "batch_columns (add_to_batch e i d db) = batch_columns db"
  "batch_columns (mark_restored e flag i db) = batch_columns db"
  "batch_columns (reduce_consumption e x i db) = batch_columns db"
  "batch_columns (insert_consumption e pid opts batch t db) = batch_columns db"
  by (simp_all add: batch_columns_def add_to_batch_def mark_restored_def reduce_consumption_def
      insert_consumption_def Let_def)

lemma restore_loop_columns: "batch_columns (restore_loop e rows q db) = batch_columns db"
  by (induction rows arbitrary: q db) (simp_all add: Let_def restore_row_def row_simps)

lemma consume_loop_columns: "batch_columns (snd (consume_loop e pid opts bs allocs s)) = batch_columns (snd s)"
  by (induction e pid opts bs allocs s rule: consume_loop.induct)
     (simp_all add: row_simps split: option.splits)

lemma batches_determined:
  assumes "stock_inv db" "stock_inv db'" "batch_columns db' = batch_columns db"
    and "batch_active db' = batch_active db"
  shows "map (\<lambda>b. b\<lparr>b_updated_at := ''''\<rparr>) (product_stock_batches db')
       = map (\<lambda>b. b\<lparr>b_updated_at := ''''\<rparr>) (product_stock_batches db)"
proof (rule nth_equalityI)
  have len: "length (product_stock_batches db') = length (product_stock_batches db)"
    using arg_cong [OF assms(3), of length] by (simp add: batch_columns_def)
  then show "length (map (\<lambda>b. b\<lparr>b_updated_at := ''''\<rparr>) (product_stock_batches db'))
      = length (map (\<lambda>b. b\<lparr>b_updated_at := ''''\<rparr>) (product_stock_batches db))" by simp
  fix k
  assume "k < length (map (\<lambda>b. b\<lparr>b_updated_at := ''''\<rparr>) (product_stock_batches db'))"
  then have k: "k < length (product_stock_batches db')" "k < length (product_stock_batches db)"
    using len by simp_all
  let ?b' = "product_stock_batches db' ! k" and ?b = "product_stock_batches db ! k"
  have eq: "?b'\<lparr>quantity_remaining := 0, b_updated_at := ''''\<rparr> = ?b\<lparr>quantity_remaining := 0, b_updated_at := ''''\<rparr>"
    using arg_cong [OF assms(3), of "\<lambda>bs. bs ! k"] k by (simp add: batch_columns_def)
  have "b_id ?b' = b_id ?b" "b_quantity ?b' = b_quantity ?b"
    using arg_cong [OF eq, of b_id] arg_cong [OF eq, of b_quantity] by simp_all
  moreover have "quantity_remaining ?b' + batch_active db (b_id ?b') = b_quantity ?b'"
    and "quantity_remaining ?b + batch_active db (b_id ?b) = b_quantity ?b"
    using assms k by (simp_all add: stock_ledger_def stock_balanced_def)
  ultimately have "quantity_remaining ?b' = quantity_remaining ?b" by simp
  with eq have "?b'\<lparr>b_updated_at := ''''\<rparr> = ?b\<lparr>b_updated_at := ''''\<rparr>" by (cases ?b'; cases ?b) simp
  with k show "map (\<lambda>b. b\<lparr>b_updated_at := ''''\<rparr>) (product_stock_batches db') ! k
      = map (\<lambda>b. b\<lparr>b_updated_at := ''''\<rparr>) (product_stock_batches db) ! k" by simp
qed

lemma restore_all_rows:
  assumes "\<forall>c \<in> set rows. 0 < c_quantity c"
  shows "stock_batch_consumptions (restore_loop e rows None db) =
     map (\<lambda>c. if c_id c \<in> c_id ` set rows \<and> c_tenant_id c = tenant e
              then c\<lparr>is_restored := True, c_updated_at := clock e\<rparr> else c) (stock_batch_consumptions db)"
  using assms
proof (induction rows arbitrary: db)
  case (Cons r rows)
  have "stock_batch_consumptions (restore_row e r (c_quantity r) db) =
     map (\<lambda>c. if c_id c = c_id r \<and> c_tenant_id c = tenant e
              then c\<lparr>is_restored := True, c_updated_at := clock e\<rparr> else c) (stock_batch_consumptions db)"
    by (simp add: restore_row_def mark_restored_def row_simps)
  with Cons show ?case by (auto simp: Let_def used_up_def clamp_def)
qed simp

definition row_of_consume :: "env \<Rightarrow> consume_opts \<Rightarrow> ConsumptionRow \<Rightarrow> bool" where
  "row_of_consume e opts c \<longleftrightarrow> c_tenant_id c = tenant e \<and> c_owner c = consumption_owner opts \<and> \<not> is_restored c"

lemma consume_loop_appends:
  "\<exists>new. stock_batch_consumptions (snd (consume_loop e pid opts bs allocs s))
       = stock_batch_consumptions (snd s) @ new \<and> list_all (row_of_consume e opts) new"
proof (induction e pid opts bs allocs s rule: consume_loop.induct)
  case (2 e pid opts bs a allocs ts db)
  show ?case
  proof (cases "batchById bs (ft_id a)")
    case (Some batch)
    from "2.IH"(2) [OF Some] show ?thesis
      by (auto simp: Some insert_consumption_def Let_def row_simps row_of_consume_def)
  qed (use 2 in simp)
qed simp

lemma batch_active_after_give_back:
  assumes keys: "stock_keys db1"
    and rows: "stock_batch_consumptions db1 = stock_batch_consumptions db @ new"
    and out: "stock_batch_consumptions db2 =
      map (\<lambda>c. if c_id c \<in> c_id ` set new \<and> c_tenant_id c = tenant e
               then c\<lparr>is_restored := True, c_updated_at := clock e\<rparr> else c) (stock_batch_consumptions db1)"
    and own: "\<forall>c \<in> set new. c_tenant_id c = tenant e"
  shows "batch_active db2 = batch_active db"
proof
  fix i
  let ?f = "\<lambda>c. if c_id c \<in> c_id ` set new \<and> c_tenant_id c = tenant e
               then c\<lparr>is_restored := True, c_updated_at := clock e\<rparr> else c"
  have "distinct (map c_id (stock_batch_consumptions db @ new))"
    using keys by (simp add: stock_keys_def rows)
  then have "c_id c \<notin> c_id ` set new" if "c \<in> set (stock_batch_consumptions db)" for c
    using imageI [OF that, of c_id] by auto
  then have "map ?f (stock_batch_consumptions db) = stock_batch_consumptions db"
    by (intro map_idI) simp
  moreover have "sum_of consumed (filter (\<lambda>c. c_batch_id c = i) (map ?f new)) = 0"
    using own by (intro sum_of_zero) (auto simp: consumed_def)
  ultimately show "batch_active db2 i = batch_active db i"
    by (simp add: batch_active_def out rows)
qed

text \<open>C28. Refunding a sale line in full gives the stock back, on a ledger reached without undos of parts of consumption rows: after a consumption under a
  sale item that had no unrestored consumption rows, \<open>restoreForSaleItem\<close> without a quantity
  returns every batch to the quantities it had before (all columns agree but the update time),
  and nothing of the sale item is left to restore.\<close>

theorem consume_then_restoreForSaleItem:
  fixes pid :: nat and q :: amount
  assumes "stock_reachable True db"
    and "consumption_owner opts sale_item_id = Some i"
    and "unrestored_rows e sale_item_id i db = []"
    and "tenant e' = tenant e"
  defines "db1 \<equiv> snd (consume e pid q opts db)"
  defines "db2 \<equiv> restoreForSaleItem e' i None db1"
  shows "map (\<lambda>b. b\<lparr>b_updated_at := ''''\<rparr>) (product_stock_batches db2)
       = map (\<lambda>b. b\<lparr>b_updated_at := ''''\<rparr>) (product_stock_batches db)
    \<and> unrestored_rows e' sale_item_id i db2 = []"
proof -
  let ?P = "\<lambda>c. c_owner c sale_item_id = Some i \<and> c_tenant_id c = tenant e' \<and> \<not> is_restored c"
  have inv: "stock_inv db" by (rule stock_reachable_inv [OF assms(1)])
  have inv1: "stock_inv db1" unfolding db1_def by (rule consume_inv [OF inv])
  then have keys1: "stock_keys db1" by (simp add: stock_ledger_def)
  have inv2: "stock_inv db2"
    unfolding db2_def restoreForSaleItem_def by (rule restoreConsumptions_inv [OF inv1])
  obtain new where rows: "stock_batch_consumptions db1 = stock_batch_consumptions db @ new"
    and new: "list_all (row_of_consume e opts) new"
    using consume_loop_appends [of e pid opts "listOpenByProduct e pid db" "batch_takes e pid q db" "([], db)"]
    unfolding db1_def consume_db by (cases "q \<le> 0") auto
  have old: "filter ?P (stock_batch_consumptions db) = []"
    using arg_cong [OF assms(3), of set] assms(4) by (simp add: unrestored_rows_def filter_empty_conv)
  have "filter ?P new = new"
    using new assms(2,4) by (auto simp: filter_id_conv list_all_iff row_of_consume_def)
  with old rows have sel: "set (unrestored_rows e' sale_item_id i db1) = set new"
    by (simp add: unrestored_rows_def)
  have pos: "\<forall>c \<in> set (unrestored_rows e' sale_item_id i db1). 0 < c_quantity c"
    using inv1 unrestored_rows_props(1) [OF keys1, of e' sale_item_id i]
    by (auto simp: stock_ledger_def consumptions_ok_def)
  have db2: "db2 = restore_loop e' (unrestored_rows e' sale_item_id i db1) None db1"
    by (simp add: db2_def restoreForSaleItem_def restoreConsumptions_def used_up_def)
  note out = restore_all_rows [OF pos, of e' db1, folded db2, unfolded sel]
  have "batch_active db2 = batch_active db"
    using new assms(4)
    by (intro batch_active_after_give_back [OF keys1 rows out]) (auto simp: list_all_iff row_of_consume_def)
  moreover have "batch_columns db2 = batch_columns db"
    by (simp add: db2 restore_loop_columns db1_def consume_db consume_loop_columns)
  ultimately have "map (\<lambda>b. b\<lparr>b_updated_at := ''''\<rparr>) (product_stock_batches db2)
      = map (\<lambda>b. b\<lparr>b_updated_at := ''''\<rparr>) (product_stock_batches db)"
    using inv inv2 by (intro batches_determined) simp_all
  moreover have "filter ?P (stock_batch_consumptions db2) = []"
    unfolding out rows using old new by (auto simp: filter_empty_conv list_all_iff row_of_consume_def)
  then have "unrestored_rows e' sale_item_id i db2 = []" by (simp add: unrestored_rows_def)
  ultimately show ?thesis by blast
qed

theorem consume_then_restoreForSaleItem_witness:
  "map quantity_remaining (product_stock_batches (restoreForSaleItem shop_env 40 None sold_db)) = [3, 5]"
proof -
  have "consumption_owner (sale_opts 40) sale_item_id = Some 40"
    by (simp add: consumption_owner_def sale_opts_def)
  moreover have "unrestored_rows shop_env sale_item_id 40 shop_db = []" by code_simp
  ultimately have "map (\<lambda>b. b\<lparr>b_updated_at := ''''\<rparr>)
        (product_stock_batches (restoreForSaleItem shop_env 40 None sold_db))
      = map (\<lambda>b. b\<lparr>b_updated_at := ''''\<rparr>) (product_stock_batches shop_db)"
    unfolding sold_db_def using consume_then_restoreForSaleItem [OF shop_reachable] by blast
  then have "map quantity_remaining (product_stock_batches (restoreForSaleItem shop_env 40 None sold_db))
      = map quantity_remaining (product_stock_batches shop_db)"
    by (auto dest!: arg_cong [of _ _ "map quantity_remaining"] simp: comp_def)
  also have "\<dots> = [3, 5]" by code_simp
  finally show ?thesis .
qed

section \<open>The undo check agrees with the undo\<close>

lemma batch_has_add_to_batch:
  "batch_has e j g (add_to_batch e i d db) = (if j = i then batch_has e j (g - d) db else batch_has e j g db)"
proof -
  have "list_ex (\<lambda>b. b_id b = j \<and> b_tenant_id b = tenant e \<and> g \<le> quantity_remaining b)
      (map (\<lambda>b. if b_id b = i \<and> b_tenant_id b = tenant e
                then b\<lparr>quantity_remaining := quantity_remaining b + d, b_updated_at := clock e\<rparr> else b) bs)
    = list_ex (\<lambda>b. b_id b = j \<and> b_tenant_id b = tenant e
        \<and> (if j = i then g - d else g) \<le> quantity_remaining b) bs" for bs
    by (induction bs) (auto simp: algebra_simps)
  then show ?thesis by (cases "j = i") (simp_all add: batch_has_def add_to_batch_def)
qed

lemma batch_has_mark_restored [row_simps]: "batch_has e j g (mark_restored e flag i db) = batch_has e j g db"
  by (simp add: batch_has_def mark_restored_def)

abbreviation planned_of :: "(nat \<rightharpoonup> amount) \<Rightarrow> nat \<Rightarrow> amount" where
  "planned_of planned i \<equiv> (case planned i of None \<Rightarrow> 0 | Some p \<Rightarrow> p)"

lemma can_unrestore_loop_correct:
  assumes "\<And>c g. c \<in> set rows \<Longrightarrow>
      batch_has e (c_batch_id c) g db = (g \<le> left (c_batch_id c) - planned_of planned (c_batch_id c))"
  shows "can_unrestore_loop (map (\<lambda>c. (c, left (c_batch_id c))) rows) q planned
     \<longleftrightarrow> (\<exists>db'. unrestore_loop e rows q db = Inr db')"
  using assms
proof (induction rows arbitrary: q planned db)
  case (Cons c rows)
  define g where "g = min q (c_quantity c)"
  let ?i = "c_batch_id c"
  let ?planned = "planned(?i \<mapsto> planned_of planned ?i + g)"
  let ?db = "mark_restored e False (c_id c) (add_to_batch e ?i (- g) db)"
  have take_row: "can_unrestore_loop (map (\<lambda>c. (c, left (c_batch_id c))) rows) (q - g) ?planned
      \<longleftrightarrow> (\<exists>db'. unrestore_loop e rows (q - g) ?db = Inr db')"
  proof (rule Cons.IH)
    fix c' x
    assume "c' \<in> set rows"
    with Cons.prems [of c' x] Cons.prems [of c' "x + g"]
    show "batch_has e (c_batch_id c') x ?db
        = (x \<le> left (c_batch_id c') - planned_of ?planned (c_batch_id c'))"
      by (auto simp: row_simps batch_has_add_to_batch)
  qed
  have skip_row: "can_unrestore_loop (map (\<lambda>c. (c, left (c_batch_id c))) rows) q planned
      \<longleftrightarrow> (\<exists>db'. unrestore_loop e rows q db = Inr db')"
    using Cons by simp
  have enough: "batch_has e ?i g db \<longleftrightarrow> \<not> left ?i - planned_of planned ?i < g"
    using Cons.prems [of c g] by auto
  have check: "can_unrestore_loop (map (\<lambda>c. (c, left (c_batch_id c))) (c # rows)) q planned
      = (q \<le> 0 \<or> (if g \<le> 0 then can_unrestore_loop (map (\<lambda>c. (c, left (c_batch_id c))) rows) q planned
          else \<not> left ?i - planned_of planned ?i < g
            \<and> can_unrestore_loop (map (\<lambda>c. (c, left (c_batch_id c))) rows) (q - g) ?planned))"
    unfolding list.map can_unrestore_loop.simps Let_def g_def by presburger
  have run: "(\<exists>db'. unrestore_loop e (c # rows) q db = Inr db')
      = (q \<le> 0 \<or> (if g \<le> 0 then \<exists>db'. unrestore_loop e rows q db = Inr db'
          else batch_has e ?i g db \<and> (\<exists>db'. unrestore_loop e rows (q - g) ?db = Inr db')))"
    unfolding unrestore_loop.simps Let_def g_def [symmetric] by auto
  show ?case unfolding check run take_row skip_row enough ..
qed auto

lemma join_one:
  assumes "distinct (map b_id bs)" "b \<in> set bs" "b_tenant_id b = t"
  shows "concat (map (\<lambda>x. if b_id x = b_id b then if b_tenant_id x = t then [f x] else [] else []) bs) = [f b]"
  using assms
proof (induction bs)
  case (Cons x bs)
  show ?case
  proof (cases "b_id x = b_id b")
    case True
    have "b_id y \<noteq> b_id b" if "y \<in> set bs" for y
      using imageI [OF that, of b_id] Cons.prems(1) True by auto
    with True Cons.prems show ?thesis by auto
  next
    case False
    with Cons show ?thesis by auto
  qed
qed simp

definition left_in :: "env \<Rightarrow> stock_db \<Rightarrow> nat \<Rightarrow> amount" where
  "left_in e db i = (case find (\<lambda>b. b_id b = i \<and> b_tenant_id b = tenant e) (product_stock_batches db) of
     None \<Rightarrow> 0 | Some b \<Rightarrow> quantity_remaining b)"

lemma left_in_eq:
  assumes "stock_keys db" "b \<in> set (product_stock_batches db)" "b_tenant_id b = tenant e"
  shows "left_in e db (b_id b) = quantity_remaining b"
    and "batch_has e (b_id b) g db \<longleftrightarrow> g \<le> quantity_remaining b"
proof -
  have "find (\<lambda>x. b_id x = b_id b \<and> b_tenant_id x = tenant e) (product_stock_batches db) \<noteq> None"
    using assms by (auto simp: find_None_iff)
  then obtain x where x: "find (\<lambda>x. b_id x = b_id b \<and> b_tenant_id x = tenant e) (product_stock_batches db) = Some x"
    by blast
  then have "x \<in> set (product_stock_batches db)" "b_id x = b_id b" by (auto simp: find_Some_iff)
  with batch_unique [OF assms(1)] assms(2) have "x = b" by blast
  with x show "left_in e db (b_id b) = quantity_remaining b" by (simp add: left_in_def)
  show "batch_has e (b_id b) g db \<longleftrightarrow> g \<le> quantity_remaining b"
    using assms batch_unique [OF assms(1)] by (auto simp: batch_has_def list_ex_iff)
qed

text \<open>On a reachable ledger \<open>canUnrestoreForSaleItem\<close> decides exactly whether
  \<open>unrestoreForSaleItem\<close> succeeds, although the check plans on the batches as they are and
  the undo updates them row by row.\<close>

theorem canUnrestore_iff_unrestore_succeeds:
  assumes "stock_reachable exact db"
  shows "canUnrestoreForSaleItem e i q db \<longleftrightarrow> (\<exists>db'. unrestoreForSaleItem e i q db = Inr db')"
proof (cases "anyConsumption e i db")
  case True
  have inv: "stock_ledger exact db" by (rule stock_reachable_inv [OF assms])
  then have keys: "stock_keys db" by (simp add: stock_ledger_def)
  let ?rows = "restored_rows e i db"
  have row: "\<exists>b \<in> set (product_stock_batches db). b_id b = c_batch_id c \<and> b_tenant_id b = tenant e"
    and ten: "c_tenant_id c = tenant e" if "c \<in> set ?rows" for c
    using inv that by (fastforce simp: restored_rows_def stock_ledger_def consumptions_ok_def has_batch_def)+
  have "concat (map (\<lambda>b. if b_id b = c_batch_id c then if b_tenant_id b = c_tenant_id c
        then [(c, quantity_remaining b)] else [] else []) (product_stock_batches db))
      = [(c, left_in e db (c_batch_id c))]" if c: "c \<in> set ?rows" for c
  proof -
    obtain b where b: "b \<in> set (product_stock_batches db)" "b_id b = c_batch_id c" "b_tenant_id b = tenant e"
      using row [OF c] by blast
    show ?thesis
      unfolding ten [OF c]
      using join_one [of "product_stock_batches db" b "tenant e" "\<lambda>b. (c, quantity_remaining b)"]
        left_in_eq(1) [OF keys b(1,3)] keys b by (simp add: stock_keys_def)
  qed
  then have "concat (map (\<lambda>c. concat (map (\<lambda>b. if b_id b = c_batch_id c then if b_tenant_id b = c_tenant_id c
        then [(c, quantity_remaining b)] else [] else []) (product_stock_batches db))) ?rows)
      = concat (map (\<lambda>c. [(c, left_in e db (c_batch_id c))]) ?rows)"
    by (intro arg_cong [of _ _ concat] map_cong) auto
  then have join: "with_remaining db ?rows = map (\<lambda>c. (c, left_in e db (c_batch_id c))) ?rows"
    unfolding with_remaining_def by (simp add: concat_map_singleton)
  have "batch_has e (c_batch_id c) g db = (g \<le> left_in e db (c_batch_id c) - planned_of (\<lambda>_. None) (c_batch_id c))"
    if c: "c \<in> set ?rows" for c g
  proof -
    obtain b where b: "b \<in> set (product_stock_batches db)" "b_id b = c_batch_id c" "b_tenant_id b = tenant e"
      using row [OF c] by blast
    with left_in_eq [OF keys b(1,3)] show ?thesis by simp
  qed
  from can_unrestore_loop_correct [OF this] True join show ?thesis
    by (simp add: canUnrestoreForSaleItem_def unrestoreForSaleItem_def)
next
  case False
  then show ?thesis by (simp add: canUnrestoreForSaleItem_def unrestoreForSaleItem_def)
qed

definition refunded_db :: stock_db where
  "refunded_db = restoreForSaleItem shop_env 40 (Some 2) (restoreForSaleItem shop_env 40 (Some 1) sold_db)"

lemma refunded_reachable: "stock_reachable True refunded_db"
  unfolding refunded_db_def restoreForSaleItem_def
  by (intro stock_reachable_exact [OF _ stock_step.restore] sold_reachable)

theorem canUnrestore_iff_unrestore_succeeds_witness:
  "(\<exists>db'. unrestoreForSaleItem shop_env 40 2 refunded_db = Inr db')
   \<and> \<not> (\<exists>db'. unrestoreForSaleItem shop_env 40 3 refunded_db = Inr db')"
proof -
  have "canUnrestoreForSaleItem shop_env 40 2 refunded_db" by code_simp
  moreover have "\<not> canUnrestoreForSaleItem shop_env 40 3 refunded_db" by code_simp
  ultimately show ?thesis
    using canUnrestore_iff_unrestore_succeeds [OF refunded_reachable] by blast
qed

text \<open>The undo of a partial refund can corrupt the ledger: a line of 3 units is sold,
  refunded for 1 and then for 2, and the refund of 1 is undone. The check allows it, the undo
  succeeds and takes 1 unit from the batch, but it reactivates the consumption row with its
  whole quantity of 2: 3 units received, 2 left and 2 consumed.\<close>

theorem unrestore_partial_unbalances:
  "stock_reachable True refunded_db \<and> canUnrestoreForSaleItem shop_env 40 1 refunded_db
   \<and> (\<exists>db' b. unrestoreForSaleItem shop_env 40 1 refunded_db = Inr db'
        \<and> stock_reachable False db'
        \<and> b \<in> set (product_stock_batches db') \<and> b_quantity b = 3 \<and> quantity_remaining b = 2
        \<and> sum_of c_quantity (filter (\<lambda>c. c_batch_id c = b_id b \<and> \<not> is_restored c)
            (stock_batch_consumptions db')) = 2)"
proof -
  let ?r = "unrestoreForSaleItem shop_env 40 1 refunded_db"
  have can: "canUnrestoreForSaleItem shop_env 40 1 refunded_db" by code_simp
  have run: "case ?r of Inl _ \<Rightarrow> False | Inr db' \<Rightarrow>
      (case product_stock_batches db' of [] \<Rightarrow> False | b # bs \<Rightarrow>
        b_quantity b = 3 \<and> quantity_remaining b = 2
        \<and> sum_of c_quantity (filter (\<lambda>c. c_batch_id c = b_id b \<and> \<not> is_restored c)
            (stock_batch_consumptions db')) = 2)"
    by code_simp
  then obtain db' where db': "?r = Inr db'" by (cases ?r) auto
  have "\<not> whole_rows shop_env 40 1 refunded_db"
  proof -
    have rows: "map c_quantity (restored_rows shop_env 40 refunded_db) = [2]" "anyConsumption shop_env 40 refunded_db"
      by code_simp+
    then obtain x where x: "restored_rows shop_env 40 refunded_db = [x]" "c_quantity x = 2" by auto
    moreover have "sum_of c_quantity (take k [x]) \<noteq> 1" for k
      using x(2) by (cases k) simp_all
    ultimately show ?thesis using rows(2) by (simp add: whole_rows_def)
  qed
  then have reach: "stock_reachable False db'"
    using stock_reachable.step [OF refunded_reachable stock_step.unrestore [OF db']] by simp
  from run db' obtain b bs where "product_stock_batches db' = b # bs"
    by (cases "product_stock_batches db'") auto
  with run db' have "b \<in> set (product_stock_batches db')" "b_quantity b = 3" "quantity_remaining b = 2"
    "sum_of c_quantity (filter (\<lambda>c. c_batch_id c = b_id b \<and> \<not> is_restored c)
            (stock_batch_consumptions db')) = 2" by auto
  with db' can reach refunded_reachable show ?thesis by blast
qed

text \<open>The exact outcome of voiding an intake on a reachable ledger. An unknown or a
  partly consumed batch is refused without a write. An untouched batch is deleted. A batch
  whose units were sold and all given back again passes the quantity check, but its restored
  consumption rows still refer to it, so the delete fails and the void is reported as a
  database error.\<close>

theorem deleteBatchForVoid_outcome:
  assumes "stock_reachable True db"
  shows "deleteBatchForVoid e i db =
     (case find (\<lambda>b. b_id b = i \<and> b_tenant_id b = tenant e) (product_stock_batches db) of
        None \<Rightarrow> Inr (False, db)
      | Some b \<Rightarrow>
          if quantity_remaining b < b_quantity b then Inr (False, db)
          else if \<exists>c \<in> set (stock_batch_consumptions db). c_batch_id c = i then Inl DeleteForVoidFailed
          else Inr (True, db\<lparr>product_stock_batches :=
                 filter (\<lambda>b. \<not> (b_id b = i \<and> b_tenant_id b = tenant e)) (product_stock_batches db)\<rparr>))"
proof -
  have inv: "stock_inv db" by (rule stock_reachable_inv [OF assms])
  show ?thesis
  proof (cases "find (\<lambda>b. b_id b = i \<and> b_tenant_id b = tenant e) (product_stock_batches db)")
    case None
    then show ?thesis by (simp add: deleteBatchForVoid_eq [OF inv])
  next
    case (Some b)
    then have "b \<in> set (product_stock_batches db)" "b_id b = i" "b_tenant_id b = tenant e"
      by (auto simp: find_Some_iff)
    then have "list_ex (\<lambda>b. referenced (b_id b) db)
        (filter (\<lambda>b. b_id b = i \<and> b_tenant_id b = tenant e) (product_stock_batches db))
      \<longleftrightarrow> (\<exists>c \<in> set (stock_batch_consumptions db). c_batch_id c = i)"
      by (auto simp: list_ex_iff referenced_def)
    with Some show ?thesis by (simp add: deleteBatchForVoid_eq [OF inv] delete_batches_def Let_def)
  qed
qed

theorem deleteBatchForVoid_outcome_witness:
  "deleteBatchForVoid shop_env 1 refunded_db = Inl DeleteForVoidFailed"
proof -
  have "map_option (\<lambda>b. (quantity_remaining b, b_quantity b))
      (find (\<lambda>b. b_id b = 1 \<and> b_tenant_id b = tenant shop_env) (product_stock_batches refunded_db)) = Some (3, 3)"
    by code_simp
  moreover have "list_ex (\<lambda>c. c_batch_id c = 1) (stock_batch_consumptions refunded_db)" by code_simp
  ultimately show ?thesis
    using deleteBatchForVoid_outcome [OF refunded_reachable, of shop_env 1]
    by (auto simp: list_ex_iff)
qed

end
