(* ===== verification/Currency_Converter.thy ===== *)
theory Currency_Converter
  imports Prelude
begin

text \<open>
  Model of \<open>packages/core/src/utils/currencyConverter.ts\<close>,
  \<open>utils/lotMarketRate.ts\<close> and \<open>utils/exchangeRates.ts\<close>: USD-pivot conversion at
  buy and sell rates, the profit of a leg, the forward and the reverse calculator, and the
  removal of floating-point noise (\<open>toPrecision(12)\<close>).

  A rate of 0 makes the source divide by zero and return an infinity; amounts here are finite,
  so the properties take rates to be positive.
\<close>

section \<open>Rates\<close>

definition BASE_CURRENCY :: string where
  "BASE_CURRENCY = ''USD''"

datatype USDAction = GIVE_USD | TAKE_USD

primrec action_sign :: "USDAction \<Rightarrow> int" where
  "action_sign GIVE_USD = 1"
| "action_sign TAKE_USD = -1"

text \<open>\<open>is_stronger: 1 | -1\<close>.\<close>

datatype strength = UsdStronger | CurrencyStronger

primrec strength_sign :: "strength \<Rightarrow> int" where
  "strength_sign UsdStronger = 1"
| "strength_sign CurrencyStronger = -1"

record CurrencyRate =
  to_code :: string
  market_rate :: amount
  buy_rate :: amount
  sell_rate :: amount
  is_stronger :: strength

record ExchangeLeg =
  fromCurrency :: string
  toCurrency :: string
  amountIn :: amount
  amountOut :: amount
  leg_rate :: amount
  marketRate :: amount
  profitUsd :: amount

record CurrencyExchangeResult =
  legs :: "ExchangeLeg list"
  totalAmountOut :: amount
  totalProfitUsd :: amount
  viaCurrency :: "string option"

datatype exchange_error =
    SameCurrency string
  | AmountNotPositive amount
  | RateNotFound string

definition computeRate :: "CurrencyRate \<Rightarrow> USDAction \<Rightarrow> amount" where
  "computeRate cr action =
     (if strength_sign (is_stronger cr) * action_sign action < 0 then buy_rate cr else sell_rate cr)"

definition convertToUSD :: "amount \<Rightarrow> CurrencyRate \<Rightarrow> USDAction \<Rightarrow> amount \<times> amount" where
  "convertToUSD amount cr action =
     (let rate = computeRate cr action
      in (if is_stronger cr = UsdStronger then amount / rate else amount * rate, rate))"

definition convertFromUSD :: "amount \<Rightarrow> CurrencyRate \<Rightarrow> USDAction \<Rightarrow> amount \<times> amount" where
  "convertFromUSD amountUSD cr action =
     (let rate = computeRate cr action
      in (if is_stronger cr = UsdStronger then amountUSD * rate else amountUSD / rate, rate))"

section \<open>Profit\<close>

definition computeLegProfitUsd :: "amount \<Rightarrow> CurrencyRate \<Rightarrow> bool \<Rightarrow> amount" where
  "computeLegProfitUsd amount cr fromCurrencyIsUsd =
     (let spread = sell_rate cr - buy_rate cr in
      if is_stronger cr = UsdStronger
      then if fromCurrencyIsUsd then amount * (spread / 2) / market_rate cr
           else amount * (spread / 2) / (market_rate cr * market_rate cr)
      else if fromCurrencyIsUsd then amount / market_rate cr * (spread / 2)
           else amount * (spread / 2))"

definition marketRateToUsdPerUnit :: "amount \<Rightarrow> strength \<Rightarrow> amount" where
  "marketRateToUsdPerUnit rate stronger = (if stronger = UsdStronger then 1 / rate else rate)"

definition crossPairHasUsdAnchor :: "string \<Rightarrow> string \<Rightarrow> (string \<Rightarrow> bool) \<Rightarrow> bool" where
  "crossPairHasUsdAnchor from to hasRateRow =
     (if from = ''LBP'' \<or> to = ''LBP'' then True else hasRateRow from \<or> hasRateRow to)"

definition computeOverrideLegProfitUsd :: "amount \<Rightarrow> amount \<Rightarrow> CurrencyRate option \<Rightarrow> amount" where
  "computeOverrideLegProfitUsd marketOut actualOut outCurrencyRate =
     (let usdPerOutUnit = (case outCurrencyRate of
            None \<Rightarrow> 1 | Some cr \<Rightarrow> marketRateToUsdPerUnit (market_rate cr) (is_stronger cr))
      in (marketOut - actualOut) * usdPerOutUnit)"

section \<open>Twelve significant digits\<close>

fun digits10 :: "nat \<Rightarrow> nat" where
  "digits10 n = (if n < 10 then 1 else Suc (digits10 (n div 10)))"

declare digits10.simps [simp del]

definition pow10 :: "int \<Rightarrow> rat" where
  "pow10 e = (if 0 \<le> e then 10 ^ nat e else 1 / 10 ^ nat (- e))"

text \<open>The exponent \<open>e\<close> with \<open>10^e \<le> x < 10^(e+1)\<close>, for positive \<open>x\<close>.\<close>

definition dec_exponent :: "rat \<Rightarrow> int" where
  "dec_exponent x =
     (case quotient_of x of (p, q) \<Rightarrow>
        let d = int (digits10 (nat p)) - int (digits10 (nat q))
        in if pow10 d \<le> x then d else d - 1)"

text \<open>\<open>x.toPrecision(p)\<close> rounds the magnitude to \<open>p\<close> significant digits, a tie to the larger
  magnitude, and keeps the sign.\<close>

definition to_precision :: "nat \<Rightarrow> rat \<Rightarrow> rat" where
  "to_precision p x =
     (if x = 0 then 0
      else let s = pow10 (int p - 1 - dec_exponent \<bar>x\<bar>);
               n = of_int (math_round (\<bar>x\<bar> * s)) / s
           in if x < 0 then - n else n)"

definition stripFloatNoise :: "amount \<Rightarrow> amount" where
  "stripFloatNoise n = to_precision 12 n"

section \<open>The calculators\<close>

definition findCurrencyRate :: "string \<Rightarrow> CurrencyRate list \<Rightarrow> exchange_error + CurrencyRate" where
  "findCurrencyRate code rates =
     (case find (\<lambda>r. to_code r = code) rates of None \<Rightarrow> Inl (RateNotFound code) | Some r \<Rightarrow> Inr r)"

definition exchange_from_usd ::
    "string \<Rightarrow> amount \<Rightarrow> CurrencyRate list \<Rightarrow> exchange_error + CurrencyExchangeResult" where
  "exchange_from_usd to amt rates =
     (case findCurrencyRate to rates of
        Inl err \<Rightarrow> Inl err
      | Inr cr \<Rightarrow>
          let (out, rate) = convertFromUSD amt cr TAKE_USD;
              profit = computeLegProfitUsd amt cr True;
              clean = stripFloatNoise out
          in Inr \<lparr>legs = [\<lparr>fromCurrency = BASE_CURRENCY, toCurrency = to, amountIn = amt,
                           amountOut = clean, leg_rate = rate, marketRate = market_rate cr,
                           profitUsd = profit\<rparr>],
                  totalAmountOut = clean, totalProfitUsd = profit, viaCurrency = None\<rparr>)"

definition exchange_to_usd ::
    "string \<Rightarrow> amount \<Rightarrow> CurrencyRate list \<Rightarrow> exchange_error + CurrencyExchangeResult" where
  "exchange_to_usd from amt rates =
     (case findCurrencyRate from rates of
        Inl err \<Rightarrow> Inl err
      | Inr cr \<Rightarrow>
          let (usd, rate) = convertToUSD amt cr GIVE_USD;
              profit = computeLegProfitUsd amt cr False;
              clean = stripFloatNoise usd
          in Inr \<lparr>legs = [\<lparr>fromCurrency = from, toCurrency = BASE_CURRENCY, amountIn = amt,
                           amountOut = clean, leg_rate = rate, marketRate = market_rate cr,
                           profitUsd = profit\<rparr>],
                  totalAmountOut = clean, totalProfitUsd = profit, viaCurrency = None\<rparr>)"

definition exchange_cross ::
    "string \<Rightarrow> string \<Rightarrow> amount \<Rightarrow> CurrencyRate list \<Rightarrow> exchange_error + CurrencyExchangeResult" where
  "exchange_cross from to amt rates =
     (case findCurrencyRate from rates of
        Inl err \<Rightarrow> Inl err
      | Inr fromRate \<Rightarrow>
          case findCurrencyRate to rates of
            Inl err \<Rightarrow> Inl err
          | Inr toRate \<Rightarrow>
              let (usd, rate1) = convertToUSD amt fromRate GIVE_USD;
                  profit1 = computeLegProfitUsd amt fromRate False;
                  (out, rate2) = convertFromUSD usd toRate TAKE_USD;
                  profit2 = computeLegProfitUsd usd toRate True;
                  clean = stripFloatNoise out
              in Inr \<lparr>legs =
                       [\<lparr>fromCurrency = from, toCurrency = BASE_CURRENCY, amountIn = amt,
                         amountOut = stripFloatNoise usd, leg_rate = rate1,
                         marketRate = market_rate fromRate, profitUsd = profit1\<rparr>,
                        \<lparr>fromCurrency = BASE_CURRENCY, toCurrency = to, amountIn = usd,
                         amountOut = clean, leg_rate = rate2,
                         marketRate = market_rate toRate, profitUsd = profit2\<rparr>],
                      totalAmountOut = clean, totalProfitUsd = profit1 + profit2,
                      viaCurrency = Some BASE_CURRENCY\<rparr>)"

definition calculateExchange ::
    "string \<Rightarrow> string \<Rightarrow> amount \<Rightarrow> CurrencyRate list \<Rightarrow> exchange_error + CurrencyExchangeResult" where
  "calculateExchange from to amt rates =
     (if from = to then Inl (SameCurrency from)
      else if amt \<le> 0 then Inl (AmountNotPositive amt)
      else if from = BASE_CURRENCY then exchange_from_usd to amt rates
      else if to = BASE_CURRENCY then exchange_to_usd from amt rates
      else exchange_cross from to amt rates)"

definition calculateAmountInForTarget ::
    "string \<Rightarrow> string \<Rightarrow> amount \<Rightarrow> CurrencyRate list \<Rightarrow> exchange_error + amount" where
  "calculateAmountInForTarget from to targetOut rates =
     (if from = to then Inl (SameCurrency from)
      else if targetOut \<le> 0 then Inl (AmountNotPositive targetOut)
      else if from = BASE_CURRENCY
      then (case findCurrencyRate to rates of
              Inl err \<Rightarrow> Inl err
            | Inr cr \<Rightarrow> Inr (stripFloatNoise (fst (convertToUSD targetOut cr TAKE_USD))))
      else if to = BASE_CURRENCY
      then (case findCurrencyRate from rates of
              Inl err \<Rightarrow> Inl err
            | Inr cr \<Rightarrow> Inr (stripFloatNoise (fst (convertFromUSD targetOut cr GIVE_USD))))
      else (case findCurrencyRate from rates of
              Inl err \<Rightarrow> Inl err
            | Inr fromRate \<Rightarrow>
                case findCurrencyRate to rates of
                  Inl err \<Rightarrow> Inl err
                | Inr toRate \<Rightarrow>
                    let usd = fst (convertToUSD targetOut toRate TAKE_USD)
                    in Inr (stripFloatNoise (fst (convertFromUSD usd fromRate GIVE_USD)))))"

definition getDisplayRate ::
    "string \<Rightarrow> string \<Rightarrow> CurrencyRate list \<Rightarrow> exchange_error + amount" where
  "getDisplayRate from to rates =
     (if from = BASE_CURRENCY
      then (case findCurrencyRate to rates of Inl err \<Rightarrow> Inl err | Inr cr \<Rightarrow> Inr (computeRate cr TAKE_USD))
      else if to = BASE_CURRENCY
      then (case findCurrencyRate from rates of Inl err \<Rightarrow> Inl err | Inr cr \<Rightarrow> Inr (computeRate cr GIVE_USD))
      else (case calculateExchange from to 1 rates of
              Inl err \<Rightarrow> Inl err | Inr r \<Rightarrow> Inr (totalAmountOut r)))"

section \<open>The shop's USD/LBP rates\<close>

record RateRow =
  rr_to_code :: "string option"
  rr_from_code :: "string option"
  rr_market_rate :: "amount option"
  rr_buy_rate :: "amount option"
  rr_sell_rate :: "amount option"
  rr_rate :: "amount option"

record UsdLbpRates =
  buyRate :: amount
  sellRate :: amount

text \<open>\<open>x || d\<close> on an optional number: an absent one and 0 are falsy.\<close>

definition or_else :: "amount option \<Rightarrow> amount \<Rightarrow> amount" where
  "or_else x d = (case x of None \<Rightarrow> d | Some v \<Rightarrow> js_or v d)"

definition readUsdLbpRates :: "RateRow list \<Rightarrow> amount option \<Rightarrow> UsdLbpRates option" where
  "readUsdLbpRates rows fallbackRate =
     (case find (\<lambda>r. rr_to_code r = Some ''LBP'' \<and> rr_market_rate r \<noteq> None) rows of
        Some r \<Rightarrow>
          let market = the (rr_market_rate r)
          in Some \<lparr>buyRate = (case rr_buy_rate r of None \<Rightarrow> market | Some b \<Rightarrow> b),
                   sellRate = (case rr_sell_rate r of None \<Rightarrow> market | Some s \<Rightarrow> s)\<rparr>
      | None \<Rightarrow>
          let buy = Option.bind (find (\<lambda>r. rr_from_code r = Some ''LBP'' \<and> rr_to_code r = Some ''USD'') rows) rr_rate;
              sell = Option.bind (find (\<lambda>r. rr_from_code r = Some ''USD'' \<and> rr_to_code r = Some ''LBP'') rows) rr_rate
          in case fallbackRate of
               Some f \<Rightarrow> Some \<lparr>buyRate = or_else buy f, sellRate = or_else sell (f + 500)\<rparr>
             | None \<Rightarrow>
                 if or_else buy 0 = 0 then None
                 else Some \<lparr>buyRate = or_else buy 0, sellRate = or_else sell (or_else buy 0)\<rparr>)"

end
