(* ===== verification/Currency_Converter_Properties.thy ===== *)
theory Currency_Converter_Properties
  imports Currency_Converter
begin

text \<open>
  The noise removal is a relative rounding to twelve digits; the reverse calculator inverts
  the forward one within that precision; a round trip never gains on the shop's spread; the
  failures of the calculators; and how the booked profit of a leg relates to the difference
  from the market.
\<close>

section \<open>Relative rounding\<close>

locale relative_rounding =
  fixes rnd :: "rat \<Rightarrow> rat" and delta :: rat
  assumes delta_bounds: "0 \<le> delta" "delta < 1"
    and rel_near: "\<bar>rnd x - x\<bar> \<le> delta * \<bar>x\<bar>"
begin

lemma rel_bounds: "0 \<le> x \<Longrightarrow> (1 - delta) * x \<le> rnd x \<and> rnd x \<le> (1 + delta) * x"
  using rel_near [of x] by (auto simp: algebra_simps abs_le_iff)

lemma rel_upper: "0 < x \<Longrightarrow> rnd x \<le> (1 + delta) * x"
  using rel_bounds [of x] by simp

lemma rnd_gt_zero:
  assumes "0 < x"
  shows "0 < rnd x"
proof -
  have "0 < (1 - delta) * x" using delta_bounds(2) assms by simp
  also have "\<dots> \<le> rnd x" using rel_bounds [of x] assms by simp
  finally show ?thesis .
qed

text \<open>Rounding a value, scaling it and rounding again loses at most both precisions.\<close>

lemma rel_two_step:
  assumes "0 < k" "0 < x"
  shows "\<bar>rnd (k * rnd (x / k)) - x\<bar> \<le> (2 * delta + delta * delta) * x"
proof -
  have "0 < x / k" using assms by simp
  from rel_bounds [OF less_imp_le [OF this]]
  have "(1 - delta) * (x / k) \<le> rnd (x / k)" "rnd (x / k) \<le> (1 + delta) * (x / k)" by auto
  then have y: "(1 - delta) * x \<le> k * rnd (x / k)" "k * rnd (x / k) \<le> (1 + delta) * x"
    using assms(1) by (simp_all add: pos_divide_le_eq pos_le_divide_eq mult.commute)
  have "0 \<le> k * rnd (x / k)"
    using assms(1) rnd_gt_zero [OF \<open>0 < x / k\<close>] by simp
  from rel_bounds [OF this]
  have z: "(1 - delta) * (k * rnd (x / k)) \<le> rnd (k * rnd (x / k))"
    "rnd (k * rnd (x / k)) \<le> (1 + delta) * (k * rnd (x / k))" by auto
  have "(1 - delta) * ((1 - delta) * x) \<le> (1 - delta) * (k * rnd (x / k))"
    "(1 + delta) * (k * rnd (x / k)) \<le> (1 + delta) * ((1 + delta) * x)"
    using y delta_bounds by (simp_all add: mult_left_mono)
  with z have lo: "(1 - delta) * ((1 - delta) * x) \<le> rnd (k * rnd (x / k))"
    and hi: "rnd (k * rnd (x / k)) \<le> (1 + delta) * ((1 + delta) * x)" by linarith+
  have "0 \<le> delta * delta * x" using delta_bounds assms by simp
  moreover have "(1 - delta) * ((1 - delta) * x) = x - 2 * delta * x + delta * delta * x"
    "(1 + delta) * ((1 + delta) * x) = x + 2 * delta * x + delta * delta * x"
    by (simp_all add: algebra_simps)
  ultimately show ?thesis using lo hi by (simp add: algebra_simps abs_le_iff)
qed

end

lemma pow10_powi: "pow10 e = 10 powi e"
  by (simp add: pow10_def power_int_def power_inverse inverse_eq_divide power_one_over)

lemma pow10_pos [simp]: "0 < pow10 e"
  by (simp add: pow10_powi)

lemma pow10_add: "pow10 (a + b) = pow10 a * pow10 b"
  by (simp add: pow10_powi power_int_add)

lemma digits10_bounds: "0 < n \<Longrightarrow> 10 ^ (digits10 n - 1) \<le> n \<and> n < 10 ^ digits10 n \<and> 0 < digits10 n"
proof (induction n rule: digits10.induct)
  case (1 n)
  show ?case
  proof (cases "n < 10")
    case True
    with 1 show ?thesis by (subst (1 2 3) digits10.simps) auto
  next
    case False
    let ?d = "digits10 (n div 10)"
    have "0 < n div 10" using False by (simp add: div_greater_zero_iff)
    with 1 False have ih: "10 ^ (?d - 1) \<le> n div 10" "n div 10 < 10 ^ ?d" "0 < ?d" by auto
    have d: "digits10 n = Suc ?d" using False by (subst digits10.simps) simp
    have "10 ^ ?d = 10 * (10 :: nat) ^ (?d - 1)" using ih(3) by (cases ?d) auto
    then have "(10 :: nat) ^ ?d \<le> n" using ih(1) by auto
    moreover have "n < 10 * 10 ^ ?d" using ih(2) by auto
    ultimately show ?thesis by (simp add: d)
  qed
qed

lemma dec_exponent_bounds:
  assumes "0 < x"
  shows "pow10 (dec_exponent x) \<le> x" "x < pow10 (dec_exponent x + 1)"
proof -
  obtain p q where pq: "quotient_of x = (p, q)" by (cases "quotient_of x")
  have q: "0 < q" using quotient_of_denom_pos [OF pq] .
  have x: "x = of_int p / of_int q" by (rule quotient_of_div [OF pq])
  have p: "0 < p" using assms x q by (simp add: zero_less_divide_iff)
  let ?a = "digits10 (nat p)" and ?b = "digits10 (nat q)"
  have "10 ^ (?a - 1) \<le> nat p" "nat p < 10 ^ ?a" "0 < ?a" "10 ^ (?b - 1) \<le> nat q" "nat q < 10 ^ ?b" "0 < ?b"
    using digits10_bounds [of "nat p"] digits10_bounds [of "nat q"] p q by auto
  then have "10 ^ (?a - 1) \<le> p" "p < 10 ^ ?a" "10 ^ (?b - 1) \<le> q" "q < 10 ^ ?b"
    using p q by (simp_all add: le_nat_iff nat_less_iff)
  then have r: "10 ^ (?a - 1) \<le> (of_int p :: rat)" "of_int p < (10 :: rat) ^ ?a"
    "10 ^ (?b - 1) \<le> (of_int q :: rat)" "of_int q < (10 :: rat) ^ ?b"
    by (metis of_int_le_iff of_int_less_iff of_int_numeral of_int_power)+
  let ?d = "int ?a - int ?b"
  have pw: "(10 :: rat) ^ n = pow10 (int n)" for n by (simp add: pow10_def)
  have "pow10 (int ?a - 1) \<le> of_int p" "of_int q < pow10 (int ?b)"
    "of_int p < pow10 (int ?a)" "pow10 (int ?b - 1) \<le> of_int q"
    using r \<open>0 < ?a\<close> \<open>0 < ?b\<close> unfolding pw by (simp_all add: of_nat_diff)
  moreover have "pow10 (int ?a - 1) = pow10 (?d - 1) * pow10 (int ?b)"
    "pow10 (int ?a) = pow10 (?d + 1) * pow10 (int ?b - 1)"
    by (simp_all flip: pow10_add)
  ultimately have "pow10 (?d - 1) * pow10 (int ?b) \<le> of_int p" "of_int p < pow10 (?d + 1) * pow10 (int ?b - 1)"
    "of_int q < pow10 (int ?b)" "pow10 (int ?b - 1) \<le> of_int q" by simp_all
  moreover from this have "pow10 (?d - 1) * of_int q \<le> of_int p"
    "of_int p < pow10 (?d + 1) * of_int q"
    by (meson mult_left_mono mult_left_mono order.trans order_less_imp_le pow10_pos less_le_trans)+
  ultimately have "pow10 (?d - 1) \<le> x" "x < pow10 (?d + 1)"
    using q by (simp_all add: x field_simps)
  then show "pow10 (dec_exponent x) \<le> x" "x < pow10 (dec_exponent x + 1)"
    by (auto simp: dec_exponent_def pq Let_def)
qed

lemma to_precision_near:
  assumes "0 < p"
  shows "\<bar>to_precision p x - x\<bar> \<le> (5 / 10 ^ p) * \<bar>x\<bar>"
proof (cases "x = 0")
  case False
  define e where "e = dec_exponent \<bar>x\<bar>"
  define s where "s = pow10 (int p - 1 - e)"
  have s: "0 < s" by (simp add: s_def)
  have "\<bar>to_precision p x - x\<bar> = \<bar>of_int (math_round (\<bar>x\<bar> * s)) / s - \<bar>x\<bar>\<bar>"
    using False by (auto simp: to_precision_def Let_def s_def e_def)
  also have "\<dots> \<le> 1 / (2 * s)"
    using round_scaled_error [OF s, of "\<bar>x\<bar>"] by (simp add: round_scaled_def)
  also have "1 / (2 * s) = 5 / 10 ^ p * pow10 e"
  proof -
    have "s * pow10 e = pow10 (int p - 1)" by (simp add: s_def flip: pow10_add)
    also have "\<dots> = 10 ^ p / 10"
      using assms by (cases p) (simp_all add: pow10_def)
    finally show ?thesis using s by (simp add: field_simps)
  qed
  also have "\<dots> \<le> 5 / 10 ^ p * \<bar>x\<bar>"
    using dec_exponent_bounds(1) [of "\<bar>x\<bar>"] False unfolding e_def by (intro mult_left_mono) auto
  finally show ?thesis .
qed (simp add: to_precision_def)

interpretation noise: relative_rounding stripFloatNoise "5 / 10 ^ 12"
proof unfold_locales
  show "\<bar>stripFloatNoise x - x\<bar> \<le> 5 / 10 ^ 12 * \<bar>x\<bar>" for x
    unfolding stripFloatNoise_def by (rule to_precision_near) simp
qed simp_all

section \<open>Conversion is scaling\<close>

definition usd_per_unit :: "CurrencyRate \<Rightarrow> USDAction \<Rightarrow> amount" where
  "usd_per_unit cr action =
     (if is_stronger cr = UsdStronger then 1 / computeRate cr action else computeRate cr action)"

lemma convert_scaling:
  "fst (convertToUSD x cr a) = usd_per_unit cr a * x"
  "fst (convertFromUSD y cr a) = y / usd_per_unit cr a"
  by (simp_all add: convertToUSD_def convertFromUSD_def usd_per_unit_def Let_def)

definition positive_rates :: "CurrencyRate list \<Rightarrow> bool" where
  "positive_rates rates \<longleftrightarrow> (\<forall>cr \<in> set rates. 0 < buy_rate cr \<and> 0 < sell_rate cr \<and> buy_rate cr \<le> sell_rate cr)"

definition quoted :: "string \<Rightarrow> CurrencyRate list \<Rightarrow> bool" where
  "quoted code rates \<longleftrightarrow> code = BASE_CURRENCY \<or> (\<exists>cr \<in> set rates. to_code cr = code)"

lemma findCurrencyRate_quoted:
  "(\<exists>cr. findCurrencyRate code rates = Inr cr) \<longleftrightarrow> (\<exists>cr \<in> set rates. to_code cr = code)"
  by (auto simp: findCurrencyRate_def find_None_iff find_Some_iff split: option.splits)

lemma findCurrencyRate_in: "findCurrencyRate code rates = Inr cr \<Longrightarrow> cr \<in> set rates"
  by (auto simp: findCurrencyRate_def find_Some_iff split: option.splits)

lemma usd_per_unit_pos:
  "positive_rates rates \<Longrightarrow> findCurrencyRate code rates = Inr cr \<Longrightarrow> 0 < usd_per_unit cr a"
  by (auto dest!: findCurrencyRate_in simp: positive_rates_def usd_per_unit_def computeRate_def)

lemma spread_le:
  assumes "positive_rates rates" "findCurrencyRate code rates = Inr cr"
  shows "usd_per_unit cr GIVE_USD \<le> usd_per_unit cr TAKE_USD"
  using assms
  by (cases "is_stronger cr")
     (auto dest!: findCurrencyRate_in simp: positive_rates_def usd_per_unit_def computeRate_def frac_le)

text \<open>The USD value of one unit when the customer gives it, and when the customer gets it.\<close>

definition value_in :: "string \<Rightarrow> CurrencyRate list \<Rightarrow> amount" where
  "value_in code rates = (if code = BASE_CURRENCY then 1
     else case findCurrencyRate code rates of Inl _ \<Rightarrow> 1 | Inr cr \<Rightarrow> usd_per_unit cr GIVE_USD)"

definition value_out :: "string \<Rightarrow> CurrencyRate list \<Rightarrow> amount" where
  "value_out code rates = (if code = BASE_CURRENCY then 1
     else case findCurrencyRate code rates of Inl _ \<Rightarrow> 1 | Inr cr \<Rightarrow> usd_per_unit cr TAKE_USD)"

lemma values_ordered:
  assumes "positive_rates rates"
  shows "0 < value_in code rates" "0 < value_out code rates" "value_in code rates \<le> value_out code rates"
  using usd_per_unit_pos [OF assms] spread_le [OF assms]
  by (auto simp: value_in_def value_out_def split: sum.splits)

lemma quoted_rate:
  "quoted code rates \<Longrightarrow> code \<noteq> BASE_CURRENCY \<Longrightarrow> \<exists>cr. findCurrencyRate code rates = Inr cr"
  using findCurrencyRate_quoted by (auto simp: quoted_def)

lemma calculateExchange_out:
  assumes "from \<noteq> to" "0 < amt" "quoted from rates" "quoted to rates"
  shows "\<exists>r. calculateExchange from to amt rates = Inr r
    \<and> totalAmountOut r = stripFloatNoise (value_in from rates / value_out to rates * amt)"
proof (cases "from = BASE_CURRENCY")
  case True
  with assms obtain cr where "findCurrencyRate to rates = Inr cr" using quoted_rate by metis
  with True assms show ?thesis
    by (auto simp: calculateExchange_def exchange_from_usd_def case_prod_beta convert_scaling
        value_in_def value_out_def Let_def)
next
  case not_usd: False
  with assms obtain cr where cr: "findCurrencyRate from rates = Inr cr" using quoted_rate by metis
  show ?thesis
  proof (cases "to = BASE_CURRENCY")
    case True
    with not_usd cr assms show ?thesis
      by (auto simp: calculateExchange_def exchange_to_usd_def case_prod_beta convert_scaling
          value_in_def value_out_def Let_def)
  next
    case False
    with assms obtain cr2 where "findCurrencyRate to rates = Inr cr2" using quoted_rate by metis
    with not_usd False cr assms show ?thesis
      by (auto simp: calculateExchange_def exchange_cross_def case_prod_beta convert_scaling
          value_in_def value_out_def Let_def)
  qed
qed

lemma calculateAmountInForTarget_in:
  assumes "from \<noteq> to" "0 < t" "quoted from rates" "quoted to rates"
  shows "calculateAmountInForTarget from to t rates
    = Inr (stripFloatNoise (t / (value_in from rates / value_out to rates)))"
proof (cases "from = BASE_CURRENCY")
  case True
  with assms obtain cr where "findCurrencyRate to rates = Inr cr" using quoted_rate by metis
  with True assms show ?thesis
    by (simp add: calculateAmountInForTarget_def convert_scaling value_in_def value_out_def mult.commute)
next
  case not_usd: False
  with assms obtain cr where cr: "findCurrencyRate from rates = Inr cr" using quoted_rate by metis
  show ?thesis
  proof (cases "to = BASE_CURRENCY")
    case True
    with not_usd cr assms show ?thesis
      by (simp add: calculateAmountInForTarget_def convert_scaling value_in_def value_out_def)
  next
    case False
    with assms obtain cr2 where "findCurrencyRate to rates = Inr cr2" using quoted_rate by metis
    with not_usd False cr assms show ?thesis
      by (simp add: calculateAmountInForTarget_def convert_scaling value_in_def value_out_def
          Let_def mult.commute)
  qed
qed

section \<open>Properties\<close>

definition sample_rates :: "CurrencyRate list" where
  "sample_rates =
     [\<lparr>to_code = ''LBP'', market_rate = 89500, buy_rate = 89000, sell_rate = 90000, is_stronger = UsdStronger\<rparr>,
      \<lparr>to_code = ''EUR'', market_rate = 118 / 100, buy_rate = 116 / 100, sell_rate = 120 / 100,
       is_stronger = CurrencyStronger\<rparr>]"

lemma sample_rates_ok:
  "positive_rates sample_rates" "quoted ''EUR'' sample_rates" "quoted ''LBP'' sample_rates"
  by (simp_all add: positive_rates_def quoted_def sample_rates_def)

text \<open>C29. The reverse calculator inverts the forward one: for any two quoted currencies and a
  positive target, the amount to hand over exists, exchanging it succeeds, and the customer
  gets the target up to a relative error of 11 in \<open>10^12\<close>.\<close>

theorem reverse_then_forward:
  assumes "positive_rates rates" "quoted from rates" "quoted to rates" "from \<noteq> to" "0 < t"
  shows "\<exists>a r. calculateAmountInForTarget from to t rates = Inr a
    \<and> calculateExchange from to a rates = Inr r
    \<and> \<bar>totalAmountOut r - t\<bar> \<le> 11 / 10 ^ 12 * t"
proof -
  let ?k = "value_in from rates / value_out to rates"
  have k: "0 < ?k" using values_ordered [OF assms(1)] by simp
  let ?a = "stripFloatNoise (t / ?k)"
  have "0 < t / ?k" using assms(5) k by (rule divide_pos_pos)
  then have "0 < ?a" by (rule noise.rnd_gt_zero)
  from calculateExchange_out [OF assms(4) this assms(2,3)] obtain r where
    r: "calculateExchange from to ?a rates = Inr r" "totalAmountOut r = stripFloatNoise (?k * ?a)" by blast
  have "\<bar>totalAmountOut r - t\<bar> \<le> (2 * (5 / 10 ^ 12) + 5 / 10 ^ 12 * (5 / 10 ^ 12)) * t"
    unfolding r(2) by (rule noise.rel_two_step [OF k assms(5)])
  also have "\<dots> \<le> 11 / 10 ^ 12 * t"
    using assms(5) by (intro mult_right_mono) simp_all
  finally show ?thesis
    using r(1) calculateAmountInForTarget_in [OF assms(4,5,2,3)] by blast
qed

theorem reverse_then_forward_witness:
  "\<exists>a r. calculateAmountInForTarget ''LBP'' ''EUR'' 50 sample_rates = Inr a
    \<and> calculateExchange ''LBP'' ''EUR'' a sample_rates = Inr r
    \<and> \<bar>totalAmountOut r - 50\<bar> \<le> 11 / 10 ^ 12 * 50"
  using reverse_then_forward [OF sample_rates_ok(1,3,2), of 50] by simp

text \<open>The shop's spread is never lost on a round trip: exchanging an amount and
  exchanging the result straight back gives the customer at most the original amount, up to
  the noise tolerance.\<close>

theorem there_and_back_no_gain:
  assumes "positive_rates rates" "quoted from rates" "quoted to rates" "from \<noteq> to" "0 < a"
  shows "\<exists>r1 r2. calculateExchange from to a rates = Inr r1
    \<and> calculateExchange to from (totalAmountOut r1) rates = Inr r2
    \<and> totalAmountOut r2 \<le> (1 + 11 / 10 ^ 12) * a"
proof -
  note v = values_ordered [OF assms(1)]
  let ?k1 = "value_in from rates / value_out to rates"
  let ?k2 = "value_in to rates / value_out from rates"
  let ?d = "5 / 10 ^ 12 :: rat"
  have k: "0 < ?k1" "0 < ?k2" using v by simp_all
  have "?k1 * ?k2 = (value_in from rates / value_out from rates) * (value_in to rates / value_out to rates)"
    by simp
  also have "\<dots> \<le> 1" using v by (intro mult_le_one) (simp_all add: less_imp_le)
  finally have kk: "?k1 * ?k2 \<le> 1" .
  from calculateExchange_out [OF assms(4,5,2,3)] obtain r1 where
    r1: "calculateExchange from to a rates = Inr r1" "totalAmountOut r1 = stripFloatNoise (?k1 * a)" by blast
  have k1a: "0 < ?k1 * a" using k(1) assms(5) by (rule mult_pos_pos)
  have pos: "0 < totalAmountOut r1" unfolding r1(2) by (rule noise.rnd_gt_zero [OF k1a])
  from calculateExchange_out [OF not_sym [OF assms(4)] pos assms(3,2)] obtain r2 where
    r2: "calculateExchange to from (totalAmountOut r1) rates = Inr r2"
      "totalAmountOut r2 = stripFloatNoise (?k2 * totalAmountOut r1)" by blast
  have "totalAmountOut r2 \<le> (1 + ?d) * (?k2 * totalAmountOut r1)"
    unfolding r2(2) by (rule noise.rel_upper [OF mult_pos_pos [OF k(2) pos]])
  also have "\<dots> \<le> (1 + ?d) * (?k2 * ((1 + ?d) * (?k1 * a)))"
    unfolding r1(2) using noise.rel_upper [OF k1a] k(2)
    by (intro mult_left_mono) (simp_all only: less_imp_le, simp_all)
  also have "\<dots> = (1 + ?d) * (1 + ?d) * ((?k1 * ?k2) * a)" by (simp add: mult.assoc mult.commute mult.left_commute)
  also have "\<dots> \<le> (1 + ?d) * (1 + ?d) * (1 * a)"
    using kk assms(5) by (intro mult_left_mono mult_right_mono) simp_all
  also have "\<dots> \<le> (1 + 11 / 10 ^ 12) * a"
    using assms(5) by (simp add: mult_right_mono)
  finally show ?thesis using r1(1) r2(1) by blast
qed

theorem there_and_back_no_gain_witness:
  "\<exists>r1 r2. calculateExchange ''USD'' ''LBP'' 100 sample_rates = Inr r1
    \<and> calculateExchange ''LBP'' ''USD'' (totalAmountOut r1) sample_rates = Inr r2
    \<and> totalAmountOut r2 \<le> (1 + 11 / 10 ^ 12) * 100"
  using there_and_back_no_gain [OF sample_rates_ok(1) _ sample_rates_ok(3), of "''USD''" 100]
  by (simp add: quoted_def BASE_CURRENCY_def)

lemma calculateExchange_fails:
  assumes "calculateExchange from to amt rates = Inr r"
  shows "from \<noteq> to \<and> 0 < amt \<and> quoted from rates \<and> quoted to rates"
proof -
  have rate: "quoted code rates" if "findCurrencyRate code rates = Inr cr" for code cr
    using that findCurrencyRate_quoted by (auto simp: quoted_def)
  show ?thesis
    using assms rate
    by (auto simp: calculateExchange_def exchange_from_usd_def exchange_to_usd_def exchange_cross_def
        not_le quoted_def [of BASE_CURRENCY] split: if_splits sum.splits)
qed

lemma calculateExchange_legs:
  assumes "calculateExchange from to amt rates = Inr r"
  shows "totalProfitUsd r = sum_of profitUsd (legs r)"
    and "legs r \<noteq> [] \<and> fromCurrency (hd (legs r)) = from \<and> toCurrency (last (legs r)) = to
      \<and> amountIn (hd (legs r)) = amt \<and> amountOut (last (legs r)) = totalAmountOut r"
    and "viaCurrency r = (if length (legs r) = 2 then Some BASE_CURRENCY else None)"
  using assms
  by (auto simp: calculateExchange_def exchange_from_usd_def exchange_to_usd_def exchange_cross_def
      case_prod_beta Let_def split: if_splits sum.splits)

text \<open>An exchange succeeds exactly for two different quoted currencies and a positive
  amount. Its legs lead from the currency given to the currency received, carry the amounts of
  the whole exchange at both ends, pivot over USD exactly when there are two of them, and the
  total profit is the sum of their profits.\<close>

theorem calculateExchange_outcome:
  "((\<exists>r. calculateExchange from to amt rates = Inr r)
      \<longleftrightarrow> from \<noteq> to \<and> 0 < amt \<and> quoted from rates \<and> quoted to rates)
   \<and> (\<forall>r. calculateExchange from to amt rates = Inr r \<longrightarrow>
        totalProfitUsd r = sum_of profitUsd (legs r)
        \<and> legs r \<noteq> [] \<and> fromCurrency (hd (legs r)) = from \<and> toCurrency (last (legs r)) = to
        \<and> amountIn (hd (legs r)) = amt \<and> amountOut (last (legs r)) = totalAmountOut r
        \<and> viaCurrency r = (if length (legs r) = 2 then Some BASE_CURRENCY else None))"
proof
  show "(\<exists>r. calculateExchange from to amt rates = Inr r)
      \<longleftrightarrow> from \<noteq> to \<and> 0 < amt \<and> quoted from rates \<and> quoted to rates"
    using calculateExchange_fails calculateExchange_out by blast
  show "\<forall>r. calculateExchange from to amt rates = Inr r \<longrightarrow>
        totalProfitUsd r = sum_of profitUsd (legs r)
        \<and> legs r \<noteq> [] \<and> fromCurrency (hd (legs r)) = from \<and> toCurrency (last (legs r)) = to
        \<and> amountIn (hd (legs r)) = amt \<and> amountOut (last (legs r)) = totalAmountOut r
        \<and> viaCurrency r = (if length (legs r) = 2 then Some BASE_CURRENCY else None)"
    using calculateExchange_legs by blast
qed

theorem calculateExchange_outcome_witness:
  "(\<exists>r. calculateExchange ''EUR'' ''LBP'' 10 sample_rates = Inr r \<and> fromCurrency (hd (legs r)) = ''EUR'')
   \<and> \<not> (\<exists>r. calculateExchange ''EUR'' ''GBP'' 10 sample_rates = Inr r)"
proof -
  have "\<not> quoted ''GBP'' sample_rates" by (simp add: quoted_def sample_rates_def BASE_CURRENCY_def)
  then show ?thesis
    using calculateExchange_outcome [of "''EUR''" "''LBP''" 10 sample_rates]
      calculateExchange_outcome [of "''EUR''" "''GBP''" 10 sample_rates] sample_rates_ok
    by auto
qed

definition at_market :: "CurrencyRate \<Rightarrow> CurrencyRate" where
  "at_market cr = cr\<lparr>buy_rate := market_rate cr, sell_rate := market_rate cr\<rparr>"

text \<open>The profit booked for a leg against the signed difference from the market
  (\<open>computeOverrideLegProfitUsd\<close>), when the market rate is the middle of buy and sell: they
  are equal on the legs that multiply by the rate; on the legs that divide by it (a USD-stronger
  currency coming in, a currency-stronger one going out) the booked profit is the larger one, by
  the factor sell / market.\<close>

theorem leg_profit_against_market:
  assumes "0 < buy_rate cr" "buy_rate cr \<le> sell_rate cr"
    and "market_rate cr = (buy_rate cr + sell_rate cr) / 2"
  shows "computeLegProfitUsd x cr True
       = computeOverrideLegProfitUsd (fst (convertFromUSD x (at_market cr) TAKE_USD))
           (fst (convertFromUSD x cr TAKE_USD)) (Some cr)
         * (if is_stronger cr = UsdStronger then 1 else sell_rate cr / market_rate cr)
    \<and> computeLegProfitUsd x cr False
       = computeOverrideLegProfitUsd (fst (convertToUSD x (at_market cr) GIVE_USD))
           (fst (convertToUSD x cr GIVE_USD)) None
         * (if is_stronger cr = UsdStronger then sell_rate cr / market_rate cr else 1)
    \<and> 1 \<le> sell_rate cr / market_rate cr"
proof -
  have m: "0 < market_rate cr" and s: "0 < sell_rate cr" and le: "market_rate cr \<le> sell_rate cr"
    using assms by auto
  have half: "(sell_rate cr - buy_rate cr) / 2 = market_rate cr - buy_rate cr"
    "(sell_rate cr - buy_rate cr) / 2 = sell_rate cr - market_rate cr"
    using assms(3) by (simp_all add: field_simps)
  show ?thesis
  proof (cases "is_stronger cr")
    case UsdStronger
    with m s le half show ?thesis
      by (simp add: computeLegProfitUsd_def computeOverrideLegProfitUsd_def convertFromUSD_def
          convertToUSD_def computeRate_def at_market_def marketRateToUsdPerUnit_def Let_def)
         (simp add: field_simps)
  next
    case CurrencyStronger
    with m s le half show ?thesis
      by (simp add: computeLegProfitUsd_def computeOverrideLegProfitUsd_def convertFromUSD_def
          convertToUSD_def computeRate_def at_market_def marketRateToUsdPerUnit_def Let_def)
         (simp add: field_simps)
  qed
qed

theorem leg_profit_against_market_witness:
  "computeLegProfitUsd 100 (sample_rates ! 1) False
     = computeOverrideLegProfitUsd (fst (convertToUSD 100 (at_market (sample_rates ! 1)) GIVE_USD))
         (fst (convertToUSD 100 (sample_rates ! 1) GIVE_USD)) None"
  using leg_profit_against_market [of "sample_rates ! 1" 100] by (simp add: sample_rates_def)

end
