(* ===== verification/Debt_Repayment.thy ===== *)
theory Debt_Repayment
  imports Prelude
begin

text \<open>
  Model of \<open>packages/core/src/utils/debtRepaymentAllocation.ts\<close>: which open debt items a
  customer repayment pays and how much of each (coverage), and how much of the cash goes to the
  primary-system cash drawer (routing).

  The template key \<open>kind:id\<close> is the pair of kind and id. A JavaScript \<open>Map\<close> that is only
  looked up is a partial function; the map of takes, whose insertion order is the order of the
  result, is a list.
\<close>

section \<open>Items\<close>

datatype DebtItemKind = sale | charge | member | balance

type_synonym ref_key = "DebtItemKind \<times> nat"

record DebtItemRef =
  ref_kind :: DebtItemKind
  ref_id :: nat
  ref_auto :: bool

datatype Currency = USD | LBP

record AllocationItem =
  it_kind :: DebtItemKind
  it_id :: nat
  createdAt :: string
  rowId :: nat
  openUsd :: amount
  openLbp :: amount
  routingCap :: "(amount \<times> amount) option"

definition item_key :: "AllocationItem \<Rightarrow> ref_key" where
  "item_key it = (it_kind it, it_id it)"

definition ref_key :: "DebtItemRef \<Rightarrow> ref_key" where
  "ref_key r = (ref_kind r, ref_id r)"

definition EARLIER_BALANCE_REF :: DebtItemRef where
  "EARLIER_BALANCE_REF = \<lparr>ref_kind = balance, ref_id = 1, ref_auto = False\<rparr>"

definition earlierBalanceItem :: "amount \<Rightarrow> amount \<Rightarrow> AllocationItem" where
  "earlierBalanceItem usd lbp =
     \<lparr>it_kind = balance, it_id = ref_id EARLIER_BALANCE_REF, createdAt = '''', rowId = 0,
      openUsd = max 0 usd, openLbp = max 0 lbp, routingCap = None\<rparr>"

record AllocateRepaymentInput =
  ri_items :: "AllocationItem list"
  ri_targets :: "DebtItemRef list"
  reductionUsd :: amount
  reductionLbp :: amount
  appliedUsd :: amount
  appliedLbp :: amount
  ri_cashUsd :: amount
  ri_cashLbp :: amount
  ri_rate :: amount

record CoverageTake =
  ct_key :: ref_key
  ct_usd :: amount
  ct_lbp :: amount

record RoutingTake =
  rt_key :: ref_key
  debtCurrency :: Currency
  rt_value :: amount
  tenderCurrency :: Currency
  tenderAmount :: amount

record AllocateRepaymentResult =
  coverage :: "CoverageTake list"
  routing :: "RoutingTake list"
  routedUsd :: amount
  routedLbp :: amount

definition repaymentRoutesToSystemDrawer :: "AllocateRepaymentResult \<Rightarrow> bool" where
  "repaymentRoutesToSystemDrawer r = (routedUsd r > 0 \<or> routedLbp r > 0)"

section \<open>Rounding and order\<close>

definition EPS_USD :: amount where "EPS_USD = 5 / 1000"

definition EPS_LBP :: amount where "EPS_LBP = 1"

definition EPS_SALE :: amount where "EPS_SALE = 1 / 100"

definition roundUsd :: "amount \<Rightarrow> amount" where
  "roundUsd n = round_scaled 100 n"

definition roundLbp :: "amount \<Rightarrow> amount" where
  "roundLbp n = of_int (math_round n)"

definition roundIn :: "Currency \<Rightarrow> amount \<Rightarrow> amount" where
  "roundIn c n = (if c = USD then roundUsd n else roundLbp n)"

definition byAge :: "AllocationItem \<Rightarrow> AllocationItem \<Rightarrow> rat" where
  "byAge a b =
     (if createdAt a \<noteq> createdAt b then (if createdAt a < createdAt b then -1 else 1)
      else if rowId a \<noteq> rowId b then of_nat (rowId a) - of_nat (rowId b)
      else of_nat (it_id a) - of_nat (it_id b))"

definition isCashDrawerItem :: "AllocationItem \<Rightarrow> bool" where
  "isCashDrawerItem it = (routingCap it \<noteq> None)"

definition byTickedPriority :: "AllocationItem \<Rightarrow> AllocationItem \<Rightarrow> rat" where
  "byTickedPriority a b =
     (let pa = (if isCashDrawerItem a then 0 else 1); pb = (if isCashDrawerItem b then 0 else 1)
      in if pa \<noteq> pb then pa - pb else byAge a b)"

section \<open>Coverage\<close>

record cover_state =
  cs_open :: "ref_key \<rightharpoonup> amount \<times> amount"
  cs_takes :: "CoverageTake list"
  budgetUsd :: amount
  budgetLbp :: amount
  tickedTakes :: "CoverageTake list"

definition open_of :: "cover_state \<Rightarrow> AllocationItem \<Rightarrow> amount \<times> amount" where
  "open_of s it = (case cs_open s (item_key it) of None \<Rightarrow> (0, 0) | Some p \<Rightarrow> p)"

fun put_take :: "ref_key \<Rightarrow> amount \<Rightarrow> amount \<Rightarrow> CoverageTake list \<Rightarrow> CoverageTake list" where
  "put_take k usd lbp [] = [\<lparr>ct_key = k, ct_usd = roundUsd (0 + usd), ct_lbp = roundLbp (0 + lbp)\<rparr>]"
| "put_take k usd lbp (t # ts) =
     (if ct_key t = k
      then t\<lparr>ct_usd := roundUsd (ct_usd t + usd), ct_lbp := roundLbp (ct_lbp t + lbp)\<rparr> # ts
      else t # put_take k usd lbp ts)"

definition addTake :: "AllocationItem \<Rightarrow> amount \<Rightarrow> amount \<Rightarrow> cover_state \<Rightarrow> cover_state" where
  "addTake it usd lbp s =
     (if usd \<le> 0 \<and> lbp \<le> 0 then s
      else s\<lparr>cs_takes := put_take (item_key it) usd lbp (cs_takes s),
             cs_open := (case cs_open s (item_key it) of
                None \<Rightarrow> cs_open s
              | Some (u, l) \<Rightarrow> (cs_open s)(item_key it \<mapsto> (max 0 (u - usd), max 0 (l - lbp))))\<rparr>)"

text \<open>\<open>addTake\<close> followed by the two budget subtractions.\<close>

definition pay :: "AllocationItem \<Rightarrow> amount \<Rightarrow> amount \<Rightarrow> cover_state \<Rightarrow> cover_state" where
  "pay it u l s =
     (addTake it u l s)\<lparr>budgetUsd := budgetUsd s - u, budgetLbp := budgetLbp s - l\<rparr>"

definition cover_ticked :: "AllocationItem \<Rightarrow> cover_state \<Rightarrow> cover_state" where
  "cover_ticked it s =
     (let (ou, ol) = open_of s it;
          usd = (if budgetUsd s > EPS_USD then min (budgetUsd s) ou else 0);
          lbp = (if budgetLbp s > EPS_LBP then min (budgetLbp s) ol else 0);
          u = (if usd > EPS_USD then roundUsd usd else 0);
          l = (if lbp > EPS_LBP then roundLbp lbp else 0)
      in if u > 0 \<or> l > 0
         then (pay it u l s)\<lparr>tickedTakes := tickedTakes s @
                [\<lparr>ct_key = item_key it, ct_usd = u, ct_lbp = l\<rparr>]\<rparr>
         else s)"

definition cover_rest :: "amount \<Rightarrow> AllocationItem \<Rightarrow> cover_state \<Rightarrow> cover_state" where
  "cover_rest eps it s =
     (let (ou, ol) = open_of s it;
          u = (if budgetUsd s > eps then roundUsd (min (budgetUsd s) ou) else 0);
          l = (if budgetLbp s > EPS_LBP then roundLbp (min (budgetLbp s) ol) else 0);
          uu = (if u > eps then u else 0);
          ll = (if l > EPS_LBP then l else 0)
      in if uu > 0 \<or> ll > 0 then pay it uu ll s else s)"

fun cover_sales :: "AllocationItem list \<Rightarrow> cover_state \<Rightarrow> cover_state" where
  "cover_sales [] s = s"
| "cover_sales (it # its) s =
     (if budgetUsd s \<le> EPS_SALE \<and> budgetLbp s \<le> EPS_LBP then s
      else cover_sales its (cover_rest EPS_SALE it s))"

definition is_cashier_target :: "DebtItemRef list \<Rightarrow> AllocationItem \<Rightarrow> bool" where
  "is_cashier_target targets it = list_ex (\<lambda>t. \<not> ref_auto t \<and> ref_key t = item_key it) targets"

definition is_auto_target :: "DebtItemRef list \<Rightarrow> AllocationItem \<Rightarrow> bool" where
  "is_auto_target targets it = list_ex (\<lambda>t. ref_auto t \<and> ref_key t = item_key it) targets"

definition ticked_items :: "AllocationItem list \<Rightarrow> DebtItemRef list \<Rightarrow> AllocationItem list" where
  "ticked_items items targets =
     (let cashierTicked = js_sort byTickedPriority (filter (is_cashier_target targets) items);
          autoTicked = js_sort byTickedPriority
            (filter (\<lambda>it. \<not> List.member cashierTicked it \<and> is_auto_target targets it) items)
      in cashierTicked @ autoTicked)"

definition open_map :: "AllocationItem list \<Rightarrow> ref_key \<rightharpoonup> amount \<times> amount" where
  "open_map items = map_of (rev (map (\<lambda>it. (item_key it, (max 0 (openUsd it), max 0 (openLbp it)))) items))"

definition cover_start :: "AllocateRepaymentInput \<Rightarrow> cover_state" where
  "cover_start inp =
     \<lparr>cs_open = open_map (ri_items inp), cs_takes = [], budgetUsd = max 0 (reductionUsd inp),
      budgetLbp = max 0 (reductionLbp inp), tickedTakes = []\<rparr>"

text \<open>Every listed item has an entry in \<open>open\<close>, so the second test of the source's filter always
  holds. \<open>includes\<close> compares objects; an item equal to a cashier-ticked one has the same reference
  and is cashier-ticked itself, so comparing records gives the same lists.\<close>

definition rest_items :: "AllocationItem list \<Rightarrow> AllocationItem list" where
  "rest_items items = js_sort byAge (filter (\<lambda>it. it_kind it \<noteq> balance) items)"

definition cover_untargeted :: "AllocationItem list \<Rightarrow> cover_state \<Rightarrow> cover_state" where
  "cover_untargeted items s =
     (let rest = rest_items items;
          s1 = cover_sales (filter (\<lambda>it. it_kind it = sale) rest) s
      in fold (cover_rest EPS_USD) (filter (\<lambda>it. it_kind it \<noteq> sale) rest) s1)"

definition cover_all :: "AllocateRepaymentInput \<Rightarrow> cover_state" where
  "cover_all inp =
     cover_untargeted (ri_items inp)
       (fold cover_ticked (ticked_items (ri_items inp) (ri_targets inp)) (cover_start inp))"

section \<open>Routing\<close>

record route_state =
  caps :: "ref_key \<rightharpoonup> amount \<times> amount"
  cashUsd :: amount
  cashLbp :: amount
  rs_routing :: "RoutingTake list"
  rs_routedUsd :: amount
  rs_routedLbp :: amount

definition eps_of :: "Currency \<Rightarrow> amount" where
  "eps_of c = (if c = USD then EPS_USD else EPS_LBP)"

definition cash_in :: "Currency \<Rightarrow> route_state \<Rightarrow> amount" where
  "cash_in c s = (if c = USD then cashUsd s else cashLbp s)"

definition cap_in :: "Currency \<Rightarrow> amount \<times> amount \<Rightarrow> amount" where
  "cap_in c p = (if c = USD then fst p else snd p)"

definition lower_cap :: "ref_key \<Rightarrow> Currency \<Rightarrow> amount \<Rightarrow> route_state \<Rightarrow> route_state" where
  "lower_cap k c v s =
     (case caps s k of
        None \<Rightarrow> s
      | Some (u, l) \<Rightarrow> s\<lparr>caps := (caps s)(k \<mapsto> (if c = USD then (u - v, l) else (u, l - v)))\<rparr>)"

text \<open>One pass of the tender loop of \<open>route\<close>: the wanted value, the routed value, the state.\<close>

definition route_tender ::
    "amount \<Rightarrow> ref_key \<Rightarrow> Currency \<Rightarrow> Currency \<Rightarrow> amount \<times> amount \<times> route_state
      \<Rightarrow> amount \<times> amount \<times> route_state" where
  "route_tender rate k debt tender w =
     (case w of (want, routed, s) \<Rightarrow>
        if want \<le> eps_of debt then (want, routed, s)
        else if cash_in tender s \<le> eps_of tender then (want, routed, s)
        else let wantInTender = (if tender = debt then want
                                 else if tender = LBP then want * rate else want / rate);
                 amt = roundIn tender (min (cash_in tender s) wantInTender)
             in if amt \<le> 0 then (want, routed, s)
                else let v = (if tender = debt then amt
                              else if debt = USD then amt / rate else amt * rate);
                         valueRounded = roundIn debt (min v want);
                         s1 = (if tender = USD
                               then s\<lparr>cashUsd := cashUsd s - amt,
                                      rs_routedUsd := roundUsd (rs_routedUsd s + amt)\<rparr>
                               else s\<lparr>cashLbp := cashLbp s - amt,
                                      rs_routedLbp := roundLbp (rs_routedLbp s + amt)\<rparr>);
                         s2 = lower_cap k debt valueRounded s1
                     in (want - valueRounded, routed + valueRounded,
                         s2\<lparr>rs_routing := rs_routing s2 @
                              [\<lparr>rt_key = k, debtCurrency = debt, rt_value = valueRounded,
                                tenderCurrency = tender, tenderAmount = amt\<rparr>]\<rparr>))"

definition route ::
    "amount \<Rightarrow> ref_key \<Rightarrow> Currency \<Rightarrow> amount \<Rightarrow> route_state \<Rightarrow> amount \<times> route_state" where
  "route rate k debt wantValue s =
     (case caps s k of
        None \<Rightarrow> (0, s)
      | Some cap \<Rightarrow>
          let want = min wantValue (cap_in debt cap) in
          if want \<le> eps_of debt then (0, s)
          else let order = (if debt = USD then [USD, LBP] else [LBP, USD]);
                   (_, routed, s') = fold (route_tender rate k debt) order (want, 0, s)
               in (routed, s'))"

definition route_ticked :: "amount \<Rightarrow> CoverageTake \<Rightarrow> route_state \<Rightarrow> route_state" where
  "route_ticked rate t s =
     (let s1 = (if ct_usd t > 0 then snd (route rate (ct_key t) USD (ct_usd t) s) else s)
      in if ct_lbp t > 0 then snd (route rate (ct_key t) LBP (ct_lbp t) s1) else s1)"

fun route_remainder ::
    "amount \<Rightarrow> AllocationItem list \<Rightarrow> amount \<Rightarrow> route_state \<Rightarrow> route_state" where
  "route_remainder rate [] remainder s = s"
| "route_remainder rate (it # its) remainder s =
     (if remainder \<le> EPS_USD then s
      else let k = item_key it;
               cap = (\<lambda>s. case caps s k of None \<Rightarrow> (0, 0) | Some c \<Rightarrow> c);
               (rem1, s1) =
                 (if fst (cap s) > EPS_USD
                  then (case route rate k USD (min remainder (fst (cap s))) s of
                          (got, s') \<Rightarrow> (remainder - got, s'))
                  else (remainder, s));
               (rem2, s2) =
                 (if rem1 > EPS_USD \<and> snd (cap s1) > EPS_LBP
                  then (case route rate k LBP (min (rem1 * rate) (snd (cap s1))) s1 of
                          (got, s') \<Rightarrow> (rem1 - got / rate, s'))
                  else (rem1, s1))
           in route_remainder rate its rem2 s2)"

definition cap_map :: "AllocationItem list \<Rightarrow> ref_key \<rightharpoonup> amount \<times> amount" where
  "cap_map items =
     map_of (rev (concat (map (\<lambda>it. case routingCap it of
         None \<Rightarrow> []
       | Some (u, l) \<Rightarrow> [(item_key it, (max 0 u, max 0 l))]) items)))"

definition route_all :: "AllocateRepaymentInput \<Rightarrow> amount \<Rightarrow> CoverageTake list \<Rightarrow> route_state" where
  "route_all inp rate ticked =
     (let s0 = \<lparr>caps = cap_map (ri_items inp),
                cashUsd = max 0 (min (ri_cashUsd inp) (appliedUsd inp)),
                cashLbp = max 0 (min (ri_cashLbp inp) (appliedLbp inp)),
                rs_routing = [], rs_routedUsd = 0, rs_routedLbp = 0\<rparr>;
          s1 = fold (route_ticked rate) ticked s0;
          tickedValue = sum_of (\<lambda>t. ct_usd t + ct_lbp t / rate) ticked;
          appliedValue = max 0 (appliedUsd inp) + max 0 (appliedLbp inp) / rate;
          transfers = js_sort byAge (filter (\<lambda>it. caps s0 (item_key it) \<noteq> None) (ri_items inp))
      in route_remainder rate transfers (max 0 (appliedValue - tickedValue)) s1)"

definition allocateRepayment :: "AllocateRepaymentInput \<Rightarrow> AllocateRepaymentResult" where
  "allocateRepayment inp =
     (let rate = (if ri_rate inp > 0 then ri_rate inp else 1);
          c = cover_all inp;
          r = route_all inp rate (tickedTakes c)
      in \<lparr>coverage = cs_takes c, routing = rs_routing r,
          routedUsd = rs_routedUsd r, routedLbp = rs_routedLbp r\<rparr>)"

section \<open>Planning the targets\<close>

record PlanRepaymentTargetsInput =
  pi_items :: "AllocationItem list"
  pi_ticked :: "DebtItemRef list"
  pi_reductionUsd :: amount
  pi_reductionLbp :: amount
  pi_rate :: amount

record PlanRepaymentTargetsResult =
  pr_targets :: "DebtItemRef list"
  pr_coverage :: "CoverageTake list"

definition ref_of :: "bool \<Rightarrow> AllocationItem \<Rightarrow> DebtItemRef" where
  "ref_of auto it = \<lparr>ref_kind = it_kind it, ref_id = it_id it, ref_auto = auto\<rparr>"

fun find_index :: "('a \<Rightarrow> bool) \<Rightarrow> 'a list \<Rightarrow> int" where
  "find_index P [] = -1"
| "find_index P (x # xs) =
     (if P x then 0 else let i = find_index P xs in if i < 0 then -1 else i + 1)"

definition plan_ticked :: "PlanRepaymentTargetsInput \<Rightarrow> DebtItemRef list" where
  "plan_ticked inp =
     js_sort (\<lambda>a b. of_int (find_index (\<lambda>t. ref_key t = ref_key a) (pi_ticked inp))
                   - of_int (find_index (\<lambda>t. ref_key t = ref_key b) (pi_ticked inp)))
       (map (ref_of False)
          (filter (\<lambda>it. list_ex (\<lambda>t. ref_key t = item_key it) (pi_ticked inp)) (pi_items inp)))"

definition plan_others :: "PlanRepaymentTargetsInput \<Rightarrow> AllocationItem list" where
  "plan_others inp =
     filter (\<lambda>it. \<not> list_ex (\<lambda>t. ref_key t = item_key it) (plan_ticked inp)) (pi_items inp)"

definition plan_input :: "PlanRepaymentTargetsInput \<Rightarrow> DebtItemRef list \<Rightarrow> AllocateRepaymentInput" where
  "plan_input inp targets =
     \<lparr>ri_items = pi_items inp, ri_targets = targets,
      reductionUsd = pi_reductionUsd inp, reductionLbp = pi_reductionLbp inp,
      appliedUsd = 0, appliedLbp = 0, ri_cashUsd = 0, ri_cashLbp = 0, ri_rate = pi_rate inp\<rparr>"

definition planRepaymentTargets :: "PlanRepaymentTargetsInput \<Rightarrow> PlanRepaymentTargetsResult" where
  "planRepaymentTargets inp =
     (let cov = coverage (allocateRepayment (plan_input inp
                  (plan_ticked inp @ map (ref_of True) (plan_others inp))));
          reached = map (ref_of True) (js_sort byTickedPriority
            (filter (\<lambda>it. list_ex (\<lambda>c. ct_key c = item_key it \<and> (ct_usd c > 0 \<or> ct_lbp c > 0)) cov)
               (plan_others inp)))
      in \<lparr>pr_targets = plan_ticked inp @ reached, pr_coverage = cov\<rparr>)"

end
