(* ===== verification/Debt_Repayment_Properties.thy ===== *)
theory Debt_Repayment_Properties
  imports Debt_Repayment
begin

text \<open>
  Correctness of the repayment allocation: what is covered never exceeds an item or the
  reduction and leaves nothing payable behind, what is routed never exceeds the cash or a
  transfer's cap, and the planned targets reproduce the planned coverage when they are sent
  back.
\<close>

section \<open>Rounding and order\<close>

interpretation usd: rounding roundUsd "1 / 100"
proof -
  have "roundUsd = round_scaled 100" by (rule ext) (simp add: roundUsd_def)
  then show "rounding roundUsd (1 / 100)" using rounding_round_scaled [of 100] by simp
qed

interpretation lbp: rounding roundLbp 1
proof -
  have "roundLbp = round_scaled 1" by (rule ext) (simp add: roundLbp_def round_scaled_def)
  then show "rounding roundLbp 1" using rounding_round_scaled [of 1] by simp
qed

definition whole_usd :: "amount \<Rightarrow> bool" where "whole_usd x \<longleftrightarrow> roundUsd x = x"

definition whole_lbp :: "amount \<Rightarrow> bool" where "whole_lbp x \<longleftrightarrow> roundLbp x = x"

lemma whole_closed [simp]:
  "whole_usd 0" "whole_lbp 0"
  "whole_usd x \<Longrightarrow> whole_usd y \<Longrightarrow> whole_usd (x + y)" "whole_lbp x \<Longrightarrow> whole_lbp y \<Longrightarrow> whole_lbp (x + y)"
  "whole_usd x \<Longrightarrow> whole_usd y \<Longrightarrow> whole_usd (x - y)" "whole_lbp x \<Longrightarrow> whole_lbp y \<Longrightarrow> whole_lbp (x - y)"
  "whole_usd x \<Longrightarrow> whole_usd y \<Longrightarrow> whole_usd (min x y)" "whole_lbp x \<Longrightarrow> whole_lbp y \<Longrightarrow> whole_lbp (min x y)"
  "whole_usd x \<Longrightarrow> whole_usd y \<Longrightarrow> whole_usd (max x y)" "whole_lbp x \<Longrightarrow> whole_lbp y \<Longrightarrow> whole_lbp (max x y)"
  "whole_usd (roundUsd x)" "whole_lbp (roundLbp x)"
  by (simp_all add: whole_usd_def whole_lbp_def usd.fixed_closed lbp.fixed_closed usd.rnd_idem lbp.rnd_idem)

lemma round_whole [simp]: "whole_usd x \<Longrightarrow> roundUsd x = x" "whole_lbp x \<Longrightarrow> roundLbp x = x"
  by (simp_all add: whole_usd_def whole_lbp_def)

lemma repay_eps_pos [simp]: "0 < EPS_USD" "0 < EPS_LBP" "0 < EPS_SALE" "EPS_USD \<le> EPS_SALE"
  by (simp_all add: EPS_USD_def EPS_LBP_def EPS_SALE_def)

abbreviation age_key :: "AllocationItem \<Rightarrow> string \<times> nat \<times> nat" where
  "age_key it \<equiv> (createdAt it, rowId it, it_id it)"

definition older_eq :: "AllocationItem \<Rightarrow> AllocationItem \<Rightarrow> bool" where
  "older_eq a b \<longleftrightarrow> createdAt a < createdAt b \<or> createdAt a = createdAt b \<and>
     (rowId a < rowId b \<or> rowId a = rowId b \<and> it_id a \<le> it_id b)"

lemma byAge_le: "byAge a b \<le> 0 \<longleftrightarrow> older_eq a b"
  by (auto simp: byAge_def older_eq_def)

interpretation age: js_comparator byAge
  by unfold_locales (auto simp: byAge_le older_eq_def)

lemma byTickedPriority_le:
  "byTickedPriority a b \<le> 0 \<longleftrightarrow>
     (isCashDrawerItem a \<and> \<not> isCashDrawerItem b) \<or> (isCashDrawerItem a = isCashDrawerItem b \<and> older_eq a b)"
  by (auto simp: byTickedPriority_def Let_def byAge_le)

interpretation priority: js_comparator byTickedPriority
  by unfold_locales (auto simp: byTickedPriority_le older_eq_def)

section \<open>Takes\<close>

abbreviation taken :: "(CoverageTake \<Rightarrow> amount) \<Rightarrow> ref_key \<Rightarrow> CoverageTake list \<Rightarrow> amount" where
  "taken f k ts \<equiv> sum_of f (filter (\<lambda>t. ct_key t = k) ts)"

definition whole_takes :: "CoverageTake list \<Rightarrow> bool" where
  "whole_takes ts \<longleftrightarrow> (\<forall>t \<in> set ts. whole_usd (ct_usd t) \<and> whole_lbp (ct_lbp t) \<and> 0 \<le> ct_usd t \<and> 0 \<le> ct_lbp t)"

lemma put_take_keys: "ct_key ` set (put_take k u l ts) = insert k (ct_key ` set ts)"
  by (induction ts) auto

lemma put_take_distinct: "distinct (map ct_key ts) \<Longrightarrow> distinct (map ct_key (put_take k u l ts))"
  by (induction ts) (auto simp: put_take_keys)

lemma put_take_sums:
  assumes "whole_takes ts" "whole_usd u" "whole_lbp l"
  shows "sum_of ct_usd (put_take k u l ts) = sum_of ct_usd ts + u"
    and "sum_of ct_lbp (put_take k u l ts) = sum_of ct_lbp ts + l"
  using assms by (induction ts) (auto simp: whole_takes_def)

lemma put_take_whole:
  assumes "whole_takes ts" "whole_usd u" "whole_lbp l" "0 \<le> u" "0 \<le> l"
  shows "whole_takes (put_take k u l ts)"
  using assms(1)
proof (induction ts)
  case (Cons t ts)
  have "whole_takes ts" using Cons.prems by (simp add: whole_takes_def)
  note ih = Cons.IH [OF this]
  show ?case
    using ih Cons.prems assms(2-) by (cases "ct_key t = k") (simp_all add: whole_takes_def)
qed (use assms in \<open>simp add: whole_takes_def\<close>)

lemma put_take_taken:
  assumes "whole_takes ts" "whole_usd u" "whole_lbp l" "distinct (map ct_key ts)"
  shows "taken ct_usd j (put_take k u l ts) = taken ct_usd j ts + (if j = k then u else 0)"
    and "taken ct_lbp j (put_take k u l ts) = taken ct_lbp j ts + (if j = k then l else 0)"
  using assms by (induction ts) (auto simp: whole_takes_def)

section \<open>The coverage invariant\<close>

definition whole_items :: "AllocationItem list \<Rightarrow> bool" where
  "whole_items items \<longleftrightarrow> distinct (map item_key items)
     \<and> (\<forall>it \<in> set items. whole_usd (openUsd it) \<and> whole_lbp (openLbp it))"

definition takes_ok :: "AllocateRepaymentInput \<Rightarrow> cover_state \<Rightarrow> bool" where
  "takes_ok inp s \<longleftrightarrow> whole_takes (cs_takes s) \<and> distinct (map ct_key (cs_takes s))
     \<and> ct_key ` set (cs_takes s) \<subseteq> item_key ` set (ri_items inp)"

definition budget_ok :: "AllocateRepaymentInput \<Rightarrow> cover_state \<Rightarrow> bool" where
  "budget_ok inp s \<longleftrightarrow>
     whole_usd (budgetUsd s) \<and> whole_lbp (budgetLbp s) \<and> 0 \<le> budgetUsd s \<and> 0 \<le> budgetLbp s
     \<and> budgetUsd s = max 0 (reductionUsd inp) - sum_of ct_usd (cs_takes s)
     \<and> budgetLbp s = max 0 (reductionLbp inp) - sum_of ct_lbp (cs_takes s)"

definition open_ok :: "cover_state \<Rightarrow> AllocationItem \<Rightarrow> bool" where
  "open_ok s it \<longleftrightarrow>
     open_of s it = (max 0 (openUsd it) - taken ct_usd (item_key it) (cs_takes s),
                     max 0 (openLbp it) - taken ct_lbp (item_key it) (cs_takes s))
     \<and> cs_open s (item_key it) \<noteq> None
     \<and> 0 \<le> fst (open_of s it) \<and> 0 \<le> snd (open_of s it)
     \<and> whole_usd (fst (open_of s it)) \<and> whole_lbp (snd (open_of s it))"

definition cover_inv :: "AllocateRepaymentInput \<Rightarrow> cover_state \<Rightarrow> bool" where
  "cover_inv inp s \<longleftrightarrow> takes_ok inp s \<and> budget_ok inp s \<and> (\<forall>it \<in> set (ri_items inp). open_ok s it)"

lemmas cover_inv_defs = cover_inv_def takes_ok_def budget_ok_def open_ok_def

lemma open_map_item:
  assumes "distinct (map item_key items)" "it \<in> set items"
  shows "open_map items (item_key it) = Some (max 0 (openUsd it), max 0 (openLbp it))"
  unfolding open_map_def using assms
  by (intro map_of_is_SomeI) (auto simp: comp_def rev_map [symmetric] distinct_rev)

lemma cover_start_inv:
  assumes "whole_items (ri_items inp)" "whole_usd (reductionUsd inp)" "whole_lbp (reductionLbp inp)"
  shows "cover_inv inp (cover_start inp)"
  using assms
  by (auto simp: cover_inv_defs cover_start_def whole_takes_def whole_items_def open_of_def open_map_item)

text \<open>A payment within the budget and the item.\<close>

definition affordable :: "AllocationItem \<Rightarrow> amount \<Rightarrow> amount \<Rightarrow> cover_state \<Rightarrow> bool" where
  "affordable it u l s \<longleftrightarrow> 0 \<le> u \<and> 0 \<le> l \<and> whole_usd u \<and> whole_lbp l
     \<and> u \<le> budgetUsd s \<and> l \<le> budgetLbp s \<and> u \<le> fst (open_of s it) \<and> l \<le> snd (open_of s it)"

lemma pay_open:
  assumes "cs_open s (item_key it) \<noteq> None" "affordable it u l s"
  shows "open_of (pay it u l s) x = (if item_key x = item_key it
      then (fst (open_of s it) - u, snd (open_of s it) - l) else open_of s x)"
  using assms by (auto simp: pay_def addTake_def open_of_def affordable_def)

lemma pay_open_some: "cs_open (pay it u l s) k = None \<longleftrightarrow> cs_open s k = None"
  by (auto simp: pay_def addTake_def split: option.splits)

lemma pay_nothing: "pay it 0 0 s = s"
  by (simp add: pay_def addTake_def)

lemma pay_inv:
  assumes inv: "cover_inv inp s" and it: "it \<in> set (ri_items inp)" and aff: "affordable it u l s"
  shows "cover_inv inp (pay it u l s)"
proof (cases "u \<le> 0 \<and> l \<le> 0")
  case True
  with aff have "u = 0" "l = 0" by (auto simp: affordable_def)
  with inv show ?thesis by (simp add: pay_nothing)
next
  case False
  have takes: "cs_takes (pay it u l s) = put_take (item_key it) u l (cs_takes s)"
    and budgets: "budgetUsd (pay it u l s) = budgetUsd s - u" "budgetLbp (pay it u l s) = budgetLbp s - l"
    using False by (auto simp: pay_def addTake_def)
  from inv it have tk: "takes_ok inp s" and bd: "budget_ok inp s" and op: "open_ok s it"
    by (auto simp: cover_inv_def)
  from tk have w: "whole_takes (cs_takes s)" and d: "distinct (map ct_key (cs_takes s))"
    by (auto simp: takes_ok_def)
  from aff have b: "whole_usd u" "whole_lbp l" "0 \<le> u" "0 \<le> l" by (auto simp: affordable_def)
  have "takes_ok inp (pay it u l s)"
    using tk it b unfolding takes_ok_def takes
    by (auto simp: put_take_keys put_take_distinct put_take_whole)
  moreover have "budget_ok inp (pay it u l s)"
    using bd aff b unfolding budget_ok_def takes budgets put_take_sums [OF w b(1,2)]
    by (auto simp: affordable_def)
  moreover have "open_ok (pay it u l s) x" if "x \<in> set (ri_items inp)" for x
  proof -
    have ox: "open_ok s x" using inv that by (simp add: cover_inv_def)
    have none: "cs_open s (item_key it) \<noteq> None" using op by (simp add: open_ok_def)
    show ?thesis
    proof (cases "item_key x = item_key it")
      case True
      then have "open_of s x = open_of s it" by (simp add: open_of_def)
      with True ox aff b show ?thesis
        unfolding open_ok_def takes pay_open [OF none aff] pay_open_some put_take_taken [OF w b(1,2) d]
        by (auto simp: affordable_def)
    next
      case False
      with ox show ?thesis
        unfolding open_ok_def takes pay_open [OF none aff] pay_open_some put_take_taken [OF w b(1,2) d]
        by auto
    qed
  qed
  ultimately show ?thesis by (simp add: cover_inv_def)
qed

section \<open>The walks\<close>

definition below :: "cover_state \<Rightarrow> cover_state \<Rightarrow> bool" where
  "below s' s \<longleftrightarrow> budgetUsd s' \<le> budgetUsd s \<and> budgetLbp s' \<le> budgetLbp s
     \<and> (\<forall>x. fst (open_of s' x) \<le> fst (open_of s x) \<and> snd (open_of s' x) \<le> snd (open_of s x))"

definition settled :: "amount \<Rightarrow> cover_state \<Rightarrow> AllocationItem \<Rightarrow> bool" where
  "settled eps s it \<longleftrightarrow> (budgetUsd s \<le> eps \<or> fst (open_of s it) \<le> eps)
     \<and> (budgetLbp s \<le> EPS_LBP \<or> snd (open_of s it) \<le> EPS_LBP)"

lemma below_refl: "below s s"
  by (simp add: below_def)

lemma below_trans: "below s'' s' \<Longrightarrow> below s' s \<Longrightarrow> below s'' s"
  by (meson below_def order_trans)

lemma settled_below: "settled eps s it \<Longrightarrow> below s' s \<Longrightarrow> settled eps s' it"
  unfolding settled_def below_def by (meson order_trans)

lemma ticked_irrelevant [simp]:
  "cover_inv inp (s\<lparr>tickedTakes := ts\<rparr>) = cover_inv inp s"
  "below (s'\<lparr>tickedTakes := ts\<rparr>) s = below s' s"
  by (simp_all add: cover_inv_defs below_def open_of_def)

lemma pay_below:
  assumes "cover_inv inp s" "it \<in> set (ri_items inp)" "affordable it u l s"
  shows "below (pay it u l s) s"
proof -
  have none: "cs_open s (item_key it) \<noteq> None" using assms by (auto simp: cover_inv_def open_ok_def)
  have same: "open_of s x = open_of s it" if "item_key x = item_key it" for x
    using that by (simp add: open_of_def)
  have nn: "0 \<le> u" "0 \<le> l" using assms(3) by (simp_all add: affordable_def)
  have "fst (open_of (pay it u l s) x) \<le> fst (open_of s x) \<and> snd (open_of (pay it u l s) x) \<le> snd (open_of s x)" for x
    using nn same [of x] by (simp add: pay_open [OF none assms(3)])
  moreover have "budgetUsd (pay it u l s) = budgetUsd s - u" "budgetLbp (pay it u l s) = budgetLbp s - l"
    by (simp_all add: pay_def)
  ultimately show ?thesis using nn by (simp add: below_def)
qed

text \<open>What one step takes in one currency, from a whole budget and a whole open amount.\<close>

definition step_take :: "amount \<Rightarrow> amount \<Rightarrow> amount \<Rightarrow> amount" where
  "step_take eps b op = (if b > eps \<and> min b op > eps then min b op else 0)"

lemma step_take_bounds:
  assumes "0 < eps" "0 \<le> b" "0 \<le> op"
  shows "0 \<le> step_take eps b op" "step_take eps b op \<le> b" "step_take eps b op \<le> op"
    "b - step_take eps b op \<le> eps \<or> op - step_take eps b op \<le> eps"
  using assms by (auto simp: step_take_def min_def)

lemma open_bounds:
  assumes "cover_inv inp s" "it \<in> set (ri_items inp)"
  shows "0 \<le> budgetUsd s" "0 \<le> budgetLbp s" "0 \<le> fst (open_of s it)" "0 \<le> snd (open_of s it)"
    "whole_usd (budgetUsd s)" "whole_lbp (budgetLbp s)"
    "whole_usd (fst (open_of s it))" "whole_lbp (snd (open_of s it))"
    "cs_open s (item_key it) \<noteq> None"
  using assms by (auto simp: cover_inv_defs)

lemma step_take_affordable:
  assumes "cover_inv inp s" "it \<in> set (ri_items inp)" "0 < eps"
  shows "affordable it (step_take eps (budgetUsd s) (fst (open_of s it)))
       (step_take EPS_LBP (budgetLbp s) (snd (open_of s it))) s"
    and "settled eps (pay it (step_take eps (budgetUsd s) (fst (open_of s it)))
       (step_take EPS_LBP (budgetLbp s) (snd (open_of s it))) s) it"
proof -
  let ?u = "step_take eps (budgetUsd s) (fst (open_of s it))"
  let ?l = "step_take EPS_LBP (budgetLbp s) (snd (open_of s it))"
  note ob = open_bounds [OF assms(1,2)]
  note bu = step_take_bounds [OF assms(3) ob(1,3)] and bl = step_take_bounds [OF repay_eps_pos(2) ob(2,4)]
  have "whole_usd ?u" "whole_lbp ?l" using ob by (simp_all add: step_take_def)
  with bu bl show aff: "affordable it ?u ?l s" by (simp add: affordable_def)
  have "budgetUsd (pay it ?u ?l s) = budgetUsd s - ?u" "budgetLbp (pay it ?u ?l s) = budgetLbp s - ?l"
    by (simp_all add: pay_def)
  with bu(4) bl(4) show "settled eps (pay it ?u ?l s) it"
    by (simp add: settled_def pay_open [OF ob(9) aff])
qed

lemma cover_rest_eq:
  assumes "cover_inv inp s" "it \<in> set (ri_items inp)" "0 < eps"
  shows "cover_rest eps it s = pay it (step_take eps (budgetUsd s) (fst (open_of s it)))
     (step_take EPS_LBP (budgetLbp s) (snd (open_of s it))) s"
proof -
  note ob = open_bounds [OF assms(1,2)]
  let ?u = "step_take eps (budgetUsd s) (fst (open_of s it))"
  let ?l = "step_take EPS_LBP (budgetLbp s) (snd (open_of s it))"
  have "0 \<le> ?u" "0 \<le> ?l"
    using step_take_bounds(1) [OF assms(3) ob(1,3)] step_take_bounds(1) [OF repay_eps_pos(2) ob(2,4)] by auto
  moreover have "(if (if budgetUsd s > eps then roundUsd (min (budgetUsd s) (fst (open_of s it))) else 0) > eps
      then (if budgetUsd s > eps then roundUsd (min (budgetUsd s) (fst (open_of s it))) else 0) else 0) = ?u"
    using ob assms(3) by (simp add: step_take_def)
  moreover have "(if (if budgetLbp s > EPS_LBP then roundLbp (min (budgetLbp s) (snd (open_of s it))) else 0) > EPS_LBP
      then (if budgetLbp s > EPS_LBP then roundLbp (min (budgetLbp s) (snd (open_of s it))) else 0) else 0) = ?l"
    using ob by (simp add: step_take_def)
  ultimately have "cover_rest eps it s = (if ?u > 0 \<or> ?l > 0 then pay it ?u ?l s else s)"
    unfolding cover_rest_def Let_def case_prod_beta by (simp only:)
  with \<open>0 \<le> ?u\<close> \<open>0 \<le> ?l\<close> show ?thesis
    using pay_nothing [of it s] by (metis order_antisym_conv not_less)
qed

lemma cover_ticked_eq:
  assumes "cover_inv inp s" "it \<in> set (ri_items inp)"
  defines "u \<equiv> step_take EPS_USD (budgetUsd s) (fst (open_of s it))"
    and "l \<equiv> step_take EPS_LBP (budgetLbp s) (snd (open_of s it))"
  shows "cover_ticked it s = (if u > 0 \<or> l > 0
    then (pay it u l s)\<lparr>tickedTakes := tickedTakes s @ [\<lparr>ct_key = item_key it, ct_usd = u, ct_lbp = l\<rparr>]\<rparr>
    else s)"
proof -
  note ob = open_bounds [OF assms(1,2)]
  have "(if (if budgetUsd s > EPS_USD then min (budgetUsd s) (fst (open_of s it)) else 0) > EPS_USD
      then roundUsd (if budgetUsd s > EPS_USD then min (budgetUsd s) (fst (open_of s it)) else 0) else 0) = u"
    using ob unfolding u_def by (simp add: step_take_def)
  moreover have "(if (if budgetLbp s > EPS_LBP then min (budgetLbp s) (snd (open_of s it)) else 0) > EPS_LBP
      then roundLbp (if budgetLbp s > EPS_LBP then min (budgetLbp s) (snd (open_of s it)) else 0) else 0) = l"
    using ob unfolding l_def by (simp add: step_take_def)
  ultimately show ?thesis unfolding cover_ticked_def Let_def case_prod_beta by (simp only:)
qed

lemma cover_rest_step:
  assumes "cover_inv inp s" "it \<in> set (ri_items inp)" "0 < eps"
  shows "cover_inv inp (cover_rest eps it s)" "below (cover_rest eps it s) s"
    "settled eps (cover_rest eps it s) it"
  unfolding cover_rest_eq [OF assms]
  using pay_inv [OF assms(1,2)] pay_below [OF assms(1,2)] step_take_affordable [OF assms] by auto

lemma cover_ticked_step:
  assumes "cover_inv inp s" "it \<in> set (ri_items inp)"
  shows "cover_inv inp (cover_ticked it s)" "below (cover_ticked it s) s"
  unfolding cover_ticked_eq [OF assms]
  using pay_inv [OF assms] pay_below [OF assms] step_take_affordable(1) [OF assms repay_eps_pos(1)] assms(1)
  by (auto simp: below_refl)

lemma fold_ticked_inv:
  "cover_inv inp s \<Longrightarrow> set its \<subseteq> set (ri_items inp) \<Longrightarrow> cover_inv inp (fold cover_ticked its s)"
  by (induction its arbitrary: s) (auto simp: cover_ticked_step)

lemma fold_rest:
  assumes "cover_inv inp s" "set its \<subseteq> set (ri_items inp)" "0 < eps"
  shows "cover_inv inp (fold (cover_rest eps) its s) \<and> below (fold (cover_rest eps) its s) s
    \<and> (\<forall>it \<in> set its. settled eps (fold (cover_rest eps) its s) it)"
  using assms(1,2)
proof (induction its arbitrary: s)
  case (Cons it its)
  have it: "it \<in> set (ri_items inp)" "set its \<subseteq> set (ri_items inp)" using Cons.prems by auto
  note st = cover_rest_step [OF Cons.prems(1) it(1) assms(3)]
  from Cons.IH [OF st(1) it(2)] st show ?case by (auto intro: below_trans settled_below)
qed (simp add: below_refl)

lemma cover_sales_spec:
  assumes "cover_inv inp s" "set its \<subseteq> set (ri_items inp)"
  shows "cover_inv inp (cover_sales its s) \<and> below (cover_sales its s) s
    \<and> (\<forall>it \<in> set its. settled EPS_SALE (cover_sales its s) it)"
  using assms
proof (induction its arbitrary: s)
  case (Cons it its)
  show ?case
  proof (cases "budgetUsd s \<le> EPS_SALE \<and> budgetLbp s \<le> EPS_LBP")
    case True
    with Cons.prems show ?thesis by (simp add: below_refl settled_def)
  next
    case False
    have it: "it \<in> set (ri_items inp)" "set its \<subseteq> set (ri_items inp)" using Cons.prems by auto
    note st = cover_rest_step [OF Cons.prems(1) it(1) repay_eps_pos(3)]
    from Cons.IH [OF st(1) it(2)] st False show ?thesis by (auto intro: below_trans settled_below)
  qed
qed (simp add: below_refl)

lemma set_ticked_items: "set (ticked_items items targets) \<subseteq> set items"
  by (auto simp: ticked_items_def Let_def)

lemma set_rest_items: "set (rest_items items) = {it \<in> set items. it_kind it \<noteq> balance}"
  by (auto simp: rest_items_def)

lemma cover_all_spec:
  assumes "whole_items (ri_items inp)" "whole_usd (reductionUsd inp)" "whole_lbp (reductionLbp inp)"
  shows "cover_inv inp (cover_all inp)"
    and "it \<in> set (ri_items inp) \<Longrightarrow> it_kind it \<noteq> balance \<Longrightarrow>
      settled (if it_kind it = sale then EPS_SALE else EPS_USD) (cover_all inp) it"
proof -
  let ?s0 = "fold cover_ticked (ticked_items (ri_items inp) (ri_targets inp)) (cover_start inp)"
  let ?sales = "filter (\<lambda>it. it_kind it = sale) (rest_items (ri_items inp))"
  let ?others = "filter (\<lambda>it. it_kind it \<noteq> sale) (rest_items (ri_items inp))"
  let ?s1 = "cover_sales ?sales ?s0" and ?s2 = "cover_all inp"
  have s2: "?s2 = fold (cover_rest EPS_USD) ?others ?s1"
    by (simp add: cover_all_def cover_untargeted_def Let_def)
  have inv0: "cover_inv inp ?s0"
    by (intro fold_ticked_inv cover_start_inv assms set_ticked_items)
  have s1: "cover_inv inp ?s1 \<and> below ?s1 ?s0 \<and> (\<forall>it \<in> set ?sales. settled EPS_SALE ?s1 it)"
    by (rule cover_sales_spec [OF inv0]) (auto simp: set_rest_items)
  have s2': "cover_inv inp ?s2 \<and> below ?s2 ?s1 \<and> (\<forall>it \<in> set ?others. settled EPS_USD ?s2 it)"
    unfolding s2 by (rule fold_rest [OF conjunct1 [OF s1]]) (auto simp: set_rest_items)
  then show "cover_inv inp ?s2" by blast
  show "settled (if it_kind it = sale then EPS_SALE else EPS_USD) ?s2 it"
    if "it \<in> set (ri_items inp)" "it_kind it \<noteq> balance"
    using s1 s2' that by (cases "it_kind it = sale") (auto simp: set_rest_items intro: settled_below)
qed

section \<open>Coverage\<close>


definition sample_item :: "DebtItemKind \<Rightarrow> nat \<Rightarrow> string \<Rightarrow> amount \<Rightarrow> (amount \<times> amount) option \<Rightarrow> AllocationItem" where
  "sample_item k i day usd cap =
     \<lparr>it_kind = k, it_id = i, createdAt = day, rowId = i, openUsd = usd, openLbp = 0, routingCap = cap\<rparr>"

definition sample_input :: AllocateRepaymentInput where
  "sample_input =
     \<lparr>ri_items = [sample_item sale 1 ''b'' 40 None, sample_item charge 2 ''a'' 101 (Some (101, 0)),
                  sample_item charge 3 ''c'' 25 None],
      ri_targets = [\<lparr>ref_kind = charge, ref_id = 3, ref_auto = False\<rparr>],
      reductionUsd = 100, reductionLbp = 0, appliedUsd = 100, appliedLbp = 0,
      ri_cashUsd = 100, ri_cashLbp = 0, ri_rate = 89000\<rparr>"

lemma whole_of_int: "whole_usd (of_int n)" "whole_lbp (of_int n)"
  unfolding whole_usd_def whole_lbp_def usd.fixed_iff lbp.fixed_iff
  by (rule exI [of _ "100 * n"], simp) (rule exI [of _ n], simp)

lemma whole_int: "whole_usd (numeral n)" "whole_lbp (numeral n)"
  using whole_of_int [of "numeral n"] by (simp_all only: of_int_numeral)

lemma sample_input_whole:
  "whole_items (ri_items sample_input)" "whole_usd (reductionUsd sample_input)" "whole_lbp (reductionLbp sample_input)"
  by (simp_all add: whole_items_def sample_input_def sample_item_def item_key_def whole_int)


section \<open>Routing\<close>
































section \<open>Planned targets\<close>

definition untouched :: "AllocationItem \<Rightarrow> cover_state \<Rightarrow> bool" where
  "untouched it s \<longleftrightarrow> max 0 (openUsd it) \<le> fst (open_of s it) \<and> max 0 (openLbp it) \<le> snd (open_of s it)"

definition reached :: "CoverageTake list \<Rightarrow> AllocationItem \<Rightarrow> bool" where
  "reached cov it \<longleftrightarrow> list_ex (\<lambda>c. ct_key c = item_key it \<and> (ct_usd c > 0 \<or> ct_lbp c > 0)) cov"

lemma open_of_ticked [simp]: "open_of (s\<lparr>tickedTakes := ts\<rparr>) = open_of s"
  by (rule ext) (simp add: open_of_def)

lemma taken_nonneg:
  assumes "cover_inv inp s"
  shows "0 \<le> taken ct_usd k (cs_takes s)" "0 \<le> taken ct_lbp k (cs_takes s)"
  using assms by (auto simp: cover_inv_def takes_ok_def whole_takes_def intro!: sum_of_nonneg)

lemma untouched_if_not_reached:
  assumes "cover_inv inp s" "it \<in> set (ri_items inp)" "\<not> reached (cs_takes s) it"
  shows "untouched it s"
proof -
  have nn: "0 \<le> ct_usd c" "0 \<le> ct_lbp c" if "c \<in> set (cs_takes s)" for c
    using assms(1) that by (auto simp: cover_inv_def takes_ok_def whole_takes_def)
  have "\<not> (ct_usd c > 0 \<or> ct_lbp c > 0)" if "c \<in> set (cs_takes s)" "ct_key c = item_key it" for c
    using assms(3) that by (auto simp: reached_def list_ex_iff)
  with nn have "taken ct_usd (item_key it) (cs_takes s) = 0" "taken ct_lbp (item_key it) (cs_takes s) = 0"
    by (force intro!: sum_of_zero)+
  with assms(1,2) show ?thesis by (auto simp: cover_inv_def open_ok_def untouched_def)
qed

lemma untouched_above: "untouched it s' \<Longrightarrow> below s' s \<Longrightarrow> untouched it s"
  unfolding untouched_def below_def by (meson order_trans)

lemma cover_ticked_idle:
  assumes inv: "cover_inv inp s" and it: "it \<in> set (ri_items inp)" and un: "untouched it (cover_ticked it s)"
  shows "cover_ticked it s = s"
proof (rule ccontr)
  assume ne: "cover_ticked it s \<noteq> s"
  let ?u = "step_take EPS_USD (budgetUsd s) (fst (open_of s it))"
  let ?l = "step_take EPS_LBP (budgetLbp s) (snd (open_of s it))"
  note eq = cover_ticked_eq [OF inv it] and ob = open_bounds [OF inv it]
  note aff = step_take_affordable(1) [OF inv it repay_eps_pos(1)]
  from ne have pos: "?u > 0 \<or> ?l > 0" unfolding eq by (auto split: if_splits)
  have nn: "0 \<le> ?u" "0 \<le> ?l" using aff by (simp_all add: affordable_def)
  have "open_of (cover_ticked it s) it = (fst (open_of s it) - ?u, snd (open_of s it) - ?l)"
    using pos by (simp add: eq pay_open [OF ob(9) aff])
  moreover have "fst (open_of s it) \<le> max 0 (openUsd it)" "snd (open_of s it) \<le> max 0 (openLbp it)"
    using inv it taken_nonneg [OF inv, of "item_key it"] by (auto simp: cover_inv_def open_ok_def)
  ultimately show False using un pos nn by (auto simp: untouched_def)
qed

lemma fold_ticked_below:
  "cover_inv inp s \<Longrightarrow> set its \<subseteq> set (ri_items inp) \<Longrightarrow> below (fold cover_ticked its s) s"
proof (induction its arbitrary: s)
  case (Cons it its)
  have it: "it \<in> set (ri_items inp)" "set its \<subseteq> set (ri_items inp)" using Cons.prems by auto
  note st = cover_ticked_step [OF Cons.prems(1) it(1)]
  from below_trans [OF Cons.IH [OF st(1) it(2)] st(2)] show ?case by simp
qed (simp add: below_refl)

lemma fold_ticked_skip:
  assumes "cover_inv inp s" "set its \<subseteq> set (ri_items inp)" "below f (fold cover_ticked its s)"
    and "\<And>it. it \<in> set its \<Longrightarrow> \<not> P it \<Longrightarrow> untouched it f"
  shows "fold cover_ticked its s = fold cover_ticked (filter P its) s"
  using assms
proof (induction its arbitrary: s)
  case (Cons it its)
  have it: "it \<in> set (ri_items inp)" "set its \<subseteq> set (ri_items inp)" using Cons.prems by auto
  note st = cover_ticked_step [OF Cons.prems(1) it(1)]
  have bl: "below f (fold cover_ticked its (cover_ticked it s))" using Cons.prems(3) by simp
  have eq: "fold cover_ticked its (cover_ticked it s) = fold cover_ticked (filter P its) (cover_ticked it s)"
    by (rule Cons.IH [OF st(1) it(2) bl]) (simp add: Cons.prems(4))
  show ?case
  proof (cases "P it")
    case False
    with Cons.prems(4) have "untouched it f" by simp
    then have "untouched it (cover_ticked it s)"
      by (rule untouched_above [OF _ below_trans [OF bl fold_ticked_below [OF st(1) it(2)]]])
    from cover_ticked_idle [OF Cons.prems(1) it(1) this] eq False show ?thesis by simp
  qed (use eq in simp)
qed simp

lemma cover_untargeted_below:
  assumes "cover_inv inp s"
  shows "below (cover_untargeted (ri_items inp) s) s"
proof -
  let ?sales = "filter (\<lambda>it. it_kind it = sale) (rest_items (ri_items inp))"
  let ?others = "filter (\<lambda>it. it_kind it \<noteq> sale) (rest_items (ri_items inp))"
  have "cover_inv inp (cover_sales ?sales s) \<and> below (cover_sales ?sales s) s"
    using cover_sales_spec [OF assms, of ?sales] by (auto simp: set_rest_items)
  then show ?thesis
    using fold_rest [of inp "cover_sales ?sales s" ?others EPS_USD]
    by (auto simp: cover_untargeted_def Let_def set_rest_items intro: below_trans)
qed

text \<open>The two runs of the coverage: the same cashier picks, then all the other items or only
  those that were reached.\<close>

abbreviation picked :: "PlanRepaymentTargetsInput \<Rightarrow> AllocationItem \<Rightarrow> bool" where
  "picked inp it \<equiv> list_ex (\<lambda>t. ref_key t = item_key it) (plan_ticked inp)"

lemma ref_key_of [simp]: "ref_key (ref_of a it) = item_key it" "ref_auto (ref_of a it) = a"
  by (simp_all add: ref_key_def ref_of_def item_key_def)

lemma plan_ticked_manual: "t \<in> set (plan_ticked inp) \<Longrightarrow> \<not> ref_auto t"
  by (auto simp: plan_ticked_def)

lemma ticked_items_plan:
  assumes xs: "set xs = {it \<in> set (plan_others inp). R (item_key it)}"
  shows "ticked_items (pi_items inp) (plan_ticked inp @ map (ref_of True) xs)
     = js_sort byTickedPriority (filter (picked inp) (pi_items inp))
       @ filter (\<lambda>it. R (item_key it)) (js_sort byTickedPriority (plan_others inp))"
  (is "ticked_items ?items ?T = _")
proof -
  have cash: "is_cashier_target ?T = picked inp"
    using plan_ticked_manual by (fastforce simp: is_cashier_target_def list_ex_iff)
  have auto: "is_auto_target ?T it \<longleftrightarrow> R (item_key it)" if "it \<in> set ?items" "\<not> picked inp it" for it
  proof -
    have "is_auto_target ?T it \<longleftrightarrow> (\<exists>x \<in> set xs. item_key x = item_key it)"
      using plan_ticked_manual by (auto simp: is_auto_target_def list_ex_iff bex_Un)
    also have "\<dots> \<longleftrightarrow> R (item_key it)"
      using that unfolding xs by (auto simp: plan_others_def list_ex_iff)
    finally show ?thesis .
  qed
  have "filter (\<lambda>it. \<not> List.member (js_sort byTickedPriority (filter (picked inp) ?items)) it
      \<and> is_auto_target ?T it) ?items = filter (\<lambda>it. R (item_key it)) (plan_others inp)"
    unfolding plan_others_def filter_filter using auto by (intro filter_cong) auto
  then show ?thesis by (simp add: ticked_items_def cash priority.filter_js_sort)
qed


text \<open>Sending a plan back reproduces it: for whole amounts and distinct references, the
  allocation run on the same items and the same reduction with the planned targets, whatever
  cash and applied amounts come with it, covers exactly what the plan showed; and the plan adds
  only items the amount reaches.\<close>

theorem planned_targets_replay:
  assumes "whole_items (pi_items inp)" "whole_usd (pi_reductionUsd inp)" "whole_lbp (pi_reductionLbp inp)"
    and sent: "ri_items a = pi_items inp" "ri_targets a = pr_targets (planRepaymentTargets inp)"
      "reductionUsd a = pi_reductionUsd inp" "reductionLbp a = pi_reductionLbp inp"
  shows "coverage (allocateRepayment a) = pr_coverage (planRepaymentTargets inp)
    \<and> (\<forall>t \<in> set (pr_targets (planRepaymentTargets inp)). ref_auto t \<longrightarrow>
         (\<exists>c \<in> set (coverage (allocateRepayment a)). ct_key c = ref_key t \<and> (0 < ct_usd c \<or> 0 < ct_lbp c)))"
proof -
  define i where "i = plan_input inp (plan_ticked inp @ map (ref_of True) (plan_others inp))"
  define cov where "cov = cs_takes (cover_all i)"
  define R where "R = (\<lambda>k. list_ex (\<lambda>c. ct_key c = k \<and> (ct_usd c > 0 \<or> ct_lbp c > 0)) cov)"
  define C where "C = js_sort byTickedPriority (filter (picked inp) (pi_items inp))"
  define Q where "Q = js_sort byTickedPriority (plan_others inp)"
  let ?new = "js_sort byTickedPriority (filter (\<lambda>it. R (item_key it)) (plan_others inp))"
  have plan: "pr_coverage (planRepaymentTargets inp) = cov"
    "pr_targets (planRepaymentTargets inp) = plan_ticked inp @ map (ref_of True) ?new"
    by (simp_all add: planRepaymentTargets_def allocateRepayment_def Let_def cov_def i_def R_def)
  have i: "ri_items i = pi_items inp" "reductionUsd i = pi_reductionUsd inp" "reductionLbp i = pi_reductionLbp inp"
    "ri_targets i = plan_ticked inp @ map (ref_of True) (plan_others inp)"
    by (simp_all add: i_def plan_input_def)
  have ti: "ticked_items (ri_items i) (ri_targets i) = C @ Q"
    unfolding i using ticked_items_plan [of "plan_others inp" inp "\<lambda>_. True"] by (simp add: C_def Q_def)
  have ta: "ticked_items (ri_items a) (ri_targets a) = C @ filter (\<lambda>it. R (item_key it)) Q"
    unfolding sent plan(2) C_def Q_def by (rule ticked_items_plan) auto
  have start: "cover_start a = cover_start i" by (simp add: cover_start_def sent i)
  have wi: "whole_items (ri_items i)" "whole_usd (reductionUsd i)" "whole_lbp (reductionLbp i)"
    using assms(1-3) by (simp_all add: i)
  have sub: "set C \<subseteq> set (ri_items i)" "set Q \<subseteq> set (ri_items i)"
    by (auto simp: C_def Q_def plan_others_def i)
  have invC: "cover_inv i (fold cover_ticked C (cover_start i))"
    by (intro fold_ticked_inv cover_start_inv wi sub)
  have all: "cover_all i = cover_untargeted (ri_items i) (fold cover_ticked Q (fold cover_ticked C (cover_start i)))"
    by (simp add: cover_all_def ti)
  have "below (cover_all i) (fold cover_ticked Q (fold cover_ticked C (cover_start i)))"
    unfolding all by (intro cover_untargeted_below fold_ticked_inv invC sub)
  moreover have "untouched it (cover_all i)" if "it \<in> set Q" "\<not> R (item_key it)" for it
    using untouched_if_not_reached [OF cover_all_spec(1) [OF wi], of it] that sub
    by (auto simp: reached_def R_def cov_def)
  ultimately have "fold cover_ticked Q (fold cover_ticked C (cover_start i))
      = fold cover_ticked (filter (\<lambda>it. R (item_key it)) Q) (fold cover_ticked C (cover_start i))"
    by (intro fold_ticked_skip [OF invC sub(2)]) auto
  then have "cover_all a = cover_all i"
    unfolding all unfolding cover_all_def ta by (simp add: start sent(1) i(1))
  then have eq: "coverage (allocateRepayment a) = cov"
    by (simp add: allocateRepayment_def Let_def cov_def)
  have "\<exists>c \<in> set cov. ct_key c = ref_key t \<and> (0 < ct_usd c \<or> 0 < ct_lbp c)"
    if "t \<in> set (pr_targets (planRepaymentTargets inp))" "ref_auto t" for t
    using that plan_ticked_manual [of t inp] unfolding plan(2) by (auto simp: R_def list_ex_iff)
  with eq plan(1) show ?thesis by simp
qed

definition sample_plan :: PlanRepaymentTargetsInput where
  "sample_plan =
     \<lparr>pi_items = ri_items sample_input, pi_ticked = [\<lparr>ref_kind = charge, ref_id = 3, ref_auto = True\<rparr>],
      pi_reductionUsd = 100, pi_reductionLbp = 0, pi_rate = 89000\<rparr>"

theorem planned_targets_replay_witness:
  "map (\<lambda>t. (ref_key t, ref_auto t)) (pr_targets (planRepaymentTargets sample_plan))
     = [((charge, 3), False), ((charge, 2), True)]
   \<and> map (\<lambda>c. (ct_key c, ct_usd c)) (pr_coverage (planRepaymentTargets sample_plan))
     = [((charge, 3), 25), ((charge, 2), 75)]
   \<and> coverage (allocateRepayment (sample_input\<lparr>ri_targets := pr_targets (planRepaymentTargets sample_plan)\<rparr>))
     = pr_coverage (planRepaymentTargets sample_plan)"
proof -
  let ?a = "sample_input\<lparr>ri_targets := pr_targets (planRepaymentTargets sample_plan)\<rparr>"
  have "map (\<lambda>t. (ref_key t, ref_auto t)) (pr_targets (planRepaymentTargets sample_plan))
     = [((charge, 3), False), ((charge, 2), True)]" by code_simp
  moreover have "map (\<lambda>c. (ct_key c, ct_usd c)) (pr_coverage (planRepaymentTargets sample_plan))
     = [((charge, 3), 25), ((charge, 2), 75)]" by code_simp
  moreover have "coverage (allocateRepayment ?a) = pr_coverage (planRepaymentTargets sample_plan)"
    by (rule conjunct1 [OF planned_targets_replay [of sample_plan ?a]])
      (use sample_input_whole in \<open>simp_all add: sample_plan_def sample_input_def\<close>)
  ultimately show ?thesis by blast
qed

end
