(* ===== verification/Payment_Methods.thy ===== *)
theory Payment_Methods
  imports Prelude
begin

text \<open>
  Model of the payment-method registry and of the rules that decide which drawer a payment leg
  moves: \<open>repositories/PaymentMethodRepository.ts\<close>, \<open>utils/payments.ts\<close>,
  \<open>utils/paymentLegs.ts\<close>, \<open>constants/systemFloatDrawers.ts\<close> and
  \<open>constants/cashDrawerChoice.ts\<close>, all under \<open>packages/core/src\<close>.

  The table \<open>payment_methods\<close> is a list of rows in row-id order together with the next
  \<open>AUTOINCREMENT\<close> id. Its constraints come from \<open>electron-app/create_db.sql\<close>: the primary key
  and \<open>UNIQUE (tenant_id, code)\<close>. \<open>ORDER BY sort_order\<close> is the stable sort over the row order.
  The tenant of a request exists, so the foreign key to \<open>tenants\<close> holds. \<open>toUpperCase\<close> is
  modelled on ASCII letters.

  The predicates of \<open>payments.ts\<close> catch an unavailable database: their table argument is an
  option, \<open>None\<close> when \<open>getDatabase\<close> throws.
\<close>

section \<open>The payment method table\<close>

record PaymentMethodEntity =
  pm_id :: nat
  pm_tenant :: nat
  code :: string
  label :: string
  drawer_name :: string
  affects_drawer :: int
  sort_order :: int
  is_active :: int
  is_system :: int
  pm_created_at :: string

record pm_table =
  pm_rows :: "PaymentMethodEntity list"
  pm_next :: nat

record CreatePaymentMethodData =
  c_code :: string
  c_label :: string
  c_drawer_name :: string
  c_affects_drawer :: "int option"
  c_sort_order :: "int option"

record UpdatePaymentMethodData =
  u_label :: "string option"
  u_drawer_name :: "string option"
  u_affects_drawer :: "int option"
  u_is_active :: "int option"
  u_sort_order :: "int option"

datatype pm_error = CodeExists string | MethodNotFound | SystemMethod

definition by_sort_order :: "PaymentMethodEntity \<Rightarrow> PaymentMethodEntity \<Rightarrow> rat" where
  "by_sort_order a b = of_int (sort_order a) - of_int (sort_order b)"

definition getAll :: "env \<Rightarrow> pm_table \<Rightarrow> PaymentMethodEntity list" where
  "getAll e t = js_sort by_sort_order (filter (\<lambda>r. pm_tenant r = tenant e) (pm_rows t))"

definition getActive :: "env \<Rightarrow> pm_table \<Rightarrow> PaymentMethodEntity list" where
  "getActive e t =
     js_sort by_sort_order (filter (\<lambda>r. is_active r = 1 \<and> pm_tenant r = tenant e) (pm_rows t))"

definition getByCode :: "env \<Rightarrow> pm_table \<Rightarrow> string \<Rightarrow> PaymentMethodEntity option" where
  "getByCode e t c = find (\<lambda>r. code r = c \<and> pm_tenant r = tenant e) (pm_rows t)"

definition getById :: "env \<Rightarrow> pm_table \<Rightarrow> nat \<Rightarrow> PaymentMethodEntity option" where
  "getById e t i = find (\<lambda>r. pm_id r = i \<and> pm_tenant r = tenant e) (pm_rows t)"

definition upper_char :: "char \<Rightarrow> char" where
  "upper_char c = (let n = of_char c :: nat in if 97 \<le> n \<and> n \<le> 122 then char_of (n - 32) else c)"

definition to_upper :: "string \<Rightarrow> string" where
  "to_upper s = map upper_char s"

definition next_sort_order :: "env \<Rightarrow> pm_table \<Rightarrow> int" where
  "next_sort_order e t =
     (case map sort_order (filter (\<lambda>r. pm_tenant r = tenant e) (pm_rows t)) of
        [] \<Rightarrow> -1 | x # xs \<Rightarrow> fold max xs x) + 1"

text \<open>The operations return the error or the inserted id (\<open>0\<close> where the source returns none), and
  the table.\<close>

definition create_method ::
    "env \<Rightarrow> CreatePaymentMethodData \<Rightarrow> pm_table \<Rightarrow> (pm_error + nat) \<times> pm_table" where
  "create_method e d t =
     (let so = (case c_sort_order d of None \<Rightarrow> next_sort_order e t | Some n \<Rightarrow> n);
          cd = to_upper (c_code d)
      in if list_ex (\<lambda>r. pm_tenant r = tenant e \<and> code r = cd) (pm_rows t)
         then (Inl (CodeExists (c_code d)), t)
         else (Inr (pm_next t),
               t\<lparr>pm_rows := pm_rows t @
                   [\<lparr>pm_id = pm_next t, pm_tenant = tenant e, code = cd, label = c_label d,
                     drawer_name = c_drawer_name d,
                     affects_drawer = (case c_affects_drawer d of None \<Rightarrow> 1 | Some n \<Rightarrow> n),
                     sort_order = so, is_active = 1, is_system = 0, pm_created_at = clock e\<rparr>],
                 pm_next := pm_next t + 1\<rparr>))"

text \<open>A clause of the \<open>UPDATE\<close> is present when its field is defined; with no clause the row stays as
  it is.\<close>

definition opt :: "'a option \<Rightarrow> ('a \<Rightarrow> 'b \<Rightarrow> 'b) \<Rightarrow> 'b \<Rightarrow> 'b" where
  "opt v put r = (case v of None \<Rightarrow> r | Some x \<Rightarrow> put x r)"

definition set_clauses ::
    "UpdatePaymentMethodData \<Rightarrow> bool \<Rightarrow> PaymentMethodEntity \<Rightarrow> PaymentMethodEntity" where
  "set_clauses d free r =
     opt (u_sort_order d) (\<lambda>x r. r\<lparr>sort_order := x\<rparr>)
       ((if free
         then (\<lambda>r. opt (u_affects_drawer d) (\<lambda>x r. r\<lparr>affects_drawer := x\<rparr>)
                      (opt (u_drawer_name d) (\<lambda>x r. r\<lparr>drawer_name := x\<rparr>) r))
         else (\<lambda>r. r))
          (opt (u_is_active d) (\<lambda>x r. r\<lparr>is_active := x\<rparr>)
             (opt (u_label d) (\<lambda>x r. r\<lparr>label := x\<rparr>) r)))"

definition update_method ::
    "env \<Rightarrow> nat \<Rightarrow> UpdatePaymentMethodData \<Rightarrow> pm_table \<Rightarrow> (pm_error + nat) \<times> pm_table" where
  "update_method e i d t =
     (case getById e t i of
        None \<Rightarrow> (Inl MethodNotFound, t)
      | Some method \<Rightarrow>
          (Inr 0, t\<lparr>pm_rows := map (\<lambda>r. if pm_id r = i \<and> pm_tenant r = tenant e
                                       then set_clauses d (is_system method = 0) r else r) (pm_rows t)\<rparr>))"

definition delete_method :: "env \<Rightarrow> nat \<Rightarrow> pm_table \<Rightarrow> (pm_error + nat) \<times> pm_table" where
  "delete_method e i t =
     (case getById e t i of
        None \<Rightarrow> (Inl MethodNotFound, t)
      | Some method \<Rightarrow>
          if is_system method = 1 then (Inl SystemMethod, t)
          else (Inr 0, t\<lparr>pm_rows := filter (\<lambda>r. \<not> (pm_id r = i \<and> pm_tenant r = tenant e)) (pm_rows t)\<rparr>))"

fun reorder_from :: "env \<Rightarrow> int \<Rightarrow> nat list \<Rightarrow> pm_table \<Rightarrow> pm_table" where
  "reorder_from e n [] t = t"
| "reorder_from e n (i # is) t =
     reorder_from e (n + 1) is
       (t\<lparr>pm_rows := map (\<lambda>r. if pm_id r = i \<and> pm_tenant r = tenant e then r\<lparr>sort_order := n\<rparr> else r)
            (pm_rows t)\<rparr>)"

definition reorder :: "env \<Rightarrow> nat list \<Rightarrow> pm_table \<Rightarrow> pm_table" where
  "reorder e is t = reorder_from e 0 is t"

definition resolveDrawerName :: "env \<Rightarrow> pm_table \<Rightarrow> string \<Rightarrow> string" where
  "resolveDrawerName e t c = (case getByCode e t c of None \<Rightarrow> ''General'' | Some m \<Rightarrow> drawer_name m)"

definition isDrawerAffecting :: "env \<Rightarrow> pm_table \<Rightarrow> string \<Rightarrow> bool" where
  "isDrawerAffecting e t c =
     (case getByCode e t c of None \<Rightarrow> False | Some m \<Rightarrow> affects_drawer m = 1)"

section \<open>Which drawer a method moves\<close>

definition FALLBACK_DRAWER_MAP :: "(string \<times> string) list" where
  "FALLBACK_DRAWER_MAP =
     [(''CASH'', ''General''), (''OMT'', ''OMT_App''), (''WHISH'', ''Whish_App''),
      (''BINANCE'', ''Binance''), (''CUSTOMER_ACCOUNT'', ''General'')]"

definition NON_DRAWER_METHODS :: "string list" where
  "NON_DRAWER_METHODS = [''CUSTOMER_ACCOUNT'', ''GIFT_CARD'']"

definition CANONICAL_METHODS :: "string list" where
  "CANONICAL_METHODS = map fst FALLBACK_DRAWER_MAP @ NON_DRAWER_METHODS"

definition UNREGISTERED_METHOD_IS_DRAWER_AFFECTING :: bool where
  "UNREGISTERED_METHOD_IS_DRAWER_AFFECTING = False"

definition isDrawerAffectingMethod :: "env \<Rightarrow> pm_table option \<Rightarrow> string \<Rightarrow> bool" where
  "isDrawerAffectingMethod e db m =
     (let fallback = \<not> List.member NON_DRAWER_METHODS m in
      case db of
        None \<Rightarrow> fallback
      | Some t \<Rightarrow>
          (case getByCode e t m of
             Some pm \<Rightarrow> affects_drawer pm = 1
           | None \<Rightarrow>
               if \<not> List.member CANONICAL_METHODS m then UNREGISTERED_METHOD_IS_DRAWER_AFFECTING
               else fallback))"

definition isNonCashDrawerMethod :: "env \<Rightarrow> pm_table option \<Rightarrow> string \<Rightarrow> bool" where
  "isNonCashDrawerMethod e db m =
     (if List.member NON_DRAWER_METHODS m then False
      else let fallback = (m \<noteq> ''CASH'' \<and> \<not> List.member NON_DRAWER_METHODS m) in
        case db of
          None \<Rightarrow> fallback
        | Some t \<Rightarrow>
            (case getByCode e t m of
               Some pm \<Rightarrow> affects_drawer pm = 1 \<and> drawer_name pm \<noteq> ''General''
             | None \<Rightarrow>
                 if \<not> List.member CANONICAL_METHODS m then UNREGISTERED_METHOD_IS_DRAWER_AFFECTING
                 else fallback))"

definition paymentMethodToDrawerName :: "env \<Rightarrow> pm_table option \<Rightarrow> string \<Rightarrow> string" where
  "paymentMethodToDrawerName e db m =
     (let fallback = (case map_of FALLBACK_DRAWER_MAP m of None \<Rightarrow> ''General'' | Some d \<Rightarrow> d) in
      case db of
        None \<Rightarrow> fallback
      | Some t \<Rightarrow> (case getByCode e t m of Some pm \<Rightarrow> drawer_name pm | None \<Rightarrow> fallback))"

definition BINANCE_DRAWER_NAME :: string where
  "BINANCE_DRAWER_NAME = ''Binance''"

record paid_row =
  p_method :: string
  p_drawer_name :: string
  p_currency_code :: string
  p_note :: "string option"

definition starts_with :: "string \<Rightarrow> string \<Rightarrow> bool" where
  "starts_with s p = (take (length p) s = p)"

definition isBinancePaidLeg :: "paid_row \<Rightarrow> bool" where
  "isBinancePaidLeg p =
     (p_method p = ''BINANCE'' \<and> p_drawer_name p = BINANCE_DRAWER_NAME \<and> p_currency_code p = ''USDT''
      \<and> \<not> starts_with (case p_note p of None \<Rightarrow> '''' | Some s \<Rightarrow> s) ''Crypto '')"

datatype posting_error = BINANCE_LBP_REFUSED

definition postingCurrency :: "string \<Rightarrow> string \<Rightarrow> posting_error + string" where
  "postingCurrency drawerName currencyCode =
     (if drawerName \<noteq> BINANCE_DRAWER_NAME then Inr currencyCode
      else if currencyCode = ''USD'' then Inr ''USDT''
      else if currencyCode = ''LBP'' then Inl BINANCE_LBP_REFUSED
      else Inr currencyCode)"

section \<open>The primary cash drawer\<close>

datatype BaseSystem = OMT | WHISH

definition system_code :: "BaseSystem \<Rightarrow> string" where
  "system_code b = (case b of OMT \<Rightarrow> ''OMT'' | WHISH \<Rightarrow> ''WHISH'')"

datatype CashDrawerChoice = SYSTEM | GENERAL

definition primaryCashDrawerName :: "BaseSystem \<Rightarrow> string" where
  "primaryCashDrawerName b = (if b = OMT then ''OMT_System'' else ''Whish_System'')"

definition isPrimarySystemProvider :: "string option \<Rightarrow> BaseSystem \<Rightarrow> bool" where
  "isPrimarySystemProvider provider b =
     ((provider = Some ''OMT'' \<or> provider = Some ''WHISH'') \<and> provider = Some (system_code b))"

record ServiceCashDrawerContext =
  provider :: string
  baseSystem :: BaseSystem
  cashDrawer :: "CashDrawerChoice option"

definition resolveServiceCashDrawer ::
    "env \<Rightarrow> pm_table option \<Rightarrow> string \<Rightarrow> ServiceCashDrawerContext \<Rightarrow> string" where
  "resolveServiceCashDrawer e db m ctx =
     (if cashDrawer ctx = Some GENERAL then paymentMethodToDrawerName e db m
      else if provider ctx = system_code (baseSystem ctx) \<and> isDrawerAffectingMethod e db m
              \<and> paymentMethodToDrawerName e db m = ''General'' \<and> m \<noteq> ''GIFT_CARD''
      then primaryCashDrawerName (baseSystem ctx)
      else paymentMethodToDrawerName e db m)"

definition systemCashDrawerChoiceApplies ::
    "string option \<Rightarrow> BaseSystem \<Rightarrow> string list \<Rightarrow> (string \<Rightarrow> bool) \<Rightarrow> bool" where
  "systemCashDrawerChoiceApplies prov b methods isGeneralCash =
     (prov = Some (system_code b) \<and> list_ex isGeneralCash methods)"

section \<open>Leg directions\<close>

datatype PaymentDirection = IN | OUT

definition isReturnLeg :: "PaymentDirection option \<Rightarrow> bool" where
  "isReturnLeg d = (d = Some OUT)"

fun partition_loop ::
    "('a \<Rightarrow> PaymentDirection option) \<Rightarrow> 'a list \<Rightarrow> 'a list \<times> 'a list \<Rightarrow> 'a list \<times> 'a list" where
  "partition_loop dir [] acc = acc"
| "partition_loop dir (leg # legs) (inLegs, outLegs) =
     partition_loop dir legs
       (if isReturnLeg (dir leg) then (inLegs, outLegs @ [leg]) else (inLegs @ [leg], outLegs))"

definition partitionLegs ::
    "('a \<Rightarrow> PaymentDirection option) \<Rightarrow> 'a list option \<Rightarrow> 'a list \<times> 'a list" where
  "partitionLegs dir payments =
     (case payments of None \<Rightarrow> ([], []) | Some legs \<Rightarrow>
        if legs = [] then ([], []) else partition_loop dir legs ([], []))"

definition derivePaidByLabel :: "string list \<Rightarrow> string \<Rightarrow> string" where
  "derivePaidByLabel methods fallback =
     (if length methods > 1 then ''MULTI'' else if length methods = 1 then hd methods else fallback)"


section \<open>Seeding a tenant\<close>

text \<open>\<open>seedPaymentMethods\<close> of \<open>repositories/TenantRepository.ts\<close>: \<open>INSERT OR IGNORE\<close> of the six
  built-in methods.\<close>

definition seed_row ::
    "env \<Rightarrow> string \<times> string \<times> string \<times> int \<times> int \<times> int \<times> int \<Rightarrow> pm_table \<Rightarrow> pm_table" where
  "seed_row e row t =
     (case row of (cd, lb, dr, af, so, sy, ac) \<Rightarrow>
        if list_ex (\<lambda>r. pm_tenant r = tenant e \<and> code r = cd) (pm_rows t) then t
        else t\<lparr>pm_rows := pm_rows t @
                 [\<lparr>pm_id = pm_next t, pm_tenant = tenant e, code = cd, label = lb, drawer_name = dr,
                   affects_drawer = af, sort_order = so, is_active = ac, is_system = sy,
                   pm_created_at = clock e\<rparr>],
               pm_next := pm_next t + 1\<rparr>)"

definition seed_rows :: "(string \<times> string \<times> string \<times> int \<times> int \<times> int \<times> int) list" where
  "seed_rows =
     [(''CASH'', ''Cash'', ''General'', 1, 0, 1, 1),
      (''OMT'', ''OMT Wallet'', ''OMT_App'', 1, 1, 0, 1),
      (''WHISH'', ''Whish Wallet'', ''Whish_App'', 1, 2, 0, 1),
      (''BINANCE'', ''Binance'', ''Binance'', 1, 3, 0, 1),
      (''CUSTOMER_ACCOUNT'', ''Customer Account'', ''General'', 0, 4, 1, 1),
      (''GIFT_CARD'', ''Gift Card / Voucher'', ''General'', 0, 5, 1, 1)]"

definition seedPaymentMethods :: "env \<Rightarrow> pm_table \<Rightarrow> pm_table" where
  "seedPaymentMethods e t = fold (seed_row e) seed_rows t"

end
