(* ===== verification/Payment_Methods_Properties.thy ===== *)
theory Payment_Methods_Properties
  imports Payment_Methods
begin

text \<open>
  Correctness of the payment-method registry and of the drawer rules built on it: the built-in
  methods keep their drawers through every sequence of changes, so cash always reaches the
  drawer the routing rule names; the two drawer predicates agree; deleting a wallet method does
  not change where its money goes; and a reordered list is read back in that order.
\<close>

section \<open>The table\<close>

definition pm_wf :: "pm_table \<Rightarrow> bool" where
  "pm_wf t \<longleftrightarrow> distinct (map pm_id (pm_rows t)) \<and> (\<forall>r \<in> set (pm_rows t). pm_id r < pm_next t)
     \<and> distinct (map (\<lambda>r. (pm_tenant r, code r)) (pm_rows t))"

inductive pm_step :: "pm_table \<Rightarrow> pm_table \<Rightarrow> bool" where
  create: "pm_step t (snd (create_method e d t))"
| update: "pm_step t (snd (update_method e i u t))"
| delete: "pm_step t (snd (delete_method e i t))"
| reorder: "pm_step t (reorder e is t)"
| seed: "pm_step t (seedPaymentMethods e t)"

text \<open>A row is an image of another: same identity, and a system row also keeps its drawer.\<close>

definition same_method :: "PaymentMethodEntity \<Rightarrow> PaymentMethodEntity \<Rightarrow> bool" where
  "same_method r r' \<longleftrightarrow> pm_id r' = pm_id r \<and> pm_tenant r' = pm_tenant r \<and> code r' = code r
     \<and> is_system r' = is_system r
     \<and> (is_system r = 1 \<longrightarrow> drawer_name r' = drawer_name r \<and> affects_drawer r' = affects_drawer r)"

lemma same_method_refl: "same_method r r"
  by (simp add: same_method_def)

lemma same_method_trans: "same_method r r' \<Longrightarrow> same_method r' r'' \<Longrightarrow> same_method r r''"
  by (auto simp: same_method_def)

lemma opt_field: "(\<And>x r. f (put x r) = f r) \<Longrightarrow> f (opt v put r) = f r"
  by (simp add: opt_def split: option.splits)

lemma set_clauses_identity:
  "pm_id (set_clauses d free r) = pm_id r" "pm_tenant (set_clauses d free r) = pm_tenant r"
  "code (set_clauses d free r) = code r" "is_system (set_clauses d free r) = is_system r"
  by (simp_all add: set_clauses_def opt_field)

lemma set_clauses_drawer:
  "drawer_name (set_clauses d False r) = drawer_name r" "affects_drawer (set_clauses d False r) = affects_drawer r"
  by (simp_all add: set_clauses_def opt_field)

text \<open>An operation keeps the system rows when each of them has an image in the result.\<close>

definition keeps_system :: "pm_table \<Rightarrow> pm_table \<Rightarrow> bool" where
  "keeps_system t t' \<longleftrightarrow>
     (\<forall>r \<in> set (pm_rows t). is_system r = 1 \<longrightarrow> (\<exists>r' \<in> set (pm_rows t'). same_method r r'))"

lemma keeps_system_refl: "keeps_system t t"
  by (auto simp: keeps_system_def intro: same_method_refl)

lemma keeps_system_trans: "keeps_system t t' \<Longrightarrow> keeps_system t' t'' \<Longrightarrow> keeps_system t t''"
  unfolding keeps_system_def by (metis same_method_def same_method_trans)

text \<open>Rows mapped to images of themselves, and a fresh row at the end.\<close>

lemma map_rows_ok:
  assumes "pm_wf t" "\<And>r. r \<in> set (pm_rows t) \<Longrightarrow> same_method r (f r)"
  shows "pm_wf (t\<lparr>pm_rows := map f (pm_rows t)\<rparr>)" "keeps_system t (t\<lparr>pm_rows := map f (pm_rows t)\<rparr>)"
proof -
  have same: "map pm_id (map f (pm_rows t)) = map pm_id (pm_rows t)"
    "map (\<lambda>r. (pm_tenant r, code r)) (map f (pm_rows t)) = map (\<lambda>r. (pm_tenant r, code r)) (pm_rows t)"
    using assms(2) by (auto simp: same_method_def)
  have "\<forall>r \<in> set (map f (pm_rows t)). pm_id r < pm_next t"
    using assms by (auto simp: pm_wf_def same_method_def)
  with same assms(1) show "pm_wf (t\<lparr>pm_rows := map f (pm_rows t)\<rparr>)"
    unfolding pm_wf_def by (simp del: map_map set_map)
  show "keeps_system t (t\<lparr>pm_rows := map f (pm_rows t)\<rparr>)"
    using assms(2) by (auto simp: keeps_system_def)
qed

lemma append_row_ok:
  assumes "pm_wf t" "pm_id r = pm_next t"
    "\<not> list_ex (\<lambda>x. pm_tenant x = pm_tenant r \<and> code x = code r) (pm_rows t)"
  shows "pm_wf (t\<lparr>pm_rows := pm_rows t @ [r], pm_next := pm_next t + 1\<rparr>)"
    "keeps_system t (t\<lparr>pm_rows := pm_rows t @ [r], pm_next := pm_next t + 1\<rparr>)"
  using assms by (auto simp: pm_wf_def keeps_system_def list_ex_iff less_Suc_eq intro: same_method_refl)

lemma create_ok:
  assumes "pm_wf t"
  shows "pm_wf (snd (create_method e d t)) \<and> keeps_system t (snd (create_method e d t))"
  using assms append_row_ok [OF assms] by (simp add: create_method_def Let_def keeps_system_refl)

lemma getById_SomeD: "getById e t i = Some m \<Longrightarrow> m \<in> set (pm_rows t) \<and> pm_id m = i \<and> pm_tenant m = tenant e"
  by (auto simp: getById_def find_Some_iff)

lemma same_id_same_row:
  "pm_wf t \<Longrightarrow> r \<in> set (pm_rows t) \<Longrightarrow> m \<in> set (pm_rows t) \<Longrightarrow> pm_id r = pm_id m \<Longrightarrow> r = m"
  by (auto simp: pm_wf_def distinct_map dest: inj_onD)

lemma update_ok:
  assumes "pm_wf t"
  shows "pm_wf (snd (update_method e i d t)) \<and> keeps_system t (snd (update_method e i d t))"
proof (cases "getById e t i")
  case (Some m)
  have "same_method r (if pm_id r = i \<and> pm_tenant r = tenant e then set_clauses d (is_system m = 0) r else r)"
    if "r \<in> set (pm_rows t)" for r
  proof (cases "pm_id r = i \<and> pm_tenant r = tenant e")
    case True
    with same_id_same_row [OF assms that] getById_SomeD [OF Some] have "r = m" by simp
    with True show ?thesis
      by (cases "is_system m = 0") (simp_all add: same_method_def set_clauses_identity set_clauses_drawer)
  qed (auto simp: same_method_refl)
  from map_rows_ok [OF assms this] Some show ?thesis by (simp add: update_method_def)
qed (use assms in \<open>simp add: update_method_def keeps_system_refl\<close>)

lemma delete_ok:
  assumes "pm_wf t"
  shows "pm_wf (snd (delete_method e i t)) \<and> keeps_system t (snd (delete_method e i t))"
proof (cases "getById e t i")
  case (Some m)
  let ?P = "\<lambda>r. \<not> (pm_id r = i \<and> pm_tenant r = tenant e)"
  have wf: "pm_wf (t\<lparr>pm_rows := filter ?P (pm_rows t)\<rparr>)"
    using assms by (auto simp: pm_wf_def intro: distinct_map_filter)
  show ?thesis
  proof (cases "is_system m = 1")
    case False
    have "?P r" if "r \<in> set (pm_rows t)" "is_system r = 1" for r
      using same_id_same_row [OF assms that(1)] getById_SomeD [OF Some] that(2) False by auto
    with wf Some False show ?thesis
      by (auto simp: delete_method_def keeps_system_def intro: same_method_refl)
  qed (use assms Some in \<open>simp add: delete_method_def keeps_system_refl\<close>)
qed (use assms in \<open>simp add: delete_method_def keeps_system_refl\<close>)

lemma reorder_ok:
  assumes "pm_wf t"
  shows "pm_wf (reorder_from e n is t) \<and> keeps_system t (reorder_from e n is t)"
  using assms
proof (induction "is" arbitrary: n t)
  case (Cons i "is")
  let ?t = "t\<lparr>pm_rows := map (\<lambda>r. if pm_id r = i \<and> pm_tenant r = tenant e then r\<lparr>sort_order := n\<rparr> else r) (pm_rows t)\<rparr>"
  have "pm_wf ?t" "keeps_system t ?t"
    by (rule map_rows_ok [OF Cons.prems]; simp add: same_method_def)+
  with Cons.IH [of ?t "n + 1"] keeps_system_trans show ?case by auto
qed (simp add: keeps_system_refl)

lemma seed_row_ok:
  assumes "pm_wf t"
  shows "pm_wf (seed_row e row t) \<and> keeps_system t (seed_row e row t)"
  using assms append_row_ok [OF assms] by (simp add: seed_row_def keeps_system_refl case_prod_beta)

lemma fold_seed_ok:
  "pm_wf t \<Longrightarrow> pm_wf (fold (seed_row e) rows t) \<and> keeps_system t (fold (seed_row e) rows t)"
proof (induction rows arbitrary: t)
  case (Cons row rows)
  note sr = seed_row_ok [OF Cons.prems, of e row]
  from Cons.IH [OF conjunct1 [OF sr]] sr show ?case by (auto intro: keeps_system_trans)
qed (simp add: keeps_system_refl)

lemma pm_step_ok: "pm_step t t' \<Longrightarrow> pm_wf t \<Longrightarrow> pm_wf t' \<and> keeps_system t t'"
  by (induction rule: pm_step.induct)
    (simp_all add: create_ok update_ok delete_ok reorder_def reorder_ok seedPaymentMethods_def fold_seed_ok)

lemma pm_steps_ok: "pm_step\<^sup>*\<^sup>* t t' \<Longrightarrow> pm_wf t \<Longrightarrow> pm_wf t' \<and> keeps_system t t'"
proof (induction rule: rtranclp_induct)
  case (step t' t'')
  then show ?case using pm_step_ok keeps_system_trans by blast
qed (simp add: keeps_system_refl)


text \<open>C24. Through any sequence of creations, updates, deletions, reorderings and tenant seedings
  the table keeps distinct ids and at most one row per tenant and code, and every system method
  stays, with its id, tenant, code, drawer and drawer flag unchanged.\<close>

theorem system_methods_kept:
  assumes "pm_wf t" "pm_step\<^sup>*\<^sup>* t t'"
  shows "pm_wf t' \<and> (\<forall>r \<in> set (pm_rows t). is_system r = 1 \<longrightarrow>
    (\<exists>r' \<in> set (pm_rows t'). pm_id r' = pm_id r \<and> pm_tenant r' = pm_tenant r \<and> code r' = code r
       \<and> drawer_name r' = drawer_name r \<and> affects_drawer r' = affects_drawer r \<and> is_system r' = 1))"
  using pm_steps_ok [OF assms(2,1)] unfolding keeps_system_def same_method_def by fastforce

definition shop :: env where
  "shop = \<lparr>tenant = 1, now = ''n'', clock = ''c''\<rparr>"

definition no_methods :: pm_table where
  "no_methods = \<lparr>pm_rows = [], pm_next = 1\<rparr>"

lemma no_methods_wf: "pm_wf no_methods"
  by (simp add: pm_wf_def no_methods_def)

definition repoint_cash :: UpdatePaymentMethodData where
  "repoint_cash = \<lparr>u_label = Some ''Notes'', u_drawer_name = Some ''Safe'', u_affects_drawer = Some 0,
     u_is_active = None, u_sort_order = None\<rparr>"

theorem system_methods_kept_witness:
  "map (\<lambda>r. (code r, label r, drawer_name r, affects_drawer r))
      (filter (\<lambda>r. is_system r = 1) (pm_rows (snd (update_method shop 1 repoint_cash (seedPaymentMethods shop no_methods)))))
     = [(''CASH'', ''Notes'', ''General'', 1), (''CUSTOMER_ACCOUNT'', ''Customer Account'', ''General'', 0),
        (''GIFT_CARD'', ''Gift Card / Voucher'', ''General'', 0)]
   \<and> pm_wf (snd (update_method shop 1 repoint_cash (seedPaymentMethods shop no_methods)))"
proof -
  have "pm_step\<^sup>*\<^sup>* no_methods (snd (update_method shop 1 repoint_cash (seedPaymentMethods shop no_methods)))"
    by (meson pm_step.seed pm_step.update r_into_rtranclp rtranclp_trans)
  from conjunct1 [OF system_methods_kept [OF no_methods_wf this]] show ?thesis
    by (intro conjI) code_simp+
qed

section \<open>Lookup\<close>

lemma getByCode_row:
  assumes "pm_wf t" "r \<in> set (pm_rows t)" "pm_tenant r = tenant e"
  shows "getByCode e t (code r) = Some r"
proof -
  obtain x where x: "getByCode e t (code r) = Some x"
    using assms(2,3) by (cases "getByCode e t (code r)") (auto simp: getByCode_def find_None_iff)
  then have "x \<in> set (pm_rows t)" "code x = code r" "pm_tenant x = tenant e"
    by (auto simp: getByCode_def find_Some_iff)
  moreover have "inj_on (\<lambda>r. (pm_tenant r, code r)) (set (pm_rows t))"
    using assms(1) by (simp add: pm_wf_def distinct_map)
  ultimately have "x = r" using assms(2,3) by (auto elim!: inj_onD)
  with x show ?thesis by simp
qed

lemma seed_fresh_rows:
  assumes "\<not> list_ex (\<lambda>r. pm_tenant r = tenant e) (pm_rows t)" "(cd, lb, dr, af, so, sy, ac) \<in> set seed_rows"
  shows "\<exists>r \<in> set (pm_rows (seedPaymentMethods e t)). pm_tenant r = tenant e \<and> code r = cd
    \<and> drawer_name r = dr \<and> affects_drawer r = af \<and> is_system r = sy"
proof -
  have none: "\<not> list_ex (\<lambda>r. pm_tenant r = tenant e \<and> code r = c) (pm_rows t)" for c
    using assms(1) by (auto simp: list_ex_iff)
  have "map (\<lambda>r. (pm_tenant r, code r, drawer_name r, affects_drawer r, is_system r))
      (pm_rows (seedPaymentMethods e t)) = map (\<lambda>r. (pm_tenant r, code r, drawer_name r, affects_drawer r, is_system r)) (pm_rows t)
      @ map (\<lambda>(cd, lb, dr, af, so, sy, ac). (tenant e, cd, dr, af, sy)) seed_rows"
    by (simp add: seedPaymentMethods_def seed_rows_def seed_row_def none)
  moreover have "(tenant e, cd, dr, af, sy) \<in> set (map (\<lambda>(cd, lb, dr, af, so, sy, ac). (tenant e, cd, dr, af, sy)) seed_rows)"
    unfolding set_map by (rule image_eqI [OF _ assms(2)]) simp
  ultimately have "(tenant e, cd, dr, af, sy) \<in> set (map (\<lambda>r. (pm_tenant r, code r, drawer_name r, affects_drawer r, is_system r))
      (pm_rows (seedPaymentMethods e t)))" by (simp only: set_append UnI2)
  then show ?thesis by auto
qed

text \<open>What the registry answers for a built-in system method of a seeded tenant, for ever after.\<close>

lemma seeded_lookup:
  assumes "pm_wf t0" "\<not> list_ex (\<lambda>r. pm_tenant r = tenant e) (pm_rows t0)"
    "pm_step\<^sup>*\<^sup>* (seedPaymentMethods e t0) t" "(cd, lb, dr, af, so, 1, ac) \<in> set seed_rows"
  shows "\<exists>r. getByCode e t cd = Some r \<and> drawer_name r = dr \<and> affects_drawer r = af"
proof -
  have wf0: "pm_wf (seedPaymentMethods e t0)" using fold_seed_ok [OF assms(1)] by (simp add: seedPaymentMethods_def)
  note ok = pm_steps_ok [OF assms(3) wf0]
  from seed_fresh_rows [OF assms(2,4)] obtain r where r: "r \<in> set (pm_rows (seedPaymentMethods e t0))"
    "pm_tenant r = tenant e" "code r = cd" "drawer_name r = dr" "affects_drawer r = af" "is_system r = 1" by blast
  with ok obtain r' where r': "r' \<in> set (pm_rows t)" "same_method r r'" by (auto simp: keeps_system_def)
  with r have "pm_tenant r' = tenant e" "code r' = cd" "drawer_name r' = dr" "affects_drawer r' = af"
    by (auto simp: same_method_def)
  with getByCode_row [OF conjunct1 [OF ok] r'(1)] show ?thesis by auto
qed

text \<open>C23. Where cash goes, for a tenant seeded on a table without rows of it and after any further
  changes: cash is drawer cash in General; on a transfer of the shop's primary system it goes to
  that system's cash drawer, unless the cashier chose General; customer-account and gift-card
  legs never count as drawer money and are never routed to a system drawer.\<close>

theorem seeded_cash_routing:
  assumes "pm_wf t0" "\<not> list_ex (\<lambda>r. pm_tenant r = tenant e) (pm_rows t0)"
    "pm_step\<^sup>*\<^sup>* (seedPaymentMethods e t0) t"
  shows "isDrawerAffectingMethod e (Some t) ''CASH'' \<and> \<not> isNonCashDrawerMethod e (Some t) ''CASH''
    \<and> resolveServiceCashDrawer e (Some t) ''CASH'' ctx
        = (if cashDrawer ctx = Some GENERAL \<or> provider ctx \<noteq> system_code (baseSystem ctx) then ''General''
           else primaryCashDrawerName (baseSystem ctx))
    \<and> \<not> isDrawerAffectingMethod e (Some t) ''CUSTOMER_ACCOUNT'' \<and> \<not> isDrawerAffectingMethod e (Some t) ''GIFT_CARD''
    \<and> resolveServiceCashDrawer e (Some t) ''CUSTOMER_ACCOUNT'' ctx = ''General''
    \<and> resolveServiceCashDrawer e (Some t) ''GIFT_CARD'' ctx = ''General''"
proof -
  note look = seeded_lookup [OF assms]
  from look [of "''CASH''" "''Cash''" "''General''" 1 0 1]
  obtain c where c: "getByCode e t ''CASH'' = Some c" "drawer_name c = ''General''" "affects_drawer c = 1"
    by (auto simp: seed_rows_def)
  from look [of "''CUSTOMER_ACCOUNT''" "''Customer Account''" "''General''" 0 4 1]
  obtain a where a: "getByCode e t ''CUSTOMER_ACCOUNT'' = Some a" "drawer_name a = ''General''" "affects_drawer a = 0"
    by (auto simp: seed_rows_def)
  from look [of "''GIFT_CARD''" "''Gift Card / Voucher''" "''General''" 0 5 1]
  obtain g where g: "getByCode e t ''GIFT_CARD'' = Some g" "drawer_name g = ''General''" "affects_drawer g = 0"
    by (auto simp: seed_rows_def)
  show ?thesis
    by (simp add: c a g isDrawerAffectingMethod_def isNonCashDrawerMethod_def paymentMethodToDrawerName_def
        resolveServiceCashDrawer_def Let_def)
qed

definition at_omt :: ServiceCashDrawerContext where
  "at_omt = \<lparr>provider = ''OMT'', baseSystem = OMT, cashDrawer = None\<rparr>"

theorem seeded_cash_routing_witness:
  "resolveServiceCashDrawer shop (Some (seedPaymentMethods shop no_methods)) ''CASH'' at_omt = ''OMT_System''
   \<and> resolveServiceCashDrawer shop (Some (seedPaymentMethods shop no_methods)) ''CASH'' (at_omt\<lparr>cashDrawer := Some GENERAL\<rparr>) = ''General''
   \<and> resolveServiceCashDrawer shop (Some (seedPaymentMethods shop no_methods)) ''GIFT_CARD'' at_omt = ''General''"
proof -
  have "\<not> list_ex (\<lambda>r. pm_tenant r = tenant shop) (pm_rows no_methods)" by (simp add: no_methods_def)
  note r = seeded_cash_routing [OF no_methods_wf this rtranclp.rtrancl_refl]
  from r [of at_omt] r [of "at_omt\<lparr>cashDrawer := Some GENERAL\<rparr>"] show ?thesis
    by (simp add: at_omt_def system_code_def primaryCashDrawerName_def)
qed

section \<open>The predicates agree\<close>

lemmas drawer_predicates =
  isDrawerAffectingMethod_def isNonCashDrawerMethod_def paymentMethodToDrawerName_def Let_def

lemmas method_tables =
  FALLBACK_DRAWER_MAP_def NON_DRAWER_METHODS_def CANONICAL_METHODS_def UNREGISTERED_METHOD_IS_DRAWER_AFFECTING_def

text \<open>A method is a non-cash drawer method exactly when it is drawer-affecting, is none of the
  two account methods, and is bound to a drawer other than General; the one exception is a code
  unknown to the program while the registry cannot be read, which counts as non-cash although
  its drawer is General.\<close>

theorem non_cash_iff_own_drawer:
  "isNonCashDrawerMethod e db m \<longleftrightarrow>
     isDrawerAffectingMethod e db m \<and> \<not> List.member NON_DRAWER_METHODS m
     \<and> (paymentMethodToDrawerName e db m \<noteq> ''General'' \<or> db = None \<and> \<not> List.member CANONICAL_METHODS m)"
  by (cases db; cases "case db of None \<Rightarrow> None | Some t \<Rightarrow> getByCode e t m")
    (auto simp: drawer_predicates method_tables)


theorem non_cash_iff_own_drawer_witness:
  "isNonCashDrawerMethod shop (Some (seedPaymentMethods shop no_methods)) ''WHISH''
   \<and> \<not> isNonCashDrawerMethod shop (Some (seedPaymentMethods shop no_methods)) ''CASH''
   \<and> isNonCashDrawerMethod shop None ''CHEQUE'' \<and> paymentMethodToDrawerName shop None ''CHEQUE'' = ''General''"
proof -
  let ?t = "Some (seedPaymentMethods shop no_methods)"
  have "isDrawerAffectingMethod shop ?t ''WHISH''" "paymentMethodToDrawerName shop ?t ''WHISH'' \<noteq> ''General''"
    "paymentMethodToDrawerName shop ?t ''CASH'' = ''General''" by code_simp+
  then show ?thesis
    using non_cash_iff_own_drawer [of shop ?t "''WHISH''"] non_cash_iff_own_drawer [of shop ?t "''CASH''"]
      non_cash_iff_own_drawer [of shop None "''CHEQUE''"]
    by (simp add: isDrawerAffectingMethod_def paymentMethodToDrawerName_def method_tables)
qed

section \<open>Deleting a wallet method\<close>

lemma getByCode_deleted:
  assumes "pm_wf t" "m \<in> set (pm_rows t)" "pm_tenant m = tenant e"
  shows "getByCode e (t\<lparr>pm_rows := filter (\<lambda>r. \<not> (pm_id r = pm_id m \<and> pm_tenant r = tenant e)) (pm_rows t)\<rparr>) c
    = (if c = code m then None else getByCode e t c)"
proof -
  have only: "pm_id r = pm_id m \<longleftrightarrow> code r = code m" if "r \<in> set (pm_rows t)" "pm_tenant r = tenant e" for r
  proof
    assume "pm_id r = pm_id m"
    with same_id_same_row [OF assms(1) that(1) assms(2)] show "code r = code m" by simp
  next
    assume "code r = code m"
    with getByCode_row [OF assms(1) that] getByCode_row [OF assms] have "Some r = Some m" by (metis option.inject)
    then show "pm_id r = pm_id m" by simp
  qed
  have "find P (filter (\<lambda>r. \<not> Q r) xs) = find P xs" if "\<And>r. r \<in> set xs \<Longrightarrow> P r \<Longrightarrow> \<not> Q r"
    for P Q and xs :: "PaymentMethodEntity list"
    using that by (induction xs) auto
  note keep = this
  show ?thesis
  proof (cases "c = code m")
    case True
    with only show ?thesis by (auto simp: getByCode_def find_None_iff)
  next
    case False
    have "\<not> (pm_id r = pm_id m \<and> pm_tenant r = tenant e)"
      if "r \<in> set (pm_rows t)" "code r = c \<and> pm_tenant r = tenant e" for r
      using only [OF that(1)] that(2) False by auto
    note keep [OF this]
    with False show ?thesis unfolding getByCode_def by simp
  qed
qed

text \<open>Deleting a built-in method that still has its built-in drawer and moves it (a shop that
  removes its OMT wallet, say) changes no answer: drawer flag, non-cash flag, drawer name and
  cash routing of every method code stay what they were.\<close>

theorem delete_builtin_keeps_routing:
  assumes "pm_wf t" "m \<in> set (pm_rows t)" "pm_tenant m = tenant e"
    and "delete_method e (pm_id m) t = (Inr x, t')"
    and "map_of FALLBACK_DRAWER_MAP (code m) = Some (drawer_name m)" "affects_drawer m = 1"
    and "\<not> List.member NON_DRAWER_METHODS (code m)"
  shows "isDrawerAffectingMethod e (Some t') c = isDrawerAffectingMethod e (Some t) c
    \<and> isNonCashDrawerMethod e (Some t') c = isNonCashDrawerMethod e (Some t) c
    \<and> paymentMethodToDrawerName e (Some t') c = paymentMethodToDrawerName e (Some t) c
    \<and> resolveServiceCashDrawer e (Some t') c ctx = resolveServiceCashDrawer e (Some t) c ctx"
proof -
  have t': "t' = t\<lparr>pm_rows := filter (\<lambda>r. \<not> (pm_id r = pm_id m \<and> pm_tenant r = tenant e)) (pm_rows t)\<rparr>"
    using assms(4) by (auto simp: delete_method_def split: option.splits if_splits)
  have look: "getByCode e t' c = (if c = code m then None else getByCode e t c)" for c
    unfolding t' by (rule getByCode_deleted [OF assms(1-3)])
  have m: "getByCode e t (code m) = Some m" by (rule getByCode_row [OF assms(1-3)])
  have canon: "List.member CANONICAL_METHODS (code m)"
    using map_of_SomeD [OF assms(5)] by (force simp: CANONICAL_METHODS_def)
  have general: "drawer_name m \<noteq> ''General'' \<longleftrightarrow> code m \<noteq> ''CASH''"
    using assms(5,7) by (auto simp: method_tables split: if_splits)
  have a: "isDrawerAffectingMethod e (Some t') c = isDrawerAffectingMethod e (Some t) c" for c
    using assms(6,7) canon m by (cases "c = code m") (simp_all add: isDrawerAffectingMethod_def look)
  have n: "isNonCashDrawerMethod e (Some t') c = isNonCashDrawerMethod e (Some t) c" for c
    using assms(6,7) canon m general by (cases "c = code m") (simp_all add: isNonCashDrawerMethod_def look)
  have d: "paymentMethodToDrawerName e (Some t') c = paymentMethodToDrawerName e (Some t) c" for c
    using assms(5) m by (cases "c = code m") (simp_all add: paymentMethodToDrawerName_def look)
  show ?thesis by (simp add: a n d resolveServiceCashDrawer_def)
qed

definition omt_row :: PaymentMethodEntity where
  "omt_row = \<lparr>pm_id = 2, pm_tenant = 1, code = ''OMT'', label = ''OMT Wallet'', drawer_name = ''OMT_App'',
     affects_drawer = 1, sort_order = 1, is_active = 1, is_system = 0, pm_created_at = ''c''\<rparr>"

theorem delete_builtin_keeps_routing_witness:
  "fst (delete_method shop 2 (seedPaymentMethods shop no_methods)) = Inr 0
   \<and> getByCode shop (snd (delete_method shop 2 (seedPaymentMethods shop no_methods))) ''OMT'' = None
   \<and> paymentMethodToDrawerName shop (Some (snd (delete_method shop 2 (seedPaymentMethods shop no_methods)))) ''OMT''
     = paymentMethodToDrawerName shop (Some (seedPaymentMethods shop no_methods)) ''OMT''"
proof -
  let ?t = "seedPaymentMethods shop no_methods"
  have wf: "pm_wf ?t" using fold_seed_ok [OF no_methods_wf] by (simp add: seedPaymentMethods_def)
  have row: "omt_row \<in> set (pm_rows ?t)" by code_simp
  have del: "fst (delete_method shop 2 ?t) = Inr 0" by code_simp
  then have "delete_method shop (pm_id omt_row) ?t = (Inr 0, snd (delete_method shop 2 ?t))"
    by (simp add: omt_row_def prod_eq_iff)
  from delete_builtin_keeps_routing [OF wf row _ this, of "''OMT''" at_omt]
  have "paymentMethodToDrawerName shop (Some (snd (delete_method shop 2 ?t))) ''OMT''
     = paymentMethodToDrawerName shop (Some ?t) ''OMT''"
    by (simp add: omt_row_def shop_def method_tables)
  moreover have "getByCode shop (snd (delete_method shop 2 ?t)) ''OMT'' = None" by code_simp
  ultimately show ?thesis using del by blast
qed


section \<open>Reordering\<close>

interpretation by_order: js_comparator by_sort_order
  by unfold_locales (auto simp: by_sort_order_def)

fun index_of :: "nat list \<Rightarrow> nat \<Rightarrow> nat" where
  "index_of [] x = 0"
| "index_of (y # ys) x = (if x = y then 0 else 1 + index_of ys x)"

lemma index_of_nth: "x \<in> set xs \<Longrightarrow> index_of xs x < length xs \<and> xs ! index_of xs x = x"
  by (induction xs) auto

lemma reorder_from_rows:
  "distinct is \<Longrightarrow> pm_rows (reorder_from e n is t)
     = map (\<lambda>r. if pm_id r \<in> set is \<and> pm_tenant r = tenant e
                then r\<lparr>sort_order := n + int (index_of is (pm_id r))\<rparr> else r) (pm_rows t)"
proof (induction "is" arbitrary: n t)
  case (Cons i "is")
  then show ?case by (auto simp: algebra_simps)
qed simp

lemma sorted_upto_unique:
  assumes "sorted xs" "distinct xs" "set xs = {0..<int n}"
  shows "xs = map int [0..<n]"
proof (rule sorted_distinct_set_unique [OF assms(1,2)])
  show "sorted (map int [0..<n])" by (simp add: sorted_map)
  show "distinct (map int [0..<n])" by (simp add: distinct_map)
  show "set xs = set (map int [0..<n])"
    using image_int_atLeastLessThan [of 0 n] by (simp add: assms(3))
qed

text \<open>Rows whose sort orders are the positions of their keys in a list are sorted into that list.\<close>

lemma sort_by_position:
  assumes "distinct ids" "length ids = length rs" "distinct (map pm_id rs)"
    and at: "\<And>r. r \<in> set rs \<Longrightarrow> 0 \<le> sort_order r \<and> sort_order r < int (length rs) \<and> pm_id r = ids ! nat (sort_order r)"
  shows "map pm_id (js_sort by_sort_order rs) = ids"
proof -
  let ?L = "js_sort by_sort_order rs"
  have "map (\<lambda>i. ids ! nat i) (map sort_order rs) = map pm_id rs"
    using at by simp
  then have "distinct (map (\<lambda>i. ids ! nat i) (map sort_order rs))" using assms(3) by (simp only:)
  then have "distinct (map sort_order rs)" unfolding distinct_map [of "\<lambda>i. ids ! nat i"] by blast
  moreover have "mset (map sort_order ?L) = mset (map sort_order rs)" by (simp only: mset_map mset_js_sort)
  ultimately have so: "distinct (map sort_order ?L)" using mset_eq_imp_distinct_iff by metis
  have "set (map sort_order ?L) \<subseteq> {0..<int (length rs)}" using at by auto
  moreover have "card (set (map sort_order ?L)) = card {0..<int (length rs)}"
    using distinct_card [OF so] by simp
  ultimately have "set (map sort_order ?L) = {0..<int (length rs)}"
    by (intro card_subset_eq) auto
  moreover have "sorted (map sort_order ?L)"
    using by_order.sorted_js_sort [of rs] unfolding sorted_map by (simp add: by_sort_order_def)
  ultimately have order: "map sort_order ?L = map int [0..<length rs]"
    using so by (intro sorted_upto_unique) auto
  have "pm_id (?L ! j) = ids ! j" if "j < length rs" for j
  proof -
    have "?L ! j \<in> set rs" using nth_mem [of j ?L] that by simp
    moreover have "sort_order (?L ! j) = int j"
      using order that by (metis add_0 nth_map nth_upt diff_zero length_map length_upt length_js_sort)
    ultimately show ?thesis using at by simp
  qed
  with assms(2) show ?thesis by (intro nth_equalityI) simp_all
qed

text \<open>Reordering a tenant's methods by a list of all their ids and reading them back gives the
  methods in exactly that order.\<close>

theorem reorder_then_getAll:
  assumes "pm_wf t" "mset ids = mset (map pm_id (filter (\<lambda>r. pm_tenant r = tenant e) (pm_rows t)))"
  shows "map pm_id (getAll e (reorder e ids t)) = ids"
proof -
  define own where "own = filter (\<lambda>r. pm_tenant r = tenant e) (pm_rows t)"
  define f :: "PaymentMethodEntity \<Rightarrow> PaymentMethodEntity" where "f = (\<lambda>r. r\<lparr>sort_order := int (index_of ids (pm_id r))\<rparr>)"
  have d: "distinct (map pm_id own)" using assms(1) by (auto simp: pm_wf_def own_def distinct_map_filter)
  have ms: "mset ids = mset (map pm_id own)" using assms(2) by (simp add: own_def)
  have ids: "distinct ids" "set ids = pm_id ` set own" "length ids = length own"
    using d mset_eq_imp_distinct_iff [OF ms] mset_eq_setD [OF ms] mset_eq_length [OF ms] by simp_all
  have "filter (\<lambda>r. pm_tenant r = tenant e) (pm_rows (reorder e ids t)) = map f own"
    unfolding own_def reorder_def reorder_from_rows [OF ids(1)] filter_map comp_def
    using ids(2) by (auto simp: own_def f_def intro!: map_cong filter_cong)
  then have "getAll e (reorder e ids t) = js_sort by_sort_order (map f own)" by (simp add: getAll_def)
  moreover have "map pm_id (js_sort by_sort_order (map f own)) = ids"
    using ids d index_of_nth [of _ ids] by (intro sort_by_position) (auto simp: f_def comp_def)
  ultimately show ?thesis by simp
qed

theorem reorder_then_getAll_witness:
  "map pm_id (getAll shop (reorder shop [4, 1, 6, 3, 2, 5] (seedPaymentMethods shop no_methods))) = [4, 1, 6, 3, 2, 5]"
proof (rule reorder_then_getAll)
  show "pm_wf (seedPaymentMethods shop no_methods)"
    using fold_seed_ok [OF no_methods_wf] by (simp add: seedPaymentMethods_def)
  have "map pm_id (filter (\<lambda>r. pm_tenant r = tenant shop) (pm_rows (seedPaymentMethods shop no_methods))) = [1, 2, 3, 4, 5, 6]"
    by code_simp
  then show "mset [4, 1, 6, 3, 2, 5] =
      mset (map pm_id (filter (\<lambda>r. pm_tenant r = tenant shop) (pm_rows (seedPaymentMethods shop no_methods))))"
    by simp
qed

end
