(* ===== verification/Fifo_Queues.thy ===== *)
theory Fifo_Queues
  imports Fifo_Coverage
begin

text \<open>
  Repeated first-in-first-out passes over one queue. Several clients of \<open>allocateFifo\<close> build the
  open rows from a list of keys and an amount left on each, record what was taken and come back
  with the same queue later. The lemmas here describe one pass key by key, and the shape a queue
  keeps through any number of passes: at most its first open key has been touched.
\<close>

section \<open>One pass, key by key\<close>

definition fifo_rows :: "'i list \<Rightarrow> ('i \<Rightarrow> amount) \<Rightarrow> 'i FifoOpenRow list" where
  "fifo_rows is f = map (\<lambda>i. \<lparr>fo_id = i, outstanding = f i\<rparr>) is"

lemma fifo_rows_simps [simp]:
  "fifo_rows [] f = []"
  "map fo_id (fifo_rows is f) = is" "fo_id ` set (fifo_rows is f) = set is"
  by (simp_all add: fifo_rows_def comp_def image_image)

definition drawn :: "'i FifoTake list \<Rightarrow> 'i \<Rightarrow> amount" where
  "drawn ts i = sum_of ft_take (filter (\<lambda>t. ft_id t = i) ts)"

lemma drawn_simps [simp]:
  "drawn [] i = 0" "drawn (t # ts) i = (if ft_id t = i then ft_take t else 0) + drawn ts i"
  "drawn (ts @ us) i = drawn ts i + drawn us i"
  by (simp_all add: drawn_def)

lemma drawn_absent: "i \<notin> ft_id ` set ts \<Longrightarrow> drawn ts i = 0"
  by (induction ts) auto

lemma drawn_nonneg: "(\<And>t. t \<in> set ts \<Longrightarrow> 0 \<le> ft_take t) \<Longrightarrow> 0 \<le> drawn ts i"
  by (auto simp: drawn_def intro: sum_of_nonneg)

lemma drawn_one: "distinct (map ft_id ts) \<Longrightarrow> t \<in> set ts \<Longrightarrow> drawn ts (ft_id t) = ft_take t"
  by (induction ts) (auto simp: drawn_absent)

lemma sum_of_single: "distinct Q \<Longrightarrow> k \<in> set Q \<Longrightarrow> sum_of (\<lambda>i. if k = i then v else 0) Q = (v :: amount)"
  by (induction Q) (auto intro: sum_of_zero)

lemma sum_drawn:
  assumes "distinct Q" "ft_id ` set ts \<subseteq> set Q"
  shows "sum_of (drawn ts) Q = sum_of ft_take ts"
  using assms(2)
proof (induction ts)
  case (Cons t ts)
  have "sum_of (\<lambda>i. if ft_id t = i then ft_take t else 0) Q = ft_take t"
    using assms(1) insertI1 [of "ft_id t" "ft_id ` set ts"] Cons.prems
    by (intro sum_of_single) auto
  with Cons show ?case by (simp add: sum_list_addf)
qed (simp add: sum_of_zero)

abbreviation pass :: "'i list \<Rightarrow> ('i \<Rightarrow> amount) \<Rightarrow> amount \<Rightarrow> amount \<Rightarrow> 'i FifoTake list" where
  "pass Q left b e \<equiv> allocateFifo (fifo_rows Q left) b e"

lemma pass_ids: "ft_id ` set (pass Q left b e) \<subseteq> set Q"
  using fifo.take_ids_subset [of "fifo_rows Q left" b e] by simp

lemma pass_distinct: "distinct Q \<Longrightarrow> distinct (map ft_id (pass Q left b e))"
  using fifo.take_ids_distinct [of "fifo_rows Q left" b e] by simp

lemma pass_take:
  assumes "t \<in> set (pass Q left b e)"
  shows "e < ft_take t" "ft_id t \<in> set Q" "ft_take t \<le> left (ft_id t)"
  using fifo.take_pos [OF assms] fifo.take_from_row [OF assms] by (auto simp: fifo_rows_def)

lemma pass_absent: "i \<notin> set Q \<Longrightarrow> drawn (pass Q left b e) i = 0"
  using pass_ids [of Q left b e] by (intro drawn_absent) auto

lemma pass_bounds:
  assumes "distinct Q" "0 \<le> e" "\<And>i. i \<in> set Q \<Longrightarrow> 0 \<le> left i" "i \<in> set Q"
  shows "0 \<le> drawn (pass Q left b e) i" "drawn (pass Q left b e) i \<le> left i"
proof -
  show "0 \<le> drawn (pass Q left b e) i"
    using pass_take(1) [of _ Q left b e] assms(2) by (intro drawn_nonneg) (meson less_imp_le order_trans)
  show "drawn (pass Q left b e) i \<le> left i"
  proof (cases "i \<in> ft_id ` set (pass Q left b e)")
    case True
    then obtain t where "t \<in> set (pass Q left b e)" "i = ft_id t" by blast
    with pass_take(3) [of t] drawn_one [OF pass_distinct [OF assms(1)]] show ?thesis by metis
  qed (use assms in \<open>simp add: drawn_absent\<close>)
qed

lemma fifo_loop_spent: "b \<le> e \<Longrightarrow> allocateFifo_loop rows b e = []"
  by (cases rows) simp_all

lemma pass_Cons:
  "pass (i # Q) left b e =
     (if b \<le> e then []
      else if min b (left i) \<le> e then pass Q left b e
      else \<lparr>ft_id = i, ft_take = min b (left i)\<rparr> # pass Q left (b - min b (left i)) e)"
  by (auto simp: allocateFifo_def fifo_rows_def Let_def fifo_loop_spent min_le_iff_disj)

lemma pass_Nil [simp]: "allocateFifo [] b e = []"
  by (simp add: allocateFifo_def)

lemma pass_spent: "b \<le> e \<Longrightarrow> pass Q left b e = []"
  by (simp add: allocateFifo_def)

text \<open>After a pass every key up to some point is left with at most the tolerance and every later
  one is as it was.\<close>

fun stepped :: "amount \<Rightarrow> ('i \<Rightarrow> amount) \<Rightarrow> ('i \<Rightarrow> amount) \<Rightarrow> 'i list \<Rightarrow> bool" where
  "stepped e left d [] = True"
| "stepped e left d (i # Q) = ((left i - d i \<le> e \<and> stepped e left d Q) \<or> (\<forall>j \<in> set Q. d j = 0))"

lemma stepped_zero: "\<forall>j \<in> set Q. d j = 0 \<Longrightarrow> stepped e left d Q"
  by (cases Q) auto

lemma stepped_cong:
  "(\<And>i. i \<in> set Q \<Longrightarrow> d i = d' i) \<Longrightarrow> stepped e left d Q = stepped e left d' Q"
  by (induction Q) auto

lemma stepped_mono: "stepped e left d Q \<Longrightarrow> e \<le> e' \<Longrightarrow> stepped e' left d Q"
  by (induction Q) auto

lemma stepped_append: "stepped e left d (Q @ R) \<Longrightarrow> stepped e left d Q \<and> stepped e left d R"
proof (induction Q)
  case (Cons i Q)
  then show ?case by (auto intro: stepped_zero)
qed simp

lemma stepped_filter:
  assumes "stepped e left d (filter P Q)" "\<And>i. i \<in> set Q \<Longrightarrow> \<not> P i \<Longrightarrow> left i \<le> e \<and> d i = 0"
  shows "stepped e left d Q"
  using assms
proof (induction Q)
  case (Cons i Q)
  have *: "left j \<le> e \<and> d j = 0" if "j \<in> set Q" "\<not> P j" for j using Cons.prems(2) that by simp
  show ?case
  proof (cases "P i")
    case True
    with Cons.prems(1) consider "left i - d i \<le> e" "stepped e left d (filter P Q)"
      | "\<forall>j \<in> set (filter P Q). d j = 0" by auto
    then show ?thesis
    proof cases
      case 1
      with Cons.IH [OF 1(2) *] show ?thesis by simp
    next
      case 2
      then have "\<forall>j \<in> set Q. d j = 0" using * by auto
      then show ?thesis by simp
    qed
  next
    case False
    with Cons.prems Cons.IH * show ?thesis by simp
  qed
qed simp

lemma pass_stepped:
  assumes "distinct Q" "0 \<le> e"
  shows "stepped e left (drawn (pass Q left b e)) Q"
  using assms(1)
proof (induction Q arbitrary: b)
  case (Cons i Q)
  then have d: "distinct Q" "i \<notin> set Q" by auto
  show ?case
  proof (cases "b \<le> e \<or> min b (left i) \<le> e")
    case True
    have "stepped e left (drawn (pass Q left b e)) Q" by (rule Cons.IH [OF d(1)])
    with True d(2) show ?thesis by (auto simp: pass_Cons pass_absent min_le_iff_disj pass_spent)
  next
    case False
    let ?m = "min b (left i)" and ?ts = "pass Q left (b - min b (left i)) e"
    have ps: "pass (i # Q) left b e = \<lparr>ft_id = i, ft_take = ?m\<rparr> # ?ts"
      using False by (simp add: pass_Cons)
    have same: "drawn (pass (i # Q) left b e) j = drawn ?ts j" if "j \<in> set Q" for j
      using that d(2) by (auto simp: ps)
    show ?thesis
    proof (cases "left i \<le> b")
      case True
      then have "left i - drawn (pass (i # Q) left b e) i \<le> e"
        using assms(2) d(2) by (simp add: ps pass_absent)
      moreover have "stepped e left (drawn (pass (i # Q) left b e)) Q"
        using Cons.IH [OF d(1), of "b - ?m"]
          stepped_cong [of Q "drawn (pass (i # Q) left b e)" "drawn ?ts" e left] same by blast
      ultimately show ?thesis by simp
    next
      case False
      then have "?ts = []" using assms(2) by (simp add: pass_spent)
      with same show ?thesis by simp
    qed
  qed
qed simp

text \<open>A budget as large as everything left closes the whole queue.\<close>

lemma pass_closes:
  assumes "distinct Q" "0 \<le> e" "\<And>i. i \<in> set Q \<Longrightarrow> 0 \<le> left i" "sum_of left Q \<le> b" "i \<in> set Q"
  shows "left i - drawn (pass Q left b e) i \<le> e"
  using assms(1,3-5)
proof (induction Q arbitrary: b)
  case (Cons k Q)
  then have d: "distinct Q" "k \<notin> set Q" and nn: "\<And>i. i \<in> set Q \<Longrightarrow> 0 \<le> left i" by auto
  have rest: "0 \<le> sum_of left Q" using nn by (rule sum_of_nonneg)
  have kb: "left k \<le> b" "0 \<le> left k" using Cons.prems rest by auto
  have ik: "i = k \<or> i \<in> set Q" using Cons.prems(4) by simp
  show ?case
  proof (cases "b \<le> e \<or> left k \<le> e")
    case True
    show ?thesis
    proof (cases "b \<le> e")
      case be: True
      have "left i \<le> sum_of left (k # Q)" using Cons.prems by (intro member_sum_of_le) auto
      with Cons.prems(3) be show ?thesis by (simp add: pass_spent)
    next
      case False
      with True have ps: "pass (k # Q) left b e = pass Q left b e" using kb by (simp add: pass_Cons min_def)
      from False True Cons.IH [OF d(1) nn, of b] Cons.prems(3) kb ik d(2) show ?thesis
        unfolding ps by (auto simp: pass_absent)
    qed
  next
    case False
    then have ps: "pass (k # Q) left b e = \<lparr>ft_id = k, ft_take = left k\<rparr> # pass Q left (b - left k) e"
      using kb by (simp add: pass_Cons min_def)
    from Cons.IH [OF d(1) nn, of "b - left k"] Cons.prems(3) ik d(2) assms(2) show ?thesis
      unfolding ps by (auto simp: pass_absent)
  qed
qed simp

text \<open>On whole amounts, with a tolerance below one unit, a pass spends exactly the smaller of the
  budget and what is open.\<close>

lemma pass_whole_take:
  assumes "b \<in> \<int>" "\<And>i. i \<in> set Q \<Longrightarrow> left i \<in> \<int>" "t \<in> set (pass Q left b e)"
  shows "ft_take t \<in> \<int>"
  using assms
proof (induction Q arbitrary: b)
  case (Cons i Q)
  have "min b (left i) \<in> \<int>" using Cons.prems by (simp add: min_def)
  then show ?case using Cons.prems Cons.IH [of b] Cons.IH [of "b - min b (left i)"]
    by (auto simp: pass_Cons split: if_splits)
qed simp

lemma Ints_sum_of: "(\<And>x. x \<in> set xs \<Longrightarrow> f x \<in> \<int>) \<Longrightarrow> sum_of f xs \<in> \<int>"
  by (induction xs) auto

lemma Ints_min: "a \<in> \<int> \<Longrightarrow> b \<in> \<int> \<Longrightarrow> min a b \<in> \<int>"
  by (simp add: min_def)

lemma pass_spends:
  assumes "0 \<le> e" "e < 1" "b \<in> \<int>" "0 \<le> b" "\<And>i. i \<in> set Q \<Longrightarrow> left i \<in> \<int> \<and> e < left i"
  shows "sum_of ft_take (pass Q left b e) = min b (sum_of left Q)"
proof -
  let ?s = "sum_of ft_take (pass Q left b e)"
  have "ft_take t \<in> \<int>" if "t \<in> set (pass Q left b e)" for t
    using pass_whole_take [OF assms(3) _ that] assms(5) by simp
  then have "?s \<in> \<int>" by (rule Ints_sum_of)
  then have int: "b - ?s \<in> \<int>" using assms(3) by simp
  have le: "?s \<le> b" by (rule fifo.sum_le [OF assms(1,4)])
  have all: "filter (\<lambda>r. e < outstanding r) (fifo_rows Q left) = fifo_rows Q left"
    using assms(5) by (intro filter_True) (auto simp: fifo_rows_def)
  have out: "sum_of outstanding (fifo_rows Q left) = sum_of left Q" by (simp add: fifo_rows_def comp_def)
  have "max 0 (left i) = left i" if "i \<in> set Q" for i
    using assms(1) assms(5) [OF that] by simp
  then have "sum_of (\<lambda>i. max 0 (left i)) Q = sum_of left Q" by (rule sum_of_cong)
  then have "sum_of (\<lambda>r. max 0 (outstanding r)) (fifo_rows Q left) = sum_of left Q"
    by (simp add: fifo_rows_def comp_def)
  then have le2: "?s \<le> sum_of left Q" using fifo.sum_le_rows [of "fifo_rows Q left" b e] by simp
  from fifo.exhausts [OF assms(1), of b "fifo_rows Q left"] all out
  consider "b - ?s \<le> e" | "?s = sum_of left Q" by auto
  then show ?thesis
  proof cases
    case 1
    from int obtain n where n: "b - ?s = of_int n" by (auto elim: Ints_cases)
    with 1 assms(2) le have "of_int n < (1 :: rat)" "0 \<le> (of_int n :: rat)" by auto
    then have "n = 0" by simp
    with n le2 show ?thesis by simp
  qed (use le in simp)
qed

section \<open>The shape of a queue\<close>

text \<open>Of the open keys only the first may have been touched.\<close>

fun shaped :: "('i \<Rightarrow> bool) \<Rightarrow> ('i \<Rightarrow> amount) \<Rightarrow> 'i list \<Rightarrow> bool" where
  "shaped op tk [] = True"
| "shaped op tk (i # Q) = (if op i then \<forall>j \<in> set Q. op j \<longrightarrow> tk j = 0 else shaped op tk Q)"

lemma shaped_untouched: "\<forall>j \<in> set Q. op j \<longrightarrow> tk j = 0 \<Longrightarrow> shaped op tk Q"
  by (induction Q) auto

lemma shaped_cong:
  "(\<And>i. i \<in> set Q \<Longrightarrow> op i = op' i \<and> tk i = tk' i) \<Longrightarrow> shaped op tk Q = shaped op' tk' Q"
  by (induction Q) auto

lemma shaped_pass:
  assumes "shaped op tk Q" "stepped e left d Q"
    and "\<And>i. i \<in> set Q \<Longrightarrow> op' i \<Longrightarrow> op i \<and> e < left i - d i"
    and "\<And>i. i \<in> set Q \<Longrightarrow> tk' i = tk i + d i"
  shows "shaped op' tk' Q"
  using assms
proof (induction Q)
  case (Cons i Q)
  have st: "(\<And>j. j \<in> set Q \<Longrightarrow> op' j \<Longrightarrow> op j \<and> e < left j - d j)" "(\<And>j. j \<in> set Q \<Longrightarrow> tk' j = tk j + d j)"
    using Cons.prems(3,4) by auto
  show ?case
  proof (cases "op' i")
    case True
    with Cons.prems(3) have "op i" "\<not> left i - d i \<le> e" by force+
    with Cons.prems(1,2) have "\<forall>j \<in> set Q. op j \<longrightarrow> tk j = 0" "\<forall>j \<in> set Q. d j = 0" by auto
    with True st show ?thesis by simp
  next
    case False
    have "shaped op tk Q"
      using Cons.prems(1) by (cases "op i") (auto intro: shaped_untouched)
    moreover have "stepped e left d Q" using Cons.prems(2) by (auto intro: stepped_zero)
    ultimately show ?thesis using Cons.IH st False by simp
  qed
qed simp

lemma shaped_one_touched:
  assumes "shaped op tk Q" "distinct Q"
  shows "length (filter (\<lambda>i. op i \<and> tk i \<noteq> 0) Q) \<le> 1"
  using assms
proof (induction Q)
  case (Cons i Q)
  show ?case
  proof (cases "op i")
    case True
    with Cons.prems(1) have "filter (\<lambda>i. op i \<and> tk i \<noteq> 0) Q = []" by (auto simp: filter_empty_conv)
    then show ?thesis by simp
  qed (use Cons in auto)
qed simp

text \<open>Two shaped queues, one of them without open keys, have one touched open key between them.\<close>

lemma shaped_pair_one_touched:
  assumes "shaped op tk A" "shaped op tk B" "distinct A" "distinct B"
    and "(\<forall>i \<in> set A. \<not> op i) \<or> (\<forall>i \<in> set B. \<not> op i)"
    and "distinct L" "\<And>i. i \<in> set L \<Longrightarrow> op i \<and> tk i \<noteq> 0 \<and> (i \<in> set A \<or> i \<in> set B)"
  shows "length L \<le> 1"
proof -
  obtain Q where Q: "length (filter (\<lambda>i. op i \<and> tk i \<noteq> 0) Q) \<le> 1" "set L \<subseteq> set (filter (\<lambda>i. op i \<and> tk i \<noteq> 0) Q)"
  proof (cases "\<forall>i \<in> set A. \<not> op i")
    case True
    then show ?thesis using that [OF shaped_one_touched [OF assms(2,4)]] assms(7) by auto
  next
    case False
    then have "\<forall>i \<in> set B. \<not> op i" using assms(5) by blast
    then show ?thesis using that [OF shaped_one_touched [OF assms(1,3)]] assms(7) by auto
  qed
  have "length L = card (set L)" using assms(6) by (simp add: distinct_card)
  also have "\<dots> \<le> card (set (filter (\<lambda>i. op i \<and> tk i \<noteq> 0) Q))" using Q(2) by (rule card_mono [OF finite_set])
  also have "\<dots> \<le> length (filter (\<lambda>i. op i \<and> tk i \<noteq> 0) Q)" by (rule card_length)
  finally show ?thesis using Q(1) by simp
qed

end
