(* ===== verification/Account_Settlement.thy ===== *)
theory Account_Settlement
  imports Fifo_Queues Largest_Remainder
begin

text \<open>
  Model of \<open>packages/core/src/utils/accountSettleAllocation.ts\<close>: what a settlement of a supplier
  account closes, one currency at a time (netting of credits against debts, the chosen account
  credit, the money with waive and commission, the classification of the rows and the split of
  the commission). A client of \<open>allocateFifo\<close> and of \<open>allocateProportional\<close>.

  Minor units (cents, whole lira) are amounts that \<open>toMinor\<close> makes whole. The arrays \<open>rem\<close> and
  \<open>takenMinor\<close>, indexed by the position of a row in \<open>all\<close>, are lists; a JavaScript \<open>Map\<close> whose
  entries are read back in insertion order is an association list.
\<close>

section \<open>Data\<close>

datatype AccountSettleRowKind = FINANCIAL_SERVICE | LEDGER

datatype AccountSettleCurrency = SettleUSD | SettleLBP

datatype AccountSettleCoverageSource = NETTING | PAYMENT | COMMISSION | WAIVE

datatype settle_direction = PAY | COLLECT | NONE

record AccountSettleAllocRow =
  ar_kind :: AccountSettleRowKind
  ar_id :: nat
  member_supplier_id :: nat
  ar_created_at :: string
  ar_remaining :: amount
  commission_model1 :: bool
  cashout_commission :: amount
  commission_estimate :: "amount option"
  commission_ticked :: "bool option"

record AccountSettleAllocInput =
  ai_currency :: AccountSettleCurrency
  ai_rows :: "AccountSettleAllocRow list"
  ai_paid :: amount
  ai_commission :: amount
  ai_waive :: amount
  commission_covers :: bool
  commission_split :: "amount option"
  ai_eps :: amount
  account_credits :: "AccountSettleAllocRow list"
  whole_credit :: bool
  credit_used :: amount

record AccountSettleAllocTake =
  at_kind :: AccountSettleRowKind
  at_id :: nat
  at_member :: nat
  at_source :: AccountSettleCoverageSource
  at_amount :: amount

type_synonym AccountSettleAllocRowRef = "AccountSettleRowKind \<times> nat"

record AccountSettleAllocPartial =
  ap_ref :: AccountSettleAllocRowRef
  ap_applied :: amount
  ap_remaining :: amount

record AccountSettleNettingPair =
  credit_member :: nat
  debit_member :: nat
  np_amount :: amount

record AccountSettleAllocResult =
  as_takes :: "AccountSettleAllocTake list"
  as_closed :: "AccountSettleAllocRowRef list"
  as_partial :: "AccountSettleAllocPartial option"
  as_untouched :: "AccountSettleAllocRowRef list"
  netting_pairs :: "AccountSettleNettingPair list"
  as_extra :: amount
  remaining_after :: amount
  commission_alloc :: "(nat \<times> amount) list"
  commission_without_closed_model1 :: bool
  cashout_commission_recognised :: amount
  direction_from_rows :: settle_direction
  credit_used_too_high :: bool
  account_credit_applied :: amount
  account_partial :: "AccountSettleAllocPartial option"

definition KIND_ORDER :: "AccountSettleRowKind \<Rightarrow> rat" where
  "KIND_ORDER k = (case k of FINANCIAL_SERVICE \<Rightarrow> 0 | LEDGER \<Rightarrow> 1)"

definition compareAccountSettleRows :: "AccountSettleAllocRow \<Rightarrow> AccountSettleAllocRow \<Rightarrow> rat" where
  "compareAccountSettleRows a b =
     (if ar_created_at a \<noteq> ar_created_at b then (if ar_created_at a < ar_created_at b then -1 else 1)
      else if ar_kind a \<noteq> ar_kind b then KIND_ORDER (ar_kind a) - KIND_ORDER (ar_kind b)
      else of_nat (ar_id a) - of_nat (ar_id b))"

definition minorFactor :: "AccountSettleCurrency \<Rightarrow> amount" where
  "minorFactor c = (if c = SettleUSD then 100 else 1)"

definition toMinor :: "amount \<Rightarrow> amount \<Rightarrow> amount" where
  "toMinor factor x = of_int (math_round (x * factor))"

definition fromMinor :: "amount \<Rightarrow> amount \<Rightarrow> amount" where
  "fromMinor factor m = (if m = 0 then 0 else m / factor)"

section \<open>The frame of a settlement\<close>

text \<open>The constants the function computes first.\<close>

record settle_frame =
  factor :: amount
  epsMinor :: amount
  all_rows :: "AccountSettleAllocRow list"
  nRows :: nat
  orig :: "amount list"

definition make_frame :: "AccountSettleAllocInput \<Rightarrow> settle_frame" where
  "make_frame inp =
     (let f = minorFactor (ai_currency inp);
          rows = js_sort compareAccountSettleRows (ai_rows inp);
          acct = js_sort compareAccountSettleRows (account_credits inp)
      in \<lparr>factor = f, epsMinor = max (1 / 2) (ai_eps inp * f), all_rows = rows @ acct,
          nRows = length rows, orig = map (\<lambda>r. toMinor f (ar_remaining r)) (rows @ acct)\<rparr>)"

definition indices :: "settle_frame \<Rightarrow> nat list" where
  "indices fr = [0..<length (all_rows fr)]"

definition rowIdx :: "settle_frame \<Rightarrow> nat list" where
  "rowIdx fr = take (nRows fr) (indices fr)"

definition acctIdx :: "settle_frame \<Rightarrow> nat list" where
  "acctIdx fr = drop (nRows fr) (indices fr)"

definition acctDebtIdx :: "settle_frame \<Rightarrow> nat list" where
  "acctDebtIdx fr = filter (\<lambda>i. orig fr ! i > 0) (acctIdx fr)"

definition acctCreditIdx :: "settle_frame \<Rightarrow> nat list" where
  "acctCreditIdx fr = filter (\<lambda>i. orig fr ! i < 0) (acctIdx fr)"

definition scopeIdx :: "settle_frame \<Rightarrow> nat list" where
  "scopeIdx fr = rowIdx fr @ acctDebtIdx fr"

text \<open>The mutable variables: \<open>rem\<close>, \<open>takenMinor\<close>, \<open>takes\<close> and \<open>netPairs\<close>.\<close>

record settle_state =
  rem :: "amount list"
  takenMinor :: "amount list"
  ss_takes :: "(nat \<times> AccountSettleCoverageSource \<times> amount) list"
  netPairs :: "((nat \<times> nat) \<times> amount) list"

definition settle_start :: "settle_frame \<Rightarrow> settle_state" where
  "settle_start fr =
     \<lparr>rem = orig fr, takenMinor = map (\<lambda>_. 0) (all_rows fr), ss_takes = [], netPairs = []\<rparr>"

definition record_take ::
    "settle_frame \<Rightarrow> nat \<Rightarrow> AccountSettleCoverageSource \<Rightarrow> amount \<Rightarrow> settle_state \<Rightarrow> settle_state" where
  "record_take fr i source m s =
     (if m \<le> 0 then s
      else s\<lparr>ss_takes := ss_takes s @ [(i, source, m)],
             takenMinor := (takenMinor s)[i := takenMinor s ! i + m],
             rem := (rem s)[i := rem s ! i + (if orig fr ! i > 0 then - m else m)]\<rparr>)"

section \<open>Netting\<close>

fun add_pair :: "nat \<times> nat \<Rightarrow> amount \<Rightarrow> ((nat \<times> nat) \<times> amount) list \<Rightarrow> ((nat \<times> nat) \<times> amount) list" where
  "add_pair k m [] = [(k, 0 + m)]"
| "add_pair k m (p # ps) = (if fst p = k then (k, snd p + m) # ps else p # add_pair k m ps)"

definition first_take :: "nat FifoTake list \<Rightarrow> amount" where
  "first_take ts = (case ts of [] \<Rightarrow> 0 | t # _ \<Rightarrow> ft_take t)"

text \<open>The pairing loop. The index \<open>d\<close> is the list of the debit takes from \<open>d\<close> on, \<open>c\<close> likewise.
  One of the two is exhausted in every round, since the smaller of \<open>dLeft\<close> and \<open>cLeft\<close> is taken.\<close>

function pair_loop ::
    "settle_frame \<Rightarrow> nat FifoTake list \<Rightarrow> nat FifoTake list \<Rightarrow> amount \<Rightarrow> amount
      \<Rightarrow> ((nat \<times> nat) \<times> amount) list \<Rightarrow> ((nat \<times> nat) \<times> amount) list" where
  "pair_loop fr ds cs dLeft cLeft pairs =
     (if ds = [] \<or> cs = [] then pairs
      else let m = min dLeft cLeft;
               creditMember = member_supplier_id (all_rows fr ! ft_id (hd cs));
               debitMember = member_supplier_id (all_rows fr ! ft_id (hd ds));
               pairs' = (if m > 0 \<and> creditMember \<noteq> debitMember
                         then add_pair (creditMember, debitMember) m pairs else pairs);
               dLeft' = dLeft - m;
               cLeft' = cLeft - m;
               ds' = (if dLeft' \<le> 0 then tl ds else ds);
               cs' = (if cLeft' \<le> 0 then tl cs else cs)
           in pair_loop fr ds' cs' (if dLeft' \<le> 0 then first_take ds' else dLeft')
                (if cLeft' \<le> 0 then first_take cs' else cLeft') pairs')"
  by pat_completeness auto
termination
  by (relation "measure (\<lambda>(fr, ds, cs, dLeft, cLeft, pairs). length ds + length cs)")
    (auto simp: min_def neq_Nil_conv)

declare pair_loop.simps [simp del]

definition record_all ::
    "settle_frame \<Rightarrow> AccountSettleCoverageSource \<Rightarrow> nat FifoTake list \<Rightarrow> settle_state \<Rightarrow> settle_state" where
  "record_all fr source ts s = fold (\<lambda>t. record_take fr (ft_id t) source (ft_take t)) ts s"

definition net ::
    "settle_frame \<Rightarrow> nat list \<Rightarrow> nat list \<Rightarrow> amount option \<Rightarrow> settle_state \<Rightarrow> amount \<times> settle_state" where
  "net fr debtPool creditPool cap s =
     (let debtIdx = filter (\<lambda>i. rem s ! i > epsMinor fr) debtPool;
          creditIdx = filter (\<lambda>i. rem s ! i < - epsMinor fr) creditPool;
          totalDebt = sum_of (\<lambda>i. rem s ! i) debtIdx;
          totalCredit = sum_of (\<lambda>i. - rem s ! i) creditIdx;
          both = min totalDebt totalCredit;
          netting = (case cap of None \<Rightarrow> both | Some c \<Rightarrow> min both c)
      in if netting \<le> 0 then (0, s)
         else let debitTakes = allocateFifo (fifo_rows debtIdx (\<lambda>i. rem s ! i)) netting (1 / 2);
                  creditTakes = allocateFifo (fifo_rows creditIdx (\<lambda>i. - rem s ! i)) netting (1 / 2);
                  s1 = s\<lparr>netPairs := pair_loop fr debitTakes creditTakes (first_take debitTakes)
                           (first_take creditTakes) (netPairs s)\<rparr>
              in (netting, record_all fr NETTING creditTakes (record_all fr NETTING debitTakes s1)))"

definition netted :: "settle_frame \<Rightarrow> settle_state" where
  "netted fr =
     (let s1 = snd (net fr (rowIdx fr) (rowIdx fr) None (settle_start fr));
          s2 = snd (net fr (acctDebtIdx fr) (acctCreditIdx fr) None s1)
      in snd (net fr (acctDebtIdx fr) (rowIdx fr) None s2))"


section \<open>The account credit\<close>

definition owed :: "settle_frame \<Rightarrow> settle_state \<Rightarrow> amount" where
  "owed fr s = sum_of (\<lambda>i. rem s ! i) (scopeIdx fr)"

definition direction_of :: "settle_frame \<Rightarrow> amount \<Rightarrow> settle_direction" where
  "direction_of fr owedAfterNetting =
     (if owedAfterNetting > epsMinor fr then PAY
      else if owedAfterNetting < - epsMinor fr then COLLECT else NONE)"

definition creditUsedMinor :: "settle_frame \<Rightarrow> AccountSettleAllocInput \<Rightarrow> amount" where
  "creditUsedMinor fr inp = \<bar>toMinor (factor fr) (credit_used inp)\<bar>"

definition credit_too_high :: "settle_frame \<Rightarrow> AccountSettleAllocInput \<Rightarrow> settle_state \<Rightarrow> bool" where
  "credit_too_high fr inp s =
     (let creditPoolMinor = sum_of (\<lambda>i. max 0 (- rem s ! i)) (acctCreditIdx fr);
          creditCap = (if direction_of fr (owed fr s) = PAY \<and> \<not> whole_credit inp
                       then min (owed fr s) creditPoolMinor else creditPoolMinor)
      in creditUsedMinor fr inp > creditCap)"

definition use_credit ::
    "settle_frame \<Rightarrow> AccountSettleAllocInput \<Rightarrow> settle_state \<Rightarrow> amount \<times> settle_state" where
  "use_credit fr inp s =
     (if direction_of fr (owed fr s) = PAY \<and> \<not> credit_too_high fr inp s \<and> creditUsedMinor fr inp > 0
      then net fr (scopeIdx fr) (acctCreditIdx fr) (Some (min (creditUsedMinor fr inp) (owed fr s))) s
      else (0, s))"

definition creditForMoneyMinor ::
    "settle_frame \<Rightarrow> AccountSettleAllocInput \<Rightarrow> settle_direction \<Rightarrow> amount \<Rightarrow> amount" where
  "creditForMoneyMinor fr inp dir creditApplied =
     (if dir = PAY
      then (if whole_credit inp then creditUsedMinor fr inp - creditApplied else 0)
      else creditUsedMinor fr inp)"

section \<open>The money\<close>

definition commissionMinor :: "settle_frame \<Rightarrow> AccountSettleAllocInput \<Rightarrow> amount" where
  "commissionMinor fr inp = \<bar>toMinor (factor fr) (ai_commission inp)\<bar>"

definition waiveMinor :: "settle_frame \<Rightarrow> AccountSettleAllocInput \<Rightarrow> settle_direction \<Rightarrow> amount" where
  "waiveMinor fr inp dir =
     \<bar>toMinor (factor fr) (ai_waive inp)\<bar> *
       (if dir = PAY then 1 else if dir = COLLECT then -1
        else if toMinor (factor fr) (ai_paid inp) < 0 then -1 else 1)"

definition commissionCoverMinor :: "settle_frame \<Rightarrow> AccountSettleAllocInput \<Rightarrow> amount" where
  "commissionCoverMinor fr inp = (if commission_covers inp then commissionMinor fr inp else 0)"

definition budget_of :: "settle_frame \<Rightarrow> AccountSettleAllocInput \<Rightarrow> settle_direction \<Rightarrow> amount" where
  "budget_of fr inp dir =
     toMinor (factor fr) (ai_paid inp) + waiveMinor fr inp dir + commissionCoverMinor fr inp"

text \<open>The takes of a budget of sign \<open>sg\<close>: the open rows of that side of the scope, then, for money
  received, up to the chosen part of the account credit. Second component: the account credit
  taken.\<close>

definition budget_takes ::
    "settle_frame \<Rightarrow> amount \<Rightarrow> amount \<Rightarrow> bool \<Rightarrow> amount \<Rightarrow> settle_state \<Rightarrow> nat FifoTake list \<times> amount" where
  "budget_takes fr sg budget tooHigh forMoney s =
     (let targets = filter (\<lambda>i. if sg > 0 then rem s ! i > epsMinor fr else rem s ! i < - epsMinor fr)
                      (scopeIdx fr);
          ts = allocateFifo (fifo_rows targets (\<lambda>i. rem s ! i * sg)) \<bar>budget\<bar> (1 / 2)
      in if sg < 0 \<and> \<not> tooHigh \<and> forMoney > 0
         then let leftOver = \<bar>budget\<bar> - sum_of ft_take ts;
                  cts = allocateFifo (fifo_rows (acctCreditIdx fr) (\<lambda>i. max 0 (- rem s ! i)))
                          (min leftOver forMoney) (1 / 2)
              in (ts @ cts, sum_of ft_take cts)
         else (ts, 0))"

fun tag_takes ::
    "settle_frame \<Rightarrow> nat FifoTake list \<Rightarrow> amount \<Rightarrow> amount \<Rightarrow> settle_state \<Rightarrow> settle_state" where
  "tag_takes fr [] waiveLeft commissionLeft s = s"
| "tag_takes fr (t # ts) waiveLeft commissionLeft s =
     (let i = ft_id t;
          fromWaive = min (ft_take t) waiveLeft;
          left1 = ft_take t - fromWaive;
          fromCommission = min left1 commissionLeft;
          left2 = left1 - fromCommission
      in tag_takes fr ts (waiveLeft - fromWaive) (commissionLeft - fromCommission)
           (record_take fr i PAYMENT left2
             (record_take fr i COMMISSION fromCommission
               (record_take fr i WAIVE fromWaive s))))"

text \<open>Step 2 after the account credit: the amount applied (signed), the account credit the money
  took, and the state.\<close>

definition spend_budget ::
    "settle_frame \<Rightarrow> AccountSettleAllocInput \<Rightarrow> settle_direction \<Rightarrow> bool \<Rightarrow> amount \<Rightarrow> settle_state
      \<Rightarrow> amount \<times> amount \<times> settle_state" where
  "spend_budget fr inp dir tooHigh forMoney s =
     (let budget = budget_of fr inp dir in
      if budget = 0 then (0, 0, s)
      else let sg = (if budget > 0 then 1 else -1);
               (ts, creditTaken) = budget_takes fr sg budget tooHigh forMoney s
           in (sum_of ft_take ts * sg, creditTaken,
               tag_takes fr ts (max 0 (waiveMinor fr inp dir * sg))
                 (if sg > 0 then commissionCoverMinor fr inp else 0) s))"

section \<open>Classification, commission and the result\<close>

definition isZero :: "settle_frame \<Rightarrow> amount \<Rightarrow> bool" where
  "isZero fr m = (\<bar>m\<bar> \<le> epsMinor fr)"

definition row_ref :: "settle_frame \<Rightarrow> nat \<Rightarrow> AccountSettleAllocRowRef" where
  "row_ref fr i = (ar_kind (all_rows fr ! i), ar_id (all_rows fr ! i))"

record settle_classes =
  sc_closed :: "AccountSettleAllocRowRef list"
  sc_untouched :: "AccountSettleAllocRowRef list"
  sc_partial :: "AccountSettleAllocPartial option"
  sc_account_partial :: "AccountSettleAllocPartial option"

fun classify :: "settle_frame \<Rightarrow> settle_state \<Rightarrow> nat list \<Rightarrow> settle_classes \<Rightarrow> settle_classes" where
  "classify fr s [] c = c"
| "classify fr s (i # is) c =
     classify fr s is
       (if isZero fr (rem s ! i) then c\<lparr>sc_closed := sc_closed c @ [row_ref fr i]\<rparr>
        else if takenMinor s ! i = 0 then c\<lparr>sc_untouched := sc_untouched c @ [row_ref fr i]\<rparr>
        else let p = \<lparr>ap_ref = row_ref fr i, ap_applied = fromMinor (factor fr) (takenMinor s ! i),
                      ap_remaining = fromMinor (factor fr) (rem s ! i)\<rparr>
             in if i \<ge> nRows fr
                then (if sc_account_partial c = None then c\<lparr>sc_account_partial := Some p\<rparr> else c)
                else if sc_partial c = None then c\<lparr>sc_partial := Some p\<rparr> else c)"

fun put_amount :: "nat \<Rightarrow> amount \<Rightarrow> (nat \<times> amount) list \<Rightarrow> (nat \<times> amount) list" where
  "put_amount i v [] = [(i, v)]"
| "put_amount i v (p # ps) = (if fst p = i then (i, v) # ps else p # put_amount i v ps)"

definition get_amount :: "(nat \<times> amount) list \<Rightarrow> nat \<Rightarrow> amount" where
  "get_amount m i = (case map_of m i of None \<Rightarrow> 0 | Some v \<Rightarrow> v)"

definition weighted :: "nat list \<Rightarrow> (nat \<Rightarrow> amount) \<Rightarrow> nat WeightedAllocationRow list" where
  "weighted pool w = map (\<lambda>i. \<lparr>wr_id = i, weight = w i\<rparr>) pool"

definition spread ::
    "nat list \<Rightarrow> (nat \<Rightarrow> amount) \<Rightarrow> amount \<Rightarrow> (nat \<times> amount) list \<Rightarrow> (nat \<times> amount) list" where
  "spread pool w tot amounts =
     (if tot \<le> 0 then amounts
      else fold (\<lambda>sh am. put_amount (sh_id sh) (get_amount am (sh_id sh) + sh_amount sh) am)
             (allocateProportional (weighted pool w) (Fin tot) 1) amounts)"

definition splitMinor :: "settle_frame \<Rightarrow> AccountSettleAllocInput \<Rightarrow> amount" where
  "splitMinor fr inp =
     (case commission_split inp of
        Some v \<Rightarrow> if commission_covers inp then \<bar>toMinor (factor fr) v\<bar> else commissionMinor fr inp
      | None \<Rightarrow> commissionMinor fr inp)"

definition model1_idx :: "settle_frame \<Rightarrow> nat list" where
  "model1_idx fr =
     filter (\<lambda>i. i < nRows fr \<and> commission_model1 (all_rows fr ! i) \<and> orig fr ! i \<noteq> 0
                 \<and> commission_ticked (all_rows fr ! i) \<noteq> Some False) (indices fr)"

definition estimate :: "settle_frame \<Rightarrow> nat \<Rightarrow> amount" where
  "estimate fr i =
     \<bar>toMinor (factor fr) (case commission_estimate (all_rows fr ! i) of None \<Rightarrow> 0 | Some v \<Rightarrow> v)\<bar>"

definition covered_amounts :: "settle_frame \<Rightarrow> AccountSettleAllocInput \<Rightarrow> (nat \<times> amount) list" where
  "covered_amounts fr inp =
     (let model1 = model1_idx fr;
          ticked = filter (\<lambda>i. estimate fr i > 0) model1;
          sumEst = sum_of (estimate fr) ticked
      in if ticked = [] then spread model1 (\<lambda>i. \<bar>orig fr ! i\<bar>) (splitMinor fr inp) []
         else if splitMinor fr inp \<le> sumEst then spread ticked (estimate fr) (splitMinor fr inp) []
         else spread ticked (estimate fr) (splitMinor fr inp - sumEst)
                (fold (\<lambda>i am. put_amount i (estimate fr i) am) ticked []))"

definition eligible_idx :: "settle_frame \<Rightarrow> settle_state \<Rightarrow> nat list" where
  "eligible_idx fr s =
     filter (\<lambda>i. isZero fr (rem s ! i) \<and> commission_model1 (all_rows fr ! i) \<and> orig fr ! i > 0) (indices fr)"

text \<open>Step 4: the flag \<open>commission_without_closed_model1\<close> and the allocation.\<close>

definition commission_part ::
    "settle_frame \<Rightarrow> AccountSettleAllocInput \<Rightarrow> settle_state \<Rightarrow> bool \<times> (nat \<times> amount) list" where
  "commission_part fr inp s =
     (if commission_covers inp \<and> commissionMinor fr inp > 0 \<and> splitMinor fr inp = 0 then (False, [])
      else if splitMinor fr inp > 0 \<and> commission_covers inp
      then (if model1_idx fr = [] then (True, [])
            else (False, map (\<lambda>(i, m). (ar_id (all_rows fr ! i), fromMinor (factor fr) m))
                   (js_sort (\<lambda>a b. of_nat (fst a) - of_nat (fst b))
                     (filter (\<lambda>(i, m). m > 0) (covered_amounts fr inp)))))
      else if commissionMinor fr inp > 0
      then (if eligible_idx fr s = [] then (True, [])
            else (False, map (\<lambda>sh. (ar_id (all_rows fr ! sh_id sh), fromMinor (factor fr) (sh_amount sh)))
                   (allocateProportional (weighted (eligible_idx fr s) (\<lambda>i. orig fr ! i))
                     (Fin (commissionMinor fr inp)) 1)))
      else (False, []))"

definition cashoutMinor :: "settle_frame \<Rightarrow> settle_state \<Rightarrow> amount" where
  "cashoutMinor fr s =
     sum_of (\<lambda>i. toMinor (factor fr) (cashout_commission (all_rows fr ! i)))
       (filter (\<lambda>i. isZero fr (rem s ! i) \<and> orig fr ! i < 0) (indices fr))"

definition settle_result ::
    "settle_frame \<Rightarrow> AccountSettleAllocInput \<Rightarrow> settle_direction \<Rightarrow> bool \<Rightarrow> amount \<Rightarrow> amount \<Rightarrow> settle_state
      \<Rightarrow> AccountSettleAllocResult" where
  "settle_result fr inp dir tooHigh extraMinor creditApplied s =
     (let c = classify fr s (indices fr)
                \<lparr>sc_closed = [], sc_untouched = [], sc_partial = None, sc_account_partial = None\<rparr>;
          (lonely, alloc) = commission_part fr inp s
      in \<lparr>as_takes = map (\<lambda>(i, source, m).
             \<lparr>at_kind = ar_kind (all_rows fr ! i), at_id = ar_id (all_rows fr ! i),
              at_member = member_supplier_id (all_rows fr ! i), at_source = source,
              at_amount = fromMinor (factor fr) m\<rparr>) (ss_takes s),
          as_closed = sc_closed c, as_partial = sc_partial c, as_untouched = sc_untouched c,
          netting_pairs = map (\<lambda>(k, m). \<lparr>credit_member = fst k, debit_member = snd k,
                                         np_amount = fromMinor (factor fr) m\<rparr>) (netPairs s),
          as_extra = fromMinor (factor fr) extraMinor,
          remaining_after = fromMinor (factor fr) (owed fr s),
          commission_alloc = alloc, commission_without_closed_model1 = lonely,
          cashout_commission_recognised = fromMinor (factor fr) (cashoutMinor fr s),
          direction_from_rows = dir, credit_used_too_high = tooHigh,
          account_credit_applied = fromMinor (factor fr) creditApplied,
          account_partial = sc_account_partial c\<rparr>)"

text \<open>The state and figures after step 2: direction, refusal flag, account credit applied by
  netting and by the money, the amount the budget applied, and the final state.\<close>

definition settle_run ::
    "settle_frame \<Rightarrow> AccountSettleAllocInput
      \<Rightarrow> settle_direction \<times> bool \<times> amount \<times> amount \<times> settle_state" where
  "settle_run fr inp =
     (let s1 = netted fr;
          dir = direction_of fr (owed fr s1);
          tooHigh = credit_too_high fr inp s1;
          (used, s2) = use_credit fr inp s1;
          (applied, creditTaken, s3) = spend_budget fr inp dir tooHigh (creditForMoneyMinor fr inp dir used) s2
      in (dir, tooHigh, used + creditTaken, applied, s3))"

definition allocateAccountSettlement :: "AccountSettleAllocInput \<Rightarrow> AccountSettleAllocResult" where
  "allocateAccountSettlement inp =
     (let fr = make_frame inp;
          (dir, tooHigh, creditApplied, applied, s) = settle_run fr inp
      in settle_result fr inp dir tooHigh (budget_of fr inp dir - applied) creditApplied s)"

end
