(* ===== verification/Account_Settlement_Safety.thy ===== *)
theory Account_Settlement_Safety
  imports Account_Settlement
begin

text \<open>
  The invariant of an account settlement: what is recorded on a row is what the row lost, never
  more than it had, in whole minor units; the balance of all rows moves by the recorded takes;
  and each of the four queues (day debts, day credits, account debts, account credits) keeps the
  shape of repeated first-in-first-out passes.
\<close>

section \<open>The frame\<close>

abbreviation n_all :: "settle_frame \<Rightarrow> nat" where
  "n_all fr \<equiv> length (all_rows fr)"

definition frame_ok :: "settle_frame \<Rightarrow> bool" where
  "frame_ok fr \<longleftrightarrow> length (orig fr) = n_all fr \<and> nRows fr \<le> n_all fr \<and> 1 / 2 \<le> epsMinor fr
     \<and> 0 < factor fr \<and> (\<forall>i < n_all fr. orig fr ! i \<in> \<int>)"

lemma make_frame_ok: "frame_ok (make_frame inp)"
  by (auto simp: frame_ok_def make_frame_def Let_def minorFactor_def toMinor_def nth_append)

definition signed :: "settle_frame \<Rightarrow> nat \<Rightarrow> amount \<Rightarrow> amount" where
  "signed fr i m = (if orig fr ! i > 0 then m else - m)"

definition recorded :: "settle_frame \<Rightarrow> (AccountSettleCoverageSource \<Rightarrow> bool) \<Rightarrow> settle_state \<Rightarrow> amount" where
  "recorded fr P s = sum_of (\<lambda>(i, source, m). signed fr i m) (filter (\<lambda>(i, source, m). P source) (ss_takes s))"

definition left :: "settle_frame \<Rightarrow> settle_state \<Rightarrow> nat \<Rightarrow> amount" where
  "left fr s i = \<bar>orig fr ! i\<bar> - takenMinor s ! i"

definition is_open :: "settle_frame \<Rightarrow> settle_state \<Rightarrow> nat \<Rightarrow> bool" where
  "is_open fr s i \<longleftrightarrow> epsMinor fr < left fr s i"

section \<open>Recording takes\<close>

definition settle_inv :: "settle_frame \<Rightarrow> settle_state \<Rightarrow> bool" where
  "settle_inv fr s \<longleftrightarrow>
     length (rem s) = n_all fr \<and> length (takenMinor s) = n_all fr
     \<and> (\<forall>i < n_all fr. 0 \<le> takenMinor s ! i \<and> takenMinor s ! i \<le> \<bar>orig fr ! i\<bar> \<and> takenMinor s ! i \<in> \<int>
          \<and> rem s ! i = signed fr i (left fr s i)
          \<and> takenMinor s ! i = sum_of (\<lambda>(j, source, m). m) (filter (\<lambda>(j, source, m). j = i) (ss_takes s)))
     \<and> (\<forall>(i, source, m) \<in> set (ss_takes s). i < n_all fr \<and> 0 < m)
     \<and> sum_list (rem s) = sum_list (orig fr) - recorded fr (\<lambda>_. True) s"

lemma settle_start_inv:
  assumes "frame_ok fr"
  shows "settle_inv fr (settle_start fr)"
  using assms by (auto simp: settle_inv_def settle_start_def recorded_def signed_def left_def frame_ok_def)

lemma record_take_inv:
  assumes fr: "frame_ok fr" and inv: "settle_inv fr s"
    and i: "i < n_all fr" and m: "0 \<le> m" "m \<in> \<int>" "m \<le> left fr s i"
  shows "settle_inv fr (record_take fr i source m s)"
    and "\<And>j. j < n_all fr \<Longrightarrow> takenMinor (record_take fr i source m s) ! j = takenMinor s ! j + (if j = i then m else 0)"
    and "ss_takes (record_take fr i source m s) = ss_takes s @ (if m > 0 then [(i, source, m)] else [])"
proof -
  let ?s = "record_take fr i source m s"
  have len: "length (rem s) = n_all fr" "length (takenMinor s) = n_all fr"
    using inv by (simp_all add: settle_inv_def)
  show tk: "takenMinor ?s ! j = takenMinor s ! j + (if j = i then m else 0)" if "j < n_all fr" for j
    using that m len by (simp add: record_take_def)
  show ts: "ss_takes ?s = ss_takes s @ (if m > 0 then [(i, source, m)] else [])"
    by (simp add: record_take_def)
  show "settle_inv fr ?s"
  proof (cases "m \<le> 0")
    case True
    with inv show ?thesis by (simp add: record_take_def)
  next
    case False
    have rm: "rem ?s ! j = rem s ! j - (if j = i then signed fr i m else 0)" if "j < n_all fr" for j
      using that len False by (simp add: record_take_def signed_def)
    have row: "0 \<le> takenMinor ?s ! j \<and> takenMinor ?s ! j \<le> \<bar>orig fr ! j\<bar> \<and> takenMinor ?s ! j \<in> \<int>
          \<and> rem ?s ! j = signed fr j (left fr ?s j)
          \<and> takenMinor ?s ! j = sum_of (\<lambda>(k, source, m). m) (filter (\<lambda>(k, source, m). k = j) (ss_takes ?s))"
      if j: "j < n_all fr" for j
      using inv j m False unfolding settle_inv_def tk [OF j] rm [OF j] left_def ts
      by (auto simp: left_def signed_def tk [OF j])
    have "sum_list (rem ?s) = sum_list (rem s) - signed fr i m"
      using False len i sum_list_bump [of i "rem s" "- signed fr i m"]
      by (simp add: record_take_def signed_def split: if_splits)
    then have "sum_list (rem ?s) = sum_list (orig fr) - recorded fr (\<lambda>_. True) ?s"
      using inv False by (simp add: settle_inv_def recorded_def ts)
    moreover have "length (rem ?s) = n_all fr" "length (takenMinor ?s) = n_all fr"
      using len by (simp_all add: record_take_def)
    moreover have "\<forall>(i, source, m) \<in> set (ss_takes ?s). i < n_all fr \<and> 0 < m"
      using inv i False by (auto simp: settle_inv_def ts)
    ultimately show ?thesis using row unfolding settle_inv_def by blast
  qed
qed

text \<open>A list of takes on distinct rows, each within what the row has left.\<close>

definition fitting :: "settle_frame \<Rightarrow> settle_state \<Rightarrow> nat FifoTake list \<Rightarrow> bool" where
  "fitting fr s ts \<longleftrightarrow> distinct (map ft_id ts)
     \<and> (\<forall>t \<in> set ts. ft_id t < n_all fr \<and> 0 < ft_take t \<and> ft_take t \<in> \<int> \<and> ft_take t \<le> left fr s (ft_id t))"

definition covers :: "settle_frame \<Rightarrow> settle_state \<Rightarrow> nat FifoTake list \<Rightarrow> settle_state \<Rightarrow> bool" where
  "covers fr s ts s' \<longleftrightarrow> settle_inv fr s'
     \<and> (\<forall>j < n_all fr. takenMinor s' ! j = takenMinor s ! j + drawn ts j)"

lemma fitting_rest:
  assumes "fitting fr s (t # ts)" "covers fr s [t] s'"
  shows "fitting fr s' ts"
proof -
  have "left fr s' (ft_id u) = left fr s (ft_id u)" if "u \<in> set ts" for u
  proof -
    have "ft_id t \<notin> ft_id ` set ts" "ft_id u < n_all fr" using assms(1) that by (simp_all add: fitting_def)
    with that have "ft_id u \<noteq> ft_id t" "ft_id u < n_all fr" by (metis imageI, simp)
    with assms(2) show ?thesis by (simp add: left_def covers_def)
  qed
  with assms(1) show ?thesis by (auto simp: fitting_def)
qed

lemma covers_Cons:
  "covers fr s [t] s' \<Longrightarrow> covers fr s' ts s'' \<Longrightarrow> covers fr s (t # ts) s''"
  by (simp add: covers_def)

lemma fitting_head:
  "fitting fr s (t # ts) \<Longrightarrow> ft_id t < n_all fr \<and> 0 < ft_take t \<and> ft_take t \<in> \<int> \<and> ft_take t \<le> left fr s (ft_id t)"
  by (simp add: fitting_def)

lemma record_all_covers:
  assumes "frame_ok fr" "settle_inv fr s" "fitting fr s ts"
  shows "covers fr s ts (record_all fr source ts s)
    \<and> ss_takes (record_all fr source ts s) = ss_takes s @ map (\<lambda>t. (ft_id t, source, ft_take t)) ts"
  using assms(2,3)
proof (induction ts arbitrary: s)
  case (Cons t ts)
  let ?s = "record_take fr (ft_id t) source (ft_take t) s"
  note h = fitting_head [OF Cons.prems(2)]
  note rt = record_take_inv [OF assms(1) Cons.prems(1), where i = "ft_id t" and m = "ft_take t" and source = source]
  have c1: "covers fr s [t] ?s" using rt(1,2) h by (simp add: covers_def)
  have inv: "settle_inv fr ?s" using rt(1) h by simp
  note ih = Cons.IH [OF inv fitting_rest [OF Cons.prems(2) c1]]
  have "record_all fr source (t # ts) s = record_all fr source ts ?s" by (simp add: record_all_def)
  with covers_Cons [OF c1 conjunct1 [OF ih]] ih rt(3) h show ?case by simp
qed (simp add: record_all_def covers_def)

text \<open>The three records of one budget take add up to the take.\<close>

lemma tag_one:
  assumes fr: "frame_ok fr" and inv: "settle_inv fr s" and i: "i < n_all fr"
    and v: "0 \<le> a" "0 \<le> b" "0 \<le> c" "a \<in> \<int>" "b \<in> \<int>" "c \<in> \<int>" "a + b + c \<le> left fr s i"
  defines "s3 \<equiv> record_take fr i PAYMENT c (record_take fr i COMMISSION b (record_take fr i WAIVE a s))"
  shows "settle_inv fr s3"
    and "j < n_all fr \<Longrightarrow> takenMinor s3 ! j = takenMinor s ! j + (if j = i then a + b + c else 0)"
    and "recorded fr (\<lambda>x. x = NETTING) s3 = recorded fr (\<lambda>x. x = NETTING) s"
proof -
  let ?s1 = "record_take fr i WAIVE a s" and ?s2 = "record_take fr i COMMISSION b (record_take fr i WAIVE a s)"
  note r1 = record_take_inv [OF fr inv i v(1,4), where source = WAIVE]
  have a: "a \<le> left fr s i" using v by linarith
  have l1: "left fr ?s1 i = left fr s i - a" using r1(2) [OF a i] by (simp add: left_def)
  note r2 = record_take_inv [OF fr r1(1) [OF a] i v(2,5), where source = COMMISSION]
  have b: "b \<le> left fr ?s1 i" using v l1 by linarith
  have l2: "left fr ?s2 i = left fr s i - a - b" using r2(2) [OF b i] l1 by (simp add: left_def)
  note r3 = record_take_inv [OF fr r2(1) [OF b] i v(3,6), where source = PAYMENT]
  have c: "c \<le> left fr ?s2 i" using v l2 by linarith
  show "settle_inv fr s3" unfolding s3_def by (rule r3(1) [OF c])
  show "takenMinor s3 ! j = takenMinor s ! j + (if j = i then a + b + c else 0)" if "j < n_all fr"
    unfolding s3_def using r3(2) [OF c that] r2(2) [OF b that] r1(2) [OF a that] by simp
  show "recorded fr (\<lambda>x. x = NETTING) s3 = recorded fr (\<lambda>x. x = NETTING) s"
    unfolding s3_def recorded_def r3(3) [OF c] r2(3) [OF b] r1(3) [OF a] by simp
qed

lemma tag_takes_covers:
  assumes "frame_ok fr" "settle_inv fr s" "fitting fr s ts"
    and "0 \<le> w" "w \<in> \<int>" "0 \<le> cm" "cm \<in> \<int>"
  shows "covers fr s ts (tag_takes fr ts w cm s)
    \<and> recorded fr (\<lambda>x. x = NETTING) (tag_takes fr ts w cm s) = recorded fr (\<lambda>x. x = NETTING) s"
  using assms(2-)
proof (induction ts arbitrary: s w cm)
  case (Cons t ts)
  note h = fitting_head [OF Cons.prems(2)]
  define a where "a = min (ft_take t) w"
  define b where "b = min (ft_take t - a) cm"
  define c where "c = ft_take t - a - b"
  define s3 where "s3 = record_take fr (ft_id t) PAYMENT c (record_take fr (ft_id t) COMMISSION b (record_take fr (ft_id t) WAIVE a s))"
  have ints: "a \<in> \<int>" "b \<in> \<int>" "c \<in> \<int>" "w - a \<in> \<int>" "cm - b \<in> \<int>"
    using h Cons.prems by (simp_all add: a_def b_def c_def min_def)
  have nn: "0 \<le> a" "0 \<le> b" "0 \<le> c" "0 \<le> w - a" "0 \<le> cm - b" "a + b + c = ft_take t"
    using h Cons.prems by (simp_all add: a_def b_def c_def min_def)
  note one = tag_one [OF assms(1) Cons.prems(1) conjunct1 [OF h] nn(1-3) ints(1-3), folded s3_def]
  have le: "a + b + c \<le> left fr s (ft_id t)" using h nn(6) by simp
  have c1: "covers fr s [t] s3" using one(1,2) [OF le] nn(6) by (simp add: covers_def)
  note ih = Cons.IH [OF one(1) [OF le] fitting_rest [OF Cons.prems(2) c1] nn(4) ints(4) nn(5) ints(5)]
  have "tag_takes fr (t # ts) w cm s = tag_takes fr ts (w - a) (cm - b) s3"
    by (simp add: Let_def a_def b_def c_def s3_def)
  with covers_Cons [OF c1 conjunct1 [OF ih]] ih one(3) [OF le] show ?case by simp
qed (simp add: covers_def)


section \<open>The four queues\<close>

definition row_debts :: "settle_frame \<Rightarrow> nat list" where
  "row_debts fr = filter (\<lambda>i. orig fr ! i > 0) (rowIdx fr)"

definition row_credits :: "settle_frame \<Rightarrow> nat list" where
  "row_credits fr = filter (\<lambda>i. orig fr ! i < 0) (rowIdx fr)"

lemma rowIdx_iff: "frame_ok fr \<Longrightarrow> i \<in> set (rowIdx fr) \<longleftrightarrow> i < nRows fr"
  by (auto simp: rowIdx_def indices_def take_upt frame_ok_def)

lemma acctIdx_iff: "i \<in> set (acctIdx fr) \<longleftrightarrow> nRows fr \<le> i \<and> i < n_all fr"
  by (auto simp: acctIdx_def indices_def)

lemma queues_iff:
  assumes "frame_ok fr"
  shows "i \<in> set (row_debts fr) \<longleftrightarrow> i < nRows fr \<and> orig fr ! i > 0"
    "i \<in> set (row_credits fr) \<longleftrightarrow> i < nRows fr \<and> orig fr ! i < 0"
    "i \<in> set (acctDebtIdx fr) \<longleftrightarrow> nRows fr \<le> i \<and> i < n_all fr \<and> orig fr ! i > 0"
    "i \<in> set (acctCreditIdx fr) \<longleftrightarrow> nRows fr \<le> i \<and> i < n_all fr \<and> orig fr ! i < 0"
  using rowIdx_iff [OF assms] by (auto simp: row_debts_def row_credits_def acctDebtIdx_def acctCreditIdx_def acctIdx_iff)

lemma queues_distinct:
  "distinct (row_debts fr)" "distinct (row_credits fr)" "distinct (acctDebtIdx fr)" "distinct (acctCreditIdx fr)"
  by (simp_all add: row_debts_def row_credits_def acctDebtIdx_def acctCreditIdx_def rowIdx_def acctIdx_def indices_def)

definition shapes :: "settle_frame \<Rightarrow> settle_state \<Rightarrow> bool" where
  "shapes fr s \<longleftrightarrow>
     (\<forall>Q \<in> {row_debts fr, row_credits fr, acctDebtIdx fr, acctCreditIdx fr}.
        shaped (is_open fr s) (\<lambda>i. takenMinor s ! i) Q)"

lemma settle_start_shapes: "frame_ok fr \<Longrightarrow> shapes fr (settle_start fr)"
  unfolding shapes_def by (auto intro!: shaped_untouched simp: settle_start_def queues_iff frame_ok_def)

lemma open_iff:
  assumes "frame_ok fr" "settle_inv fr s" "i < n_all fr"
  shows "rem s ! i > epsMinor fr \<longleftrightarrow> orig fr ! i > 0 \<and> is_open fr s i"
    "rem s ! i < - epsMinor fr \<longleftrightarrow> \<not> orig fr ! i > 0 \<and> is_open fr s i"
    "is_open fr s i \<Longrightarrow> orig fr ! i \<noteq> 0"
    "\<bar>rem s ! i\<bar> = left fr s i" "isZero fr (rem s ! i) \<longleftrightarrow> \<not> is_open fr s i"
    "0 \<le> left fr s i" "left fr s i \<in> \<int>"
proof -
  have r: "rem s ! i = signed fr i (left fr s i)" "0 \<le> takenMinor s ! i" "takenMinor s ! i \<le> \<bar>orig fr ! i\<bar>"
    "takenMinor s ! i \<in> \<int>" "orig fr ! i \<in> \<int>" "1 / 2 \<le> epsMinor fr"
    using assms by (auto simp: settle_inv_def frame_ok_def)
  then show nn: "0 \<le> left fr s i" and "left fr s i \<in> \<int>"
    by (auto simp: left_def Ints_abs)
  show "rem s ! i > epsMinor fr \<longleftrightarrow> orig fr ! i > 0 \<and> is_open fr s i"
    "rem s ! i < - epsMinor fr \<longleftrightarrow> \<not> orig fr ! i > 0 \<and> is_open fr s i"
    "\<bar>rem s ! i\<bar> = left fr s i"
    using r(1,6) nn by (auto simp: signed_def is_open_def)
  then show "isZero fr (rem s ! i) \<longleftrightarrow> \<not> is_open fr s i" by (auto simp: isZero_def is_open_def)
  show "is_open fr s i \<Longrightarrow> orig fr ! i \<noteq> 0" using r by (auto simp: is_open_def left_def)
qed

section \<open>Phases\<close>

text \<open>A phase covers a list of takes that is a step of every queue.\<close>

definition phase :: "settle_frame \<Rightarrow> settle_state \<Rightarrow> nat FifoTake list \<Rightarrow> settle_state \<Rightarrow> bool" where
  "phase fr s ts s' \<longleftrightarrow> covers fr s ts s' \<and> (\<forall>j. 0 \<le> drawn ts j)
     \<and> (\<forall>Q \<in> {row_debts fr, row_credits fr, acctDebtIdx fr, acctCreditIdx fr}.
          stepped (epsMinor fr) (left fr s) (drawn ts) Q)"

lemma phase_left: "phase fr s ts s' \<Longrightarrow> i < n_all fr \<Longrightarrow> left fr s' i = left fr s i - drawn ts i"
  by (simp add: phase_def covers_def left_def)

lemma phase_open: "phase fr s ts s' \<Longrightarrow> i < n_all fr \<Longrightarrow> is_open fr s' i \<Longrightarrow> is_open fr s i"
proof -
  assume p: "phase fr s ts s'" and i: "i < n_all fr" and op: "is_open fr s' i"
  have "0 \<le> drawn ts i" using p by (simp add: phase_def)
  with phase_left [OF p i] op show "is_open fr s i" by (simp add: is_open_def)
qed

lemma phase_inv: "phase fr s ts s' \<Longrightarrow> settle_inv fr s'"
  by (simp add: phase_def covers_def)

lemma phase_shapes:
  assumes "frame_ok fr" "phase fr s ts s'" "shapes fr s"
  shows "shapes fr s'"
  unfolding shapes_def
proof
  fix Q assume Q: "Q \<in> {row_debts fr, row_credits fr, acctDebtIdx fr, acctCreditIdx fr}"
  have lt: "i < n_all fr" if "i \<in> set Q" for i
    using that Q queues_iff [OF assms(1)] assms(1) by (auto simp: frame_ok_def)
  show "shaped (is_open fr s') (\<lambda>i. takenMinor s' ! i) Q"
  proof (rule shaped_pass)
    show "shaped (is_open fr s) (\<lambda>i. takenMinor s ! i) Q" using assms(3) Q by (auto simp: shapes_def)
    show "stepped (epsMinor fr) (left fr s) (drawn ts) Q" using assms(2) Q by (auto simp: phase_def)
    show "is_open fr s i \<and> epsMinor fr < left fr s i - drawn ts i" if "i \<in> set Q" "is_open fr s' i" for i
      using phase_open [OF assms(2) lt [OF that(1)] that(2)] phase_left [OF assms(2) lt [OF that(1)]] that(2)
      by (simp add: is_open_def)
    show "takenMinor s' ! i = takenMinor s ! i + drawn ts i" if "i \<in> set Q" for i
      using assms(2) lt [OF that] by (simp add: phase_def covers_def)
  qed
qed

lemma phase_nothing: "settle_inv fr s \<Longrightarrow> phase fr s [] s"
  by (auto simp: phase_def covers_def intro: stepped_zero)

text \<open>A first-in-first-out pass over the open keys of a list of rows.\<close>

lemma pass_open_stepped:
  assumes "frame_ok fr" "distinct Q"
  shows "stepped (epsMinor fr) (left fr s) (drawn (pass (filter (is_open fr s) Q) (left fr s) b (1 / 2))) Q"
proof (rule stepped_filter [where P = "is_open fr s"])
  show "stepped (epsMinor fr) (left fr s) (drawn (pass (filter (is_open fr s) Q) (left fr s) b (1 / 2))) (filter (is_open fr s) Q)"
    using assms by (intro stepped_mono [OF pass_stepped]) (auto simp: frame_ok_def)
qed (auto simp: pass_absent is_open_def)

lemma pass_fitting:
  assumes "frame_ok fr" "settle_inv fr s" "distinct Q" "\<And>i. i \<in> set Q \<Longrightarrow> i < n_all fr" "b \<in> \<int>"
  shows "fitting fr s (pass Q (left fr s) b (1 / 2))"
  unfolding fitting_def
proof (intro conjI ballI)
  show "distinct (map ft_id (pass Q (left fr s) b (1 / 2)))" by (rule pass_distinct [OF assms(3)])
  fix t assume t: "t \<in> set (pass Q (left fr s) b (1 / 2))"
  note pt = pass_take [OF t]
  show "ft_id t < n_all fr" "0 < ft_take t" "ft_take t \<le> left fr s (ft_id t)"
    using pt assms(4) by auto
  show "ft_take t \<in> \<int>"
    by (rule pass_whole_take [OF assms(5) _ t]) (use open_iff(7) [OF assms(1,2)] assms(4) in auto)
qed

lemma fitting_append:
  "fitting fr s ts \<Longrightarrow> fitting fr s us \<Longrightarrow> ft_id ` set ts \<inter> ft_id ` set us = {} \<Longrightarrow> fitting fr s (ts @ us)"
  by (auto simp: fitting_def)

lemma fitting_drawn: "fitting fr s ts \<Longrightarrow> 0 \<le> drawn ts j"
  by (rule drawn_nonneg) (auto simp: fitting_def less_imp_le)

lemma stepped_elsewhere: "ft_id ` set ts \<inter> set Q = {} \<Longrightarrow> stepped e l (drawn ts) Q"
  using drawn_absent [of _ ts] by (intro stepped_zero) blast


section \<open>Netting\<close>

text \<open>The two sides of a netting: lists of debts and of credits among the rows.\<close>

definition sides :: "settle_frame \<Rightarrow> nat list \<Rightarrow> nat list \<Rightarrow> bool" where
  "sides fr D C \<longleftrightarrow> distinct D \<and> distinct C
     \<and> (\<forall>i \<in> set D. i < n_all fr \<and> orig fr ! i > 0) \<and> (\<forall>i \<in> set C. i < n_all fr \<and> orig fr ! i < 0)"

lemma sides_filter:
  assumes fr: "frame_ok fr" "settle_inv fr s" and sd: "sides fr D C"
    and D: "filter (\<lambda>i. orig fr ! i > 0) debtPool = D" and C: "filter (\<lambda>i. orig fr ! i < 0) creditPool = C"
    and lt: "set debtPool \<subseteq> {..<n_all fr}" "set creditPool \<subseteq> {..<n_all fr}"
  shows "filter (\<lambda>i. rem s ! i > epsMinor fr) debtPool = filter (is_open fr s) D"
    "filter (\<lambda>i. rem s ! i < - epsMinor fr) creditPool = filter (is_open fr s) C"
proof -
  show "filter (\<lambda>i. rem s ! i > epsMinor fr) debtPool = filter (is_open fr s) D"
    unfolding D [symmetric] filter_filter using open_iff(1) [OF fr] lt(1) by (intro filter_cong) auto
  have "rem s ! i < - epsMinor fr \<longleftrightarrow> orig fr ! i < 0 \<and> is_open fr s i" if "i \<in> set creditPool" for i
    using open_iff(2,3) [OF fr, of i] lt(2) that by (auto simp: not_less less_le)
  then show "filter (\<lambda>i. rem s ! i < - epsMinor fr) creditPool = filter (is_open fr s) C"
    unfolding C [symmetric] filter_filter by (intro filter_cong) auto
qed

lemma sides_left:
  assumes "frame_ok fr" "settle_inv fr s" "sides fr D C"
  shows "i \<in> set D \<Longrightarrow> rem s ! i = left fr s i" "i \<in> set C \<Longrightarrow> - rem s ! i = left fr s i"
proof -
  have "rem s ! i = signed fr i (left fr s i)" if "i < n_all fr" for i
    using assms(2) that by (simp add: settle_inv_def)
  then show "i \<in> set D \<Longrightarrow> rem s ! i = left fr s i" "i \<in> set C \<Longrightarrow> - rem s ! i = left fr s i"
    using assms(3) by (auto simp: sides_def signed_def)
qed

definition signed_sum :: "settle_frame \<Rightarrow> nat FifoTake list \<Rightarrow> amount" where
  "signed_sum fr ts = sum_of (\<lambda>t. signed fr (ft_id t) (ft_take t)) ts"

lemma signed_sum_side:
  "(\<And>t. t \<in> set ts \<Longrightarrow> orig fr ! ft_id t > 0) \<Longrightarrow> signed_sum fr ts = sum_of ft_take ts"
  "(\<And>t. t \<in> set ts \<Longrightarrow> \<not> orig fr ! ft_id t > 0) \<Longrightarrow> signed_sum fr ts = - sum_of ft_take ts"
  by (induction ts) (auto simp: signed_sum_def signed_def)

definition netting_amount ::
    "settle_frame \<Rightarrow> settle_state \<Rightarrow> nat list \<Rightarrow> nat list \<Rightarrow> amount option \<Rightarrow> amount" where
  "netting_amount fr s D C cap =
     (let both = min (sum_of (left fr s) (filter (is_open fr s) D)) (sum_of (left fr s) (filter (is_open fr s) C))
      in case cap of None \<Rightarrow> both | Some c \<Rightarrow> min both c)"

text \<open>What one call of \<open>net\<close> records: one pass over each side, of the same total.\<close>

lemma net_eq:
  fixes cap :: "amount option"
  assumes fr: "frame_ok fr" "settle_inv fr s" and sd: "sides fr D C"
    and D: "filter (\<lambda>i. orig fr ! i > 0) debtPool = D" and C: "filter (\<lambda>i. orig fr ! i < 0) creditPool = C"
    and lt: "set debtPool \<subseteq> {..<n_all fr}" "set creditPool \<subseteq> {..<n_all fr}"
  defines "N \<equiv> netting_amount fr s D C cap"
  defines "ds \<equiv> pass (filter (is_open fr s) D) (left fr s) N (1 / 2)"
    and "cs \<equiv> pass (filter (is_open fr s) C) (left fr s) N (1 / 2)"
  shows "net fr debtPool creditPool cap s =
    (if N \<le> 0 then (0, s)
     else (N, record_all fr NETTING cs (record_all fr NETTING ds
           (s\<lparr>netPairs := pair_loop fr ds cs (first_take ds) (first_take cs) (netPairs s)\<rparr>))))"
proof -
  note flt = sides_filter [OF fr sd D C lt] and lf = sides_left [OF fr sd]
  have sums: "sum_of (\<lambda>i. rem s ! i) (filter (is_open fr s) D) = sum_of (left fr s) (filter (is_open fr s) D)"
    "sum_of (\<lambda>i. - rem s ! i) (filter (is_open fr s) C) = sum_of (left fr s) (filter (is_open fr s) C)"
    using lf by (auto intro!: sum_of_cong)
  have rows: "fifo_rows (filter (is_open fr s) D) (\<lambda>i. rem s ! i) = fifo_rows (filter (is_open fr s) D) (left fr s)"
    "fifo_rows (filter (is_open fr s) C) (\<lambda>i. - rem s ! i) = fifo_rows (filter (is_open fr s) C) (left fr s)"
    using lf by (auto simp: fifo_rows_def)
  show ?thesis
    unfolding net_def flt Let_def sums rows ds_def cs_def N_def netting_amount_def ..
qed

lemma settle_inv_pairs [simp]:
  "settle_inv fr (s\<lparr>netPairs := ps\<rparr>) = settle_inv fr s" "left fr (s\<lparr>netPairs := ps\<rparr>) = left fr s"
  "fitting fr (s\<lparr>netPairs := ps\<rparr>) ts = fitting fr s ts" "covers fr (s\<lparr>netPairs := ps\<rparr>) ts s' = covers fr s ts s'"
proof -
  show l: "left fr (s\<lparr>netPairs := ps\<rparr>) = left fr s" by (rule ext) (simp add: left_def)
  show "settle_inv fr (s\<lparr>netPairs := ps\<rparr>) = settle_inv fr s"
    unfolding settle_inv_def l by (simp add: recorded_def)
  show "fitting fr (s\<lparr>netPairs := ps\<rparr>) ts = fitting fr s ts" by (simp add: fitting_def l)
  show "covers fr (s\<lparr>netPairs := ps\<rparr>) ts s' = covers fr s ts s'" by (simp add: covers_def)
qed

lemma covers_append: "covers fr s ts s' \<Longrightarrow> covers fr s' us s'' \<Longrightarrow> covers fr s (ts @ us) s''"
  by (simp add: covers_def)

lemma fitting_after:
  assumes "fitting fr s us" "covers fr s ts s'" "ft_id ` set ts \<inter> ft_id ` set us = {}"
  shows "fitting fr s' us"
proof -
  have "left fr s' (ft_id u) = left fr s (ft_id u)" if "u \<in> set us" for u
  proof -
    have "ft_id u \<notin> ft_id ` set ts" "ft_id u < n_all fr" using assms(1,3) that by (auto simp: fitting_def)
    with assms(2) show ?thesis by (simp add: left_def covers_def drawn_absent)
  qed
  with assms(1) show ?thesis by (simp add: fitting_def)
qed


text \<open>Each queue is a segment of one of the two sides or apart from both.\<close>

definition segment :: "nat list \<Rightarrow> nat list \<Rightarrow> bool" where
  "segment Q L \<longleftrightarrow> (\<exists>p r. L = p @ Q @ r)"

definition aligned :: "settle_frame \<Rightarrow> nat list \<Rightarrow> nat list \<Rightarrow> bool" where
  "aligned fr D C \<longleftrightarrow>
     (\<forall>Q \<in> {row_debts fr, row_credits fr, acctDebtIdx fr, acctCreditIdx fr}.
        segment Q D \<or> segment Q C \<or> set Q \<inter> (set D \<union> set C) = {})"

lemma segment_stepped: "segment Q L \<Longrightarrow> stepped e l d L \<Longrightarrow> stepped e l d Q"
  unfolding segment_def using stepped_append by blast

lemma closed_side:
  assumes "frame_ok fr" "settle_inv fr s" "\<And>i. i \<in> set Q \<Longrightarrow> i < n_all fr"
    and "sum_of (left fr s) (filter (is_open fr s) Q) \<le> 0" "i \<in> set Q"
  shows "\<not> is_open fr s i"
proof
  assume "is_open fr s i"
  with assms(5) have i: "i \<in> set (filter (is_open fr s) Q)" by simp
  have "left fr s i \<le> sum_of (left fr s) (filter (is_open fr s) Q)"
    using i open_iff(6) [OF assms(1,2)] assms(3) by (intro member_sum_of_le) auto
  moreover have "0 < epsMinor fr" using assms(1) by (simp add: frame_ok_def)
  ultimately show False using \<open>is_open fr s i\<close> assms(4) by (simp add: is_open_def)
qed

lemma open_sum_whole:
  assumes "frame_ok fr" "settle_inv fr s" "\<And>i. i \<in> set Q \<Longrightarrow> i < n_all fr"
  shows "sum_of (left fr s) (filter (is_open fr s) Q) \<in> \<int>"
  using open_iff(7) [OF assms(1,2)] assms(3) by (intro Ints_sum_of) auto

lemma pass_open_spends:
  assumes "frame_ok fr" "settle_inv fr s" "\<And>i. i \<in> set Q \<Longrightarrow> i < n_all fr" "b \<in> \<int>" "0 \<le> b"
  shows "sum_of ft_take (pass (filter (is_open fr s) Q) (left fr s) b (1 / 2))
    = min b (sum_of (left fr s) (filter (is_open fr s) Q))"
proof (rule pass_spends)
  fix i assume "i \<in> set (filter (is_open fr s) Q)"
  with open_iff(7) [OF assms(1,2)] assms(1,3) show "left fr s i \<in> \<int> \<and> 1 / 2 < left fr s i"
    by (auto simp: is_open_def frame_ok_def)
qed (use assms in auto)

lemma pass_open_closes:
  assumes "frame_ok fr" "settle_inv fr s" "distinct Q" "\<And>i. i \<in> set Q \<Longrightarrow> i < n_all fr"
    and "sum_of (left fr s) (filter (is_open fr s) Q) \<le> b" "i \<in> set Q"
  shows "left fr s i - drawn (pass (filter (is_open fr s) Q) (left fr s) b (1 / 2)) i \<le> epsMinor fr"
proof (cases "is_open fr s i")
  case True
  have "left fr s i - drawn (pass (filter (is_open fr s) Q) (left fr s) b (1 / 2)) i \<le> 1 / 2"
    using assms True open_iff(6) [OF assms(1,2)] by (intro pass_closes) auto
  also have "\<dots> \<le> epsMinor fr" using assms(1) by (simp add: frame_ok_def)
  finally show ?thesis .
next
  case False
  then show ?thesis by (simp add: pass_absent is_open_def)
qed

text \<open>Two passes of the same budget, one over each side, recorded one after the other.\<close>

lemma two_passes:
  fixes N ps
  assumes fr: "frame_ok fr" "settle_inv fr s" and sd: "sides fr D C" "aligned fr D C" and N: "N \<in> \<int>"
  defines "ds \<equiv> pass (filter (is_open fr s) D) (left fr s) N (1 / 2)"
    and "cs \<equiv> pass (filter (is_open fr s) C) (left fr s) N (1 / 2)"
  defines "s' \<equiv> record_all fr NETTING cs (record_all fr NETTING ds (s\<lparr>netPairs := ps\<rparr>))"
  shows "phase fr s (ds @ cs) s'"
    and "ss_takes s' = ss_takes s @ map (\<lambda>t. (ft_id t, NETTING, ft_take t)) (ds @ cs)"
    and "\<And>i. i \<in> set D \<Longrightarrow> drawn (ds @ cs) i = drawn ds i" "\<And>i. i \<in> set C \<Longrightarrow> drawn (ds @ cs) i = drawn cs i"
    and "\<And>t. t \<in> set ds \<Longrightarrow> orig fr ! ft_id t > 0" "\<And>t. t \<in> set cs \<Longrightarrow> \<not> orig fr ! ft_id t > 0"
proof -
  let ?s1 = "record_all fr NETTING ds (s\<lparr>netPairs := ps\<rparr>)"
  have ids: "ft_id ` set ds \<subseteq> set D" "ft_id ` set cs \<subseteq> set C"
    using pass_ids [of "filter (is_open fr s) D" "left fr s" N "1 / 2", folded ds_def]
      pass_ids [of "filter (is_open fr s) C" "left fr s" N "1 / 2", folded cs_def] by auto
  have apart: "set D \<inter> set C = {}" using sd(1) by (force simp: sides_def)
  have fd: "fitting fr s ds" "fitting fr s cs"
    unfolding ds_def cs_def using sd(1) N by (auto intro!: pass_fitting [OF fr] simp: sides_def)
  have disj: "ft_id ` set ds \<inter> ft_id ` set cs = {}" using ids apart by blast
  have inv0: "settle_inv fr (s\<lparr>netPairs := ps\<rparr>)" and fd0: "fitting fr (s\<lparr>netPairs := ps\<rparr>) ds"
    using fr(2) fd(1) by simp_all
  from record_all_covers [OF fr(1) inv0 fd0, of NETTING]
  have c1: "covers fr s ds ?s1" and t1: "ss_takes ?s1 = ss_takes s @ map (\<lambda>t. (ft_id t, NETTING, ft_take t)) ds"
    by simp_all
  have inv1: "settle_inv fr ?s1" using c1 by (simp add: covers_def)
  note rc = record_all_covers [OF fr(1) inv1 fitting_after [OF fd(2) c1 disj], of NETTING, folded s'_def]
  have c2: "covers fr s (ds @ cs) s'" by (rule covers_append [OF c1 conjunct1 [OF rc]])
  show "ss_takes s' = ss_takes s @ map (\<lambda>t. (ft_id t, NETTING, ft_take t)) (ds @ cs)"
    using rc t1 by simp
  show dD: "drawn (ds @ cs) i = drawn ds i" if "i \<in> set D" for i
    using that ids(2) apart by (auto intro!: drawn_absent)
  show dC: "drawn (ds @ cs) i = drawn cs i" if "i \<in> set C" for i
    using that ids(1) apart by (auto intro!: drawn_absent)
  show "orig fr ! ft_id t > 0" if "t \<in> set ds" for t using that ids(1) sd(1) by (auto simp: sides_def)
  show "\<not> orig fr ! ft_id t > 0" if "t \<in> set cs" for t using that ids(2) sd(1) by (force simp: sides_def)
  have dst: "distinct D" "distinct C" using sd(1) by (simp_all add: sides_def)
  have stD: "stepped (epsMinor fr) (left fr s) (drawn (ds @ cs)) D"
    using stepped_cong [of D "drawn (ds @ cs)" "drawn ds" "epsMinor fr" "left fr s"] dD
      pass_open_stepped [OF fr(1) dst(1), of s N, folded ds_def] by blast
  have stC: "stepped (epsMinor fr) (left fr s) (drawn (ds @ cs)) C"
    using stepped_cong [of C "drawn (ds @ cs)" "drawn cs" "epsMinor fr" "left fr s"] dC
      pass_open_stepped [OF fr(1) dst(2), of s N, folded cs_def] by blast
  have "stepped (epsMinor fr) (left fr s) (drawn (ds @ cs)) Q"
    if "Q \<in> {row_debts fr, row_credits fr, acctDebtIdx fr, acctCreditIdx fr}" for Q
  proof -
    from sd(2) that have "segment Q D \<or> segment Q C \<or> set Q \<inter> (set D \<union> set C) = {}" unfolding aligned_def by blast
    then show ?thesis
    proof (elim disjE)
      assume "set Q \<inter> (set D \<union> set C) = {}"
      with ids have "ft_id ` set (ds @ cs) \<inter> set Q = {}" by auto
      then show ?thesis by (rule stepped_elsewhere)
    qed (auto intro: segment_stepped stD stC)
  qed
  moreover have "0 \<le> drawn (ds @ cs) j" for j using fitting_drawn [OF fd(1)] fitting_drawn [OF fd(2)] by simp
  ultimately show "phase fr s (ds @ cs) s'" using c2 unfolding phase_def by blast
qed

lemma net_phase:
  assumes fr: "frame_ok fr" "settle_inv fr s" and sd: "sides fr D C" "aligned fr D C"
    and D: "filter (\<lambda>i. orig fr ! i > 0) debtPool = D" and C: "filter (\<lambda>i. orig fr ! i < 0) creditPool = C"
    and lt: "set debtPool \<subseteq> {..<n_all fr}" "set creditPool \<subseteq> {..<n_all fr}"
    and cap: "\<And>c. cap = Some c \<Longrightarrow> c \<in> \<int>"
  defines "s' \<equiv> snd (net fr debtPool creditPool cap s)"
  shows "\<exists>ts. phase fr s ts s' \<and> signed_sum fr ts = 0
    \<and> ss_takes s' = ss_takes s @ map (\<lambda>t. (ft_id t, NETTING, ft_take t)) ts
    \<and> (cap = None \<longrightarrow> (\<forall>i \<in> set D. \<not> is_open fr s' i) \<or> (\<forall>i \<in> set C. \<not> is_open fr s' i))"
proof -
  define N where "N = netting_amount fr s D C cap"
  define SD where "SD = sum_of (left fr s) (filter (is_open fr s) D)"
  define SC where "SC = sum_of (left fr s) (filter (is_open fr s) C)"
  define ds where "ds = pass (filter (is_open fr s) D) (left fr s) N (1 / 2)"
  define cs where "cs = pass (filter (is_open fr s) C) (left fr s) N (1 / 2)"
  note eq = net_eq [OF fr sd(1) D C lt, of cap, folded N_def, folded ds_def cs_def]
  have ltD: "\<And>i. i \<in> set D \<Longrightarrow> i < n_all fr" and ltC: "\<And>i. i \<in> set C \<Longrightarrow> i < n_all fr"
    and dst: "distinct D" "distinct C" using sd(1) by (auto simp: sides_def)
  have N: "N = (case cap of None \<Rightarrow> min SD SC | Some c \<Rightarrow> min (min SD SC) c)"
    unfolding N_def netting_amount_def SD_def SC_def Let_def ..
  then have Nle: "N \<le> SD" "N \<le> SC" by (auto split: option.splits)
  have ints: "SD \<in> \<int>" "SC \<in> \<int>" unfolding SD_def SC_def
    using open_sum_whole [OF fr ltD] open_sum_whole [OF fr ltC] by simp_all
  have NI: "N \<in> \<int>"
    using ints cap unfolding N by (cases cap) (simp_all add: min_def)
  show ?thesis
  proof (cases "N \<le> 0")
    case True
    then have s': "s' = s" by (simp add: s'_def eq)
    have "(\<forall>i \<in> set D. \<not> is_open fr s i) \<or> (\<forall>i \<in> set C. \<not> is_open fr s i)" if "cap = None"
    proof -
      have "SD \<le> 0 \<or> SC \<le> 0" using True N that by (simp add: min_le_iff_disj)
      with closed_side [OF fr ltD] closed_side [OF fr ltC] show ?thesis unfolding SD_def SC_def by blast
    qed
    with phase_nothing [OF fr(2)] show ?thesis
      unfolding s' by (intro exI [of _ "[]"]) (simp add: signed_sum_def)
  next
    case False
    define ps where "ps = pair_loop fr ds cs (first_take ds) (first_take cs) (netPairs s)"
    have s': "s' = record_all fr NETTING cs (record_all fr NETTING ds (s\<lparr>netPairs := ps\<rparr>))"
      using False by (simp add: s'_def eq ps_def)
    note two = two_passes(1,2) [OF fr sd NI, where ps = ps, folded ds_def cs_def, folded s']
      two_passes(3-6) [OF fr sd NI, folded ds_def cs_def]
    have "sum_of ft_take ds = N" "sum_of ft_take cs = N"
      using pass_open_spends [OF fr ltD NI] pass_open_spends [OF fr ltC NI] False Nle
      by (simp_all add: ds_def cs_def SD_def SC_def)
    with signed_sum_side(1) [OF two(5)] signed_sum_side(2) [OF two(6)] have "signed_sum fr (ds @ cs) = 0"
      by (simp add: signed_sum_def)
    moreover have "(\<forall>i \<in> set D. \<not> is_open fr s' i) \<or> (\<forall>i \<in> set C. \<not> is_open fr s' i)" if "cap = None"
    proof -
      have closed: "\<not> is_open fr s' i" if "left fr s i - drawn (ds @ cs) i \<le> epsMinor fr" "i < n_all fr" for i
        using phase_left [OF two(1) that(2)] that(1) by (simp add: is_open_def)
      from that N have "SD \<le> N \<or> SC \<le> N" by (simp add: min_def)
      then show ?thesis
      proof
        assume "SD \<le> N"
        then have "\<forall>i \<in> set D. \<not> is_open fr s' i"
          using pass_open_closes [OF fr dst(1) ltD, of N, folded ds_def SD_def] two(3) ltD closed by simp
        then show ?thesis ..
      next
        assume "SC \<le> N"
        then have "\<forall>i \<in> set C. \<not> is_open fr s' i"
          using pass_open_closes [OF fr dst(2) ltC, of N, folded cs_def SC_def] two(4) ltC closed by simp
        then show ?thesis ..
      qed
    qed
    ultimately show ?thesis using two(1,2) by blast
  qed
qed

end
