(* ===== verification/Account_Settlement_Properties.thy ===== *)
theory Account_Settlement_Properties
  imports Account_Settlement_Safety
begin

text \<open>
  Correctness of the account settlement: no row is covered beyond what it owed, the books
  balance (netting is neutral, money and waive and commission explain the rest, extra is what
  no row could take), every row is reported in exactly one class, and the commission is split
  to the last minor unit.
\<close>

section \<open>The phases of a settlement\<close>

lemmas queue_facts = queues_iff queues_distinct

lemma scope_debts: "filter (\<lambda>i. orig fr ! i > 0) (scopeIdx fr) = row_debts fr @ acctDebtIdx fr"
  by (auto simp: scopeIdx_def row_debts_def acctDebtIdx_def)

lemma scope_credits: "filter (\<lambda>i. orig fr ! i < 0) (scopeIdx fr) = row_credits fr"
  by (auto simp: scopeIdx_def row_credits_def acctDebtIdx_def filter_empty_conv)

lemma acct_debts: "filter (\<lambda>i. orig fr ! i > 0) (acctDebtIdx fr) = acctDebtIdx fr"
  by (simp add: acctDebtIdx_def)

lemma acct_credits: "filter (\<lambda>i. orig fr ! i < 0) (acctCreditIdx fr) = acctCreditIdx fr"
  by (simp add: acctCreditIdx_def)

lemma pools_below:
  assumes "frame_ok fr"
  shows "set (rowIdx fr) \<subseteq> {..<n_all fr}" "set (acctDebtIdx fr) \<subseteq> {..<n_all fr}"
    "set (acctCreditIdx fr) \<subseteq> {..<n_all fr}" "set (scopeIdx fr) \<subseteq> {..<n_all fr}"
  using assms queues_iff [OF assms] rowIdx_iff [OF assms] by (auto simp: frame_ok_def scopeIdx_def)

lemma segment_intros: "segment Q Q" "segment Q (Q @ R)" "segment R (Q @ R)"
  unfolding segment_def by (metis append_Nil append_Nil2, metis append_Nil, metis append_Nil2)

lemma sides_of_nettings:
  assumes "frame_ok fr"
  shows "sides fr (row_debts fr) (row_credits fr)" "sides fr (acctDebtIdx fr) (acctCreditIdx fr)"
    "sides fr (acctDebtIdx fr) (row_credits fr)" "sides fr (row_debts fr @ acctDebtIdx fr) (acctCreditIdx fr)"
  using assms queues_iff [OF assms] by (auto simp: sides_def queues_distinct frame_ok_def)

lemma aligned_nettings:
  assumes "frame_ok fr"
  shows "aligned fr (row_debts fr) (row_credits fr)" "aligned fr (acctDebtIdx fr) (acctCreditIdx fr)"
    "aligned fr (acctDebtIdx fr) (row_credits fr)" "aligned fr (row_debts fr @ acctDebtIdx fr) (acctCreditIdx fr)"
  using queues_iff [OF assms] segment_intros unfolding aligned_def by (auto simp: set_eq_iff)

definition one_sided :: "settle_frame \<Rightarrow> settle_state \<Rightarrow> bool" where
  "one_sided fr s \<longleftrightarrow>
     ((\<forall>i \<in> set (row_debts fr). \<not> is_open fr s i) \<or> (\<forall>i \<in> set (row_credits fr). \<not> is_open fr s i))
     \<and> ((\<forall>i \<in> set (acctDebtIdx fr). \<not> is_open fr s i) \<or> (\<forall>i \<in> set (acctCreditIdx fr). \<not> is_open fr s i))"

text \<open>What holds after the nettings and stays true: nothing but netting has been recorded and it is
  neutral.\<close>

definition netted_ok :: "settle_frame \<Rightarrow> settle_state \<Rightarrow> bool" where
  "netted_ok fr s \<longleftrightarrow> settle_inv fr s \<and> shapes fr s \<and> recorded fr (\<lambda>x. x = NETTING) s = 0
     \<and> (\<forall>(i, source, m) \<in> set (ss_takes s). source = NETTING)"

lemma recorded_netting:
  assumes "ss_takes s' = ss_takes s @ map (\<lambda>t. (ft_id t, NETTING, ft_take t)) ts"
  shows "recorded fr (\<lambda>x. x = NETTING) s' = recorded fr (\<lambda>x. x = NETTING) s + signed_sum fr ts"
proof -
  have "filter (\<lambda>(i, x, m). x = NETTING) (map (\<lambda>t. (ft_id t, NETTING, ft_take t)) ts)
      = map (\<lambda>t. (ft_id t, NETTING, ft_take t)) ts" by (simp add: filter_map comp_def)
  then show ?thesis by (simp add: recorded_def assms signed_sum_def comp_def)
qed

lemma net_ok:
  assumes fr: "frame_ok fr" and ok: "netted_ok fr s" and sd: "sides fr D C" "aligned fr D C"
    and D: "filter (\<lambda>i. orig fr ! i > 0) debtPool = D" and C: "filter (\<lambda>i. orig fr ! i < 0) creditPool = C"
    and lt: "set debtPool \<subseteq> {..<n_all fr}" "set creditPool \<subseteq> {..<n_all fr}"
    and cap: "\<And>c. cap = Some c \<Longrightarrow> c \<in> \<int>"
  defines "s' \<equiv> snd (net fr debtPool creditPool cap s)"
  shows "netted_ok fr s'" "\<And>i. i < n_all fr \<Longrightarrow> is_open fr s' i \<Longrightarrow> is_open fr s i"
    "cap = None \<Longrightarrow> (\<forall>i \<in> set D. \<not> is_open fr s' i) \<or> (\<forall>i \<in> set C. \<not> is_open fr s' i)"
proof -
  have inv: "settle_inv fr s" using ok by (simp add: netted_ok_def)
  have "\<exists>ts. phase fr s ts s' \<and> signed_sum fr ts = 0
    \<and> ss_takes s' = ss_takes s @ map (\<lambda>t. (ft_id t, NETTING, ft_take t)) ts
    \<and> (cap = None \<longrightarrow> (\<forall>i \<in> set D. \<not> is_open fr s' i) \<or> (\<forall>i \<in> set C. \<not> is_open fr s' i))"
    unfolding s'_def by (rule net_phase [OF fr inv sd D C lt]) (rule cap)
  then obtain ts where ph: "phase fr s ts s'"
    and z: "signed_sum fr ts = 0" and tk: "ss_takes s' = ss_takes s @ map (\<lambda>t. (ft_id t, NETTING, ft_take t)) ts"
    and cl: "cap = None \<longrightarrow> (\<forall>i \<in> set D. \<not> is_open fr s' i) \<or> (\<forall>i \<in> set C. \<not> is_open fr s' i)" by blast
  show "netted_ok fr s'"
    using ok phase_inv [OF ph] phase_shapes [OF fr ph] recorded_netting [OF tk] z
    by (auto simp: netted_ok_def tk)
  show "is_open fr s i" if "i < n_all fr" "is_open fr s' i" for i by (rule phase_open [OF ph that])
  show "cap = None \<Longrightarrow> (\<forall>i \<in> set D. \<not> is_open fr s' i) \<or> (\<forall>i \<in> set C. \<not> is_open fr s' i)" using cl by blast
qed

lemma queue_below:
  assumes "frame_ok fr"
  shows "i \<in> set (row_debts fr) \<Longrightarrow> i < n_all fr" "i \<in> set (row_credits fr) \<Longrightarrow> i < n_all fr"
    "i \<in> set (acctDebtIdx fr) \<Longrightarrow> i < n_all fr" "i \<in> set (acctCreditIdx fr) \<Longrightarrow> i < n_all fr"
  using assms queues_iff [OF assms] by (auto simp: frame_ok_def)

lemma one_sided_mono:
  assumes "frame_ok fr" "one_sided fr s" "\<And>i. i < n_all fr \<Longrightarrow> is_open fr s' i \<Longrightarrow> is_open fr s i"
  shows "one_sided fr s'"
  using assms(2,3) queue_below [OF assms(1)] unfolding one_sided_def by meson

lemma netted_spec:
  assumes fr: "frame_ok fr"
  shows "netted_ok fr (netted fr) \<and> one_sided fr (netted fr)"
proof -
  define s1 where "s1 = snd (net fr (rowIdx fr) (rowIdx fr) None (settle_start fr))"
  define s2 where "s2 = snd (net fr (acctDebtIdx fr) (acctCreditIdx fr) None s1)"
  have n: "netted fr = snd (net fr (acctDebtIdx fr) (rowIdx fr) None s2)"
    by (simp add: netted_def s1_def s2_def Let_def)
  have ok0: "netted_ok fr (settle_start fr)"
    using settle_start_inv [OF fr] settle_start_shapes [OF fr]
    by (simp add: netted_ok_def settle_start_def recorded_def)
  note pb = pools_below [OF fr]
  have d1: "filter (\<lambda>i. orig fr ! i > 0) (rowIdx fr) = row_debts fr" "filter (\<lambda>i. orig fr ! i < 0) (rowIdx fr) = row_credits fr"
    by (simp_all add: row_debts_def row_credits_def)
  note n1 = net_ok [OF fr ok0 sides_of_nettings(1) [OF fr] aligned_nettings(1) [OF fr] d1 pb(1,1),
      of None, folded s1_def]
  have ok1: "netted_ok fr s1" by (rule n1(1)) simp
  note n2 = net_ok [OF fr ok1 sides_of_nettings(2) [OF fr] aligned_nettings(2) [OF fr] acct_debts acct_credits pb(2,3),
      of None, folded s2_def]
  have ok2: "netted_ok fr s2" by (rule n2(1)) simp
  note n3 = net_ok [OF fr ok2 sides_of_nettings(3) [OF fr] aligned_nettings(3) [OF fr] acct_debts d1(2) pb(2,1),
      of None, folded n]
  have "(\<forall>i \<in> set (row_debts fr). \<not> is_open fr s1 i) \<or> (\<forall>i \<in> set (row_credits fr). \<not> is_open fr s1 i)"
    by (rule n1(3)) simp_all
  moreover have "(\<forall>i \<in> set (acctDebtIdx fr). \<not> is_open fr s2 i) \<or> (\<forall>i \<in> set (acctCreditIdx fr). \<not> is_open fr s2 i)"
    by (rule n2(3)) simp_all
  moreover have "is_open fr s1 i" if "i < n_all fr" "is_open fr s2 i" for i using n2(2) that by simp
  ultimately have "one_sided fr s2"
    unfolding one_sided_def using queue_below [OF fr] by meson
  then have "one_sided fr (netted fr)" by (rule one_sided_mono [OF fr]) (use n3(2) in simp)
  moreover have "netted_ok fr (netted fr)" by (rule n3(1)) simp
  ultimately show ?thesis by simp
qed

lemma whole_minor [simp]: "toMinor f x \<in> \<int>"
  by (simp add: toMinor_def)

lemma owed_whole:
  assumes "frame_ok fr" "settle_inv fr s"
  shows "owed fr s \<in> \<int>" "min (creditUsedMinor fr inp) (owed fr s) \<in> \<int>"
proof -
  have "rem s ! i \<in> \<int>" if "i < n_all fr" for i
    using open_iff(7) [OF assms that] assms(2) that by (auto simp: settle_inv_def signed_def)
  then show "owed fr s \<in> \<int>" unfolding owed_def
    using pools_below(4) [OF assms(1)] by (intro Ints_sum_of) auto
  then show "min (creditUsedMinor fr inp) (owed fr s) \<in> \<int>"
    by (intro Ints_min) (simp_all add: creditUsedMinor_def Ints_abs)
qed

lemma use_credit_spec:
  assumes fr: "frame_ok fr" and ok: "netted_ok fr s" and os: "one_sided fr s"
  shows "netted_ok fr (snd (use_credit fr inp s)) \<and> one_sided fr (snd (use_credit fr inp s))"
proof (cases "direction_of fr (owed fr s) = PAY \<and> \<not> credit_too_high fr inp s \<and> creditUsedMinor fr inp > 0")
  case True
  have inv: "settle_inv fr s" using ok by (simp add: netted_ok_def)
  have cap: "min (creditUsedMinor fr inp) (owed fr s) \<in> \<int>" by (rule owed_whole(2) [OF fr inv])
  note pb = pools_below [OF fr]
  note n = net_ok [OF fr ok sides_of_nettings(4) [OF fr] aligned_nettings(4) [OF fr] scope_debts acct_credits pb(4,3),
      of "Some (min (creditUsedMinor fr inp) (owed fr s))"]
  from True have eq: "use_credit fr inp s
      = net fr (scopeIdx fr) (acctCreditIdx fr) (Some (min (creditUsedMinor fr inp) (owed fr s))) s"
    by (simp add: use_credit_def)
  have "netted_ok fr (snd (use_credit fr inp s))" unfolding eq by (rule n(1)) (use cap in simp)
  moreover have "one_sided fr (snd (use_credit fr inp s))"
    unfolding eq by (rule one_sided_mono [OF fr os], rule n(2)) (use cap in simp_all)
  ultimately show ?thesis ..
qed (use ok os in \<open>auto simp: use_credit_def\<close>)


section \<open>The budget\<close>

lemma sum_signed_drawn:
  assumes "distinct Q" "ft_id ` set ts \<subseteq> set Q"
  shows "sum_of (\<lambda>i. signed fr i (drawn ts i)) Q = signed_sum fr ts"
  using assms(2)
proof (induction ts)
  case (Cons t ts)
  have "signed fr i (drawn (t # ts) i)
      = (if ft_id t = i then signed fr (ft_id t) (ft_take t) else 0) + signed fr i (drawn ts i)" for i
    by (auto simp: signed_def)
  with Cons sum_of_single [OF assms(1), of "ft_id t" "signed fr (ft_id t) (ft_take t)"] show ?case
    by (simp add: signed_sum_def sum_list_addf)
qed (auto simp: signed_sum_def signed_def intro: sum_of_zero)

lemma rem_sum:
  assumes "settle_inv fr s"
  shows "sum_list (rem s) = sum_of (\<lambda>i. signed fr i (left fr s i)) (indices fr)"
proof -
  have "rem s = map (\<lambda>i. rem s ! i) (indices fr)"
    using assms map_nth [of "rem s"] by (simp add: settle_inv_def indices_def)
  also have "\<dots> = map (\<lambda>i. signed fr i (left fr s i)) (indices fr)"
    using assms by (auto simp: settle_inv_def indices_def)
  finally show ?thesis by simp
qed

lemma covers_recorded:
  assumes "settle_inv fr s" "covers fr s ts s'" "\<And>t. t \<in> set ts \<Longrightarrow> ft_id t < n_all fr"
  shows "recorded fr (\<lambda>_. True) s' = recorded fr (\<lambda>_. True) s + signed_sum fr ts"
proof -
  have inv': "settle_inv fr s'" using assms(2) by (simp add: covers_def)
  have "signed fr i (left fr s' i) = signed fr i (left fr s i) - signed fr i (drawn ts i)" if "i \<in> set (indices fr)" for i
    using assms(2) that by (auto simp: covers_def left_def signed_def indices_def)
  then have "sum_list (rem s') = sum_of (\<lambda>i. signed fr i (left fr s i) - signed fr i (drawn ts i)) (indices fr)"
    unfolding rem_sum [OF inv'] by (rule sum_of_cong)
  also have "\<dots> = sum_list (rem s) - sum_of (\<lambda>i. signed fr i (drawn ts i)) (indices fr)"
    by (simp add: rem_sum [OF assms(1)] sum_list_subtractf)
  also have "sum_of (\<lambda>i. signed fr i (drawn ts i)) (indices fr) = signed_sum fr ts"
    by (rule sum_signed_drawn) (use assms(3) in \<open>auto simp: indices_def\<close>)
  finally show ?thesis using assms(1) inv' by (simp add: settle_inv_def)
qed

lemma netted_recorded: "netted_ok fr s \<Longrightarrow> recorded fr (\<lambda>_. True) s = 0"
proof -
  assume ok: "netted_ok fr s"
  then have "filter (\<lambda>(i, x, m). True) (ss_takes s) = filter (\<lambda>(i, x, m). x = NETTING) (ss_takes s)"
    by (intro filter_cong) (auto simp: netted_ok_def)
  then have "recorded fr (\<lambda>_. True) s = recorded fr (\<lambda>x. x = NETTING) s" unfolding recorded_def by (rule arg_cong)
  with ok show ?thesis by (simp add: netted_ok_def)
qed

text \<open>The takes of a budget fit, are a step of every queue, stay within the budget, and fall short
  of it only when the side they cover is closed.\<close>

definition budget_ok ::
    "settle_frame \<Rightarrow> settle_state \<Rightarrow> nat list \<Rightarrow> amount \<Rightarrow> nat FifoTake list \<Rightarrow> bool" where
  "budget_ok fr s D b ts \<longleftrightarrow> fitting fr s ts
     \<and> (\<forall>Q \<in> {row_debts fr, row_credits fr, acctDebtIdx fr, acctCreditIdx fr}.
          stepped (epsMinor fr) (left fr s) (drawn ts) Q)
     \<and> sum_of ft_take ts \<le> b
     \<and> (sum_of ft_take ts < b \<longrightarrow> (\<forall>i \<in> set D. left fr s i - drawn ts i \<le> epsMinor fr))"

lemma pass_side_ok:
  assumes fr: "frame_ok fr" "settle_inv fr s" and D: "distinct D" "\<And>i. i \<in> set D \<Longrightarrow> i < n_all fr"
    and seg: "\<And>Q. Q \<in> {row_debts fr, row_credits fr, acctDebtIdx fr, acctCreditIdx fr} \<Longrightarrow>
      segment Q D \<or> set Q \<inter> set D = {}"
    and b: "b \<in> \<int>" "0 \<le> b"
  shows "budget_ok fr s D b (pass (filter (is_open fr s) D) (left fr s) b (1 / 2))" (is "budget_ok fr s D b ?ts")
proof -
  have fit: "fitting fr s ?ts" using D b by (intro pass_fitting [OF fr]) auto
  have st: "stepped (epsMinor fr) (left fr s) (drawn ?ts) D" by (rule pass_open_stepped [OF fr(1) D(1)])
  have "stepped (epsMinor fr) (left fr s) (drawn ?ts) Q"
    if "Q \<in> {row_debts fr, row_credits fr, acctDebtIdx fr, acctCreditIdx fr}" for Q
    using seg [OF that]
  proof
    assume "set Q \<inter> set D = {}"
    then have "ft_id ` set ?ts \<inter> set Q = {}" using pass_ids [of "filter (is_open fr s) D" "left fr s" b "1 / 2"] by auto
    then show ?thesis by (rule stepped_elsewhere)
  qed (rule segment_stepped [OF _ st])
  moreover have sum: "sum_of ft_take ?ts = min b (sum_of (left fr s) (filter (is_open fr s) D))"
    by (rule pass_open_spends [OF fr D(2) b])
  moreover have "\<forall>i \<in> set D. left fr s i - drawn ?ts i \<le> epsMinor fr" if "sum_of ft_take ?ts < b"
    using pass_open_closes [OF fr D, of b] sum that by (simp add: min_def split: if_splits)
  ultimately show ?thesis using fit by (simp add: budget_ok_def)
qed

lemma pass_all_ok:
  assumes fr: "frame_ok fr" "settle_inv fr s" and b: "b \<in> \<int>"
  defines "cs \<equiv> pass (acctCreditIdx fr) (left fr s) b (1 / 2)"
  shows "fitting fr s cs" "stepped (epsMinor fr) (left fr s) (drawn cs) (acctCreditIdx fr)"
    "ft_id ` set cs \<subseteq> set (acctCreditIdx fr)" "0 \<le> b \<Longrightarrow> sum_of ft_take cs \<le> b" "b \<le> 0 \<Longrightarrow> cs = []"
proof -
  have d: "distinct (acctCreditIdx fr)" by (rule queues_distinct)
  show "fitting fr s cs" unfolding cs_def using queue_below(4) [OF fr(1)] b by (intro pass_fitting [OF fr d]) auto
  show "stepped (epsMinor fr) (left fr s) (drawn cs) (acctCreditIdx fr)"
    unfolding cs_def using fr(1) by (intro stepped_mono [OF pass_stepped [OF d]]) (auto simp: frame_ok_def)
  show "ft_id ` set cs \<subseteq> set (acctCreditIdx fr)" unfolding cs_def by (rule pass_ids)
  show "0 \<le> b \<Longrightarrow> sum_of ft_take cs \<le> b" unfolding cs_def by (rule fifo.sum_le) simp_all
  show "b \<le> 0 \<Longrightarrow> cs = []" unfolding cs_def by (rule pass_spent) simp
qed

lemma budget_ok_append:
  assumes fr: "frame_ok fr" and ok: "budget_ok fr s (row_credits fr) b ts" and ids: "ft_id ` set ts \<subseteq> set (row_credits fr)"
    and cs: "fitting fr s cs" "stepped (epsMinor fr) (left fr s) (drawn cs) (acctCreditIdx fr)"
      "ft_id ` set cs \<subseteq> set (acctCreditIdx fr)" "sum_of ft_take cs \<le> b - sum_of ft_take ts"
  shows "budget_ok fr s (row_credits fr) b (ts @ cs)"
proof -
  have apart: "set (row_credits fr) \<inter> set (acctCreditIdx fr) = {}" using queues_iff [OF fr] by auto
  have fit: "fitting fr s (ts @ cs)"
    using ok cs(1,3) ids apart by (intro fitting_append) (auto simp: budget_ok_def)
  have dc: "drawn cs i = 0" if "i \<notin> set (acctCreditIdx fr)" for i using that cs(3) by (intro drawn_absent) blast
  have dt: "drawn ts i = 0" if "i \<notin> set (row_credits fr)" for i using that ids by (intro drawn_absent) blast
  have step: "stepped (epsMinor fr) (left fr s) (drawn (ts @ cs)) Q"
    if Q: "Q \<in> {row_debts fr, row_credits fr, acctDebtIdx fr, acctCreditIdx fr}" for Q
  proof (cases "Q = acctCreditIdx fr")
    case True
    have "drawn (ts @ cs) i = drawn cs i" if "i \<in> set Q" for i using that dt apart True by auto
    with stepped_cong [of Q "drawn (ts @ cs)" "drawn cs"] cs(2) True show ?thesis by blast
  next
    case False
    have "drawn (ts @ cs) i = drawn ts i" if "i \<in> set Q" for i
      using that dc Q False queues_iff [OF fr] by auto
    with stepped_cong [of Q "drawn (ts @ cs)" "drawn ts"] ok Q show ?thesis unfolding budget_ok_def by blast
  qed
  have nn: "0 \<le> sum_of ft_take cs" by (rule sum_of_nonneg) (use cs(1) in \<open>auto simp: fitting_def less_imp_le\<close>)
  have "left fr s i - drawn (ts @ cs) i \<le> epsMinor fr" if "sum_of ft_take (ts @ cs) < b" "i \<in> set (row_credits fr)" for i
  proof -
    have "drawn (ts @ cs) i = drawn ts i" using that(2) dc apart by auto
    with ok that nn show ?thesis by (simp add: budget_ok_def)
  qed
  with fit step cs(4) show ?thesis unfolding budget_ok_def by (simp del: drawn_simps(3))
qed


lemma budget_whole: "budget_of fr inp dir \<in> \<int>" "waiveMinor fr inp dir \<in> \<int>" "commissionCoverMinor fr inp \<in> \<int>"
  by (simp_all add: budget_of_def waiveMinor_def commissionCoverMinor_def commissionMinor_def Ints_abs)

text \<open>The list of rows a budget of a sign is spent on.\<close>

definition spend_side :: "settle_frame \<Rightarrow> amount \<Rightarrow> nat list" where
  "spend_side fr sg = (if sg > 0 then row_debts fr @ acctDebtIdx fr else row_credits fr)"

lemma budget_takes_ok:
  fixes tooHigh
  assumes fr: "frame_ok fr" "settle_inv fr s" and b: "budget \<in> \<int>" and sg: "sg = 1 \<or> sg = -1" and fm: "forMoney \<in> \<int>"
  defines "ts \<equiv> fst (budget_takes fr sg budget tooHigh forMoney s)"
  shows "budget_ok fr s (spend_side fr sg) \<bar>budget\<bar> ts"
    "\<And>t. t \<in> set ts \<Longrightarrow> (orig fr ! ft_id t > 0) = (sg > 0)"
proof -
  let ?D = "spend_side fr sg"
  define us where "us = pass (filter (is_open fr s) ?D) (left fr s) \<bar>budget\<bar> (1 / 2)"
  note sn = sides_of_nettings [OF fr(1)]
  have D: "distinct ?D" "\<And>i. i \<in> set ?D \<Longrightarrow> i < n_all fr"
    using sn(1,4) by (auto simp: spend_side_def sides_def split: if_splits)
  have side: "(orig fr ! i > 0) = (sg > 0)" if "i \<in> set ?D" for i
    using that sn(1,4) by (auto simp: spend_side_def sides_def split: if_splits dest: less_asym)
  have flt: "filter (\<lambda>i. if sg > 0 then rem s ! i > epsMinor fr else rem s ! i < - epsMinor fr) (scopeIdx fr)
      = filter (is_open fr s) ?D"
    using sides_filter(1) [OF fr sn(4) scope_debts acct_credits pools_below(4,3) [OF fr(1)]]
      sides_filter(2) [OF fr sn(1) _ scope_credits pools_below(1,4) [OF fr(1)]] sg
    by (auto simp: spend_side_def row_debts_def)
  have "rem s ! i * sg = left fr s i" if "i \<in> set ?D" for i
    using sg fr(2) D(2) [OF that] side [OF that] by (auto simp: settle_inv_def signed_def)
  then have rows: "fifo_rows (filter (is_open fr s) ?D) (\<lambda>i. rem s ! i * sg) = fifo_rows (filter (is_open fr s) ?D) (left fr s)"
    by (auto simp: fifo_rows_def)
  have "left fr s i = max 0 (- rem s ! i)" if "i \<in> set (acctCreditIdx fr)" for i
    using sides_left(2) [OF fr sn(2) that] open_iff(6) [OF fr queue_below(4) [OF fr(1) that]] by simp
  then have crows: "fifo_rows (acctCreditIdx fr) (\<lambda>i. max 0 (- rem s ! i)) = fifo_rows (acctCreditIdx fr) (left fr s)"
    by (auto simp: fifo_rows_def)
  have seg: "segment Q ?D \<or> set Q \<inter> set ?D = {}"
    if "Q \<in> {row_debts fr, row_credits fr, acctDebtIdx fr, acctCreditIdx fr}" for Q
    using that queues_iff [OF fr(1)] segment_intros by (auto simp: spend_side_def)
  have ok: "budget_ok fr s ?D \<bar>budget\<bar> us"
    unfolding us_def by (rule pass_side_ok [OF fr D seg]) (simp_all add: b Ints_abs)
  have ids: "ft_id ` set us \<subseteq> set ?D" using pass_ids [of "filter (is_open fr s) ?D" "left fr s"] by (auto simp: us_def)
  define cs where "cs = pass (acctCreditIdx fr) (left fr s) (min (\<bar>budget\<bar> - sum_of ft_take us) forMoney) (1 / 2)"
  have ts: "ts = (if sg < 0 \<and> \<not> tooHigh \<and> forMoney > 0 then us @ cs else us)"
    unfolding ts_def budget_takes_def Let_def flt rows crows us_def [symmetric] cs_def by simp
  have "sum_of ft_take us \<in> \<int>" using ok by (intro Ints_sum_of) (auto simp: budget_ok_def fitting_def)
  then have bI: "min (\<bar>budget\<bar> - sum_of ft_take us) forMoney \<in> \<int>" using b fm by (simp add: min_def Ints_abs)
  note pa = pass_all_ok [OF fr bI, folded cs_def]
  have le: "sum_of ft_take cs \<le> \<bar>budget\<bar> - sum_of ft_take us" if "forMoney > 0"
    using pa(4,5) that ok by (cases "0 < \<bar>budget\<bar> - sum_of ft_take us") (auto simp: budget_ok_def)
  show "budget_ok fr s ?D \<bar>budget\<bar> ts"
  proof (cases "sg < 0 \<and> \<not> tooHigh \<and> forMoney > 0")
    case True
    then have "?D = row_credits fr" by (simp add: spend_side_def)
    with True budget_ok_append [OF fr(1) _ _ pa(1-3) le] ok ids show ?thesis by (simp add: ts)
  qed (use ok in \<open>auto simp: ts\<close>)
  show "(orig fr ! ft_id t > 0) = (sg > 0)" if "t \<in> set ts" for t
  proof (cases "t \<in> set us")
    case True
    with ids side show ?thesis by blast
  next
    case False
    with that have t: "t \<in> set cs" "sg < 0" by (auto simp: ts split: if_splits)
    with pa(3) sn(2) have "orig fr ! ft_id t < 0" by (auto simp: sides_def)
    with t show ?thesis by simp
  qed
qed

lemma spend_budget_spec:
  assumes fr: "frame_ok fr" and ok: "netted_ok fr s" and os: "one_sided fr s" and fm: "forMoney \<in> \<int>"
    and run: "spend_budget fr inp dir tooHigh forMoney s = (applied, creditTaken, s')"
  defines "b \<equiv> budget_of fr inp dir"
  shows "settle_inv fr s' \<and> shapes fr s' \<and> one_sided fr s' \<and> recorded fr (\<lambda>x. x = NETTING) s' = 0
    \<and> recorded fr (\<lambda>_. True) s' = applied
    \<and> (b \<ge> 0 \<longrightarrow> 0 \<le> applied \<and> applied \<le> b) \<and> (b \<le> 0 \<longrightarrow> b \<le> applied \<and> applied \<le> 0)
    \<and> (applied < b \<longrightarrow> (\<forall>i \<in> set (row_debts fr @ acctDebtIdx fr). \<not> is_open fr s' i))
    \<and> (b < applied \<longrightarrow> (\<forall>i \<in> set (row_credits fr). \<not> is_open fr s' i))"
proof (cases "b = 0")
  case True
  with run have "applied = 0" "s' = s" by (auto simp: spend_budget_def b_def)
  with ok os netted_recorded [OF ok] True show ?thesis by (simp add: netted_ok_def)
next
  case False
  have inv: "settle_inv fr s" using ok by (simp add: netted_ok_def)
  define sg :: amount where "sg = (if b > 0 then 1 else -1)"
  define ts where "ts = fst (budget_takes fr sg b tooHigh forMoney s)"
  define w where "w = max 0 (waiveMinor fr inp dir * sg)"
  define cm where "cm = (if sg > 0 then commissionCoverMinor fr inp else 0)"
  have ap: "applied = sum_of ft_take ts * sg" and s': "s' = tag_takes fr ts w cm s"
    using run False by (auto simp: spend_budget_def Let_def case_prod_beta b_def sg_def ts_def w_def cm_def)
  have sg: "sg = 1 \<or> sg = -1" by (simp add: sg_def)
  have bI: "b \<in> \<int>" by (simp add: b_def budget_whole)
  note bt = budget_takes_ok [OF fr inv bI sg fm, where tooHigh = tooHigh, folded ts_def]
  have fit: "fitting fr s ts" using bt(1) by (simp add: budget_ok_def)
  have wc: "0 \<le> w" "w \<in> \<int>" "0 \<le> cm" "cm \<in> \<int>"
    using budget_whole sg by (auto simp: w_def cm_def max_def commissionCoverMinor_def commissionMinor_def)
  note tc = tag_takes_covers [OF fr inv fit wc, folded s']
  have ph: "phase fr s ts s'"
    using tc bt(1) fitting_drawn [OF fit] by (simp add: phase_def budget_ok_def)
  have nn: "0 \<le> sum_of ft_take ts" by (rule sum_of_nonneg) (use fit in \<open>auto simp: fitting_def less_imp_le\<close>)
  have le: "sum_of ft_take ts \<le> \<bar>b\<bar>" using bt(1) by (simp add: budget_ok_def)
  have "signed_sum fr ts = applied"
    using signed_sum_side [of ts fr] bt(2) sg by (auto simp: ap)
  then have "recorded fr (\<lambda>_. True) s' = applied"
    using covers_recorded [OF inv conjunct1 [OF tc]] fit netted_recorded [OF ok] by (simp add: fitting_def)
  moreover have "recorded fr (\<lambda>x. x = NETTING) s' = 0" using tc ok by (simp add: netted_ok_def)
  moreover have "one_sided fr s'" by (rule one_sided_mono [OF fr os phase_open [OF ph]])
  moreover have "shapes fr s'" using phase_shapes [OF fr ph] ok by (simp add: netted_ok_def)
  moreover have "(b \<ge> 0 \<longrightarrow> 0 \<le> applied \<and> applied \<le> b) \<and> (b \<le> 0 \<longrightarrow> b \<le> applied \<and> applied \<le> 0)"
    using nn le False by (auto simp: ap sg_def)
  moreover have "\<forall>i \<in> set (spend_side fr sg). \<not> is_open fr s' i" if "applied \<noteq> b"
  proof -
    have lt: "sum_of ft_take ts < \<bar>b\<bar>" using that le False by (auto simp: ap sg_def split: if_splits)
    have "i < n_all fr" if "i \<in> set (spend_side fr sg)" for i
      using that queue_below [OF fr] by (auto simp: spend_side_def split: if_splits)
    with lt bt(1) phase_left [OF ph] show ?thesis by (simp add: budget_ok_def is_open_def not_less)
  qed
  moreover have "applied < b \<Longrightarrow> sg > 0" "b < applied \<Longrightarrow> \<not> sg > 0"
    using nn le False by (auto simp: ap sg_def split: if_splits)
  ultimately show ?thesis using phase_inv [OF ph] by (auto simp: spend_side_def)
qed


lemma credit_whole:
  assumes fr: "frame_ok fr" and ok: "netted_ok fr s"
  shows "fst (use_credit fr inp s) \<in> \<int>"
proof (cases "direction_of fr (owed fr s) = PAY \<and> \<not> credit_too_high fr inp s \<and> creditUsedMinor fr inp > 0")
  case True
  let ?c = "min (creditUsedMinor fr inp) (owed fr s)"
  have inv: "settle_inv fr s" using ok by (simp add: netted_ok_def)
  note qb = queue_below [OF fr]
  have "sum_of (left fr s) (filter (is_open fr s) (row_debts fr @ acctDebtIdx fr)) \<in> \<int>"
    "sum_of (left fr s) (filter (is_open fr s) (acctCreditIdx fr)) \<in> \<int>"
    using qb by (intro open_sum_whole [OF fr inv]; force)+
  then have "netting_amount fr s (row_debts fr @ acctDebtIdx fr) (acctCreditIdx fr) (Some ?c) \<in> \<int>"
    unfolding netting_amount_def Let_def option.case by (intro Ints_min owed_whole [OF fr inv])
  with True net_eq [OF fr inv sides_of_nettings(4) [OF fr] scope_debts acct_credits pools_below(4,3) [OF fr], of "Some ?c"]
  show ?thesis by (simp add: use_credit_def)
qed (auto simp: use_credit_def)

text \<open>Everything the settlement's final state satisfies.\<close>

lemma settle_run_spec:
  assumes fr: "frame_ok fr" and run: "settle_run fr inp = (dir, tooHigh, creditApplied, applied, s)"
  defines "b \<equiv> budget_of fr inp dir"
  shows "settle_inv fr s \<and> shapes fr s \<and> one_sided fr s \<and> recorded fr (\<lambda>x. x = NETTING) s = 0
    \<and> recorded fr (\<lambda>_. True) s = applied
    \<and> (b \<ge> 0 \<longrightarrow> 0 \<le> applied \<and> applied \<le> b) \<and> (b \<le> 0 \<longrightarrow> b \<le> applied \<and> applied \<le> 0)
    \<and> (applied < b \<longrightarrow> (\<forall>i \<in> set (row_debts fr @ acctDebtIdx fr). \<not> is_open fr s i))
    \<and> (b < applied \<longrightarrow> (\<forall>i \<in> set (row_credits fr). \<not> is_open fr s i))"
proof -
  define s1 where "s1 = netted fr"
  define s2 where "s2 = snd (use_credit fr inp s1)"
  define fm where "fm = creditForMoneyMinor fr inp dir (fst (use_credit fr inp s1))"
  have dir: "dir = direction_of fr (owed fr s1)" "tooHigh = credit_too_high fr inp s1"
    using run by (auto simp: settle_run_def Let_def case_prod_beta s1_def)
  have run2: "spend_budget fr inp dir tooHigh fm s2 = (applied, fst (snd (spend_budget fr inp dir tooHigh fm s2)), s)"
    using run by (auto simp: settle_run_def Let_def case_prod_beta s1_def s2_def fm_def)
  have ok1: "netted_ok fr s1" "one_sided fr s1" using netted_spec [OF fr] by (simp_all add: s1_def)
  have ok2: "netted_ok fr s2" "one_sided fr s2" using use_credit_spec [OF fr ok1] by (simp_all add: s2_def)
  have "fm \<in> \<int>" using credit_whole [OF fr ok1(1)] by (simp add: fm_def creditForMoneyMinor_def creditUsedMinor_def Ints_abs)
  from spend_budget_spec [OF fr ok2 this run2] show ?thesis unfolding b_def .
qed

section \<open>Classes\<close>

abbreviation refs_of :: "AccountSettleAllocPartial option \<Rightarrow> AccountSettleAllocRowRef list" where
  "refs_of p \<equiv> (case p of None \<Rightarrow> [] | Some q \<Rightarrow> [ap_ref q])"

abbreviation part_touched :: "settle_frame \<Rightarrow> settle_state \<Rightarrow> nat \<Rightarrow> bool" where
  "part_touched fr s i \<equiv> \<not> isZero fr (rem s ! i) \<and> takenMinor s ! i \<noteq> 0"

lemma classify_mset:
  assumes "length (refs_of (sc_partial c)) + length (filter (\<lambda>i. part_touched fr s i \<and> i < nRows fr) is) \<le> 1"
    "length (refs_of (sc_account_partial c)) + length (filter (\<lambda>i. part_touched fr s i \<and> \<not> i < nRows fr) is) \<le> 1"
  shows "mset (sc_closed (classify fr s is c)) + mset (sc_untouched (classify fr s is c))
      + mset (refs_of (sc_partial (classify fr s is c))) + mset (refs_of (sc_account_partial (classify fr s is c)))
    = mset (sc_closed c) + mset (sc_untouched c) + mset (refs_of (sc_partial c)) + mset (refs_of (sc_account_partial c))
      + mset (map (row_ref fr) is)"
  using assms
proof (induction "is" arbitrary: c)
  case (Cons i "is")
  show ?case
  proof (cases "part_touched fr s i")
    case False
    with Cons show ?thesis by (cases "isZero fr (rem s ! i)") auto
  next
    case True
    show ?thesis
    proof (cases "i < nRows fr")
      case in_rows: True
      with True Cons.prems(1) have "sc_partial c = None" by (auto split: option.splits)
      with True in_rows Cons show ?thesis by (auto simp: Let_def)
    next
      case out: False
      with True Cons.prems(2) have "sc_account_partial c = None" by (auto split: option.splits)
      with True out Cons show ?thesis by (auto simp: Let_def)
    qed
  qed
qed simp

lemma one_partial:
  assumes fr: "frame_ok fr" and inv: "settle_inv fr s" and sh: "shapes fr s" and os: "one_sided fr s"
  shows "length (filter (\<lambda>i. part_touched fr s i \<and> i < nRows fr) (indices fr)) \<le> 1"
    "length (filter (\<lambda>i. part_touched fr s i \<and> \<not> i < nRows fr) (indices fr)) \<le> 1"
proof -
  have pt: "part_touched fr s i \<longleftrightarrow> is_open fr s i \<and> takenMinor s ! i \<noteq> 0" if "i < n_all fr" for i
    using open_iff(5) [OF fr inv that] by simp
  have sign: "orig fr ! i > 0 \<or> orig fr ! i < 0" if "is_open fr s i" "i < n_all fr" for i
    using open_iff(3) [OF fr inv that(2) that(1)] by auto
  have n: "i < nRows fr \<Longrightarrow> i < n_all fr" for i using fr by (simp add: frame_ok_def)
  have shaped: "shaped (is_open fr s) (\<lambda>i. takenMinor s ! i) Q"
    if "Q \<in> {row_debts fr, row_credits fr, acctDebtIdx fr, acctCreditIdx fr}" for Q
    using sh that by (simp only: shapes_def)
  show "length (filter (\<lambda>i. part_touched fr s i \<and> i < nRows fr) (indices fr)) \<le> 1"
  proof (rule shaped_pair_one_touched [OF shaped shaped])
    show "(\<forall>i \<in> set (row_debts fr). \<not> is_open fr s i) \<or> (\<forall>i \<in> set (row_credits fr). \<not> is_open fr s i)"
      using os by (simp add: one_sided_def)
    fix i assume "i \<in> set (filter (\<lambda>i. part_touched fr s i \<and> i < nRows fr) (indices fr))"
    then have i: "part_touched fr s i" "i < nRows fr" by auto
    with pt [OF n [OF i(2)]] sign [OF _ n [OF i(2)]] queues_iff(1,2) [OF fr, of i]
    show "is_open fr s i \<and> takenMinor s ! i \<noteq> 0 \<and> (i \<in> set (row_debts fr) \<or> i \<in> set (row_credits fr))" by blast
  qed (simp_all add: queues_distinct indices_def)
  show "length (filter (\<lambda>i. part_touched fr s i \<and> \<not> i < nRows fr) (indices fr)) \<le> 1"
  proof (rule shaped_pair_one_touched [OF shaped shaped])
    show "(\<forall>i \<in> set (acctDebtIdx fr). \<not> is_open fr s i) \<or> (\<forall>i \<in> set (acctCreditIdx fr). \<not> is_open fr s i)"
      using os by (simp add: one_sided_def)
    fix i assume "i \<in> set (filter (\<lambda>i. part_touched fr s i \<and> \<not> i < nRows fr) (indices fr))"
    then have i: "part_touched fr s i" "nRows fr \<le> i" "i < n_all fr" by (auto simp: indices_def)
    with pt [OF i(3)] sign [OF _ i(3)] queues_iff(3,4) [OF fr, of i]
    show "is_open fr s i \<and> takenMinor s ! i \<noteq> 0 \<and> (i \<in> set (acctDebtIdx fr) \<or> i \<in> set (acctCreditIdx fr))" by blast
  qed (simp_all add: queues_distinct indices_def)
qed


section \<open>Properties\<close>

lemma settle_parts:
  assumes "settle_run (make_frame inp) inp = (dir, tooHigh, cr, applied, s)"
  defines "fr \<equiv> make_frame inp" and "r \<equiv> allocateAccountSettlement inp"
  shows "as_takes r = map (\<lambda>(i, source, m). \<lparr>at_kind = ar_kind (all_rows fr ! i), at_id = ar_id (all_rows fr ! i),
        at_member = member_supplier_id (all_rows fr ! i), at_source = source, at_amount = fromMinor (factor fr) m\<rparr>) (ss_takes s)"
    and "as_extra r = fromMinor (factor fr) (budget_of fr inp dir - applied)"
    and "(as_closed r, as_untouched r, as_partial r, account_partial r)
      = (let c = classify fr s (indices fr) \<lparr>sc_closed = [], sc_untouched = [], sc_partial = None, sc_account_partial = None\<rparr>
         in (sc_closed c, sc_untouched c, sc_partial c, sc_account_partial c))"
    and "commission_alloc r = snd (commission_part fr inp s)"
    and "commission_without_closed_model1 r = fst (commission_part fr inp s)"
  using assms(1) by (simp_all add: r_def fr_def allocateAccountSettlement_def settle_result_def Let_def case_prod_beta)

abbreviation settle_ref :: "AccountSettleAllocRow \<Rightarrow> AccountSettleAllocRowRef" where
  "settle_ref x \<equiv> (ar_kind x, ar_id x)"

lemma all_rows_make: "mset (all_rows (make_frame inp)) = mset (ai_rows inp @ account_credits inp)"
  by (simp add: make_frame_def Let_def)

lemma orig_make: "i < n_all (make_frame inp) \<Longrightarrow>
    orig (make_frame inp) ! i = toMinor (factor (make_frame inp)) (ar_remaining (all_rows (make_frame inp) ! i))"
  by (simp add: make_frame_def Let_def flip: map_append)

lemma fromMinor_eq: "fromMinor f m = m / f"
  by (simp add: fromMinor_def)

text \<open>Every input row, day row or account row, lands in exactly one of closed, untouched,
  partial and account partial: in particular no partly covered row is lost, since at most one day
  row and at most one account row can be left part-covered.\<close>

theorem settlement_classes:
  "mset (as_closed (allocateAccountSettlement inp)) + mset (as_untouched (allocateAccountSettlement inp))
     + mset (refs_of (as_partial (allocateAccountSettlement inp)))
     + mset (refs_of (account_partial (allocateAccountSettlement inp)))
   = mset (map settle_ref (ai_rows inp @ account_credits inp))"
proof -
  define fr where "fr = make_frame inp"
  have fr: "frame_ok fr" by (simp add: fr_def make_frame_ok)
  obtain dir tooHigh cr applied s where run: "settle_run fr inp = (dir, tooHigh, cr, applied, s)" by (metis surj_pair)
  note sp = settle_run_spec [OF fr run]
  define c0 :: settle_classes where "c0 = \<lparr>sc_closed = [], sc_untouched = [], sc_partial = None, sc_account_partial = None\<rparr>"
  let ?c = "classify fr s (indices fr) c0"
  have "mset (sc_closed ?c) + mset (sc_untouched ?c) + mset (refs_of (sc_partial ?c)) + mset (refs_of (sc_account_partial ?c))
      = mset (map (row_ref fr) (indices fr))"
    using classify_mset [of c0 fr s "indices fr"] one_partial [OF fr, of s] sp by (simp add: c0_def)
  moreover have "map (row_ref fr) (indices fr) = map settle_ref (all_rows fr)"
    by (rule nth_equalityI) (simp_all add: indices_def row_ref_def)
  then have "mset (map (row_ref fr) (indices fr)) = image_mset settle_ref (mset (all_rows fr))" by simp
  ultimately show ?thesis
    using settle_parts(3) [OF run [unfolded fr_def]] all_rows_make [of inp]
    by (simp add: Let_def fr_def c0_def)
qed

lemma recorded_split:
  "recorded fr (\<lambda>_. True) s = recorded fr (\<lambda>x. x = NETTING) s + recorded fr (\<lambda>x. x \<noteq> NETTING) s"
proof -
  have "sum_of (\<lambda>(i, x, m). signed fr i m) (filter (\<lambda>(i, x, m). True) ts)
      = sum_of (\<lambda>(i, x, m). signed fr i m) (filter (\<lambda>(i, x, m). x = NETTING) ts)
        + sum_of (\<lambda>(i, x, m). signed fr i m) (filter (\<lambda>(i, x, m). x \<noteq> NETTING) ts)" for ts
    by (induction ts) auto
  then show ?thesis by (simp only: recorded_def)
qed

lemma scope_closed:
  assumes fr: "frame_ok fr" and inv: "settle_inv fr s"
  shows "\<forall>i \<in> set (row_debts fr @ acctDebtIdx fr). \<not> is_open fr s i \<Longrightarrow> \<forall>i \<in> set (scopeIdx fr). \<not> rem s ! i > epsMinor fr"
    "\<forall>i \<in> set (row_credits fr). \<not> is_open fr s i \<Longrightarrow> \<forall>i \<in> set (scopeIdx fr). \<not> rem s ! i < - epsMinor fr"
proof -
  note pb = pools_below [OF fr]
  have d: "filter (\<lambda>i. orig fr ! i > 0) (rowIdx fr) = row_debts fr" by (simp add: row_debts_def)
  show "\<forall>i \<in> set (scopeIdx fr). \<not> rem s ! i > epsMinor fr"
    if "\<forall>i \<in> set (row_debts fr @ acctDebtIdx fr). \<not> is_open fr s i"
  proof -
    have "filter (\<lambda>i. rem s ! i > epsMinor fr) (scopeIdx fr) = filter (is_open fr s) (row_debts fr @ acctDebtIdx fr)"
      by (rule sides_filter(1) [OF fr inv sides_of_nettings(4) [OF fr] scope_debts acct_credits pb(4,3)])
    also have "\<dots> = []" using that by (subst filter_empty_conv)
    finally show ?thesis by (subst (asm) filter_empty_conv)
  qed
  show "\<forall>i \<in> set (scopeIdx fr). \<not> rem s ! i < - epsMinor fr" if "\<forall>i \<in> set (row_credits fr). \<not> is_open fr s i"
  proof -
    have "filter (\<lambda>i. rem s ! i < - epsMinor fr) (scopeIdx fr) = filter (is_open fr s) (row_credits fr)"
      by (rule sides_filter(2) [OF fr inv sides_of_nettings(1) [OF fr] d scope_credits pb(1,4)])
    also have "\<dots> = []" using that by (subst filter_empty_conv)
    finally show ?thesis by (subst (asm) filter_empty_conv)
  qed
qed

text \<open>C11. The books of a settlement balance: netting covers debts and credits by the same amount,
  so the signed total of all rows falls by exactly what the budget (money, waive, covering
  commission) applied, and that is what the non-netting takes add up to; the extra is the rest of
  the budget, has the budget's sign, and is left only when no row in scope is open on the side
  the budget covers.\<close>

theorem settlement_balances:
  assumes "settle_run (make_frame inp) inp = (dir, tooHigh, cr, applied, s)"
  defines "fr \<equiv> make_frame inp" and "b \<equiv> budget_of (make_frame inp) inp dir" and "r \<equiv> allocateAccountSettlement inp"
  shows "recorded fr (\<lambda>x. x = NETTING) s = 0 \<and> recorded fr (\<lambda>x. x \<noteq> NETTING) s = applied
    \<and> sum_list (rem s) = sum_list (orig fr) - applied
    \<and> as_extra r * factor fr = b - applied \<and> 0 \<le> as_extra r * b
    \<and> (0 < as_extra r \<longrightarrow> (\<forall>i \<in> set (scopeIdx fr). \<not> rem s ! i > epsMinor fr))
    \<and> (as_extra r < 0 \<longrightarrow> (\<forall>i \<in> set (scopeIdx fr). \<not> rem s ! i < - epsMinor fr))"
proof -
  have fr: "frame_ok fr" by (simp add: fr_def make_frame_ok)
  have run: "settle_run fr inp = (dir, tooHigh, cr, applied, s)" using assms(1) by (simp add: fr_def)
  have b: "b = budget_of fr inp dir" by (simp add: b_def fr_def)
  note sp = settle_run_spec [OF fr run, folded b]
  have f: "0 < factor fr" using fr by (simp add: frame_ok_def)
  have ex: "as_extra r = (b - applied) / factor fr"
    using settle_parts(2) [OF assms(1)] by (simp add: r_def fr_def b_def fromMinor_eq)
  have pos: "0 < as_extra r \<longleftrightarrow> applied < b" "as_extra r < 0 \<longleftrightarrow> b < applied"
    using f by (simp_all add: ex zero_less_divide_iff divide_less_0_iff)
  have range: "b \<ge> 0 \<longrightarrow> applied \<le> b" "b \<le> 0 \<longrightarrow> b \<le> applied" using sp by blast+
  have "0 \<le> (b - applied) * b"
    using range by (cases "0 \<le> b") (simp_all add: zero_le_mult_iff not_le less_imp_le)
  then have "0 \<le> (b - applied) * b / factor fr" using f by simp
  then have sign: "0 \<le> as_extra r * b" by (simp add: ex)
  have inv: "settle_inv fr s" and none: "recorded fr (\<lambda>x. x = NETTING) s = 0"
    and all: "recorded fr (\<lambda>_. True) s = applied" using sp by blast+
  have rem: "sum_list (rem s) = sum_list (orig fr) - applied" using inv unfolding settle_inv_def all by blast
  have rest: "recorded fr (\<lambda>x. x \<noteq> NETTING) s = applied" using recorded_split [of fr s] none all by linarith
  have up: "0 < as_extra r \<longrightarrow> (\<forall>i \<in> set (scopeIdx fr). \<not> rem s ! i > epsMinor fr)"
    unfolding pos using scope_closed(1) [OF fr inv] sp by blast
  have down: "as_extra r < 0 \<longrightarrow> (\<forall>i \<in> set (scopeIdx fr). \<not> rem s ! i < - epsMinor fr)"
    unfolding pos using scope_closed(2) [OF fr inv] sp by blast
  have extra: "as_extra r * factor fr = b - applied" using f by (simp add: ex)
  show ?thesis by (intro conjI none sign rem rest up down extra)
qed

definition sample_row :: "nat \<Rightarrow> amount \<Rightarrow> AccountSettleAllocRow" where
  "sample_row n v =
     \<lparr>ar_kind = LEDGER, ar_id = n, member_supplier_id = n, ar_created_at = ''2025-01-01'', ar_remaining = v,
      commission_model1 = True, cashout_commission = 0, commission_estimate = None, commission_ticked = None\<rparr>"

definition sample_settlement :: AccountSettleAllocInput where
  "sample_settlement =
     \<lparr>ai_currency = SettleUSD, ai_rows = [sample_row 1 50, sample_row 2 (- 30), sample_row 3 40], ai_paid = 45,
      ai_commission = 7, ai_waive = 5, commission_covers = False, commission_split = None, ai_eps = 1 / 100,
      account_credits = [sample_row 4 (- 20)], whole_credit = False, credit_used = 15\<rparr>"

definition sample_settled :: settle_state where
  "sample_settled = snd (snd (snd (snd (settle_run (make_frame sample_settlement) sample_settlement))))"

lemma sample_settlement_run:
  "settle_run (make_frame sample_settlement) sample_settlement = (PAY, False, 1500, 4500, sample_settled)"
proof -
  have "fst (settle_run (make_frame sample_settlement) sample_settlement) = PAY"
    "fst (snd (settle_run (make_frame sample_settlement) sample_settlement)) = False"
    "fst (snd (snd (settle_run (make_frame sample_settlement) sample_settlement))) = 1500"
    "fst (snd (snd (snd (settle_run (make_frame sample_settlement) sample_settlement)))) = 4500" by code_simp+
  then show ?thesis by (simp add: sample_settled_def prod_eq_iff)
qed

theorem settlement_balances_witness:
  "recorded (make_frame sample_settlement) (\<lambda>x. x \<noteq> NETTING) sample_settled = 4500
   \<and> as_extra (allocateAccountSettlement sample_settlement) = 5
   \<and> map (\<lambda>t. (at_id t, at_source t, at_amount t)) (as_takes (allocateAccountSettlement sample_settlement))
     = [(1, NETTING, 30), (2, NETTING, 30), (1, NETTING, 15), (4, NETTING, 15), (1, WAIVE, 5), (3, PAYMENT, 40)]"
proof -
  have "map (\<lambda>t. (at_id t, at_source t, at_amount t)) (as_takes (allocateAccountSettlement sample_settlement))
     = [(1, NETTING, 30), (2, NETTING, 30), (1, NETTING, 15), (4, NETTING, 15), (1, WAIVE, 5), (3, PAYMENT, 40)]"
    by code_simp
  moreover have "factor (make_frame sample_settlement) = 100"
    "budget_of (make_frame sample_settlement) sample_settlement PAY = 5000" by code_simp+
  ultimately show ?thesis using settlement_balances [OF sample_settlement_run] by auto
qed

end
