(* ===== verification/Account_Settlement_Rows.thy ===== *)
theory Account_Settlement_Rows
  imports Account_Settlement_Properties
begin

text \<open>
  What the result of \<open>allocateAccountSettlement\<close> says of each row: how much of it the takes cover,
  against its class, and how the commission is split over the rows that earn it.
\<close>

section \<open>The takes of a row\<close>

definition covered_of :: "AccountSettleAllocResult \<Rightarrow> AccountSettleAllocRowRef \<Rightarrow> amount" where
  "covered_of r ref = sum_of at_amount (filter (\<lambda>t. (at_kind t, at_id t) = ref) (as_takes r))"

lemma row_ref_settle: "i < n_all fr \<Longrightarrow> row_ref fr i = settle_ref (all_rows fr ! i)"
  by (simp add: row_ref_def)

lemma refs_distinct:
  assumes "distinct (map settle_ref (ai_rows inp @ account_credits inp))"
  shows "distinct (map settle_ref (all_rows (make_frame inp)))"
proof -
  have "mset (map settle_ref (all_rows (make_frame inp))) = mset (map settle_ref (ai_rows inp @ account_credits inp))"
    using arg_cong [OF all_rows_make, of "image_mset settle_ref" inp] by simp
  then show ?thesis using assms mset_eq_imp_distinct_iff by blast
qed

lemma row_ref_inj:
  assumes "distinct (map settle_ref (all_rows fr))" "i < n_all fr" "j < n_all fr" "row_ref fr i = row_ref fr j"
  shows "i = j"
  using assms nth_eq_iff_index_eq [of "map settle_ref (all_rows fr)" i j] by (simp add: row_ref_def)

lemma sum_of_scaled: "sum_of (\<lambda>x. f x / k) xs = sum_of f xs / (k :: rat)"
  by (induction xs) (simp_all add: add_divide_distrib)

text \<open>The covered amount of a row is what its queue position took.\<close>

lemma covered_taken:
  assumes run: "settle_run (make_frame inp) inp = (dir, tooHigh, cr, applied, s)"
    and inv: "settle_inv (make_frame inp) s"
    and d: "distinct (map settle_ref (all_rows (make_frame inp)))" and i: "i < n_all (make_frame inp)"
  shows "covered_of (allocateAccountSettlement inp) (row_ref (make_frame inp) i)
    = takenMinor s ! i / factor (make_frame inp)"
proof -
  define fr where "fr = make_frame inp"
  have same: "row_ref fr j = row_ref fr i \<longleftrightarrow> j = i" if "(j, x, m) \<in> set (ss_takes s)" for j x m
  proof -
    have "j < n_all fr" using inv that by (auto simp: settle_inv_def fr_def)
    with row_ref_inj [OF d [folded fr_def]] i show ?thesis by (auto simp: fr_def)
  qed
  have "sum_of at_amount (filter (\<lambda>t. (at_kind t, at_id t) = row_ref fr i)
      (map (\<lambda>(j, source, m). \<lparr>at_kind = ar_kind (all_rows fr ! j), at_id = ar_id (all_rows fr ! j),
        at_member = member_supplier_id (all_rows fr ! j), at_source = source, at_amount = fromMinor (factor fr) m\<rparr>) ts))
    = sum_of (\<lambda>(j, source, m). m) (filter (\<lambda>(j, source, m). j = i) ts) / factor fr"
    if "set ts \<subseteq> set (ss_takes s)" for ts
    using that
  proof (induction ts)
    case (Cons t ts)
    obtain j x m where t: "t = (j, x, m)" by (cases t)
    with Cons.prems same have "row_ref fr j = row_ref fr i \<longleftrightarrow> j = i" by auto
    with Cons t show ?case by (auto simp: row_ref_def fromMinor_eq add_divide_distrib)
  qed simp
  from this [of "ss_takes s"] show ?thesis
    using settle_parts(1) [OF run] inv i by (simp add: covered_of_def fr_def settle_inv_def)
qed

section \<open>The classes of a row\<close>

lemma classify_closed:
  "sc_closed (classify fr s is c) = sc_closed c @ map (row_ref fr) (filter (\<lambda>i. isZero fr (rem s ! i)) is)"
  by (induction "is" arbitrary: c) (auto simp: Let_def)

lemma classify_untouched:
  "sc_untouched (classify fr s is c)
     = sc_untouched c @ map (row_ref fr) (filter (\<lambda>i. \<not> isZero fr (rem s ! i) \<and> takenMinor s ! i = 0) is)"
  by (induction "is" arbitrary: c) (auto simp: Let_def)

lemma classes_of_row:
  assumes run: "settle_run (make_frame inp) inp = (dir, tooHigh, cr, applied, s)"
    and d: "distinct (map settle_ref (all_rows (make_frame inp)))" and i: "i < n_all (make_frame inp)"
  defines "fr \<equiv> make_frame inp" and "r \<equiv> allocateAccountSettlement inp"
  shows "row_ref fr i \<in> set (as_closed r) \<longleftrightarrow> isZero fr (rem s ! i)"
    and "row_ref fr i \<in> set (as_untouched r) \<longleftrightarrow> \<not> isZero fr (rem s ! i) \<and> takenMinor s ! i = 0"
proof -
  have inj: "row_ref fr i = row_ref fr j \<Longrightarrow> j < n_all fr \<Longrightarrow> j = i" for j
    using row_ref_inj [OF d i] by (auto simp: fr_def)
  note parts = settle_parts(3) [OF run, folded fr_def r_def]
  show "row_ref fr i \<in> set (as_closed r) \<longleftrightarrow> isZero fr (rem s ! i)"
    using parts i by (auto simp: Let_def classify_closed indices_def fr_def image_iff dest: inj [unfolded fr_def])
  show "row_ref fr i \<in> set (as_untouched r) \<longleftrightarrow> \<not> isZero fr (rem s ! i) \<and> takenMinor s ! i = 0"
    using parts i by (auto simp: Let_def classify_untouched indices_def fr_def image_iff dest: inj [unfolded fr_def])
qed

text \<open>C31. No row is over-covered, and the class of a row is what its takes say: with distinct row
  references, the takes of a row add up to at most the amount it had left (in minor units), the row
  is closed exactly when what remains is within the tolerance, and untouched exactly when it has no
  take and more than the tolerance remains.\<close>

theorem settlement_row_coverage:
  assumes "distinct (map settle_ref (ai_rows inp @ account_credits inp))"
    and "x \<in> set (ai_rows inp @ account_credits inp)"
  defines "r \<equiv> allocateAccountSettlement inp" and "f \<equiv> minorFactor (ai_currency inp)"
    and "due \<equiv> \<bar>toMinor (minorFactor (ai_currency inp)) (ar_remaining x)\<bar>"
  shows "0 \<le> covered_of r (settle_ref x) \<and> covered_of r (settle_ref x) * f \<le> due
    \<and> (settle_ref x \<in> set (as_closed r) \<longleftrightarrow> due - covered_of r (settle_ref x) * f \<le> max (1 / 2) (ai_eps inp * f))
    \<and> (settle_ref x \<in> set (as_untouched r)
        \<longleftrightarrow> covered_of r (settle_ref x) = 0 \<and> due > max (1 / 2) (ai_eps inp * f))"
proof -
  define fr where "fr = make_frame inp"
  have ok: "frame_ok fr" by (simp add: fr_def make_frame_ok)
  obtain dir tooHigh cr applied s where run: "settle_run fr inp = (dir, tooHigh, cr, applied, s)" by (metis surj_pair)
  have inv: "settle_inv fr s" using settle_run_spec [OF ok run] by blast
  note d = refs_distinct [OF assms(1)]
  have "x \<in> set (all_rows fr)" using assms(2) mset_eq_setD [OF all_rows_make [of inp]] by (simp add: fr_def)
  then obtain i where i: "i < n_all fr" "all_rows fr ! i = x" by (auto simp: in_set_conv_nth)
  have ref: "row_ref fr i = settle_ref x" using i by (simp add: row_ref_def)
  have f: "factor fr = f" "0 < f" "epsMinor fr = max (1 / 2) (ai_eps inp * f)"
    by (simp_all add: fr_def f_def make_frame_def Let_def minorFactor_def)
  have due: "\<bar>orig fr ! i\<bar> = due" using orig_make [of i inp] i by (simp add: due_def fr_def [symmetric] f(1) f_def)
  have cov: "covered_of r (settle_ref x) = takenMinor s ! i / f"
    using covered_taken [OF run [unfolded fr_def] inv [unfolded fr_def] d i(1) [unfolded fr_def]] ref f(1)
    by (simp add: fr_def r_def)
  have taken: "0 \<le> takenMinor s ! i" "takenMinor s ! i \<le> due" using inv i(1) due by (auto simp: settle_inv_def)
  have zero: "isZero fr (rem s ! i) \<longleftrightarrow> due - takenMinor s ! i \<le> max (1 / 2) (ai_eps inp * f)"
    using open_iff(5) [OF ok inv i(1)] unfolding is_open_def left_def due f(3) not_less .
  note cls = classes_of_row [OF run [unfolded fr_def] d i(1) [unfolded fr_def], folded fr_def r_def, unfolded ref zero]
  show ?thesis using taken cls f(2) by (auto simp: cov)
qed

lemma sample_settlement_refs: "distinct (map settle_ref (ai_rows sample_settlement @ account_credits sample_settlement))"
  by (simp add: sample_settlement_def sample_row_def)

theorem settlement_row_coverage_witness:
  "covered_of (allocateAccountSettlement sample_settlement) (LEDGER, 4) = 15
   \<and> \<not> (LEDGER, 4) \<in> set (as_closed (allocateAccountSettlement sample_settlement))"
proof -
  have "covered_of (allocateAccountSettlement sample_settlement) (LEDGER, 4) = 15" by code_simp
  moreover have "settle_ref (sample_row 4 (- 20)) = (LEDGER, 4)" "ai_eps sample_settlement = 1 / 100"
    "minorFactor (ai_currency sample_settlement) = 100" "\<bar>toMinor 100 (ar_remaining (sample_row 4 (- 20)))\<bar> = 2000"
    by code_simp+
  moreover have "sample_row 4 (- 20) \<in> set (ai_rows sample_settlement @ account_credits sample_settlement)"
    by (simp add: sample_settlement_def)
  ultimately show ?thesis using settlement_row_coverage [OF sample_settlement_refs] by fastforce
qed

section \<open>The split of the commission\<close>

lemma allocateProportional_nonneg:
  assumes "0 < unit" "0 \<le> t" "sh \<in> set (allocateProportional rows (Fin t) unit)"
  shows "0 \<le> sh_amount sh"
proof (cases "rows = []")
  case False
  define n where "n = math_round (\<bar>t\<bar> / unit)"
  have n: "0 \<le> n" using assms(1) by (auto simp: n_def intro!: math_round_nonneg)
  have "0 \<le> shareUnits (rawShareUnits rows n) n ! i" if "i < length rows" for i
  proof -
    have "0 \<le> rawShareUnits rows n ! i" using that by (intro raw_nonneg [OF n, of _ rows] nth_mem) simp
    then have "0 \<le> \<lfloor>rawShareUnits rows n ! i\<rfloor>" by simp
    also have "\<dots> \<le> shareUnits (rawShareUnits rows n) n ! i"
      using shareUnits_quota [OF sum_raw [OF False], of i n] that by simp
    finally show ?thesis .
  qed
  then have "0 \<le> sh_amount (unit_shares rows 1 n unit ! i)" if "i < length rows" for i
    using that assms(1) by (simp add: nth_unit_shares)
  moreover have "length (unit_shares rows 1 n unit) = length rows"
    by (simp add: unit_shares_def)
  ultimately have "0 \<le> sh_amount x" if "x \<in> set (unit_shares rows 1 n unit)" for x
    using that by (auto simp: in_set_conv_nth)
  with assms(2,3) show ?thesis
    unfolding allocateProportional_Fin [OF assms(1) False] n_def [symmetric]
    by (auto simp: zero_shares_def split: if_splits)
qed (use assms(3) in \<open>simp add: allocateProportional_def\<close>)

text \<open>A \<open>Map\<close> of amounts: its total after a \<open>set\<close>.\<close>

definition amounts_ok :: "(nat \<times> amount) list \<Rightarrow> nat list \<Rightarrow> bool" where
  "amounts_ok am pool \<longleftrightarrow> distinct (map fst am) \<and> fst ` set am \<subseteq> set pool \<and> (\<forall>p \<in> set am. 0 \<le> snd p)"

lemma put_amount_keys: "fst ` set (put_amount i v am) = insert i (fst ` set am)"
  by (induction am) auto

lemma put_amount_ok:
  assumes "amounts_ok am pool" "i \<in> set pool" "0 \<le> v"
  shows "amounts_ok (put_amount i v am) pool"
proof -
  have "distinct (map fst am) \<Longrightarrow> distinct (map fst (put_amount i v am))"
  proof (induction am)
    case (Cons p am)
    then show ?case using put_amount_keys [of i v am] by auto
  qed simp
  moreover have "\<forall>p \<in> set am. 0 \<le> snd p \<Longrightarrow> \<forall>p \<in> set (put_amount i v am). 0 \<le> snd p"
    using assms(3) by (induction am) auto
  ultimately show ?thesis using assms put_amount_keys [of i v am] by (auto simp: amounts_ok_def)
qed

lemma put_amount_sum:
  "distinct (map fst am) \<Longrightarrow> sum_of snd (put_amount i v am) = sum_of snd am - get_amount am i + v"
proof (induction am)
  case (Cons p am)
  have "get_amount am (fst p) = 0"
    using Cons.prems by (auto simp: get_amount_def split: option.splits dest!: map_of_SomeD intro: rev_image_eqI)
  with Cons show ?case by (auto simp: get_amount_def)
qed (simp add: get_amount_def)

lemma get_amount_nonneg: "amounts_ok am pool \<Longrightarrow> 0 \<le> get_amount am i"
  by (auto simp: get_amount_def amounts_ok_def split: option.splits dest!: map_of_SomeD)

lemma fold_shares_ok:
  assumes "amounts_ok am pool" "\<And>sh. sh \<in> set shs \<Longrightarrow> sh_id sh \<in> set pool \<and> 0 \<le> sh_amount sh"
  shows "amounts_ok (fold (\<lambda>sh am. put_amount (sh_id sh) (get_amount am (sh_id sh) + sh_amount sh) am) shs am) pool
    \<and> sum_of snd (fold (\<lambda>sh am. put_amount (sh_id sh) (get_amount am (sh_id sh) + sh_amount sh) am) shs am)
        = sum_of snd am + sum_of sh_amount shs"
  using assms
proof (induction shs arbitrary: am)
  case (Cons sh shs)
  let ?am = "put_amount (sh_id sh) (get_amount am (sh_id sh) + sh_amount sh) am"
  have "amounts_ok ?am pool"
    using Cons.prems(1,2) get_amount_nonneg [OF Cons.prems(1)] by (intro put_amount_ok) auto
  moreover have "sum_of snd ?am = sum_of snd am + sh_amount sh"
    using Cons.prems(1) put_amount_sum [of am] by (simp add: amounts_ok_def)
  ultimately show ?case using Cons.IH [of ?am] Cons.prems(2) by simp
qed simp

lemma spread_ok:
  assumes "amounts_ok am pool" "pool' \<noteq> []" "set pool' \<subseteq> set pool" "0 \<le> tot" "tot \<in> \<int>"
  shows "amounts_ok (spread pool' w tot am) pool \<and> sum_of snd (spread pool' w tot am) = sum_of snd am + tot"
proof (cases "tot \<le> 0")
  case False
  let ?shs = "allocateProportional (weighted pool' w) (Fin tot) 1"
  have "map sh_id ?shs = pool'" by (simp add: allocateProportional_ids weighted_def comp_def)
  then have ids: "sh_id ` set ?shs \<subseteq> set pool" using assms(3) by (metis set_map)
  obtain n where n: "tot = of_int n" using assms(5) by (auto elim: Ints_cases)
  have "sum_of sh_amount ?shs = tot"
    using assms(2,4) by (subst allocateProportional_sum) (auto simp: weighted_def n)
  with fold_shares_ok [OF assms(1), of ?shs] ids allocateProportional_nonneg [of 1 tot _ "weighted pool' w"] assms(4) False
  show ?thesis by (auto simp: spread_def image_subset_iff)
qed (use assms in \<open>auto simp: spread_def\<close>)

lemma fold_put_ok:
  assumes "amounts_ok am pool" "distinct is" "set is \<inter> fst ` set am = {}" "set is \<subseteq> set pool" "\<And>i. i \<in> set is \<Longrightarrow> 0 \<le> v i"
  shows "amounts_ok (fold (\<lambda>i am. put_amount i (v i) am) is am) pool
    \<and> sum_of snd (fold (\<lambda>i am. put_amount i (v i) am) is am) = sum_of snd am + sum_of v is"
  using assms
proof (induction "is" arbitrary: am)
  case (Cons i "is")
  have "get_amount am i = 0"
    using Cons.prems(3) by (auto simp: get_amount_def split: option.splits dest!: map_of_SomeD intro: rev_image_eqI)
  then have "sum_of snd (put_amount i (v i) am) = sum_of snd am + v i"
    using Cons.prems(1) put_amount_sum [of am i "v i"] by (simp add: amounts_ok_def)
  moreover have "amounts_ok (put_amount i (v i) am) pool" using Cons.prems by (intro put_amount_ok) auto
  moreover have "set is \<inter> fst ` set (put_amount i (v i) am) = {}" using Cons.prems by (auto simp: put_amount_keys)
  ultimately show ?case using Cons.IH [of "put_amount i (v i) am"] Cons.prems by simp
qed simp

lemma minor_nonneg: "0 \<le> splitMinor fr inp" "0 \<le> commissionMinor fr inp" "0 \<le> estimate fr i"
  by (auto simp: splitMinor_def commissionMinor_def estimate_def split: option.splits)

lemma minor_whole: "splitMinor fr inp \<in> \<int>" "commissionMinor fr inp \<in> \<int>" "estimate fr i \<in> \<int>"
  by (auto simp: splitMinor_def commissionMinor_def estimate_def Ints_abs split: option.splits)

text \<open>The rows among which the commission is split: when the commission covers, the in-scope
  model-1 rows of a type that is not unticked, those with an estimate if any has one; otherwise the
  closed ones.\<close>

definition estimated :: "settle_frame \<Rightarrow> nat list" where
  "estimated fr = filter (\<lambda>i. estimate fr i > 0) (model1_idx fr)"

definition receivers :: "settle_frame \<Rightarrow> AccountSettleAllocInput \<Rightarrow> settle_state \<Rightarrow> nat list" where
  "receivers fr inp s =
     (if commission_covers inp then (if estimated fr = [] then model1_idx fr else estimated fr)
      else eligible_idx fr s)"

lemma covered_amounts_ok:
  assumes some: "model1_idx fr \<noteq> []" and covers: "commission_covers inp"
  shows "amounts_ok (covered_amounts fr inp) (receivers fr inp s)
    \<and> sum_of snd (covered_amounts fr inp) = splitMinor fr inp"
proof -
  let ?pool = "receivers fr inp s"
  have none: "amounts_ok [] ?pool" by (simp add: amounts_ok_def)
  have sub: "set (estimated fr) \<subseteq> set ?pool" "distinct (estimated fr)"
    using covers by (auto simp: receivers_def estimated_def model1_idx_def indices_def)
  have pool: "?pool \<noteq> []" "estimated fr = [] \<Longrightarrow> ?pool = model1_idx fr"
    using some covers by (auto simp: receivers_def)
  define am where "am = fold (\<lambda>i am. put_amount i (estimate fr i) am) (estimated fr) []"
  have am: "amounts_ok am ?pool \<and> sum_of snd am = sum_of (estimate fr) (estimated fr)"
    using fold_put_ok [OF none sub(2) _ sub(1), of "estimate fr"] minor_nonneg(3) by (simp add: am_def)
  have whole: "splitMinor fr inp - sum_of (estimate fr) (estimated fr) \<in> \<int>"
    by (intro Ints_diff minor_whole Ints_sum_of)
  consider "estimated fr = []" | "estimated fr \<noteq> []" "splitMinor fr inp \<le> sum_of (estimate fr) (estimated fr)"
    | "estimated fr \<noteq> []" "sum_of (estimate fr) (estimated fr) < splitMinor fr inp" by linarith
  then show ?thesis
  proof cases
    case 1
    with spread_ok [OF none pool(1) subset_refl minor_nonneg(1) minor_whole(1)] pool(2) show ?thesis
      by (simp add: covered_amounts_def Let_def estimated_def [symmetric])
  next
    case 2
    with spread_ok [OF none 2(1) sub(1) minor_nonneg(1) minor_whole(1)] show ?thesis
      by (simp add: covered_amounts_def Let_def estimated_def [symmetric])
  next
    case 3
    with spread_ok [OF conjunct1 [OF am] 3(1) sub(1) _ whole] am show ?thesis
      by (simp add: covered_amounts_def Let_def estimated_def [symmetric] am_def [symmetric])
  qed
qed

definition split_ok ::
    "settle_frame \<Rightarrow> AccountSettleAllocInput \<Rightarrow> nat list \<Rightarrow> bool \<times> (nat \<times> amount) list \<Rightarrow> bool" where
  "split_ok fr inp pool p \<longleftrightarrow>
     sum_of snd (snd p) * factor fr = (if fst p then 0 else splitMinor fr inp) \<and> (\<forall>e \<in> set (snd p). 0 \<le> snd e)
     \<and> fst ` set (snd p) \<subseteq> (\<lambda>i. ar_id (all_rows fr ! i)) ` set pool
     \<and> (fst p \<longleftrightarrow> 0 < splitMinor fr inp \<and> pool = [])"

lemma split_okI:
  assumes "0 < factor fr" "sum_of snd am = splitMinor fr inp" "pool \<noteq> []"
    and "\<And>i m. (i, m) \<in> set am \<Longrightarrow> 0 \<le> m \<and> i \<in> set pool"
  shows "split_ok fr inp pool (False, map (\<lambda>(i, m). (ar_id (all_rows fr ! i), fromMinor (factor fr) m)) am)"
proof -
  have "sum_of snd (map (\<lambda>(i, m). (ar_id (all_rows fr ! i), fromMinor (factor fr) m)) am) = sum_of snd am / factor fr"
    by (induction am) (auto simp: fromMinor_eq add_divide_distrib)
  with assms show ?thesis by (fastforce simp: split_ok_def fromMinor_eq)
qed

lemma covered_split_ok:
  assumes f: "0 < factor fr" and some: "model1_idx fr \<noteq> []" and covers: "commission_covers inp"
  shows "split_ok fr inp (receivers fr inp s) (False, map (\<lambda>(i, m). (ar_id (all_rows fr ! i), fromMinor (factor fr) m))
    (js_sort (\<lambda>a b. of_nat (fst a) - of_nat (fst b)) (filter (\<lambda>(i, m). m > 0) (covered_amounts fr inp))))"
    (is "split_ok _ _ _ (_, map _ ?am)")
proof (rule split_okI [OF f])
  note ok = covered_amounts_ok [OF some covers, of s]
  have "sum_of snd ?am = sum_of snd (filter (\<lambda>p. snd p > 0) (covered_amounts fr inp))"
    by (rule sum_of_mset_eq) (simp add: case_prod_beta)
  also have "\<dots> = sum_of snd (covered_amounts fr inp)"
    using ok sum_of_filter_split [of snd "covered_amounts fr inp" "\<lambda>p. snd p > 0"]
      sum_of_zero [of "filter (\<lambda>p. \<not> snd p > 0) (covered_amounts fr inp)" snd]
    by (force simp: amounts_ok_def)
  finally show "sum_of snd ?am = splitMinor fr inp" using ok by simp
  show "receivers fr inp s \<noteq> []" using some covers by (simp add: receivers_def)
  show "0 \<le> m \<and> i \<in> set (receivers fr inp s)" if "(i, m) \<in> set ?am" for i m
    using that ok by (force simp: amounts_ok_def)
qed

lemma closed_split_ok:
  fixes inp :: AccountSettleAllocInput
  assumes f: "0 < factor fr" and some: "eligible_idx fr s \<noteq> []"
  defines "shs \<equiv> allocateProportional (weighted (eligible_idx fr s) (\<lambda>i. orig fr ! i)) (Fin (splitMinor fr inp)) 1"
  shows "split_ok fr inp (eligible_idx fr s)
    (False, map (\<lambda>sh. (ar_id (all_rows fr ! sh_id sh), fromMinor (factor fr) (sh_amount sh))) shs)"
proof -
  let ?am = "map (\<lambda>sh. (sh_id sh, sh_amount sh)) shs"
  have "map sh_id shs = eligible_idx fr s" by (simp add: shs_def allocateProportional_ids weighted_def comp_def)
  then have ids: "sh_id ` set shs = set (eligible_idx fr s)" by (metis set_map)
  obtain n where n: "splitMinor fr inp = of_int n" using minor_whole(1) [of fr inp] by (auto elim: Ints_cases)
  have "sum_of sh_amount shs = splitMinor fr inp"
    unfolding shs_def using some minor_nonneg(1) [of fr inp]
    by (subst allocateProportional_sum) (auto simp: weighted_def n)
  then have "sum_of snd ?am = splitMinor fr inp" by (simp add: comp_def)
  moreover have "0 \<le> m \<and> i \<in> set (eligible_idx fr s)" if "(i, m) \<in> set ?am" for i m
  proof -
    from that obtain sh where sh: "sh \<in> set shs" "i = sh_id sh" "m = sh_amount sh" by auto
    then have "0 \<le> m" using allocateProportional_nonneg [OF zero_less_one minor_nonneg(1) sh(1) [unfolded shs_def]] by simp
    with ids sh show ?thesis by blast
  qed
  ultimately show ?thesis using split_okI [OF f, of ?am inp] some by (simp add: comp_def)
qed

lemma commission_part_ok:
  assumes "frame_ok fr"
  shows "split_ok fr inp (receivers fr inp s) (commission_part fr inp s)"
proof -
  have f: "0 < factor fr" using assms by (simp add: frame_ok_def)
  have none: "splitMinor fr inp = 0 \<Longrightarrow> split_ok fr inp (receivers fr inp s) (False, [])"
    "0 < splitMinor fr inp \<Longrightarrow> receivers fr inp s = [] \<Longrightarrow> split_ok fr inp (receivers fr inp s) (True, [])"
    by (simp_all add: split_ok_def)
  have plain: "splitMinor fr inp = commissionMinor fr inp" if "\<not> commission_covers inp \<or> commission_split inp = None"
    using that by (auto simp: splitMinor_def split: option.splits)
  consider "splitMinor fr inp = 0" "commission_covers inp \<or> commissionMinor fr inp = 0"
    | "splitMinor fr inp > 0" "commission_covers inp"
    | "splitMinor fr inp > 0" "\<not> commission_covers inp"
    using minor_nonneg(1,2) [of fr inp] plain by fastforce
  then show ?thesis
  proof cases
    case 1
    with none(1) minor_nonneg(2) [of fr inp] show ?thesis by (auto simp: commission_part_def)
  next
    case 2
    moreover have "model1_idx fr = [] \<Longrightarrow> receivers fr inp s = []"
      using 2(2) by (simp add: receivers_def estimated_def)
    ultimately show ?thesis using none(2) covered_split_ok [OF f _ 2(2), of s] by (simp add: commission_part_def)
  next
    case 3
    then have "receivers fr inp s = eligible_idx fr s" by (simp add: receivers_def)
    with 3 none(2) closed_split_ok [OF f, of s inp] plain show ?thesis by (simp add: commission_part_def)
  qed
qed

text \<open>The rows that earn the commission, in terms of the input and the result. When the commission
  covers: the in-scope rows of an own-commission transfer that owe something and whose type is not
  unticked. Otherwise: the debts of such transfers that this settlement closes.\<close>

definition earns_commission ::
    "AccountSettleAllocInput \<Rightarrow> AccountSettleAllocResult \<Rightarrow> AccountSettleAllocRow \<Rightarrow> bool" where
  "earns_commission inp r x \<longleftrightarrow> commission_model1 x
     \<and> (if commission_covers inp
        then x \<in> set (ai_rows inp) \<and> toMinor (minorFactor (ai_currency inp)) (ar_remaining x) \<noteq> 0
          \<and> commission_ticked x \<noteq> Some False
        else x \<in> set (ai_rows inp @ account_credits inp)
          \<and> toMinor (minorFactor (ai_currency inp)) (ar_remaining x) > 0 \<and> settle_ref x \<in> set (as_closed r))"

definition estimate_of :: "AccountSettleAllocInput \<Rightarrow> AccountSettleAllocRow \<Rightarrow> amount" where
  "estimate_of inp x =
     \<bar>toMinor (minorFactor (ai_currency inp)) (case commission_estimate x of None \<Rightarrow> 0 | Some v \<Rightarrow> v)\<bar>"

lemma frame_rows:
  fixes inp :: AccountSettleAllocInput
  defines "fr \<equiv> make_frame inp"
  shows "set (all_rows fr) = set (ai_rows inp @ account_credits inp)"
    and "x \<in> set (ai_rows inp) \<longleftrightarrow> (\<exists>i < nRows fr. i < n_all fr \<and> all_rows fr ! i = x)"
    and "factor fr = minorFactor (ai_currency inp)" and "0 < factor fr"
proof -
  show "set (all_rows fr) = set (ai_rows inp @ account_credits inp)"
    unfolding fr_def by (rule mset_eq_setD [OF all_rows_make])
  show "factor fr = minorFactor (ai_currency inp)" and "0 < factor fr"
    by (simp_all add: fr_def make_frame_def Let_def minorFactor_def)
  have sorted: "set (js_sort compareAccountSettleRows (ai_rows inp)) = set (ai_rows inp)" by simp
  have "x \<in> set (ai_rows inp) \<longleftrightarrow> (\<exists>i < nRows fr. all_rows fr ! i = x)"
    unfolding fr_def make_frame_def Let_def sorted [symmetric] in_set_conv_nth
    by (auto simp: nth_append)
  moreover have "nRows fr \<le> n_all fr" by (simp add: fr_def make_frame_def Let_def)
  ultimately show "x \<in> set (ai_rows inp) \<longleftrightarrow> (\<exists>i < nRows fr. i < n_all fr \<and> all_rows fr ! i = x)" by fastforce
qed

lemma earns_at:
  assumes run: "settle_run (make_frame inp) inp = (dir, tooHigh, cr, applied, s)"
    and d: "distinct (map settle_ref (all_rows (make_frame inp)))" and i: "i < n_all (make_frame inp)"
  defines "fr \<equiv> make_frame inp"
  shows "earns_commission inp (allocateAccountSettlement inp) (all_rows fr ! i)
    \<longleftrightarrow> i \<in> set (if commission_covers inp then model1_idx fr else eligible_idx fr s)"
proof -
  have "i < nRows fr" if "j < nRows fr" "j < n_all fr" "all_rows fr ! j = all_rows fr ! i" for j
    using row_ref_inj [OF d i that(2) [unfolded fr_def]] that by (simp add: row_ref_def fr_def)
  then have scope: "all_rows fr ! i \<in> set (ai_rows inp) \<longleftrightarrow> i < nRows fr"
    using i frame_rows(2) [of "all_rows fr ! i" inp] by (auto simp: fr_def)
  have member: "all_rows fr ! i \<in> set (ai_rows inp @ account_credits inp)"
    using i frame_rows(1) [of inp] nth_mem [of i "all_rows fr"] unfolding fr_def by blast
  have due: "orig fr ! i = toMinor (minorFactor (ai_currency inp)) (ar_remaining (all_rows fr ! i))"
    using orig_make [OF i] frame_rows(3) [of inp] by (simp add: fr_def)
  have closed: "settle_ref (all_rows fr ! i) \<in> set (as_closed (allocateAccountSettlement inp)) \<longleftrightarrow> isZero fr (rem s ! i)"
    using classes_of_row(1) [OF run d i] i by (simp add: fr_def row_ref_def)
  show ?thesis
    unfolding earns_commission_def scope closed due [symmetric] using member i
    by (auto simp: model1_idx_def eligible_idx_def indices_def fr_def)
qed

text \<open>The rows the code picks are the rows that earn a share.\<close>

definition split_rows :: "AccountSettleAllocInput \<Rightarrow> AccountSettleAllocResult \<Rightarrow> AccountSettleAllocRow set" where
  "split_rows inp r = {x. earns_commission inp r x
     \<and> (commission_covers inp \<and> (\<exists>y. earns_commission inp r y \<and> 0 < estimate_of inp y) \<longrightarrow> 0 < estimate_of inp x)}"

lemma receivers_earn:
  fixes inp :: AccountSettleAllocInput
  assumes run: "settle_run (make_frame inp) inp = (dir, tooHigh, cr, applied, s)"
    and d: "distinct (map settle_ref (all_rows (make_frame inp)))"
  defines "fr \<equiv> make_frame inp" and "r \<equiv> allocateAccountSettlement inp"
  shows "(\<lambda>i. ar_id (all_rows fr ! i)) ` set (receivers fr inp s) \<subseteq> ar_id ` split_rows inp r"
    and "receivers fr inp s = [] \<longleftrightarrow> \<not> (\<exists>x. earns_commission inp r x)"
proof -
  let ?pool = "if commission_covers inp then model1_idx fr else eligible_idx fr s"
  have at: "earns_commission inp r (all_rows fr ! i) \<longleftrightarrow> i \<in> set ?pool" if "i < n_all fr" for i
    using earns_at [OF run d] that by (simp add: fr_def r_def)
  have earner: "\<exists>i < n_all fr. all_rows fr ! i = x \<and> i \<in> set ?pool" if "earns_commission inp r x" for x
  proof -
    from that have "x \<in> set (all_rows fr)"
      using frame_rows(1) [of inp] by (auto simp: earns_commission_def fr_def split: if_splits)
    then obtain i where "i < n_all fr" "all_rows fr ! i = x" by (auto simp: in_set_conv_nth)
    with that at show ?thesis by blast
  qed
  have bound: "i \<in> set ?pool \<Longrightarrow> i < n_all fr" for i
    by (auto simp: model1_idx_def eligible_idx_def indices_def split: if_splits)
  have est: "estimate fr i = estimate_of inp (all_rows fr ! i)" for i
    using frame_rows(3) [of inp] by (simp add: estimate_def estimate_of_def fr_def)
  have "?pool = [] \<longleftrightarrow> \<not> (\<exists>x. earns_commission inp r x)"
    using at bound earner by (metis last_in_set length_greater_0_conv length_pos_if_in_set)
  then show "receivers fr inp s = [] \<longleftrightarrow> \<not> (\<exists>x. earns_commission inp r x)"
    by (auto simp: receivers_def estimated_def)
  show "(\<lambda>i. ar_id (all_rows fr ! i)) ` set (receivers fr inp s) \<subseteq> ar_id ` split_rows inp r"
  proof (rule image_subsetI)
    fix i
    assume i: "i \<in> set (receivers fr inp s)"
    then have "i \<in> set ?pool" by (auto simp: receivers_def estimated_def split: if_splits)
    then have "earns_commission inp r (all_rows fr ! i)" using at bound by blast
    moreover have "0 < estimate_of inp (all_rows fr ! i)"
      if covers: "commission_covers inp" and y: "earns_commission inp r y" "0 < estimate_of inp y" for y
    proof -
      from earner [OF y(1)] y(2) covers have "estimated fr \<noteq> []"
        by (auto simp: estimated_def est filter_empty_conv)
      with i covers have "i \<in> set (estimated fr)" by (simp add: receivers_def)
      then show ?thesis by (simp add: estimated_def est)
    qed
    ultimately have "all_rows fr ! i \<in> split_rows inp r" by (auto simp: split_rows_def)
    then show "ar_id (all_rows fr ! i) \<in> ar_id ` split_rows inp r" by (rule imageI)
  qed
qed

text \<open>C32. The commission is split exactly over the rows that earn it, with distinct row references:
  the shares are non-negative and add up to the commission to split (the part named by
  \<open>commission_split\<close> when the commission covers, the whole commission otherwise), and only rows that
  earn it receive one: when the commission covers, own-commission transfers in scope that owe
  something and whose type is not unticked, and of these only the ones with an estimate if any has
  one; otherwise the own-commission debts this settlement closes. The flag is raised exactly when
  there is commission to split and no row earns it, and then nothing is split.\<close>

theorem commission_split_exact:
  fixes inp :: AccountSettleAllocInput
  assumes "distinct (map settle_ref (ai_rows inp @ account_credits inp))"
  defines "r \<equiv> allocateAccountSettlement inp" and "fr \<equiv> make_frame inp"
  shows "sum_of snd (commission_alloc r) * minorFactor (ai_currency inp)
      = (if commission_without_closed_model1 r then 0 else splitMinor fr inp)
    \<and> (\<forall>e \<in> set (commission_alloc r). 0 \<le> snd e)
    \<and> fst ` set (commission_alloc r) \<subseteq> ar_id ` split_rows inp r
    \<and> (commission_without_closed_model1 r \<longleftrightarrow> 0 < splitMinor fr inp \<and> \<not> (\<exists>x. earns_commission inp r x))"
proof -
  obtain dir tooHigh cr applied s where run: "settle_run (make_frame inp) inp = (dir, tooHigh, cr, applied, s)"
    by (metis surj_pair)
  note earn = receivers_earn [OF run refs_distinct [OF assms(1)], folded r_def fr_def]
  have "commission_part fr inp s = (commission_without_closed_model1 r, commission_alloc r)"
    using settle_parts(4,5) [OF run] by (simp add: r_def fr_def prod_eq_iff)
  with commission_part_ok [OF make_frame_ok [of inp], of inp s]
  have ok: "split_ok fr inp (receivers fr inp s) (commission_without_closed_model1 r, commission_alloc r)"
    by (simp add: fr_def)
  then have "fst ` set (commission_alloc r) \<subseteq> ar_id ` split_rows inp r"
    using earn(1) unfolding split_ok_def snd_conv by (blast dest: subset_trans)
  with ok earn(2) frame_rows(3) [of inp, folded fr_def] show ?thesis by (simp add: split_ok_def)
qed

theorem commission_split_exact_witness:
  "commission_alloc (allocateAccountSettlement sample_settlement) = [(1, 389 / 100), (3, 311 / 100)]
   \<and> sum_of snd (commission_alloc (allocateAccountSettlement sample_settlement)) * 100 = 700"
proof -
  have "commission_alloc (allocateAccountSettlement sample_settlement) = [(1, 389 / 100), (3, 311 / 100)]" by code_simp
  moreover have "splitMinor (make_frame sample_settlement) sample_settlement = 700"
    "minorFactor (ai_currency sample_settlement) = 100"
    "commission_without_closed_model1 (allocateAccountSettlement sample_settlement) = False" by code_simp+
  ultimately show ?thesis using commission_split_exact [OF sample_settlement_refs] by simp
qed

end
