(* ===== verification/Offline_Ids.thy ===== *)
theory Offline_Ids
  imports Prelude
begin

text \<open>
  Model of \<open>offline/idRange.ts\<close>: the layout \<open>P * 10^12 + T * 10^9 + n\<close> of the ids a PC gives to rows it
  creates offline. A JavaScript number is a rational; the numbers an id passes through are safe
  integers, on which the arithmetic of the code is exact.
\<close>

section \<open>Numbers and JSON values\<close>

definition isInteger :: "amount \<Rightarrow> bool" where
  "isInteger x \<longleftrightarrow> of_int \<lfloor>x\<rfloor> = x"

definition isSafeInteger :: "amount \<Rightarrow> bool" where
  "isSafeInteger x \<longleftrightarrow> isInteger x \<and> \<bar>x\<bar> \<le> 9007199254740991"

datatype json =
    JNull
  | JBool bool
  | JNum amount
  | JStr string
  | JArr "json list"
  | JObj "(string \<times> json) list"

type_synonym json_object = "(string \<times> json) list"

text \<open>\<open>{ ...a, ...b }\<close>.\<close>

definition obj_spread :: "json_object \<Rightarrow> json_object \<Rightarrow> json_object" where
  "obj_spread a b =
     map (\<lambda>(k, v). (k, case map_of b k of None \<Rightarrow> v | Some w \<Rightarrow> w)) a
       @ filter (\<lambda>(k, v). map_of a k = None) b"

section \<open>The layout\<close>

definition OFFLINE_ID_FLOOR :: nat where
  "OFFLINE_ID_FLOOR = 1000000000000"

definition TABLE_STRIDE :: nat where
  "TABLE_STRIDE = 1000000000"

definition OFFLINE_PC_MIN :: nat where
  "OFFLINE_PC_MIN = 1"

definition OFFLINE_PC_MAX :: nat where
  "OFFLINE_PC_MAX = 9006"

definition OFFLINE_TABLE_INDEX_MAX :: nat where
  "OFFLINE_TABLE_INDEX_MAX = 999"

definition OFFLINE_N_MAX :: nat where
  "OFFLINE_N_MAX = 999999999"

definition OFFLINE_ID_TABLES :: "string list" where
  "OFFLINE_ID_TABLES =
    [''tenants'', ''tenant_subscriptions'', ''email_outbox'', ''signup_invitations'', ''system_settings'',
     ''users'', ''user_invitations'', ''password_reset_tokens'', ''email_verification_tokens'',
     ''user_identities'', ''sso_handoff_tokens'', ''signin_codes'', ''signin_directory'', ''sessions'',
     ''transactions'', ''currencies'', ''exchange_rates'', ''clients'', ''suppliers'', ''products'',
     ''product_categories'', ''product_suppliers'', ''product_units'', ''sales'', ''sale_items'',
     ''debt_ledger'', ''customer_sessions'', ''customer_session_transactions'', ''session_cart_items'',
     ''supplier_ledger'', ''supplier_settlements'', ''settlement_commission_allocations'',
     ''supplier_purchases'', ''maintenance'', ''maintenance_parts'', ''maintenance_status_history'',
     ''expenses'', ''recharges'', ''exchange_transactions'', ''exchange_lots'', ''exchange_lot_settlements'',
     ''exchange_position_adjustments'', ''financial_services'', ''partners'', ''partner_ledger'',
     ''custom_services'', ''service_presets'', ''item_costs'', ''voucher_images'', ''mobile_service_items'',
     ''carrier_lines'', ''carrier_line_movements'', ''carrier_line_owed_deliveries'', ''payments'',
     ''drawer_topups'', ''drawer_cashouts'', ''wallet_exchanges'', ''drawer_transfers'', ''daily_closings'',
     ''daily_closing_amounts'', ''daily_closing_carrier_lines'', ''sync_queue'', ''sync_errors'',
     ''product_stock_batches'', ''stock_batch_consumptions'', ''payment_methods'', ''service_providers'',
     ''vouchers'', ''loto_tickets'', ''loto_monthly_fees'', ''loto_checkpoints'', ''loto_cash_prizes'',
     ''loto_settlements'', ''audit_log'', ''hold_money'', ''hold_money_pickups'', ''stock_adjustments'',
     ''warranty_claims'', ''defective_items'', ''supplier_returns'', ''idempotency_keys'', ''resale_lines'',
     ''resale_line_recharges'', ''wrong_number_cards'', ''supplier_settlement_coverage'',
     ''resale_line_give_backs'', ''checkpoint_differences'', ''checkpoint_difference_resolutions'',
     ''partner_settlement_coverage'', ''kpi_snapshots'', ''kpi_snapshot_values'', ''omt_owed_shares'']"

definition OFFLINE_ID_EXCLUDED_TABLES :: "string list" where
  "OFFLINE_ID_EXCLUDED_TABLES =
    [''offline_devices'', ''offline_snapshots'', ''offline_events'', ''offline_id_map'',
     ''offline_review_items'', ''offline_outbox'', ''offline_outbox_created'', ''offline_copy_meta'']"

datatype range_error = RangeError string

record DecodedOfflineId =
  d_pc :: amount
  d_tableIndex :: amount
  d_table :: "string option"
  d_n :: amount

definition assertIntIn :: "string \<Rightarrow> amount \<Rightarrow> nat \<Rightarrow> nat \<Rightarrow> range_error option" where
  "assertIntIn name v lo hi =
     (if \<not> isInteger v \<or> v < of_nat lo \<or> v > of_nat hi then Some (RangeError name) else None)"

definition encodeOfflineId :: "amount \<Rightarrow> amount \<Rightarrow> amount \<Rightarrow> range_error + amount" where
  "encodeOfflineId pc tableIndex n =
     (case assertIntIn ''PC number'' pc OFFLINE_PC_MIN OFFLINE_PC_MAX of
        Some err \<Rightarrow> Inl err
      | None \<Rightarrow>
          (case assertIntIn ''table index'' tableIndex 0 OFFLINE_TABLE_INDEX_MAX of
             Some err \<Rightarrow> Inl err
           | None \<Rightarrow>
               (case assertIntIn ''n'' n 1 OFFLINE_N_MAX of
                  Some err \<Rightarrow> Inl err
                | None \<Rightarrow> Inr (pc * of_nat OFFLINE_ID_FLOOR + tableIndex * of_nat TABLE_STRIDE + n))))"

definition isOfflineId :: "amount \<Rightarrow> bool" where
  "isOfflineId v \<longleftrightarrow> isSafeInteger v \<and> v \<ge> of_nat OFFLINE_ID_FLOOR"

definition table_at :: "amount \<Rightarrow> string option" where
  "table_at i = (if nat \<lfloor>i\<rfloor> < length OFFLINE_ID_TABLES then Some (OFFLINE_ID_TABLES ! nat \<lfloor>i\<rfloor>) else None)"

definition decodeOfflineId :: "amount \<Rightarrow> DecodedOfflineId option" where
  "decodeOfflineId v =
     (if \<not> isOfflineId v then None
      else let pc = of_int \<lfloor>v / of_nat OFFLINE_ID_FLOOR\<rfloor>;
               rest = v - pc * of_nat OFFLINE_ID_FLOOR;
               tableIndex = of_int \<lfloor>rest / of_nat TABLE_STRIDE\<rfloor>;
               n = rest - tableIndex * of_nat TABLE_STRIDE
           in Some \<lparr>d_pc = pc, d_tableIndex = tableIndex, d_table = table_at tableIndex, d_n = n\<rparr>)"

fun table_position :: "string \<Rightarrow> string list \<Rightarrow> nat option" where
  "table_position x [] = None"
| "table_position x (y # ys) = (if x = y then Some 0 else map_option Suc (table_position x ys))"

definition offlineTableIndex :: "string \<Rightarrow> range_error + nat" where
  "offlineTableIndex tab =
     (case table_position tab OFFLINE_ID_TABLES of
        None \<Rightarrow> Inl (RangeError tab) | Some i \<Rightarrow> Inr i)"

text \<open>The test \<open>/^\d{1,16}$/\<close> and \<open>Number\<close> of such a text.\<close>

definition parseIdLike :: "json \<Rightarrow> amount option" where
  "parseIdLike v =
     (case v of
        JNum x \<Rightarrow> if isSafeInteger x then Some x else None
      | JStr s \<Rightarrow>
          (let t = trim s in
           if t = [] \<or> length t > 16 \<or> \<not> list_all is_digit t then None
           else let n = of_nat (digits_value t) in if isSafeInteger n then Some n else None)
      | _ \<Rightarrow> None)"

end
