(* ===== verification/Offline_Store.thy ===== *)
theory Offline_Store
  imports Offline_Ids
begin

text \<open>
  The server's store of offline work: model of \<open>offline/reviewKinds.ts\<close>, \<open>offline/skew.ts\<close>, the class
  lookup of \<open>offline/channelPolicy.ts\<close>, the repositories \<open>OfflineEventRepository.ts\<close>,
  \<open>OfflineIdMapRepository.ts\<close>, \<open>OfflineReviewRepository.ts\<close> and \<open>OfflineDeviceRepository.ts\<close> and the
  upload of \<open>OfflineEventService.ts\<close>.

  The database is one shop's part of the tables (every statement is scoped to the current tenant).
  A JSON column is held as the parsed value, an instant as the epoch milliseconds of its text, and
  the columns \<open>created_at\<close>, \<open>updated_at\<close>, \<open>processed_at\<close> and \<open>resolved_at\<close>, which nothing here reads,
  are left out. Every table the offline feature does not own is the component \<open>od_world\<close>.
\<close>

section \<open>Kinds and rows\<close>

datatype OfflineReviewKind =
    possible_duplicate | certain_duplicate | held_checkpoint | waiting | refused_kind | stock_count_off
  | ticks_dropped | customer_linked | clock_corrected | closed_day_changed | came_out_differently
  | user_switched_off | pc_data_mismatch | rate_changed

definition OFFLINE_HOLDING_KINDS :: "OfflineReviewKind list" where
  "OFFLINE_HOLDING_KINDS = [possible_duplicate, held_checkpoint, waiting, refused_kind]"

datatype OfflineEventStatus = received | booked | skipped | held | refused | applied | dismissed

datatype OfflineReviewState = item_open | item_applied | item_dismissed | item_reviewed

datatype ChannelClass = offline | checkpoint | online_only | read | local

record ChannelPolicyEntry =
  channel :: string
  cls :: ChannelClass
  label :: "string option"
  roles :: "string list"

definition policyEntry :: "ChannelPolicyEntry list \<Rightarrow> string \<Rightarrow> ChannelPolicyEntry option" where
  "policyEntry policy c = find (\<lambda>e. channel e = c) (rev policy)"

text \<open>\<open>None\<close> is \<open>unclassified\<close>.\<close>

definition classOf :: "ChannelPolicyEntry list \<Rightarrow> string \<Rightarrow> ChannelClass option" where
  "classOf policy c = map_option cls (policyEntry policy c)"

type_synonym created_ids = "(string \<times> nat list) list"

record OfflineEventRow =
  ev_id :: nat
  ev_device_id :: nat
  event_id :: string
  device_seq :: nat
  ev_channel :: string
  payload :: json_object
  payload_hash :: string
  actor_user_id :: nat
  occurred_at :: int
  corrected_at :: "int option"
  client_day :: string
  client_tz_offset_minutes :: int
  copy_id :: string
  app_version :: string
  schema_version :: nat
  schema_shape :: json
  rates :: json
  created :: created_ids
  depends_on :: "string list"
  status :: OfflineEventStatus
  attempts :: nat
  result_server_ids :: "created_ids option"
  ev_error :: "string option"
  ev_resolved_by :: "nat option"

datatype link_kind = created_link | linked_existing

record OfflineIdMapRow =
  im_id :: nat
  offline_id :: nat
  im_device_id :: nat
  table_name :: string
  server_id :: nat
  im_event_id :: string
  im_link_kind :: link_kind

record OfflineReviewRow =
  ri_id :: nat
  event_row_id :: "nat option"
  ri_device_id :: nat
  ri_kind :: OfflineReviewKind
  ri_state :: OfflineReviewState
  details :: json_object
  ri_resolved_by :: "nat option"

record OfflineDeviceRow =
  dv_id :: nat
  device_no :: nat
  last_skew_ms :: "int option"
  last_online_skew_ms :: "int option"
  next_expected_seq :: nat

text \<open>An audit row of the action \<open>offline_replay\<close>: the event booked and the rows it created.\<close>

record audit_row =
  au_user :: nat
  au_username :: string
  au_role :: string
  au_event_id :: string
  au_summary :: string
  au_channel :: string
  au_device :: nat
  au_seq :: nat
  au_created :: created_ids

record 'w offline_db =
  od_events :: "OfflineEventRow list"
  event_counter :: nat
  od_id_map :: "OfflineIdMapRow list"
  map_counter :: nat
  od_reviews :: "OfflineReviewRow list"
  review_counter :: nat
  od_devices :: "OfflineDeviceRow list"
  od_audit :: "audit_row list"
  od_world :: 'w

section \<open>Events\<close>

definition find_event :: "nat \<Rightarrow> 'w offline_db \<Rightarrow> OfflineEventRow option" where
  "find_event i db = find (\<lambda>e. ev_id e = i) (od_events db)"

definition findByEventId :: "string \<Rightarrow> 'w offline_db \<Rightarrow> OfflineEventRow option" where
  "findByEventId i db = find (\<lambda>e. event_id e = i) (od_events db)"

definition findBySeq :: "nat \<Rightarrow> nat \<Rightarrow> 'w offline_db \<Rightarrow> OfflineEventRow option" where
  "findBySeq deviceId sq db = find (\<lambda>e. ev_device_id e = deviceId \<and> device_seq e = sq) (od_events db)"

definition findManyByEventIds :: "string list \<Rightarrow> 'w offline_db \<Rightarrow> OfflineEventRow list" where
  "findManyByEventIds is db = filter (\<lambda>e. event_id e \<in> set is) (od_events db)"

definition devicesWithReceived :: "'w offline_db \<Rightarrow> nat list" where
  "devicesWithReceived db =
     sort (remdups (map ev_device_id (filter (\<lambda>e. status e = received) (od_events db))))"

definition update_event :: "nat \<Rightarrow> (OfflineEventRow \<Rightarrow> OfflineEventRow) \<Rightarrow> 'w offline_db \<Rightarrow> 'w offline_db" where
  "update_event i f db = db\<lparr>od_events := map (\<lambda>e. if ev_id e = i then f e else e) (od_events db)\<rparr>"

definition updateOutcome ::
    "nat \<Rightarrow> OfflineEventStatus \<Rightarrow> created_ids option \<Rightarrow> string option \<Rightarrow> 'w offline_db \<Rightarrow> 'w offline_db" where
  "updateOutcome i st result err db =
     update_event i (\<lambda>e. e\<lparr>status := st, result_server_ids := result, ev_error := err\<rparr>) db"

definition incrementAttempts :: "nat \<Rightarrow> string \<Rightarrow> 'w offline_db \<Rightarrow> nat \<times> 'w offline_db" where
  "incrementAttempts i err db =
     (let db1 = update_event i (\<lambda>e. e\<lparr>attempts := attempts e + 1, ev_error := Some err\<rparr>) db
      in (case find_event i db1 of Some e \<Rightarrow> attempts e | None \<Rightarrow> 0, db1))"

definition setError :: "nat \<Rightarrow> string \<Rightarrow> 'w offline_db \<Rightarrow> 'w offline_db" where
  "setError i err db = update_event i (\<lambda>e. e\<lparr>ev_error := Some err\<rparr>) db"

definition setStatus :: "nat \<Rightarrow> OfflineEventStatus \<Rightarrow> nat option \<Rightarrow> 'w offline_db \<Rightarrow> 'w offline_db" where
  "setStatus i st by_user db =
     update_event i (\<lambda>e. e\<lparr>status := st,
       ev_resolved_by := (case by_user of None \<Rightarrow> ev_resolved_by e | Some u \<Rightarrow> Some u)\<rparr>) db"

record NewOfflineEventRow =
  nw_device_id :: nat
  nw_event_id :: string
  nw_seq :: nat
  nw_channel :: string
  nw_payload :: json_object
  nw_payload_hash :: string
  nw_actor_user_id :: nat
  nw_occurred_at :: int
  nw_client_day :: string
  nw_client_tz_offset_minutes :: int
  nw_copy_id :: string
  nw_app_version :: string
  nw_schema_version :: nat
  nw_schema_shape :: json
  nw_rates :: json
  nw_created :: created_ids
  nw_depends_on :: "string list"
  nw_corrected_at :: "int option"

definition new_event_row :: "nat \<Rightarrow> NewOfflineEventRow \<Rightarrow> string option \<Rightarrow> OfflineEventRow" where
  "new_event_row i e refusal =
     \<lparr>ev_id = i, ev_device_id = nw_device_id e, event_id = nw_event_id e, device_seq = nw_seq e,
      ev_channel = nw_channel e, payload = nw_payload e, payload_hash = nw_payload_hash e,
      actor_user_id = nw_actor_user_id e, occurred_at = nw_occurred_at e, corrected_at = nw_corrected_at e,
      client_day = nw_client_day e, client_tz_offset_minutes = nw_client_tz_offset_minutes e,
      copy_id = nw_copy_id e, app_version = nw_app_version e, schema_version = nw_schema_version e,
      schema_shape = nw_schema_shape e, rates = nw_rates e, created = nw_created e,
      depends_on = nw_depends_on e, status = (if refusal = None then received else refused), attempts = 0,
      result_server_ids = None, ev_error = refusal, ev_resolved_by = None\<rparr>"

datatype InsertEventOutcome = inserted OfflineEventRow | duplicate | reused | seq_conflict

text \<open>\<open>insertReceived\<close>; \<open>refusal\<close> is the error of \<open>as = {status: "refused", error}\<close>.\<close>

definition insertReceived ::
    "NewOfflineEventRow \<Rightarrow> string option \<Rightarrow> 'w offline_db \<Rightarrow> InsertEventOutcome \<times> 'w offline_db" where
  "insertReceived e refusal db =
     (case findByEventId (nw_event_id e) db of
        Some x \<Rightarrow> (if payload_hash x = nw_payload_hash e then duplicate else reused, db)
      | None \<Rightarrow>
          (case findBySeq (nw_device_id e) (nw_seq e) db of
             Some _ \<Rightarrow> (seq_conflict, db)
           | None \<Rightarrow>
               (let row = new_event_row (event_counter db + 1) e refusal
                in (inserted row,
                    db\<lparr>od_events := od_events db @ [row], event_counter := event_counter db + 1\<rparr>))))"

section \<open>The id map\<close>

text \<open>\<open>insert\<close>; \<open>None\<close> when a constraint of the table refuses the row: the offline id is already
  mapped, is not an offline id, or the server id is one.\<close>

definition map_insert ::
    "nat \<Rightarrow> nat \<Rightarrow> string \<Rightarrow> nat \<Rightarrow> string \<Rightarrow> link_kind \<Rightarrow> 'w offline_db \<Rightarrow> 'w offline_db option" where
  "map_insert offlineId deviceId tableName serverId eventId linkKind db =
     (if offlineId < OFFLINE_ID_FLOOR \<or> serverId \<ge> OFFLINE_ID_FLOOR
         \<or> (\<exists>m \<in> set (od_id_map db). offline_id m = offlineId)
      then None
      else Some (db\<lparr>od_id_map := od_id_map db @
             [\<lparr>im_id = map_counter db + 1, offline_id = offlineId, im_device_id = deviceId, table_name = tableName,
               server_id = serverId, im_event_id = eventId, im_link_kind = linkKind\<rparr>],
             map_counter := map_counter db + 1\<rparr>))"

definition lookup :: "'w offline_db \<Rightarrow> nat \<Rightarrow> nat option" where
  "lookup db offlineId = map_option server_id (find (\<lambda>m. offline_id m = offlineId) (od_id_map db))"

definition map_rows_for_event :: "string \<Rightarrow> 'w offline_db \<Rightarrow> OfflineIdMapRow list" where
  "map_rows_for_event i db = filter (\<lambda>m. im_event_id m = i) (od_id_map db)"

section \<open>Review items\<close>

definition review_insert ::
    "nat option \<Rightarrow> nat \<Rightarrow> OfflineReviewKind \<Rightarrow> json_object \<Rightarrow> 'w offline_db \<Rightarrow> 'w offline_db" where
  "review_insert eventRowId deviceId kind ds db =
     db\<lparr>od_reviews := od_reviews db @
          [\<lparr>ri_id = review_counter db + 1, event_row_id = eventRowId, ri_device_id = deviceId, ri_kind = kind,
            ri_state = item_open, details = ds, ri_resolved_by = None\<rparr>],
        review_counter := review_counter db + 1\<rparr>"

definition openForEvent :: "nat \<Rightarrow> 'w offline_db \<Rightarrow> OfflineReviewRow list" where
  "openForEvent i db = filter (\<lambda>r. event_row_id r = Some i \<and> ri_state r = item_open) (od_reviews db)"

definition update_review :: "(OfflineReviewRow \<Rightarrow> bool) \<Rightarrow> (OfflineReviewRow \<Rightarrow> OfflineReviewRow) \<Rightarrow> 'w offline_db \<Rightarrow> 'w offline_db" where
  "update_review P f db = db\<lparr>od_reviews := map (\<lambda>r. if P r then f r else r) (od_reviews db)\<rparr>"

definition resolve :: "nat \<Rightarrow> OfflineReviewState \<Rightarrow> nat \<Rightarrow> 'w offline_db \<Rightarrow> bool \<times> 'w offline_db" where
  "resolve i st by_user db =
     (\<exists>r \<in> set (od_reviews db). ri_id r = i \<and> ri_state r = item_open,
      update_review (\<lambda>r. ri_id r = i \<and> ri_state r = item_open) (\<lambda>r. r\<lparr>ri_state := st, ri_resolved_by := Some by_user\<rparr>) db)"

definition is_seq_conflict :: "nat \<Rightarrow> OfflineReviewRow \<Rightarrow> bool" where
  "is_seq_conflict deviceId r \<longleftrightarrow>
     ri_device_id r = deviceId \<and> event_row_id r = None \<and> map_of (details r) ''code'' = Some (JStr ''SEQ_CONFLICT'')"

definition findOpenSeqConflict :: "nat \<Rightarrow> 'w offline_db \<Rightarrow> OfflineReviewRow option" where
  "findOpenSeqConflict deviceId db = find (\<lambda>r. is_seq_conflict deviceId r \<and> ri_state r = item_open) (od_reviews db)"

definition findPendingRenumber :: "nat \<Rightarrow> 'w offline_db \<Rightarrow> OfflineReviewRow option" where
  "findPendingRenumber deviceId db =
     find (\<lambda>r. is_seq_conflict deviceId r \<and> ri_state r = item_applied
               \<and> map_of (details r) ''renumberPending'' = Some (JBool True)) (od_reviews db)"

section \<open>Devices\<close>

definition find_device :: "nat \<Rightarrow> 'w offline_db \<Rightarrow> OfflineDeviceRow option" where
  "find_device i db = find (\<lambda>d. dv_id d = i) (od_devices db)"

definition update_device :: "nat \<Rightarrow> (OfflineDeviceRow \<Rightarrow> OfflineDeviceRow) \<Rightarrow> 'w offline_db \<Rightarrow> 'w offline_db" where
  "update_device i f db = db\<lparr>od_devices := map (\<lambda>d. if dv_id d = i then f d else d) (od_devices db)\<rparr>"

definition recordUploadSeen :: "nat \<Rightarrow> int \<Rightarrow> 'w offline_db \<Rightarrow> 'w offline_db" where
  "recordUploadSeen i skew db = update_device i (\<lambda>d. d\<lparr>last_skew_ms := Some skew\<rparr>) db"

definition setNextExpectedSeq :: "nat \<Rightarrow> nat \<Rightarrow> 'w offline_db \<Rightarrow> 'w offline_db" where
  "setNextExpectedSeq i sq db = update_device i (\<lambda>d. d\<lparr>next_expected_seq := sq\<rparr>) db"

section \<open>Clock correction\<close>

definition COPY_CLAMP_MS :: int where
  "COPY_CLAMP_MS = 5 * 60000"

datatype skew_clamp = no_clamp | clamp_receipt | clamp_copy

record SkewInput =
  sk_occurredAt :: int
  uploadSkewMs :: int
  onlineSkewMs :: "int option"
  receivedAt :: int
  copyBuiltAt :: "int option"
  previousOccurredAt :: "int option"
  toleranceMs :: int

record SkewResult =
  correctedAt :: int
  sk_corrected :: bool
  clamped :: skew_clamp
  clockChanged :: bool
  backwards :: bool
  has_note :: bool

definition correctEventTime :: "SkewInput \<Rightarrow> SkewResult" where
  "correctEventTime i =
     (let corr = \<bar>uploadSkewMs i\<bar> > toleranceMs i;
          t0 = (if corr then sk_occurredAt i + uploadSkewMs i else sk_occurredAt i);
          (t1, c1) = (if t0 > receivedAt i then (receivedAt i, clamp_receipt) else (t0, no_clamp));
          (t2, c2) = (case copyBuiltAt i of
                        None \<Rightarrow> (t1, c1)
                      | Some b \<Rightarrow> if t1 < b - COPY_CLAMP_MS then (b - COPY_CLAMP_MS, clamp_copy) else (t1, c1));
          changed = (corr \<and> (case onlineSkewMs i of None \<Rightarrow> False | Some s \<Rightarrow> \<bar>uploadSkewMs i - s\<bar> > toleranceMs i));
          back = (case previousOccurredAt i of None \<Rightarrow> False | Some p \<Rightarrow> sk_occurredAt i < p)
      in \<lparr>correctedAt = t2, sk_corrected = corr, clamped = c2, clockChanged = changed, backwards = back,
          has_note = (corr \<or> changed \<or> c2 \<noteq> no_clamp \<or> back)\<rparr>)"

end
