(* ===== verification/Offline_Upload.thy ===== *)
theory Offline_Upload
  imports Offline_Store
begin

text \<open>
  Model of \<open>OfflineEventService.upload\<close>: a PC sends a batch of recorded events, and the server
  stores each of them once.

  A parameter stands for the SHA-256 digest of the content, for the server's clock, for the table
  of copies (\<open>offline_snapshots\<close>), for the data version of the server and for the channel policy
  table. The batch is the value the request schema returned; \<open>None\<close> is a batch it refused. The
  sentences shown to the PC with a code, and the sentence of a clock note, are left out.
\<close>

record OfflineEvent =
  eventId :: string
  seq :: nat
  oe_channel :: string
  oe_payload :: json_object
  actorUserId :: nat
  occurredAt :: int
  clientDay :: string
  clientTzOffsetMinutes :: int
  copyId :: string
  schemaShape :: json
  oe_rates :: json
  oe_created :: created_ids
  dependsOn :: "string list"

record upload_body =
  appVersion :: string
  schemaVersion :: nat
  pcClock :: int
  body_events :: "OfflineEvent list"

record upload_env =
  digest :: "json_object \<Rightarrow> string \<Rightarrow> nat \<Rightarrow> int \<Rightarrow> string"
  server_now :: int
  copy_built :: "string \<Rightarrow> int option"
  serverSchemaVersion :: nat
  channel_policy :: "ChannelPolicyEntry list"
  skewCorrectMs :: int

datatype upload_error = VALIDATION_ERROR | VERSION_AHEAD

datatype reject_code = EVENT_ID_REUSED | SEQ_CONFLICT

definition offlineEventHash :: "upload_env \<Rightarrow> OfflineEvent \<Rightarrow> string" where
  "offlineEventHash n e = digest n (oe_payload e) (oe_channel e) (actorUserId e) (occurredAt e)"

definition toRow :: "upload_env \<Rightarrow> nat \<Rightarrow> OfflineEvent \<Rightarrow> upload_body \<Rightarrow> int option \<Rightarrow> NewOfflineEventRow" where
  "toRow n deviceId e body corr =
     \<lparr>nw_device_id = deviceId, nw_event_id = eventId e, nw_seq = seq e, nw_channel = oe_channel e,
      nw_payload = oe_payload e, nw_payload_hash = offlineEventHash n e, nw_actor_user_id = actorUserId e,
      nw_occurred_at = occurredAt e, nw_client_day = clientDay e,
      nw_client_tz_offset_minutes = clientTzOffsetMinutes e, nw_copy_id = copyId e, nw_app_version = appVersion body,
      nw_schema_version = schemaVersion body, nw_schema_shape = schemaShape e, nw_rates = oe_rates e,
      nw_created = oe_created e, nw_depends_on = dependsOn e, nw_corrected_at = corr\<rparr>"

definition quoted :: "string \<Rightarrow> string" where
  "quoted s = [CHR 0x22] @ s @ [CHR 0x22]"

text \<open>The refusal a channel's class calls for at upload.\<close>

definition upload_refusal :: "upload_env \<Rightarrow> string \<Rightarrow> string option" where
  "upload_refusal n c =
     (case classOf (channel_policy n) c of
        None \<Rightarrow> Some (''UNKNOWN_CHANNEL: '' @ quoted c @ '' is not a channel this server knows'')
      | Some k \<Rightarrow> if k = offline \<or> k = checkpoint then None
                 else Some (''NOT_RECORDABLE: '' @ quoted c @ '' cannot be done offline''))"

definition skew_of :: "upload_env \<Rightarrow> nat \<Rightarrow> int \<Rightarrow> int option \<Rightarrow> OfflineEvent \<Rightarrow> 'w offline_db \<Rightarrow> SkewResult" where
  "skew_of n deviceId skew onlineSkew e db =
     correctEventTime \<lparr>sk_occurredAt = occurredAt e, uploadSkewMs = skew, onlineSkewMs = onlineSkew,
       receivedAt = server_now n, copyBuiltAt = copy_built n (copyId e),
       previousOccurredAt = map_option occurred_at (findBySeq deviceId (seq e - 1) db), toleranceMs = skewCorrectMs n\<rparr>"

definition skew_details :: "int \<Rightarrow> OfflineEvent \<Rightarrow> SkewResult \<Rightarrow> json_object" where
  "skew_details skew e r =
     [(''occurredAt'', JNum (of_int (occurredAt e))), (''correctedAt'', JNum (of_int (correctedAt r))),
      (''skewMs'', JNum (of_int skew)),
      (''clamped'', case clamped r of no_clamp \<Rightarrow> JNull | clamp_receipt \<Rightarrow> JStr ''receipt'' | clamp_copy \<Rightarrow> JStr ''copy''),
      (''clockChanged'', JBool (clockChanged r)), (''backwards'', JBool (backwards r))]"

record 'w upload_state =
  acked :: "string list"
  rejected :: "(string \<times> reject_code) list"
  stored :: nat
  conflicted :: bool
  up_db :: "'w offline_db"

definition upload_event ::
    "upload_env \<Rightarrow> nat \<Rightarrow> upload_body \<Rightarrow> int \<Rightarrow> int option \<Rightarrow> OfflineEvent \<Rightarrow> 'w upload_state \<Rightarrow> 'w upload_state" where
  "upload_event n deviceId body skew onlineSkew e s =
     (if conflicted s then s\<lparr>rejected := rejected s @ [(eventId e, SEQ_CONFLICT)]\<rparr>
      else
        let sk = skew_of n deviceId skew onlineSkew e (up_db s);
            row = toRow n deviceId e body (if correctedAt sk \<noteq> occurredAt e then Some (correctedAt sk) else None);
            refusal = upload_refusal n (oe_channel e)
        in case insertReceived row refusal (up_db s) of
             (inserted r, db1) \<Rightarrow>
               (let db2 = (if has_note sk \<and> refusal = None
                           then review_insert (Some (ev_id r)) deviceId clock_corrected (skew_details skew e sk) db1 else db1);
                    db3 = (case refusal of None \<Rightarrow> db2
                           | Some err \<Rightarrow> review_insert (Some (ev_id r)) deviceId refused_kind
                               [(''reason'', JStr err), (''channel'', JStr (oe_channel e)), (''payload'', JObj (oe_payload e))] db2)
                in s\<lparr>up_db := db3, stored := stored s + 1, acked := acked s @ [eventId e]\<rparr>)
           | (duplicate, db1) \<Rightarrow> s\<lparr>up_db := db1, acked := acked s @ [eventId e]\<rparr>
           | (reused, db1) \<Rightarrow> s\<lparr>up_db := db1, rejected := rejected s @ [(eventId e, EVENT_ID_REUSED)]\<rparr>
           | (seq_conflict, db1) \<Rightarrow>
               s\<lparr>up_db := db1, conflicted := True, rejected := rejected s @ [(eventId e, SEQ_CONFLICT)]\<rparr>)"

definition SEQ_CONFLICT_REASON :: string where
  "SEQ_CONFLICT_REASON =
     ''This PC's numbering is out of step with the server (it lost its saved state). '' @
     ''It has stopped sending; nothing was booked twice. Renumber its unsent work to let it continue.''"

definition note_conflict :: "nat \<Rightarrow> upload_body \<Rightarrow> 'w upload_state \<Rightarrow> 'w offline_db" where
  "note_conflict deviceId body s =
     (if findOpenSeqConflict deviceId (up_db s) \<noteq> None then up_db s
      else let first = find (\<lambda>r. snd r = SEQ_CONFLICT) (rejected s);
               sq = (case first of None \<Rightarrow> None | Some r \<Rightarrow> find (\<lambda>e. eventId e = fst r) (body_events body))
           in review_insert None deviceId refused_kind
                [(''code'', JStr ''SEQ_CONFLICT''),
                 (''seq'', case sq of None \<Rightarrow> JNull | Some e \<Rightarrow> JNum (of_nat (seq e))),
                 (''eventId'', case first of None \<Rightarrow> JNull | Some r \<Rightarrow> JStr (fst r)),
                 (''reason'', JStr SEQ_CONFLICT_REASON)] (up_db s))"

definition note_renumbered :: "upload_env \<Rightarrow> nat \<Rightarrow> 'w offline_db \<Rightarrow> 'w offline_db" where
  "note_renumbered n deviceId db =
     (case findPendingRenumber deviceId db of
        None \<Rightarrow> db
      | Some p \<Rightarrow> update_review (\<lambda>r. ri_id r = ri_id p) (\<lambda>r. r\<lparr>details := obj_spread (details p)
          [(''renumberPending'', JBool False), (''renumberedAt'', JNum (of_int (server_now n)))]\<rparr>) db)"

definition upload_start :: "upload_env \<Rightarrow> nat \<Rightarrow> upload_body \<Rightarrow> 'w offline_db \<Rightarrow> 'w upload_state" where
  "upload_start n deviceId body db =
     \<lparr>acked = [], rejected = [], stored = 0, conflicted = False,
      up_db = recordUploadSeen deviceId (server_now n - pcClock body) db\<rparr>"

definition upload_all :: "upload_env \<Rightarrow> nat \<Rightarrow> upload_body \<Rightarrow> 'w offline_db \<Rightarrow> 'w upload_state" where
  "upload_all n deviceId body db =
     fold (upload_event n deviceId body (server_now n - pcClock body)
             (case find_device deviceId db of None \<Rightarrow> None | Some d \<Rightarrow> last_online_skew_ms d))
       (body_events body) (upload_start n deviceId body db)"

definition upload ::
    "upload_env \<Rightarrow> nat \<Rightarrow> upload_body option \<Rightarrow> 'w offline_db
      \<Rightarrow> (upload_error + (string list \<times> (string \<times> reject_code) list)) \<times> 'w offline_db" where
  "upload n deviceId input db =
     (case input of
        None \<Rightarrow> (Inl VALIDATION_ERROR, db)
      | Some body \<Rightarrow>
          if schemaVersion body > serverSchemaVersion n then (Inl VERSION_AHEAD, db)
          else let s = upload_all n deviceId body db;
                   db1 = (if conflicted s then note_conflict deviceId body s
                          else if stored s > 0 then note_renumbered n deviceId (up_db s) else up_db s)
               in (Inr (acked s, rejected s), db1))"

end
