(* ===== verification/Replay_Engine.thy ===== *)
theory Replay_Engine
  imports Offline_Store
begin

text \<open>
  Model of \<open>offline/ReplayEngine.ts\<close> and \<open>offline/actorPolicy.ts\<close>: the booking of one stored offline event.

  What the engine is given through its dependencies is a record of functions: the channel policy,
  the recorded schemas, the bindings (each a call of a core service, which changes \<open>od_world\<close>), the
  id rewriting, the actor policy, the duplicate hook and the reads of the other tables. A
  transaction is the value of the database before it: rolling back returns that value. \<open>main_row\<close> of
  a binding's result is what the binding's \<open>mainRow\<close> function gives for it; the rest of the result's
  text and the log lines are left out. The insert of an audit row is taken to succeed (\<open>AuditService.log\<close>
  would only log a database error there). Dashes that are not ASCII are written as hyphens.
\<close>

section \<open>The engine's environment\<close>

type_synonym ReplayNote = "OfflineReviewKind \<times> json_object"

record BindingReplayInfo =
  linkExisting :: "(string \<times> nat) option"
  mainRowOnly :: bool
  bi_notes :: "ReplayNote list"

record BindingResult =
  success :: bool
  br_error :: "string option"
  br_offline :: BindingReplayInfo
  main_row :: "(string \<times> nat) option"

text \<open>How a binding ends: it throws (a transient database error or not), or returns a result with
  the other tables as it left them. \<open>yielded\<close>: the event-loop sentinel fired meanwhile.\<close>

datatype 'w run_end =
    threw bool string
  | returned "BindingResult option" 'w

record 'w binding_run =
  yielded :: bool
  run_end :: "'w run_end"

record ActorCheck =
  ac_ok :: bool
  ac_error :: "string option"
  ac_username :: "string option"
  ac_role :: "string option"
  ac_note :: "ReplayNote option"

datatype dup_verdict = dup_none | dup_skipped ReplayNote | dup_held ReplayNote

record rate_row =
  to_code :: string
  market_rate :: rat
  buy_rate :: rat
  sell_rate :: rat
  is_stronger :: int

record booking_ctx =
  bc_actor :: nat
  bc_event :: string
  bc_device :: nat
  bc_day :: string
  bc_tz :: int
  bc_now :: int
  bc_rates :: "rate_row list"

record shop_user =
  username :: "string option"
  user_role :: "string option"
  is_active :: bool

record 'w replay_env =
  policy :: "ChannelPolicyEntry list"
  has_schema :: "string \<Rightarrow> bool"
  shape_compatible :: "string \<Rightarrow> json \<Rightarrow> bool"
  safe_parse :: "string \<Rightarrow> json_object \<Rightarrow> string list + json_object"
  bindings :: "string \<Rightarrow> (json_object \<Rightarrow> booking_ctx \<Rightarrow> 'w \<Rightarrow> 'w binding_run) option"
  rewrite_ids :: "json_object \<Rightarrow> (nat \<Rightarrow> nat option) \<Rightarrow> json_object \<times> nat list"
  find_user :: "nat \<Rightarrow> 'w \<Rightarrow> shop_user option"
  rate_rows :: "json \<Rightarrow> rate_row list option"
  current_sell_rate :: "string \<Rightarrow> 'w \<Rightarrow> rat option"
  created_since :: "'w \<Rightarrow> 'w \<Rightarrow> created_ids"
  duplicateHook :: "OfflineEventRow \<Rightarrow> created_ids \<Rightarrow> BindingResult \<Rightarrow> 'w offline_db \<Rightarrow> dup_verdict"
  negativeStock :: "'w \<Rightarrow> (nat \<times> string \<times> int) list"
  findClosingsRecordedAfter :: "string \<Rightarrow> int \<Rightarrow> nat list \<Rightarrow> 'w \<Rightarrow> nat list"
  day_at :: "int \<Rightarrow> int \<Rightarrow> string"
  maxAttempts :: nat
  window_busy :: bool
  engine_error :: "string option"

datatype replay_mode = auto | apply_mode

record 'w ReplayOptions =
  mode :: replay_mode
  bypass_checkpoint :: bool
  bypass_duplicate :: bool
  release :: bool
  onBooked :: "created_ids \<Rightarrow> 'w offline_db \<Rightarrow> 'w offline_db"

record ReplayOutcome =
  ro_status :: OfflineEventStatus
  ro_error :: "string option"
  serverIds :: "created_ids option"
  technical :: bool
  refusedOnApply :: bool
  ro_notes :: "OfflineReviewKind list"

definition plain_outcome :: "OfflineEventStatus \<Rightarrow> string option \<Rightarrow> OfflineReviewKind list \<Rightarrow> ReplayOutcome" where
  "plain_outcome st err ns =
     \<lparr>ro_status = st, ro_error = err, serverIds = None, technical = False, refusedOnApply = False, ro_notes = ns\<rparr>"

section \<open>Refusing, holding, failing\<close>

definition failedOnApply ::
    "OfflineEventRow \<Rightarrow> string \<Rightarrow> OfflineReviewKind \<Rightarrow> 'w offline_db \<Rightarrow> ReplayOutcome \<times> 'w offline_db" where
  "failedOnApply ev err kind db =
     ((plain_outcome (status ev) (Some err) [kind])\<lparr>refusedOnApply := True\<rparr>, setError (ev_id ev) err db)"

definition settle_event ::
    "OfflineEventStatus \<Rightarrow> OfflineReviewKind \<Rightarrow> OfflineEventRow \<Rightarrow> string \<Rightarrow> json_object \<Rightarrow> 'w offline_db
      \<Rightarrow> ReplayOutcome \<times> 'w offline_db" where
  "settle_event st kind ev err ds db =
     (plain_outcome st (Some err) [kind],
      review_insert (Some (ev_id ev)) (ev_device_id ev) kind
        (obj_spread [(''reason'', JStr err), (''channel'', JStr (ev_channel ev))] ds)
        (updateOutcome (ev_id ev) st None (Some err) db))"

definition refuse ::
    "replay_mode \<Rightarrow> OfflineEventRow \<Rightarrow> string \<Rightarrow> json_object \<Rightarrow> 'w offline_db \<Rightarrow> ReplayOutcome \<times> 'w offline_db" where
  "refuse md ev err ds db =
     (if md = apply_mode then failedOnApply ev err refused_kind db
      else settle_event refused refused_kind ev err ds db)"

definition hold ::
    "replay_mode \<Rightarrow> OfflineEventRow \<Rightarrow> OfflineReviewKind \<Rightarrow> string \<Rightarrow> json_object \<Rightarrow> 'w offline_db
      \<Rightarrow> ReplayOutcome \<times> 'w offline_db" where
  "hold md ev kind err ds db =
     (if md = apply_mode then failedOnApply ev err kind db else settle_event held kind ev err ds db)"

definition attempts_text :: "nat \<Rightarrow> string \<Rightarrow> string" where
  "attempts_text k err = ''Could not be booked after '' @ nat_text k @ '' attempts: '' @ err"

definition technicalFailure ::
    "'w replay_env \<Rightarrow> replay_mode \<Rightarrow> OfflineEventRow \<Rightarrow> string \<Rightarrow> 'w offline_db \<Rightarrow> ReplayOutcome \<times> 'w offline_db" where
  "technicalFailure n md ev err db =
     (if md = apply_mode then ((plain_outcome (status ev) (Some err) [])\<lparr>technical := True\<rparr>, db)
      else case incrementAttempts (ev_id ev) err db of
             (k, db1) \<Rightarrow>
               if k \<ge> maxAttempts n then refuse auto ev (attempts_text k err) [] db1
               else ((plain_outcome received (Some err) [])\<lparr>technical := True\<rparr>, db1))"

definition stored_outcome :: "OfflineEventRow \<Rightarrow> ReplayOutcome" where
  "stored_outcome ev = (plain_outcome (status ev) (ev_error ev) [])\<lparr>serverIds := result_server_ids ev\<rparr>"

section \<open>Dependencies and the actor\<close>

definition dep_settled :: "'w offline_db \<Rightarrow> OfflineEventRow \<Rightarrow> bool" where
  "dep_settled db r \<longleftrightarrow>
     status r = booked \<or> status r = applied
     \<or> ((status r = skipped \<or> status r = dismissed) \<and> map_rows_for_event (event_id r) db \<noteq> [])"

definition dependencyState :: "OfflineEventRow \<Rightarrow> 'w offline_db \<Rightarrow> string list \<times> nat list" where
  "dependencyState ev db =
     (let rows = filter (dep_settled db) (findManyByEventIds (depends_on ev) db)
      in (filter (\<lambda>d. d \<notin> set (map event_id rows)) (depends_on ev),
          concat (map (\<lambda>r. concat (map snd (created r))) rows)))"

fun join_or :: "string list \<Rightarrow> string" where
  "join_or [] = []"
| "join_or [x] = x"
| "join_or (x # y # xs) = x @ '' or '' @ join_or (y # xs)"

definition offlineActorPolicy :: "'w replay_env \<Rightarrow> nat \<Rightarrow> string \<Rightarrow> 'w \<Rightarrow> ActorCheck" where
  "offlineActorPolicy n user c w =
     (case find_user n user w of
        None \<Rightarrow> \<lparr>ac_ok = False, ac_error = Some ''The person who did this is not a user of this shop'',
                 ac_username = None, ac_role = None, ac_note = None\<rparr>
      | Some u \<Rightarrow>
          (let rs = (case policyEntry (policy n) c of None \<Rightarrow> [] | Some e \<Rightarrow> roles e) in
           if user_role u \<notin> Some ` set rs \<or> user_role u = Some []
           then \<lparr>ac_ok = False,
                 ac_error = Some ((case username u of None \<Rightarrow> ''This user'' | Some x \<Rightarrow> x)
                   @ '' is not allowed to do this (needs '' @ join_or rs @ '')''),
                 ac_username = None, ac_role = None, ac_note = None\<rparr>
           else \<lparr>ac_ok = True, ac_error = None, ac_username = username u, ac_role = user_role u,
                 ac_note = (if is_active u then None
                            else Some (user_switched_off, [(''userId'', JNum (of_nat user)),
                              (''username'', case username u of None \<Rightarrow> JNull | Some x \<Rightarrow> JStr x)]))\<rparr>))"

section \<open>Mapping the booking\<close>

definition ids_of :: "created_ids \<Rightarrow> string \<Rightarrow> nat list" where
  "ids_of cs tab = (case map_of cs tab of None \<Rightarrow> [] | Some is \<Rightarrow> is)"

definition mapMainRow ::
    "OfflineEventRow \<Rightarrow> created_ids \<Rightarrow> string \<Rightarrow> nat \<Rightarrow> link_kind \<Rightarrow> 'w offline_db \<Rightarrow> (bool \<times> 'w offline_db) option" where
  "mapMainRow ev pc tab serverId kind db =
     (case find (\<lambda>i. isOfflineId (of_nat i)) (ids_of pc tab) of
        None \<Rightarrow> Some (False, db)
      | Some i \<Rightarrow>
          if lookup db i \<noteq> None then Some (False, db)
          else map_option (\<lambda>db1. (True, db1)) (map_insert i (ev_device_id ev) tab serverId (event_id ev) kind db))"

fun map_pairs :: "OfflineEventRow \<Rightarrow> string \<Rightarrow> (nat \<times> nat) list \<Rightarrow> 'w offline_db \<Rightarrow> 'w offline_db option" where
  "map_pairs ev tab [] db = Some db"
| "map_pairs ev tab ((i, s) # ps) db =
     (case map_insert i (ev_device_id ev) tab s (event_id ev) created_link db of
        None \<Rightarrow> None | Some db1 \<Rightarrow> map_pairs ev tab ps db1)"

text \<open>The loop of \<open>mapCreated\<close> over the tables: the database and, for each table whose counts differ, the
  two counts.\<close>

definition mismatch :: "string \<Rightarrow> nat \<Rightarrow> nat \<Rightarrow> json" where
  "mismatch tab p s = JObj [(''table'', JStr tab), (''pc'', JNum (of_nat p)), (''server'', JNum (of_nat s))]"

fun map_tables ::
    "OfflineEventRow \<Rightarrow> created_ids \<Rightarrow> created_ids \<Rightarrow> string list \<Rightarrow> 'w offline_db \<Rightarrow> ('w offline_db \<times> json list) option" where
  "map_tables ev pc server [] db = Some (db, [])"
| "map_tables ev pc server (tab # tabs) db =
     (let p = filter (\<lambda>i. isOfflineId (of_nat i)) (ids_of pc tab);
          s = ids_of server tab
      in if length p \<noteq> length s
         then map_option (\<lambda>(db1, ms). (db1, mismatch tab (length p) (length s) # ms)) (map_tables ev pc server tabs db)
         else case map_pairs ev tab (zip p s) db of
                None \<Rightarrow> None | Some db1 \<Rightarrow> map_tables ev pc server tabs db1)"

definition mapCreated ::
    "OfflineEventRow \<Rightarrow> created_ids \<Rightarrow> created_ids \<Rightarrow> 'w offline_db \<Rightarrow> ('w offline_db \<times> ReplayNote list) option" where
  "mapCreated ev pc server db =
     map_option (\<lambda>(db1, mismatched).
        (db1, if mismatched = [] then []
              else [(came_out_differently, [(''tables'', JArr mismatched)])]))
       (map_tables ev pc server (remdups (map fst pc @ map fst server)) db)"

text \<open>The result is \<open>None\<close> when an insert is refused (the engine's own step throws), otherwise the
  database and the notes to add.\<close>

definition mapBooking ::
    "OfflineEventRow \<Rightarrow> BindingResult \<Rightarrow> created_ids \<Rightarrow> created_ids \<Rightarrow> 'w offline_db \<Rightarrow> ('w offline_db \<times> ReplayNote list) option" where
  "mapBooking ev result pc server db =
     (case linkExisting (br_offline result) of
        Some (tab, i) \<Rightarrow> map_option (\<lambda>(b, db1). (db1, [])) (mapMainRow ev pc tab i linked_existing db)
      | None \<Rightarrow>
          if mainRowOnly (br_offline result)
          then (case main_row result of
                  None \<Rightarrow> Some (db, [])
                | Some (tab, i) \<Rightarrow> map_option (\<lambda>(b, db1). (db1, [])) (mapMainRow ev pc tab i created_link db))
          else mapCreated ev pc server db)"

definition entry_label :: "'w replay_env \<Rightarrow> OfflineEventRow \<Rightarrow> string" where
  "entry_label n ev =
     (case policyEntry (policy n) (ev_channel ev) of
        None \<Rightarrow> ev_channel ev
      | Some e \<Rightarrow> (case label e of None \<Rightarrow> ev_channel ev | Some l \<Rightarrow> l))"

definition audit_of :: "'w replay_env \<Rightarrow> OfflineEventRow \<Rightarrow> ActorCheck \<Rightarrow> created_ids \<Rightarrow> audit_row" where
  "audit_of n ev actor cs =
     \<lparr>au_user = actor_user_id ev,
      au_username = (case ac_username actor of None \<Rightarrow> ''user '' @ nat_text (actor_user_id ev) | Some x \<Rightarrow> x),
      au_role = (case ac_role actor of None \<Rightarrow> ''staff'' | Some x \<Rightarrow> x), au_event_id = event_id ev,
      au_summary = ''Offline work booked: '' @ entry_label n ev, au_channel = ev_channel ev,
      au_device = ev_device_id ev, au_seq = device_seq ev, au_created = cs\<rparr>"

definition writeAudit ::
    "'w replay_env \<Rightarrow> OfflineEventRow \<Rightarrow> ActorCheck \<Rightarrow> created_ids \<Rightarrow> 'w offline_db \<Rightarrow> 'w offline_db" where
  "writeAudit n ev actor cs db = db\<lparr>od_audit := od_audit db @ [audit_of n ev actor cs]\<rparr>"

section \<open>The notes\<close>

definition rateChangedNote :: "'w replay_env \<Rightarrow> rate_row list \<Rightarrow> 'w \<Rightarrow> ReplayNote option" where
  "rateChangedNote n recorded w =
     (let notes = concat (map (\<lambda>x. case current_sell_rate n (to_code x) w of
            None \<Rightarrow> []
          | Some c \<Rightarrow> if c \<noteq> sell_rate x
                     then [JObj [(''currency'', JStr (to_code x)), (''recorded'', JNum (sell_rate x)), (''current'', JNum c)]]
                     else []) recorded)
      in if notes = [] then None else Some (rate_changed, [(''rates'', JArr notes)]))"

definition stockNote :: "'w replay_env \<Rightarrow> (nat \<times> string \<times> int) list \<Rightarrow> 'w \<Rightarrow> ReplayNote option" where
  "stockNote n before w =
     (let products = concat (map (\<lambda>(i, nm, stock).
            if (case map_of before i of None \<Rightarrow> True | Some (nm0, was) \<Rightarrow> stock < was)
            then [JObj [(''id'', JNum (of_nat i)), (''name'', JStr nm), (''stock'', JNum (of_int stock))]]
            else []) (negativeStock n w))
      in if products = [] then None else Some (stock_count_off, [(''products'', JArr products)]))"

definition closedDayNote :: "'w replay_env \<Rightarrow> string \<Rightarrow> int \<Rightarrow> created_ids \<Rightarrow> 'w \<Rightarrow> ReplayNote option" where
  "closedDayNote n day effectiveNow cs w =
     (let is = findClosingsRecordedAfter n day effectiveNow (ids_of cs ''daily_closings'') w
      in if is = [] then None
         else Some (closed_day_changed, [(''day'', JStr day), (''closings'', JArr (map (\<lambda>i. JNum (of_nat i)) is))]))"

section \<open>The booking window\<close>

datatype window_result = win_booked ReplayOutcome | win_refused string | win_technical string

definition YIELDED :: string where
  "YIELDED = ''The booking yielded to the event loop (not allowed in a replay)''"

fun kind_text :: "OfflineReviewKind \<Rightarrow> string" where
  "kind_text possible_duplicate = ''possible_duplicate''"
| "kind_text certain_duplicate = ''certain_duplicate''"
| "kind_text held_checkpoint = ''held_checkpoint''"
| "kind_text waiting = ''waiting''"
| "kind_text refused_kind = ''refused''"
| "kind_text stock_count_off = ''stock_count_off''"
| "kind_text ticks_dropped = ''ticks_dropped''"
| "kind_text customer_linked = ''customer_linked''"
| "kind_text clock_corrected = ''clock_corrected''"
| "kind_text closed_day_changed = ''closed_day_changed''"
| "kind_text came_out_differently = ''came_out_differently''"
| "kind_text user_switched_off = ''user_switched_off''"
| "kind_text pc_data_mismatch = ''pc_data_mismatch''"
| "kind_text rate_changed = ''rate_changed''"

text \<open>A duplicate: the booking is rolled back to the savepoint and the verdict is stored.\<close>

definition store_duplicate ::
    "OfflineEventRow \<Rightarrow> OfflineEventStatus \<Rightarrow> ReplayNote \<Rightarrow> 'w offline_db \<Rightarrow> window_result \<times> 'w offline_db" where
  "store_duplicate ev st note db =
     (let err = (case map_of (snd note) ''reason'' of Some (JStr r) \<Rightarrow> r | _ \<Rightarrow> kind_text (fst note))
      in (win_booked (plain_outcome st (Some err) [fst note]),
          review_insert (Some (ev_id ev)) (ev_device_id ev) (fst note)
            (obj_spread (snd note) [(''channel'', JStr (ev_channel ev)), (''payload'', JObj (payload ev))])
            (updateOutcome (ev_id ev) st None (Some err) db)))"

definition insert_notes :: "OfflineEventRow \<Rightarrow> ReplayNote list \<Rightarrow> 'w offline_db \<Rightarrow> 'w offline_db" where
  "insert_notes ev ns db =
     fold (\<lambda>(k, ds). review_insert (Some (ev_id ev)) (ev_device_id ev) k ds) ns db"

text \<open>After the duplicate check: the notes, the id map, the audit row, the outcome and the review
  items. \<open>db\<close> is the database before the transaction, \<open>w\<close> the other tables after the binding.\<close>

definition finish_booking ::
    "'w replay_env \<Rightarrow> 'w ReplayOptions \<Rightarrow> OfflineEventRow \<Rightarrow> ActorCheck \<Rightarrow> ReplayNote list \<Rightarrow> booking_ctx \<Rightarrow> BindingResult
      \<Rightarrow> created_ids \<Rightarrow> 'w \<Rightarrow> 'w offline_db \<Rightarrow> window_result \<times> 'w offline_db" where
  "finish_booking n opts ev actor before ctx result cs w db =
     (let notes = before
            @ (case stockNote n (negativeStock n (od_world db)) w of None \<Rightarrow> [] | Some x \<Rightarrow> [x])
            @ (case closedDayNote n (bc_day ctx) (bc_now ctx) cs w of None \<Rightarrow> [] | Some x \<Rightarrow> [x])
            @ bi_notes (br_offline result);
          st = (if mode opts = apply_mode then applied else booked)
      in case mapBooking ev result (created ev) cs (db\<lparr>od_world := w\<rparr>) of
           None \<Rightarrow> (win_technical ''UNIQUE constraint failed'', db)
         | Some (db1, extra) \<Rightarrow>
             (let db2 = updateOutcome (ev_id ev) st (Some cs) None (writeAudit n ev actor cs db1);
                  db3 = onBooked opts cs (insert_notes ev (notes @ extra) db2)
              in (win_booked ((plain_outcome st None (map fst (notes @ extra)))\<lparr>serverIds := Some cs\<rparr>), db3)))"

definition booking_window ::
    "'w replay_env \<Rightarrow> 'w ReplayOptions \<Rightarrow> OfflineEventRow \<Rightarrow> ActorCheck \<Rightarrow> ReplayNote list \<Rightarrow> booking_ctx \<Rightarrow> 'w binding_run \<Rightarrow> 'w offline_db
      \<Rightarrow> window_result \<times> 'w offline_db" where
  "booking_window n opts ev actor before ctx r db =
     (if window_busy n then (win_technical ''REPLAY_IN_PROGRESS'', db)
      else if yielded r then (win_technical YIELDED, db)
      else case run_end r of
             threw transient err \<Rightarrow> (if transient then win_technical err else win_refused err, db)
           | returned None w \<Rightarrow> (win_refused ''Refused by the service'', db)
           | returned (Some result) w \<Rightarrow>
               if \<not> success result
               then (win_refused (case br_error result of None \<Rightarrow> ''Refused by the service'' | Some err \<Rightarrow> err), db)
               else let cs = created_since n (od_world db) w;
                        verdict = (if bypass_duplicate opts then dup_none
                                   else duplicateHook n ev cs result (db\<lparr>od_world := w\<rparr>))
                    in case verdict of
                         dup_skipped note \<Rightarrow> store_duplicate ev skipped note db
                       | dup_held note \<Rightarrow> store_duplicate ev held note db
                       | dup_none \<Rightarrow> finish_booking n opts ev actor before ctx result cs w db)"

section \<open>Processing an event\<close>

definition VERSION_REFUSAL :: string where
  "VERSION_REFUSAL =
     ''Recorded by a different app version - it cannot be booked automatically. Re-enter it from the details shown.''"

definition UNLINKED_PART :: string where
  "UNLINKED_PART = ''This item was booked, but this part could not be linked''"

definition payload_detail :: "OfflineEventRow \<Rightarrow> json_object" where
  "payload_detail ev = [(''payload'', JObj (payload ev))]"

fun join_comma :: "string list \<Rightarrow> string" where
  "join_comma [] = []"
| "join_comma [x] = x"
| "join_comma (x # y # xs) = x @ '', '' @ join_comma (y # xs)"

text \<open>Steps 4 and 5, from the rewritten payload on: the actor, the recorded rates, the booking.\<close>

definition book_event ::
    "'w replay_env \<Rightarrow> 'w ReplayOptions \<Rightarrow> OfflineEventRow \<Rightarrow> (json_object \<Rightarrow> booking_ctx \<Rightarrow> 'w \<Rightarrow> 'w binding_run)
      \<Rightarrow> json_object \<Rightarrow> 'w offline_db \<Rightarrow> ReplayOutcome \<times> 'w offline_db" where
  "book_event n opts ev run rewritten db =
     (let actor = offlineActorPolicy n (actor_user_id ev) (ev_channel ev) (od_world db) in
      if \<not> ac_ok actor
      then refuse (mode opts) ev (case ac_error actor of None \<Rightarrow> ''Unknown user'' | Some err \<Rightarrow> err) (payload_detail ev) db
      else case rate_rows n (rates ev) of
        None \<Rightarrow> refuse (mode opts) ev ''The exchange rates recorded with this item are incomplete'' (payload_detail ev) db
      | Some effectiveRates \<Rightarrow>
        (let now = (case corrected_at ev of None \<Rightarrow> occurred_at ev | Some t \<Rightarrow> t);
            day = (case corrected_at ev of None \<Rightarrow> client_day ev
                   | Some t \<Rightarrow> day_at n t (client_tz_offset_minutes ev));
            ctx = \<lparr>bc_actor = actor_user_id ev, bc_event = event_id ev, bc_device = ev_device_id ev,
                   bc_day = day, bc_tz = client_tz_offset_minutes ev, bc_now = now, bc_rates = effectiveRates\<rparr>;
            before = (case ac_note actor of None \<Rightarrow> [] | Some x \<Rightarrow> [x])
              @ (case rateChangedNote n effectiveRates (od_world db) of None \<Rightarrow> [] | Some x \<Rightarrow> [x])
        in case booking_window n opts ev actor before ctx (run rewritten ctx (od_world db)) db of
             (win_booked out, db1) \<Rightarrow> (out, db1)
           | (win_refused err, db1) \<Rightarrow> refuse (mode opts) ev err (payload_detail ev) db1
           | (win_technical err, db1) \<Rightarrow> technicalFailure n (mode opts) ev err db1))"

text \<open>Step 3: the dependencies and the id rewriting.\<close>

definition rewrite_event ::
    "'w replay_env \<Rightarrow> 'w ReplayOptions \<Rightarrow> OfflineEventRow \<Rightarrow> (json_object \<Rightarrow> booking_ctx \<Rightarrow> 'w \<Rightarrow> 'w binding_run)
      \<Rightarrow> json_object \<Rightarrow> 'w offline_db \<Rightarrow> ReplayOutcome \<times> 'w offline_db" where
  "rewrite_event n opts ev run parsed db =
     (case dependencyState ev db of
        (blocking, settledCreated) \<Rightarrow>
          if blocking \<noteq> []
          then hold (mode opts) ev waiting (''Waits on item '' @ join_comma blocking)
                 [(''dependsOn'', JArr (map JStr blocking))] db
          else (case rewrite_ids n parsed (lookup db) of
                  (rewritten, unmapped) \<Rightarrow>
                    if unmapped \<noteq> []
                    then hold (mode opts) ev waiting
                           (if list_ex (\<lambda>i. i \<in> set settledCreated) unmapped then UNLINKED_PART
                            else ''Refers to an offline item that was not booked'')
                           [(''offlineIds'', JArr (map (\<lambda>i. JNum (of_nat i)) unmapped))] db
                    else book_event n opts ev run rewritten db))"

text \<open>Steps 1 and 2: the class, the schema and the hold of a checkpoint.\<close>

definition check_event ::
    "'w replay_env \<Rightarrow> OfflineEventRow \<Rightarrow> 'w ReplayOptions \<Rightarrow> 'w offline_db \<Rightarrow> ReplayOutcome \<times> 'w offline_db" where
  "check_event n ev opts db =
     (let k = classOf (policy n) (ev_channel ev) in
      if k \<noteq> Some offline \<and> k \<noteq> Some checkpoint
      then refuse (mode opts) ev (''NOT_RECORDABLE: '' @ [CHR 0x22] @ ev_channel ev @ [CHR 0x22] @ '' cannot be done offline'')
             (payload_detail ev) db
      else if has_schema n (ev_channel ev) \<and> (schema_shape ev = JNull \<or> \<not> shape_compatible n (ev_channel ev) (schema_shape ev))
      then refuse (mode opts) ev VERSION_REFUSAL
             (payload_detail ev @ [(''noApply'', JBool True), (''reason'', JStr ''schema_shape'')]) db
      else if k = Some checkpoint \<and> \<not> bypass_checkpoint opts
      then hold (mode opts) ev held_checkpoint ''Drawer count / checkpoint taken offline - waits for an admin'' (payload_detail ev) db
      else case bindings n (ev_channel ev) of
             None \<Rightarrow> refuse (mode opts) ev (''This kind of offline work cannot be booked yet ('' @ entry_label n ev @ '')'') (payload_detail ev) db
           | Some run \<Rightarrow>
               if \<not> has_schema n (ev_channel ev)
               then refuse (mode opts) ev (''This kind of offline work cannot be booked yet ('' @ entry_label n ev @ '')'') (payload_detail ev) db
               else (case safe_parse n (ev_channel ev) (payload ev) of
                       Inl issues \<Rightarrow> refuse (mode opts) ev VERSION_REFUSAL
                         (payload_detail ev @ [(''noApply'', JBool True), (''reason'', JStr ''parse''),
                            (''issues'', JArr (map JStr (take 3 issues)))]) db
                     | Inr parsed \<Rightarrow> rewrite_event n opts ev run parsed db))"

definition already_settled :: "OfflineEventRow \<Rightarrow> 'w ReplayOptions \<Rightarrow> bool" where
  "already_settled ev opts \<longleftrightarrow>
     mode opts = auto \<and> status ev \<noteq> received \<and> \<not> (release opts \<and> status ev = held)"

text \<open>\<open>Inl\<close> is an exception that leaves \<open>processOnce\<close>: a read or a write of the engine's own fails, with
  nothing written.\<close>

definition processOnce ::
    "'w replay_env \<Rightarrow> OfflineEventRow \<Rightarrow> 'w ReplayOptions \<Rightarrow> 'w offline_db \<Rightarrow> string + (ReplayOutcome \<times> 'w offline_db)" where
  "processOnce n ev opts db =
     (if already_settled ev opts then Inr (stored_outcome ev, db)
      else case engine_error n of
             Some err \<Rightarrow> Inl err
           | None \<Rightarrow> Inr (check_event n ev opts db))"

definition process ::
    "'w replay_env \<Rightarrow> OfflineEventRow \<Rightarrow> 'w ReplayOptions \<Rightarrow> 'w offline_db \<Rightarrow> ReplayOutcome \<times> 'w offline_db" where
  "process n ev opts db =
     (case processOnce n ev opts db of
        Inl err \<Rightarrow> technicalFailure n (mode opts) ev err db
      | Inr r \<Rightarrow> r)"

text \<open>The options \<open>{ mode: "auto" }\<close> of a merge round.\<close>

definition auto_options :: "'w ReplayOptions" where
  "auto_options =
     \<lparr>mode = auto, bypass_checkpoint = False, bypass_duplicate = False, release = False, onBooked = (\<lambda>cs db. db)\<rparr>"

end
