(* ===== verification/Replay_Engine_Properties.thy ===== *)
theory Replay_Engine_Properties
  imports Replay_Engine
begin

text \<open>
  What one call of the replay engine can do to the store: the rows and keys it leaves alone, that it
  is all or nothing, and that an event cannot stay \<open>received\<close> for ever.
\<close>

section \<open>What the store's writes leave alone\<close>

named_theorems store_simps

lemma events_store [store_simps]:
  "od_events (review_insert i d k ds db) = od_events db" "od_events (update_device d f db) = od_events db"
  "od_events (writeAudit n ev actor cs db) = od_events db" "od_events (update_review P g db) = od_events db"
  by (simp_all add: review_insert_def update_device_def writeAudit_def update_review_def)

lemma world_store [store_simps]:
  "od_world (review_insert i d k ds db) = od_world db" "od_world (update_device d f db) = od_world db"
  "od_world (writeAudit n ev actor cs db) = od_world db" "od_world (update_event j g db) = od_world db"
  by (simp_all add: review_insert_def update_device_def writeAudit_def update_event_def)

lemma map_store [store_simps]:
  "od_id_map (review_insert i d k ds db) = od_id_map db" "od_id_map (update_device d f db) = od_id_map db"
  "od_id_map (writeAudit n ev actor cs db) = od_id_map db" "od_id_map (update_event j g db) = od_id_map db"
  by (simp_all add: review_insert_def update_device_def writeAudit_def update_event_def)

lemma audit_store [store_simps]:
  "od_audit (review_insert i d k ds db) = od_audit db" "od_audit (update_device d f db) = od_audit db"
  "od_audit (update_event j g db) = od_audit db"
  by (simp_all add: review_insert_def update_device_def update_event_def)

lemma devices_store [store_simps]:
  "od_devices (review_insert i d k ds db) = od_devices db" "od_devices (writeAudit n ev actor cs db) = od_devices db"
  "od_devices (update_event j g db) = od_devices db"
  by (simp_all add: review_insert_def writeAudit_def update_event_def)

lemma counter_store [store_simps]:
  "event_counter (review_insert i d k ds db) = event_counter db" "event_counter (writeAudit n ev actor cs db) = event_counter db"
  "event_counter (update_event j g db) = event_counter db" "event_counter (update_device d' f db) = event_counter db"
  by (simp_all add: review_insert_def writeAudit_def update_event_def update_device_def)

text \<open>The part of the store no replay writes.\<close>

abbreviation fixed_part :: "'w offline_db \<Rightarrow> OfflineDeviceRow list \<times> nat" where
  "fixed_part db \<equiv> (od_devices db, event_counter db)"

lemma insert_notes_store [store_simps]:
  "od_events (insert_notes ev ns db) = od_events db" "od_world (insert_notes ev ns db) = od_world db"
  "od_id_map (insert_notes ev ns db) = od_id_map db" "od_audit (insert_notes ev ns db) = od_audit db"
  "od_devices (insert_notes ev ns db) = od_devices db" "event_counter (insert_notes ev ns db) = event_counter db"
  by (induction ns arbitrary: db) (auto simp: insert_notes_def store_simps)

lemma events_update: "od_events (update_event i f db) = map (\<lambda>e. if ev_id e = i then f e else e) (od_events db)"
  by (simp add: update_event_def)

section \<open>The id map writes\<close>

definition map_grown :: "'w offline_db \<Rightarrow> 'w offline_db \<Rightarrow> bool" where
  "map_grown db db' \<longleftrightarrow> (\<exists>ms c. db' = db\<lparr>od_id_map := od_id_map db @ ms, map_counter := c\<rparr>)"

lemma map_grown_refl: "map_grown db db"
  unfolding map_grown_def by (rule exI [of _ "[]"], rule exI [of _ "map_counter db"]) simp

lemma map_grown_trans: "map_grown a b \<Longrightarrow> map_grown b c \<Longrightarrow> map_grown a c"
  unfolding map_grown_def by auto blast

lemma map_insert_grown: "map_insert i d tab s ev k db = Some db' \<Longrightarrow> map_grown db db'"
  by (auto simp: map_insert_def map_grown_def split: if_splits)

lemma mapMainRow_grown: "mapMainRow ev pc tab s k db = Some (b, db') \<Longrightarrow> map_grown db db'"
  by (auto simp: mapMainRow_def split: option.splits if_splits intro: map_grown_refl map_insert_grown)

lemma map_pairs_grown: "map_pairs ev tab ps db = Some db' \<Longrightarrow> map_grown db db'"
proof (induction ps arbitrary: db)
  case (Cons p ps)
  then obtain db1 where "map_insert (fst p) (ev_device_id ev) tab (snd p) (event_id ev) created_link db = Some db1"
    "map_pairs ev tab ps db1 = Some db'" by (cases p) (auto split: option.splits)
  with Cons.IH show ?case by (blast intro: map_grown_trans map_insert_grown)
qed (simp add: map_grown_refl)

lemma map_tables_grown: "map_tables ev pc sv tabs db = Some (db', ms) \<Longrightarrow> map_grown db db'"
proof (induction tabs arbitrary: db ms)
  case (Cons tab tabs)
  then show ?case
    by (auto simp: Let_def split: if_splits option.splits intro: map_grown_trans map_pairs_grown)
qed (simp add: map_grown_refl)

lemma mapBooking_grown: "mapBooking ev result pc sv db = Some (db', ns) \<Longrightarrow> map_grown db db'"
  by (auto simp: mapBooking_def mapCreated_def split: option.splits if_splits
      intro: map_grown_refl mapMainRow_grown map_tables_grown)

lemma map_grown_same:
  assumes "map_grown db db'"
  shows "od_events db' = od_events db" "od_world db' = od_world db" "od_audit db' = od_audit db" "fixed_part db' = fixed_part db"
    "od_reviews db' = od_reviews db"
  using assms by (auto simp: map_grown_def)

section \<open>Effects of one call\<close>

text \<open>Only status, attempts, result and error of the event's own row change, and no device.\<close>

definition frozen :: "OfflineEventRow \<Rightarrow> OfflineEventRow" where
  "frozen e = e\<lparr>status := received, attempts := 0, result_server_ids := None, ev_error := None\<rparr>"

definition touched :: "OfflineEventRow \<Rightarrow> 'w offline_db \<Rightarrow> 'w offline_db \<Rightarrow> bool" where
  "touched ev db db' \<longleftrightarrow> fixed_part db' = fixed_part db
     \<and> (\<exists>g. od_events db' = map (\<lambda>e. if ev_id e = ev_id ev then g e else e) (od_events db) \<and> (\<forall>e. frozen (g e) = frozen e))"

definition rolled_back :: "'w offline_db \<Rightarrow> 'w offline_db \<Rightarrow> bool" where
  "rolled_back db db' \<longleftrightarrow> od_world db' = od_world db \<and> od_id_map db' = od_id_map db \<and> od_audit db' = od_audit db"

definition settled_as :: "OfflineEventRow \<Rightarrow> OfflineEventStatus \<Rightarrow> 'w offline_db \<Rightarrow> bool" where
  "settled_as ev st db \<longleftrightarrow> (\<forall>e \<in> set (od_events db). ev_id e = ev_id ev \<longrightarrow> status e = st)"

lemma frozen_fields:
  assumes "frozen a = frozen b"
  shows "ev_id a = ev_id b" "ev_device_id a = ev_device_id b" "device_seq a = device_seq b" "event_id a = event_id b"
    "occurred_at a = occurred_at b" "corrected_at a = corrected_at b" "depends_on a = depends_on b" "payload_hash a = payload_hash b"
proof -
  have "ev_id (frozen a) = ev_id (frozen b)" "ev_device_id (frozen a) = ev_device_id (frozen b)"
    "device_seq (frozen a) = device_seq (frozen b)" "event_id (frozen a) = event_id (frozen b)"
    "occurred_at (frozen a) = occurred_at (frozen b)" "corrected_at (frozen a) = corrected_at (frozen b)"
    "depends_on (frozen a) = depends_on (frozen b)" "payload_hash (frozen a) = payload_hash (frozen b)"
    by (simp_all only: assms)
  then show "ev_id a = ev_id b" "ev_device_id a = ev_device_id b" "device_seq a = device_seq b" "event_id a = event_id b"
    "occurred_at a = occurred_at b" "corrected_at a = corrected_at b" "depends_on a = depends_on b" "payload_hash a = payload_hash b"
    by (simp_all add: frozen_def)
qed

lemma touched_refl: "touched ev db db"
  unfolding touched_def by (intro conjI refl exI [of _ "\<lambda>e. e"]) (simp_all cong: map_cong)

lemma touched_update:
  assumes "od_events db1 = od_events db" "fixed_part db1 = fixed_part db" "\<And>e. frozen (g e) = frozen e"
  shows "touched ev db (update_event (ev_id ev) g db1)"
  using assms by (auto simp: touched_def events_update store_simps)

lemma touched_cong:
  "touched ev db db1 \<Longrightarrow> od_events db2 = od_events db1 \<Longrightarrow> fixed_part db2 = fixed_part db1 \<Longrightarrow> touched ev db db2"
  by (simp add: touched_def)

lemma touched_trans:
  assumes "touched ev a b" "touched ev b c"
  shows "touched ev a c"
proof -
  obtain g where g: "od_events b = map (\<lambda>e. if ev_id e = ev_id ev then g e else e) (od_events a)" "\<forall>e. frozen (g e) = frozen e"
    using assms(1) unfolding touched_def by blast
  obtain h where h: "od_events c = map (\<lambda>e. if ev_id e = ev_id ev then h e else e) (od_events b)" "\<forall>e. frozen (h e) = frozen e"
    using assms(2) unfolding touched_def by blast
  have id: "ev_id (g e) = ev_id e" for e by (rule frozen_fields(1)) (simp only: g(2))
  have "od_events c = map (\<lambda>e. if ev_id e = ev_id ev then h (g e) else e) (od_events a)"
    unfolding h(1) g(1) map_map by (rule map_cong) (simp_all add: id)
  moreover have "\<forall>e. frozen (h (g e)) = frozen e" using g(2) h(2) by (simp only: simp_thms)
  moreover have "fixed_part c = fixed_part a" using assms by (simp add: touched_def)
  ultimately show ?thesis unfolding touched_def by (intro conjI exI [of _ "\<lambda>e. h (g e)"])
qed

lemma rolled_back_refl: "rolled_back db db"
  by (simp add: rolled_back_def)

lemma settled_update: "settled_as ev st (update_event (ev_id ev) (\<lambda>e. g e\<lparr>status := st\<rparr>) db)"
  if "\<And>e. ev_id (g e) = ev_id e"
  using that by (auto simp: settled_as_def events_update)

lemma settled_updateOutcome: "settled_as ev st (updateOutcome (ev_id ev) st r err db)"
  by (auto simp: settled_as_def updateOutcome_def events_update)

lemma settled_cong: "settled_as ev st db \<Longrightarrow> od_events db2 = od_events db \<Longrightarrow> settled_as ev st db2"
  by (simp add: settled_as_def)

lemma updateOutcome_touched:
  assumes "od_events db1 = od_events db" "fixed_part db1 = fixed_part db"
  shows "touched ev db (updateOutcome (ev_id ev) st r err db1)"
  unfolding updateOutcome_def by (rule touched_update [OF assms]) (simp add: frozen_def)

lemma setError_touched: "touched ev db (setError (ev_id ev) err db)"
  unfolding setError_def by (rule touched_update) (simp_all add: frozen_def)

lemma settle_event_effect:
  assumes "settle_event st kind ev err ds db = (out, db')"
  shows "out = plain_outcome st (Some err) [kind] \<and> touched ev db db' \<and> rolled_back db db' \<and> settled_as ev st db'"
proof -
  have "touched ev db (updateOutcome (ev_id ev) st None (Some err) db)" by (rule updateOutcome_touched) simp_all
  with settled_updateOutcome [of ev st None "Some err" db] assms show ?thesis
    by (auto simp: settle_event_def store_simps rolled_back_def updateOutcome_def
        elim: touched_cong settled_cong)
qed

lemma find_map_same:
  assumes "\<And>e. P e \<Longrightarrow> P (g e)"
  shows "find P (map (\<lambda>e. if P e then g e else e) es) = map_option g (find P es)"
  by (induction es) (auto simp: assms)

lemma incrementAttempts_effect:
  assumes "incrementAttempts (ev_id ev) err db = (k, db')"
  shows "touched ev db db'" "rolled_back db db'"
    "od_events db' = map (\<lambda>e. if ev_id e = ev_id ev then e\<lparr>attempts := attempts e + 1, ev_error := Some err\<rparr> else e) (od_events db)"
    "k = (case find_event (ev_id ev) db of None \<Rightarrow> 0 | Some e \<Rightarrow> attempts e + 1)"
proof -
  have db': "db' = update_event (ev_id ev) (\<lambda>e. e\<lparr>attempts := attempts e + 1, ev_error := Some err\<rparr>) db"
    using assms by (auto simp: incrementAttempts_def Let_def)
  show "touched ev db db'" unfolding db' by (rule touched_update) (simp_all add: frozen_def)
  show "rolled_back db db'" by (simp add: db' rolled_back_def store_simps)
  show "od_events db' = map (\<lambda>e. if ev_id e = ev_id ev then e\<lparr>attempts := attempts e + 1, ev_error := Some err\<rparr> else e) (od_events db)"
    by (simp add: db' events_update)
  have "find_event (ev_id ev) db'
      = map_option (\<lambda>e. e\<lparr>attempts := attempts e + 1, ev_error := Some err\<rparr>) (find_event (ev_id ev) db)"
    unfolding find_event_def db' events_update by (rule find_map_same) simp
  then show "k = (case find_event (ev_id ev) db of None \<Rightarrow> 0 | Some e \<Rightarrow> attempts e + 1)"
    using assms db' by (auto simp: incrementAttempts_def Let_def split: option.splits)
qed

section \<open>One automatic replay\<close>

definition quiet_callback :: "'w ReplayOptions \<Rightarrow> bool" where
  "quiet_callback opts \<longleftrightarrow> (\<forall>cs db. od_events (onBooked opts cs db) = od_events db \<and> od_world (onBooked opts cs db) = od_world db
     \<and> od_id_map (onBooked opts cs db) = od_id_map db \<and> od_audit (onBooked opts cs db) = od_audit db
     \<and> fixed_part (onBooked opts cs db) = fixed_part db)"

text \<open>The whole effect of a successful booking on what is not an event row or a review item.\<close>

definition booking_effect :: "'w replay_env \<Rightarrow> OfflineEventRow \<Rightarrow> 'w offline_db \<Rightarrow> 'w offline_db \<Rightarrow> bool" where
  "booking_effect n ev db db' \<longleftrightarrow>
     (\<exists>run p ctx result w.
        bindings n (ev_channel ev) = Some run \<and> run_end (run p ctx (od_world db)) = returned (Some result) w
        \<and> success result \<and> od_world db' = w
        \<and> (\<exists>actor. od_audit db' = od_audit db @ [audit_of n ev actor (created_since n (od_world db) w)])
        \<and> (\<exists>ms. od_id_map db' = od_id_map db @ ms))"

definition verdict_stored :: "OfflineEventRow \<Rightarrow> 'w offline_db \<Rightarrow> ReplayOutcome \<Rightarrow> 'w offline_db \<Rightarrow> bool" where
  "verdict_stored ev db out db' \<longleftrightarrow> touched ev db db' \<and> rolled_back db db' \<and> \<not> technical out
     \<and> ro_status out \<in> {refused, held, skipped} \<and> settled_as ev (ro_status out) db'"

definition left_for_retry :: "'w replay_env \<Rightarrow> OfflineEventRow \<Rightarrow> 'w offline_db \<Rightarrow> ReplayOutcome \<Rightarrow> 'w offline_db \<Rightarrow> bool" where
  "left_for_retry n ev db out db' \<longleftrightarrow> touched ev db db' \<and> rolled_back db db' \<and> technical out
     \<and> (case find_event (ev_id ev) db of None \<Rightarrow> 0 | Some e \<Rightarrow> attempts e + 1) < maxAttempts n
     \<and> (\<exists>err. od_events db' = map (\<lambda>e. if ev_id e = ev_id ev then e\<lparr>attempts := attempts e + 1, ev_error := Some err\<rparr> else e) (od_events db))"

definition event_booked :: "'w replay_env \<Rightarrow> OfflineEventRow \<Rightarrow> 'w offline_db \<Rightarrow> ReplayOutcome \<Rightarrow> 'w offline_db \<Rightarrow> bool" where
  "event_booked n ev db out db' \<longleftrightarrow> touched ev db db' \<and> \<not> technical out \<and> ro_status out = booked
     \<and> settled_as ev booked db' \<and> booking_effect n ev db db'"

lemma refuse_auto: "refuse auto ev err ds db = (out, db') \<Longrightarrow> verdict_stored ev db out db'"
  by (auto simp: refuse_def verdict_stored_def plain_outcome_def dest!: settle_event_effect)

lemma hold_auto: "hold auto ev k err ds db = (out, db') \<Longrightarrow> verdict_stored ev db out db'"
  by (auto simp: hold_def verdict_stored_def plain_outcome_def dest!: settle_event_effect)

lemma verdict_after:
  "verdict_stored ev db1 out db2 \<Longrightarrow> touched ev db db1 \<Longrightarrow> rolled_back db db1 \<Longrightarrow> verdict_stored ev db out db2"
  by (auto simp: verdict_stored_def rolled_back_def intro: touched_trans)

lemma technical_auto:
  assumes "technicalFailure n auto ev err db = (out, db')"
  shows "verdict_stored ev db out db' \<or> left_for_retry n ev db out db'"
proof -
  obtain k db1 where k: "incrementAttempts (ev_id ev) err db = (k, db1)" by fastforce
  note eff = incrementAttempts_effect [OF k]
  show ?thesis
  proof (cases "k \<ge> maxAttempts n")
    case True
    then have "refuse auto ev (attempts_text k err) [] db1 = (out, db')"
      using assms k by (simp add: technicalFailure_def)
    from verdict_after [OF refuse_auto [OF this] eff(1,2)] show ?thesis ..
  next
    case False
    then have "out = (plain_outcome received (Some err) [])\<lparr>technical := True\<rparr>" "db' = db1"
      using assms k by (simp_all add: technicalFailure_def)
    with False eff have "left_for_retry n ev db out db'" by (auto simp: left_for_retry_def)
    then show ?thesis ..
  qed
qed

lemma duplicate_effect:
  assumes "store_duplicate ev st note db = (win, db')" "st \<in> {skipped, held}"
  shows "\<exists>out. win = win_booked out \<and> verdict_stored ev db out db'"
proof -
  define err where "err = (case map_of (snd note) ''reason'' of Some (JStr r) \<Rightarrow> r | _ \<Rightarrow> kind_text (fst note))"
  define db1 where "db1 = updateOutcome (ev_id ev) st None (Some err) db"
  obtain ds where db': "db' = review_insert (Some (ev_id ev)) (ev_device_id ev) (fst note) ds db1"
    and win: "win = win_booked (plain_outcome st (Some err) [fst note])"
    using assms(1) unfolding store_duplicate_def Let_def err_def [symmetric] db1_def by blast
  have "touched ev db db1" unfolding db1_def by (rule updateOutcome_touched) simp_all
  then have "touched ev db db'" by (rule touched_cong) (simp_all add: db' store_simps)
  moreover have "settled_as ev st db'"
    by (rule settled_cong [OF settled_updateOutcome]) (simp add: db' db1_def store_simps)
  moreover have "rolled_back db db'" by (simp add: rolled_back_def db' db1_def updateOutcome_def store_simps)
  ultimately show ?thesis using assms(2) by (auto simp: win verdict_stored_def plain_outcome_def)
qed

abbreviation booked_status :: "'w ReplayOptions \<Rightarrow> OfflineEventStatus" where
  "booked_status opts \<equiv> (if mode opts = apply_mode then applied else booked)"

text \<open>The store just before the callback of the options runs, in a booking that succeeds.\<close>

definition before_callback ::
    "'w replay_env \<Rightarrow> 'w ReplayOptions \<Rightarrow> OfflineEventRow \<Rightarrow> ActorCheck \<Rightarrow> created_ids \<Rightarrow> ReplayNote list \<Rightarrow> 'w offline_db \<Rightarrow> 'w offline_db" where
  "before_callback n opts ev actor cs ns db1 =
     insert_notes ev ns (updateOutcome (ev_id ev) (booked_status opts) (Some cs) None (writeAudit n ev actor cs db1))"

lemma finish_cases:
  assumes "finish_booking n opts ev actor before ctx result cs w db = (win, db')"
  shows "(\<exists>err. win = win_technical err \<and> db' = db)
    \<or> (\<exists>db1 ns out. map_grown (db\<lparr>od_world := w\<rparr>) db1 \<and> db' = onBooked opts cs (before_callback n opts ev actor cs ns db1)
        \<and> win = win_booked out \<and> out = (plain_outcome (booked_status opts) None (map fst ns))\<lparr>serverIds := Some cs\<rparr>)"
proof (cases "mapBooking ev result (created ev) cs (db\<lparr>od_world := w\<rparr>)")
  case None
  then show ?thesis using assms by (auto simp: finish_booking_def Let_def)
next
  case (Some p)
  obtain db1 extra where p: "p = (db1, extra)" by fastforce
  have "map_grown (db\<lparr>od_world := w\<rparr>) db1" using mapBooking_grown Some p by fast
  moreover define ns where "ns = before
    @ (case stockNote n (negativeStock n (od_world db)) w of None \<Rightarrow> [] | Some x \<Rightarrow> [x])
    @ (case closedDayNote n (bc_day ctx) (bc_now ctx) cs w of None \<Rightarrow> [] | Some x \<Rightarrow> [x])
    @ bi_notes (br_offline result) @ extra"
  have "db' = onBooked opts cs (before_callback n opts ev actor cs ns db1)"
    "win = win_booked ((plain_outcome (booked_status opts) None (map fst ns))\<lparr>serverIds := Some cs\<rparr>)"
    using assms by (simp_all add: finish_booking_def Let_def Some p ns_def before_callback_def)
  ultimately show ?thesis by blast
qed

lemma finish_effect:
  assumes "finish_booking n opts ev actor before ctx result cs w db = (win_booked out, db')" and q: "quiet_callback opts"
  shows "touched ev db db' \<and> \<not> technical out \<and> ro_status out = booked_status opts \<and> settled_as ev (booked_status opts) db'
        \<and> od_world db' = w \<and> od_audit db' = od_audit db @ [audit_of n ev actor cs] \<and> (\<exists>ms. od_id_map db' = od_id_map db @ ms)"
proof -
  obtain db1 ns where g: "map_grown (db\<lparr>od_world := w\<rparr>) db1" and db': "db' = onBooked opts cs (before_callback n opts ev actor cs ns db1)"
    and out: "out = (plain_outcome (booked_status opts) None (map fst ns))\<lparr>serverIds := Some cs\<rparr>"
    using finish_cases [OF assms(1)] by blast
  note same = map_grown_same [OF g]
  define db2 where "db2 = updateOutcome (ev_id ev) (booked_status opts) (Some cs) None (writeAudit n ev actor cs db1)"
  have q: "od_events db' = od_events db2" "od_world db' = od_world db2" "od_id_map db' = od_id_map db2"
    "od_audit db' = od_audit db2" "fixed_part db' = fixed_part db2"
    using q by (simp_all add: db' quiet_callback_def before_callback_def db2_def [symmetric] store_simps)
  have "touched ev db db2" unfolding db2_def by (rule updateOutcome_touched) (simp_all add: store_simps same)
  then have t: "touched ev db db'" by (rule touched_cong) (simp_all add: q)
  have s: "settled_as ev (booked_status opts) db'" by (rule settled_cong [OF settled_updateOutcome]) (simp add: q db2_def)
  have "od_world db' = w" by (simp add: q db2_def updateOutcome_def store_simps same)
  moreover have "od_audit db' = od_audit db @ [audit_of n ev actor cs]"
    using same(3) by (simp add: q db2_def updateOutcome_def store_simps writeAudit_def)
  moreover have "\<exists>ms. od_id_map db' = od_id_map db @ ms"
    using g by (auto simp: q db2_def updateOutcome_def store_simps map_grown_def)
  ultimately show ?thesis using t s by (simp add: out plain_outcome_def)
qed

text \<open>How a call of the engine can end, whatever its options.\<close>

inductive engine_end ::
    "'w replay_env \<Rightarrow> OfflineEventRow \<Rightarrow> 'w ReplayOptions \<Rightarrow> 'w offline_db \<Rightarrow> ReplayOutcome \<times> 'w offline_db \<Rightarrow> bool"
  for n ev opts db where
  end_settled: "already_settled ev opts \<Longrightarrow> engine_end n ev opts db (stored_outcome ev, db)"
| end_refused: "\<not> already_settled ev opts \<Longrightarrow> engine_end n ev opts db (refuse (mode opts) ev err ds db)"
| end_held: "\<not> already_settled ev opts \<Longrightarrow> engine_end n ev opts db (hold (mode opts) ev kind err ds db)"
| end_failed: "\<not> already_settled ev opts \<Longrightarrow> engine_end n ev opts db (technicalFailure n (mode opts) ev err db)"
| end_duplicate: "\<not> already_settled ev opts \<Longrightarrow> st \<in> {skipped, held} \<Longrightarrow> store_duplicate ev st note db = (win_booked out, db')
    \<Longrightarrow> engine_end n ev opts db (out, db')"
| end_booked: "\<not> already_settled ev opts \<Longrightarrow> bindings n (ev_channel ev) = Some run
    \<Longrightarrow> run_end (run p ctx (od_world db)) = returned (Some result) w \<Longrightarrow> success result
    \<Longrightarrow> finish_booking n opts ev actor before ctx result (created_since n (od_world db) w) w db = (win_booked out, db')
    \<Longrightarrow> engine_end n ev opts db (out, db')"

lemma window_end:
  assumes win: "booking_window n opts ev actor before ctx (run p ctx (od_world db)) db = (win, db1)"
    and run: "bindings n (ev_channel ev) = Some run" and live: "\<not> already_settled ev opts"
    and res: "(case win of win_booked out \<Rightarrow> (out, db1)
      | win_refused err \<Rightarrow> refuse (mode opts) ev err (payload_detail ev) db1
      | win_technical err \<Rightarrow> technicalFailure n (mode opts) ev err db1) = r"
  shows "engine_end n ev opts db r"
proof -
  let ?r = "run p ctx (od_world db)"
  have undone: "engine_end n ev opts db r" if "db1 = db" "\<And>out. win \<noteq> win_booked out"
    using res that by (cases win) (auto intro: end_refused [OF live] end_failed [OF live])
  show ?thesis
  proof (cases "\<not> window_busy n \<and> \<not> yielded ?r \<and> (\<exists>result w. run_end ?r = returned (Some result) w \<and> success result)")
    case False
    then have "db1 = db \<and> (\<forall>out. win \<noteq> win_booked out)" using win
      by (auto simp: booking_window_def split: if_splits run_end.splits option.splits)
    then show ?thesis using undone by blast
  next
    case True
    then obtain result w where r: "\<not> window_busy n" "\<not> yielded ?r" "run_end ?r = returned (Some result) w" "success result" by blast
    define cs where "cs = created_since n (od_world db) w"
    define v where "v = (if bypass_duplicate opts then dup_none else duplicateHook n ev cs result (db\<lparr>od_world := w\<rparr>))"
    have win: "(case v of dup_skipped note \<Rightarrow> store_duplicate ev skipped note db | dup_held note \<Rightarrow> store_duplicate ev held note db
        | dup_none \<Rightarrow> finish_booking n opts ev actor before ctx result cs w db) = (win, db1)"
      using win r unfolding booking_window_def Let_def cs_def v_def by simp
    have dup: "engine_end n ev opts db r" if d: "store_duplicate ev st nt db = (win, db1)" and st: "st \<in> {skipped, held}" for st nt
    proof -
      obtain out where "win = win_booked out" using d by (auto simp: store_duplicate_def Let_def)
      with d res end_duplicate [OF live st, of nt db out db1] show ?thesis by auto
    qed
    show ?thesis
    proof (cases v)
      case dup_none
      with win have fin: "finish_booking n opts ev actor before ctx result cs w db = (win, db1)" by simp
      from finish_cases [OF fin] show ?thesis
      proof (elim disjE exE conjE)
        fix out assume "win = win_booked out"
        with fin res end_booked [OF live run r(3,4)] show ?thesis by (auto simp: cs_def)
      qed (use undone in auto)
    qed (use win dup in auto)
  qed
qed

lemma book_event_end:
  assumes run: "bindings n (ev_channel ev) = Some run" and live: "\<not> already_settled ev opts"
  shows "engine_end n ev opts db (book_event n opts ev run p db)"
proof (cases "ac_ok (offlineActorPolicy n (actor_user_id ev) (ev_channel ev) (od_world db)) \<and> rate_rows n (rates ev) \<noteq> None")
  case False
  then show ?thesis by (auto simp: book_event_def Let_def intro: end_refused [OF live] split: option.splits)
next
  case True
  then obtain actor before ctx where
    eq: "book_event n opts ev run p db = (case booking_window n opts ev actor before ctx (run p ctx (od_world db)) db of
        (win_booked out, db1) \<Rightarrow> (out, db1)
      | (win_refused err, db1) \<Rightarrow> refuse (mode opts) ev err (payload_detail ev) db1
      | (win_technical err, db1) \<Rightarrow> technicalFailure n (mode opts) ev err db1)"
    unfolding book_event_def Let_def by auto
  obtain win db1 where w: "booking_window n opts ev actor before ctx (run p ctx (od_world db)) db = (win, db1)" by fastforce
  show ?thesis
    by (rule window_end [OF w run live]) (simp add: eq w split: window_result.splits)
qed

lemma process_end: "engine_end n ev opts db (process n ev opts db)"
proof (cases "already_settled ev opts")
  case True
  then show ?thesis by (simp add: process_def processOnce_def end_settled)
next
  case live: False
  have rw: "engine_end n ev opts db (rewrite_event n opts ev run p db)" if "bindings n (ev_channel ev) = Some run" for run p
    using book_event_end [OF that live, of db]
    by (auto simp: rewrite_event_def intro: end_held [OF live] split: prod.splits)
  have "engine_end n ev opts db (check_event n ev opts db)"
    using rw by (auto simp: check_event_def Let_def intro: end_refused [OF live] end_held [OF live] split: option.splits sum.splits)
  then show ?thesis using live
    by (auto simp: process_def processOnce_def intro: end_failed [OF live] split: option.splits)
qed

lemma process_auto:
  assumes p: "process n ev opts db = (out, db')" and md: "mode opts = auto" "quiet_callback opts"
  shows "already_settled ev opts \<and> out = stored_outcome ev \<and> db' = db
    \<or> \<not> already_settled ev opts
      \<and> (verdict_stored ev db out db' \<or> left_for_retry n ev db out db' \<or> event_booked n ev db out db')"
  using process_end [of n ev opts db, unfolded p]
proof cases
  case (end_booked run p' ctx result w actor before)
  from finish_effect [OF end_booked(5) md(2)] end_booked md(1) show ?thesis
    unfolding event_booked_def booking_effect_def by fastforce
next
  case (end_duplicate st nt)
  with duplicate_effect [OF end_duplicate(3,2)] show ?thesis by auto
next
  case (end_refused err ds)
  with refuse_auto [of ev err ds db out db'] md(1) show ?thesis by simp
next
  case (end_held kind err ds)
  with hold_auto [of ev kind err ds db out db'] md(1) show ?thesis by simp
next
  case (end_failed err)
  with technical_auto [of n ev err db out db'] md(1) show ?thesis by auto
qed simp

section \<open>Sequences of replays\<close>

lemma auto_options_facts: "mode auto_options = auto" "quiet_callback auto_options" "already_settled ev auto_options \<longleftrightarrow> status ev \<noteq> received"
  by (simp_all add: auto_options_def quiet_callback_def already_settled_def)

definition store_ok :: "'w offline_db \<Rightarrow> bool" where
  "store_ok db \<longleftrightarrow> distinct (map ev_id (od_events db)) \<and> distinct (map event_id (od_events db))"

lemma touched_frozen: "touched ev db db' \<Longrightarrow> map frozen (od_events db') = map frozen (od_events db)"
  by (auto simp: touched_def)

lemma frozen_map_fields:
  assumes "map frozen xs = map frozen ys"
  shows "map ev_id xs = map ev_id ys" "map event_id xs = map event_id ys" "map ev_device_id xs = map ev_device_id ys"
    "map device_seq xs = map device_seq ys"
proof -
  have "map ev_id (map frozen xs) = map ev_id (map frozen ys)" "map event_id (map frozen xs) = map event_id (map frozen ys)"
    "map ev_device_id (map frozen xs) = map ev_device_id (map frozen ys)"
    "map device_seq (map frozen xs) = map device_seq (map frozen ys)" by (simp_all only: assms)
  then show "map ev_id xs = map ev_id ys" "map event_id xs = map event_id ys" "map ev_device_id xs = map ev_device_id ys"
    "map device_seq xs = map device_seq ys" by (simp_all add: comp_def frozen_def)
qed

lemma touched_store_ok: "touched ev db db' \<Longrightarrow> store_ok db \<Longrightarrow> store_ok db'"
  unfolding store_ok_def by (metis frozen_map_fields(1,2) touched_frozen)

lemma find_event_mem: "store_ok db \<Longrightarrow> find_event i db = Some e \<longleftrightarrow> e \<in> set (od_events db) \<and> ev_id e = i"
proof -
  have "distinct (map ev_id es) \<Longrightarrow> find (\<lambda>e. ev_id e = i) es = Some e \<longleftrightarrow> e \<in> set es \<and> ev_id e = i" for es
    by (induction es) auto
  then show "store_ok db \<Longrightarrow> find_event i db = Some e \<longleftrightarrow> e \<in> set (od_events db) \<and> ev_id e = i"
    by (simp add: store_ok_def find_event_def)
qed

text \<open>The row of the event after the call, and every other row.\<close>

lemma touched_rows:
  assumes "touched ev db db'"
  shows "\<exists>g. (\<forall>e. frozen (g e) = frozen e)
    \<and> (\<forall>i. find_event i db' = (if i = ev_id ev then map_option g (find_event i db) else find_event i db))"
proof -
  obtain g where g: "od_events db' = map (\<lambda>e. if ev_id e = ev_id ev then g e else e) (od_events db)" "\<forall>e. frozen (g e) = frozen e"
    using assms unfolding touched_def by blast
  have id: "ev_id (g e) = ev_id e" for e by (rule frozen_fields(1)) (simp only: g(2))
  have "find (\<lambda>e. ev_id e = i) (map (\<lambda>e. if ev_id e = ev_id ev then g e else e) es)
      = (if i = ev_id ev then map_option g (find (\<lambda>e. ev_id e = i) es) else find (\<lambda>e. ev_id e = i) es)" for i es
    by (induction es) (auto simp: id)
  then have "\<forall>i. find_event i db' = (if i = ev_id ev then map_option g (find_event i db) else find_event i db)"
    by (simp add: find_event_def g(1))
  with g(2) show ?thesis by blast
qed

lemma retry_row:
  assumes "left_for_retry n ev db out db'" "find_event (ev_id ev) db = Some ev"
  shows "\<exists>err. find_event (ev_id ev) db' = Some (ev\<lparr>attempts := attempts ev + 1, ev_error := Some err\<rparr>)
    \<and> attempts ev + 1 < maxAttempts n \<and> technical out"
proof -
  obtain err where db': "od_events db' = map (\<lambda>e. if ev_id e = ev_id ev then e\<lparr>attempts := attempts e + 1, ev_error := Some err\<rparr> else e) (od_events db)"
    and "attempts ev + 1 < maxAttempts n" "technical out"
    using assms by (auto simp: left_for_retry_def)
  moreover have "find_event (ev_id ev) db' = map_option (\<lambda>e. e\<lparr>attempts := attempts e + 1, ev_error := Some err\<rparr>) (find_event (ev_id ev) db)"
    unfolding find_event_def db' by (rule find_map_same) simp
  ultimately show ?thesis using assms(2) by auto
qed

lemma auto_step:
  assumes ok: "store_ok db" and e: "find_event i db = Some e" and p: "process n e auto_options db = (out, db')"
  shows "\<exists>e'. find_event i db' = Some e' \<and> frozen e' = frozen e
    \<and> (status e \<noteq> received \<and> e' = e \<or> status e = received \<and> status e' \<noteq> received
       \<or> status e = received \<and> status e' = received \<and> technical out \<and> attempts e' = attempts e + 1 \<and> attempts e' < maxAttempts n)"
    and "store_ok db'" "j \<noteq> i \<Longrightarrow> find_event j db' = find_event j db"
proof -
  have id: "ev_id e = i" using find_event_mem [OF ok] e by simp
  consider (same) "status e \<noteq> received" "db' = db" | (verdict) "status e = received" "verdict_stored e db out db'"
    | (retry) "status e = received" "left_for_retry n e db out db'" | (booking) "status e = received" "event_booked n e db out db'"
    using process_auto [OF p auto_options_facts(1,2)] by (auto simp: auto_options_facts)
  note cases = this
  have t: "touched e db db'"
    using cases by (cases; auto simp: verdict_stored_def left_for_retry_def event_booked_def touched_refl)
  then show ok': "store_ok db'" using ok by (rule touched_store_ok)
  obtain g where g: "\<forall>e. frozen (g e) = frozen e"
    and rows: "\<forall>k. find_event k db' = (if k = i then map_option g (find_event k db) else find_event k db)"
    using touched_rows [OF t] unfolding id by blast
  then show "j \<noteq> i \<Longrightarrow> find_event j db' = find_event j db" by simp
  have e': "find_event i db' = Some (g e)" "frozen (g e) = frozen e" using rows g e by auto
  then have mem: "g e \<in> set (od_events db')" "ev_id (g e) = i" using find_event_mem [OF ok'] by auto
  show "\<exists>e'. find_event i db' = Some e' \<and> frozen e' = frozen e
    \<and> (status e \<noteq> received \<and> e' = e \<or> status e = received \<and> status e' \<noteq> received
       \<or> status e = received \<and> status e' = received \<and> technical out \<and> attempts e' = attempts e + 1 \<and> attempts e' < maxAttempts n)"
    using cases
  proof cases
    case retry
    then show ?thesis using retry_row [OF retry(2)] e id by (auto simp: frozen_def)
  qed (use e' mem id e in \<open>auto simp: verdict_stored_def event_booked_def settled_as_def\<close>)
qed

text \<open>Automatic replays of stored events, by row id, in any order and any number of times, each in an
  environment of its own.\<close>

fun replay_calls :: "('w replay_env \<times> nat) list \<Rightarrow> 'w offline_db \<Rightarrow> 'w offline_db" where
  "replay_calls [] db = db"
| "replay_calls (c # cs) db =
     replay_calls cs (case find_event (snd c) db of None \<Rightarrow> db | Some e \<Rightarrow> snd (process (fst c) e auto_options db))"

definition audit_count :: "string \<Rightarrow> 'w offline_db \<Rightarrow> nat" where
  "audit_count i db = length (filter (\<lambda>a. au_event_id a = i) (od_audit db))"

definition once_ok :: "'w offline_db \<Rightarrow> bool" where
  "once_ok db \<longleftrightarrow> (\<forall>e \<in> set (od_events db). audit_count (event_id e) db = (if status e \<in> {booked, applied} then 1 else 0))"

lemma same_event: "store_ok db \<Longrightarrow> a \<in> set (od_events db) \<Longrightarrow> b \<in> set (od_events db) \<Longrightarrow> event_id a = event_id b \<longleftrightarrow> ev_id a = ev_id b"
  unfolding store_ok_def by (metis distinct_map inj_onD)

lemma once_ok_rolled_back:
  assumes ok: "store_ok db" "once_ok db" and t: "touched ev db db'" and e: "find_event (ev_id ev) db = Some ev"
    and r: "status ev \<notin> {booked, applied}" and a: "audit_count (event_id ev) db' = audit_count (event_id ev) db + k"
    and others: "\<And>i. i \<noteq> event_id ev \<Longrightarrow> audit_count i db' = audit_count i db"
    and st: "\<And>e'. find_event (ev_id ev) db' = Some e' \<Longrightarrow> (if status e' \<in> {booked, applied} then 1 else 0) = k"
  shows "once_ok db'"
  unfolding once_ok_def
proof
  fix x assume x: "x \<in> set (od_events db')"
  have ok': "store_ok db'" using t ok(1) by (rule touched_store_ok)
  have ev: "ev \<in> set (od_events db)" using e find_event_mem [OF ok(1)] by blast
  obtain g where g: "\<forall>e. frozen (g e) = frozen e"
    and rows: "\<forall>k. find_event k db' = (if k = ev_id ev then map_option g (find_event k db) else find_event k db)"
    using touched_rows [OF t] by blast
  have x': "find_event (ev_id x) db' = Some x" using x find_event_mem [OF ok'] by blast
  show "audit_count (event_id x) db' = (if status x \<in> {booked, applied} then 1 else 0)"
  proof (cases "ev_id x = ev_id ev")
    case True
    then have "x = g ev" using x' rows e by simp
    then have "event_id x = event_id ev" using g frozen_fields(4) by metis
    moreover have "audit_count (event_id ev) db = 0" using ok(2) ev r unfolding once_ok_def by auto
    ultimately show ?thesis using a st x' True by simp
  next
    case False
    then have "find_event (ev_id x) db = Some x" using x' rows by simp
    then have mem: "x \<in> set (od_events db)" using find_event_mem [OF ok(1)] by blast
    with False same_event [OF ok(1) mem ev] have "event_id x \<noteq> event_id ev" by simp
    then show ?thesis using others ok(2) mem by (simp add: once_ok_def)
  qed
qed

lemma once_ok_step:
  assumes ok: "store_ok db" "once_ok db" and e: "find_event i db = Some ev" and p: "process n ev auto_options db = (out, db')"
  shows "once_ok db'"
proof -
  have id: "ev_id ev = i" using find_event_mem [OF ok(1)] e by simp
  note step = auto_step [OF ok(1) e p]
  have mem: "e' \<in> set (od_events db')" "ev_id e' = ev_id ev" if "find_event (ev_id ev) db' = Some e'" for e'
    using find_event_mem [OF step(2)] that by auto
  have st: "status e' = s" if "settled_as ev s db'" "find_event (ev_id ev) db' = Some e'" for s e'
    using that(1) mem [OF that(2)] unfolding settled_as_def by blast
  have undone: "once_ok db'"
    if "status ev = received" "touched ev db db'" "rolled_back db db'"
      "\<And>e'. find_event (ev_id ev) db' = Some e' \<Longrightarrow> status e' \<notin> {booked, applied}"
    by (rule once_ok_rolled_back [OF ok that(2), of 0]) (use e id that in \<open>auto simp: rolled_back_def audit_count_def\<close>)
  consider "db' = db" | "status ev = received" "verdict_stored ev db out db'"
    | "status ev = received" "left_for_retry n ev db out db'" | "status ev = received" "event_booked n ev db out db'"
    using process_auto [OF p auto_options_facts(1,2)] by (auto simp: auto_options_facts)
  then show ?thesis
  proof cases
    case 2
    then have v: "touched ev db db'" "rolled_back db db'" "ro_status out \<notin> {booked, applied}" "settled_as ev (ro_status out) db'"
      by (auto simp: verdict_stored_def)
    show ?thesis by (rule undone [OF 2(1) v(1,2)]) (use st [OF v(4)] v(3) in metis)
  next
    case 3
    then have v: "touched ev db db'" "rolled_back db db'" by (simp_all add: left_for_retry_def)
    obtain err where "find_event (ev_id ev) db' = Some (ev\<lparr>attempts := attempts ev + 1, ev_error := Some err\<rparr>)"
      using retry_row [OF 3(2)] e id by blast
    then have "status e' = received" if "find_event (ev_id ev) db' = Some e'" for e' using that 3(1) by simp
    then show ?thesis by (intro undone [OF 3(1) v]) simp
  next
    case 4
    then have b: "touched ev db db'" "settled_as ev booked db'"
      "\<exists>actor cs. od_audit db' = od_audit db @ [audit_of n ev actor cs]"
      by (auto simp: event_booked_def booking_effect_def)
    show ?thesis
      by (rule once_ok_rolled_back [OF ok b(1), of 1])
        (use e id 4(1) b(3) st [OF b(2)] in \<open>auto simp: audit_count_def audit_of_def\<close>)
  qed (use ok in simp)
qed

section \<open>Properties\<close>

lemma replay_call_step:
  assumes "store_ok db"
  shows "store_ok (case find_event i db of None \<Rightarrow> db | Some e \<Rightarrow> snd (process n e auto_options db))"
    and "once_ok db \<Longrightarrow> once_ok (case find_event i db of None \<Rightarrow> db | Some e \<Rightarrow> snd (process n e auto_options db))"
  using auto_step(2) [OF assms] once_ok_step [OF assms]
  by (metis (mono_tags, lifting) assms option.case_eq_if option.collapse prod.collapse)+

lemma replay_calls_inv: "store_ok db \<Longrightarrow> once_ok db \<Longrightarrow> store_ok (replay_calls cs db) \<and> once_ok (replay_calls cs db)"
  by (induction cs arbitrary: db) (simp_all add: replay_call_step)

text \<open>C6. A replay is all or nothing: an automatic replay of an event either leaves every table that
  is not the offline store's own, the id map and the audit log as they were, or the event was
  waiting, is now booked, the other tables are what the binding left on its success, one audit row
  was added and the id map only grew. No other event's row changes.\<close>

theorem replay_all_or_nothing:
  assumes "process n ev auto_options db = (out, db')"
  shows "(rolled_back db db' \<or> status ev = received \<and> ro_status out = booked \<and> settled_as ev booked db' \<and> booking_effect n ev db db')
    \<and> filter (\<lambda>e. ev_id e \<noteq> ev_id ev) (od_events db') = filter (\<lambda>e. ev_id e \<noteq> ev_id ev) (od_events db)
    \<and> map frozen (od_events db') = map frozen (od_events db)"
proof -
  have t: "touched ev db db'"
    and eff: "rolled_back db db' \<or> status ev = received \<and> ro_status out = booked \<and> settled_as ev booked db' \<and> booking_effect n ev db db'"
    using process_auto [OF assms auto_options_facts(1,2)]
    by (auto simp: auto_options_facts verdict_stored_def left_for_retry_def event_booked_def touched_refl rolled_back_refl)
  obtain g where g: "od_events db' = map (\<lambda>e. if ev_id e = ev_id ev then g e else e) (od_events db)" "\<forall>e. frozen (g e) = frozen e"
    using t unfolding touched_def by blast
  have id: "ev_id (g e) = ev_id e" for e by (rule frozen_fields(1)) (simp only: g(2))
  have "filter (\<lambda>e. ev_id e \<noteq> ev_id ev) (map (\<lambda>e. if ev_id e = ev_id ev then g e else e) es)
      = filter (\<lambda>e. ev_id e \<noteq> ev_id ev) es" for es
    by (induction es) (auto simp: id)
  with eff touched_frozen [OF t] show ?thesis by (simp add: g(1))
qed

text \<open>C20. An event is booked at most once: however often and in whatever order events are replayed,
  and whatever the environment does at each call, the audit log ends with one booking of each
  event that is booked or applied and none of every other event.\<close>

theorem replay_at_most_once:
  assumes "store_ok db" "once_ok db" "e \<in> set (od_events (replay_calls cs db))"
  shows "audit_count (event_id e) (replay_calls cs db) = (if status e = booked \<or> status e = applied then 1 else 0)"
  using replay_calls_inv [OF assms(1,2), of cs] assms(3) by (auto simp: once_ok_def)

lemma replay_settles_aux:
  assumes "store_ok db" "find_event i db = Some e" "\<And>c. c \<in> set cs \<Longrightarrow> maxAttempts (fst c) \<le> M"
    and "status e \<noteq> received \<or> M \<le> attempts e + length (filter (\<lambda>c. snd c = i) cs) \<and> filter (\<lambda>c. snd c = i) cs \<noteq> []"
  shows "\<exists>e'. find_event i (replay_calls cs db) = Some e' \<and> frozen e' = frozen e \<and> status e' \<noteq> received"
  using assms
proof (induction cs arbitrary: db e)
  case (Cons c cs)
  define db1 where "db1 = (case find_event (snd c) db of None \<Rightarrow> db | Some x \<Rightarrow> snd (process (fst c) x auto_options db))"
  have ok1: "store_ok db1" using replay_call_step(1) [OF Cons.prems(1)] by (simp add: db1_def)
  have M: "maxAttempts (fst c) \<le> M" "\<And>c. c \<in> set cs \<Longrightarrow> maxAttempts (fst c) \<le> M" using Cons.prems(3) by auto
  have "\<exists>e1. find_event i db1 = Some e1 \<and> frozen e1 = frozen e
    \<and> (status e1 \<noteq> received \<or> M \<le> attempts e1 + length (filter (\<lambda>c. snd c = i) cs) \<and> filter (\<lambda>c. snd c = i) cs \<noteq> [])"
  proof (cases "snd c = i")
    case True
    obtain out db2 where p: "process (fst c) e auto_options db = (out, db2)" by fastforce
    then have db1: "db1 = db2" using Cons.prems(2) True by (simp add: db1_def)
    obtain e1 where e1: "find_event i db1 = Some e1" "frozen e1 = frozen e"
      and st: "status e \<noteq> received \<and> e1 = e \<or> status e = received \<and> status e1 \<noteq> received
        \<or> status e = received \<and> status e1 = received \<and> technical out \<and> attempts e1 = attempts e + 1 \<and> attempts e1 < maxAttempts (fst c)"
      using auto_step(1) [OF Cons.prems(1,2) p] unfolding db1 by blast
    show ?thesis
    proof (cases "status e1 = received")
      case again: True
      with st have a: "status e = received" "attempts e1 = attempts e + 1" "attempts e1 < M" using M(1) by auto
      with Cons.prems(4) True have "M \<le> attempts e1 + length (filter (\<lambda>c. snd c = i) cs)" by simp
      with a(3) e1 show ?thesis by (cases "filter (\<lambda>c. snd c = i) cs") auto
    qed (use e1 in blast)
  next
    case False
    have "find_event i db1 = find_event i db"
    proof (cases "find_event (snd c) db")
      case (Some x)
      obtain out db2 where p: "process (fst c) x auto_options db = (out, db2)" by fastforce
      with auto_step(3) [OF Cons.prems(1) Some p, of i] False Some show ?thesis by (simp add: db1_def)
    qed (simp add: db1_def)
    with Cons.prems(2,4) False show ?thesis by auto
  qed
  then obtain e1 where e1: "find_event i db1 = Some e1" "frozen e1 = frozen e"
    "status e1 \<noteq> received \<or> M \<le> attempts e1 + length (filter (\<lambda>c. snd c = i) cs) \<and> filter (\<lambda>c. snd c = i) cs \<noteq> []" by blast
  from Cons.IH [OF ok1 e1(1) M(2) e1(3)] e1(2) show ?case by (simp add: db1_def)
qed simp

text \<open>C22. No event waits for ever: whatever goes wrong (a busy window, transient database errors, a
  binding that yields, constraint failures), an event that is replayed at least once, and as often
  as the attempt limit leaves it attempts, is no longer \<open>received\<close>.\<close>

theorem replay_settles:
  assumes "store_ok db" "find_event i db = Some e"
    and "\<And>c. c \<in> set cs \<Longrightarrow> maxAttempts (fst c) \<le> M"
    and "0 < length (filter (\<lambda>c. snd c = i) cs)" "M - attempts e \<le> length (filter (\<lambda>c. snd c = i) cs)"
  shows "\<exists>e'. find_event i (replay_calls cs db) = Some e' \<and> frozen e' = frozen e \<and> status e' \<noteq> received"
proof (rule replay_settles_aux [OF assms(1,2)])
  show "maxAttempts (fst c) \<le> M" if "c \<in> set cs" for c using assms(3) that by blast
  show "status e \<noteq> received \<or> M \<le> attempts e + length (filter (\<lambda>c. snd c = i) cs) \<and> filter (\<lambda>c. snd c = i) cs \<noteq> []"
    using assms(4,5) by auto
qed

section \<open>A sample\<close>

definition sample_event :: "nat \<Rightarrow> string \<Rightarrow> nat \<Rightarrow> OfflineEventRow" where
  "sample_event i x sq =
     \<lparr>ev_id = i, ev_device_id = 1, event_id = x, device_seq = sq, ev_channel = ''sales:process'', payload = [],
      payload_hash = x, actor_user_id = 1, occurred_at = 1000 * int i, corrected_at = None, client_day = ''2025-01-01'',
      client_tz_offset_minutes = 120, copy_id = ''c'', app_version = ''1'', schema_version = 229, schema_shape = JObj [],
      rates = JObj [], created = [(''sales'', [1023000000000 + i])], depends_on = [], status = received, attempts = 0,
      result_server_ids = None, ev_error = None, ev_resolved_by = None\<rparr>"

text \<open>The other tables are the number of sales.\<close>

definition sample_env :: "bool \<Rightarrow> nat replay_env" where
  "sample_env busy =
     \<lparr>policy = [\<lparr>channel = ''sales:process'', cls = offline, label = None, roles = [''admin'']\<rparr>],
      has_schema = (\<lambda>c. True), shape_compatible = (\<lambda>c s. True), safe_parse = (\<lambda>c p. Inr p),
      bindings = (\<lambda>c. Some (\<lambda>p ctx w. \<lparr>yielded = False, run_end = returned
         (Some \<lparr>success = True, br_error = None, br_offline = \<lparr>linkExisting = None, mainRowOnly = False, bi_notes = []\<rparr>,
                main_row = None\<rparr>) (w + 1)\<rparr>)),
      rewrite_ids = (\<lambda>p f. (p, [])), find_user = (\<lambda>u w. Some \<lparr>username = Some ''a'', user_role = Some ''admin'', is_active = True\<rparr>),
      rate_rows = (\<lambda>r. Some []), current_sell_rate = (\<lambda>c w. None), created_since = (\<lambda>w w'. [(''sales'', [w'])]),
      duplicateHook = (\<lambda>e cs r db. dup_none), negativeStock = (\<lambda>w. []), findClosingsRecordedAfter = (\<lambda>d t is w. []),
      day_at = (\<lambda>t off. ''2025-01-01''), maxAttempts = 2, window_busy = busy, engine_error = None\<rparr>"

definition sample_db :: "nat offline_db" where
  "sample_db =
     \<lparr>od_events = [sample_event 1 ''a'' 1, sample_event 2 ''b'' 2], event_counter = 2, od_id_map = [], map_counter = 0, od_reviews = [],
      review_counter = 0, od_devices = [\<lparr>dv_id = 1, device_no = 1, last_skew_ms = None, last_online_skew_ms = None, next_expected_seq = 1\<rparr>],
      od_audit = [], od_world = 0\<rparr>"

lemma sample_store: "store_ok sample_db" "once_ok sample_db"
  by (simp_all add: store_ok_def once_ok_def sample_db_def sample_event_def audit_count_def)

lemmas engine_eval = process_def processOnce_def already_settled_def check_event_def classOf_def policyEntry_def
  rewrite_event_def dependencyState_def findManyByEventIds_def book_event_def offlineActorPolicy_def booking_window_def
  finish_booking_def mapBooking_def mapCreated_def ids_of_def isOfflineId_def isSafeInteger_def isInteger_def map_insert_def
  OFFLINE_ID_FLOOR_def writeAudit_def audit_of_def rateChangedNote_def stockNote_def closedDayNote_def updateOutcome_def update_event_def insert_notes_def plain_outcome_def
  technicalFailure_def incrementAttempts_def find_event_def refuse_def settle_event_def review_insert_def stored_outcome_def
  sample_event_def sample_env_def auto_options_def sample_db_def

lemma sample_busy:
  "status (hd (od_events (snd (process (sample_env True) (sample_event 1 ''a'' 1) auto_options sample_db)))) = received"
  by (simp add: engine_eval Let_def)

lemma sample_free:
  "od_world (snd (process (sample_env False) (sample_event 1 ''a'' 1) auto_options sample_db)) = 1"
  by (simp add: engine_eval Let_def)

theorem replay_all_or_nothing_witness:
  "rolled_back sample_db (snd (process (sample_env True) (sample_event 1 ''a'' 1) auto_options sample_db))
   \<and> booking_effect (sample_env False) (sample_event 1 ''a'' 1) sample_db
       (snd (process (sample_env False) (sample_event 1 ''a'' 1) auto_options sample_db))"
proof -
  let ?r = "process (sample_env True) (sample_event 1 ''a'' 1) auto_options sample_db"
  let ?b = "process (sample_env False) (sample_event 1 ''a'' 1) auto_options sample_db"
  have "hd (od_events (snd ?r)) \<in> set (od_events (snd ?r))" "ev_id (hd (od_events (snd ?r))) = ev_id (sample_event 1 ''a'' 1)"
    by (simp_all add: engine_eval Let_def)
  with sample_busy have "\<not> settled_as (sample_event 1 ''a'' 1) booked (snd ?r)" by (auto simp: settled_as_def)
  moreover have "\<not> rolled_back sample_db (snd ?b)" using sample_free by (simp add: rolled_back_def sample_db_def)
  ultimately show ?thesis
    using replay_all_or_nothing [of "sample_env True" "sample_event 1 ''a'' 1" sample_db "fst ?r" "snd ?r"]
      replay_all_or_nothing [of "sample_env False" "sample_event 1 ''a'' 1" sample_db "fst ?b" "snd ?b"] by auto
qed

definition sample_calls :: "(nat replay_env \<times> nat) list" where
  "sample_calls = [(sample_env True, 2), (sample_env False, 1), (sample_env False, 1), (sample_env True, 2), (sample_env False, 2)]"

lemma sample_calls_result:
  "map (\<lambda>e. (event_id e, status e)) (od_events (replay_calls sample_calls sample_db)) = [(''a'', booked), (''b'', refused)]"
  by (simp add: engine_eval Let_def sample_calls_def)

theorem replay_at_most_once_witness:
  "audit_count ''a'' (replay_calls sample_calls sample_db) = 1 \<and> audit_count ''b'' (replay_calls sample_calls sample_db) = 0"
proof -
  obtain a b where ab: "od_events (replay_calls sample_calls sample_db) = [a, b]" "event_id a = ''a''" "status a = booked"
    "event_id b = ''b''" "status b = refused"
    using sample_calls_result by (auto simp: map_eq_Cons_conv)
  with replay_at_most_once [OF sample_store, of a sample_calls] replay_at_most_once [OF sample_store, of b sample_calls]
  show ?thesis by simp
qed

theorem replay_settles_witness:
  "\<exists>e'. find_event 2 (replay_calls sample_calls sample_db) = Some e' \<and> frozen e' = frozen (sample_event 2 ''b'' 2)
     \<and> status e' \<noteq> received"
proof (rule replay_settles [OF sample_store(1), of 2 "sample_event 2 ''b'' 2" sample_calls 2])
  show "find_event 2 sample_db = Some (sample_event 2 ''b'' 2)" by (simp add: find_event_def sample_db_def sample_event_def)
  show "maxAttempts (fst c) \<le> 2" if "c \<in> set sample_calls" for c using that by (auto simp: sample_calls_def sample_env_def)
qed (simp_all add: sample_calls_def sample_event_def)

end
