(* ===== verification/Offline_Merge.thy ===== *)
theory Offline_Merge
  imports Replay_Engine_Properties
begin

text \<open>
  Model of \<open>OfflineMergeProcessor.merge\<close>: the round that books the waiting events of a shop, always
  the earliest of the PCs' next events. A parameter gives the engine's environment at each event,
  what other requests do to the other tables between two events, and the end of an ended trial.
\<close>

record 'w merge_env =
  engine_at :: "nat \<Rightarrow> 'w replay_env"
  others_at :: "nat \<Rightarrow> 'w \<Rightarrow> 'w"
  trialEnd :: "int option"

record merge_head =
  h_device :: nat
  h_deviceNo :: nat
  h_seq :: nat
  h_startSeq :: nat

definition start_heads :: "nat list \<Rightarrow> 'w offline_db \<Rightarrow> merge_head list" where
  "start_heads stopped db =
     concat (map (\<lambda>d. if d \<in> set stopped then []
                      else case find_device d db of
                             None \<Rightarrow> []
                           | Some r \<Rightarrow> [\<lparr>h_device = d, h_deviceNo = device_no r, h_seq = next_expected_seq r,
                                        h_startSeq = next_expected_seq r\<rparr>])
       (devicesWithReceived db))"

text \<open>The events of a PC from a sequence number on: what a cursor still has ahead of it.\<close>

definition ahead :: "'w offline_db \<Rightarrow> nat \<Rightarrow> nat \<Rightarrow> nat" where
  "ahead db d sq = length (filter (\<lambda>e. ev_device_id e = d \<and> sq \<le> device_seq e) (od_events db))"

lemma findBySeq_Some: "findBySeq d sq db = Some e \<Longrightarrow> e \<in> set (od_events db) \<and> ev_device_id e = d \<and> device_seq e = sq"
  by (auto simp: findBySeq_def find_Some_iff)

lemma length_filter_less:
  "x \<in> set xs \<Longrightarrow> Q x \<Longrightarrow> \<not> P x \<Longrightarrow> (\<And>y. P y \<Longrightarrow> Q y) \<Longrightarrow> length (filter P xs) < length (filter Q xs)"
proof (induction xs)
  case (Cons a xs)
  have "length (filter P xs) \<le> length (filter Q xs)" using Cons.prems(4) by (induction xs) (auto intro: le_SucI)
  with Cons show ?case by auto
qed simp

lemma ahead_Suc: "findBySeq d sq db = Some e \<Longrightarrow> ahead db d (Suc sq) < ahead db d sq"
  unfolding ahead_def by (rule length_filter_less [of e]) (auto dest: findBySeq_Some)

text \<open>The inner \<open>while\<close>: past the events that are settled already.\<close>

function skip_settled :: "'w offline_db \<Rightarrow> nat \<Rightarrow> nat \<Rightarrow> nat \<times> OfflineEventRow option" where
  "skip_settled db d sq =
     (case findBySeq d sq db of
        None \<Rightarrow> (sq, None)
      | Some e \<Rightarrow> if status e \<noteq> received then skip_settled db d (Suc sq) else (sq, Some e))"
  by pat_completeness auto
termination
  by (relation "measure (\<lambda>(db, d, sq). ahead db d sq)") (auto intro: ahead_Suc)

declare skip_settled.simps [simp del]

definition event_at :: "OfflineEventRow \<Rightarrow> int" where
  "event_at e = (case corrected_at e of None \<Rightarrow> occurred_at e | Some t \<Rightarrow> t)"

definition earlier :: "merge_head \<times> OfflineEventRow \<Rightarrow> merge_head \<times> OfflineEventRow \<Rightarrow> bool" where
  "earlier a b \<longleftrightarrow> event_at (snd a) < event_at (snd b)
     \<or> event_at (snd a) = event_at (snd b)
       \<and> (h_deviceNo (fst a) < h_deviceNo (fst b)
          \<or> h_deviceNo (fst a) = h_deviceNo (fst b) \<and> device_seq (snd a) < device_seq (snd b))"

record 'w merge_scan =
  sc_db :: "'w offline_db"
  sc_heads :: "merge_head list"
  sc_best :: "(merge_head \<times> OfflineEventRow) option"

text \<open>One head of the scan: the head is dropped at a gap, at the end of its queue and at an event held
  for the trial; otherwise it stays at its next waiting event.\<close>

definition scan_head :: "'w merge_env \<Rightarrow> merge_head \<Rightarrow> 'w merge_scan \<Rightarrow> 'w merge_scan" where
  "scan_head m h s =
     (case skip_settled (sc_db s) (h_device h) (h_seq h) of
        (sq, ev) \<Rightarrow>
          let h1 = h\<lparr>h_seq := sq\<rparr>;
              dropped = s\<lparr>sc_db := (if sq \<noteq> h_startSeq h then setNextExpectedSeq (h_device h) sq (sc_db s) else sc_db s)\<rparr>
          in case ev of
               None \<Rightarrow> dropped
             | Some e \<Rightarrow>
                 if (case trialEnd m of None \<Rightarrow> False | Some t \<Rightarrow> event_at e \<ge> t) then dropped
                 else s\<lparr>sc_heads := sc_heads s @ [h1],
                        sc_best := (case sc_best s of None \<Rightarrow> Some (h1, e)
                                    | Some b \<Rightarrow> if earlier (h1, e) b then Some (h1, e) else Some b)\<rparr>)"

definition scan :: "'w merge_env \<Rightarrow> merge_head list \<Rightarrow> 'w offline_db \<Rightarrow> 'w merge_scan" where
  "scan m heads db = fold (scan_head m) heads \<lparr>sc_db = db, sc_heads = [], sc_best = None\<rparr>"

record 'w merge_result =
  mr_db :: "'w offline_db"
  mr_stopped :: "nat list"
  mr_processed :: nat

definition others_write :: "('w \<Rightarrow> 'w) \<Rightarrow> 'w offline_db \<Rightarrow> 'w offline_db" where
  "others_write f db = db\<lparr>od_world := f (od_world db)\<rparr>"

definition drop_head :: "nat \<Rightarrow> merge_head list \<Rightarrow> merge_head list" where
  "drop_head d hs = filter (\<lambda>x. h_device x \<noteq> d) hs"

definition advance_head :: "merge_head \<Rightarrow> merge_head list \<Rightarrow> merge_head list" where
  "advance_head h hs = map (\<lambda>x. if x = h then x\<lparr>h_seq := Suc (h_seq h), h_startSeq := Suc (h_seq h)\<rparr> else x) hs"

section \<open>What a scan does\<close>

text \<open>These facts are needed for the round to be accepted as a function that ends.\<close>

lemma skip_settled_spec:
  "skip_settled db d sq = (sq', ev) \<Longrightarrow>
     sq \<le> sq' \<and> (case ev of None \<Rightarrow> findBySeq d sq' db = None | Some e \<Rightarrow> findBySeq d sq' db = Some e \<and> status e = received)
     \<and> (\<forall>s. sq \<le> s \<and> s < sq' \<longrightarrow> (\<exists>e. findBySeq d s db = Some e \<and> status e \<noteq> received))"
proof (induction db d sq rule: skip_settled.induct)
  case (1 db d sq)
  show ?case
  proof (cases "\<exists>e. findBySeq d sq db = Some e \<and> status e \<noteq> received")
    case True
    then obtain e where e: "findBySeq d sq db = Some e" "status e \<noteq> received" by blast
    with 1 have "skip_settled db d (Suc sq) = (sq', ev)" by (simp add: skip_settled.simps [of db d sq])
    note ih = 1(1) [OF e this]
    have "\<exists>e. findBySeq d s db = Some e \<and> status e \<noteq> received" if "sq \<le> s" "s < sq'" for s
      using ih e that by (cases "s = sq") auto
    with ih show ?thesis by auto
  next
    case False
    with 1(2) show ?thesis by (auto simp: skip_settled.simps [of db d sq] split: option.splits if_splits)
  qed
qed

lemma findBySeq_cong: "od_events a = od_events b \<Longrightarrow> findBySeq d sq a = findBySeq d sq b"
  by (simp add: findBySeq_def)

lemma skip_settled_cong: "od_events a = od_events b \<Longrightarrow> skip_settled a d sq = skip_settled b d sq"
proof (induction a d sq rule: skip_settled.induct)
  case (1 a d sq)
  then show ?case
    using findBySeq_cong [OF 1(2), of d sq]
    by (auto simp: skip_settled.simps [of a d sq] skip_settled.simps [of b d sq] split: option.splits)
qed

definition moved :: "'w offline_db \<Rightarrow> merge_head \<Rightarrow> merge_head" where
  "moved db h = h\<lparr>h_seq := fst (skip_settled db (h_device h) (h_seq h))\<rparr>"

definition trial_held :: "'w merge_env \<Rightarrow> OfflineEventRow \<Rightarrow> bool" where
  "trial_held m e \<longleftrightarrow> (case trialEnd m of None \<Rightarrow> False | Some t \<Rightarrow> event_at e \<ge> t)"

definition kept :: "'w merge_env \<Rightarrow> 'w offline_db \<Rightarrow> merge_head \<Rightarrow> bool" where
  "kept m db h \<longleftrightarrow> (case snd (skip_settled db (h_device h) (h_seq h)) of None \<Rightarrow> False | Some e \<Rightarrow> \<not> trial_held m e)"

definition drop_cursor :: "'w offline_db \<Rightarrow> merge_head \<Rightarrow> 'w offline_db \<Rightarrow> 'w offline_db" where
  "drop_cursor db0 h db =
     (if h_seq (moved db0 h) \<noteq> h_startSeq h then setNextExpectedSeq (h_device h) (h_seq (moved db0 h)) db else db)"

lemma drop_cursor_events: "od_events (drop_cursor db0 h db) = od_events db"
  by (simp add: drop_cursor_def setNextExpectedSeq_def store_simps)

definition waiting_at :: "'w offline_db \<Rightarrow> merge_head \<Rightarrow> OfflineEventRow \<Rightarrow> bool" where
  "waiting_at db h e \<longleftrightarrow> findBySeq (h_device h) (h_seq h) db = Some e \<and> status e = received"

lemma scan_head_eq:
  assumes "od_events (sc_db s) = od_events db"
  shows "sc_heads (scan_head m h s) = sc_heads s @ (if kept m db h then [moved db h] else [])"
    "sc_db (scan_head m h s) = (if kept m db h then sc_db s else drop_cursor db h (sc_db s))"
    "\<not> kept m db h \<Longrightarrow> sc_best (scan_head m h s) = sc_best s"
    "kept m db h \<Longrightarrow> \<exists>e. waiting_at db (moved db h) e \<and> (sc_best (scan_head m h s) = Some (moved db h, e) \<or> sc_best (scan_head m h s) = sc_best s \<and> sc_best s \<noteq> None)"
proof -
  obtain sq ev where sk: "skip_settled db (h_device h) (h_seq h) = (sq, ev)" by fastforce
  have sk': "skip_settled (sc_db s) (h_device h) (h_seq h) = (sq, ev)" using skip_settled_cong [OF assms] sk by simp
  have mv: "moved db h = h\<lparr>h_seq := sq\<rparr>" by (simp add: moved_def sk)
  have k: "kept m db h \<longleftrightarrow> (\<exists>e. ev = Some e \<and> \<not> trial_held m e)" by (auto simp: kept_def sk split: option.splits)
  have th: "(case trialEnd m of None \<Rightarrow> False | Some t \<Rightarrow> event_at e \<ge> t) = trial_held m e" for e by (simp add: trial_held_def)
  show "sc_heads (scan_head m h s) = sc_heads s @ (if kept m db h then [moved db h] else [])"
    "sc_db (scan_head m h s) = (if kept m db h then sc_db s else drop_cursor db h (sc_db s))"
    "\<not> kept m db h \<Longrightarrow> sc_best (scan_head m h s) = sc_best s"
    unfolding scan_head_def sk' prod.case Let_def th k mv drop_cursor_def by (auto split: option.splits)
  show "\<exists>e. waiting_at db (moved db h) e \<and> (sc_best (scan_head m h s) = Some (moved db h, e) \<or> sc_best (scan_head m h s) = sc_best s \<and> sc_best s \<noteq> None)"
    if kp: "kept m db h"
  proof -
    obtain e where e: "ev = Some e" "\<not> trial_held m e" using kp k by blast
    then have "waiting_at db (moved db h) e" using skip_settled_spec [OF sk] by (simp add: waiting_at_def mv)
    moreover have "sc_best (scan_head m h s) = Some (moved db h, e) \<or> sc_best (scan_head m h s) = sc_best s \<and> sc_best s \<noteq> None"
      unfolding scan_head_def sk' prod.case Let_def th mv using e by (auto split: option.splits)
    ultimately show ?thesis by blast
  qed
qed

lemma scan_fold:
  assumes "od_events (sc_db s) = od_events db"
  shows "od_events (sc_db (fold (scan_head m) hs s)) = od_events db
    \<and> sc_heads (fold (scan_head m) hs s) = sc_heads s @ map (moved db) (filter (kept m db) hs)
    \<and> sc_db (fold (scan_head m) hs s) = fold (drop_cursor db) (filter (\<lambda>h. \<not> kept m db h) hs) (sc_db s)
    \<and> (sc_best (fold (scan_head m) hs s) = sc_best s \<and> (sc_best s \<noteq> None \<or> filter (kept m db) hs = [])
       \<or> (\<exists>h e. sc_best (fold (scan_head m) hs s) = Some (h, e) \<and> h \<in> set (map (moved db) (filter (kept m db) hs)) \<and> waiting_at db h e))"
  using assms
proof (induction hs arbitrary: s)
  case (Cons h hs)
  note eq = scan_head_eq [OF Cons.prems, of m h]
  have ev: "od_events (sc_db (scan_head m h s)) = od_events db" using eq(2) Cons.prems by (simp add: drop_cursor_events)
  note ih = Cons.IH [OF ev]
  show ?case
  proof (cases "kept m db h")
    case True
    obtain e where e: "waiting_at db (moved db h) e"
      "sc_best (scan_head m h s) = Some (moved db h, e) \<or> sc_best (scan_head m h s) = sc_best s \<and> sc_best s \<noteq> None"
      using eq(4) [OF True] by blast
    with ih eq(1,2) True show ?thesis by auto
  next
    case False
    with ih eq(1,2,3) show ?thesis by auto
  qed
qed simp

lemma scan_eq:
  "od_events (sc_db (scan m heads db)) = od_events db"
  "sc_heads (scan m heads db) = map (moved db) (filter (kept m db) heads)"
  "sc_db (scan m heads db) = fold (drop_cursor db) (filter (\<lambda>h. \<not> kept m db h) heads) db"
  "sc_best (scan m heads db) = None \<Longrightarrow> filter (kept m db) heads = []"
  "sc_best (scan m heads db) = Some (h, e) \<Longrightarrow> h \<in> set (sc_heads (scan m heads db)) \<and> waiting_at (sc_db (scan m heads db)) h e"
proof -
  let ?s0 = "\<lparr>sc_db = db, sc_heads = [], sc_best = None\<rparr> :: 'a merge_scan"
  note sp = scan_fold [of ?s0 db m heads, folded scan_def, simplified]
  show ev: "od_events (sc_db (scan m heads db)) = od_events db"
    and hs: "sc_heads (scan m heads db) = map (moved db) (filter (kept m db) heads)"
    and "sc_db (scan m heads db) = fold (drop_cursor db) (filter (\<lambda>h. \<not> kept m db h) heads) db"
    using sp by blast+
  show "sc_best (scan m heads db) = None \<Longrightarrow> filter (kept m db) heads = []" using sp by auto
  show "sc_best (scan m heads db) = Some (h, e) \<Longrightarrow> h \<in> set (sc_heads (scan m heads db)) \<and> waiting_at (sc_db (scan m heads db)) h e"
    using sp hs findBySeq_cong [OF ev] by (auto simp: waiting_at_def)
qed

section \<open>The round\<close>

definition weight_of :: "'w offline_db \<Rightarrow> merge_head list \<Rightarrow> nat" where
  "weight_of db hs = sum_list (map (\<lambda>h. Suc (ahead db (h_device h) (h_seq h))) hs)"

lemma ahead_frozen: "map frozen (od_events a) = map frozen (od_events b) \<Longrightarrow> ahead a d sq = ahead b d sq"
proof -
  have "ahead db d sq = length (filter (\<lambda>e. ev_device_id e = d \<and> sq \<le> device_seq e) (map frozen (od_events db)))" for db :: "'x offline_db"
    by (simp add: ahead_def filter_map comp_def frozen_def)
  then show "map frozen (od_events a) = map frozen (od_events b) \<Longrightarrow> ahead a d sq = ahead b d sq" by metis
qed

lemma ahead_antimono: "sq \<le> sq' \<Longrightarrow> ahead db d sq' \<le> ahead db d sq"
proof -
  assume "sq \<le> sq'"
  then have "length (filter (\<lambda>e. ev_device_id e = d \<and> sq' \<le> device_seq e) es) \<le> length (filter (\<lambda>e. ev_device_id e = d \<and> sq \<le> device_seq e) es)" for es
    by (induction es) (auto intro: le_SucI)
  then show ?thesis by (simp add: ahead_def)
qed

lemma moved_facts: "h_device (moved db h) = h_device h" "h_seq h \<le> h_seq (moved db h)" "h_startSeq (moved db h) = h_startSeq h"
  "h_deviceNo (moved db h) = h_deviceNo h"
  using skip_settled_spec [of db "h_device h" "h_seq h"] by (simp_all add: moved_def) (metis prod.collapse)

lemma weight_simps [simp]:
  "weight_of db [] = 0" "weight_of db (h # hs) = Suc (ahead db (h_device h) (h_seq h)) + weight_of db hs"
  by (simp_all add: weight_of_def)

lemma weight_scan: "weight_of db (sc_heads (scan m heads db)) \<le> weight_of db heads"
proof -
  have "weight_of db (map (moved db) (filter (kept m db) hs)) \<le> weight_of db hs" for hs
  proof (induction hs)
    case (Cons h hs)
    moreover have "ahead db (h_device h) (h_seq (moved db h)) \<le> ahead db (h_device h) (h_seq h)"
      by (rule ahead_antimono [OF moved_facts(2)])
    ultimately show ?case by (simp add: moved_facts)
  qed simp
  then show ?thesis by (simp add: scan_eq(2))
qed

lemma weight_drop: "h \<in> set hs \<Longrightarrow> weight_of db (drop_head (h_device h) hs) < weight_of db hs"
proof (induction hs)
  case (Cons x hs)
  have "weight_of db (drop_head d hs) \<le> weight_of db hs" for d
    by (induction hs) (simp_all add: drop_head_def)
  from this [of "h_device h"] Cons show ?case by (cases "h_device x = h_device h") (auto simp: drop_head_def)
qed simp

lemma weight_advance:
  assumes "h \<in> set hs" "findBySeq (h_device h) (h_seq h) db = Some e"
  shows "weight_of db (advance_head h hs) < weight_of db hs"
  using assms(1)
proof (induction hs)
  case (Cons x hs)
  have lt: "ahead db (h_device h) (Suc (h_seq h)) < ahead db (h_device h) (h_seq h)" by (rule ahead_Suc [OF assms(2)])
  have "weight_of db (advance_head h hs) \<le> weight_of db hs"
    using lt by (induction hs) (simp_all add: advance_head_def)
  with Cons lt show ?case by (cases "x = h") (simp_all add: advance_head_def)
qed simp

lemma process_frozen:
  "process n ev auto_options db = (out, db') \<Longrightarrow> map frozen (od_events db') = map frozen (od_events db)"
  using process_auto [OF _ auto_options_facts(1,2), of n ev db out db'] touched_frozen [of ev db db']
  by (auto simp: verdict_stored_def left_for_retry_def event_booked_def)

lemma weight_frozen: "map frozen (od_events a) = map frozen (od_events b) \<Longrightarrow> weight_of a hs = weight_of b hs"
  using ahead_frozen [of a b] by (induction hs) simp_all

lemma round_events:
  "od_events (setNextExpectedSeq d sq db) = od_events db" "od_events (others_write f db) = od_events db"
  by (simp_all add: setNextExpectedSeq_def others_write_def store_simps)

lemma weight_events: "od_events a = od_events b \<Longrightarrow> weight_of a hs = weight_of b hs"
  by (rule weight_frozen) simp

function merge_loop ::
    "'w merge_env \<Rightarrow> nat \<Rightarrow> merge_head list \<Rightarrow> nat list \<Rightarrow> nat \<Rightarrow> 'w offline_db \<Rightarrow> 'w merge_result" where
  "merge_loop m i heads stopped processed db =
     (let s = scan m heads db in
      case sc_best s of
        None \<Rightarrow> \<lparr>mr_db = sc_db s, mr_stopped = stopped, mr_processed = processed\<rparr>
      | Some (h, e) \<Rightarrow>
          let r = process (engine_at m i) e auto_options (sc_db s) in
          if technical (fst r)
          then merge_loop m (Suc i) (drop_head (h_device h) (sc_heads s)) (stopped @ [h_device h]) processed
                 (setNextExpectedSeq (h_device h) (h_seq h) (snd r))
          else merge_loop m (Suc i) (advance_head h (sc_heads s)) stopped (Suc processed)
                 (others_write (others_at m i) (setNextExpectedSeq (h_device h) (Suc (h_seq h)) (snd r))))"
  by pat_completeness auto
termination
proof (relation "measure (\<lambda>(m, i, heads, stopped, processed, db). weight_of db heads)", goal_cases)
  case (2 m i heads stopped processed db s p h e r)
  have "weight_of (setNextExpectedSeq (h_device h) (h_seq h) (snd r)) hs = weight_of db hs" for hs
    by (rule weight_frozen) (use 2 process_frozen [of "engine_at m i" e "sc_db s" "fst r" "snd r"] in \<open>simp add: round_events scan_eq(1)\<close>)
  moreover have "h \<in> set (sc_heads s)" using scan_eq(5) [of m heads db h e] 2 by simp
  from weight_drop [OF this, of db] weight_scan [of db m heads]
  have "weight_of db (drop_head (h_device h) (sc_heads s)) < weight_of db heads" using 2(1) by simp
  ultimately show ?case by simp
next
  case (3 m i heads stopped processed db s p h e r)
  let ?db = "others_write (others_at m i) (setNextExpectedSeq (h_device h) (Suc (h_seq h)) (snd r))"
  have "weight_of ?db hs = weight_of db hs" for hs
    by (rule weight_frozen) (use 3 process_frozen [of "engine_at m i" e "sc_db s" "fst r" "snd r"] in \<open>simp add: round_events scan_eq(1)\<close>)
  moreover have h: "h \<in> set (sc_heads s)" "waiting_at (sc_db s) h e" using scan_eq(5) [of m heads db h e] 3 by simp_all
  have "findBySeq (h_device h) (h_seq h) db = Some e"
    using h(2) findBySeq_cong [OF scan_eq(1) [of m heads db]] 3(1) by (simp add: waiting_at_def)
  from weight_advance [OF h(1) this] weight_scan [of db m heads]
  have "weight_of db (advance_head h (sc_heads s)) < weight_of db heads" using 3(1) by simp
  ultimately show ?case by simp
qed simp

declare merge_loop.simps [simp del]

definition merge_round :: "'w merge_env \<Rightarrow> nat list \<Rightarrow> 'w offline_db \<Rightarrow> 'w merge_result" where
  "merge_round m stopped db = merge_loop m 0 (start_heads stopped db) stopped 0 db"

text \<open>\<open>runRound\<close>: nothing while a round of this shop runs; otherwise one pass per request for a round
  that arrived during the previous pass. Each pass resolves the trial end anew.\<close>

fun run_passes :: "'w merge_env list \<Rightarrow> 'w merge_result \<Rightarrow> 'w merge_result" where
  "run_passes [] r = r"
| "run_passes (m # ms) r =
     (let r1 = merge_round m (mr_stopped r) (mr_db r)
      in run_passes ms (r1\<lparr>mr_processed := mr_processed r + mr_processed r1\<rparr>))"

definition runRound :: "bool \<Rightarrow> 'w merge_env list \<Rightarrow> 'w offline_db \<Rightarrow> 'w merge_result" where
  "runRound running ms db =
     (if running then \<lparr>mr_db = db, mr_stopped = [], mr_processed = 0\<rparr>
      else run_passes ms \<lparr>mr_db = db, mr_stopped = [], mr_processed = 0\<rparr>)"

end
