(* ===== verification/Offline_Merge_Properties.thy ===== *)
theory Offline_Merge_Properties
  imports Offline_Merge
begin

text \<open>
  A merge round settles every event its cursors can reach, in each PC's own order, and its cursors
  never pass an event that still waits.
\<close>

section \<open>Events by sequence number\<close>

definition settled_at :: "'w offline_db \<Rightarrow> nat \<Rightarrow> nat \<Rightarrow> bool" where
  "settled_at db d s \<longleftrightarrow> (\<exists>e. findBySeq d s db = Some e \<and> status e \<noteq> received)"

lemma findBySeq_mem: "store_ok db \<Longrightarrow> findBySeq d s db = Some x \<Longrightarrow> find_event (ev_id x) db = Some x"
  using findBySeq_Some find_event_mem by blast

lemma touched_seq:
  assumes t: "touched ev db db'" and ok: "store_ok db"
  shows "findBySeq d s db' = (case findBySeq d s db of None \<Rightarrow> None | Some x \<Rightarrow> find_event (ev_id x) db')"
proof -
  obtain g where g: "od_events db' = map (\<lambda>e. if ev_id e = ev_id ev then g e else e) (od_events db)" "\<forall>e. frozen (g e) = frozen e"
    using t unfolding touched_def by blast
  have id: "ev_id (g e) = ev_id e" "ev_device_id (g e) = ev_device_id e" "device_seq (g e) = device_seq e" for e
    using frozen_fields [of "g e" e] g(2) by simp_all
  have seq: "find (\<lambda>e. ev_device_id e = d \<and> device_seq e = s) (map (\<lambda>e. if ev_id e = ev_id ev then g e else e) es)
      = map_option (\<lambda>e. if ev_id e = ev_id ev then g e else e) (find (\<lambda>e. ev_device_id e = d \<and> device_seq e = s) es)" for es
    by (induction es) (auto simp: id)
  have row: "find (\<lambda>e. ev_id e = i) (map (\<lambda>e. if ev_id e = ev_id ev then g e else e) es)
      = map_option (\<lambda>e. if ev_id e = ev_id ev then g e else e) (find (\<lambda>e. ev_id e = i) es)" for i es
    by (induction es) (auto simp: id)
  have "find_event (ev_id x) db' = Some (if ev_id x = ev_id ev then g x else x)" if "findBySeq d s db = Some x" for x
    using findBySeq_mem [OF ok that] row [of "ev_id x" "od_events db"] by (simp add: find_event_def g(1))
  with seq [of "od_events db"] show ?thesis by (auto simp: findBySeq_def g(1) split: option.splits)
qed

lemma process_touched: "process n ev auto_options db = (out, db') \<Longrightarrow> touched ev db db'"
  using process_auto [OF _ auto_options_facts(1,2), of n ev db out db']
  by (auto simp: verdict_stored_def left_for_retry_def event_booked_def touched_refl)

text \<open>What a replay of the waiting event at a PC's cursor does to the events by sequence number.\<close>

lemma process_seq:
  assumes ok: "store_ok db" and e: "findBySeq d s db = Some e" "status e = received"
    and p: "process n e auto_options db = (out, db')"
  shows "(d', s') \<noteq> (d, s) \<Longrightarrow> findBySeq d' s' db' = findBySeq d' s' db"
    and "\<not> technical out \<Longrightarrow> settled_at db' d s"
    and "settled_at db d' s' \<Longrightarrow> settled_at db' d' s'"
proof -
  have key: "ev_device_id e = d" "device_seq e = s" using findBySeq_Some [OF e(1)] by auto
  note fe = findBySeq_mem [OF ok e(1)]
  note step = auto_step [OF ok fe p]
  note ts = touched_seq [OF process_touched [OF p] ok]
  show other: "findBySeq d' s' db' = findBySeq d' s' db" if ne: "(d', s') \<noteq> (d, s)" for d' s'
  proof (cases "findBySeq d' s' db")
    case (Some x)
    then have "ev_device_id x = d'" "device_seq x = s'" using findBySeq_Some by auto
    with ne key have "x \<noteq> e" by auto
    moreover note fx = findBySeq_mem [OF ok Some]
    ultimately have "ev_id x \<noteq> ev_id e" using fe by auto
    from step(3) [OF this] fx Some ts [of d' s'] show ?thesis by simp
  qed (simp add: ts)
  show here: "settled_at db' d s" if "\<not> technical out"
    using step(1) that e ts [of d s] by (auto simp: settled_at_def)
  show "settled_at db' d' s'" if "settled_at db d' s'"
  proof (cases "(d', s') = (d, s)")
    case True
    with that e show ?thesis by (simp add: settled_at_def)
  next
    case False
    with that other [OF False] show ?thesis by (simp add: settled_at_def)
  qed
qed

section \<open>Cursors\<close>

lemma find_device_update:
  "find_device d (update_device i f db)
     = (if d = i then map_option f (find_device d db) else find_device d db)" if "\<And>x. dv_id (f x) = dv_id x"
proof -
  have "find (\<lambda>x. dv_id x = d) (map (\<lambda>x. if dv_id x = i then f x else x) ds)
      = (if d = i then map_option f (find (\<lambda>x. dv_id x = d) ds) else find (\<lambda>x. dv_id x = d) ds)" for ds
    by (induction ds) (auto simp: that)
  then show ?thesis by (simp add: find_device_def update_device_def)
qed

definition cursor :: "'w offline_db \<Rightarrow> nat \<Rightarrow> nat option" where
  "cursor db d = map_option next_expected_seq (find_device d db)"

lemma cursor_set: "cursor (setNextExpectedSeq i sq db) d = (if d = i \<and> cursor db d \<noteq> None then Some sq else cursor db d)"
  unfolding cursor_def setNextExpectedSeq_def by (subst find_device_update) (auto simp: option.map_comp comp_def)

lemma cursor_devices: "od_devices a = od_devices b \<Longrightarrow> cursor a = cursor b"
  by (rule ext) (simp add: cursor_def find_device_def)

text \<open>Every sequence number below a PC's cursor is a settled event.\<close>

definition cursor_ok :: "'w offline_db \<Rightarrow> bool" where
  "cursor_ok db \<longleftrightarrow> (\<forall>d c s. cursor db d = Some c \<and> 1 \<le> s \<and> s < c \<longrightarrow> settled_at db d s)"

definition below_settled :: "'w offline_db \<Rightarrow> merge_head \<Rightarrow> bool" where
  "below_settled db h \<longleftrightarrow> (\<forall>s. 1 \<le> s \<and> s < h_seq h \<longrightarrow> settled_at db (h_device h) s)"

text \<open>A PC at a stop: no event at its cursor, or one held for the trial.\<close>

definition at_stop :: "'w merge_env \<Rightarrow> 'w offline_db \<Rightarrow> nat \<Rightarrow> bool" where
  "at_stop m db d \<longleftrightarrow> (\<exists>c. cursor db d = Some c \<and>
     (case findBySeq d c db of None \<Rightarrow> True | Some e \<Rightarrow> status e = received \<and> trial_held m e))"

definition round_inv :: "'w merge_env \<Rightarrow> nat set \<Rightarrow> merge_head list \<Rightarrow> nat list \<Rightarrow> 'w offline_db \<Rightarrow> bool" where
  "round_inv m D heads stopped db \<longleftrightarrow> store_ok db \<and> cursor_ok db \<and> distinct (map h_device heads)
     \<and> (\<forall>h \<in> set heads. cursor db (h_device h) = Some (h_startSeq h) \<and> below_settled db h)
     \<and> (\<forall>d \<in> D. d \<in> set stopped \<or> d \<in> h_device ` set heads \<or> at_stop m db d)"

section \<open>A scan keeps the invariant\<close>

lemma events_cong:
  assumes "od_events a = od_events b"
  shows "settled_at a = settled_at b" "store_ok a = store_ok b" "below_settled a = below_settled b"
  using findBySeq_cong [OF assms] assms by (auto simp: settled_at_def store_ok_def below_settled_def fun_eq_iff)

lemma moved_below: "below_settled db h \<Longrightarrow> below_settled db (moved db h)"
proof -
  assume b: "below_settled db h"
  obtain sq ev where sk: "skip_settled db (h_device h) (h_seq h) = (sq, ev)" by fastforce
  from skip_settled_spec [OF sk] b show ?thesis
    by (auto simp: below_settled_def moved_def sk settled_at_def) (meson not_less)
qed

lemma not_kept_stop:
  assumes "\<not> kept m db h"
  shows "case findBySeq (h_device h) (h_seq (moved db h)) db of None \<Rightarrow> True | Some e \<Rightarrow> status e = received \<and> trial_held m e"
proof -
  obtain sq ev where sk: "skip_settled db (h_device h) (h_seq h) = (sq, ev)" by fastforce
  from skip_settled_spec [OF sk] assms show ?thesis
    by (cases ev) (simp_all add: kept_def moved_def sk)
qed

lemma cursor_drop:
  assumes "cursor db (h_device h) = Some (h_startSeq h)"
  shows "cursor (drop_cursor db0 h db) d = (if d = h_device h then Some (h_seq (moved db0 h)) else cursor db d)"
  using assms by (auto simp: drop_cursor_def cursor_set)

lemma cursor_fold_drop:
  assumes "distinct (map h_device hs)" "\<And>h. h \<in> set hs \<Longrightarrow> cursor db (h_device h) = Some (h_startSeq h)"
  shows "(d \<notin> h_device ` set hs \<longrightarrow> cursor (fold (drop_cursor db0) hs db) d = cursor db d)
    \<and> (h \<in> set hs \<longrightarrow> cursor (fold (drop_cursor db0) hs db) (h_device h) = Some (h_seq (moved db0 h)))"
  using assms
proof (induction hs arbitrary: db d)
  case (Cons x hs)
  let ?db = "drop_cursor db0 x db"
  have cx: "cursor ?db d' = (if d' = h_device x then Some (h_seq (moved db0 x)) else cursor db d')" for d'
    using Cons.prems by (intro cursor_drop) simp
  have dist: "distinct (map h_device hs)" "h_device x \<notin> h_device ` set hs" using Cons.prems(1) by auto
  have rest: "cursor ?db (h_device y) = Some (h_startSeq y)" if y: "y \<in> set hs" for y
  proof -
    have "h_device y \<noteq> h_device x" using y dist(2) by (metis image_eqI)
    then show ?thesis using Cons.prems(2) y by (simp add: cx)
  qed
  note ih = Cons.IH [of ?db, OF dist(1) rest]
  have "cursor (fold (drop_cursor db0) hs ?db) (h_device x) = Some (h_seq (moved db0 x))"
    using ih [of "h_device x"] dist(2) by (simp add: cx)
  with ih show ?case by (auto simp: cx)
qed simp

text \<open>The cursors after a scan, by the fate of the heads.\<close>

lemma scan_cursors:
  assumes inv: "round_inv m D heads stopped db"
  defines "db' \<equiv> sc_db (scan m heads db)"
  shows "h \<in> set heads \<Longrightarrow> \<not> kept m db h \<Longrightarrow> cursor db' (h_device h) = Some (h_seq (moved db h))"
    and "h \<in> set heads \<Longrightarrow> kept m db h \<Longrightarrow> cursor db' (h_device h) = Some (h_startSeq h)"
    and "d \<notin> h_device ` set heads \<Longrightarrow> cursor db' d = cursor db d"
proof -
  define gone where "gone = filter (\<lambda>h. \<not> kept m db h) heads"
  have db': "db' = fold (drop_cursor db) gone db" by (simp add: db'_def gone_def scan_eq(3))
  have dist: "distinct (map h_device heads)" using inv by (simp add: round_inv_def)
  have start: "cursor db (h_device h) = Some (h_startSeq h)" if "h \<in> set heads" for h using inv that by (auto simp: round_inv_def)
  have cur: "(d \<notin> h_device ` set gone \<longrightarrow> cursor db' d = cursor db d)
      \<and> (h \<in> set gone \<longrightarrow> cursor db' (h_device h) = Some (h_seq (moved db h)))" for d h
    unfolding db' by (rule cursor_fold_drop) (use dist start in \<open>auto simp: gone_def distinct_map_filter\<close>)
  show "h \<in> set heads \<Longrightarrow> \<not> kept m db h \<Longrightarrow> cursor db' (h_device h) = Some (h_seq (moved db h))"
    using cur by (simp add: gone_def)
  show "cursor db' (h_device h) = Some (h_startSeq h)" if h: "h \<in> set heads" "kept m db h"
  proof -
    have "h_device h \<notin> h_device ` set gone" using h dist by (auto simp: gone_def distinct_map inj_on_def)
    with cur start [OF h(1)] show ?thesis by simp
  qed
  show "d \<notin> h_device ` set heads \<Longrightarrow> cursor db' d = cursor db d" using cur by (auto simp: gone_def)
qed

lemma scan_cursor_ok:
  assumes inv: "round_inv m D heads stopped db"
  shows "cursor_ok (sc_db (scan m heads db))"
  unfolding cursor_ok_def
proof (intro allI impI)
  fix d k q assume a: "cursor (sc_db (scan m heads db)) d = Some k \<and> 1 \<le> q \<and> q < k"
  note c = events_cong [OF scan_eq(1) [of m heads db]] and cur = scan_cursors [OF inv]
  show "settled_at (sc_db (scan m heads db)) d q"
  proof (cases "\<exists>h \<in> set heads. d = h_device h \<and> \<not> kept m db h")
    case True
    then obtain h where h: "h \<in> set heads" "d = h_device h" "\<not> kept m db h" by blast
    with a cur(1) have "q < h_seq (moved db h)" by simp
    moreover have "below_settled db (moved db h)" using inv h(1) by (auto simp: round_inv_def intro: moved_below)
    ultimately show ?thesis using a h(2) by (simp add: c below_settled_def moved_facts)
  next
    case False
    then have "cursor db d = Some k" using a cur(2,3) inv by (cases "d \<in> h_device ` set heads") (auto simp: round_inv_def)
    with a inv show ?thesis by (auto simp: round_inv_def cursor_ok_def c)
  qed
qed

lemma scan_at_stop:
  assumes inv: "round_inv m D heads stopped db" and d: "d \<in> D"
  shows "d \<in> set stopped \<or> d \<in> h_device ` set (sc_heads (scan m heads db)) \<or> at_stop m (sc_db (scan m heads db)) d"
proof -
  note fs = findBySeq_cong [OF scan_eq(1) [of m heads db]] and cur = scan_cursors [OF inv]
  have "d \<in> set stopped \<or> d \<in> h_device ` set heads \<or> at_stop m db d" using inv d by (auto simp: round_inv_def)
  moreover have "d \<in> h_device ` set (sc_heads (scan m heads db)) \<or> at_stop m (sc_db (scan m heads db)) d" if dh: "d \<in> h_device ` set heads"
  proof -
    obtain h where h: "h \<in> set heads" "d = h_device h" using dh by blast
    show ?thesis
    proof (cases "kept m db h")
      case True
      then have "moved db h \<in> set (sc_heads (scan m heads db))" using h by (simp add: scan_eq(2))
      then show ?thesis using h(2) moved_facts(1) by (metis image_eqI)
    next
      case False
      with not_kept_stop [OF False] cur(1) [OF h(1) False] h(2) show ?thesis by (simp add: at_stop_def fs)
    qed
  qed
  moreover have "at_stop m (sc_db (scan m heads db)) d" if "at_stop m db d" "d \<notin> h_device ` set heads"
    using that cur(3) by (simp add: at_stop_def fs)
  ultimately show ?thesis by blast
qed

lemma scan_inv:
  assumes inv: "round_inv m D heads stopped db"
  shows "round_inv m D (sc_heads (scan m heads db)) stopped (sc_db (scan m heads db))"
proof -
  note c = events_cong [OF scan_eq(1) [of m heads db]]
  have "cursor (sc_db (scan m heads db)) (h_device h) = Some (h_startSeq h) \<and> below_settled (sc_db (scan m heads db)) h"
    if "h \<in> set (sc_heads (scan m heads db))" for h
    using that scan_cursors(2) [OF inv] inv by (auto simp: scan_eq(2) moved_facts c round_inv_def intro: moved_below)
  moreover have "distinct (map h_device (sc_heads (scan m heads db)))"
    using inv by (simp add: scan_eq(2) comp_def moved_facts distinct_map_filter round_inv_def)
  moreover have "store_ok (sc_db (scan m heads db))" using inv c by (simp add: round_inv_def)
  ultimately show ?thesis using scan_cursor_ok [OF inv] scan_at_stop [OF inv] unfolding round_inv_def by blast
qed

section \<open>A replay keeps the invariant\<close>

lemma set_cursor_ok:
  assumes "cursor_ok db" "\<And>s. 1 \<le> s \<Longrightarrow> s < k \<Longrightarrow> settled_at db d s"
  shows "cursor_ok (setNextExpectedSeq d k db)"
  using assms events_cong(1) [OF round_events(1) [of d k db]] by (auto simp: cursor_ok_def cursor_set split: if_splits)

lemma at_stop_cong:
  "cursor b d = cursor a d \<Longrightarrow> (\<And>s. findBySeq d s b = findBySeq d s a) \<Longrightarrow> at_stop m b d = at_stop m a d"
  by (simp add: at_stop_def)

text \<open>One event of the round: the PC's cursor moves to \<open>k\<close>, every other PC is as before.\<close>

lemma replay_inv:
  fixes f :: "'w \<Rightarrow> 'w"
  assumes inv: "round_inv m D hs stopped db" and h: "h \<in> set hs" "waiting_at db h e"
    and p: "process n e auto_options db = (out, db1)" and k: "k = h_seq h \<or> k = Suc (h_seq h) \<and> \<not> technical out"
  defines "db2 \<equiv> others_write f (setNextExpectedSeq (h_device h) k db1)"
  shows "store_ok db2" "cursor_ok db2" "cursor db2 (h_device h) = Some k"
    and "\<And>s. 1 \<le> s \<Longrightarrow> s < k \<Longrightarrow> settled_at db2 (h_device h) s"
    and "\<And>x. x \<in> set hs \<Longrightarrow> h_device x \<noteq> h_device h \<Longrightarrow> cursor db2 (h_device x) = Some (h_startSeq x) \<and> below_settled db2 x"
    and "\<And>d. d \<noteq> h_device h \<Longrightarrow> at_stop m db d \<Longrightarrow> at_stop m db2 d"
proof -
  have ok: "store_ok db" "cursor_ok db" using inv by (auto simp: round_inv_def)
  have e: "findBySeq (h_device h) (h_seq h) db = Some e" "status e = received" using h(2) by (auto simp: waiting_at_def)
  note ps = process_seq [OF ok(1) e p] and t = process_touched [OF p]
  have cur: "cursor db1 = cursor db" by (rule cursor_devices) (use t in \<open>simp add: touched_def\<close>)
  have ev: "od_events db2 = od_events db1" by (simp add: db2_def round_events)
  have dv: "cursor db2 = cursor (setNextExpectedSeq (h_device h) k db1)"
    by (rule cursor_devices) (simp add: db2_def others_write_def)
  have ch: "cursor db (h_device h) = Some (h_startSeq h)" "below_settled db h" using inv h(1) by (auto simp: round_inv_def)
  have ok1: "cursor_ok db1" using ok(2) ps(3) by (auto simp: cursor_ok_def cur)
  have below: "settled_at db1 (h_device h) s" if s: "1 \<le> s" "s < k" for s
  proof (cases "s = h_seq h")
    case True
    then have "\<not> technical out" using k s(2) by auto
    with ps(2) True show ?thesis by simp
  next
    case False
    then have "s < h_seq h" using k s(2) by auto
    with ch(2) ps(3) s(1) show ?thesis by (simp add: below_settled_def)
  qed
  show "store_ok db2" using touched_store_ok [OF t ok(1)] events_cong(2) [OF ev] by simp
  have "cursor_ok (setNextExpectedSeq (h_device h) k db1)" by (rule set_cursor_ok [OF ok1 below])
  then show "cursor_ok db2" by (simp add: cursor_ok_def dv events_cong(1) [OF ev] events_cong(1) [OF round_events(1)])
  show "cursor db2 (h_device h) = Some k" by (simp add: dv cursor_set cur ch(1))
  show "settled_at db2 (h_device h) s" if "1 \<le> s" "s < k" for s using below [OF that] by (simp add: events_cong(1) [OF ev])
  show "cursor db2 (h_device x) = Some (h_startSeq x) \<and> below_settled db2 x" if "x \<in> set hs" "h_device x \<noteq> h_device h" for x
    using inv that ps(3) by (auto simp: round_inv_def dv cursor_set cur below_settled_def events_cong(1) [OF ev])
  show "at_stop m db2 d" if "d \<noteq> h_device h" "at_stop m db d" for d
    using that at_stop_cong [of db2 d db m] ps(1) findBySeq_cong [OF ev] by (simp add: dv cursor_set cur)
qed

lemma technical_inv:
  assumes inv: "round_inv m D hs stopped db" and h: "h \<in> set hs" "waiting_at db h e"
    and p: "process n e auto_options db = (out, db1)"
  shows "round_inv m D (drop_head (h_device h) hs) (stopped @ [h_device h]) (setNextExpectedSeq (h_device h) (h_seq h) db1)"
proof -
  note r = replay_inv [OF inv h p, where k = "h_seq h" and f = id]
  have id: "others_write id db2 = db2" for db2 :: "'a offline_db" by (simp add: others_write_def)
  note r = r [unfolded id, OF disjI1, OF refl]
  have "distinct (map h_device (drop_head (h_device h) hs))"
    using inv by (simp add: round_inv_def drop_head_def distinct_map_filter)
  moreover have "d \<in> set (stopped @ [h_device h]) \<or> d \<in> h_device ` set (drop_head (h_device h) hs)
      \<or> at_stop m (setNextExpectedSeq (h_device h) (h_seq h) db1) d" if "d \<in> D" for d
    using inv that r(6) by (cases "d = h_device h") (auto simp: round_inv_def drop_head_def)
  moreover have "cursor (setNextExpectedSeq (h_device h) (h_seq h) db1) (h_device x) = Some (h_startSeq x)
      \<and> below_settled (setNextExpectedSeq (h_device h) (h_seq h) db1) x" if "x \<in> set (drop_head (h_device h) hs)" for x
    using that r(5) by (simp add: drop_head_def)
  ultimately show ?thesis using r(1,2) unfolding round_inv_def by blast
qed

lemma settled_inv:
  assumes inv: "round_inv m D hs stopped db" and h: "h \<in> set hs" "waiting_at db h e"
    and p: "process n e auto_options db = (out, db1)" and nt: "\<not> technical out"
  shows "round_inv m D (advance_head h hs) stopped (others_write f (setNextExpectedSeq (h_device h) (Suc (h_seq h)) db1))"
proof -
  define db2 where "db2 = others_write f (setNextExpectedSeq (h_device h) (Suc (h_seq h)) db1)"
  note r = replay_inv [OF inv h p, where k = "Suc (h_seq h)" and f = f, folded db2_def, OF disjI2, OF conjI, OF refl nt]
  have dist: "distinct (map h_device hs)" using inv by (simp add: round_inv_def)
  then have one: "x = h" if "x \<in> set hs" "h_device x = h_device h" for x using that h(1) by (metis distinct_map inj_onD)
  have same: "map h_device (advance_head h hs) = map h_device hs" by (simp add: advance_head_def)
  then have devs: "h_device ` set (advance_head h hs) = h_device ` set hs" by (metis set_map)
  have "cursor db2 (h_device x) = Some (h_startSeq x) \<and> below_settled db2 x" if x: "x \<in> set (advance_head h hs)" for x
  proof -
    consider "x = h\<lparr>h_seq := Suc (h_seq h), h_startSeq := Suc (h_seq h)\<rparr>" | "x \<in> set hs" "x \<noteq> h"
      using x by (auto simp: advance_head_def split: if_splits)
    then show ?thesis
    proof cases
      case 1
      then show ?thesis using r(3,4) by (simp add: below_settled_def)
    next
      case 2
      with r(5) one show ?thesis by blast
    qed
  qed
  moreover have "d \<in> set stopped \<or> d \<in> h_device ` set (advance_head h hs) \<or> at_stop m db2 d" if "d \<in> D" for d
    using inv that r(6) h(1) unfolding devs by (cases "d = h_device h") (auto simp: round_inv_def)
  ultimately show ?thesis using r(1,2) dist same unfolding round_inv_def db2_def [symmetric] by auto
qed

section \<open>The whole round\<close>

definition received_count :: "'w offline_db \<Rightarrow> nat" where
  "received_count db = length (filter (\<lambda>e. status e = received) (od_events db))"

lemma length_filter_map_le:
  "(\<And>x. x \<in> set xs \<Longrightarrow> P (f x) \<Longrightarrow> P x) \<Longrightarrow> length (filter P (map f xs)) \<le> length (filter P xs)"
  by (induction xs) (auto intro: le_SucI)

lemma length_filter_map_less:
  "x \<in> set xs \<Longrightarrow> P x \<Longrightarrow> \<not> P (f x) \<Longrightarrow> (\<And>x. x \<in> set xs \<Longrightarrow> P (f x) \<Longrightarrow> P x)
    \<Longrightarrow> length (filter P (map f xs)) < length (filter P xs)"
proof (induction xs)
  case (Cons a xs)
  have "length (filter P (map f xs)) \<le> length (filter P xs)" using Cons.prems(4) by (intro length_filter_map_le) simp
  with Cons show ?case by (cases "x = a") (auto intro: le_imp_less_Suc less_SucI)
qed simp

lemma received_process:
  assumes ok: "store_ok db" and e: "findBySeq d s db = Some e" "status e = received"
    and p: "process n e auto_options db = (out, db1)"
  shows "received_count db1 + (if technical out then 0 else 1) \<le> received_count db"
proof -
  obtain g where g: "od_events db1 = map (\<lambda>x. if ev_id x = ev_id e then g x else x) (od_events db)"
    using process_touched [OF p] unfolding touched_def by blast
  note fe = findBySeq_mem [OF ok e(1)]
  then have mem: "e \<in> set (od_events db)" using find_event_mem [OF ok] by blast
  have one: "x = e" if "x \<in> set (od_events db)" "ev_id x = ev_id e" for x
    using that mem ok unfolding store_ok_def by (metis distinct_map inj_onD)
  have P: "status x = received" if "x \<in> set (od_events db)" "status (if ev_id x = ev_id e then g x else x) = received" for x
    using that one e(2) by (auto split: if_splits)
  show ?thesis
  proof (cases "technical out")
    case True
    then show ?thesis using length_filter_map_le [of "od_events db" "\<lambda>x. status x = received", OF P] by (simp add: received_count_def g)
  next
    case False
    obtain e1 where e1: "find_event (ev_id e) db1 = Some e1" "status e1 \<noteq> received"
      using auto_step(1) [OF ok fe p] False e(2) by blast
    then have "e1 \<in> set (od_events db1)" "ev_id e1 = ev_id e" using find_event_mem [OF auto_step(2) [OF ok fe p]] by auto
    then have "e1 = g e" using one by (auto simp: g split: if_splits)
    with e1 have "status (g e) \<noteq> received" by simp
    then have "length (filter (\<lambda>x. status x = received) (map (\<lambda>x. if ev_id x = ev_id e then g x else x) (od_events db)))
        < length (filter (\<lambda>x. status x = received) (od_events db))"
      by (intro length_filter_map_less [where P = "\<lambda>x. status x = received", OF mem e(2)]) (simp, rule P)
    then show ?thesis using False unfolding received_count_def g by simp
  qed
qed

lemma received_events: "od_events a = od_events b \<Longrightarrow> received_count a = received_count b"
  by (simp add: received_count_def)

lemma merge_loop_inv:
  assumes "round_inv m D heads stopped db"
  shows "round_inv m D [] (mr_stopped (merge_loop m i heads stopped k db)) (mr_db (merge_loop m i heads stopped k db))
    \<and> mr_processed (merge_loop m i heads stopped k db) + received_count (mr_db (merge_loop m i heads stopped k db)) \<le> k + received_count db"
  using assms
proof (induction m i heads stopped k db rule: merge_loop.induct)
  case (1 m i heads stopped k db)
  define s where "s = scan m heads db"
  have inv: "round_inv m D (sc_heads s) stopped (sc_db s)" using scan_inv [OF 1(3)] by (simp add: s_def)
  have rc: "received_count (sc_db s) = received_count db" by (rule received_events) (simp add: s_def scan_eq(1))
  show ?case
  proof (cases "sc_best s")
    case None
    then have "sc_heads s = []" using scan_eq(4) [of m heads db] by (simp add: s_def scan_eq(2))
    then show ?thesis using inv None rc by (simp add: merge_loop.simps [of m i heads stopped k db] s_def [symmetric])
  next
    case (Some b)
    obtain h e where b: "b = (h, e)" by fastforce
    have best: "sc_best s = Some (h, e)" using Some b by simp
    have h: "h \<in> set (sc_heads s)" "waiting_at (sc_db s) h e" using scan_eq(5) [of m heads db h e] best by (simp_all add: s_def)
    obtain out db1 where p: "process (engine_at m i) e auto_options (sc_db s) = (out, db1)" by fastforce
    have le: "received_count db1 + (if technical out then 0 else 1) \<le> received_count db"
      using received_process [OF _ _ _ p] h(2) inv rc by (auto simp: round_inv_def waiting_at_def)
    note eq = merge_loop.simps [of m i heads stopped k db, folded s_def, unfolded Let_def best option.case prod.case p fst_conv snd_conv]
    show ?thesis
    proof (cases "technical out")
      case True
      from 1(1) [OF s_def best refl p [symmetric]] technical_inv [OF inv h p] True le show ?thesis
        by (simp add: eq p received_events [OF round_events(1)])
    next
      case False
      from 1(2) [OF s_def best refl p [symmetric]] settled_inv [OF inv h p False] False le show ?thesis
        by (auto simp: eq p received_events [OF round_events(1)] received_events [OF round_events(2)])
    qed
  qed
qed

section \<open>Why a PC is stopped\<close>

text \<open>A PC stopped during the round waits at its cursor for an event that failed technically: against
  the start of the round only its attempt counter and its last error changed.\<close>

definition failed_once :: "OfflineEventRow \<Rightarrow> OfflineEventRow \<Rightarrow> bool" where
  "failed_once e0 e \<longleftrightarrow> status e0 = received \<and> (\<exists>err. e = e0\<lparr>attempts := attempts e0 + 1, ev_error := Some err\<rparr>)"

definition tech_stop :: "'w offline_db \<Rightarrow> 'w offline_db \<Rightarrow> nat \<Rightarrow> bool" where
  "tech_stop db0 db d \<longleftrightarrow> (\<exists>c e0 e. cursor db d = Some c \<and> findBySeq d c db0 = Some e0
     \<and> findBySeq d c db = Some e \<and> failed_once e0 e)"

definition stop_inv :: "'w offline_db \<Rightarrow> nat list \<Rightarrow> merge_head list \<Rightarrow> nat list \<Rightarrow> 'w offline_db \<Rightarrow> bool" where
  "stop_inv db0 old heads stopped db \<longleftrightarrow>
     (\<forall>d \<in> set stopped. d \<in> set old \<or> d \<notin> h_device ` set heads \<and> tech_stop db0 db d)
     \<and> (\<forall>h \<in> set heads. \<forall>s \<ge> h_seq h. findBySeq (h_device h) s db = findBySeq (h_device h) s db0)"

lemma stop_invI:
  assumes "\<And>d. d \<in> set stopped \<Longrightarrow> d \<notin> set old \<Longrightarrow> d \<notin> h_device ` set heads \<and> tech_stop db0 db d"
    and "\<And>h s. h \<in> set heads \<Longrightarrow> h_seq h \<le> s \<Longrightarrow> findBySeq (h_device h) s db = findBySeq (h_device h) s db0"
  shows "stop_inv db0 old heads stopped db"
  using assms unfolding stop_inv_def by metis

lemma stop_invD:
  assumes "stop_inv db0 old heads stopped db"
  shows "d \<in> set stopped \<Longrightarrow> d \<notin> set old \<Longrightarrow> d \<notin> h_device ` set heads \<and> tech_stop db0 db d"
    and "h \<in> set heads \<Longrightarrow> h_seq h \<le> s \<Longrightarrow> findBySeq (h_device h) s db = findBySeq (h_device h) s db0"
  using assms unfolding stop_inv_def by metis+

lemma tech_stop_cong:
  "cursor b d = cursor a d \<Longrightarrow> (\<And>s. findBySeq d s b = findBySeq d s a) \<Longrightarrow> tech_stop db0 a d \<Longrightarrow> tech_stop db0 b d"
  by (simp add: tech_stop_def)

lemma scan_stop_inv:
  assumes inv: "round_inv m D heads stopped db" and st: "stop_inv db0 old heads stopped db"
  shows "stop_inv db0 old (sc_heads (scan m heads db)) stopped (sc_db (scan m heads db))"
proof (rule stop_invI)
  note fs = findBySeq_cong [OF scan_eq(1) [of m heads db]]
  fix d
  assume d: "d \<in> set stopped" "d \<notin> set old"
  have devs: "h_device ` set (sc_heads (scan m heads db)) \<subseteq> h_device ` set heads"
    by (auto simp: scan_eq(2) moved_facts)
  note old = stop_invD(1) [OF st d]
  from tech_stop_cong [OF scan_cursors(3) [OF inv conjunct1 [OF old]] fs conjunct2 [OF old]] old devs
  show "d \<notin> h_device ` set (sc_heads (scan m heads db)) \<and> tech_stop db0 (sc_db (scan m heads db)) d" by blast
next
  fix h s
  assume h: "h \<in> set (sc_heads (scan m heads db))" and s: "h_seq h \<le> s"
  obtain h' where h': "h' \<in> set heads" "h = moved db h'" using h by (auto simp: scan_eq(2))
  then have "h_device h = h_device h'" "h_seq h' \<le> s" using s moved_facts(1) [of db h'] moved_facts(2) [of h' db] by auto
  with stop_invD(2) [OF st h'(1)] findBySeq_cong [OF scan_eq(1) [of m heads db]]
  show "findBySeq (h_device h) s (sc_db (scan m heads db)) = findBySeq (h_device h) s db0" by metis
qed

text \<open>A replay at a head changes only the event there and that PC's cursor.\<close>

lemma replay_elsewhere:
  fixes f :: "'w \<Rightarrow> 'w" and k :: nat
  assumes inv: "round_inv m D hs stopped db" and h: "waiting_at db h e"
    and p: "process n e auto_options db = (out, db1)"
  defines "db2 \<equiv> others_write f (setNextExpectedSeq (h_device h) k db1)"
  shows "(d, s) \<noteq> (h_device h, h_seq h) \<Longrightarrow> findBySeq d s db2 = findBySeq d s db"
    and "d \<noteq> h_device h \<Longrightarrow> cursor db2 d = cursor db d"
    and "technical out \<Longrightarrow> \<exists>e1. findBySeq (h_device h) (h_seq h) db2 = Some e1 \<and> failed_once e e1"
proof -
  have ok: "store_ok db" using inv by (simp add: round_inv_def)
  have e: "findBySeq (h_device h) (h_seq h) db = Some e" "status e = received" using h by (auto simp: waiting_at_def)
  have ev: "findBySeq d s db2 = findBySeq d s db1" for d s by (rule findBySeq_cong) (simp add: db2_def round_events)
  have dv: "cursor db2 = cursor (setNextExpectedSeq (h_device h) k db1)"
    by (rule cursor_devices) (simp add: db2_def others_write_def)
  have cur: "cursor db1 = cursor db"
    by (rule cursor_devices) (use process_touched [OF p] in \<open>simp add: touched_def\<close>)
  show "(d, s) \<noteq> (h_device h, h_seq h) \<Longrightarrow> findBySeq d s db2 = findBySeq d s db"
    using process_seq(1) [OF ok e p] by (simp add: ev)
  show "d \<noteq> h_device h \<Longrightarrow> cursor db2 d = cursor db d" by (simp add: dv cursor_set cur)
  show "\<exists>e1. findBySeq (h_device h) (h_seq h) db2 = Some e1 \<and> failed_once e e1" if t: "technical out"
  proof -
    note fe = findBySeq_mem [OF ok e(1)]
    have "left_for_retry n e db out db1"
      using process_auto [OF p auto_options_facts(1,2)] e(2) t
      by (auto simp: auto_options_facts verdict_stored_def event_booked_def)
    from retry_row [OF this fe] touched_seq [OF process_touched [OF p] ok, of "h_device h" "h_seq h"] e show ?thesis
      by (auto simp: ev failed_once_def)
  qed
qed

lemma technical_stop_inv:
  assumes inv: "round_inv m D hs stopped db" and st: "stop_inv db0 old hs stopped db"
    and h: "h \<in> set hs" "waiting_at db h e" and p: "process n e auto_options db = (out, db1)" "technical out"
  defines "db2 \<equiv> setNextExpectedSeq (h_device h) (h_seq h) db1"
  shows "stop_inv db0 old (drop_head (h_device h) hs) (stopped @ [h_device h]) db2"
proof (rule stop_invI)
  have id: "others_write id db2 = db2" by (simp add: others_write_def)
  note r = replay_elsewhere [OF inv h(2) p(1), where f = id and k = "h_seq h", folded db2_def, unfolded id]
  have "cursor db2 (h_device h) = Some (h_seq h)"
    using replay_inv(3) [OF inv h p(1), where k = "h_seq h" and f = id] by (simp add: db2_def [symmetric] id)
  moreover have "findBySeq (h_device h) (h_seq h) db0 = Some e"
    using stop_invD(2) [OF st h(1) order_refl] h(2) by (simp add: waiting_at_def)
  ultimately have here: "tech_stop db0 db2 (h_device h)" using r(3) [OF p(2)] by (auto simp: tech_stop_def)
  show "d \<notin> h_device ` set (drop_head (h_device h) hs) \<and> tech_stop db0 db2 d"
    if d: "d \<in> set (stopped @ [h_device h])" "d \<notin> set old" for d
  proof (cases "d = h_device h")
    case True
    with here show ?thesis by (auto simp: drop_head_def)
  next
    case False
    then have s: "d \<in> set stopped" using d(1) by simp
    have "tech_stop db0 db2 d"
      by (rule tech_stop_cong [OF r(2) [OF False] r(1) conjunct2 [OF stop_invD(1) [OF st s d(2)]]]) (use False in simp)
    with stop_invD(1) [OF st s d(2)] show ?thesis by (auto simp: drop_head_def)
  qed
  show "findBySeq (h_device x) s db2 = findBySeq (h_device x) s db0"
    if "x \<in> set (drop_head (h_device h) hs)" "h_seq x \<le> s" for x s
    using that stop_invD(2) [OF st, of x s] r(1) [of "h_device x" s] by (simp add: drop_head_def)
qed

lemma settled_stop_inv:
  fixes f :: "'w \<Rightarrow> 'w"
  assumes inv: "round_inv m D hs stopped db" and st: "stop_inv db0 old hs stopped db"
    and h: "h \<in> set hs" "waiting_at db h e" and p: "process n e auto_options db = (out, db1)"
  defines "db2 \<equiv> others_write f (setNextExpectedSeq (h_device h) (Suc (h_seq h)) db1)"
  shows "stop_inv db0 old (advance_head h hs) stopped db2"
proof (rule stop_invI)
  note r = replay_elsewhere [OF inv h(2) p, where f = f and k = "Suc (h_seq h)", folded db2_def]
  have "map h_device (advance_head h hs) = map h_device hs" by (simp add: advance_head_def)
  then have devs: "h_device ` set (advance_head h hs) = h_device ` set hs" by (metis set_map)
  show "d \<notin> h_device ` set (advance_head h hs) \<and> tech_stop db0 db2 d" if d: "d \<in> set stopped" "d \<notin> set old" for d
  proof -
    note old = stop_invD(1) [OF st d]
    then have ne: "d \<noteq> h_device h" using h(1) by blast
    have "tech_stop db0 db2 d" by (rule tech_stop_cong [OF r(2) [OF ne] r(1) conjunct2 [OF old]]) (use ne in simp)
    with old devs show ?thesis by simp
  qed
  show "findBySeq (h_device x) s db2 = findBySeq (h_device x) s db0"
    if x: "x \<in> set (advance_head h hs)" and s: "h_seq x \<le> s" for x s
  proof -
    consider "h_device x = h_device h" "h_seq x = Suc (h_seq h)" | "x \<in> set hs" "x \<noteq> h"
      using x by (auto simp: advance_head_def split: if_splits)
    then show ?thesis
    proof cases
      case 1
      with s r(1) [of "h_device x" s] stop_invD(2) [OF st h(1), of s] show ?thesis by simp
    next
      case 2
      then have "h_device x \<noteq> h_device h" using inv h(1) by (auto simp: round_inv_def distinct_map inj_on_def)
      with r(1) [of "h_device x" s] stop_invD(2) [OF st 2(1) s] show ?thesis by simp
    qed
  qed
qed

lemma merge_loop_stops:
  assumes "round_inv m D heads stopped db" "stop_inv db0 old heads stopped db"
  shows "stop_inv db0 old [] (mr_stopped (merge_loop m i heads stopped k db)) (mr_db (merge_loop m i heads stopped k db))"
  using assms
proof (induction m i heads stopped k db rule: merge_loop.induct)
  case (1 m i heads stopped k db)
  define s where "s = scan m heads db"
  have inv: "round_inv m D (sc_heads s) stopped (sc_db s)" using scan_inv [OF 1(3)] by (simp add: s_def)
  have st: "stop_inv db0 old (sc_heads s) stopped (sc_db s)" using scan_stop_inv [OF 1(3,4)] by (simp add: s_def)
  show ?case
  proof (cases "sc_best s")
    case None
    then have "sc_heads s = []" using scan_eq(4) [of m heads db] by (simp add: s_def scan_eq(2))
    then show ?thesis using st None by (simp add: merge_loop.simps [of m i heads stopped k db] s_def [symmetric])
  next
    case (Some b)
    obtain h e where b: "b = (h, e)" by fastforce
    have best: "sc_best s = Some (h, e)" using Some b by simp
    have h: "h \<in> set (sc_heads s)" "waiting_at (sc_db s) h e" using scan_eq(5) [of m heads db h e] best by (simp_all add: s_def)
    obtain out db1 where p: "process (engine_at m i) e auto_options (sc_db s) = (out, db1)" by fastforce
    note eq = merge_loop.simps [of m i heads stopped k db, folded s_def, unfolded Let_def best option.case prod.case p fst_conv snd_conv]
    show ?thesis
    proof (cases "technical out")
      case True
      from 1(1) [OF s_def best refl p [symmetric]] technical_inv [OF inv h p] technical_stop_inv [OF inv st h p True] True
      show ?thesis by (simp add: eq p)
    next
      case False
      from 1(2) [OF s_def best refl p [symmetric]] settled_inv [OF inv h p False] settled_stop_inv [OF inv st h p] False
      show ?thesis by (simp add: eq p)
    qed
  qed
qed

lemma start_heads_device:
  assumes "h \<in> set (start_heads stopped db)"
  shows "\<exists>r. find_device (h_device h) db = Some r \<and> h_seq h = next_expected_seq r \<and> h_startSeq h = next_expected_seq r"
proof -
  obtain d where "h \<in> set (case find_device d db of None \<Rightarrow> [] | Some r \<Rightarrow> [\<lparr>h_device = d, h_deviceNo = device_no r,
      h_seq = next_expected_seq r, h_startSeq = next_expected_seq r\<rparr>])"
    using assms by (auto simp: start_heads_def split: if_splits)
  then show ?thesis by (cases "find_device d db") auto
qed

lemma start_heads_all:
  assumes "d \<in> set (devicesWithReceived db)" "d \<notin> set stopped" "find_device d db = Some r"
  shows "d \<in> h_device ` set (start_heads stopped db)"
proof -
  let ?h = "\<lparr>h_device = d, h_deviceNo = device_no r, h_seq = next_expected_seq r, h_startSeq = next_expected_seq r\<rparr>"
  have "?h \<in> set (start_heads stopped db)" using assms by (force simp: start_heads_def)
  then show ?thesis by (metis image_eqI merge_head.select_convs(1))
qed

lemma start_heads_distinct: "distinct (map h_device (start_heads stopped db))"
proof -
  have "distinct (devicesWithReceived db)" by (simp add: devicesWithReceived_def)
  moreover have "distinct ds \<Longrightarrow> distinct (map h_device (concat (map (\<lambda>d. if d \<in> set stopped then [] else
      case find_device d db of None \<Rightarrow> [] | Some r \<Rightarrow> [\<lparr>h_device = d, h_deviceNo = device_no r, h_seq = next_expected_seq r,
        h_startSeq = next_expected_seq r\<rparr>]) ds)))" for ds
    by (induction ds) (auto split: option.splits if_splits)
  ultimately show ?thesis by (simp add: start_heads_def)
qed

lemma start_inv:
  assumes "store_ok db" "cursor_ok db"
  shows "round_inv m {d \<in> set (devicesWithReceived db). find_device d db \<noteq> None} (start_heads stopped db) stopped db"
proof -
  have "cursor db (h_device h) = Some (h_startSeq h) \<and> below_settled db h" if "h \<in> set (start_heads stopped db)" for h
    using start_heads_device [OF that] assms(2) by (auto simp: cursor_def cursor_ok_def below_settled_def)
  moreover have "d \<in> set stopped \<or> d \<in> h_device ` set (start_heads stopped db)"
    if "d \<in> set (devicesWithReceived db)" "find_device d db \<noteq> None" for d
    using start_heads_all [OF that(1)] that(2) by blast
  ultimately show ?thesis using assms start_heads_distinct unfolding round_inv_def by blast
qed

lemma start_stop_inv: "stop_inv db stopped (start_heads stopped db) stopped db"
  by (simp add: stop_inv_def)

text \<open>C21. A merge round ends, and it settles what it can reach: the cursors still have only settled
  events below them, at most as many events are counted as stopped waiting, and every PC of the
  device table that had an event waiting either was stopped or stands at a gap, at the end of its
  queue or at an event held for the ended trial. A PC the round itself stopped was stopped by a
  technical failure: the event at its cursor waited when the round began and still waits, with one
  more failed attempt and nothing but its last error changed; a refusal or a hold stops no PC. So
  an event that still waits lies at or behind such a place; none is skipped. (The code skips a
  PC that has no row in the device table.)\<close>

theorem merge_round_settles:
  fixes m :: "'w merge_env" and stopped :: "nat list"
  assumes "store_ok db" "cursor_ok db"
  defines "r \<equiv> merge_round m stopped db"
  shows "cursor_ok (mr_db r) \<and> mr_processed r + received_count (mr_db r) \<le> received_count db
    \<and> (\<forall>d \<in> set (devicesWithReceived db). find_device d db = None \<or> d \<in> set (mr_stopped r) \<or> at_stop m (mr_db r) d)
    \<and> (\<forall>d \<in> set (mr_stopped r) - set stopped. tech_stop db (mr_db r) d)"
proof -
  note start = start_inv [OF assms(1,2), of m stopped]
  have "round_inv m {d \<in> set (devicesWithReceived db). find_device d db \<noteq> None} [] (mr_stopped r) (mr_db r)
      \<and> mr_processed r + received_count (mr_db r) \<le> 0 + received_count db"
    unfolding r_def merge_round_def by (rule merge_loop_inv [OF start])
  moreover have "stop_inv db stopped [] (mr_stopped r) (mr_db r)"
    unfolding r_def merge_round_def by (rule merge_loop_stops [OF start start_stop_inv])
  ultimately show ?thesis by (auto simp: round_inv_def stop_inv_def)
qed

definition sample_round :: "nat merge_env" where
  "sample_round = \<lparr>engine_at = (\<lambda>i. sample_env False), others_at = (\<lambda>i w. w + 10), trialEnd = Some 1500\<rparr>"

lemma sample_round_result:
  "map (\<lambda>e. (event_id e, status e)) (od_events (mr_db (merge_round sample_round [] sample_db))) = [(''a'', booked), (''b'', received)]"
  by (simp add: merge_round_def merge_loop.simps sample_round_def start_heads_def devicesWithReceived_def scan_def scan_head_def
      skip_settled.simps findBySeq_def find_device_def event_at_def advance_head_def others_write_def setNextExpectedSeq_def
      update_device_def engine_eval Let_def)

theorem merge_round_settles_witness:
  "map (\<lambda>e. (event_id e, status e)) (od_events (mr_db (merge_round sample_round [] sample_db))) = [(''a'', booked), (''b'', received)]
   \<and> mr_processed (merge_round sample_round [] sample_db) + received_count (mr_db (merge_round sample_round [] sample_db)) \<le> 2
   \<and> cursor_ok (mr_db (merge_round sample_round [] sample_db))"
proof -
  have "cursor_ok sample_db"
    by (auto simp: cursor_ok_def cursor_def find_device_def sample_db_def split: if_splits)
  moreover have "received_count sample_db = 2" by (simp add: received_count_def sample_db_def sample_event_def)
  ultimately show ?thesis using sample_round_result merge_round_settles [OF sample_store(1), of sample_round "[]"] by simp
qed

end
