(* ===== verification/Offline_Properties.thy ===== *)
theory Offline_Properties
  imports Offline_Upload Offline_Merge_Properties
begin

text \<open>
  The store of offline work as a whole: the layout of offline ids, uploads that can be repeated, and
  the invariant of every store that uploads and merge rounds can reach.
\<close>

section \<open>Offline ids\<close>

lemma isInteger_iff: "isInteger x \<longleftrightarrow> (\<exists>n. x = of_int n)"
  by (auto simp: isInteger_def)

lemma encode_cases:
  assumes "encodeOfflineId pc tab k = Inr v"
  shows "\<exists>p t n :: int. pc = of_int p \<and> tab = of_int t \<and> k = of_int n \<and> 1 \<le> p \<and> p \<le> 9006 \<and> 0 \<le> t \<and> t \<le> 999
    \<and> 1 \<le> n \<and> n \<le> 999999999 \<and> v = of_int (p * 1000000000000 + t * 1000000000 + n)"
  using assms
  by (auto simp: encodeOfflineId_def assertIntIn_def isInteger_iff OFFLINE_PC_MIN_def OFFLINE_PC_MAX_def
      OFFLINE_TABLE_INDEX_MAX_def OFFLINE_N_MAX_def OFFLINE_ID_FLOOR_def TABLE_STRIDE_def split: if_splits option.splits)

lemma floor_split:
  fixes a b k :: int
  assumes "0 < k" "0 \<le> b" "b < k"
  shows "\<lfloor>of_int (a * k + b) / (of_int k :: rat)\<rfloor> = a"
proof -
  have "\<lfloor>of_int (a * k + b) / (of_int k :: rat)\<rfloor> = (a * k + b) div k" by (simp only: floor_divide_of_int_eq)
  also have "\<dots> = a" using assms by (simp add: div_pos_pos_trivial)
  finally show ?thesis .
qed

text \<open>C40. The layout of offline ids is lossless: an id is issued exactly for a PC number in 1 to 9006,
  a table index in 0 to 999 and a number in 1 to 999999999, all whole; it is a safe integer in the
  offline range, and decoding it gives back the three parts and the table at that index.\<close>

theorem offline_id_roundtrip:
  "(case encodeOfflineId pc tab k of
      Inl err \<Rightarrow> \<not> (isInteger pc \<and> 1 \<le> pc \<and> pc \<le> 9006 \<and> isInteger tab \<and> 0 \<le> tab \<and> tab \<le> 999
                    \<and> isInteger k \<and> 1 \<le> k \<and> k \<le> 999999999)
    | Inr v \<Rightarrow> isOfflineId v
        \<and> decodeOfflineId v = Some \<lparr>d_pc = pc, d_tableIndex = tab, d_table = table_at tab, d_n = k\<rparr>)"
proof (cases "encodeOfflineId pc tab k")
  case (Inl err)
  then show ?thesis
    by (auto simp: encodeOfflineId_def assertIntIn_def OFFLINE_PC_MIN_def OFFLINE_PC_MAX_def OFFLINE_TABLE_INDEX_MAX_def
        OFFLINE_N_MAX_def split: if_splits)
next
  case (Inr v)
  obtain p t n :: int where e: "pc = of_int p" "tab = of_int t" "k = of_int n" and r: "1 \<le> p" "p \<le> 9006" "0 \<le> t" "t \<le> 999"
    "1 \<le> n" "n \<le> 999999999" and v: "v = of_int (p * 1000000000000 + t * 1000000000 + n)"
    using encode_cases [OF Inr] by blast
  define b where "b = t * 1000000000 + n"
  have b: "0 \<le> b" "b < 1000000000000" using r by (simp_all add: b_def)
  have vb: "v = of_int (p * 1000000000000 + b)" by (simp add: v b_def)
  have off: "isOfflineId v"
  proof -
    have "p * 1000000000000 + b \<le> 9007199254740991" "1000000000000 \<le> p * 1000000000000 + b" using r b by linarith+
    then show ?thesis
      by (simp only: isOfflineId_def isSafeInteger_def isInteger_def vb OFFLINE_ID_FLOOR_def floor_of_int) (simp flip: of_int_add of_int_mult add: of_int_le_numeral_iff)
  qed
  have f1: "\<lfloor>v / of_nat OFFLINE_ID_FLOOR\<rfloor> = p"
    using floor_split [of 1000000000000 b p] b by (simp add: vb OFFLINE_ID_FLOOR_def)
  have rest: "v - of_int p * of_nat OFFLINE_ID_FLOOR = of_int (t * 1000000000 + n)" by (simp add: vb b_def OFFLINE_ID_FLOOR_def)
  have f2: "\<lfloor>of_int (t * 1000000000 + n) / of_nat TABLE_STRIDE :: rat\<rfloor> = t"
    using floor_split [of 1000000000 n t] r by (simp add: TABLE_STRIDE_def)
  have "decodeOfflineId v = Some \<lparr>d_pc = pc, d_tableIndex = tab, d_table = table_at tab, d_n = k\<rparr>"
    unfolding decodeOfflineId_def Let_def f1 rest f2 using off by (simp add: e TABLE_STRIDE_def)
  with off Inr show ?thesis by simp
qed

section \<open>Uploads\<close>

definition hash_of :: "string \<Rightarrow> 'w offline_db \<Rightarrow> string option" where
  "hash_of i db = map_option payload_hash (findByEventId i db)"

lemma hash_of_key: "hash_of i db = map_option snd (find (\<lambda>p. fst p = i) (map (\<lambda>e. (event_id e, payload_hash e)) (od_events db)))"
proof -
  have "map_option payload_hash (find (\<lambda>e. event_id e = i) es)
      = map_option snd (find (\<lambda>p. fst p = i) (map (\<lambda>e. (event_id e, payload_hash e)) es))" for es
    by (induction es) auto
  then show ?thesis by (simp add: hash_of_def findByEventId_def)
qed

lemma hash_of_cong:
  assumes "map (\<lambda>e. (event_id e, payload_hash e)) (od_events a) = map (\<lambda>e. (event_id e, payload_hash e)) (od_events b)"
  shows "hash_of i a = hash_of i b"
  by (simp only: hash_of_key assms)

lemma find_snoc: "find P xs = None \<Longrightarrow> P y \<Longrightarrow> find P (xs @ [y]) = Some y"
  by (induction xs) (auto split: if_splits)

lemma hash_of_events: "od_events a = od_events b \<Longrightarrow> hash_of i a = hash_of i b"
  by (simp add: hash_of_def findByEventId_def)

lemma hash_of_append:
  assumes "od_events b = od_events a @ es" "hash_of i a = Some x"
  shows "hash_of i b = Some x"
proof -
  have "find P xs = Some y \<Longrightarrow> find P (xs @ ys) = Some y" for P xs ys and y :: OfflineEventRow by (induction xs) auto
  with assms show ?thesis by (auto simp: hash_of_def findByEventId_def)
qed

text \<open>What one event of a batch does to the store.\<close>

abbreviation upload_insert ::
    "upload_env \<Rightarrow> nat \<Rightarrow> upload_body \<Rightarrow> int \<Rightarrow> int option \<Rightarrow> OfflineEvent \<Rightarrow> 'w offline_db \<Rightarrow> InsertEventOutcome \<times> 'w offline_db" where
  "upload_insert n d body skew online e db \<equiv>
     (let sk = skew_of n d skew online e db
      in insertReceived (toRow n d e body (if correctedAt sk \<noteq> occurredAt e then Some (correctedAt sk) else None))
           (upload_refusal n (oe_channel e)) db)"

lemma upload_event_cases:
  assumes "\<not> conflicted s" "s' = upload_event n d body skew online e s"
  shows "case upload_insert n d body skew online e (up_db s) of
      (inserted r, db1) \<Rightarrow> acked s' = acked s @ [eventId e] \<and> rejected s' = rejected s \<and> \<not> conflicted s' \<and> stored s' = stored s + 1
        \<and> od_events (up_db s') = od_events db1 \<and> fixed_part (up_db s') = fixed_part db1 \<and> od_audit (up_db s') = od_audit db1
        \<and> od_world (up_db s') = od_world db1
    | (duplicate, db1) \<Rightarrow> s' = s\<lparr>up_db := db1, acked := acked s @ [eventId e]\<rparr>
    | (reused, db1) \<Rightarrow> s' = s\<lparr>up_db := db1, rejected := rejected s @ [(eventId e, EVENT_ID_REUSED)]\<rparr>
    | (seq_conflict, db1) \<Rightarrow> s' = s\<lparr>up_db := db1, conflicted := True, rejected := rejected s @ [(eventId e, SEQ_CONFLICT)]\<rparr>"
  using assms(1) unfolding assms(2) upload_event_def Let_def
  by (auto split: prod.splits InsertEventOutcome.splits option.splits simp: store_simps)

lemma insert_outcome:
  assumes "insertReceived row ref db = (out, db1)"
  shows "out = inserted r \<Longrightarrow> hash_of (nw_event_id row) db = None \<and> findBySeq (nw_device_id row) (nw_seq row) db = None
      \<and> r = new_event_row (event_counter db + 1) row ref
      \<and> db1 = db\<lparr>od_events := od_events db @ [r], event_counter := event_counter db + 1\<rparr>"
    and "out = duplicate \<Longrightarrow> hash_of (nw_event_id row) db = Some (nw_payload_hash row) \<and> db1 = db"
    and "out = reused \<or> out = seq_conflict \<Longrightarrow> hash_of (nw_event_id row) db \<noteq> Some (nw_payload_hash row) \<and> db1 = db"
  using assms by (auto simp: insertReceived_def hash_of_def Let_def split: option.splits if_splits)

abbreviation upload_fold ::
    "upload_env \<Rightarrow> nat \<Rightarrow> upload_body \<Rightarrow> int \<Rightarrow> int option \<Rightarrow> OfflineEvent list \<Rightarrow> 'w upload_state \<Rightarrow> 'w upload_state" where
  "upload_fold n d body skew online es s \<equiv> fold (upload_event n d body skew online) es s"

text \<open>A rejected event stays rejected, so a batch with no rejection stored or knew every event.\<close>

lemma rejected_grows: "rejected s \<noteq> [] \<Longrightarrow> rejected (upload_fold n d body skew online es s) \<noteq> []"
proof (induction es arbitrary: s)
  case (Cons e es)
  have "rejected (upload_event n d body skew online e s) \<noteq> []"
    using Cons.prems by (auto simp: upload_event_def Let_def split: prod.splits InsertEventOutcome.splits)
  with Cons.IH show ?case by simp
qed simp

lemma upload_event_accepts:
  assumes "\<not> conflicted s" "rejected s = []" and s': "s' = upload_event n d body skew online e s" "rejected s' = []"
  shows "acked s' = acked s @ [eventId e]" "\<not> conflicted s'" "hash_of (eventId e) (up_db s') = Some (offlineEventHash n e)"
    "\<exists>es. od_events (up_db s') = od_events (up_db s) @ es"
proof -
  obtain out db1 where i: "upload_insert n d body skew online e (up_db s) = (out, db1)" by fastforce
  note c = upload_event_cases [OF assms(1) s'(1), unfolded i prod.case]
  note o = insert_outcome [OF i [unfolded Let_def], simplified toRow_def NewOfflineEventRow.simps]
  have "acked s' = acked s @ [eventId e] \<and> \<not> conflicted s' \<and> hash_of (eventId e) (up_db s') = Some (offlineEventHash n e)
      \<and> (\<exists>es. od_events (up_db s') = od_events (up_db s) @ es)"
  proof (cases out)
    case (inserted r)
    note o = o(1) [OF inserted]
    have ev: "od_events (up_db s') = od_events (up_db s) @ [r]" using c inserted o by simp
    have "findByEventId (eventId e) (up_db s) = None" using o by (simp add: hash_of_def)
    then have "find (\<lambda>x. event_id x = eventId e) (od_events (up_db s) @ [r]) = Some r"
      using o by (intro find_snoc) (simp_all add: findByEventId_def new_event_row_def)
    then have "hash_of (eventId e) (up_db s') = Some (offlineEventHash n e)"
      using o by (simp add: hash_of_def findByEventId_def ev new_event_row_def)
    moreover have "acked s' = acked s @ [eventId e]" "\<not> conflicted s'" using c inserted by simp_all
    ultimately show ?thesis using ev by blast
  next
    case duplicate
    with c o(2) assms(1) show ?thesis by simp
  qed (use c assms(2) s'(2) in auto)
  then show "acked s' = acked s @ [eventId e]" "\<not> conflicted s'" "hash_of (eventId e) (up_db s') = Some (offlineEventHash n e)"
    "\<exists>es. od_events (up_db s') = od_events (up_db s) @ es" by blast+
qed

lemma upload_fold_accepts:
  assumes "\<not> conflicted s" "rejected s = []" "rejected (upload_fold n d body skew online es s) = []"
  shows "acked (upload_fold n d body skew online es s) = acked s @ map eventId es
    \<and> \<not> conflicted (upload_fold n d body skew online es s)
    \<and> (\<exists>xs. od_events (up_db (upload_fold n d body skew online es s)) = od_events (up_db s) @ xs)
    \<and> (\<forall>e \<in> set es. hash_of (eventId e) (up_db (upload_fold n d body skew online es s)) = Some (offlineEventHash n e))"
  using assms
proof (induction es arbitrary: s)
  case (Cons e es)
  let ?s = "upload_event n d body skew online e s"
  have "rejected ?s = []" using rejected_grows Cons.prems(3) by (metis fold_simps(2))
  note acc = upload_event_accepts [OF Cons.prems(1,2) refl this]
  note ih = Cons.IH [OF acc(2) \<open>rejected ?s = []\<close>]
  obtain xs where "od_events (up_db (upload_fold n d body skew online es ?s)) = od_events (up_db ?s) @ xs" using ih Cons.prems(3) by auto
  from hash_of_append [OF this acc(3)] ih acc Cons.prems(3) show ?case by auto
qed simp

text \<open>A batch the store already knows changes nothing but the list of acknowledged events.\<close>

lemma upload_fold_known:
  assumes "\<not> conflicted s" "\<And>e. e \<in> set es \<Longrightarrow> hash_of (eventId e) (up_db s) = Some (offlineEventHash n e)"
  shows "upload_fold n d body skew online es s = s\<lparr>acked := acked s @ map eventId es\<rparr>"
  using assms
proof (induction es arbitrary: s)
  case (Cons e es)
  let ?s = "upload_event n d body skew online e s"
  obtain out db1 where i: "upload_insert n d body skew online e (up_db s) = (out, db1)" by fastforce
  note o = insert_outcome [OF i [unfolded Let_def], simplified toRow_def NewOfflineEventRow.simps]
  have "out = duplicate" using o(1,3) Cons.prems(2) by (cases out) auto
  with o(2) upload_event_cases [OF Cons.prems(1) refl, of n d body skew online e, unfolded i prod.case]
  have s: "?s = s\<lparr>acked := acked s @ [eventId e]\<rparr>" by simp
  with Cons.IH [of ?s] Cons.prems show ?case by simp
qed simp

text \<open>C30. A PC can send the same batch again: when an upload rejected nothing, it acknowledged every
  event of the batch, and sending the batch again, to a store whose events may since have been
  processed, acknowledges every event again and stores nothing, whatever the server's clock, policy
  or copies say then.\<close>

theorem upload_repeatable:
  assumes "upload n d (Some body) db = (Inr (ids, []), db1)"
    and "map (\<lambda>e. (event_id e, payload_hash e)) (od_events db2) = map (\<lambda>e. (event_id e, payload_hash e)) (od_events db1)"
    and "digest n' = digest n" "schemaVersion body \<le> serverSchemaVersion n'"
  shows "ids = map eventId (body_events body)
    \<and> upload n' d (Some body) db2 = (Inr (ids, []), recordUploadSeen d (server_now n' - pcClock body) db2)"
proof -
  define s where "s = upload_all n d body db"
  have s: "ids = acked s" "rejected s = []" "db1 = (if conflicted s then note_conflict d body s
      else if stored s > 0 then note_renumbered n d (up_db s) else up_db s)"
    using assms(1) by (auto simp: upload_def Let_def s_def split: if_splits)
  have acc: "acked s = map eventId (body_events body)" "\<not> conflicted s"
    "\<And>e. e \<in> set (body_events body) \<Longrightarrow> hash_of (eventId e) (up_db s) = Some (offlineEventHash n e)"
    using upload_fold_accepts [of "upload_start n d body db" n d body "server_now n - pcClock body" _ "body_events body"] s(2)
    by (auto simp: s_def upload_all_def upload_start_def)
  have "od_events db1 = od_events (up_db s)" using s(3) acc(2) by (simp add: note_renumbered_def store_simps split: option.splits)
  then have "hash_of i db2 = hash_of i (up_db s)" for i using hash_of_cong [OF assms(2)] hash_of_events by metis
  moreover have "hash_of i (recordUploadSeen d k db2) = hash_of i db2" for i k
    by (rule hash_of_events) (simp add: recordUploadSeen_def store_simps)
  moreover have "offlineEventHash n' e = offlineEventHash n e" for e by (simp add: offlineEventHash_def assms(3))
  ultimately have "hash_of (eventId e) (up_db (upload_start n' d body db2)) = Some (offlineEventHash n' e)"
    if "e \<in> set (body_events body)" for e
    using acc(3) [OF that] by (simp add: upload_start_def)
  then have "upload_all n' d body db2 = (upload_start n' d body db2)\<lparr>acked := map eventId (body_events body)\<rparr>"
    unfolding upload_all_def by (subst upload_fold_known) (auto simp: upload_start_def)
  then show ?thesis using assms(4) s(1) acc(1) by (simp add: upload_def Let_def upload_start_def)
qed

section \<open>The store as a whole\<close>

text \<open>Row ids, event ids and the sequence numbers of a PC are unique, the counter is above every row
  id, and the audit log speaks of stored events only.\<close>

definition keys_ok :: "'w offline_db \<Rightarrow> bool" where
  "keys_ok db \<longleftrightarrow> store_ok db \<and> distinct (map (\<lambda>e. (ev_device_id e, device_seq e)) (od_events db))
     \<and> (\<forall>e \<in> set (od_events db). ev_id e \<le> event_counter db) \<and> (\<forall>a \<in> set (od_audit db). au_event_id a \<in> event_id ` set (od_events db))"

definition offline_ok :: "'w offline_db \<Rightarrow> bool" where
  "offline_ok db \<longleftrightarrow> keys_ok db \<and> once_ok db \<and> cursor_ok db"

lemma keys_cong:
  assumes "od_events b = od_events a" "event_counter b = event_counter a" "od_audit b = od_audit a"
  shows "keys_ok b = keys_ok a" "once_ok b = once_ok a"
  using assms by (simp_all add: keys_ok_def store_ok_def once_ok_def audit_count_def)

lemma offline_cong:
  assumes "od_events b = od_events a" "event_counter b = event_counter a" "od_audit b = od_audit a" "cursor b = cursor a"
  shows "offline_ok b = offline_ok a"
  using keys_cong [OF assms(1-3)] events_cong(1) [OF assms(1)] assms(4) by (simp add: offline_ok_def cursor_ok_def)

lemma frozen_keys:
  assumes "map frozen xs = map frozen ys"
  shows "map (\<lambda>e. (ev_device_id e, device_seq e)) xs = map (\<lambda>e. (ev_device_id e, device_seq e)) ys"
proof -
  have "map (\<lambda>e. (ev_device_id e, device_seq e)) (map frozen xs) = map (\<lambda>e. (ev_device_id e, device_seq e)) (map frozen ys)"
    by (simp only: assms)
  then show ?thesis by (simp add: comp_def frozen_def)
qed

text \<open>Storing a new event.\<close>

lemma find_snoc_old: "find P (xs @ [y]) = (case find P xs of None \<Rightarrow> if P y then Some y else None | Some x \<Rightarrow> Some x)"
  by (induction xs) auto

lemma insert_keys:
  assumes ok: "keys_ok db" and i: "insertReceived row ref db = (inserted r, db1)"
  shows "keys_ok db1"
proof -
  note o = insert_outcome(1) [OF i refl]
  have new: "ev_id r = event_counter db + 1" "event_id r = nw_event_id row" "ev_device_id r = nw_device_id row" "device_seq r = nw_seq row"
    using o by (simp_all add: new_event_row_def)
  have "nw_event_id row \<notin> event_id ` set (od_events db)" using o by (auto simp: hash_of_def findByEventId_def find_None_iff)
  moreover have "(nw_device_id row, nw_seq row) \<notin> (\<lambda>e. (ev_device_id e, device_seq e)) ` set (od_events db)"
    using o by (auto simp: findBySeq_def find_None_iff)
  moreover have "event_counter db + 1 \<notin> ev_id ` set (od_events db)" using ok by (force simp: keys_ok_def)
  ultimately show ?thesis using ok o new by (auto simp: keys_ok_def store_ok_def)
qed

lemma insert_once:
  assumes ok: "keys_ok db" "once_ok db" and i: "insertReceived row ref db = (inserted r, db1)"
  shows "once_ok db1"
proof -
  note o = insert_outcome(1) [OF i refl]
  have new: "event_id r = nw_event_id row" "status r \<notin> {booked, applied}" using o by (auto simp: new_event_row_def)
  have "nw_event_id row \<notin> event_id ` set (od_events db)" using o by (auto simp: hash_of_def findByEventId_def find_None_iff)
  then have "audit_count (event_id r) db = 0" using ok(1) new by (force simp: keys_ok_def audit_count_def filter_empty_conv)
  with ok(2) o new(2) show ?thesis by (auto simp: once_ok_def audit_count_def)
qed

lemma insert_cursor:
  assumes ok: "cursor_ok db" and i: "insertReceived row ref db = (inserted r, db1)"
  shows "cursor_ok db1"
proof -
  note o = insert_outcome(1) [OF i refl]
  have "settled_at db d s \<Longrightarrow> settled_at db1 d s" for d s
    using o by (auto simp: settled_at_def findBySeq_def find_snoc_old)
  moreover have "cursor db1 = cursor db" using o by (intro cursor_devices) simp
  ultimately show ?thesis using ok unfolding cursor_ok_def by metis
qed

lemma insert_ok: "offline_ok db \<Longrightarrow> insertReceived row ref db = (out, db1) \<Longrightarrow> offline_ok db1"
  using insert_keys [of db row ref _ db1] insert_once [of db row ref _ db1] insert_cursor [of db row ref _ db1]
    insert_outcome(2,3) [of row ref db out db1]
  by (cases out) (auto simp: offline_ok_def)

lemma upload_event_ok: "offline_ok (up_db s) \<Longrightarrow> offline_ok (up_db (upload_event n d body skew online e s))"
proof (cases "conflicted s")
  case False
  assume ok: "offline_ok (up_db s)"
  obtain out db1 where i: "upload_insert n d body skew online e (up_db s) = (out, db1)" by fastforce
  have ok1: "offline_ok db1" by (rule insert_ok [OF ok i [unfolded Let_def]])
  note c = upload_event_cases [OF False refl, of n d body skew online e, unfolded i prod.case]
  show ?thesis
  proof (cases out)
    case (inserted r)
    with c ok1 show ?thesis by (subst offline_cong [of _ db1]) (auto intro: cursor_devices)
  qed (use c ok1 in simp_all)
qed (simp add: upload_event_def)

lemma upload_seen_ok: "offline_ok db \<Longrightarrow> offline_ok (recordUploadSeen d k db)"
proof -
  have "cursor (recordUploadSeen d k db) = cursor db"
    unfolding cursor_def recordUploadSeen_def by (rule ext, subst find_device_update) (auto simp: option.map_comp comp_def)
  then show "offline_ok db \<Longrightarrow> offline_ok (recordUploadSeen d k db)"
    by (subst offline_cong [of _ db]) (simp_all add: recordUploadSeen_def store_simps)
qed

lemma upload_ok:
  assumes "offline_ok db"
  shows "offline_ok (snd (upload n d input db))"
proof -
  have fold: "offline_ok (up_db s) \<Longrightarrow> offline_ok (up_db (upload_fold n d body k online es s))" for body k online es and s :: "'a upload_state"
    by (induction es arbitrary: s) (simp_all add: upload_event_ok)
  have all: "offline_ok (up_db (upload_all n d body db))" for body
    unfolding upload_all_def by (rule fold) (simp add: upload_start_def upload_seen_ok assms)
  have "offline_ok (note_conflict d body s)" if "offline_ok (up_db s)" for body and s :: "'a upload_state"
    using that by (subst offline_cong [of _ "up_db s"])
      (auto simp: note_conflict_def Let_def review_insert_def intro: cursor_devices)
  moreover have "offline_ok (note_renumbered n d db)" if "offline_ok db" for db :: "'a offline_db"
    using that by (subst offline_cong [of _ db])
      (auto simp: note_renumbered_def update_review_def intro: cursor_devices split: option.splits)
  ultimately show ?thesis using all assms by (simp add: upload_def Let_def split: option.splits)
qed

text \<open>A merge round. The keys and the audit log are kept whatever the cursors are.\<close>

definition log_ok :: "'w offline_db \<Rightarrow> bool" where
  "log_ok db \<longleftrightarrow> keys_ok db \<and> once_ok db"

lemma process_log_ok:
  assumes ok: "log_ok db" and e: "findBySeq d s db = Some e" and p: "process n e auto_options db = (out, db1)"
  shows "log_ok db1"
proof -
  have k: "keys_ok db" and so: "store_ok db" using ok by (simp_all add: log_ok_def keys_ok_def)
  have mem: "e \<in> set (od_events db)" using findBySeq_Some [OF e] by blast
  have t: "touched e db db1" by (rule process_touched [OF p])
  note fr = touched_frozen [OF t]
  have sets: "ev_id ` set (od_events db1) = ev_id ` set (od_events db)" "event_id ` set (od_events db1) = event_id ` set (od_events db)"
    using frozen_map_fields(1,2) [OF fr] by (metis set_map)+
  have cnt: "event_counter db1 = event_counter db" using t by (simp add: touched_def)
  have "od_audit db1 = od_audit db \<or> (\<exists>actor cs. od_audit db1 = od_audit db @ [audit_of n e actor cs])"
    using process_auto [OF p auto_options_facts(1,2)]
    by (auto simp: verdict_stored_def left_for_retry_def event_booked_def booking_effect_def rolled_back_def)
  then have "au_event_id ` set (od_audit db1) \<subseteq> event_id ` set (od_events db1)"
    using k mem unfolding sets(2) by (auto simp: keys_ok_def audit_of_def)
  moreover have "\<forall>x \<in> set (od_events db1). ev_id x \<le> event_counter db1"
  proof
    fix x assume "x \<in> set (od_events db1)"
    then have "ev_id x \<in> ev_id ` set (od_events db)" using sets(1) by blast
    then show "ev_id x \<le> event_counter db1" using k cnt by (auto simp: keys_ok_def)
  qed
  moreover have "distinct (map (\<lambda>e. (ev_device_id e, device_seq e)) (od_events db1))"
    using k frozen_keys [OF fr] by (simp add: keys_ok_def)
  moreover have "once_ok db1" using once_ok_step [OF so _ findBySeq_mem [OF so e] p] ok by (simp add: log_ok_def)
  ultimately show ?thesis using touched_store_ok [OF t so] by (auto simp: log_ok_def keys_ok_def)
qed

lemma log_cong:
  assumes "od_events b = od_events a" "event_counter b = event_counter a" "od_audit b = od_audit a"
  shows "log_ok b = log_ok a"
  using keys_cong [OF assms] by (simp add: log_ok_def)

lemma set_cursor_log: "log_ok (setNextExpectedSeq d k db) = log_ok db"
  by (rule log_cong) (simp_all add: setNextExpectedSeq_def store_simps)

lemma others_log: "log_ok (others_write f db) = log_ok db"
  by (rule log_cong) (simp_all add: others_write_def)

lemma scan_log: "log_ok (sc_db (scan m heads db)) = log_ok db"
proof -
  have "log_ok (fold (drop_cursor db0) hs db1) = log_ok db1" for db0 db1 :: "'a offline_db" and hs
    by (induction hs arbitrary: db1) (simp_all add: drop_cursor_def set_cursor_log)
  then show ?thesis by (simp add: scan_eq(3))
qed

lemma merge_loop_log: "log_ok db \<Longrightarrow> log_ok (mr_db (merge_loop m i heads stopped k db))"
proof (induction m i heads stopped k db rule: merge_loop.induct)
  case (1 m i heads stopped k db)
  define s where "s = scan m heads db"
  have ok: "log_ok (sc_db s)" using 1(3) by (simp add: s_def scan_log)
  show ?case
  proof (cases "sc_best s")
    case None
    then show ?thesis using ok by (simp add: merge_loop.simps [of m i heads stopped k db] s_def [symmetric])
  next
    case (Some b)
    obtain h e where b: "b = (h, e)" by fastforce
    have best: "sc_best s = Some (h, e)" using Some b by simp
    have h: "findBySeq (h_device h) (h_seq h) (sc_db s) = Some e"
      using scan_eq(5) [of m heads db h e] best by (simp add: s_def waiting_at_def)
    obtain out db1 where p: "process (engine_at m i) e auto_options (sc_db s) = (out, db1)" by fastforce
    have ok1: "log_ok db1" by (rule process_log_ok [OF ok h p])
    note eq = merge_loop.simps [of m i heads stopped k db, folded s_def, unfolded Let_def best option.case prod.case p fst_conv snd_conv]
    from 1(1,2) [OF s_def best refl p [symmetric]] ok1 show ?thesis
      by (simp add: eq set_cursor_log others_log p)
  qed
qed

lemma round_ok:
  assumes "offline_ok db"
  shows "offline_ok (mr_db (merge_round m stopped db))"
proof -
  have "store_ok db" "cursor_ok db" using assms by (simp_all add: offline_ok_def keys_ok_def)
  from merge_loop_inv [OF start_inv [OF this, of m stopped], of 0 0]
  have "cursor_ok (mr_db (merge_round m stopped db))" by (simp add: merge_round_def round_inv_def)
  moreover have "log_ok (mr_db (merge_round m stopped db))"
    unfolding merge_round_def using assms by (intro merge_loop_log) (simp add: log_ok_def offline_ok_def)
  ultimately show ?thesis by (simp add: offline_ok_def log_ok_def)
qed

lemma runRound_ok:
  assumes "offline_ok db"
  shows "offline_ok (mr_db (runRound running ms db))"
proof -
  have "offline_ok (mr_db r) \<Longrightarrow> offline_ok (mr_db (run_passes ms r))" for r :: "'a merge_result"
    by (induction ms arbitrary: r) (simp_all add: Let_def round_ok)
  then show ?thesis using assms by (simp add: runRound_def)
qed

section \<open>Every store that can be reached\<close>

text \<open>What happens to the offline store of a shop: a PC is added with its cursor at 1, a batch is
  uploaded, a round of merging runs, and other requests write the other tables.\<close>

inductive offline_step :: "'w offline_db \<Rightarrow> 'w offline_db \<Rightarrow> bool" where
  step_device: "find_device (dv_id r) db = None \<Longrightarrow> next_expected_seq r = 1
    \<Longrightarrow> offline_step db (db\<lparr>od_devices := od_devices db @ [r]\<rparr>)"
| step_upload: "offline_step db (snd (upload n d input db))"
| step_round: "offline_step db (mr_db (runRound running ms db))"
| step_others: "offline_step db (others_write f db)"

lemma device_ok:
  assumes "offline_ok db" "find_device (dv_id r) db = None" "next_expected_seq r = 1"
  shows "offline_ok (db\<lparr>od_devices := od_devices db @ [r]\<rparr>)"
proof -
  have "cursor (db\<lparr>od_devices := od_devices db @ [r]\<rparr>) d = Some c \<Longrightarrow> cursor db d = Some c \<or> c = 1" for d c
    using assms(3) by (auto simp: cursor_def find_device_def find_snoc_old split: option.splits if_splits)
  moreover have "settled_at (db\<lparr>od_devices := od_devices db @ [r]\<rparr>) = settled_at db" by (rule events_cong(1)) simp
  moreover have "keys_ok (db\<lparr>od_devices := od_devices db @ [r]\<rparr>) = keys_ok db" "once_ok (db\<lparr>od_devices := od_devices db @ [r]\<rparr>) = once_ok db"
    by (rule keys_cong; simp)+
  ultimately show ?thesis using assms(1) unfolding offline_ok_def cursor_ok_def by (metis less_le_not_le)
qed

interpretation offline: step_invariant offline_step offline_ok
proof
  fix a b :: "'w offline_db"
  assume "offline_step a b" "offline_ok a"
  then show "offline_ok b"
  proof cases
    case (step_others f)
    then show ?thesis using \<open>offline_ok a\<close>
      by (subst offline_cong [of _ a]) (auto simp: others_write_def intro: cursor_devices)
  qed (auto intro: device_ok upload_ok runRound_ok)
qed

text \<open>A shop's store before its first upload: no events, an empty audit log, cursors at 1.\<close>

definition fresh_store :: "'w offline_db \<Rightarrow> bool" where
  "fresh_store db \<longleftrightarrow> od_events db = [] \<and> od_audit db = [] \<and> (\<forall>d \<in> set (od_devices db). next_expected_seq d = 1)"

lemma fresh_store_ok: "fresh_store db \<Longrightarrow> offline_ok db"
  by (auto simp: fresh_store_def offline_ok_def keys_ok_def store_ok_def once_ok_def cursor_ok_def cursor_def find_device_def
      find_Some_iff)

text \<open>C10. In every store that uploads and merge rounds can reach from a fresh one, in any order and
  whatever other requests write in between: row ids, event ids and the sequence numbers of each
  PC are unique, the audit log holds one booking of each event that is booked or applied and none of any other,
  and every sequence number below a PC's cursor belongs to an event that is settled.\<close>

theorem reachable_store_ok:
  assumes "fresh_store db0" "offline_step\<^sup>*\<^sup>* db0 db"
  shows "distinct (map ev_id (od_events db)) \<and> distinct (map event_id (od_events db))
    \<and> distinct (map (\<lambda>e. (ev_device_id e, device_seq e)) (od_events db))
    \<and> (\<forall>e \<in> set (od_events db). audit_count (event_id e) db = (if status e = booked \<or> status e = applied then 1 else 0))
    \<and> (\<forall>r \<in> set (od_devices db). \<forall>s. find_device (dv_id r) db = Some r \<and> 1 \<le> s \<and> s < next_expected_seq r
         \<longrightarrow> (\<exists>e \<in> set (od_events db). ev_device_id e = dv_id r \<and> device_seq e = s \<and> status e \<noteq> received))"
proof -
  have ok: "offline_ok db" using offline.run_keeps assms fresh_store_ok by blast
  have "\<exists>e \<in> set (od_events db). ev_device_id e = dv_id r \<and> device_seq e = s \<and> status e \<noteq> received"
    if "find_device (dv_id r) db = Some r" "1 \<le> s" "s < next_expected_seq r" for r s
    using ok that findBySeq_Some unfolding offline_ok_def cursor_ok_def cursor_def settled_at_def by (metis option.simps(9))
  with ok show ?thesis by (auto simp: offline_ok_def keys_ok_def store_ok_def once_ok_def)
qed

definition sample_upload :: "nat \<Rightarrow> string \<Rightarrow> OfflineEvent" where
  "sample_upload sq x =
     \<lparr>eventId = x, seq = sq, oe_channel = ''sales:process'', oe_payload = [], actorUserId = 1, occurredAt = 1000 * int sq,
      clientDay = ''2025-01-01'', clientTzOffsetMinutes = 120, copyId = ''c'', schemaShape = JObj [], oe_rates = JObj [],
      oe_created = [(''sales'', [1023000000000 + sq])], dependsOn = []\<rparr>"

definition sample_body :: upload_body where
  "sample_body = \<lparr>appVersion = ''1'', schemaVersion = 229, pcClock = 5000, body_events = [sample_upload 1 ''a'', sample_upload 2 ''b'']\<rparr>"

definition sample_server :: "int \<Rightarrow> upload_env" where
  "sample_server t =
     \<lparr>digest = (\<lambda>p c u moment. replicate (nat (moment div 1000)) CHR ''x''), server_now = t, copy_built = (\<lambda>c. None), serverSchemaVersion = 229,
      channel_policy = policy (sample_env False), skewCorrectMs = 120000\<rparr>"

definition sample_fresh :: "nat offline_db" where
  "sample_fresh = sample_db\<lparr>od_events := [], event_counter := 0\<rparr>"

lemmas upload_eval = upload_def upload_all_def upload_start_def upload_event_def skew_of_def correctEventTime_def
  COPY_CLAMP_MS_def upload_refusal_def classOf_def policyEntry_def insertReceived_def findByEventId_def findBySeq_def toRow_def
  new_event_row_def offlineEventHash_def note_renumbered_def findPendingRenumber_def recordUploadSeen_def update_device_def
  find_device_def sample_upload_def sample_body_def sample_server_def sample_fresh_def sample_db_def sample_env_def

abbreviation sample_uploaded :: "nat offline_db" where
  "sample_uploaded \<equiv> snd (upload (sample_server 5000) 1 (Some sample_body) sample_fresh)"

lemma sample_upload_result: "fst (upload (sample_server 5000) 1 (Some sample_body) sample_fresh) = Inr ([''a'', ''b''], [])"
  by (simp add: upload_eval Let_def)

lemma sample_upload_events: "map (\<lambda>e. (event_id e, ev_device_id e, device_seq e, status e)) (od_events sample_uploaded)
    = [(''a'', 1, 1, received), (''b'', 1, 2, received)]"
  by (simp add: upload_eval Let_def)

theorem upload_repeatable_witness:
  "upload (sample_server 9000) 1 (Some sample_body) sample_uploaded
     = (Inr ([''a'', ''b''], []), recordUploadSeen 1 4000 sample_uploaded)"
proof -
  have "upload (sample_server 5000) 1 (Some sample_body) sample_fresh = (Inr ([''a'', ''b''], []), sample_uploaded)"
    using sample_upload_result by (metis prod.collapse)
  from upload_repeatable [OF this refl, of "sample_server 9000"] show ?thesis
    by (simp add: sample_server_def sample_body_def)
qed

theorem reachable_store_ok_witness:
  "offline_step\<^sup>*\<^sup>* sample_fresh (mr_db (runRound False [sample_round] sample_uploaded))
   \<and> distinct (map event_id (od_events (mr_db (runRound False [sample_round] sample_uploaded))))"
proof -
  have "offline_step sample_fresh sample_uploaded" by (rule step_upload)
  moreover have "offline_step sample_uploaded (mr_db (runRound False [sample_round] sample_uploaded))" by (rule step_round)
  ultimately have "offline_step\<^sup>*\<^sup>* sample_fresh (mr_db (runRound False [sample_round] sample_uploaded))" by simp
  moreover have "fresh_store sample_fresh" by (simp add: fresh_store_def sample_fresh_def sample_db_def)
  ultimately show ?thesis using reachable_store_ok by blast
qed

end
