(* ===== verification/Offline_Review.thy ===== *)
theory Offline_Review
  imports Replay_Engine_Properties
begin

text \<open>
  Model of the actions of \<open>OfflineReviewService\<close>: apply, book anyway, dismiss and mark reviewed, with the
  release of the items that waited on the one resolved.

  The engine's environment is a function of the number of engine calls made so far, so that each
  call of an action can meet another environment. Reads that only build a view (\<open>list\<close>, \<open>history\<close>,
  \<open>preview\<close>) are not modelled.
\<close>

section \<open>Results\<close>

datatype review_code = NOT_FOUND | NOT_APPLICABLE | PARENT_OPEN_CODE | ALREADY_RESOLVED | BUSY | HELD | REFUSED

record ReviewActionData =
  ra_state :: "OfflineReviewState option"
  ra_status :: "OfflineEventStatus option"
  ra_serverIds :: "created_ids option"

text \<open>An action fails with a code and a sentence, succeeds with data, or throws when the id map refuses a
  row inside its transaction.\<close>

datatype ReviewActionResult =
    action_failed review_code string
  | action_done ReviewActionData
  | action_threw

definition DISMISSED_PARENT :: string where
  "DISMISSED_PARENT = ''Depends on a dismissed item''"

definition PARENT_OPEN :: string where
  "PARENT_OPEN = ''This item waits on an item that is still open - resolve that one first''"

fun state_text :: "OfflineReviewState \<Rightarrow> string" where
  "state_text item_open = ''open''"
| "state_text item_applied = ''applied''"
| "state_text item_dismissed = ''dismissed''"
| "state_text item_reviewed = ''reviewed''"

definition NOTE_KINDS_REVIEWABLE :: "OfflineReviewKind \<Rightarrow> bool" where
  "NOTE_KINDS_REVIEWABLE kind \<longleftrightarrow> kind \<notin> set OFFLINE_HOLDING_KINDS"

section \<open>Reads and writes of the store\<close>

definition find_review :: "nat \<Rightarrow> 'w offline_db \<Rightarrow> OfflineReviewRow option" where
  "find_review i db = find (\<lambda>r. ri_id r = i) (od_reviews db)"

definition markResolved :: "nat \<Rightarrow> nat \<Rightarrow> 'w offline_db \<Rightarrow> 'w offline_db" where
  "markResolved i by_user db = update_event i (\<lambda>e. e\<lparr>ev_resolved_by := Some by_user\<rparr>) db"

definition listHeldDependingOn :: "string list \<Rightarrow> 'w offline_db \<Rightarrow> OfflineEventRow list" where
  "listHeldDependingOn is db =
     sort_key ev_device_id (sort_key device_seq
       (filter (\<lambda>e. status e = held \<and> list_ex (\<lambda>d. d \<in> set is) (depends_on e)) (od_events db)))"

definition resolve_all :: "OfflineReviewRow list \<Rightarrow> OfflineReviewState \<Rightarrow> nat \<Rightarrow> 'w offline_db \<Rightarrow> 'w offline_db" where
  "resolve_all items st by_user db = fold (\<lambda>r db. snd (resolve (ri_id r) st by_user db)) items db"

definition item_event :: "OfflineReviewRow \<Rightarrow> 'w offline_db \<Rightarrow> OfflineEventRow option" where
  "item_event item db = (case event_row_id item of None \<Rightarrow> None | Some i \<Rightarrow> find_event i db)"

text \<open>A repeat of an action on a resolved item returns the current state.\<close>

definition repeat :: "OfflineReviewRow \<Rightarrow> OfflineEventRow option \<Rightarrow> OfflineReviewState \<Rightarrow> ReviewActionResult" where
  "repeat item event expected =
     (if ri_state item \<noteq> expected
      then action_failed ALREADY_RESOLVED (''This item was already '' @ state_text (ri_state item))
      else action_done \<lparr>ra_state = Some (ri_state item), ra_status = map_option status event,
             ra_serverIds = (case event of None \<Rightarrow> None | Some e \<Rightarrow> result_server_ids e)\<rparr>)"

definition closeOpenItems :: "OfflineEventRow \<Rightarrow> OfflineReviewState \<Rightarrow> nat \<Rightarrow> 'w offline_db \<Rightarrow> 'w offline_db" where
  "closeOpenItems ev st by_user db =
     resolve_all (filter (\<lambda>r. ri_kind r \<in> set OFFLINE_HOLDING_KINDS \<or> ri_kind r = certain_duplicate) (openForEvent (ev_id ev) db))
       st by_user db"

text \<open>The row a duplicate matched, from the details of its item.\<close>

definition match_of :: "json_object \<Rightarrow> (string \<times> nat) option" where
  "match_of ds =
     (case map_of ds ''match'' of
        Some (JObj m) \<Rightarrow>
          (case (map_of m ''table'', map_of m ''id'') of
             (Some (JStr tab), Some (JNum i)) \<Rightarrow> if tab = [] then None else Some (tab, nat \<lfloor>i\<rfloor>)
           | _ \<Rightarrow> None)
      | _ \<Rightarrow> None)"

definition linkToMatch :: "OfflineReviewRow \<Rightarrow> OfflineEventRow \<Rightarrow> 'w offline_db \<Rightarrow> (bool \<times> 'w offline_db) option" where
  "linkToMatch item ev db =
     (case match_of (details item) of
        None \<Rightarrow> Some (False, db)
      | Some (tab, i) \<Rightarrow> mapMainRow ev (created ev) tab i linked_existing db)"

section \<open>Releasing the dependants\<close>

text \<open>One held dependant. The state is the number of engine calls, the released event ids and the store.\<close>

type_synonym 'w release_state = "nat \<times> string list \<times> 'w offline_db"

definition release_options :: "OfflineReviewRow list \<Rightarrow> nat \<Rightarrow> 'w ReplayOptions" where
  "release_options stale admin =
     \<lparr>mode = auto, bypass_checkpoint = False, bypass_duplicate = False, release = True,
      onBooked = (\<lambda>cs db. resolve_all stale item_applied admin db)\<rparr>"

definition release_one :: "(nat \<Rightarrow> 'w replay_env) \<Rightarrow> nat \<Rightarrow> OfflineEventRow \<Rightarrow> 'w release_state \<Rightarrow> 'w release_state" where
  "release_one n admin dep s =
     (case s of (k, released, db) \<Rightarrow>
        let stale = filter (\<lambda>r. ri_kind r = waiting) (openForEvent (ev_id dep) db) in
        case process (n k) dep (release_options stale admin) db of
          (out, db1) \<Rightarrow>
            if ro_status out = booked then (Suc k, released @ [event_id dep], db1)
            else if \<not> technical out then (Suc k, released, resolve_all stale item_reviewed admin db1)
            else (Suc k, released, db1))"

definition release_batch ::
    "(nat \<Rightarrow> 'w replay_env) \<Rightarrow> nat \<Rightarrow> OfflineEventRow list \<Rightarrow> 'w release_state \<Rightarrow> 'w release_state" where
  "release_batch n admin deps s = fold (release_one n admin) deps s"

lemma resolve_store [store_simps]:
  "od_events (snd (resolve i st u db)) = od_events db" "od_world (snd (resolve i st u db)) = od_world db"
  "od_id_map (snd (resolve i st u db)) = od_id_map db" "od_audit (snd (resolve i st u db)) = od_audit db"
  "od_devices (snd (resolve i st u db)) = od_devices db" "event_counter (snd (resolve i st u db)) = event_counter db"
  "review_counter (snd (resolve i st u db)) = review_counter db"
  by (simp_all add: resolve_def update_review_def)

lemma resolve_all_store [store_simps]:
  "od_events (resolve_all rs st u db) = od_events db" "od_world (resolve_all rs st u db) = od_world db"
  "od_id_map (resolve_all rs st u db) = od_id_map db" "od_audit (resolve_all rs st u db) = od_audit db"
  "od_devices (resolve_all rs st u db) = od_devices db" "event_counter (resolve_all rs st u db) = event_counter db"
  "review_counter (resolve_all rs st u db) = review_counter db"
  by (induction rs arbitrary: db) (simp_all add: resolve_all_def store_simps)

lemma release_options_facts:
  "mode (release_options stale admin) = auto" "quiet_callback (release_options stale admin)"
  "release (release_options stale admin)" "\<not> bypass_checkpoint (release_options stale admin)"
  by (simp_all add: release_options_def quiet_callback_def store_simps)

lemma release_touched: "process n ev (release_options stale admin) db = (out, db') \<Longrightarrow> touched ev db db'"
  using process_auto [OF _ release_options_facts(1,2), of n ev stale admin db out db']
  by (auto simp: verdict_stored_def left_for_retry_def event_booked_def touched_refl)

lemma release_one_frozen: "release_one n admin dep (k, rs, db) = (k', rs', db') \<Longrightarrow> map frozen (od_events db') = map frozen (od_events db)"
proof -
  assume r: "release_one n admin dep (k, rs, db) = (k', rs', db')"
  let ?st = "filter (\<lambda>r. ri_kind r = waiting) (openForEvent (ev_id dep) db)"
  obtain out db1 where p: "process (n k) dep (release_options ?st admin) db = (out, db1)" by fastforce
  then have "od_events db' = od_events db1" using r by (auto simp: release_one_def Let_def store_simps split: if_splits)
  with touched_frozen [OF release_touched [OF p]] show ?thesis by simp
qed

lemma release_batch_frozen:
  "release_batch n admin deps (k, rs, db) = (k', rs', db') \<Longrightarrow> map frozen (od_events db') = map frozen (od_events db)"
proof (induction deps arbitrary: k rs db)
  case (Cons dep deps)
  obtain k1 rs1 db1 where s: "release_one n admin dep (k, rs, db) = (k1, rs1, db1)" by (metis prod_cases3)
  with Cons.prems have "release_batch n admin deps (k1, rs1, db1) = (k', rs', db')" by (simp add: release_batch_def)
  from Cons.IH [OF this] release_one_frozen [OF s] show ?case by simp
qed (simp add: release_batch_def)

text \<open>The loop ends because every round tries an event that was not tried before.\<close>

definition untried :: "nat list \<Rightarrow> 'w offline_db \<Rightarrow> nat" where
  "untried tried db = length (filter (\<lambda>i. i \<notin> set tried) (map ev_id (od_events db)))"

definition next_dependants :: "string list \<Rightarrow> nat list \<Rightarrow> 'w offline_db \<Rightarrow> OfflineEventRow list" where
  "next_dependants released tried db = filter (\<lambda>e. ev_id e \<notin> set tried) (listHeldDependingOn released db)"

lemma next_dependants_mem:
  "e \<in> set (next_dependants rs tried db) \<Longrightarrow> e \<in> set (od_events db) \<and> status e = held \<and> ev_id e \<notin> set tried"
  by (simp add: next_dependants_def listHeldDependingOn_def)

lemma length_filter_drop: "x \<in> set xs \<Longrightarrow> P x \<Longrightarrow> \<not> Q x \<Longrightarrow> (\<And>y. Q y \<Longrightarrow> P y) \<Longrightarrow> length (filter Q xs) < length (filter P xs)"
proof (induction xs)
  case (Cons a xs)
  have "length (filter Q xs) \<le> length (filter P xs)" using Cons.prems(4) by (induction xs) (auto intro: le_SucI)
  with Cons show ?case by auto
qed simp

function releaseDependants_loop ::
    "(nat \<Rightarrow> 'w replay_env) \<Rightarrow> nat \<Rightarrow> nat \<Rightarrow> string list \<Rightarrow> nat list \<Rightarrow> 'w offline_db \<Rightarrow> 'w offline_db" where
  "releaseDependants_loop n admin k released tried db =
     (let deps = next_dependants released tried db in
      if deps = [] then db
      else case release_batch n admin deps (k, released, db) of
             (k1, released1, db1) \<Rightarrow> releaseDependants_loop n admin k1 released1 (tried @ map ev_id deps) db1)"
  by pat_completeness auto
termination
proof (relation "measure (\<lambda>(n, admin, k, released, tried, db). untried tried db)", goal_cases)
  case (2 n admin k released tried db deps k1 q released1 db1)
  have "map ev_id (od_events db1) = map ev_id (od_events db)"
    using 2 release_batch_frozen [of n admin deps k released db k1 released1 db1] frozen_map_fields(1) by metis
  moreover obtain e where "e \<in> set deps" using 2(2) by (cases deps) auto
  moreover from this have "e \<in> set (od_events db)" "ev_id e \<notin> set tried" using next_dependants_mem 2(1) by blast+
  ultimately have "length (filter (\<lambda>i. i \<notin> set (tried @ map ev_id deps)) (map ev_id (od_events db)))
      < length (filter (\<lambda>i. i \<notin> set tried) (map ev_id (od_events db)))"
    by (intro length_filter_drop [of "ev_id e"]) auto
  then show ?case using \<open>map ev_id (od_events db1) = map ev_id (od_events db)\<close> by (simp only: untried_def in_measure prod.case)
qed simp

declare releaseDependants_loop.simps [simp del]

definition releaseDependants :: "(nat \<Rightarrow> 'w replay_env) \<Rightarrow> nat \<Rightarrow> nat \<Rightarrow> OfflineEventRow \<Rightarrow> 'w offline_db \<Rightarrow> 'w offline_db" where
  "releaseDependants n admin k parent db = releaseDependants_loop n admin k [event_id parent] [] db"

definition markDependantsDismissed :: "OfflineEventRow \<Rightarrow> 'w offline_db \<Rightarrow> 'w offline_db" where
  "markDependantsDismissed parent db =
     fold (\<lambda>dep. setError (ev_id dep) DISMISSED_PARENT) (listHeldDependingOn [event_id parent] db) db"

section \<open>Actions\<close>

definition action_data :: "OfflineReviewState option \<Rightarrow> OfflineEventStatus option \<Rightarrow> created_ids option \<Rightarrow> ReviewActionResult" where
  "action_data st es ids = action_done \<lparr>ra_state = st, ra_status = es, ra_serverIds = ids\<rparr>"

definition afterBooking ::
    "(nat \<Rightarrow> 'w replay_env) \<Rightarrow> nat \<Rightarrow> OfflineReviewRow \<Rightarrow> OfflineEventRow \<Rightarrow> ReplayOutcome \<Rightarrow> 'w offline_db
      \<Rightarrow> ReviewActionResult \<times> 'w offline_db" where
  "afterBooking n admin item ev outcome db =
     (if technical outcome
      then (action_failed BUSY ''The server is busy booking offline work - try again in a moment'', db)
      else if ro_status outcome = applied
      then (action_data None (Some applied) (Some (case serverIds outcome of None \<Rightarrow> [] | Some ids \<Rightarrow> ids)),
            releaseDependants n admin 1 ev db)
      else if ro_status outcome = held \<and> \<not> refusedOnApply outcome
      then (action_failed HELD (case ro_error outcome of None \<Rightarrow> ''Held again'' | Some err \<Rightarrow> err),
            snd (resolve (ri_id item) item_reviewed admin db))
      else (action_failed REFUSED (case ro_error outcome of None \<Rightarrow> ''Refused by the service'' | Some err \<Rightarrow> err), db))"

definition apply_options :: "bool \<Rightarrow> bool \<Rightarrow> OfflineEventRow \<Rightarrow> nat \<Rightarrow> 'w ReplayOptions" where
  "apply_options chk dup ev admin =
     \<lparr>mode = apply_mode, bypass_checkpoint = chk, bypass_duplicate = dup, release = False,
      onBooked = (\<lambda>cs db. closeOpenItems ev item_applied admin db)\<rparr>"

definition review_apply ::
    "(nat \<Rightarrow> 'w replay_env) \<Rightarrow> nat \<Rightarrow> nat \<Rightarrow> 'w offline_db \<Rightarrow> ReviewActionResult \<times> 'w offline_db" where
  "review_apply n itemId admin db =
     (case find_review itemId db of
        None \<Rightarrow> (action_failed NOT_FOUND ''Review item not found'', db)
      | Some item \<Rightarrow>
          if ri_state item \<noteq> item_open then (repeat item (item_event item db) item_applied, db)
          else case item_event item db of
                 None \<Rightarrow> (action_failed NOT_APPLICABLE ''Only held or refused items can be applied'', db)
               | Some ev \<Rightarrow>
                   if ri_kind item \<notin> set OFFLINE_HOLDING_KINDS
                   then (action_failed NOT_APPLICABLE ''Only held or refused items can be applied'', db)
                   else if map_of (details item) ''noApply'' = Some (JBool True)
                   then (action_failed NOT_APPLICABLE ''Recorded by a different app version - re-enter it instead'', db)
                   else if fst (dependencyState ev db) \<noteq> [] then (action_failed PARENT_OPEN_CODE PARENT_OPEN, db)
                   else case process (n 0) ev
                               (apply_options (ri_kind item = held_checkpoint) (ri_kind item = possible_duplicate) ev admin) db of
                          (outcome, db1) \<Rightarrow> afterBooking n admin item ev outcome db1)"

definition bookAnyway ::
    "(nat \<Rightarrow> 'w replay_env) \<Rightarrow> nat \<Rightarrow> nat \<Rightarrow> 'w offline_db \<Rightarrow> ReviewActionResult \<times> 'w offline_db" where
  "bookAnyway n itemId admin db =
     (case find_review itemId db of
        None \<Rightarrow> (action_failed NOT_FOUND ''Review item not found'', db)
      | Some item \<Rightarrow>
          (case item_event item db of
             None \<Rightarrow> (action_failed NOT_APPLICABLE ''Book anyway is only for a skipped duplicate transfer or recharge'', db)
           | Some ev \<Rightarrow>
               if ri_kind item \<noteq> certain_duplicate
               then (action_failed NOT_APPLICABLE ''Book anyway is only for a skipped duplicate transfer or recharge'', db)
               else if ri_state item \<noteq> item_open then (repeat item (Some ev) item_applied, db)
               else case process (n 0) ev (apply_options False True ev admin) db of
                      (outcome, db1) \<Rightarrow> afterBooking n admin item ev outcome db1))"

text \<open>The transaction of a dismissal: whether the event was linked, and the store; \<open>None\<close> when the id map
  refuses the link, which rolls the transaction back.\<close>

definition dismiss_step ::
    "OfflineReviewRow \<Rightarrow> OfflineEventRow option \<Rightarrow> nat \<Rightarrow> string option \<Rightarrow> 'w offline_db \<Rightarrow> (bool \<times> 'w offline_db) option" where
  "dismiss_step item event admin note db =
     (case event of
        None \<Rightarrow> Some (False, snd (resolve (ri_id item) item_dismissed admin db))
      | Some ev \<Rightarrow>
          map_option (\<lambda>(linked, db1).
              let db2 = setStatus (ev_id ev) dismissed (Some admin) db1;
                  db3 = (case note of None \<Rightarrow> db2
                         | Some t \<Rightarrow> if t = [] then db2 else setError (ev_id ev) (''Dismissed: '' @ t) db2)
              in (linked, closeOpenItems ev item_dismissed admin db3))
            (if ri_kind item = possible_duplicate then linkToMatch item ev db else Some (False, db)))"

definition dismiss ::
    "(nat \<Rightarrow> 'w replay_env) \<Rightarrow> nat \<Rightarrow> nat \<Rightarrow> string option \<Rightarrow> 'w offline_db \<Rightarrow> ReviewActionResult \<times> 'w offline_db" where
  "dismiss n itemId admin note db =
     (case find_review itemId db of
        None \<Rightarrow> (action_failed NOT_FOUND ''Review item not found'', db)
      | Some item \<Rightarrow>
          let event = item_event item db in
          if ri_state item \<noteq> item_open then (repeat item event item_dismissed, db)
          else if ri_kind item \<notin> set OFFLINE_HOLDING_KINDS \<and> ri_kind item \<noteq> pc_data_mismatch
          then (action_failed NOT_APPLICABLE ''Notes are closed with Mark reviewed'', db)
          else case dismiss_step item event admin note db of
                 None \<Rightarrow> (action_threw, db)
               | Some (linked, db1) \<Rightarrow>
                   (action_data (Some item_dismissed) None None,
                    case event of
                      None \<Rightarrow> db1
                    | Some ev \<Rightarrow> if linked then releaseDependants n admin 0 ev db1 else markDependantsDismissed ev db1))"

definition review_step ::
    "OfflineReviewRow \<Rightarrow> OfflineEventRow option \<Rightarrow> nat \<Rightarrow> 'w offline_db \<Rightarrow> (bool \<times> 'w offline_db) option" where
  "review_step item event admin db =
     map_option (\<lambda>(linked, db1). (linked, snd (resolve (ri_id item) item_reviewed admin db1)))
       (case event of
          None \<Rightarrow> Some (False, db)
        | Some ev \<Rightarrow>
            if ri_kind item = certain_duplicate
            then map_option (\<lambda>(linked, db1). (linked, markResolved (ev_id ev) admin db1)) (linkToMatch item ev db)
            else Some (False, db))"

definition markReviewed ::
    "(nat \<Rightarrow> 'w replay_env) \<Rightarrow> nat \<Rightarrow> nat \<Rightarrow> 'w offline_db \<Rightarrow> ReviewActionResult \<times> 'w offline_db" where
  "markReviewed n itemId admin db =
     (case find_review itemId db of
        None \<Rightarrow> (action_failed NOT_FOUND ''Review item not found'', db)
      | Some item \<Rightarrow>
          let event = item_event item db in
          if ri_state item \<noteq> item_open then (repeat item event item_reviewed, db)
          else if \<not> NOTE_KINDS_REVIEWABLE (ri_kind item)
          then (action_failed NOT_APPLICABLE ''A held item is resolved with Apply or Dismiss'', db)
          else case review_step item event admin db of
                 None \<Rightarrow> (action_threw, db)
               | Some (linked, db1) \<Rightarrow>
                   (action_data (Some item_reviewed) None None,
                    case event of None \<Rightarrow> db1 | Some ev \<Rightarrow> if linked then releaseDependants n admin 0 ev db1 else db1))"

section \<open>The actions an item offers\<close>

datatype ReviewAction = act_apply | act_dismiss | act_reviewed | act_book_anyway

definition actionsFor :: "OfflineReviewRow \<Rightarrow> ReviewAction list" where
  "actionsFor item =
     (if map_of (details item) ''code'' = Some (JStr ''SEQ_CONFLICT'') then []
      else if ri_kind item = certain_duplicate then [act_reviewed, act_book_anyway]
      else if ri_kind item = pc_data_mismatch then [act_reviewed]
      else if ri_kind item \<in> set OFFLINE_HOLDING_KINDS
      then (if map_of (details item) ''noApply'' = Some (JBool True) then [act_dismiss] else [act_apply, act_dismiss])
      else [act_reviewed])"

end
