(* ===== verification/Offline_Review_Properties.thy ===== *)
theory Offline_Review_Properties
  imports Offline_Review
begin

text \<open>
  What the actions of the review list do: an action that fails books nothing, an item is applied once,
  and releasing the dependants of an item touches nothing but them.
\<close>

section \<open>An engine call in apply mode\<close>

lemma apply_options_facts:
  "mode (apply_options chk dup ev admin) = apply_mode" "quiet_callback (apply_options chk dup ev admin)"
  "\<not> already_settled e (apply_options chk dup ev admin)"
  by (simp_all add: apply_options_def quiet_callback_def already_settled_def closeOpenItems_def store_simps)

definition refused_again :: "OfflineEventRow \<Rightarrow> 'w offline_db \<Rightarrow> ReplayOutcome \<Rightarrow> 'w offline_db \<Rightarrow> bool" where
  "refused_again ev db out db' \<longleftrightarrow> refusedOnApply out \<and> ro_status out = status ev \<and> \<not> technical out
     \<and> (\<exists>err. db' = setError (ev_id ev) err db)"

definition applied_now :: "'w replay_env \<Rightarrow> OfflineEventRow \<Rightarrow> 'w offline_db \<Rightarrow> ReplayOutcome \<Rightarrow> 'w offline_db \<Rightarrow> bool" where
  "applied_now n ev db out db' \<longleftrightarrow> touched ev db db' \<and> \<not> technical out \<and> ro_status out = applied
     \<and> settled_as ev applied db' \<and> booking_effect n ev db db'"

lemma process_apply:
  assumes p: "process n ev opts db = (out, db')" and md: "mode opts = apply_mode" "quiet_callback opts"
  shows "technical out \<and> db' = db \<or> refused_again ev db out db' \<or> verdict_stored ev db out db' \<or> applied_now n ev db out db'"
  using process_end [of n ev opts db, unfolded p]
proof cases
  case (end_booked run p' ctx result w actor before)
  from finish_effect [OF end_booked(5) md(2)] end_booked md(1) show ?thesis
    unfolding applied_now_def booking_effect_def by fastforce
next
  case (end_duplicate st nt)
  with duplicate_effect [OF end_duplicate(3,2)] show ?thesis by auto
qed (use md in \<open>auto simp: already_settled_def refuse_def hold_def failedOnApply_def technicalFailure_def refused_again_def plain_outcome_def\<close>)

section \<open>Review items\<close>

text \<open>Every item belongs to one event or to none; ids are unique and below the counter.\<close>

definition review_ok :: "'w offline_db \<Rightarrow> bool" where
  "review_ok db \<longleftrightarrow> distinct (map ri_id (od_reviews db)) \<and> (\<forall>r \<in> set (od_reviews db). ri_id r \<le> review_counter db)"

text \<open>The items that a call adds are items of its event.\<close>

definition items_added :: "OfflineEventRow \<Rightarrow> 'w offline_db \<Rightarrow> 'w offline_db \<Rightarrow> bool" where
  "items_added ev db db' \<longleftrightarrow> review_counter db \<le> review_counter db'
     \<and> (\<exists>items. od_reviews db' = od_reviews db @ items \<and> distinct (map ri_id items)
        \<and> (\<forall>r \<in> set items. event_row_id r = Some (ev_id ev) \<and> review_counter db < ri_id r \<and> ri_id r \<le> review_counter db'))"

lemma items_added_same: "od_reviews db' = od_reviews db \<Longrightarrow> review_counter db' = review_counter db \<Longrightarrow> items_added ev db db'"
  unfolding items_added_def by (intro conjI exI [of _ "[]"]) simp_all

lemma items_added_trans:
  assumes "items_added ev a b" "items_added ev b c"
  shows "items_added ev a c"
proof -
  obtain xs where i: "od_reviews b = od_reviews a @ xs" "distinct (map ri_id xs)"
    "\<forall>r \<in> set xs. event_row_id r = Some (ev_id ev) \<and> review_counter a < ri_id r \<and> ri_id r \<le> review_counter b"
    using assms(1) unfolding items_added_def by blast
  obtain js where j: "od_reviews c = od_reviews b @ js" "distinct (map ri_id js)"
    "\<forall>r \<in> set js. event_row_id r = Some (ev_id ev) \<and> review_counter b < ri_id r \<and> ri_id r \<le> review_counter c"
    using assms(2) unfolding items_added_def by blast
  have le: "review_counter a \<le> review_counter b" "review_counter b \<le> review_counter c" using assms by (simp_all add: items_added_def)
  have "ri_id ` set xs \<inter> ri_id ` set js = {}" using i(3) j(3) by force
  with i j le show ?thesis unfolding items_added_def by (intro conjI exI [of _ "xs @ js"]) fastforce+
qed

lemma items_added_insert: "items_added ev db (review_insert (Some (ev_id ev)) d k ds db)"
  unfolding items_added_def review_insert_def by (intro conjI exI) auto

lemma review_store [store_simps]:
  "od_reviews (update_event i f db) = od_reviews db" "review_counter (update_event i f db) = review_counter db"
  "od_reviews (writeAudit n ev actor cs db) = od_reviews db" "review_counter (writeAudit n ev actor cs db) = review_counter db"
  by (simp_all add: update_event_def writeAudit_def)

lemma updateOutcome_reviews [store_simps]:
  "od_reviews (updateOutcome i st r err db) = od_reviews db" "review_counter (updateOutcome i st r err db) = review_counter db"
  by (simp_all add: updateOutcome_def store_simps)

lemma insert_notes_added: "items_added ev db (insert_notes ev ns db)"
proof (induction ns arbitrary: db)
  case (Cons x ns)
  show ?case
    by (cases x) (simp add: insert_notes_def items_added_trans [OF items_added_insert Cons.IH [unfolded insert_notes_def]])
qed (simp add: insert_notes_def items_added_same)

text \<open>What is written for a call that does not book: items of the event and its own row.\<close>

definition only_items :: "OfflineEventRow \<Rightarrow> 'w offline_db \<Rightarrow> 'w offline_db \<Rightarrow> bool" where
  "only_items ev db db' \<longleftrightarrow> items_added ev db db' \<and> rolled_back db db'"

lemma only_items_refl: "only_items ev db db"
  by (simp add: only_items_def items_added_same rolled_back_refl)

lemma only_items_trans: "only_items ev a b \<Longrightarrow> only_items ev b c \<Longrightarrow> only_items ev a c"
  by (auto simp: only_items_def rolled_back_def intro: items_added_trans)

lemma only_items_update: "only_items ev db (update_event i f db)"
  by (simp add: only_items_def rolled_back_def store_simps items_added_same)

lemma only_items_insert: "only_items ev db (review_insert (Some (ev_id ev)) d k ds db)"
  by (simp add: only_items_def rolled_back_def store_simps items_added_insert)

lemma settle_event_added: "settle_event st kind ev err ds db = (out, db') \<Longrightarrow> only_items ev db db'"
  by (auto simp: settle_event_def updateOutcome_def intro: only_items_trans [OF only_items_update only_items_insert])

lemma refuse_added: "refuse md ev err ds db = (out, db') \<Longrightarrow> only_items ev db db'"
  by (auto simp: refuse_def failedOnApply_def setError_def intro: only_items_update dest: settle_event_added split: if_splits)

lemma hold_added: "hold md ev kind err ds db = (out, db') \<Longrightarrow> only_items ev db db'"
  by (auto simp: hold_def failedOnApply_def setError_def intro: only_items_update dest: settle_event_added split: if_splits)

lemma technical_added: "technicalFailure n md ev err db = (out, db') \<Longrightarrow> only_items ev db db'"
proof -
  assume t: "technicalFailure n md ev err db = (out, db')"
  obtain k db1 where k: "incrementAttempts (ev_id ev) err db = (k, db1)" by fastforce
  have "only_items ev db db1" using k by (auto simp: incrementAttempts_def Let_def intro: only_items_update)
  with t k show ?thesis
    by (auto simp: technicalFailure_def intro: only_items_refl only_items_trans dest: refuse_added split: if_splits)
qed

lemma duplicate_added: "store_duplicate ev st nt db = (win, db') \<Longrightarrow> only_items ev db db'"
  by (auto simp: store_duplicate_def Let_def updateOutcome_def intro: only_items_trans [OF only_items_update only_items_insert])

text \<open>A call adds items of its event; a booking then runs its callback.\<close>

lemma process_items:
  assumes "process n ev opts db = (out, db')"
  shows "only_items ev db db'
    \<or> (\<exists>db1 cs. items_added ev db db1 \<and> db' = onBooked opts cs db1 \<and> ro_status out = booked_status opts \<and> \<not> technical out)"
  using process_end [of n ev opts db, unfolded assms]
proof cases
  case (end_booked run p ctx result w actor before)
  obtain db1 ns where g: "map_grown (db\<lparr>od_world := w\<rparr>) db1"
    and db': "db' = onBooked opts (created_since n (od_world db) w) (before_callback n opts ev actor (created_since n (od_world db) w) ns db1)"
    and out: "ro_status out = booked_status opts" "\<not> technical out"
    using finish_cases [OF end_booked(5)] by (auto simp: plain_outcome_def)
  have "od_reviews db1 = od_reviews db" "review_counter db1 = review_counter db" using g by (auto simp: map_grown_def)
  then have "items_added ev db (before_callback n opts ev actor (created_since n (od_world db) w) ns db1)"
    unfolding before_callback_def by (intro items_added_trans [OF items_added_same insert_notes_added]) (simp_all add: store_simps)
  with db' out show ?thesis by blast
next
  case (end_refused err ds)
  with refuse_added [of "mode opts" ev err ds db out db'] show ?thesis by simp
next
  case (end_held kind err ds)
  with hold_added [of "mode opts" ev kind err ds db out db'] show ?thesis by simp
next
  case (end_failed err)
  with technical_added [of n "mode opts" ev err db out db'] show ?thesis by simp
next
  case (end_duplicate st nt)
  with duplicate_added show ?thesis by blast
qed (simp add: only_items_refl)

section \<open>Resolving items\<close>

definition items_of :: "nat \<Rightarrow> 'w offline_db \<Rightarrow> OfflineReviewRow list" where
  "items_of i db = filter (\<lambda>r. event_row_id r = Some i) (od_reviews db)"

lemma openForEvent_items: "openForEvent i db = filter (\<lambda>r. ri_state r = item_open) (items_of i db)"
  by (simp add: openForEvent_def items_of_def conj_commute)

lemma resolve_all_reviews:
  "od_reviews (resolve_all rs st u db)
     = map (\<lambda>r. if ri_id r \<in> ri_id ` set rs \<and> ri_state r = item_open then r\<lparr>ri_state := st, ri_resolved_by := Some u\<rparr> else r) (od_reviews db)"
proof (induction rs arbitrary: db)
  case (Cons x rs)
  have "od_reviews (resolve_all (x # rs) st u db) = od_reviews (resolve_all rs st u (snd (resolve (ri_id x) st u db)))"
    by (simp add: resolve_all_def)
  then show ?case unfolding Cons.IH by (auto simp: resolve_def update_review_def)
qed (simp add: resolve_all_def map_idI)

text \<open>Items whose ids belong to one event only.\<close>

definition owned :: "nat \<Rightarrow> OfflineReviewRow list \<Rightarrow> 'w offline_db \<Rightarrow> bool" where
  "owned j rs db \<longleftrightarrow> (\<forall>r \<in> set rs. \<forall>x \<in> set (od_reviews db). ri_id x = ri_id r \<longrightarrow> event_row_id x = Some j)"

lemma owned_added: "owned (ev_id ev) rs db \<Longrightarrow> items_added ev db db' \<Longrightarrow> owned (ev_id ev) rs db'"
  by (auto simp: owned_def items_added_def)

lemma owned_items:
  assumes "review_ok db" "set rs \<subseteq> set (items_of j db)"
  shows "owned j rs db"
  unfolding owned_def
proof (intro ballI impI)
  fix r x assume r: "r \<in> set rs" and x: "x \<in> set (od_reviews db)" and eq: "ri_id x = ri_id r"
  have "r \<in> set (od_reviews db)" "event_row_id r = Some j" using assms(2) r by (auto simp: items_of_def)
  with x eq assms(1) show "event_row_id x = Some j" unfolding review_ok_def by (metis distinct_map inj_onD)
qed

lemma resolve_all_items:
  assumes "owned j rs db" "i \<noteq> j"
  shows "items_of i (resolve_all rs st u db) = items_of i db"
proof -
  have "filter (\<lambda>r. event_row_id r = Some i) (map (\<lambda>r. if ri_id r \<in> ri_id ` set rs \<and> ri_state r = item_open
      then r\<lparr>ri_state := st, ri_resolved_by := Some u\<rparr> else r) xs) = filter (\<lambda>r. event_row_id r = Some i) xs"
    if "\<forall>x \<in> set xs. ri_id x \<in> ri_id ` set rs \<longrightarrow> event_row_id x = Some j" for xs
    using that assms(2) by (induction xs) auto
  moreover have "\<forall>x \<in> set (od_reviews db). ri_id x \<in> ri_id ` set rs \<longrightarrow> event_row_id x = Some j"
    using assms(1) by (auto simp: owned_def)
  ultimately show ?thesis by (simp add: items_of_def resolve_all_reviews)
qed

lemma resolve_all_ok: "review_ok (resolve_all rs st u db) = review_ok db"
proof -
  have m: "map ri_id (od_reviews (resolve_all rs st u db)) = map ri_id (od_reviews db)" by (simp add: resolve_all_reviews)
  have "review_ok d \<longleftrightarrow> distinct (map ri_id (od_reviews d)) \<and> (\<forall>k \<in> set (map ri_id (od_reviews d)). k \<le> review_counter d)"
    for d :: "'a offline_db" by (simp add: review_ok_def)
  from this [of db] this [of "resolve_all rs st u db"] show ?thesis by (simp only: m store_simps)
qed

lemma items_added_ok:
  assumes "items_added ev db db'" "review_ok db"
  shows "review_ok db'"
proof -
  obtain xs where xs: "od_reviews db' = od_reviews db @ xs" "distinct (map ri_id xs)"
    "\<forall>r \<in> set xs. review_counter db < ri_id r \<and> ri_id r \<le> review_counter db'" and le: "review_counter db \<le> review_counter db'"
    using assms(1) unfolding items_added_def by blast
  have "ri_id ` set (od_reviews db) \<inter> ri_id ` set xs = {}" using assms(2) xs(3) by (force simp: review_ok_def)
  with xs le assms(2) show ?thesis by (force simp: review_ok_def)
qed

lemma items_added_others: "items_added ev db db' \<Longrightarrow> i \<noteq> ev_id ev \<Longrightarrow> items_of i db' = items_of i db"
  by (auto simp: items_added_def items_of_def filter_empty_conv)

section \<open>Releasing dependants leaves the others alone\<close>

definition unchanged :: "nat \<Rightarrow> string \<Rightarrow> 'w offline_db \<Rightarrow> 'w offline_db \<Rightarrow> bool" where
  "unchanged i x db db' \<longleftrightarrow> find_event i db' = find_event i db \<and> items_of i db' = items_of i db \<and> audit_count x db' = audit_count x db
     \<and> store_ok db' \<and> review_ok db'"

lemma release_one_unchanged:
  assumes ok: "store_ok db" "review_ok db" and ne: "i \<noteq> ev_id dep" "x \<noteq> event_id dep"
    and r: "release_one n admin dep (k, rs, db) = (k', rs', db')"
  shows "unchanged i x db db'"
proof -
  define stale where "stale = filter (\<lambda>r. ri_kind r = waiting) (openForEvent (ev_id dep) db)"
  obtain out db1 where p: "process (n k) dep (release_options stale admin) db = (out, db1)" by fastforce
  have own: "owned (ev_id dep) stale db" by (rule owned_items [OF ok(2)]) (auto simp: stale_def openForEvent_items)
  have db': "db' = db1 \<or> db' = resolve_all stale item_reviewed admin db1"
    using r p by (auto simp: release_one_def Let_def stale_def [symmetric] split: if_splits)
  have items1: "items_of i db1 = items_of i db \<and> review_ok db1 \<and> owned (ev_id dep) stale db1"
  proof -
    obtain X where X: "items_added dep db X" "db1 = X \<or> db1 = resolve_all stale item_applied admin X"
      using process_items [OF p] by (auto simp: only_items_def release_options_def)
    have "owned (ev_id dep) stale X" by (rule owned_added [OF own X(1)])
    moreover from this have "owned (ev_id dep) stale (resolve_all stale item_applied admin X)"
      by (auto simp: owned_def resolve_all_reviews split: if_splits)
    ultimately show ?thesis
      using X(2) items_added_others [OF X(1) ne(1)] items_added_ok [OF X(1) ok(2)] resolve_all_items [OF _ ne(1)] resolve_all_ok by metis
  qed
  then have items: "items_of i db' = items_of i db \<and> review_ok db'" using db' resolve_all_items [OF _ ne(1)] resolve_all_ok by metis
  note t = release_touched [OF p]
  obtain g where "\<forall>k. find_event k db1 = (if k = ev_id dep then map_option g (find_event k db) else find_event k db)"
    using touched_rows [OF t] by blast
  then have "find_event i db1 = find_event i db" using ne(1) by simp
  moreover have "audit_count x db1 = audit_count x db"
    using process_auto [OF p release_options_facts(1,2)] ne(2)
    by (auto simp: verdict_stored_def left_for_retry_def event_booked_def booking_effect_def rolled_back_def audit_count_def audit_of_def)
  moreover have "od_events db' = od_events db1" "od_audit db' = od_audit db1" using db' by (auto simp: store_simps)
  ultimately show ?thesis using items touched_store_ok [OF t ok(1)]
    by (simp add: unchanged_def find_event_def audit_count_def store_ok_def)
qed

lemma unchanged_refl: "store_ok db \<Longrightarrow> review_ok db \<Longrightarrow> unchanged i x db db"
  by (simp add: unchanged_def)

lemma unchanged_trans: "unchanged i x a b \<Longrightarrow> unchanged i x b c \<Longrightarrow> unchanged i x a c"
  by (simp add: unchanged_def)

lemma release_batch_unchanged:
  assumes "store_ok db" "review_ok db" "\<And>dep. dep \<in> set deps \<Longrightarrow> i \<noteq> ev_id dep \<and> x \<noteq> event_id dep"
    and "release_batch n admin deps (k, rs, db) = (k', rs', db')"
  shows "unchanged i x db db'"
  using assms
proof (induction deps arbitrary: k rs db)
  case (Cons dep deps)
  obtain k1 rs1 db1 where s: "release_one n admin dep (k, rs, db) = (k1, rs1, db1)" by (metis prod_cases3)
  have u: "unchanged i x db db1" using release_one_unchanged [OF Cons.prems(1,2) _ _ s] Cons.prems(3) by simp
  from s Cons.prems(4) have "release_batch n admin deps (k1, rs1, db1) = (k', rs', db')" by (simp add: release_batch_def)
  from Cons.IH [OF _ _ _ this] Cons.prems(3) u have "unchanged i x db1 db'" by (simp add: unchanged_def)
  with u show ?case by (rule unchanged_trans)
qed (simp add: release_batch_def unchanged_refl)

lemma release_unchanged:
  assumes "store_ok db" "review_ok db" "find_event i db = Some e" "status e \<noteq> held"
  shows "unchanged i (event_id e) db (releaseDependants_loop n admin k released tried db)"
  using assms
proof (induction n admin k released tried db rule: releaseDependants_loop.induct)
  case (1 n admin k released tried db)
  define deps where "deps = next_dependants released tried db"
  show ?case
  proof (cases "deps = []")
    case True
    then show ?thesis using 1(2,3) by (simp add: releaseDependants_loop.simps [of n admin k released tried db] deps_def [symmetric] unchanged_refl)
  next
    case False
    obtain k1 rs1 db1 where b: "release_batch n admin deps (k, released, db) = (k1, rs1, db1)" by (metis prod_cases3)
    have e: "e \<in> set (od_events db)" "ev_id e = i" using 1(4) find_event_mem [OF 1(2)] by auto
    have "i \<noteq> ev_id dep \<and> event_id e \<noteq> event_id dep" if "dep \<in> set deps" for dep
    proof -
      have d: "dep \<in> set (od_events db)" "status dep = held" using that next_dependants_mem by (auto simp: deps_def)
      have "find_event (ev_id dep) db = Some dep" using d find_event_mem [OF 1(2)] by blast
      with d 1(4,5) have "i \<noteq> ev_id dep" by auto
      with same_event [OF 1(2) e(1) d(1)] e(2) show ?thesis by simp
    qed
    then have u: "unchanged i (event_id e) db db1" using release_batch_unchanged [OF 1(2,3) _ b] by blast
    then have "unchanged i (event_id e) db1 (releaseDependants_loop n admin k1 rs1 (tried @ map ev_id deps) db1)"
      using 1(1) [OF deps_def False b [symmetric] refl] 1(4,5) by (simp add: unchanged_def)
    with u have "unchanged i (event_id e) db (releaseDependants_loop n admin k1 rs1 (tried @ map ev_id deps) db1)" by (rule unchanged_trans)
    then show ?thesis by (simp add: releaseDependants_loop.simps [of n admin k released tried db] deps_def [symmetric] False b)
  qed
qed

section \<open>Applying an item\<close>

lemma find_review_mem: "review_ok db \<Longrightarrow> find_review i db = Some r \<longleftrightarrow> r \<in> set (od_reviews db) \<and> ri_id r = i"
proof -
  have "distinct (map ri_id rs) \<Longrightarrow> find (\<lambda>r. ri_id r = i) rs = Some r \<longleftrightarrow> r \<in> set rs \<and> ri_id r = i" for rs
    by (induction rs) auto
  then show "review_ok db \<Longrightarrow> find_review i db = Some r \<longleftrightarrow> r \<in> set (od_reviews db) \<and> ri_id r = i"
    by (simp add: review_ok_def find_review_def)
qed

abbreviation closing :: "OfflineReviewRow \<Rightarrow> bool" where
  "closing r \<equiv> ri_kind r \<in> set OFFLINE_HOLDING_KINDS \<or> ri_kind r = certain_duplicate"

lemma closeOpenItems_items:
  "items_of (ev_id ev) (closeOpenItems ev st u db)
     = map (\<lambda>r. if ri_id r \<in> ri_id ` set (filter closing (openForEvent (ev_id ev) db)) \<and> ri_state r = item_open
                then r\<lparr>ri_state := st, ri_resolved_by := Some u\<rparr> else r) (items_of (ev_id ev) db)"
proof -
  have "filter (\<lambda>r. event_row_id r = Some j) (map (\<lambda>r. if P r then r\<lparr>ri_state := st, ri_resolved_by := Some u\<rparr> else r) rs)
      = map (\<lambda>r. if P r then r\<lparr>ri_state := st, ri_resolved_by := Some u\<rparr> else r) (filter (\<lambda>r. event_row_id r = Some j) rs)" for P j rs
    by (induction rs) auto
  then show ?thesis unfolding items_of_def closeOpenItems_def resolve_all_reviews by simp
qed

lemma apply_booked:
  assumes ok: "store_ok db" "review_ok db" and ev: "find_event (ev_id ev) db = Some ev" "status ev \<notin> {booked, applied}"
    and p: "process (n 0) ev (apply_options chk dup ev admin) db = (out, db1)"
    and a: "afterBooking n admin item ev out db1 = (action_done d, db')"
    and item: "item \<in> set (items_of (ev_id ev) db)" "ri_state item = item_open" "closing item"
  shows "ra_status d = Some applied" "\<exists>e'. find_event (ev_id ev) db' = Some e' \<and> status e' = applied"
    "audit_count (event_id ev) db' = audit_count (event_id ev) db + 1"
    "\<forall>r \<in> set (openForEvent (ev_id ev) db'). \<not> closing r"
    "item\<lparr>ri_state := item_applied, ri_resolved_by := Some admin\<rparr> \<in> set (items_of (ev_id ev) db')" "review_ok db'"
proof -
  let ?o = "apply_options chk dup ev admin"
  have d: "d = \<lparr>ra_state = None, ra_status = Some applied, ra_serverIds = Some (case serverIds out of None \<Rightarrow> [] | Some ids \<Rightarrow> ids)\<rparr>"
    and db': "db' = releaseDependants n admin 1 ev db1" and out: "ro_status out = applied" "\<not> technical out"
    using a by (auto simp: afterBooking_def action_data_def split: if_splits)
  have now: "applied_now (n 0) ev db out db1"
    using process_apply [OF p apply_options_facts(1,2)] out ev(2) by (auto simp: refused_again_def verdict_stored_def)
  then have t: "touched ev db db1" "settled_as ev applied db1" and grew: "\<exists>actor cs. od_audit db1 = od_audit db @ [audit_of (n 0) ev actor cs]"
    by (auto simp: applied_now_def booking_effect_def)
  have "\<not> rolled_back db db1" using grew by (auto simp: rolled_back_def)
  then obtain X where X: "items_added ev db X" "db1 = closeOpenItems ev item_applied admin X"
    using process_items [OF p] by (auto simp: only_items_def apply_options_def)
  have ok1: "store_ok db1" "review_ok db1"
    using touched_store_ok [OF t(1) ok(1)] items_added_ok [OF X(1) ok(2)] by (simp_all add: X(2) closeOpenItems_def resolve_all_ok)
  obtain g where g: "find_event (ev_id ev) db1 = Some (g ev)" "frozen (g ev) = frozen ev" using touched_rows [OF t(1)] ev(1) by auto
  have mem: "g ev \<in> set (od_events db1)" "ev_id (g ev) = ev_id ev" using g(1) find_event_mem [OF ok1(1)] by auto
  then have st: "status (g ev) = applied" using t(2) by (simp add: settled_as_def)
  have u: "unchanged (ev_id ev) (event_id ev) db1 db'"
    using release_unchanged [OF ok1 g(1), of n admin 1 "[event_id ev]" "[]"] st frozen_fields(4) [OF g(2)]
    by (simp add: db' releaseDependants_def)
  show "ra_status d = Some applied" by (simp add: d)
  show "\<exists>e'. find_event (ev_id ev) db' = Some e' \<and> status e' = applied" using u g(1) st by (simp add: unchanged_def)
  show "audit_count (event_id ev) db' = audit_count (event_id ev) db + 1" using u grew by (auto simp: unchanged_def audit_count_def audit_of_def)
  have it: "items_of (ev_id ev) db' = items_of (ev_id ev) db1" using u by (simp add: unchanged_def)
  show "\<forall>r \<in> set (openForEvent (ev_id ev) db'). \<not> closing r"
    unfolding openForEvent_items it X(2) closeOpenItems_items by (auto simp: openForEvent_items)
  have "item \<in> set (items_of (ev_id ev) X)" using item(1) X(1) by (auto simp: items_added_def items_of_def)
  then show "item\<lparr>ri_state := item_applied, ri_resolved_by := Some admin\<rparr> \<in> set (items_of (ev_id ev) db')"
    unfolding it X(2) closeOpenItems_items using item(2,3) by (force simp: openForEvent_items)
  show "review_ok db'" using u by (simp add: unchanged_def)
qed

text \<open>A booking by an admin, whichever of the two actions it came from.\<close>

lemma booking_action:
  assumes act: "act = review_apply \<or> act = bookAnyway"
    and a: "act n i admin db = (action_done d, db')" "find_review i db = Some item" "ri_state item = item_open"
      "item_event item db = Some ev"
  shows "closing item"
    and "\<exists>chk dup out db1. process (n 0) ev (apply_options chk dup ev admin) db = (out, db1)
      \<and> afterBooking n admin item ev out db1 = (action_done d, db')"
proof -
  from assms show "closing item" by (auto simp: review_apply_def bookAnyway_def split: if_splits)
  from assms show "\<exists>chk dup out db1. process (n 0) ev (apply_options chk dup ev admin) db = (out, db1)
      \<and> afterBooking n admin item ev out db1 = (action_done d, db')"
    unfolding review_apply_def bookAnyway_def by (auto split: if_splits prod.splits) blast+
qed

lemma booking_repeat:
  assumes act: "act = review_apply \<or> act = bookAnyway"
    and "find_review i db = Some item" "ri_state item = item_applied" "item_event item db = Some ev"
      "act = bookAnyway \<Longrightarrow> ri_kind item = certain_duplicate"
  shows "\<exists>d. act n i admin db = (action_done d, db)"
  using assms by (auto simp: review_apply_def bookAnyway_def repeat_def)

text \<open>C15. Apply and Book anyway book an item once: when the action on an open item succeeds, its event is
  applied, the audit log has exactly one more booking of it, none of its held, refused or duplicate
  items is left open even after its dependants were released, and doing the same again, by anyone,
  succeeds and changes nothing.\<close>

theorem review_books_once:
  assumes act: "act = review_apply \<or> act = bookAnyway"
    and ok: "store_ok db" "review_ok db" and ran: "act n i admin db = (action_done d, db')"
    and item: "find_review i db = Some item" "ri_state item = item_open" "item_event item db = Some ev"
    and new: "status ev \<notin> {booked, applied}"
  shows "(\<exists>e'. find_event (ev_id ev) db' = Some e' \<and> status e' = applied)
    \<and> audit_count (event_id ev) db' = audit_count (event_id ev) db + 1
    \<and> filter closing (openForEvent (ev_id ev) db') = []
    \<and> (\<exists>d'. act n' i admin' db' = (action_done d', db'))"
proof -
  note ba = booking_action [OF act ran item]
  obtain chk dup out db1 where p: "process (n 0) ev (apply_options chk dup ev admin) db = (out, db1)"
    and a: "afterBooking n admin item ev out db1 = (action_done d, db')" using ba(2) by blast
  have ev: "find_event (ev_id ev) db = Some ev" "event_row_id item = Some (ev_id ev)"
    using item(3) find_event_mem [OF ok(1)] by (auto simp: item_event_def split: option.splits)
  have mem: "item \<in> set (items_of (ev_id ev) db)" "ri_id item = i"
    using item(1) find_review_mem [OF ok(2)] ev(2) by (auto simp: items_of_def)
  note r = apply_booked [OF ok ev(1) new p a mem(1) item(2) ba(1)]
  let ?item = "item\<lparr>ri_state := item_applied, ri_resolved_by := Some admin\<rparr>"
  have "find_review i db' = Some ?item" using r(5) mem(2) find_review_mem [OF r(6)] by (auto simp: items_of_def)
  moreover obtain e' where "find_event (ev_id ev) db' = Some e'" using r(2) by blast
  then have "item_event ?item db' = Some e'" using ev(2) by (simp add: item_event_def)
  moreover have "act = bookAnyway \<Longrightarrow> ri_kind ?item = certain_duplicate"
    using ran item by (auto simp: bookAnyway_def split: if_splits)
  ultimately have "\<exists>d'. act n' i admin' db' = (action_done d', db')" by (intro booking_repeat [OF act, of i db' ?item e']) simp_all
  with r(2,3,4) show ?thesis by (simp add: filter_empty_conv)
qed

section \<open>Failing actions\<close>

fun is_done :: "ReviewActionResult \<Rightarrow> bool" where
  "is_done (action_done d) = True"
| "is_done _ = False"

lemma booking_fails:
  assumes "process (n 0) ev (apply_options chk dup ev admin) db = (out, db1)" "afterBooking n admin item ev out db1 = (r, db')"
  shows "is_done r \<or> rolled_back db db' \<and> map frozen (od_events db') = map frozen (od_events db)"
proof -
  have fr: "map frozen (od_events (setError i err db)) = map frozen (od_events db)" for i err
    by (simp add: setError_def events_update frozen_def)
  have "rolled_back db db1 \<and> map frozen (od_events db1) = map frozen (od_events db) \<or> ro_status out = applied \<and> \<not> technical out"
    using process_apply [OF assms(1) apply_options_facts(1,2)] fr touched_frozen
    by (auto simp: rolled_back_refl refused_again_def verdict_stored_def applied_now_def rolled_back_def setError_def store_simps)
  then show ?thesis using assms(2)
    by (auto simp: afterBooking_def action_data_def rolled_back_def store_simps split: if_splits)
qed

text \<open>C36. An action that fails books nothing: unless Apply or Book anyway succeeds, the other tables, the id
  map and the audit log are as they were and no event changed in more than its status, attempts,
  result and error; a dismissal or a review mark that fails changes nothing at all.\<close>

theorem review_failure_safe:
  "(is_done (fst (review_apply n i admin db))
      \<or> rolled_back db (snd (review_apply n i admin db))
        \<and> map frozen (od_events (snd (review_apply n i admin db))) = map frozen (od_events db))
   \<and> (is_done (fst (bookAnyway n i admin db))
      \<or> rolled_back db (snd (bookAnyway n i admin db))
        \<and> map frozen (od_events (snd (bookAnyway n i admin db))) = map frozen (od_events db))
   \<and> (is_done (fst (dismiss n i admin t db)) \<or> snd (dismiss n i admin t db) = db)
   \<and> (is_done (fst (markReviewed n i admin db)) \<or> snd (markReviewed n i admin db) = db)"
proof (intro conjI)
  show "is_done (fst (review_apply n i admin db)) \<or> rolled_back db (snd (review_apply n i admin db))
        \<and> map frozen (od_events (snd (review_apply n i admin db))) = map frozen (od_events db)"
    using booking_fails [of n _ _ _ admin db] by (auto simp: review_apply_def rolled_back_refl split: option.splits prod.splits)
  show "is_done (fst (bookAnyway n i admin db)) \<or> rolled_back db (snd (bookAnyway n i admin db))
        \<and> map frozen (od_events (snd (bookAnyway n i admin db))) = map frozen (od_events db)"
    using booking_fails [of n _ _ _ admin db] by (auto simp: bookAnyway_def rolled_back_refl split: option.splits prod.splits)
qed (auto simp: dismiss_def markReviewed_def Let_def action_data_def split: option.splits)

text \<open>A refused event with an event that waits on it.\<close>

definition sample_item :: "nat \<Rightarrow> nat \<Rightarrow> OfflineReviewKind \<Rightarrow> OfflineReviewRow" where
  "sample_item i e k =
     \<lparr>ri_id = i, event_row_id = Some e, ri_device_id = 1, ri_kind = k, ri_state = item_open, details = [], ri_resolved_by = None\<rparr>"

definition sample_review :: "nat offline_db" where
  "sample_review = sample_db\<lparr>od_events := [(sample_event 1 ''a'' 1)\<lparr>status := refused\<rparr>,
       (sample_event 2 ''b'' 2)\<lparr>status := held, depends_on := [''a'']\<rparr>],
     od_reviews := [sample_item 1 1 refused_kind, sample_item 2 2 waiting], review_counter := 2\<rparr>"

lemmas review_eval = review_apply_def find_review_def item_event_def apply_options_def closeOpenItems_def openForEvent_def resolve_all_def
  resolve_def update_review_def OFFLINE_HOLDING_KINDS_def afterBooking_def action_data_def releaseDependants_def releaseDependants_loop.simps
  next_dependants_def listHeldDependingOn_def release_batch_def release_one_def release_options_def dep_settled_def sample_item_def
  sample_review_def map_rows_for_event_def

lemma sample_review_result:
  "fst (review_apply (\<lambda>k. sample_env False) 1 9 sample_review) = action_done \<lparr>ra_state = None, ra_status = Some applied, ra_serverIds = Some [(''sales'', [1])]\<rparr>
   \<and> map status (od_events (snd (review_apply (\<lambda>k. sample_env False) 1 9 sample_review))) = [applied, booked]
   \<and> map ri_state (od_reviews (snd (review_apply (\<lambda>k. sample_env False) 1 9 sample_review))) = [item_applied, item_applied]"
  by (simp add: review_eval engine_eval Let_def del: set_map set_filter)

theorem review_books_once_witness:
  "audit_count ''a'' (snd (review_apply (\<lambda>k. sample_env False) 1 9 sample_review)) = 1
   \<and> map status (od_events (snd (review_apply (\<lambda>k. sample_env False) 1 9 sample_review))) = [applied, booked]"
proof -
  have ran: "review_apply (\<lambda>k. sample_env False) 1 9 sample_review
      = (action_done \<lparr>ra_state = None, ra_status = Some applied, ra_serverIds = Some [(''sales'', [1])]\<rparr>,
         snd (review_apply (\<lambda>k. sample_env False) 1 9 sample_review))"
    using sample_review_result by (simp add: prod_eq_iff)
  have ok: "store_ok sample_review" "review_ok sample_review"
    by (simp_all add: store_ok_def review_ok_def sample_review_def sample_db_def sample_event_def sample_item_def)
  have item: "find_review 1 sample_review = Some (sample_item 1 1 refused_kind)" "ri_state (sample_item 1 1 refused_kind) = item_open"
    "item_event (sample_item 1 1 refused_kind) sample_review = Some ((sample_event 1 ''a'' 1)\<lparr>status := refused\<rparr>)"
    by (simp_all add: find_review_def item_event_def find_event_def sample_review_def sample_item_def sample_event_def)
  have "audit_count ''a'' sample_review = 0" by (simp add: audit_count_def sample_review_def sample_db_def)
  with review_books_once [where act = review_apply, OF disjI1, OF refl ok ran item, of "\<lambda>k. sample_env False" 9] sample_review_result show ?thesis
    by (simp add: sample_event_def)
qed

end
