(* ===== verification/Telecom_Credit.thy ===== *)
theory Telecom_Credit
  imports Prelude
begin

text \<open>
  Model of \<open>packages/core/src/utils/telecomCredit.ts\<close>: what a prepaid phone card is worth when the customer
  wants its validity days only and sends the credit back by SMS.

  A parameter that the code tests with \<open>typeof x === "number"\<close> and \<open>Number.isFinite\<close> has type
  \<open>jsnum option\<close>: \<open>None\<close> is \<open>null\<close> or \<open>undefined\<close>. Cents are integers, as the file keeps them.
\<close>

section \<open>Constants and cents\<close>

definition MAX_CREDIT_PER_SMS_USD :: amount where "MAX_CREDIT_PER_SMS_USD = 3"

definition SMS_TRANSFER_FEE_USD :: amount where "SMS_TRANSFER_FEE_USD = 16 / 100"

definition CREDIT_TRANSFER_STEP_USD :: amount where "CREDIT_TRANSFER_STEP_USD = 1 / 2"

definition VALIDITY_DAYS_PER_BLOCK :: amount where "VALIDITY_DAYS_PER_BLOCK = 10"

definition VALIDITY_COST_PER_BLOCK_USD :: amount where "VALIDITY_COST_PER_BLOCK_USD = 3 / 10"

definition USD_CENTS_SCALE :: amount where "USD_CENTS_SCALE = 100"

definition toCents :: "amount \<Rightarrow> int" where
  "toCents usd = math_round (usd * USD_CENTS_SCALE)"

definition floorBalanceToCents :: "amount \<Rightarrow> int" where
  "floorBalanceToCents usd = \<lfloor>usd * USD_CENTS_SCALE + 1 / 10 ^ 9\<rfloor>"

definition fromCents :: "int \<Rightarrow> amount" where
  "fromCents cents = of_int cents / USD_CENTS_SCALE"

definition MAX_CREDIT_PER_SMS_CENTS :: int where "MAX_CREDIT_PER_SMS_CENTS = toCents MAX_CREDIT_PER_SMS_USD"

definition SMS_TRANSFER_FEE_CENTS :: int where "SMS_TRANSFER_FEE_CENTS = toCents SMS_TRANSFER_FEE_USD"

definition CREDIT_TRANSFER_STEP_CENTS :: int where "CREDIT_TRANSFER_STEP_CENTS = toCents CREDIT_TRANSFER_STEP_USD"

definition VALIDITY_COST_PER_BLOCK_CENTS :: int where "VALIDITY_COST_PER_BLOCK_CENTS = toCents VALIDITY_COST_PER_BLOCK_USD"

definition floorToStepCents :: "int \<Rightarrow> int" where
  "floorToStepCents cents = \<lfloor>of_int cents / (of_int CREDIT_TRANSFER_STEP_CENTS :: rat)\<rfloor> * CREDIT_TRANSFER_STEP_CENTS"

text \<open>\<open>typeof x === "number" && Number.isFinite(x)\<close>: the number, if it is one.\<close>

definition finite_number :: "jsnum option \<Rightarrow> amount option" where
  "finite_number v = (case v of Some (Fin x) \<Rightarrow> Some x | _ \<Rightarrow> None)"

section \<open>Returnable credit\<close>

text \<open>One turn of the loop over the number of messages.\<close>

definition sms_turn :: "int \<Rightarrow> nat \<Rightarrow> int \<Rightarrow> int" where
  "sms_turn balanceCents n bestCents =
     (let capCents = MAX_CREDIT_PER_SMS_CENTS * int n;
          survivingCents = balanceCents - SMS_TRANSFER_FEE_CENTS * int n;
          transferableCents = min capCents survivingCents
      in if transferableCents \<le> 0 then bestCents
         else let flooredCents = floorToStepCents transferableCents
              in if flooredCents > bestCents then flooredCents else bestCents)"

definition sms_maxN :: "int \<Rightarrow> int" where
  "sms_maxN balanceCents = \<lceil>of_int balanceCents / (of_int (MAX_CREDIT_PER_SMS_CENTS + SMS_TRANSFER_FEE_CENTS) :: rat)\<rceil>"

definition maxReturnableCredits :: "jsnum \<Rightarrow> amount" where
  "maxReturnableCredits balanceUsd =
     (case finite_number (Some balanceUsd) of
        None \<Rightarrow> 0
      | Some b \<Rightarrow>
          if b \<le> 0 then 0
          else let balanceCents = floorBalanceToCents b
               in fromCents (fold (sms_turn balanceCents) [0..<Suc (nat (sms_maxN balanceCents))] 0))"

section \<open>The override of a card\<close>

definition MAX_RETURNED_OVERRIDE_HEADROOM_USD :: amount where
  "MAX_RETURNED_OVERRIDE_HEADROOM_USD = CREDIT_TRANSFER_STEP_USD"

definition isValidMaxReturnedOverride :: "jsnum \<Rightarrow> jsnum option \<Rightarrow> bool" where
  "isValidMaxReturnedOverride override faceCredits =
     (case (finite_number (Some override), finite_number faceCredits) of
        (Some v, Some face) \<Rightarrow>
          if v \<le> 0 \<or> face \<le> 0 then False
          else let computed = maxReturnableCredits (Fin face) in
               if computed \<le> 0 then False
               else let overrideCents = math_round (v * USD_CENTS_SCALE);
                        computedCents = math_round (computed * USD_CENTS_SCALE);
                        ceilingCents = computedCents + math_round (MAX_RETURNED_OVERRIDE_HEADROOM_USD * USD_CENTS_SCALE)
                    in overrideCents \<ge> computedCents \<and> overrideCents \<le> ceilingCents
      | _ \<Rightarrow> False)"

record seeded_override =
  so_creditsUsd :: amount
  so_validityDays :: amount
  so_maxReturnedUsd :: amount

definition SEEDED_MAX_RETURNED_OVERRIDES :: "seeded_override list" where
  "SEEDED_MAX_RETURNED_OVERRIDES = [\<lparr>so_creditsUsd = 7728 / 100, so_validityDays = 365, so_maxReturnedUsd = 735 / 10\<rparr>]"

definition seedMaxReturnedCreditsUsd :: "jsnum option \<Rightarrow> jsnum option \<Rightarrow> amount option" where
  "seedMaxReturnedCreditsUsd creditsUsd validityDays =
     (case (finite_number creditsUsd, finite_number validityDays) of
        (Some c, Some d) \<Rightarrow>
          (case find (\<lambda>x. so_creditsUsd x = c \<and> so_validityDays x = d) SEEDED_MAX_RETURNED_OVERRIDES of
             None \<Rightarrow> None
           | Some m \<Rightarrow> if isValidMaxReturnedOverride (Fin (so_maxReturnedUsd m)) (Some (Fin c)) then Some (so_maxReturnedUsd m) else None)
      | _ \<Rightarrow> None)"

definition resolveMaxReturnedCredits :: "jsnum option \<Rightarrow> jsnum option \<Rightarrow> amount" where
  "resolveMaxReturnedCredits faceCredits override =
     (case finite_number faceCredits of
        None \<Rightarrow> 0
      | Some face \<Rightarrow>
          if face \<le> 0 then 0
          else case override of
                 Some (Fin v) \<Rightarrow> if isValidMaxReturnedOverride (Fin v) faceCredits then v else maxReturnableCredits (Fin face)
               | _ \<Rightarrow> maxReturnableCredits (Fin face))"

section \<open>The split of a card\<close>

record TelecomSplitCandidate =
  cost_lbp :: "jsnum option"
  days_cost_lbp :: "jsnum option"
  credits :: "jsnum option"

definition isTelecomSplitComplete :: "'a TelecomSplitCandidate_scheme \<Rightarrow> bool" where
  "isTelecomSplitComplete item =
     (case (finite_number (cost_lbp item), finite_number (days_cost_lbp item), finite_number (credits item)) of
        (Some cost, Some days, Some cr) \<Rightarrow> cost > 0 \<and> days > 0 \<and> cr > 0 \<and> days < cost
      | _ \<Rightarrow> False)"

record TelecomItemEconomicsInput =
  costLbp :: jsnum
  daysCostLbp :: "jsnum option"
  creditsUsd :: "jsnum option"
  maxReturnedOverrideUsd :: "jsnum option"

record TelecomItemEconomics =
  creditCostLbp :: "amount option"
  maxReturnedUsd :: "amount option"
  recoveredRateLbp :: "amount option"
  selfChargeRateLbp :: "amount option"

definition INCOMPLETE_ECONOMICS :: TelecomItemEconomics where
  "INCOMPLETE_ECONOMICS = \<lparr>creditCostLbp = None, maxReturnedUsd = None, recoveredRateLbp = None, selfChargeRateLbp = None\<rparr>"

definition deriveItemEconomics :: "TelecomItemEconomicsInput \<Rightarrow> TelecomItemEconomics" where
  "deriveItemEconomics input =
     (if \<not> isTelecomSplitComplete \<lparr>cost_lbp = Some (costLbp input), days_cost_lbp = daysCostLbp input, credits = creditsUsd input\<rparr>
      then INCOMPLETE_ECONOMICS
      else case (finite_number (Some (costLbp input)), finite_number (daysCostLbp input), finite_number (creditsUsd input)) of
             (Some cost, Some days, Some cr) \<Rightarrow>
               (let creditCost = cost - days;
                    maxReturned = resolveMaxReturnedCredits (creditsUsd input) (maxReturnedOverrideUsd input)
                in \<lparr>creditCostLbp = Some creditCost, maxReturnedUsd = Some maxReturned,
                    recoveredRateLbp = (if maxReturned > 0 then Some (creditCost / maxReturned) else None),
                    selfChargeRateLbp = Some (creditCost / cr)\<rparr>)
           | _ \<Rightarrow> INCOMPLETE_ECONOMICS)"

section \<open>Transfers and validity\<close>

record SmsTransferPlan =
  messages :: int
  feeUsd :: amount
  totalCostUsd :: amount

definition ZERO_SMS_TRANSFER_PLAN :: SmsTransferPlan where
  "ZERO_SMS_TRANSFER_PLAN = \<lparr>messages = 0, feeUsd = 0, totalCostUsd = 0\<rparr>"

definition planSmsTransfer :: "jsnum \<Rightarrow> jsnum \<Rightarrow> SmsTransferPlan" where
  "planSmsTransfer amountUsd perSmsUsd =
     (case (finite_number (Some amountUsd), finite_number (Some perSmsUsd)) of
        (Some a, Some per) \<Rightarrow>
          if a \<le> 0 \<or> per \<le> 0 then ZERO_SMS_TRANSFER_PLAN
          else let n = \<lceil>a / per\<rceil>; fee = of_int n * SMS_TRANSFER_FEE_USD
               in \<lparr>messages = n, feeUsd = fee, totalCostUsd = a + fee\<rparr>
      | _ \<Rightarrow> ZERO_SMS_TRANSFER_PLAN)"

definition costOfValidityDaysUsd :: "jsnum \<Rightarrow> amount" where
  "costOfValidityDaysUsd days =
     (case finite_number (Some days) of
        None \<Rightarrow> 0
      | Some d \<Rightarrow> if d \<le> 0 then 0
                 else fromCents (math_round (d / VALIDITY_DAYS_PER_BLOCK * of_int VALIDITY_COST_PER_BLOCK_CENTS)))"

definition deliveredCostLbp :: "jsnum \<Rightarrow> jsnum \<Rightarrow> amount option" where
  "deliveredCostLbp recoveredRate chunkUsd =
     (case (finite_number (Some recoveredRate), finite_number (Some chunkUsd)) of
        (Some r, Some c) \<Rightarrow>
          if r < 0 \<or> c \<le> 0 then None
          else Some (r * totalCostUsd (planSmsTransfer chunkUsd (Fin MAX_CREDIT_PER_SMS_USD)) / c)
      | _ \<Rightarrow> None)"

definition DEFAULT_TELECOM_CREDIT_SELL_PRICE_LBP :: amount where "DEFAULT_TELECOM_CREDIT_SELL_PRICE_LBP = 100000"

definition TELECOM_CREDIT_COST_RATE_LBP :: amount where "TELECOM_CREDIT_COST_RATE_LBP = 85000"

definition deriveDaysCostLbp :: "jsnum \<Rightarrow> jsnum option \<Rightarrow> jsnum \<Rightarrow> amount option" where
  "deriveDaysCostLbp cost cr rate =
     (case (finite_number (Some cost), finite_number cr, finite_number (Some rate)) of
        (Some c, Some f, Some r) \<Rightarrow>
          if c \<le> 0 \<or> f \<le> 0 \<or> r \<le> 0 then None
          else let d = of_int (math_round (c - f * r)) in if d \<le> 0 \<or> d \<ge> c then None else Some d
      | _ \<Rightarrow> None)"

definition resolveCreditSellPriceLbp :: "jsnum option \<Rightarrow> jsnum option \<Rightarrow> amount" where
  "resolveCreditSellPriceLbp itemSellCreditLbp tenantSellPriceLbp =
     (let usable = (\<lambda>v. case finite_number v of Some x \<Rightarrow> x > 0 | None \<Rightarrow> False)
      in if usable itemSellCreditLbp then (case finite_number itemSellCreditLbp of Some x \<Rightarrow> x | None \<Rightarrow> 0)
         else if usable tenantSellPriceLbp then (case finite_number tenantSellPriceLbp of Some x \<Rightarrow> x | None \<Rightarrow> 0)
         else DEFAULT_TELECOM_CREDIT_SELL_PRICE_LBP)"

definition TELECOM_DAYS_SELL_PRICE_LBP :: "(amount \<times> amount) list" where
  "TELECOM_DAYS_SELL_PRICE_LBP = [(10, 100000), (30, 250000), (60, 500000), (90, 750000), (365, 1780000)]"

definition deriveSellDaysLbp :: "jsnum option \<Rightarrow> amount option" where
  "deriveSellDaysLbp validityDays =
     (case finite_number validityDays of
        None \<Rightarrow> None
      | Some d \<Rightarrow> if d \<le> 0 then None else map_of TELECOM_DAYS_SELL_PRICE_LBP d)"

section \<open>Credit returned on a sale\<close>

datatype TelecomCarrierKey = alfa | mtc

record TelecomCreditReturnLineInput =
  itemCategory :: "string option"
  mobileServiceItemId :: "nat option"
  returnedCreditsUsd :: "amount option"

record TelecomCreditReturnItem = TelecomSplitCandidate +
  category :: "string option"
  max_returned_credits_usd :: "jsnum option"

record ResolvedTelecomCreditReturn =
  rt_carrier :: TelecomCarrierKey
  rt_credits :: amount

definition lower :: "char \<Rightarrow> char" where
  "lower c = (if CHR ''A'' \<le> c \<and> c \<le> CHR ''Z'' then char_of (of_char c + (32 :: nat)) else c)"

definition parseCarrierKey :: "string option \<Rightarrow> TelecomCarrierKey option" where
  "parseCarrierKey raw =
     (let normalised = map lower (trim (case raw of None \<Rightarrow> [] | Some s \<Rightarrow> s))
      in if normalised = ''alfa'' then Some alfa else if normalised = ''mtc'' then Some mtc else None)"

definition resolveReturnedCredits :: "TelecomCreditReturnLineInput \<Rightarrow> TelecomCreditReturnItem option \<Rightarrow> amount" where
  "resolveReturnedCredits line item =
     (case returnedCreditsUsd line of
        Some v \<Rightarrow> v
      | None \<Rightarrow>
          (case item of
             None \<Rightarrow> 0
           | Some i \<Rightarrow> if isTelecomSplitComplete i then resolveMaxReturnedCredits (credits i) (max_returned_credits_usd i) else 0))"

fun resolveTelecomCreditReturns ::
    "TelecomCreditReturnLineInput list \<Rightarrow> (nat \<Rightarrow> TelecomCreditReturnItem option)
      \<Rightarrow> ResolvedTelecomCreditReturn list \<times> TelecomCreditReturnLineInput list" where
  "resolveTelecomCreditReturns [] lookupItem = ([], [])"
| "resolveTelecomCreditReturns (line # lines) lookupItem =
     (let item = (case mobileServiceItemId line of None \<Rightarrow> None | Some i \<Rightarrow> lookupItem i);
          cr = resolveReturnedCredits line item;
          rest = resolveTelecomCreditReturns lines lookupItem
      in if \<not> cr > 0 then rest
         else case parseCarrierKey (case itemCategory line of
                     Some c \<Rightarrow> Some c | None \<Rightarrow> (case item of None \<Rightarrow> None | Some i \<Rightarrow> category i)) of
                None \<Rightarrow> (fst rest, line # snd rest)
              | Some k \<Rightarrow> (\<lparr>rt_carrier = k, rt_credits = cr\<rparr> # fst rest, snd rest))"

definition telecomCreditReturnValueLbp :: "jsnum \<Rightarrow> jsnum \<Rightarrow> amount" where
  "telecomCreditReturnValueLbp cr rate =
     (case (finite_number (Some cr), finite_number (Some rate)) of
        (Some c, Some r) \<Rightarrow> if c \<le> 0 \<or> r \<le> 0 then 0 else of_int (math_round (c * r))
      | _ \<Rightarrow> 0)"

end
