(* ===== verification/Telecom_Credit_Properties.thy ===== *)
theory Telecom_Credit_Properties
  imports Telecom_Credit
begin

text \<open>
  The loop over the number of messages finds the best way to send credit back; the derived costs of a
  card satisfy the equation they are derived from and the gate that offers them.
\<close>

section \<open>The best transfer\<close>

text \<open>A list of messages, in cents: each carries a whole number of half dollars, at most three
  dollars, and costs its fee; together they fit into the balance.\<close>

definition sms_plan :: "int \<Rightarrow> int list \<Rightarrow> bool" where
  "sms_plan balance ms \<longleftrightarrow> (\<forall>m \<in> set ms. 0 < m \<and> m \<le> 300 \<and> 50 dvd m) \<and> sum_list ms + 16 * int (length ms) \<le> balance"

lemma cents_simps [simp]:
  "MAX_CREDIT_PER_SMS_CENTS = 300" "SMS_TRANSFER_FEE_CENTS = 16" "CREDIT_TRANSFER_STEP_CENTS = 50" "VALIDITY_COST_PER_BLOCK_CENTS = 30"
  by (simp_all add: MAX_CREDIT_PER_SMS_CENTS_def SMS_TRANSFER_FEE_CENTS_def CREDIT_TRANSFER_STEP_CENTS_def VALIDITY_COST_PER_BLOCK_CENTS_def
      toCents_def USD_CENTS_SCALE_def MAX_CREDIT_PER_SMS_USD_def SMS_TRANSFER_FEE_USD_def CREDIT_TRANSFER_STEP_USD_def
      VALIDITY_COST_PER_BLOCK_USD_def math_round_def floor_eq_iff)

lemma floorToStep_div: "floorToStepCents c = c div 50 * 50"
  using floor_divide_of_int_eq [where ?'a = rat, of c 50] by (simp add: floorToStepCents_def)

definition sms_candidate :: "int \<Rightarrow> nat \<Rightarrow> int" where
  "sms_candidate balance n = min (300 * int n) (balance - 16 * int n) div 50 * 50"

lemma sms_turn_max: "0 \<le> best \<Longrightarrow> sms_turn balance n best = max best (sms_candidate balance n)"
  by (auto simp: sms_turn_def Let_def floorToStep_div sms_candidate_def max_def)

lemma sms_fold:
  "0 \<le> best \<Longrightarrow> fold (sms_turn balance) ns best = Max (set (best # map (sms_candidate balance) ns))"
proof -
  assume "0 \<le> best"
  then have "fold (sms_turn balance) ns best = fold max (map (sms_candidate balance) ns) best"
    by (induction ns arbitrary: best) (simp_all add: sms_turn_max max.commute)
  then show ?thesis by (simp only: Max.set_eq_fold)
qed

lemma sms_maxN_covers: "balance \<le> 316 * sms_maxN balance"
proof -
  have "of_int balance / 316 \<le> (of_int (sms_maxN balance) :: rat)" by (simp add: sms_maxN_def)
  then have "of_int balance \<le> (of_int (316 * sms_maxN balance) :: rat)" by (simp add: field_simps)
  then show ?thesis by (simp only: of_int_le_iff)
qed

lemma step_le: "50 dvd s \<Longrightarrow> s \<le> t \<Longrightarrow> s \<le> t div 50 * 50" for s t :: int
  by (metis dvd_div_mult_self mult_right_mono zdiv_mono1 zero_le_numeral zero_less_numeral)

lemma plan_bound:
  assumes "sms_plan balance ms"
  shows "sum_list ms \<le> 300 * int (length ms)" "50 dvd sum_list ms"
proof -
  have "\<forall>m \<in> set ms. m \<le> 300 \<and> 50 dvd m" using assms by (simp add: sms_plan_def)
  then show "sum_list ms \<le> 300 * int (length ms)" "50 dvd sum_list ms" by (induction ms) auto
qed

lemma plan_upper:
  assumes p: "sms_plan balance ms" and b: "0 \<le> balance"
  shows "\<exists>n \<le> nat (sms_maxN balance). sum_list ms \<le> sms_candidate balance n"
proof (intro exI conjI)
  let ?n = "min (length ms) (nat (sms_maxN balance))"
  show "?n \<le> nat (sms_maxN balance)" by simp
  have "0 \<le> sms_maxN balance" using sms_maxN_covers [of balance] b by linarith
  moreover have "sum_list ms + 16 * int (length ms) \<le> balance" using p by (simp add: sms_plan_def)
  ultimately have "sum_list ms \<le> min (300 * int ?n) (balance - 16 * int ?n)"
    using plan_bound(1) [OF p] sms_maxN_covers [of balance] by (cases "length ms \<le> nat (sms_maxN balance)") auto
  then show "sum_list ms \<le> sms_candidate balance ?n" unfolding sms_candidate_def by (rule step_le [OF plan_bound(2) [OF p]])
qed

lemma plan_exists:
  assumes "0 < sms_candidate balance n"
  shows "\<exists>ms. sms_plan balance ms \<and> sum_list ms = sms_candidate balance n"
proof -
  define v where "v = sms_candidate balance n"
  have v: "v \<le> 300 * int n" "v + 16 * int n \<le> balance" "50 dvd v" "0 < v"
    using assms div_mult_mod_eq [of "min (300 * int n) (balance - 16 * int n)" 50]
      pos_mod_sign [of 50 "min (300 * int n) (balance - 16 * int n)"] by (simp_all add: v_def sms_candidate_def)
  define rest where "rest = (if v mod 300 = 0 then [] else [v mod 300])"
  define ms where "ms = replicate (nat (v div 300)) 300 @ rest"
  have "50 dvd v mod 300" using v(3) by (simp add: dvd_mod_iff)
  then have ok: "\<forall>m \<in> set ms. 0 < m \<and> m \<le> 300 \<and> 50 dvd m"
    using pos_mod_bound [of 300 v] pos_mod_sign [of 300 v] by (auto simp: ms_def rest_def less_le)
  have s: "sum_list ms = v" using v(4) div_mult_mod_eq [of v 300] by (auto simp: ms_def rest_def sum_list_replicate pos_imp_zdiv_nonneg_iff)
  have q: "v = 300 * (v div 300) + v mod 300" "0 \<le> v mod 300" "0 \<le> v div 300" using v(4) by (simp_all add: pos_imp_zdiv_nonneg_iff)
  then have "v mod 300 = 0 \<Longrightarrow> v div 300 \<le> int n" "v mod 300 \<noteq> 0 \<Longrightarrow> v div 300 + 1 \<le> int n" using v(1) by linarith+
  then have "int (length ms) \<le> int n" using q(3) by (auto simp: ms_def rest_def)
  then have "sms_plan balance ms" using ok s v(2) by (simp add: sms_plan_def)
  with s show ?thesis by (auto simp: v_def)
qed

lemma best_is_Max:
  "0 < b \<Longrightarrow> maxReturnableCredits (Fin b)
     = fromCents (Max (set (0 # map (sms_candidate (floorBalanceToCents b)) [0..<Suc (nat (sms_maxN (floorBalanceToCents b)))])))"
  unfolding maxReturnableCredits_def finite_number_def option.case jsnum.case Let_def by (subst sms_fold) simp_all

text \<open>C33. The returnable credit of a card is the best that SMS transfers can do: some list of messages
  within the balance sends exactly that much, no list sends more, and it exceeds the balance by
  at most the noise allowance of the cents.\<close>

theorem maxReturnableCredits_optimal:
  assumes "0 < b"
  shows "(\<exists>ms. sms_plan (floorBalanceToCents b) ms \<and> maxReturnableCredits (Fin b) = fromCents (sum_list ms))
    \<and> (\<forall>ms. sms_plan (floorBalanceToCents b) ms \<longrightarrow> fromCents (sum_list ms) \<le> maxReturnableCredits (Fin b))
    \<and> maxReturnableCredits (Fin b) \<le> b + 1 / 10 ^ 11"
proof -
  define B where "B = floorBalanceToCents b"
  have B: "0 \<le> B" "of_int B \<le> b * 100 + 1 / 10 ^ 9" using assms by (simp_all add: B_def floorBalanceToCents_def USD_CENTS_SCALE_def)
  define cs where "cs = 0 # map (sms_candidate B) [0..<Suc (nat (sms_maxN B))]"
  have m: "maxReturnableCredits (Fin b) = fromCents (Max (set cs))" using best_is_Max [OF assms] by (simp add: cs_def B_def)
  have "Max (set cs) \<in> set cs" by (rule Max_in) (simp_all add: cs_def)
  moreover have "0 \<le> Max (set cs)" by (rule Max_ge) (simp_all add: cs_def)
  moreover have "x = 0 \<or> (\<exists>n. x = sms_candidate B n \<and> 0 < sms_candidate B n)" if "x \<in> set cs" "0 \<le> x" for x
    using that by (auto simp: cs_def less_le simp del: upt_Suc)
  ultimately have "Max (set cs) = 0 \<or> (\<exists>n. Max (set cs) = sms_candidate B n \<and> 0 < sms_candidate B n)" by blast
  then obtain ms where ms: "sms_plan B ms" "sum_list ms = Max (set cs)"
    using plan_exists B(1) by (metis sms_plan_def add_0 empty_iff list.set(1) list.size(3) mult_zero_right of_nat_0 sum_list.Nil)
  have up: "sum_list ns \<le> Max (set cs)" if ns: "sms_plan B ns" for ns
  proof -
    obtain n where n: "n \<le> nat (sms_maxN B)" "sum_list ns \<le> sms_candidate B n" using plan_upper [OF ns B(1)] by blast
    then have "sms_candidate B n \<in> set cs" by (auto simp: cs_def simp del: upt_Suc)
    then have "sms_candidate B n \<le> Max (set cs)" by (rule Max_ge [OF finite_set])
    with n(2) show ?thesis by simp
  qed
  have "sum_list ms \<le> B" using ms(1) by (simp add: sms_plan_def)
  then have "of_int (sum_list ms) \<le> (of_int B :: rat)" by (simp only: of_int_le_iff)
  then have "fromCents (sum_list ms) \<le> b + 1 / 10 ^ 11" using B(2) by (simp add: fromCents_def USD_CENTS_SCALE_def)
  then show ?thesis
    using ms up unfolding B_def [symmetric] m by (auto simp: fromCents_def USD_CENTS_SCALE_def intro!: exI [of _ ms] divide_right_mono)
qed

theorem maxReturnableCredits_optimal_witness:
  "73 \<le> maxReturnableCredits (Fin 77) \<and> maxReturnableCredits (Fin 77) \<le> 77 + 1 / 10 ^ 11"
proof -
  have "floorBalanceToCents 77 = 7700" by (simp add: floorBalanceToCents_def USD_CENTS_SCALE_def floor_eq_iff)
  then have "sms_plan (floorBalanceToCents 77) (replicate 24 300 @ [100])"
    by (auto simp: sms_plan_def sum_list_replicate)
  moreover have "fromCents (sum_list (replicate 24 300 @ [100])) = 73" by (simp add: fromCents_def USD_CENTS_SCALE_def sum_list_replicate)
  ultimately show ?thesis using maxReturnableCredits_optimal [of 77] by fastforce
qed

section \<open>The split of a card\<close>

lemma maxReturnable_cents: "\<exists>k :: int. maxReturnableCredits (Fin face) * 100 = of_int k"
  by (auto simp: maxReturnableCredits_def finite_number_def Let_def fromCents_def USD_CENTS_SCALE_def)

lemma override_bounds:
  assumes "isValidMaxReturnedOverride (Fin v) (Some (Fin face))"
  shows "maxReturnableCredits (Fin face) - 1 / 200 \<le> v" "v \<le> maxReturnableCredits (Fin face) + 101 / 200"
proof -
  obtain k :: int where k: "maxReturnableCredits (Fin face) * 100 = of_int k" using maxReturnable_cents by blast
  have "math_round (CREDIT_TRANSFER_STEP_USD * 100) = 50"
    by (simp add: CREDIT_TRANSFER_STEP_USD_def math_round_def floor_eq_iff)
  then have "k \<le> math_round (v * 100)" "math_round (v * 100) \<le> k + 50"
    using assms k by (auto simp: isValidMaxReturnedOverride_def finite_number_def Let_def USD_CENTS_SCALE_def
        MAX_RETURNED_OVERRIDE_HEADROOM_USD_def split: if_splits)
  then have "of_int k \<le> (of_int (math_round (v * 100)) :: rat)" "of_int (math_round (v * 100)) \<le> (of_int (k + 50) :: rat)"
    by (simp_all only: of_int_le_iff)
  moreover have "of_int (k + 50) = (of_int k + 50 :: rat)" by simp
  ultimately show "maxReturnableCredits (Fin face) - 1 / 200 \<le> v" "v \<le> maxReturnableCredits (Fin face) + 101 / 200"
    using k math_round_error [of "v * 100"] by linarith+
qed

lemma resolved_bounds:
  assumes "0 < face"
  shows "maxReturnableCredits (Fin face) - 1 / 200 \<le> resolveMaxReturnedCredits (Some (Fin face)) v"
    "resolveMaxReturnedCredits (Some (Fin face)) v \<le> maxReturnableCredits (Fin face) + 101 / 200"
  using assms override_bounds [of _ face]
  by (auto simp: resolveMaxReturnedCredits_def finite_number_def split: option.splits jsnum.splits)

text \<open>C34. The derived cost of a card's days is consistent: whenever it is derived, the card passes the gate
  of the days-only flow, days and credit together make up the card's cost up to the rounded
  lira, the economics shown for it satisfy the equation cost = returned credit times rate plus
  days cost, whatever override the card has, and the returned credit used there is within one transfer
  step (and half a cent) of the best possible transfer.\<close>

theorem telecom_split_consistent:
  fixes override :: "jsnum option"
  assumes "deriveDaysCostLbp (Fin cost) (Some (Fin face)) (Fin rate) = Some days"
  defines "e \<equiv> deriveItemEconomics \<lparr>costLbp = Fin cost, daysCostLbp = Some (Fin days), creditsUsd = Some (Fin face),
      maxReturnedOverrideUsd = override\<rparr>"
  shows "isTelecomSplitComplete \<lparr>cost_lbp = Some (Fin cost), days_cost_lbp = Some (Fin days), credits = Some (Fin face)\<rparr>
    \<and> \<bar>cost - (days + face * rate)\<bar> \<le> 1 / 2
    \<and> (\<exists>m. maxReturnedUsd e = Some m \<and> maxReturnableCredits (Fin face) - 1 / 200 \<le> m \<and> m \<le> maxReturnableCredits (Fin face) + 101 / 200
        \<and> (case recoveredRateLbp e of None \<Rightarrow> m \<le> 0 | Some q \<Rightarrow> cost = m * q + days))
    \<and> (\<exists>q. selfChargeRateLbp e = Some q \<and> cost = face * q + days)"
proof -
  have d: "days = of_int (math_round (cost - face * rate))" "0 < days" "days < cost" "0 < cost" "0 < face"
    using assms(1) by (auto simp: deriveDaysCostLbp_def finite_number_def Let_def split: if_splits)
  then have gate: "isTelecomSplitComplete \<lparr>cost_lbp = Some (Fin cost), days_cost_lbp = Some (Fin days), credits = Some (Fin face)\<rparr>"
    by (simp add: isTelecomSplitComplete_def finite_number_def)
  define m where "m = resolveMaxReturnedCredits (Some (Fin face)) override"
  have e: "e = \<lparr>creditCostLbp = Some (cost - days), maxReturnedUsd = Some m,
      recoveredRateLbp = (if m > 0 then Some ((cost - days) / m) else None), selfChargeRateLbp = Some ((cost - days) / face)\<rparr>"
    using gate by (simp add: e_def deriveItemEconomics_def finite_number_def Let_def m_def)
  have "\<bar>cost - (days + face * rate)\<bar> \<le> 1 / 2" using math_round_error [of "cost - face * rate"] d(1) by (simp add: abs_if split: if_splits)
  moreover have "cost = face * ((cost - days) / face) + days" using d(5) by simp
  ultimately show ?thesis using gate resolved_bounds [OF d(5), of override] by (auto simp: e m_def [symmetric])
qed

theorem telecom_split_consistent_witness:
  "deriveDaysCostLbp (Fin 7728000) (Some (Fin (7728 / 100))) (Fin TELECOM_CREDIT_COST_RATE_LBP) = Some 1159200
   \<and> isTelecomSplitComplete \<lparr>cost_lbp = Some (Fin 7728000), days_cost_lbp = Some (Fin 1159200), credits = Some (Fin (7728 / 100))\<rparr>"
proof -
  have "deriveDaysCostLbp (Fin 7728000) (Some (Fin (7728 / 100))) (Fin TELECOM_CREDIT_COST_RATE_LBP) = Some 1159200"
    by (simp add: deriveDaysCostLbp_def finite_number_def Let_def TELECOM_CREDIT_COST_RATE_LBP_def math_round_def floor_eq_iff)
  with telecom_split_consistent [OF this] show ?thesis by blast
qed

end
