(* ===== verification/Partner_Units.thy ===== *)
theory Partner_Units
  imports Account_Settlement
begin

text \<open>
  Model of \<open>packages/core/src/utils/partnerSettleUnits.ts\<close>: what is still open on a partner account. A
  unit is the group of ledger rows of one booking with its reversals and refunds; what covers it is
  the coverage table and, for bookings from before that table, the legacy amounts, which are matched
  oldest first to the old payments.

  Minor units are integers. The \<open>Map\<close> of groups is an association list in insertion order; a
  \<open>Map\<close> that is only read with \<open>?? 0\<close> is a function. \<open>buildPartnerSettleUnits\<close> changes the units it has
  collected in place, so the payers are positions in the list of units.
\<close>

section \<open>Rows and units\<close>

type_synonym PartnerCurrency = AccountSettleCurrency

datatype PartnerSide = DEBIT | CREDIT

record PartnerUnitLedgerRow =
  pr_id :: nat
  pr_partner_id :: nat
  pr_transaction_type :: "string option"
  pr_reference_table :: "string option"
  pr_reference_id :: "nat option"
  tx_source_table :: "string option"
  tx_source_id :: "nat option"
  pr_amount :: amount
  pr_currency :: string
  pr_direction :: PartnerSide
  pr_created_at :: string
  pr_sort_at :: string
  pr_shop_day :: string
  is_cash_moved :: bool
  is_obligation_head :: bool
  legacy_covered_amount :: amount
  pr_notes :: "string option"
  pr_source_txn_id :: "nat option"

record PartnerUnitCoverage =
  pc_partner_ledger_id :: nat
  pc_currency :: PartnerCurrency
  pc_side :: PartnerSide
  pc_amount :: amount

datatype PartnerUnitClass = DAY | PAYER

record PartnerSettleUnit =
  su_id :: nat
  su_partner_id :: nat
  su_currency :: PartnerCurrency
  su_transaction_type :: "string option"
  su_direction :: PartnerSide
  unit_class :: PartnerUnitClass
  su_reference_table :: "string option"
  su_reference_id :: "nat option"
  su_notes :: "string option"
  su_source_txn_id :: "nat option"
  su_created_at :: string
  su_sort_at :: string
  su_shop_day :: string
  member_ids :: "nat list"
  su_net :: amount
  covered_effect :: amount
  su_remaining :: amount
  flipped :: bool
  last_reversal_day :: "string option"
  legacy_obligation :: amount
  legacy_attributed :: amount
  has_obligation_head :: bool

definition partner_minorFactor :: "PartnerCurrency \<Rightarrow> amount" where
  "partner_minorFactor c = (if c = SettleUSD then 100 else 1)"

definition partner_toMinor :: "amount \<Rightarrow> PartnerCurrency \<Rightarrow> int" where
  "partner_toMinor x c = math_round (js_or x 0 * partner_minorFactor c)"

definition partner_fromMinor :: "int \<Rightarrow> PartnerCurrency \<Rightarrow> amount" where
  "partner_fromMinor m c = (if m = 0 then 0 else of_int m / partner_minorFactor c)"

definition sideSign :: "PartnerSide \<Rightarrow> int" where
  "sideSign side = (if side = DEBIT then 1 else -1)"

definition PARTNER_PAYER_TYPES :: "string list" where
  "PARTNER_PAYER_TYPES = [''SETTLEMENT'', ''DISCOUNT'']"

definition text_or :: "string option \<Rightarrow> string \<Rightarrow> string" where
  "text_or v d = (case v of None \<Rightarrow> d | Some s \<Rightarrow> s)"

definition isPartnerPayerRow :: "PartnerUnitLedgerRow \<Rightarrow> bool" where
  "isPartnerPayerRow row \<longleftrightarrow>
     is_cash_moved row \<or> text_or (pr_transaction_type row) [] \<in> set PARTNER_PAYER_TYPES"

text \<open>A number that may be \<open>null\<close> in a template literal.\<close>

definition id_text :: "nat option \<Rightarrow> string" where
  "id_text v = (case v of None \<Rightarrow> ''null'' | Some n \<Rightarrow> nat_text n)"

definition partnerUnitGroupKey :: "PartnerUnitLedgerRow \<Rightarrow> string" where
  "partnerUnitGroupKey row =
     (let typ = text_or (pr_transaction_type row) [];
          front = typ @ ''|'' @ pr_currency row @ ''|''
      in if pr_reference_table row = Some ''transactions'' \<and> text_or (tx_source_table row) [] \<noteq> []
         then front @ text_or (tx_source_table row) [] @ ''|'' @ id_text (tx_source_id row)
         else if pr_reference_table row \<noteq> None \<and> pr_reference_id row \<noteq> None
         then front @ text_or (pr_reference_table row) [] @ ''|'' @ id_text (pr_reference_id row)
         else front @ ''partner_ledger|'' @ nat_text (pr_id row))"

section \<open>Groups\<close>

fun group_add :: "string \<Rightarrow> 'r \<Rightarrow> (string \<times> 'r list) list \<Rightarrow> (string \<times> 'r list) list" where
  "group_add k r [] = [(k, [r])]"
| "group_add k r (g # gs) = (if fst g = k then (k, snd g @ [r]) # gs else g # group_add k r gs)"

definition group_row :: "PartnerUnitLedgerRow \<Rightarrow> (string \<times> PartnerUnitLedgerRow list) list \<Rightarrow> (string \<times> PartnerUnitLedgerRow list) list" where
  "group_row r gs =
     (if pr_currency r \<noteq> ''USD'' \<and> pr_currency r \<noteq> ''LBP'' then gs
      else group_add (nat_text (pr_partner_id r) @ ''#'' @ partnerUnitGroupKey r) r gs)"

definition unit_groups :: "PartnerUnitLedgerRow list \<Rightarrow> (string \<times> PartnerUnitLedgerRow list) list" where
  "unit_groups rows = fold group_row rows []"

definition add_effect :: "PartnerUnitCoverage \<Rightarrow> (nat \<Rightarrow> int) \<Rightarrow> (nat \<Rightarrow> int)" where
  "add_effect c m =
     m(pc_partner_ledger_id c := m (pc_partner_ledger_id c) + partner_toMinor (pc_amount c) (pc_currency c) * sideSign (pc_side c))"

definition effectByRow :: "PartnerUnitCoverage list \<Rightarrow> nat \<Rightarrow> int" where
  "effectByRow coverage = fold add_effect coverage (\<lambda>_. 0)"

text \<open>The type \<open>Work\<close>, and the variables of the loop over a group.\<close>

record unit_work = PartnerSettleUnit +
  netMinor :: int
  effectMinor :: int
  legacyMinor :: int
  attrMinor :: int
  legacyPayer :: bool

record member_sums =
  ms_net :: int
  ms_effect :: int
  ms_legacy :: int
  lastReversal :: "PartnerUnitLedgerRow option"
  hasObligationHead :: bool

definition byMemberId :: "PartnerUnitLedgerRow \<Rightarrow> PartnerUnitLedgerRow \<Rightarrow> rat" where
  "byMemberId a b = of_nat (pr_id a) - of_nat (pr_id b)"

definition add_member ::
    "(nat \<Rightarrow> int) \<Rightarrow> PartnerCurrency \<Rightarrow> PartnerSide \<Rightarrow> PartnerUnitLedgerRow \<Rightarrow> member_sums \<Rightarrow> member_sums" where
  "add_member effects currency headDirection m s =
     s\<lparr>ms_net := ms_net s + partner_toMinor (pr_amount m) currency * sideSign (pr_direction m),
       ms_effect := ms_effect s + effects (pr_id m),
       ms_legacy := ms_legacy s + (if is_obligation_head m then \<bar>partner_toMinor (legacy_covered_amount m) currency\<bar> else 0),
       lastReversal := (if pr_direction m \<noteq> headDirection then Some m else lastReversal s),
       hasObligationHead := (hasObligationHead s \<or> is_obligation_head m)\<rparr>"

definition head_currency :: "PartnerUnitLedgerRow \<Rightarrow> PartnerCurrency" where
  "head_currency head = (if pr_currency head = ''USD'' then SettleUSD else SettleLBP)"

definition unit_of_group :: "(nat \<Rightarrow> int) \<Rightarrow> (nat \<Rightarrow> bool) \<Rightarrow> PartnerUnitLedgerRow list \<Rightarrow> unit_work" where
  "unit_of_group effects payersWithCoverage grp =
     (let members = js_sort byMemberId grp;
          head = hd members;
          currency = head_currency head;
          s = fold (add_member effects currency (pr_direction head)) members
                \<lparr>ms_net = 0, ms_effect = 0, ms_legacy = 0, lastReversal = None, hasObligationHead = False\<rparr>;
          payer = isPartnerPayerRow head
      in \<lparr>su_id = pr_id head, su_partner_id = pr_partner_id head, su_currency = currency,
          su_transaction_type = pr_transaction_type head, su_direction = pr_direction head,
          unit_class = (if payer then PAYER else DAY), su_reference_table = pr_reference_table head,
          su_reference_id = pr_reference_id head, su_notes = pr_notes head, su_source_txn_id = pr_source_txn_id head,
          su_created_at = pr_created_at head, su_sort_at = pr_sort_at head, su_shop_day = pr_shop_day head,
          member_ids = map pr_id members, su_net = 0, covered_effect = 0, su_remaining = 0, flipped = False,
          last_reversal_day = map_option pr_shop_day (lastReversal s), legacy_obligation = 0, legacy_attributed = 0,
          has_obligation_head = hasObligationHead s,
          netMinor = ms_net s, effectMinor = ms_effect s, legacyMinor = ms_legacy s, attrMinor = 0,
          legacyPayer = (payer \<and> \<not> list_ex (\<lambda>m. payersWithCoverage (pr_id m)) members)\<rparr>)"

section \<open>Legacy attribution\<close>

definition unit_cmp :: "'a PartnerSettleUnit_scheme \<Rightarrow> 'a PartnerSettleUnit_scheme \<Rightarrow> rat" where
  "unit_cmp a b =
     (if su_sort_at a \<noteq> su_sort_at b then (if su_sort_at a < su_sort_at b then -1 else 1)
      else of_nat (su_id a) - of_nat (su_id b))"

text \<open>The key of a pool, \<open>partner|currency|direction\<close>.\<close>

type_synonym pool_key = "nat \<times> PartnerCurrency \<times> PartnerSide"

definition add_pool :: "unit_work \<Rightarrow> (pool_key \<Rightarrow> int) \<Rightarrow> (pool_key \<Rightarrow> int)" where
  "add_pool u pools =
     (if legacyMinor u = 0 then pools
      else let key = (su_partner_id u, su_currency u, su_direction u) in pools(key := pools key + legacyMinor u))"

definition legacy_pools :: "unit_work list \<Rightarrow> pool_key \<Rightarrow> int" where
  "legacy_pools units = fold add_pool units (\<lambda>_. 0)"

definition other_side :: "PartnerSide \<Rightarrow> PartnerSide" where
  "other_side d = (if d = DEBIT then CREDIT else DEBIT)"

definition own_room :: "unit_work \<Rightarrow> int" where
  "own_room p = max 0 (netMinor p * sideSign (su_direction p))"

fun attribute :: "nat list \<Rightarrow> (pool_key \<Rightarrow> int) \<Rightarrow> unit_work list \<Rightarrow> unit_work list" where
  "attribute [] pools units = units"
| "attribute (i # payers) pools units =
     (let p = units ! i;
          key = (su_partner_id p, su_currency p, other_side (su_direction p));
          pool = pools key
      in if pool \<le> 0 then attribute payers pools units
         else let tk = min pool (own_room p)
              in attribute payers (pools(key := pool - tk)) (units[i := p\<lparr>attrMinor := tk\<rparr>]))"

definition attribute_legacy :: "unit_work list \<Rightarrow> unit_work list" where
  "attribute_legacy units =
     (if \<not> list_ex (\<lambda>u. legacyMinor u \<noteq> 0) units then units
      else attribute (js_sort (\<lambda>i j. unit_cmp (units ! i) (units ! j)) (filter (\<lambda>i. legacyPayer (units ! i)) [0..<length units]))
             (legacy_pools units) units)"

section \<open>The units\<close>

definition finish_unit :: "unit_work \<Rightarrow> PartnerSettleUnit" where
  "finish_unit u =
     (let legacyEffect = (legacyMinor u + attrMinor u) * sideSign (su_direction u);
          effect = effectMinor u + legacyEffect;
          remaining = netMinor u - effect;
          headSign = sideSign (su_direction u);
          c = su_currency u
      in (PartnerSettleUnit.truncate u)\<lparr>su_net := partner_fromMinor (netMinor u) c,
           covered_effect := partner_fromMinor effect c, su_remaining := partner_fromMinor remaining c,
           flipped := (remaining \<noteq> 0 \<and> sgn remaining \<noteq> headSign),
           legacy_obligation := partner_fromMinor (legacyMinor u) c,
           legacy_attributed := partner_fromMinor (attrMinor u) c\<rparr>)"

definition collect_units ::
    "PartnerUnitLedgerRow list \<Rightarrow> PartnerUnitCoverage list \<Rightarrow> (nat \<Rightarrow> bool) \<Rightarrow> unit_work list" where
  "collect_units rows coverage payersWithCoverage =
     map (\<lambda>g. unit_of_group (effectByRow coverage) payersWithCoverage (snd g)) (unit_groups rows)"

definition buildPartnerSettleUnits ::
    "PartnerUnitLedgerRow list \<Rightarrow> PartnerUnitCoverage list \<Rightarrow> (nat \<Rightarrow> bool) \<Rightarrow> PartnerSettleUnit list" where
  "buildPartnerSettleUnits rows coverage payersWithCoverage =
     map finish_unit (attribute_legacy (collect_units rows coverage payersWithCoverage))"

definition isPartnerUnitOpen :: "PartnerSettleUnit \<Rightarrow> bool" where
  "isPartnerUnitOpen u \<longleftrightarrow> partner_toMinor (su_remaining u) (su_currency u) \<noteq> 0"

datatype PartnerRowSettleStatus = PAID | PARTIAL | UNPAID | VOIDED

definition unit_status :: "PartnerSettleUnit \<Rightarrow> PartnerRowSettleStatus \<times> amount" where
  "unit_status u =
     (let netM = \<bar>partner_toMinor (su_net u) (su_currency u)\<bar>;
          coveredM = min \<bar>partner_toMinor (covered_effect u) (su_currency u)\<bar> netM;
          status = (if netM = 0 then VOIDED
                    else if \<not> isPartnerUnitOpen u \<or> flipped u then PAID
                    else if coveredM \<noteq> 0 then PARTIAL else UNPAID)
      in (status, partner_fromMinor (if status = PAID then netM else coveredM) (su_currency u)))"

definition status_of_unit ::
    "PartnerSettleUnit \<Rightarrow> (nat \<rightharpoonup> PartnerRowSettleStatus \<times> amount) \<Rightarrow> (nat \<rightharpoonup> PartnerRowSettleStatus \<times> amount)" where
  "status_of_unit u out =
     (if unit_class u \<noteq> DAY then out else fold (\<lambda>i m. m(i \<mapsto> unit_status u)) (member_ids u) out)"

definition partnerRowSettleStatuses :: "PartnerSettleUnit list \<Rightarrow> (nat \<rightharpoonup> PartnerRowSettleStatus \<times> amount)" where
  "partnerRowSettleStatuses units = fold status_of_unit units Map.empty"

datatype unit_scope = DAY_SCOPE | ACCOUNT_SCOPE

definition partnerUnitScope :: "PartnerSettleUnit \<Rightarrow> unit_scope" where
  "partnerUnitScope u = (if unit_class u = DAY \<and> \<not> flipped u then DAY_SCOPE else ACCOUNT_SCOPE)"

definition partnerCoverSide :: "amount \<Rightarrow> PartnerSide" where
  "partnerCoverSide remaining = (if remaining > 0 then DEBIT else CREDIT)"

definition partnerCoverageEffect :: "PartnerSide \<Rightarrow> amount \<Rightarrow> amount" where
  "partnerCoverageEffect side amt = of_int (sideSign side) * amt"

end
