(* ===== verification/Partner_Settlement.thy ===== *)
theory Partner_Settlement
  imports Partner_Units Payment_Methods
begin

text \<open>
  Model of \<open>repositories/PartnerSettlementRepository.ts\<close> without \<open>settleDays\<close> (theory
  \<open>Partner_Settle_Days\<close>), of the SQL conditions of \<open>constants/partnerObligation.ts\<close> it uses, of
  \<open>PartnerRepository.addLedgerEntry\<close> and of the undo of a settlement in \<open>TransactionRepository.ts\<close>.

  The database is one shop's part of the tables \<open>partner_ledger\<close>, \<open>partner_settlement_coverage\<close> and
  \<open>transactions\<close>, with the schema of migration v225, so \<open>hasCoverageTable\<close> and \<open>_requireSchema\<close> hold. Columns
  that nothing here reads (user, settlement method, summary, metadata, the time stamps of the coverage rows)
  are left out; of a payment's note only whether it is change. Balances of drawers are a function of drawer and
  currency. The two text functions of SQLite that the reads call on a time, \<open>strftime\<close> with its
  \<open>COALESCE\<close> and \<open>localDayExpr\<close>, are parameters.
\<close>

section \<open>Tables\<close>

record partner_ledger_row =
  pl_id :: nat
  pl_partner_id :: nat
  pl_transaction_type :: "string option"
  pl_reference_table :: "string option"
  pl_reference_id :: "nat option"
  pl_amount :: amount
  pl_currency :: string
  pl_direction :: PartnerSide
  pl_notes :: "string option"
  pl_created_at :: string
  pl_covered_amount :: amount
  pl_legacy_covered_amount :: amount

datatype PartnerCoverageSource = COVER_PAYMENT | COVER_NETTING | COVER_WAIVE | COVER_DISCOUNT | COVER_RELIEF

definition PARTNER_PROFIT_COVERAGE_SOURCES :: "PartnerCoverageSource list" where
  "PARTNER_PROFIT_COVERAGE_SOURCES = [COVER_PAYMENT, COVER_NETTING, COVER_WAIVE, COVER_DISCOUNT]"

record PartnerCoverageWrite =
  cw_transaction_id :: "nat option"
  cw_settlement_ledger_id :: nat
  cw_partner_ledger_id :: nat
  cw_partner_id :: nat
  cw_currency :: PartnerCurrency
  cw_side :: PartnerSide
  cw_amount :: amount
  cw_source :: PartnerCoverageSource
  cw_closes_row :: bool

record coverage_row = PartnerCoverageWrite +
  cv_id :: nat
  cv_is_reversed :: bool

record txn_row =
  tn_id :: nat
  tn_type :: string
  tn_source_table :: string
  tn_source_id :: nat
  tn_amount_usd :: amount
  tn_amount_lbp :: amount
  tn_profit_usd :: amount
  tn_profit_lbp :: amount
  tn_exchange_rate :: "amount option"
  tn_active :: bool
  tn_reverses_id :: "nat option"

record partner_payment =
  pp_transaction_id :: nat
  pp_method :: string
  pp_drawer_name :: string
  pp_currency_code :: string
  pp_amount :: amount
  pp_is_change :: bool

record partner_db =
  pd_ledger :: "partner_ledger_row list"
  ledger_counter :: nat
  pd_coverage :: "coverage_row list"
  coverage_counter :: nat
  pd_txns :: "txn_row list"
  txn_counter :: nat
  pd_partners :: "nat list"
  pd_payments :: "partner_payment list"
  pd_drawers :: "string \<times> string \<Rightarrow> amount"

record partner_env =
  request_time :: string
  sort_text :: "string \<Rightarrow> string"
  localDay :: "string \<Rightarrow> string"
  shop :: env
  shop_methods :: pm_table
  market_rate :: "amount option"

definition EPS :: "PartnerCurrency \<Rightarrow> amount" where
  "EPS c = (if c = SettleUSD then 5 / 1000 else 1 / 2)"

definition partner_round :: "amount \<Rightarrow> PartnerCurrency \<Rightarrow> amount" where
  "partner_round x c = (if c = SettleUSD then of_int (math_round (x * 100)) / 100 else of_int (math_round x))"

section \<open>Obligations\<close>

text \<open>SQL's \<open>=\<close> on columns that may be null.\<close>

definition sql_eq :: "'a option \<Rightarrow> 'a option \<Rightarrow> bool" where
  "sql_eq a b \<longleftrightarrow> a = b \<and> a \<noteq> None"

text \<open>\<open>LIKE 'FOR\_%' ESCAPE '\'\<close>: SQLite compares the letters without case.\<close>

definition upper :: "char \<Rightarrow> char" where
  "upper c = (if CHR ''a'' \<le> c \<and> c \<le> CHR ''z'' then char_of (of_char c - (32 :: nat)) else c)"

definition like_for :: "string option \<Rightarrow> bool" where
  "like_for t = (case t of None \<Rightarrow> False | Some s \<Rightarrow> map upper (take 4 s) = ''FOR_'')"

definition partnerObligationRowSql :: "partner_db \<Rightarrow> partner_ledger_row \<Rightarrow> bool" where
  "partnerObligationRowSql db r \<longleftrightarrow>
     like_for (pl_transaction_type r)
     \<or> (pl_transaction_type r = Some ''THROUGH_CUSTOM_SERVICE'' \<and> pl_direction r = DEBIT
        \<and> \<not> list_ex (\<lambda>f. sql_eq (pl_reference_table f) (pl_reference_table r) \<and> sql_eq (pl_reference_id f) (pl_reference_id r)
              \<and> pl_transaction_type f = Some ''THROUGH_CUSTOM_SERVICE'' \<and> pl_direction f = CREDIT \<and> pl_id f < pl_id r)
            (pd_ledger db))"

definition partnerObligationHeadRowSql :: "partner_db \<Rightarrow> partner_ledger_row \<Rightarrow> bool" where
  "partnerObligationHeadRowSql db r \<longleftrightarrow>
     partnerObligationRowSql db r \<and> text_or (pl_reference_table r) [] \<noteq> ''transactions''
     \<and> \<not> list_ex (\<lambda>q. sql_eq (pl_reference_table q) (pl_reference_table r) \<and> sql_eq (pl_reference_id q) (pl_reference_id r)
           \<and> sql_eq (pl_transaction_type q) (pl_transaction_type r) \<and> pl_currency q = pl_currency r
           \<and> pl_direction q \<noteq> pl_direction r \<and> pl_id q < pl_id r)
         (pd_ledger db)"

definition sameObligationGroupSql :: "partner_db \<Rightarrow> partner_ledger_row \<Rightarrow> partner_ledger_row \<Rightarrow> bool" where
  "sameObligationGroupSql db r h \<longleftrightarrow>
     sql_eq (pl_transaction_type r) (pl_transaction_type h) \<and> pl_currency r = pl_currency h
     \<and> (pl_id r = pl_id h
        \<or> (pl_reference_table h \<noteq> None \<and> pl_reference_id h \<noteq> None
           \<and> ((sql_eq (pl_reference_table r) (pl_reference_table h) \<and> sql_eq (pl_reference_id r) (pl_reference_id h))
              \<or> (pl_reference_table r = Some ''transactions''
                 \<and> list_ex (\<lambda>t. sql_eq (Some (tn_id t)) (pl_reference_id r) \<and> sql_eq (Some (tn_source_table t)) (pl_reference_table h)
                       \<and> sql_eq (Some (tn_source_id t)) (pl_reference_id h))
                     (pd_txns db)))))"

definition partnerObligationCoverableSql :: "partner_db \<Rightarrow> partner_ledger_row \<Rightarrow> amount" where
  "partnerObligationCoverableSql db h =
     (let groupNet = sum_of (\<lambda>g. if pl_direction g = pl_direction h then pl_amount g else - pl_amount g)
                       (filter (\<lambda>g. sameObligationGroupSql db g h) (pd_ledger db));
          earlier = sum_of pl_amount
                      (filter (\<lambda>q. sql_eq (pl_reference_table q) (pl_reference_table h) \<and> sql_eq (pl_reference_id q) (pl_reference_id h)
                           \<and> sql_eq (pl_transaction_type q) (pl_transaction_type h) \<and> pl_currency q = pl_currency h
                           \<and> pl_direction q = pl_direction h \<and> pl_id q < pl_id h)
                        (pd_ledger db))
      in max 0 (min (pl_amount h) (groupNet - earlier)))"

section \<open>Loading the units\<close>

definition min_txn :: "txn_row list \<Rightarrow> nat option" where
  "min_txn ts = (if ts = [] then None else Some (Min (set (map tn_id ts))))"

definition source_txns :: "partner_db \<Rightarrow> string \<Rightarrow> nat option \<Rightarrow> txn_row list" where
  "source_txns db table i = filter (\<lambda>t. tn_source_table t = table \<and> sql_eq (Some (tn_source_id t)) i) (pd_txns db)"

definition source_txn_of :: "partner_db \<Rightarrow> partner_ledger_row \<Rightarrow> nat option" where
  "source_txn_of db r =
     (if pl_reference_table r = Some ''transactions'' then pl_reference_id r
      else case pl_reference_table r of
             Some t \<Rightarrow> (if t \<noteq> ''partner_ledger'' then min_txn (source_txns db t (pl_reference_id r))
                        else min_txn (source_txns db ''partner_ledger'' (pl_reference_id r)))
           | None \<Rightarrow> min_txn (source_txns db ''partner_ledger'' (Some (pl_id r))))"

definition load_row :: "partner_env \<Rightarrow> partner_db \<Rightarrow> partner_ledger_row \<Rightarrow> PartnerUnitLedgerRow" where
  "load_row e db r =
     (let tx = (if pl_reference_table r = Some ''transactions''
                then find (\<lambda>t. sql_eq (Some (tn_id t)) (pl_reference_id r)) (pd_txns db) else None)
      in \<lparr>pr_id = pl_id r, pr_partner_id = pl_partner_id r, pr_transaction_type = pl_transaction_type r,
          pr_reference_table = pl_reference_table r, pr_reference_id = pl_reference_id r,
          tx_source_table = map_option tn_source_table tx, tx_source_id = map_option tn_source_id tx,
          pr_amount = pl_amount r, pr_currency = pl_currency r, pr_direction = pl_direction r,
          pr_created_at = pl_created_at r, pr_sort_at = sort_text e (pl_created_at r),
          pr_shop_day = localDay e (pl_created_at r),
          is_cash_moved = list_ex (\<lambda>t. tn_type t = ''PARTNER_PAYMENT'') (source_txns db ''partner_ledger'' (Some (pl_id r))),
          is_obligation_head = partnerObligationHeadRowSql db r,
          legacy_covered_amount = pl_legacy_covered_amount r, pr_notes = pl_notes r,
          pr_source_txn_id = source_txn_of db r\<rparr>)"

definition loadLedgerRows :: "partner_env \<Rightarrow> nat \<Rightarrow> partner_db \<Rightarrow> PartnerUnitLedgerRow list" where
  "loadLedgerRows e partnerId db =
     map (load_row e db)
       (sort_key pl_id (filter (\<lambda>r. pl_partner_id r = partnerId \<and> (pl_currency r = ''USD'' \<or> pl_currency r = ''LBP'')) (pd_ledger db)))"

definition cover_key :: "coverage_row \<Rightarrow> nat \<times> PartnerCurrency \<times> PartnerSide" where
  "cover_key c = (cw_partner_ledger_id c, cw_currency c, cw_side c)"

definition active_coverage :: "nat \<Rightarrow> partner_db \<Rightarrow> coverage_row list" where
  "active_coverage partnerId db = filter (\<lambda>c. cw_partner_id c = partnerId \<and> \<not> cv_is_reversed c) (pd_coverage db)"

definition grouped_coverage :: "coverage_row list \<Rightarrow> PartnerUnitCoverage list" where
  "grouped_coverage cs =
     map (\<lambda>(i, c, s). \<lparr>pc_partner_ledger_id = i, pc_currency = c, pc_side = s,
                       pc_amount = sum_of cw_amount (filter (\<lambda>x. cover_key x = (i, c, s)) cs)\<rparr>)
       (remdups (map cover_key cs))"

definition payers_with_coverage :: "nat \<Rightarrow> partner_db \<Rightarrow> nat \<Rightarrow> bool" where
  "payers_with_coverage partnerId db i =
     list_ex (\<lambda>c. cw_partner_id c = partnerId \<and> cw_settlement_ledger_id c = i) (pd_coverage db)"

definition loadUnits :: "partner_env \<Rightarrow> nat \<Rightarrow> partner_db \<Rightarrow> PartnerSettleUnit list" where
  "loadUnits e partnerId db =
     buildPartnerSettleUnits (loadLedgerRows e partnerId db) (grouped_coverage (active_coverage partnerId db))
       (payers_with_coverage partnerId db)"

section \<open>Calendar rows\<close>

datatype relief_origin = UNDO_ORIGIN | VOID_ORIGIN

record PartnerSettleRow =
  sr_unit :: PartnerSettleUnit
  sr_shop_day :: string
  amount_usd :: amount
  amount_lbp :: amount
  covered_usd :: amount
  covered_lbp :: amount
  remaining_usd :: amount
  remaining_lbp :: amount
  row_scope :: unit_scope
  relief_origin :: "relief_origin option"
  relief_ref :: "string option"

text \<open>The fields the code copies from the unit are the unit itself.\<close>

definition pair_of :: "PartnerCurrency \<Rightarrow> amount \<Rightarrow> amount \<times> amount" where
  "pair_of c v = (if c = SettleUSD then (v, 0) else (0, v))"

definition build_row ::
    "PartnerSettleUnit \<Rightarrow> unit_scope \<Rightarrow> string \<Rightarrow> amount \<Rightarrow> amount \<Rightarrow> amount \<Rightarrow> relief_origin option \<Rightarrow> PartnerSettleRow" where
  "build_row u scope day amt covered remaining origin =
     (let a = pair_of (su_currency u) amt;
          c = pair_of (su_currency u) (partner_round (max 0 covered) (su_currency u));
          r = pair_of (su_currency u) remaining
      in \<lparr>sr_unit = u, sr_shop_day = day, amount_usd = fst a, amount_lbp = snd a, covered_usd = fst c, covered_lbp = snd c,
          remaining_usd = fst r, remaining_lbp = snd r, row_scope = scope, relief_origin = origin,
          relief_ref = (case (origin, su_source_txn_id u) of
                          (Some _, Some n) \<Rightarrow> if n = 0 then None else Some (CHR ''#'' # nat_text n)
                        | _ \<Rightarrow> None)\<rparr>)"

definition rowsOfUnit :: "PartnerSettleUnit \<Rightarrow> PartnerSettleRow list" where
  "rowsOfUnit u =
     (let absNet = \<bar>su_net u\<bar>;
          reliefDay = text_or (last_reversal_day u) (su_shop_day u)
      in if unit_class u = DAY
         then (if \<not> flipped u
               then [build_row u DAY_SCOPE (su_shop_day u) (su_net u) (absNet - \<bar>su_remaining u\<bar>) (su_remaining u) None]
               else [build_row u DAY_SCOPE (su_shop_day u) (su_net u) absNet 0 None,
                     build_row u ACCOUNT_SCOPE reliefDay (su_remaining u) 0 (su_remaining u) (Some VOID_ORIGIN)])
         else [build_row u ACCOUNT_SCOPE (if flipped u then reliefDay else su_shop_day u) (su_net u)
                 (if flipped u then absNet else absNet - \<bar>su_remaining u\<bar>) (su_remaining u)
                 (if flipped u then Some UNDO_ORIGIN else None)])"

definition row_is_open :: "PartnerSettleRow \<Rightarrow> bool" where
  "row_is_open r \<longleftrightarrow> remaining_usd r \<noteq> 0 \<or> remaining_lbp r \<noteq> 0"

definition getOpenRows :: "partner_env \<Rightarrow> nat \<Rightarrow> partner_db \<Rightarrow> PartnerSettleRow list" where
  "getOpenRows e partnerId db =
     filter row_is_open (concat (map rowsOfUnit (filter isPartnerUnitOpen (loadUnits e partnerId db))))"

definition getMonthRows :: "partner_env \<Rightarrow> nat \<Rightarrow> string \<Rightarrow> partner_db \<Rightarrow> PartnerSettleRow list" where
  "getMonthRows e partnerId month db =
     (let inMonth = (\<lambda>r. take (Suc (length month)) (sr_shop_day r) = month @ ''-'')
      in filter (\<lambda>r. if row_scope r = DAY_SCOPE then inMonth r else relief_origin r \<noteq> None \<and> inMonth r \<and> row_is_open r)
           (concat (map rowsOfUnit (loadUnits e partnerId db))))"

section \<open>The coverage writer and the profit sync\<close>

definition set_covered :: "nat \<Rightarrow> amount \<Rightarrow> partner_db \<Rightarrow> partner_db" where
  "set_covered i v db = db\<lparr>pd_ledger := map (\<lambda>r. if pl_id r = i then r\<lparr>pl_covered_amount := v\<rparr> else r) (pd_ledger db)\<rparr>"

fun share_heads :: "PartnerCurrency \<Rightarrow> partner_db \<Rightarrow> amount \<Rightarrow> partner_ledger_row list \<Rightarrow> partner_db \<Rightarrow> partner_db" where
  "share_heads c db0 left [] db = db"
| "share_heads c db0 left (h # hs) db =
     (let headroom = max 0 (partnerObligationCoverableSql db0 h - pl_legacy_covered_amount h);
          give = (if hs = [] then left else min (max left 0) headroom)
      in share_heads c db0 (left - give) hs
           (set_covered (pl_id h) (max 0 (partner_round (pl_legacy_covered_amount h + give) c)) db))"

definition sync_unit :: "PartnerSettleUnit \<Rightarrow> partner_db \<Rightarrow> partner_db" where
  "sync_unit u db =
     (let heads = sort_key pl_id (filter (\<lambda>r. pl_id r \<in> set (member_ids u) \<and> partnerObligationHeadRowSql db r) (pd_ledger db));
          c = sum_of (\<lambda>x. if cw_side x = su_direction u then cw_amount x else - cw_amount x)
                (filter (\<lambda>x. \<not> cv_is_reversed x \<and> cw_source x \<in> set PARTNER_PROFIT_COVERAGE_SOURCES
                             \<and> cw_partner_ledger_id x \<in> set (member_ids u)) (pd_coverage db))
      in if heads = [] then db else share_heads (su_currency u) db c heads db)"

definition syncObligationCovered :: "partner_env \<Rightarrow> nat \<Rightarrow> nat list \<Rightarrow> partner_db \<Rightarrow> partner_db" where
  "syncObligationCovered e partnerId rowIds db =
     (if rowIds = [] then db
      else fold sync_unit
             (filter (\<lambda>u. has_obligation_head u \<and> list_ex (\<lambda>m. m \<in> set rowIds) (member_ids u)) (loadUnits e partnerId db)) db)"

definition insert_coverage :: "PartnerCoverageWrite \<Rightarrow> partner_db \<Rightarrow> partner_db" where
  "insert_coverage w db =
     (let amt = partner_round (cw_amount w) (cw_currency w) in
      if amt \<le> EPS (cw_currency w) then db
      else db\<lparr>pd_coverage := pd_coverage db
                @ [PartnerCoverageWrite.extend (w\<lparr>cw_amount := amt\<rparr>)
                     (coverage_row.fields (coverage_counter db + 1) False)],
              coverage_counter := coverage_counter db + 1\<rparr>)"

fun touch :: "nat \<Rightarrow> nat \<Rightarrow> (nat \<times> nat list) list \<Rightarrow> (nat \<times> nat list) list" where
  "touch p i [] = [(p, [i])]"
| "touch p i (t # ts) = (if fst t = p then (p, if i \<in> set (snd t) then snd t else snd t @ [i]) # ts else t # touch p i ts)"

definition touched :: "PartnerCoverageWrite list \<Rightarrow> (nat \<times> nat list) list" where
  "touched ws =
     fold (\<lambda>w ts. if partner_round (cw_amount w) (cw_currency w) \<le> EPS (cw_currency w) then ts
                  else touch (cw_partner_id w) (cw_partner_ledger_id w) ts) ws []"

definition writeCoverage :: "partner_env \<Rightarrow> PartnerCoverageWrite list \<Rightarrow> partner_db \<Rightarrow> partner_db" where
  "writeCoverage e entries db =
     fold (\<lambda>t. syncObligationCovered e (fst t) (snd t)) (touched entries) (fold insert_coverage entries db)"

definition linkTransaction :: "nat \<Rightarrow> nat \<Rightarrow> partner_db \<Rightarrow> partner_db" where
  "linkTransaction settlementLedgerId transactionId db =
     db\<lparr>pd_coverage := map (\<lambda>c. if cw_settlement_ledger_id c = settlementLedgerId \<and> cw_transaction_id c = None
                                then c\<lparr>cw_transaction_id := Some transactionId\<rparr> else c) (pd_coverage db)\<rparr>"

section \<open>The balance-based settlement\<close>

definition currency_text :: "PartnerCurrency \<Rightarrow> string" where
  "currency_text c = (if c = SettleUSD then ''USD'' else ''LBP'')"

definition legacy_targets :: "partner_env \<Rightarrow> partner_ledger_row \<Rightarrow> PartnerCurrency \<Rightarrow> PartnerSide \<Rightarrow> partner_db \<Rightarrow> PartnerSettleUnit list" where
  "legacy_targets e entry c target db =
     js_sort unit_cmp
       (filter (\<lambda>u. unit_class u = DAY \<and> has_obligation_head u \<and> su_currency u = c \<and> \<not> flipped u \<and> isPartnerUnitOpen u
                    \<and> partnerCoverSide (su_remaining u) = target)
         (loadUnits e (pl_partner_id entry) db))"

definition legacy_writes :: "partner_ledger_row \<Rightarrow> PartnerCoverageSource \<Rightarrow> PartnerCurrency \<Rightarrow> PartnerSide \<Rightarrow> nat FifoTake list \<Rightarrow> PartnerCoverageWrite list" where
  "legacy_writes entry source c target takes =
     map (\<lambda>t. \<lparr>cw_transaction_id = None, cw_settlement_ledger_id = pl_id entry, cw_partner_ledger_id = ft_id t,
               cw_partner_id = pl_partner_id entry, cw_currency = c, cw_side = target, cw_amount = ft_take t,
               cw_source = source, cw_closes_row = False\<rparr>) takes
     @ [\<lparr>cw_transaction_id = None, cw_settlement_ledger_id = pl_id entry, cw_partner_ledger_id = pl_id entry,
         cw_partner_id = pl_partner_id entry, cw_currency = c, cw_side = pl_direction entry,
         cw_amount = sum_of ft_take takes, cw_source = source, cw_closes_row = False\<rparr>]"

definition applyLegacyPathCoverage :: "partner_env \<Rightarrow> partner_ledger_row \<Rightarrow> PartnerCoverageSource \<Rightarrow> partner_db \<Rightarrow> partner_db" where
  "applyLegacyPathCoverage e entry source db =
     (if pl_currency entry \<noteq> ''USD'' \<and> pl_currency entry \<noteq> ''LBP'' then db
      else let c = (if pl_currency entry = ''LBP'' then SettleLBP else SettleUSD);
               amt = \<bar>pl_amount entry\<bar>;
               target = (if pl_direction entry = CREDIT then DEBIT else CREDIT)
           in if amt \<le> EPS c then db
              else let takes = allocateFifo
                         (map (\<lambda>u. \<lparr>fo_id = su_id u, outstanding = \<bar>su_remaining u\<bar>\<rparr>) (legacy_targets e entry c target db)) amt (EPS c)
                   in if takes = [] then db else writeCoverage e (legacy_writes entry source c target takes) db)"

record CreateLedgerEntryData =
  ce_partner_id :: nat
  ce_transaction_type :: "string option"
  ce_reference_table :: "string option"
  ce_reference_id :: "nat option"
  ce_amount :: amount
  ce_currency :: string
  ce_direction :: PartnerSide
  ce_notes :: "string option"
  ce_created_at :: "string option"
  ce_applyCoverage :: bool
  ce_skipCoverage :: bool

definition insert_ledger :: "partner_env \<Rightarrow> CreateLedgerEntryData \<Rightarrow> partner_db \<Rightarrow> partner_ledger_row \<times> partner_db" where
  "insert_ledger e d db =
     (let row = \<lparr>pl_id = ledger_counter db + 1, pl_partner_id = ce_partner_id d, pl_transaction_type = ce_transaction_type d,
                 pl_reference_table = ce_reference_table d, pl_reference_id = ce_reference_id d, pl_amount = ce_amount d,
                 pl_currency = ce_currency d, pl_direction = ce_direction d, pl_notes = ce_notes d,
                 pl_created_at = (case ce_created_at d of None \<Rightarrow> request_time e | Some t \<Rightarrow> t),
                 pl_covered_amount = 0, pl_legacy_covered_amount = 0\<rparr>
      in (row, db\<lparr>pd_ledger := pd_ledger db @ [row], ledger_counter := ledger_counter db + 1\<rparr>))"

definition addLedgerEntry :: "partner_env \<Rightarrow> CreateLedgerEntryData \<Rightarrow> partner_db \<Rightarrow> partner_ledger_row \<times> partner_db" where
  "addLedgerEntry e d db =
     (let (row, db1) = insert_ledger e d db
      in if \<not> ce_skipCoverage d
            \<and> (ce_transaction_type d = Some ''SETTLEMENT'' \<or> ce_transaction_type d = Some ''DISCOUNT'' \<or> ce_applyCoverage d)
         then (row, applyLegacyPathCoverage e row
                      (if ce_transaction_type d = Some ''DISCOUNT'' then COVER_DISCOUNT else COVER_PAYMENT) db1)
         else (row, db1))"

section \<open>Undo\<close>

record legacy_budget =
  lb_currency :: PartnerCurrency
  lb_direction :: PartnerSide
  lb_budget :: amount

record PartnerReversalPlan =
  rp_partnerId :: nat
  rp_ledgerIds :: "nat list"
  rp_legacy :: "legacy_budget list"

definition planReversal :: "partner_env \<Rightarrow> nat \<Rightarrow> nat list \<Rightarrow> partner_db \<Rightarrow> PartnerReversalPlan" where
  "planReversal e partnerId ledgerIds db =
     \<lparr>rp_partnerId = partnerId, rp_ledgerIds = ledgerIds,
      rp_legacy = map (\<lambda>u. \<lparr>lb_currency = su_currency u, lb_direction = su_direction u, lb_budget = legacy_attributed u\<rparr>)
        (filter (\<lambda>u. \<not> legacy_attributed u \<le> EPS (su_currency u) \<and> list_ex (\<lambda>m. m \<in> set ledgerIds) (member_ids u))
          (loadUnits e partnerId db))\<rparr>"

definition unit_with :: "PartnerSettleUnit list \<Rightarrow> nat \<Rightarrow> PartnerSettleUnit option" where
  "unit_with units m = find (\<lambda>u. m \<in> set (member_ids u)) (rev units)"

definition later_paid :: "nat list \<Rightarrow> coverage_row \<Rightarrow> PartnerSettleUnit \<Rightarrow> partner_db \<Rightarrow> bool" where
  "later_paid own c u db =
     list_ex (\<lambda>x. \<not> cv_is_reversed x \<and> cv_id x > cv_id c \<and> cw_settlement_ledger_id x \<notin> set own
                  \<and> cw_partner_ledger_id x \<in> set (member_ids u)) (pd_coverage db)"

definition is_shared :: "nat list \<Rightarrow> PartnerSettleUnit list \<Rightarrow> partner_db \<Rightarrow> coverage_row \<Rightarrow> bool" where
  "is_shared own units db c =
     (case unit_with units (cw_partner_ledger_id c) of
        None \<Rightarrow> False
      | Some u \<Rightarrow> \<not> (cw_partner_ledger_id c \<in> set own \<or> list_ex (\<lambda>m. m \<in> set own) (member_ids u))
                  \<and> unit_class u = DAY \<and> later_paid own c u db)"

fun keep_add :: "PartnerCurrency \<Rightarrow> amount \<Rightarrow> (PartnerCurrency \<times> amount) list \<Rightarrow> (PartnerCurrency \<times> amount) list" where
  "keep_add c v [] = [(c, v)]"
| "keep_add c v (k # ks) = (if fst k = c then (c, snd k + v) # ks else k # keep_add c v ks)"

definition kept_effects :: "coverage_row list \<Rightarrow> (PartnerCurrency \<times> amount) list" where
  "kept_effects cs = fold (\<lambda>c. keep_add (cw_currency c) (partnerCoverageEffect (cw_side c) (cw_amount c))) cs []"

definition relief_target :: "partner_ledger_row list \<Rightarrow> PartnerCurrency \<Rightarrow> partner_ledger_row option" where
  "relief_target ownRows c =
     (case find (\<lambda>r. pl_currency r = currency_text c \<and> pl_transaction_type r = Some ''SETTLEMENT'') ownRows of
        Some r \<Rightarrow> Some r
      | None \<Rightarrow> find (\<lambda>r. pl_currency r = currency_text c) ownRows)"

text \<open>The loop over the kept amounts: the ids to reverse and the relief rows.\<close>

fun relief_loop ::
    "PartnerReversalPlan \<Rightarrow> nat option \<Rightarrow> partner_ledger_row list \<Rightarrow> coverage_row list \<Rightarrow> (PartnerCurrency \<times> amount) list
      \<Rightarrow> nat list \<times> PartnerCoverageWrite list \<Rightarrow> nat list \<times> PartnerCoverageWrite list" where
  "relief_loop plan txn ownRows rows [] (rev_ids, relief) = (rev_ids, relief)"
| "relief_loop plan txn ownRows rows ((c, k) # ks) (rev_ids, relief) =
     (let kRounded = partner_round k c in
      if \<bar>kRounded\<bar> \<le> EPS c then relief_loop plan txn ownRows rows ks (rev_ids, relief)
      else case relief_target ownRows c of
             None \<Rightarrow> relief_loop plan txn ownRows rows ks
                      (rev_ids @ map cv_id (filter (\<lambda>x. cw_currency x = c \<and> cv_id x \<notin> set rev_ids) rows), relief)
           | Some t \<Rightarrow> relief_loop plan txn ownRows rows ks
                      (rev_ids,
                       relief @ [\<lparr>cw_transaction_id = txn, cw_settlement_ledger_id = hd (rp_ledgerIds plan),
                                  cw_partner_ledger_id = pl_id t, cw_partner_id = rp_partnerId plan, cw_currency = c,
                                  cw_side = (if kRounded > 0 then CREDIT else DEBIT), cw_amount = \<bar>kRounded\<bar>,
                                  cw_source = COVER_RELIEF, cw_closes_row = False\<rparr>]))"

definition mark_reversed :: "nat list \<Rightarrow> partner_db \<Rightarrow> partner_db" where
  "mark_reversed ids db =
     db\<lparr>pd_coverage := map (\<lambda>c. if cv_id c \<in> set ids then c\<lparr>cv_is_reversed := True\<rparr> else c) (pd_coverage db)\<rparr>"

definition unwindLegacy :: "nat \<Rightarrow> PartnerCurrency \<Rightarrow> PartnerSide \<Rightarrow> amount \<Rightarrow> partner_db \<Rightarrow> nat list \<times> partner_db" where
  "unwindLegacy partnerId c payerDirection budget db =
     (let target = (if payerDirection = CREDIT then DEBIT else CREDIT);
          heads = rev (sort_key pl_created_at (sort_key pl_id
                    (filter (\<lambda>r. pl_partner_id r = partnerId \<and> pl_currency r = currency_text c \<and> pl_direction r = target
                                 \<and> partnerObligationHeadRowSql db r \<and> pl_legacy_covered_amount r > 0) (pd_ledger db))));
          takes = allocateFifo (map (\<lambda>r. \<lparr>fo_id = pl_id r, outstanding = pl_legacy_covered_amount r\<rparr>) heads) budget (EPS c)
      in (map ft_id takes,
          fold (\<lambda>t d. d\<lparr>pd_ledger := map (\<lambda>r. if pl_id r = ft_id t
                  then r\<lparr>pl_legacy_covered_amount := pl_legacy_covered_amount r - ft_take t\<rparr> else r) (pd_ledger d)\<rparr>) takes db))"

definition reverse_coverage :: "partner_env \<Rightarrow> PartnerReversalPlan \<Rightarrow> nat option \<Rightarrow> coverage_row list \<Rightarrow> partner_db \<Rightarrow> partner_db" where
  "reverse_coverage e plan txn rows db =
     (let own = rp_ledgerIds plan;
          units = loadUnits e (rp_partnerId plan) db;
          ownRows = sort_key pl_id (filter (\<lambda>r. pl_id r \<in> set own) (pd_ledger db));
          (rev_ids, relief) = relief_loop plan txn ownRows rows (kept_effects (filter (is_shared own units db) rows))
                                (map cv_id (filter (\<lambda>c. \<not> is_shared own units db c) rows), []);
          db1 = mark_reversed rev_ids db
      in if relief = [] then db1 else writeCoverage e relief db1)"

fun unwind_all :: "nat \<Rightarrow> legacy_budget list \<Rightarrow> nat list \<times> partner_db \<Rightarrow> nat list \<times> partner_db" where
  "unwind_all p [] s = s"
| "unwind_all p (l # ls) (ids, db) =
     (let (more, db1) = unwindLegacy p (lb_currency l) (lb_direction l) (lb_budget l) db
      in unwind_all p ls (ids @ more, db1))"

definition applyReversal :: "partner_env \<Rightarrow> PartnerReversalPlan \<Rightarrow> nat option \<Rightarrow> partner_db \<Rightarrow> partner_db" where
  "applyReversal e plan reversalTxnId db =
     (let rows = sort_key cv_id (filter (\<lambda>c. \<not> cv_is_reversed c \<and> cw_settlement_ledger_id c \<in> set (rp_ledgerIds plan)) (pd_coverage db));
          db1 = (if rows = [] then db else reverse_coverage e plan reversalTxnId rows db);
          (ids, db2) = unwind_all (rp_partnerId plan) (rp_legacy plan) (map cw_partner_ledger_id rows, db1)
      in syncObligationCovered e (rp_partnerId plan) ids db2)"

section \<open>The undo of a settlement\<close>

definition createTransaction :: "txn_row \<Rightarrow> partner_db \<Rightarrow> nat \<times> partner_db" where
  "createTransaction t db =
     (txn_counter db + 1,
      db\<lparr>pd_txns := pd_txns db @ [t\<lparr>tn_id := txn_counter db + 1, tn_active := True\<rparr>], txn_counter := txn_counter db + 1\<rparr>)"

definition getBySourceId :: "string \<Rightarrow> nat \<Rightarrow> partner_db \<Rightarrow> txn_row option" where
  "getBySourceId table i db =
     (case filter (\<lambda>t. tn_source_table t = table \<and> tn_source_id t = i \<and> tn_active t) (pd_txns db) of
        [] \<Rightarrow> None
      | ts \<Rightarrow> find (\<lambda>t. tn_id t = Max (set (map tn_id ts))) ts)"

definition negateCounterpartyDiscountProfit :: "nat \<Rightarrow> partner_db \<Rightarrow> partner_db" where
  "negateCounterpartyDiscountProfit i db =
     (case getBySourceId ''partner_ledger'' i db of
        None \<Rightarrow> db
      | Some t \<Rightarrow> snd (createTransaction
          \<lparr>tn_id = 0, tn_type = ''COUNTERPARTY_DISCOUNT'', tn_source_table = ''partner_ledger'', tn_source_id = i,
           tn_amount_usd = 0, tn_amount_lbp = 0, tn_profit_usd = - tn_profit_usd t, tn_profit_lbp = - tn_profit_lbp t,
           tn_exchange_rate = tn_exchange_rate t, tn_active = True, tn_reverses_id = Some (tn_id t)\<rparr> db))"

definition reversal_entry :: "nat \<Rightarrow> nat \<Rightarrow> string \<Rightarrow> partner_ledger_row \<Rightarrow> CreateLedgerEntryData" where
  "reversal_entry p source text r =
     \<lparr>ce_partner_id = p, ce_transaction_type = pl_transaction_type r, ce_reference_table = Some ''partner_ledger'',
      ce_reference_id = Some source, ce_amount = pl_amount r, ce_currency = pl_currency r,
      ce_direction = (if pl_direction r = DEBIT then CREDIT else DEBIT), ce_notes = Some text,
      ce_created_at = None, ce_applyCoverage = False, ce_skipCoverage = True\<rparr>"

definition linked_text :: "nat \<Rightarrow> partner_ledger_row \<Rightarrow> string" where
  "linked_text txn row =
     (if pl_transaction_type row = Some ''DISCOUNT''
      then ''Reversal of bundled discount for settlement/payment txn #'' @ nat_text txn
      else ''Reversal of settlement/payment txn #'' @ nat_text txn @ '' ('' @ pl_currency row @ '')'')"

definition reverse_linked :: "partner_env \<Rightarrow> txn_row \<Rightarrow> nat \<Rightarrow> partner_ledger_row \<Rightarrow> partner_db \<Rightarrow> partner_db" where
  "reverse_linked e original p row db =
     (let db1 = snd (insert_ledger e (reversal_entry p (tn_source_id original) (linked_text (tn_id original) row) row) db)
      in if pl_transaction_type row = Some ''DISCOUNT'' then negateCounterpartyDiscountProfit (pl_id row) db1 else db1)"

definition reversePartnerSettlementLedger :: "partner_env \<Rightarrow> txn_row \<Rightarrow> nat option \<Rightarrow> partner_db \<Rightarrow> partner_db" where
  "reversePartnerSettlementLedger e original reversalTxnId db =
     (if (tn_type original \<noteq> ''PARTNER_SETTLEMENT'' \<and> tn_type original \<noteq> ''PARTNER_PAYMENT'')
         \<or> tn_source_table original \<noteq> ''partner_ledger'' then db
      else case find (\<lambda>r. pl_id r = tn_source_id original) (pd_ledger db) of
             None \<Rightarrow> db
           | Some entry \<Rightarrow>
               (let linked = sort_key pl_id (filter (\<lambda>r. pl_reference_table r = Some ''partner_ledger''
                      \<and> pl_reference_id r = Some (tn_source_id original)
                      \<and> (pl_transaction_type r = Some ''SETTLEMENT'' \<or> pl_transaction_type r = Some ''DISCOUNT'')) (pd_ledger db));
                    plan = planReversal e (pl_partner_id entry) (tn_source_id original # map pl_id linked) db;
                    db1 = snd (insert_ledger e (reversal_entry (pl_partner_id entry) (tn_source_id original)
                            (''Reversal of settlement/payment txn #'' @ nat_text (tn_id original)) entry) db);
                    db2 = fold (reverse_linked e original (pl_partner_id entry)) linked db1
                in applyReversal e plan reversalTxnId db2))"

end
