(* ===== verification/Settle_Legs.thy ===== *)
theory Settle_Legs
  imports Account_Settlement
begin

text \<open>
  Model of \<open>packages/core/src/utils/settleLegConversion.ts\<close>: a settle box paid in the other currency. What a
  box's lines pay in the box's currency, and how the lines of one box are split over both
  currencies. The code of a line's currency is a text; a box settles USD or LBP.
\<close>

type_synonym SettleBoxCurrency = AccountSettleCurrency

definition box_code :: "SettleBoxCurrency \<Rightarrow> string" where
  "box_code c = (if c = SettleUSD then ''USD'' else ''LBP'')"

datatype leg_direction = LEG_IN | LEG_OUT

record settle_leg =
  sl_method :: string
  sl_currency_code :: string
  sl_amount :: amount
  sl_direction :: "leg_direction option"

definition roundSettleAmount :: "amount \<Rightarrow> SettleBoxCurrency \<Rightarrow> amount" where
  "roundSettleAmount amt c = (if c = SettleUSD then of_int (math_round (amt * 100)) / 100 else of_int (math_round amt))"

definition settleLegAmountIn :: "settle_leg \<Rightarrow> SettleBoxCurrency \<Rightarrow> amount \<Rightarrow> amount" where
  "settleLegAmountIn leg c rate =
     (let amt = \<bar>sl_amount leg\<bar>
      in if sl_currency_code leg = box_code c then amt
         else if \<not> rate > 0 then 0
         else if c = SettleUSD then amt / rate else amt * rate)"

definition settleLegsCrossCurrency :: "settle_leg list \<Rightarrow> SettleBoxCurrency \<Rightarrow> bool" where
  "settleLegsCrossCurrency legs c = list_ex (\<lambda>leg. sl_currency_code leg \<noteq> box_code c) legs"

definition settleLegsInBoxCurrency :: "settle_leg list \<Rightarrow> SettleBoxCurrency \<Rightarrow> amount \<Rightarrow> settle_leg list" where
  "settleLegsInBoxCurrency legs c rate =
     map (\<lambda>leg. leg\<lparr>sl_currency_code := box_code c, sl_amount := roundSettleAmount (settleLegAmountIn leg c rate) c\<rparr>) legs"

definition leg_sign :: "settle_leg \<Rightarrow> amount" where
  "leg_sign leg = (if sl_direction leg = Some LEG_OUT then -1 else 1)"

definition settleLegsNetIn :: "settle_leg list \<Rightarrow> SettleBoxCurrency \<Rightarrow> amount \<Rightarrow> amount" where
  "settleLegsNetIn legs c rate =
     roundSettleAmount (fold (\<lambda>leg sum. sum + leg_sign leg * sl_amount leg) (settleLegsInBoxCurrency legs c rate) 0) c"

definition settleLegsTotalByCurrency :: "settle_leg list \<Rightarrow> amount \<times> amount" where
  "settleLegsTotalByCurrency legs =
     (let (usd, lbp) = fold (\<lambda>leg (usd, lbp).
            let v = leg_sign leg * \<bar>sl_amount leg\<bar>
            in if sl_currency_code leg = ''USD'' then (usd + v, lbp)
               else if sl_currency_code leg = ''LBP'' then (usd, lbp + v) else (usd, lbp)) legs (0, 0)
      in (roundSettleAmount usd SettleUSD, roundSettleAmount lbp SettleLBP))"

section \<open>One box for both currencies\<close>

record box_line =
  bl_currencyCode :: string
  bl_amount :: amount

definition other_box :: "SettleBoxCurrency \<Rightarrow> SettleBoxCurrency" where
  "other_box c = (if c = SettleUSD then SettleLBP else SettleUSD)"

definition own_lines :: "box_line list \<Rightarrow> SettleBoxCurrency \<Rightarrow> box_line list" where
  "own_lines paid c = filter (\<lambda>l. bl_currencyCode l = box_code c) paid"

text \<open>The loop over the lines from the last one: \<open>move\<close>, \<open>keep\<close> and \<open>moved\<close>.\<close>

definition split_line :: "SettleBoxCurrency \<Rightarrow> box_line \<Rightarrow> amount \<times> box_line list \<times> box_line list \<Rightarrow> amount \<times> box_line list \<times> box_line list" where
  "split_line c line s =
     (case s of (move, keep, moved) \<Rightarrow>
        let tk = roundSettleAmount (min (bl_amount line) move) c;
            rest = roundSettleAmount (bl_amount line - tk) c
        in (roundSettleAmount (move - tk) c,
            if rest > 0 then line\<lparr>bl_amount := rest\<rparr> # keep else keep,
            if tk > 0 then line\<lparr>bl_amount := tk\<rparr> # moved else moved))"

definition to_move :: "box_line list \<Rightarrow> (SettleBoxCurrency \<Rightarrow> amount) \<Rightarrow> amount \<Rightarrow> SettleBoxCurrency \<Rightarrow> amount" where
  "to_move paid owed_in rate c =
     (let d = other_box c;
          surplus = sum_of bl_amount (own_lines paid c) - owed_in c;
          shortOther = owed_in d - sum_of bl_amount (own_lines paid d);
          shortInC = (if shortOther > 0 \<and> rate > 0 then (if c = SettleUSD then shortOther / rate else shortOther * rate) else 0)
      in roundSettleAmount (max 0 (min surplus shortInC)) c)"

definition split_currency ::
    "box_line list \<Rightarrow> (SettleBoxCurrency \<Rightarrow> amount) \<Rightarrow> amount \<Rightarrow> SettleBoxCurrency \<Rightarrow> box_line list \<times> box_line list" where
  "split_currency paid owed_in rate c =
     snd (fold (split_line c) (rev (own_lines paid c)) (to_move paid owed_in rate c, [], []))"

text \<open>The sections in USD and in LBP; \<open>None\<close> in \<open>owed\<close> is a currency the box does not settle.\<close>

definition splitBoxLinesAcrossCurrencies ::
    "box_line list \<Rightarrow> (SettleBoxCurrency \<Rightarrow> amount option) \<Rightarrow> amount \<Rightarrow> box_line list \<times> box_line list" where
  "splitBoxLinesAcrossCurrencies lines owed_opt rate =
     (let paid = filter (\<lambda>l. bl_amount l > 0) lines;
          owed_in = (\<lambda>c. case owed_opt c of None \<Rightarrow> 0 | Some v \<Rightarrow> v)
      in case (owed_opt SettleUSD, owed_opt SettleLBP) of
           (None, None) \<Rightarrow> ([], [])
         | (Some _, None) \<Rightarrow> (paid, [])
         | (None, Some _) \<Rightarrow> ([], paid)
         | (Some _, Some _) \<Rightarrow>
             (let (keepUsd, movedUsd) = split_currency paid owed_in rate SettleUSD;
                  (keepLbp, movedLbp) = split_currency paid owed_in rate SettleLBP
              in (keepUsd @ movedLbp, movedUsd @ keepLbp)))"

section \<open>Conservation\<close>

interpretation settle_box: rounding "\<lambda>x. roundSettleAmount x c" "if c = SettleUSD then 1 / 100 else 1" for c
proof (cases c)
  case SettleUSD
  then show "rounding (\<lambda>x. roundSettleAmount x c) (if c = SettleUSD then 1 / 100 else 1)"
    using rounding_round_scaled [of 100] by (simp add: roundSettleAmount_def round_scaled_def [abs_def])
next
  case SettleLBP
  then show "rounding (\<lambda>x. roundSettleAmount x c) (if c = SettleUSD then 1 / 100 else 1)"
    using rounding_round_scaled [of 1] by (simp add: roundSettleAmount_def round_scaled_def [abs_def])
qed

abbreviation whole_lines :: "SettleBoxCurrency \<Rightarrow> box_line list \<Rightarrow> bool" where
  "whole_lines c ls \<equiv> \<forall>l \<in> set ls. 0 \<le> bl_amount l \<and> roundSettleAmount (bl_amount l) c = bl_amount l"

lemma split_lines:
  fixes keep moved :: "box_line list"
  assumes "whole_lines c ls" "0 \<le> move" "roundSettleAmount move c = move"
  defines "out \<equiv> fold (split_line c) ls (move, keep, moved)"
  shows "sum_of bl_amount (fst (snd out)) + sum_of bl_amount (snd (snd out))
      = sum_of bl_amount keep + sum_of bl_amount moved + sum_of bl_amount ls
    \<and> sum_of bl_amount (snd (snd out)) = sum_of bl_amount moved + min move (sum_of bl_amount ls)
    \<and> (\<forall>l \<in> set (fst (snd out)) \<union> set (snd (snd out)). l \<in> set keep \<union> set moved \<or> bl_currencyCode l \<in> bl_currencyCode ` set ls)"
  using assms(1-3) unfolding out_def
proof (induction ls arbitrary: move keep moved)
  case (Cons l ls)
  define tk where "tk = min (bl_amount l) move"
  have l: "0 \<le> bl_amount l" "roundSettleAmount (bl_amount l) c = bl_amount l" using Cons.prems(1) by auto
  have r: "roundSettleAmount tk c = tk" "roundSettleAmount (bl_amount l - tk) c = bl_amount l - tk" "roundSettleAmount (move - tk) c = move - tk"
    using l(2) Cons.prems(3) by (auto simp: tk_def intro!: settle_box.fixed_closed)
  have tk: "0 \<le> tk" "tk \<le> bl_amount l" "tk \<le> move" using l(1) Cons.prems(2) by (auto simp: tk_def)
  define keep' where "keep' = (if bl_amount l - tk > 0 then l\<lparr>bl_amount := bl_amount l - tk\<rparr> # keep else keep)"
  define moved' where "moved' = (if tk > 0 then l\<lparr>bl_amount := tk\<rparr> # moved else moved)"
  have st: "split_line c l (move, keep, moved) = (move - tk, keep', moved')"
    using r by (simp add: split_line_def Let_def tk_def [symmetric] keep'_def moved'_def)
  have sums: "sum_of bl_amount keep' = sum_of bl_amount keep + (bl_amount l - tk)" "sum_of bl_amount moved' = sum_of bl_amount moved + tk"
    using tk by (auto simp: keep'_def moved'_def)
  have "min move (bl_amount l + sum_of bl_amount ls) = tk + min (move - tk) (sum_of bl_amount ls)"
  proof -
    have "0 \<le> sum_of bl_amount ls" using Cons.prems(1) by (intro sum_of_nonneg) auto
    then show ?thesis using tk by (auto simp: tk_def min_def)
  qed
  moreover have "set keep' \<subseteq> insert (l\<lparr>bl_amount := bl_amount l - tk\<rparr>) (set keep)" "set moved' \<subseteq> insert (l\<lparr>bl_amount := tk\<rparr>) (set moved)"
    by (auto simp: keep'_def moved'_def)
  moreover have "whole_lines c ls" "0 \<le> move - tk" using Cons.prems(1) tk by auto
  note Cons.IH [OF this r(3), of keep' moved']
  ultimately show ?case using sums by (fastforce simp: st)
qed simp

abbreviation section_of :: "box_line list \<times> box_line list \<Rightarrow> SettleBoxCurrency \<Rightarrow> box_line list" where
  "section_of secs c \<equiv> (if c = SettleUSD then fst secs else snd secs)"

abbreviation paid_in :: "SettleBoxCurrency \<Rightarrow> box_line list \<Rightarrow> amount" where
  "paid_in c ls \<equiv> sum_of bl_amount (own_lines ls c)"

lemma box_code_inject [simp]: "box_code c = box_code d \<longleftrightarrow> c = d"
  by (cases c; cases d) (simp_all add: box_code_def)

lemma other_box_simps [simp]:
  "other_box SettleUSD = SettleLBP" "other_box SettleLBP = SettleUSD" "other_box c \<noteq> c" "c \<noteq> other_box c"
  by (cases c; simp add: other_box_def)+

lemma own_lines_append [simp]: "own_lines (xs @ ys) c = own_lines xs c @ own_lines ys c"
  by (simp add: own_lines_def)

lemma own_lines_coded:
  assumes "\<forall>l \<in> set ls. bl_currencyCode l = box_code d"
  shows "own_lines ls c = (if c = d then ls else [])"
  using assms by (auto simp: own_lines_def filter_id_conv filter_empty_conv)

lemma split_currency_spec:
  assumes "whole_lines c (own_lines paid c)"
  shows "sum_of bl_amount (fst (split_currency paid ow rate c)) + sum_of bl_amount (snd (split_currency paid ow rate c)) = paid_in c paid"
    and "sum_of bl_amount (snd (split_currency paid ow rate c)) = min (to_move paid ow rate c) (paid_in c paid)"
    and "\<forall>l \<in> set (fst (split_currency paid ow rate c)) \<union> set (snd (split_currency paid ow rate c)). bl_currencyCode l = box_code c"
proof -
  have move: "0 \<le> to_move paid ow rate c" "roundSettleAmount (to_move paid ow rate c) c = to_move paid ow rate c"
    by (auto simp: to_move_def Let_def settle_box.rnd_idem intro!: settle_box.rnd_nonneg)
  have "whole_lines c (rev (own_lines paid c))" using assms by simp
  note spec = split_lines [OF this move, of "[]" "[]", folded split_currency_def]
  show "sum_of bl_amount (fst (split_currency paid ow rate c)) + sum_of bl_amount (snd (split_currency paid ow rate c)) = paid_in c paid"
    "sum_of bl_amount (snd (split_currency paid ow rate c)) = min (to_move paid ow rate c) (paid_in c paid)"
    using spec by (simp_all add: rev_map [symmetric] sum_list_rev)
  show "\<forall>l \<in> set (fst (split_currency paid ow rate c)) \<union> set (snd (split_currency paid ow rate c)). bl_currencyCode l = box_code c"
    using spec by (auto simp: own_lines_def)
qed

lemma whole_lines_sum:
  "whole_lines c ls \<Longrightarrow> roundSettleAmount (sum_of bl_amount ls) c = sum_of bl_amount ls"
  by (induction ls) (auto intro: settle_box.fixed_add simp: settle_box.rnd_zero)

lemma to_move_bounds:
  assumes whole: "whole_lines c (own_lines paid c)" and ow: "0 \<le> ow c" "roundSettleAmount (ow c) c = ow c"
  shows "to_move paid ow rate c \<le> max 0 (paid_in c paid - ow c)"
    and "to_move paid ow rate c \<le> paid_in c paid"
proof -
  have "roundSettleAmount (paid_in c paid) c = paid_in c paid"
    using whole by (rule whole_lines_sum)
  then have "roundSettleAmount (paid_in c paid - ow c) c = paid_in c paid - ow c"
    using ow(2) by (rule settle_box.fixed_diff)
  then have "roundSettleAmount (max 0 (paid_in c paid - ow c)) c = max 0 (paid_in c paid - ow c)"
    by (intro settle_box.fixed_max settle_box.rnd_zero)
  then show *: "to_move paid ow rate c \<le> max 0 (paid_in c paid - ow c)"
    unfolding to_move_def Let_def by (intro settle_box.rnd_le_fixed) auto
  have "0 \<le> paid_in c paid" using whole by (intro sum_of_nonneg) auto
  then show "to_move paid ow rate c \<le> paid_in c paid" using * ow(1) by linarith
qed

lemma split_sections:
  assumes "due SettleUSD = Some u" "due SettleLBP = Some l"
    and whole: "\<And>d. whole_lines d (own_lines (filter (\<lambda>x. bl_amount x > 0) lines) d)"
  defines "paid \<equiv> filter (\<lambda>x. bl_amount x > 0) lines"
    and "ow \<equiv> \<lambda>c. case due c of None \<Rightarrow> 0 | Some v \<Rightarrow> v"
  shows "own_lines (section_of (splitBoxLinesAcrossCurrencies lines due rate) c) c = fst (split_currency paid ow rate c)
    \<and> own_lines (section_of (splitBoxLinesAcrossCurrencies lines due rate) (other_box c)) c = snd (split_currency paid ow rate c)"
proof -
  define sp where "sp = split_currency paid ow rate"
  have coded: "\<forall>x \<in> set (fst (sp d)). bl_currencyCode x = box_code d" "\<forall>x \<in> set (snd (sp d)). bl_currencyCode x = box_code d" for d
    using split_currency_spec(3) [OF whole [of d], folded paid_def, of ow rate] by (auto simp: sp_def)
  have secs: "splitBoxLinesAcrossCurrencies lines due rate
      = (fst (sp SettleUSD) @ snd (sp SettleLBP), snd (sp SettleUSD) @ fst (sp SettleLBP))"
    using assms(1,2) by (simp add: splitBoxLinesAcrossCurrencies_def Let_def sp_def paid_def ow_def split: prod.splits)
  have "own_lines (fst (sp d)) d' = (if d' = d then fst (sp d) else [])" "own_lines (snd (sp d)) d' = (if d' = d then snd (sp d) else [])" for d d'
    by (rule own_lines_coded [OF coded(1)] own_lines_coded [OF coded(2)])+
  then show ?thesis unfolding secs sp_def [symmetric] by (cases c) simp_all
qed

definition surplus_value :: "SettleBoxCurrency \<Rightarrow> amount \<Rightarrow> amount \<Rightarrow> amount" where
  "surplus_value c short rate = (if short > 0 \<and> rate > 0 then (if c = SettleUSD then short / rate else short * rate) else 0)"

text \<open>One payment box that settles USD and LBP loses and invents no money: for each currency the
  lines paid in it come out in full over the two sections, still in the currency they were paid in.
  A currency is first paid by its own lines: what stays in its section is at least the smaller of
  what was paid in it and what is owed in it. And what crosses over is, up to half a unit of
  rounding, the smaller of the surplus and of the other currency's shortfall converted at the rate
  (nothing when either is absent).
\<close>

theorem splitBoxLines_conserves:
  fixes rate :: amount
  assumes "due SettleUSD = Some u" "due SettleLBP = Some l"
    and owed: "due c = Some v" "0 \<le> v" "roundSettleAmount v c = v" "due (other_box c) = Some w"
    and lines: "\<forall>x \<in> set lines. \<forall>d. bl_currencyCode x = box_code d \<longrightarrow> roundSettleAmount (bl_amount x) d = bl_amount x"
  defines "paid \<equiv> filter (\<lambda>x. bl_amount x > 0) lines"
    and "own_section \<equiv> section_of (splitBoxLinesAcrossCurrencies lines due rate) c"
    and "other_section \<equiv> section_of (splitBoxLinesAcrossCurrencies lines due rate) (other_box c)"
  shows "paid_in c own_section + paid_in c other_section = paid_in c paid
    \<and> min v (paid_in c paid) \<le> paid_in c own_section
    \<and> \<bar>paid_in c other_section - max 0 (min (paid_in c paid - v) (surplus_value c (w - paid_in (other_box c) paid) rate))\<bar>
        \<le> (if c = SettleUSD then 1 / 200 else 1 / 2)"
proof -
  define ow where "ow = (\<lambda>c. case due c of None \<Rightarrow> 0 | Some v \<Rightarrow> v)"
  have ow: "ow c = v" "ow (other_box c) = w" using owed by (simp_all add: ow_def)
  have whole: "whole_lines d (own_lines paid d)" for d
    using lines by (auto simp: paid_def own_lines_def)
  have out: "own_lines own_section c = fst (split_currency paid ow rate c)" "own_lines other_section c = snd (split_currency paid ow rate c)"
    using split_sections [OF assms(1,2) whole [unfolded paid_def], where rate = rate and c = c]
    by (simp_all add: own_section_def other_section_def paid_def ow_def)
  have bounds: "to_move paid ow rate c \<le> max 0 (paid_in c paid - v)" "to_move paid ow rate c \<le> paid_in c paid"
    using to_move_bounds [OF whole [of c], of ow rate] owed(2,3) unfolding ow by simp_all
  have sums: "paid_in c own_section + paid_in c other_section = paid_in c paid" "paid_in c other_section = to_move paid ow rate c"
    using split_currency_spec(1,2) [OF whole [of c], of ow rate] bounds(2) by (simp_all add: out)
  have "to_move paid ow rate c
      = roundSettleAmount (max 0 (min (paid_in c paid - v) (surplus_value c (w - paid_in (other_box c) paid) rate))) c"
    unfolding to_move_def Let_def ow surplus_value_def ..
  then have "\<bar>to_move paid ow rate c - max 0 (min (paid_in c paid - v) (surplus_value c (w - paid_in (other_box c) paid) rate))\<bar>
      \<le> (if c = SettleUSD then 1 / 100 else 1) / 2"
    using settle_box.near [of "max 0 (min (paid_in c paid - v) (surplus_value c (w - paid_in (other_box c) paid) rate))" c] by simp
  then show ?thesis using sums bounds(1) by (auto split: if_splits)
qed

theorem splitBoxLines_conserves_witness:
  "let lines = [\<lparr>bl_currencyCode = ''USD'', bl_amount = 120\<rparr>, \<lparr>bl_currencyCode = ''LBP'', bl_amount = 100000\<rparr>];
       due = (\<lambda>c. if c = SettleUSD then Some 100 else Some 1000000)
   in paid_in SettleUSD (section_of (splitBoxLinesAcrossCurrencies lines due 90000) SettleUSD)
      + paid_in SettleUSD (section_of (splitBoxLinesAcrossCurrencies lines due 90000) SettleLBP) = 120
     \<and> 100 \<le> paid_in SettleUSD (section_of (splitBoxLinesAcrossCurrencies lines due 90000) SettleUSD)"
proof -
  define lines where "lines = [\<lparr>bl_currencyCode = ''USD'', bl_amount = 120\<rparr>, \<lparr>bl_currencyCode = ''LBP'', bl_amount = 100000\<rparr>]"
  define due where "due = (\<lambda>c. if c = SettleUSD then Some 100 else Some 1000000 :: amount option)"
  have rounds: "roundSettleAmount 100 SettleUSD = 100" "roundSettleAmount 120 SettleUSD = 120" "roundSettleAmount 100000 SettleLBP = 100000"
    by (simp_all add: roundSettleAmount_def math_round_def floor_eq_iff)
  have "\<forall>x \<in> set lines. \<forall>d. bl_currencyCode x = box_code d \<longrightarrow> roundSettleAmount (bl_amount x) d = bl_amount x"
    using rounds by (simp add: lines_def box_code_def) (metis AccountSettleCurrency.exhaust)
  from splitBoxLines_conserves [OF _ _ _ _ _ _ this, of due 100 1000000 SettleUSD 100 1000000 90000] rounds
  show ?thesis by (simp add: lines_def due_def own_lines_def box_code_def Let_def)
qed

end
