(* ===== verification/Partner_Settle_Days.thy ===== *)
theory Partner_Settle_Days
  imports Partner_Settlement Settle_Legs
begin

text \<open>
  Model of \<open>settleDays\<close> of \<open>repositories/PartnerSettlementRepository.ts\<close>: the settlement of picked days, with the
  ledger rows, the money, the forgiven amounts and the coverage it books. An error is a value; the code runs the
  whole body in one database transaction, so on an error nothing is booked. The messages carry texts
  that nothing reads; here an error names its case.
\<close>

datatype settle_error =
    ENTER_AN_AMOUNT
  | ADD_THE_SECTION PartnerCurrency
  | PARTNER_NOT_FOUND
  | ROW_NOT_OPEN nat
  | BALANCE_CHANGED
  | CHANGE_TOO_HIGH PartnerCurrency
  | DISCOUNT_TOO_HIGH PartnerCurrency
  | CREDIT_TOO_HIGH PartnerCurrency
  | FORGIVE_TOO_HIGH PartnerCurrency
  | NOTHING_TO_SETTLE
  | POSTING_REFUSED

datatype settle_payer = PARTNER | SHOP

record settle_forgive =
  fg_amount :: amount
  fg_reason :: "string option"

record settle_section =
  sec_payer :: settle_payer
  sec_payments :: "settle_leg list"
  sec_forgive :: "settle_forgive option"

record PartnerSettleDaysInput =
  sd_partnerId :: nat
  sd_selections :: "nat list"
  include_account_credits :: bool
  sd_credit_used :: "PartnerCurrency \<Rightarrow> amount"
  expected_owed :: "PartnerCurrency \<Rightarrow> amount"
  per_currency :: "PartnerCurrency \<Rightarrow> settle_section option"
  sd_notes :: "string option"
  sd_exchange_rate :: "amount option"

text \<open>The two currencies in the code's order.\<close>

definition both_currencies :: "PartnerCurrency list" where
  "both_currencies = [SettleUSD, SettleLBP]"

definition sections :: "PartnerSettleDaysInput \<Rightarrow> (PartnerCurrency \<times> settle_section) list" where
  "sections d = concat (map (\<lambda>c. case per_currency d c of None \<Rightarrow> [] | Some s \<Rightarrow> [(c, s)]) both_currencies)"

definition creditUsed :: "PartnerSettleDaysInput \<Rightarrow> PartnerCurrency \<Rightarrow> amount" where
  "creditUsed d c = \<bar>sd_credit_used d c\<bar>"

section \<open>Scope\<close>

definition unit_by_id :: "PartnerSettleUnit list \<Rightarrow> nat \<Rightarrow> PartnerSettleUnit option" where
  "unit_by_id units i = find (\<lambda>u. su_id u = i) (rev units)"

fun scope_day :: "PartnerSettleUnit list \<Rightarrow> nat list \<Rightarrow> settle_error + PartnerSettleUnit list" where
  "scope_day units [] = Inr []"
| "scope_day units (i # ids) =
     (case unit_by_id units i of
        None \<Rightarrow> Inl (ROW_NOT_OPEN i)
      | Some u \<Rightarrow>
          if unit_class u \<noteq> DAY \<or> partnerUnitScope u \<noteq> DAY_SCOPE \<or> \<not> isPartnerUnitOpen u then Inl (ROW_NOT_OPEN i)
          else case scope_day units ids of Inl err \<Rightarrow> Inl err | Inr us \<Rightarrow> Inr (u # us))"

definition scope_account :: "PartnerSettleDaysInput \<Rightarrow> PartnerSettleUnit list \<Rightarrow> PartnerSettleUnit list" where
  "scope_account d units =
     (if include_account_credits d then filter (\<lambda>u. isPartnerUnitOpen u \<and> partnerUnitScope u = ACCOUNT_SCOPE) units else [])"

definition owed_in :: "PartnerSettleUnit list \<Rightarrow> PartnerCurrency \<Rightarrow> amount" where
  "owed_in us c = sum_of su_remaining (filter (\<lambda>u. su_currency u = c) us)"

definition balance_changed :: "PartnerSettleDaysInput \<Rightarrow> PartnerSettleUnit list \<Rightarrow> bool" where
  "balance_changed d us \<longleftrightarrow> list_ex (\<lambda>c. \<bar>owed_in us c - expected_owed d c\<bar> > EPS c) both_currencies"

section \<open>The allocation of a currency\<close>

record day_plan =
  dp_currency :: PartnerCurrency
  dp_section :: settle_section
  dp_net :: amount
  dp_paid :: amount
  dp_alloc :: AccountSettleAllocResult
  waiveApplied :: amount
  moneyApplied :: amount

definition toAlloc :: "nat \<Rightarrow> PartnerSettleUnit \<Rightarrow> AccountSettleAllocRow" where
  "toAlloc partnerId u =
     \<lparr>ar_kind = LEDGER, ar_id = su_id u, member_supplier_id = partnerId, ar_created_at = su_sort_at u,
      ar_remaining = su_remaining u, commission_model1 = False, cashout_commission = 0,
      commission_estimate = None, commission_ticked = None\<rparr>"

definition SHORTFALL_MAX :: "PartnerCurrency \<Rightarrow> amount" where
  "SHORTFALL_MAX c = (if c = SettleUSD then 5 else 450000)"

definition KEPT_CHANGE_ROUNDING_TOLERANCE :: "PartnerCurrency \<Rightarrow> amount" where
  "KEPT_CHANGE_ROUNDING_TOLERANCE c = (if c = SettleUSD then 5 / 1000 else 1 / 2)"

definition isWithinShortfallMax :: "amount \<Rightarrow> PartnerCurrency \<Rightarrow> bool" where
  "isWithinShortfallMax amt c \<longleftrightarrow> \<not> amt < 0 \<and> amt \<le> SHORTFALL_MAX c + KEPT_CHANGE_ROUNDING_TOLERANCE c"

definition settleDiscountCapError :: "amount \<Rightarrow> PartnerCurrency \<Rightarrow> bool" where
  "settleDiscountCapError amt c \<longleftrightarrow> \<bar>amt\<bar> > 0 \<and> \<not> isWithinShortfallMax \<bar>amt\<bar> c"

definition takes_from :: "AccountSettleCoverageSource \<Rightarrow> AccountSettleAllocResult \<Rightarrow> amount" where
  "takes_from src a = sum_of at_amount (filter (\<lambda>t. at_source t = src) (as_takes a))"

definition alloc_input ::
    "PartnerSettleDaysInput \<Rightarrow> PartnerSettleUnit list \<Rightarrow> PartnerSettleUnit list \<Rightarrow> PartnerCurrency \<Rightarrow> amount \<Rightarrow> amount \<Rightarrow> AccountSettleAllocInput" where
  "alloc_input d day account c paid waive =
     \<lparr>ai_currency = c, ai_rows = map (toAlloc (sd_partnerId d)) (filter (\<lambda>u. su_currency u = c) day),
      ai_paid = paid, ai_commission = 0, ai_waive = waive, commission_covers = False, commission_split = None,
      ai_eps = EPS c, account_credits = map (toAlloc (sd_partnerId d)) (filter (\<lambda>u. su_currency u = c) account),
      whole_credit = False, credit_used = creditUsed d c\<rparr>"

definition plan_section ::
    "PartnerSettleDaysInput \<Rightarrow> PartnerSettleUnit list \<Rightarrow> PartnerSettleUnit list \<Rightarrow> PartnerCurrency \<times> settle_section \<Rightarrow> settle_error + day_plan" where
  "plan_section d day account cs =
     (let (c, s) = cs;
          net = settleLegsNetIn (sec_payments s) c (case sd_exchange_rate d of None \<Rightarrow> 0 | Some r \<Rightarrow> r)
      in if net < - EPS c then Inl (CHANGE_TOO_HIGH c)
         else let paid = (if sec_payer s = PARTNER then net else - net);
                  waive = (case sec_forgive s of None \<Rightarrow> 0 | Some f \<Rightarrow> fg_amount f)
              in if settleDiscountCapError waive c then Inl (DISCOUNT_TOO_HIGH c)
                 else let alloc = allocateAccountSettlement (alloc_input d day account c paid waive);
                          waived = partner_round (takes_from WAIVE alloc) c
                      in if credit_used_too_high alloc then Inl (CREDIT_TOO_HIGH c)
                         else if waive > EPS c \<and> waived + EPS c < waive then Inl (FORGIVE_TOO_HIGH c)
                         else Inr \<lparr>dp_currency = c, dp_section = s, dp_net = partner_round net c, dp_paid = paid, dp_alloc = alloc,
                                   waiveApplied = waived, moneyApplied = partner_round (takes_from PAYMENT alloc) c\<rparr>)"

fun all_results :: "('e + 'a) list \<Rightarrow> 'e + 'a list" where
  "all_results [] = Inr []"
| "all_results (r # rs) =
     (case r of Inl err \<Rightarrow> Inl err | Inr x \<Rightarrow> (case all_results rs of Inl err \<Rightarrow> Inl err | Inr xs \<Rightarrow> Inr (x # xs)))"

definition anything :: "day_plan list \<Rightarrow> bool" where
  "anything plans \<longleftrightarrow> list_ex (\<lambda>p. as_takes (dp_alloc p) \<noteq> [] \<or> sec_payments (dp_section p) \<noteq> []) plans"

text \<open>Everything the code checks and computes before it writes.\<close>

definition settle_plans :: "partner_env \<Rightarrow> PartnerSettleDaysInput \<Rightarrow> partner_db \<Rightarrow> settle_error + day_plan list" where
  "settle_plans e d db =
     (if sections d = [] then Inl ENTER_AN_AMOUNT
      else case find (\<lambda>c. creditUsed d c > 0 \<and> per_currency d c = None) both_currencies of
             Some c \<Rightarrow> Inl (ADD_THE_SECTION c)
           | None \<Rightarrow>
               if sd_partnerId d \<notin> set (pd_partners db) then Inl PARTNER_NOT_FOUND
               else let units = loadUnits e (sd_partnerId d) db
                    in case scope_day units (sd_selections d) of
                         Inl err \<Rightarrow> Inl err
                       | Inr day \<Rightarrow>
                           (let account = scope_account d units
                            in if balance_changed d (day @ account) then Inl BALANCE_CHANGED
                               else case all_results (map (plan_section d day account) (sections d)) of
                                      Inl err \<Rightarrow> Inl err
                                    | Inr plans \<Rightarrow> if anything plans then Inr plans else Inl NOTHING_TO_SETTLE))"

section \<open>Ledger rows\<close>

definition trimmed_notes :: "PartnerSettleDaysInput \<Rightarrow> string option" where
  "trimmed_notes d = (case sd_notes d of None \<Rightarrow> None | Some s \<Rightarrow> if trim s = [] then None else Some (trim s))"

definition settle_side :: "day_plan \<Rightarrow> PartnerSide" where
  "settle_side p = (if dp_paid p < 0 then DEBIT else CREDIT)"

definition settlement_entry :: "PartnerSettleDaysInput \<Rightarrow> nat option \<Rightarrow> day_plan \<Rightarrow> CreateLedgerEntryData" where
  "settlement_entry d anchor p =
     \<lparr>ce_partner_id = sd_partnerId d, ce_transaction_type = Some ''SETTLEMENT'',
      ce_reference_table = (if anchor = None then None else Some ''partner_ledger''), ce_reference_id = anchor,
      ce_amount = dp_net p, ce_currency = currency_text (dp_currency p), ce_direction = settle_side p,
      ce_notes = Some (text_or (trimmed_notes d) (''Settled picked days ('' @ currency_text (dp_currency p) @ '')'')),
      ce_created_at = None, ce_applyCoverage = False, ce_skipCoverage = True\<rparr>"

text \<open>The rows in the order of the sections; the first is the anchor.\<close>

fun settle_rows :: "partner_env \<Rightarrow> PartnerSettleDaysInput \<Rightarrow> nat option \<Rightarrow> day_plan list \<Rightarrow> partner_db \<Rightarrow> partner_ledger_row list \<times> partner_db" where
  "settle_rows e d anchor [] db = ([], db)"
| "settle_rows e d anchor (p # ps) db =
     (let (row, db1) = addLedgerEntry e (settlement_entry d anchor p) db;
          (rows, db2) = settle_rows e d (Some (case anchor of None \<Rightarrow> pl_id row | Some a \<Rightarrow> a)) ps db1
      in (row # rows, db2))"

section \<open>The transaction and the money\<close>

definition signed_paid :: "day_plan list \<Rightarrow> PartnerCurrency \<Rightarrow> amount" where
  "signed_paid plans c =
     (case find (\<lambda>p. dp_currency p = c) plans of None \<Rightarrow> 0 | Some p \<Rightarrow> partner_round (dp_paid p) c)"

definition stamped_rate :: "partner_env \<Rightarrow> amount option \<Rightarrow> amount option" where
  "stamped_rate e rate = (case rate of Some r \<Rightarrow> if r > 0 then Some r else market_rate e | None \<Rightarrow> market_rate e)"

definition settlement_txn :: "partner_env \<Rightarrow> PartnerSettleDaysInput \<Rightarrow> day_plan list \<Rightarrow> nat \<Rightarrow> txn_row" where
  "settlement_txn e d plans anchorId =
     \<lparr>tn_id = 0, tn_type = ''PARTNER_SETTLEMENT'', tn_source_table = ''partner_ledger'', tn_source_id = anchorId,
      tn_amount_usd = signed_paid plans SettleUSD, tn_amount_lbp = signed_paid plans SettleLBP,
      tn_profit_usd = 0, tn_profit_lbp = 0, tn_exchange_rate = stamped_rate e (sd_exchange_rate d),
      tn_active = True, tn_reverses_id = None\<rparr>"

definition all_legs :: "day_plan list \<Rightarrow> (settle_payer \<times> settle_leg) list" where
  "all_legs plans = concat (map (\<lambda>p. map (Pair (sec_payer (dp_section p))) (sec_payments (dp_section p))) plans)"

definition leg_currency :: "settle_leg \<Rightarrow> string" where
  "leg_currency leg = (if sl_method leg = ''BINANCE'' then ''USDT'' else sl_currency_code leg)"

definition leg_drawer :: "partner_env \<Rightarrow> settle_leg \<Rightarrow> string" where
  "leg_drawer e leg = paymentMethodToDrawerName (shop e) (Some (shop_methods e)) (sl_method leg)"

definition signed_leg :: "settle_payer \<times> settle_leg \<Rightarrow> amount" where
  "signed_leg pl =
     (let (payer, leg) = pl;
          flow = (if payer = PARTNER then \<bar>sl_amount leg\<bar> else - \<bar>sl_amount leg\<bar>)
      in if sl_direction leg = Some LEG_OUT then - flow else flow)"

definition insertPaymentRow :: "partner_payment \<Rightarrow> partner_db \<Rightarrow> settle_error + partner_db" where
  "insertPaymentRow p db =
     (case postingCurrency (pp_drawer_name p) (pp_currency_code p) of
        Inl _ \<Rightarrow> Inl POSTING_REFUSED
      | Inr cur \<Rightarrow> Inr (db\<lparr>pd_payments := pd_payments db @ [p\<lparr>pp_currency_code := cur\<rparr>]\<rparr>))"

definition applyDrawerDelta :: "string \<Rightarrow> string \<Rightarrow> amount \<Rightarrow> partner_db \<Rightarrow> settle_error + partner_db" where
  "applyDrawerDelta drawer currencyCode delta db =
     (case postingCurrency drawer currencyCode of
        Inl _ \<Rightarrow> Inl POSTING_REFUSED
      | Inr cur \<Rightarrow> Inr (db\<lparr>pd_drawers := (pd_drawers db)((drawer, cur) := pd_drawers db (drawer, cur) + delta)\<rparr>))"

fun post_legs :: "partner_env \<Rightarrow> nat \<Rightarrow> (settle_payer \<times> settle_leg) list \<Rightarrow> partner_db \<Rightarrow> settle_error + partner_db" where
  "post_legs e txn [] db = Inr db"
| "post_legs e txn (pl # pls) db =
     (let leg = snd pl;
          row = \<lparr>pp_transaction_id = txn, pp_method = sl_method leg, pp_drawer_name = leg_drawer e leg,
                 pp_currency_code = leg_currency leg, pp_amount = signed_leg pl, pp_is_change = (sl_direction leg = Some LEG_OUT)\<rparr>
      in case insertPaymentRow row db of
           Inl err \<Rightarrow> Inl err
         | Inr db1 \<Rightarrow>
             (case applyDrawerDelta (leg_drawer e leg) (leg_currency leg) (signed_leg pl) db1 of
                Inl err \<Rightarrow> Inl err
              | Inr db2 \<Rightarrow> post_legs e txn pls db2))"

section \<open>Forgiven amounts\<close>

definition recordDiscount :: "partner_env \<Rightarrow> partner_ledger_row \<Rightarrow> partner_db \<Rightarrow> partner_db" where
  "recordDiscount e entry db =
     (let magnitude = \<bar>pl_amount entry\<bar>;
          sign = (if pl_direction entry = CREDIT then -1 else 1);
          (txn, db1) = createTransaction
             \<lparr>tn_id = 0, tn_type = ''COUNTERPARTY_DISCOUNT'', tn_source_table = ''partner_ledger'', tn_source_id = pl_id entry,
              tn_amount_usd = 0, tn_amount_lbp = 0,
              tn_profit_usd = sign * (if pl_currency entry = ''USD'' then magnitude else 0),
              tn_profit_lbp = sign * (if pl_currency entry = ''LBP'' then magnitude else 0),
              tn_exchange_rate = market_rate e, tn_active = True, tn_reverses_id = None\<rparr> db
      in linkTransaction (pl_id entry) txn db1)"

definition discount_side :: "PartnerSettleUnit list \<Rightarrow> day_plan \<Rightarrow> PartnerSide" where
  "discount_side units p =
     (case find (\<lambda>t. at_source t = WAIVE) (as_takes (dp_alloc p)) of
        None \<Rightarrow> CREDIT
      | Some t \<Rightarrow> (case unit_by_id units (at_id t) of None \<Rightarrow> CREDIT | Some u \<Rightarrow> if su_remaining u < 0 then DEBIT else CREDIT))"

definition discount_entry :: "PartnerSettleDaysInput \<Rightarrow> PartnerSettleUnit list \<Rightarrow> nat \<Rightarrow> day_plan \<Rightarrow> CreateLedgerEntryData" where
  "discount_entry d units anchorId p =
     \<lparr>ce_partner_id = sd_partnerId d, ce_transaction_type = Some ''DISCOUNT'',
      ce_reference_table = Some ''partner_ledger'', ce_reference_id = Some anchorId,
      ce_amount = waiveApplied p, ce_currency = currency_text (dp_currency p), ce_direction = discount_side units p,
      ce_notes = (case sec_forgive (dp_section p) of
                    Some f \<Rightarrow> (case fg_reason f of Some r \<Rightarrow> Some r | None \<Rightarrow> trimmed_notes d)
                  | None \<Rightarrow> trimmed_notes d),
      ce_created_at = None, ce_applyCoverage = False, ce_skipCoverage = True\<rparr>"

fun discount_rows ::
    "partner_env \<Rightarrow> PartnerSettleDaysInput \<Rightarrow> PartnerSettleUnit list \<Rightarrow> nat \<Rightarrow> day_plan list \<Rightarrow> partner_db
      \<Rightarrow> partner_ledger_row option list \<times> partner_db" where
  "discount_rows e d units anchorId [] db = ([], db)"
| "discount_rows e d units anchorId (p # ps) db =
     (if waiveApplied p \<le> EPS (dp_currency p)
      then (let (rows, db1) = discount_rows e d units anchorId ps db in (None # rows, db1))
      else let (row, db1) = addLedgerEntry e (discount_entry d units anchorId p) db;
               (rows, db2) = discount_rows e d units anchorId ps (recordDiscount e row db1)
           in (Some row # rows, db2))"

section \<open>Coverage\<close>

definition cover_source :: "AccountSettleCoverageSource \<Rightarrow> PartnerCoverageSource" where
  "cover_source src = (if src = WAIVE then COVER_WAIVE else if src = NETTING then COVER_NETTING else COVER_PAYMENT)"

definition settle_cover :: "nat \<Rightarrow> nat \<Rightarrow> nat \<Rightarrow> PartnerCurrency \<Rightarrow> nat \<Rightarrow> PartnerSide \<Rightarrow> amount \<Rightarrow> PartnerCoverageSource \<Rightarrow> bool \<Rightarrow> PartnerCoverageWrite" where
  "settle_cover txn anchorId partnerId c row side amt source closes =
     \<lparr>cw_transaction_id = Some txn, cw_settlement_ledger_id = anchorId, cw_partner_ledger_id = row, cw_partner_id = partnerId,
      cw_currency = c, cw_side = side, cw_amount = amt, cw_source = source, cw_closes_row = closes\<rparr>"

definition take_writes :: "PartnerSettleUnit list \<Rightarrow> nat \<Rightarrow> nat \<Rightarrow> nat \<Rightarrow> day_plan \<Rightarrow> PartnerCoverageWrite list" where
  "take_writes units txn anchorId partnerId p =
     concat (map (\<lambda>t. case unit_by_id units (at_id t) of
         None \<Rightarrow> []
       | Some u \<Rightarrow> [settle_cover txn anchorId partnerId (dp_currency p) (su_id u) (partnerCoverSide (su_remaining u)) (at_amount t)
                      (cover_source (at_source t)) (list_ex (\<lambda>r. snd r = su_id u) (as_closed (dp_alloc p)))])
       (as_takes (dp_alloc p)))"

definition own_writes :: "nat \<Rightarrow> nat \<Rightarrow> nat \<Rightarrow> day_plan \<Rightarrow> partner_ledger_row \<Rightarrow> PartnerCoverageWrite list" where
  "own_writes txn anchorId partnerId p own =
     (if moneyApplied p > EPS (dp_currency p)
      then [settle_cover txn anchorId partnerId (dp_currency p) (pl_id own) (pl_direction own) (moneyApplied p) COVER_PAYMENT False]
      else [])"

definition discount_writes :: "nat \<Rightarrow> nat \<Rightarrow> nat \<Rightarrow> day_plan \<Rightarrow> partner_ledger_row option \<Rightarrow> PartnerCoverageWrite list" where
  "discount_writes txn anchorId partnerId p disc =
     (case disc of None \<Rightarrow> []
      | Some r \<Rightarrow> [settle_cover txn anchorId partnerId (dp_currency p) (pl_id r) (pl_direction r) (waiveApplied p) COVER_DISCOUNT True])"

definition day_writes ::
    "PartnerSettleUnit list \<Rightarrow> nat \<Rightarrow> nat \<Rightarrow> nat \<Rightarrow> day_plan list \<Rightarrow> partner_ledger_row list \<Rightarrow> partner_ledger_row option list \<Rightarrow> PartnerCoverageWrite list" where
  "day_writes units txn anchorId partnerId plans owns discs =
     concat (map (\<lambda>(p, own, disc). take_writes units txn anchorId partnerId p @ own_writes txn anchorId partnerId p own
                                     @ discount_writes txn anchorId partnerId p disc)
       (zip plans (zip owns discs)))"

section \<open>The operation\<close>

definition settleDays :: "partner_env \<Rightarrow> PartnerSettleDaysInput \<Rightarrow> partner_db \<Rightarrow> settle_error + nat \<times> partner_db" where
  "settleDays e d db =
     (case settle_plans e d db of
        Inl err \<Rightarrow> Inl err
      | Inr plans \<Rightarrow>
          (let units = loadUnits e (sd_partnerId d) db;
               (owns, db1) = settle_rows e d None plans db;
               anchorId = pl_id (hd owns);
               (txn, db2) = createTransaction (settlement_txn e d plans anchorId) db1
           in case post_legs e txn (all_legs plans) db2 of
                Inl err \<Rightarrow> Inl err
              | Inr db3 \<Rightarrow>
                  (let (discs, db4) = discount_rows e d units anchorId plans db3
                   in Inr (txn, writeCoverage e (day_writes units txn anchorId (sd_partnerId d) plans owns discs) db4))))"

end
