(* ===== verification/Partner_Units_Properties.thy ===== *)
theory Partner_Units_Properties
  imports Partner_Units
begin

text \<open>
  The units of a partner account: they partition the ledger rows, and what is open on them is the
  balance of the ledger less the coverage, up to the legacy amounts that no old payment can
  explain. The status of a row agrees with what is open on its unit.
\<close>

section \<open>Groups\<close>

definition tracked :: "PartnerUnitLedgerRow \<Rightarrow> bool" where
  "tracked r \<longleftrightarrow> pr_currency r = ''USD'' \<or> pr_currency r = ''LBP''"

definition full_key :: "PartnerUnitLedgerRow \<Rightarrow> string" where
  "full_key r = nat_text (pr_partner_id r) @ ''#'' @ partnerUnitGroupKey r"

definition groups_ok :: "(string \<times> PartnerUnitLedgerRow list) list \<Rightarrow> bool" where
  "groups_ok gs \<longleftrightarrow> (\<forall>g \<in> set gs. snd g \<noteq> [] \<and> (\<forall>r \<in> set (snd g). tracked r \<and> full_key r = fst g))"

lemma group_add_mset: "mset (concat (map snd (group_add k r gs))) = add_mset r (mset (concat (map snd gs)))"
  by (induction gs) auto

lemma group_add_cases:
  "g \<in> set (group_add k r gs) \<Longrightarrow> g \<in> set gs \<or> g = (k, [r]) \<or> (\<exists>h \<in> set gs. fst h = k \<and> g = (k, snd h @ [r]))"
  by (induction gs) (auto split: if_splits)

lemma group_add_ok:
  assumes "groups_ok gs" "tracked r"
  shows "groups_ok (group_add (full_key r) r gs)"
  unfolding groups_ok_def
proof (rule ballI)
  fix g assume "g \<in> set (group_add (full_key r) r gs)"
  from group_add_cases [OF this] consider "g \<in> set gs" | "g = (full_key r, [r])"
    | h where "h \<in> set gs" "fst h = full_key r" "g = (full_key r, snd h @ [r])" by blast
  then show "snd g \<noteq> [] \<and> (\<forall>x \<in> set (snd g). tracked x \<and> full_key x = fst g)"
  proof cases
    case (3 h)
    then have "\<forall>x \<in> set (snd h). tracked x \<and> full_key x = full_key r" using assms(1) by (metis groups_ok_def)
    with 3(3) assms(2) show ?thesis by auto
  qed (use assms in \<open>auto simp: groups_ok_def\<close>)
qed

lemma group_row_tracked:
  "group_row r gs = (if tracked r then group_add (full_key r) r gs else gs)"
  by (auto simp: group_row_def tracked_def full_key_def)

lemma group_rows_fold:
  "groups_ok gs \<Longrightarrow> groups_ok (fold group_row rows gs)
    \<and> mset (concat (map snd (fold group_row rows gs))) = mset (concat (map snd gs)) + mset (filter tracked rows)"
  by (induction rows arbitrary: gs) (simp_all add: group_row_tracked group_add_ok group_add_mset)

lemma unit_groups_ok: "groups_ok (unit_groups rows)"
  and unit_groups_mset: "mset (concat (map snd (unit_groups rows))) = mset (filter tracked rows)"
proof -
  have "groups_ok []" by (simp add: groups_ok_def)
  from group_rows_fold [OF this, of rows]
  show "groups_ok (unit_groups rows)" "mset (concat (map snd (unit_groups rows))) = mset (filter tracked rows)"
    by (simp_all add: unit_groups_def)
qed

lemma split_at_char:
  assumes "xs @ c # ys = xs' @ c # ys'" "c \<notin> set xs" "c \<notin> set xs'"
  shows "xs = xs' \<and> ys = ys'"
  using assms by (induction xs arbitrary: xs') (auto simp: Cons_eq_append_conv append_eq_Cons_conv)

lemma group_key_front:
  "\<exists>rest. partnerUnitGroupKey r = text_or (pr_transaction_type r) [] @ CHR ''|'' # pr_currency r @ CHR ''|'' # rest"
  by (auto simp: partnerUnitGroupKey_def Let_def)

text \<open>The type of a row is a name without a bar.\<close>

definition plain_type :: "PartnerUnitLedgerRow \<Rightarrow> bool" where
  "plain_type r \<longleftrightarrow> CHR ''|'' \<notin> set (text_or (pr_transaction_type r) [])"

lemma full_key_eq:
  assumes "full_key r = full_key r'" "tracked r" "tracked r'" "plain_type r" "plain_type r'"
  shows "pr_partner_id r = pr_partner_id r' \<and> pr_currency r = pr_currency r'"
proof -
  have n: "CHR ''#'' \<notin> set (nat_text n)" for n using nat_text_digits [of "CHR ''#''" n] by auto
  have "nat_text (pr_partner_id r) = nat_text (pr_partner_id r') \<and> partnerUnitGroupKey r = partnerUnitGroupKey r'"
    using assms(1) n by (intro split_at_char [where c = "CHR ''#''"]) (simp_all add: full_key_def)
  moreover obtain s s' where
    "partnerUnitGroupKey r = text_or (pr_transaction_type r) [] @ CHR ''|'' # pr_currency r @ CHR ''|'' # s"
    "partnerUnitGroupKey r' = text_or (pr_transaction_type r') [] @ CHR ''|'' # pr_currency r' @ CHR ''|'' # s'"
    using group_key_front by blast
  ultimately have "pr_currency r @ CHR ''|'' # s = pr_currency r' @ CHR ''|'' # s'"
    using assms(4,5) split_at_char unfolding plain_type_def by metis
  then have "pr_currency r = pr_currency r' \<and> s = s'"
    using assms(2,3) by (intro split_at_char [where c = "CHR ''|''"]) (auto simp: tracked_def)
  with \<open>nat_text _ = nat_text _ \<and> _\<close> show ?thesis by simp
qed

section \<open>The sums of a unit\<close>

definition signed_minor :: "PartnerCurrency \<Rightarrow> PartnerUnitLedgerRow \<Rightarrow> int" where
  "signed_minor c r = partner_toMinor (pr_amount r) c * sideSign (pr_direction r)"

definition legacy_minor :: "PartnerCurrency \<Rightarrow> PartnerUnitLedgerRow \<Rightarrow> int" where
  "legacy_minor c r = (if is_obligation_head r then \<bar>partner_toMinor (legacy_covered_amount r) c\<bar> else 0)"

lemma member_fold:
  "ms_net (fold (add_member ef c d) ms s) = ms_net s + sum_of (signed_minor c) ms
   \<and> ms_effect (fold (add_member ef c d) ms s) = ms_effect s + sum_of (\<lambda>r. ef (pr_id r)) ms
   \<and> ms_legacy (fold (add_member ef c d) ms s) = ms_legacy s + sum_of (legacy_minor c) ms"
  by (induction ms arbitrary: s) (simp_all add: add_member_def signed_minor_def legacy_minor_def)

definition unit_head :: "PartnerUnitLedgerRow list \<Rightarrow> PartnerUnitLedgerRow" where
  "unit_head grp = hd (js_sort byMemberId grp)"

lemma unit_head_in: "grp \<noteq> [] \<Longrightarrow> unit_head grp \<in> set grp"
  unfolding unit_head_def by (metis hd_in_set length_0_conv length_js_sort set_js_sort)

lemma unit_of_group_sums:
  fixes ef :: "nat \<Rightarrow> int" and pw :: "nat \<Rightarrow> bool" and grp :: "PartnerUnitLedgerRow list"
  defines "w \<equiv> unit_of_group ef pw grp"
  shows "netMinor w = sum_of (signed_minor (su_currency w)) grp" "effectMinor w = sum_of (\<lambda>r. ef (pr_id r)) grp"
    "legacyMinor w = sum_of (legacy_minor (su_currency w)) grp"
    "su_partner_id w = pr_partner_id (unit_head grp)" "su_currency w = head_currency (unit_head grp)"
    "mset (member_ids w) = mset (map pr_id grp)" "attrMinor w = 0"
    "legacyPayer w \<longleftrightarrow> unit_class w = PAYER \<and> \<not> list_ex pw (member_ids w)"
  using member_fold [of ef "su_currency w" "su_direction w" "js_sort byMemberId grp"]
  by (simp_all add: w_def unit_of_group_def Let_def unit_head_def list_ex_iff)

text \<open>Rows and units of a partner in a currency.\<close>

definition row_of :: "nat \<Rightarrow> PartnerCurrency \<Rightarrow> PartnerUnitLedgerRow \<Rightarrow> bool" where
  "row_of p c r \<longleftrightarrow> pr_partner_id r = p \<and> tracked r \<and> head_currency r = c"

definition unit_of :: "nat \<Rightarrow> PartnerCurrency \<Rightarrow> 'a PartnerSettleUnit_scheme \<Rightarrow> bool" where
  "unit_of p c u \<longleftrightarrow> su_partner_id u = p \<and> su_currency u = c"

lemma unit_rows:
  assumes "g \<in> set (unit_groups rows)" "\<forall>r \<in> set rows. plain_type r" "r \<in> set (snd g)"
  shows "unit_of p c (unit_of_group ef pw (snd g)) \<longleftrightarrow> row_of p c r"
proof -
  have ok: "snd g \<noteq> []" "\<And>x. x \<in> set (snd g) \<Longrightarrow> tracked x \<and> full_key x = fst g"
    using unit_groups_ok [of rows] assms(1) by (auto simp: groups_ok_def)
  have "set (concat (map snd (unit_groups rows))) = set (filter tracked rows)"
    by (rule mset_eq_setD [OF unit_groups_mset])
  then have plain: "plain_type x" if "x \<in> set (snd g)" for x using that assms(1,2) by auto
  have h: "unit_head (snd g) \<in> set (snd g)" by (rule unit_head_in [OF ok(1)])
  have "pr_partner_id (unit_head (snd g)) = pr_partner_id r \<and> pr_currency (unit_head (snd g)) = pr_currency r"
    using ok(2) [OF h] ok(2) [OF assms(3)] plain [OF h] plain [OF assms(3)] by (intro full_key_eq) auto
  then show ?thesis using ok(2) [OF assms(3)]
    by (auto simp: unit_of_def row_of_def unit_of_group_sums head_currency_def)
qed

lemma filter_groups:
  assumes "\<And>g r. g \<in> set gs \<Longrightarrow> r \<in> set (snd g) \<Longrightarrow> P g \<longleftrightarrow> Q r"
  shows "filter Q (concat (map snd gs)) = concat (map snd (filter P gs))"
  using assms by (induction gs) (auto simp: filter_empty_conv intro!: filter_True)

lemma unit_sum:
  fixes f :: "PartnerUnitLedgerRow \<Rightarrow> int"
  assumes "\<forall>r \<in> set rows. plain_type r"
    and "\<And>g. g \<in> set (unit_groups rows) \<Longrightarrow> unit_of p c (unit_of_group ef pw (snd g))
      \<Longrightarrow> F (unit_of_group ef pw (snd g)) = sum_of f (snd g)"
  shows "sum_of F (filter (unit_of p c) (map (\<lambda>g. unit_of_group ef pw (snd g)) (unit_groups rows)))
    = sum_of f (filter (row_of p c) rows)"
proof -
  let ?P = "\<lambda>g. unit_of p c (unit_of_group ef pw (snd g))"
  let ?gs = "unit_groups rows"
  have "sum_of F (filter (unit_of p c) (map (\<lambda>g. unit_of_group ef pw (snd g)) ?gs))
      = sum_of (\<lambda>g. sum_of f (snd g)) (filter ?P ?gs)"
    using assms(2) by (auto simp: filter_map comp_def intro!: arg_cong [where f = sum_list] map_cong)
  also have "\<dots> = sum_of f (concat (map snd (filter ?P ?gs)))" by (simp add: sum_of_concat comp_def)
  also have "concat (map snd (filter ?P ?gs)) = filter (row_of p c) (concat (map snd ?gs))"
    using unit_rows [OF _ assms(1)] by (intro filter_groups [symmetric]) blast
  also have "sum_of f \<dots> = sum_of f (filter (row_of p c) (filter tracked rows))"
    using unit_groups_mset [of rows] by (intro sum_of_mset_eq) (metis mset_filter)
  also have "filter (row_of p c) (filter tracked rows) = filter (row_of p c) rows"
    by (auto simp: row_of_def intro: filter_cong)
  finally show ?thesis .
qed

section \<open>Legacy attribution\<close>

definition payer_key :: "unit_work \<Rightarrow> pool_key" where
  "payer_key u = (su_partner_id u, su_currency u, other_side (su_direction u))"

definition bare :: "unit_work \<Rightarrow> unit_work" where
  "bare u = u\<lparr>attrMinor := 0\<rparr>"

definition attributed :: "pool_key \<Rightarrow> unit_work \<Rightarrow> int" where
  "attributed k u = (if payer_key u = k then attrMinor u else 0)"

definition room :: "pool_key \<Rightarrow> unit_work \<Rightarrow> int" where
  "room k u = (if payer_key u = k then own_room u else 0)"

lemma bare_eqD:
  assumes "bare u = bare v"
  shows "PartnerSettleUnit.truncate u = PartnerSettleUnit.truncate v" "netMinor u = netMinor v" "effectMinor u = effectMinor v"
    "legacyMinor u = legacyMinor v" "legacyPayer u = legacyPayer v" "su_partner_id u = su_partner_id v"
    "su_currency u = su_currency v" "su_direction u = su_direction v" "own_room u = own_room v" "payer_key u = payer_key v"
    "unit_class u = unit_class v" "member_ids u = member_ids v"
  using assms by (cases u, cases v; simp add: bare_def own_room_def payer_key_def PartnerSettleUnit.truncate_def)+

lemma truncate_su_id: "PartnerSettleUnit.truncate u = PartnerSettleUnit.truncate v \<Longrightarrow> su_id u = su_id v"
  by (cases u, cases v) (simp add: PartnerSettleUnit.truncate_def)

lemma attribute_spec:
  assumes "distinct payers" "\<forall>i \<in> set payers. i < length us \<and> attrMinor (us ! i) = 0"
  shows "map bare (attribute payers pools us) = map bare us
    \<and> (\<forall>i < length us. i \<notin> set payers \<longrightarrow> attribute payers pools us ! i = us ! i)
    \<and> (\<forall>i \<in> set payers. 0 \<le> attrMinor (attribute payers pools us ! i) \<and> attrMinor (attribute payers pools us ! i) \<le> own_room (us ! i))
    \<and> sum_of (attributed k) (attribute payers pools us)
      = sum_of (attributed k) us + min (max 0 (pools k)) (sum_of (\<lambda>i. room k (us ! i)) payers)"
  using assms
proof (induction payers arbitrary: pools us)
  case (Cons i payers)
  define p where "p = us ! i"
  define pool where "pool = pools (payer_key p)"
  have i: "i < length us" "attrMinor p = 0" using Cons.prems by (auto simp: p_def)
  have rooms: "0 \<le> sum_of (\<lambda>j. room k (us ! j)) payers" by (rule sum_list_nonneg) (auto simp: room_def own_room_def)
  show ?case
  proof (cases "pool \<le> 0")
    case True
    then have "attribute (i # payers) pools us = attribute payers pools us"
      by (simp add: Let_def pool_def p_def payer_key_def)
    moreover have "min (max 0 (pools k)) (room k p + sum_of (\<lambda>j. room k (us ! j)) payers)
        = min (max 0 (pools k)) (sum_of (\<lambda>j. room k (us ! j)) payers)"
      using True rooms by (auto simp: room_def pool_def own_room_def)
    ultimately show ?thesis
      using Cons.IH [of us pools] Cons.prems i by (auto simp: p_def own_room_def)
  next
    case False
    define tk where "tk = min pool (own_room p)"
    define us1 where "us1 = us[i := p\<lparr>attrMinor := tk\<rparr>]"
    define pools1 where "pools1 = pools(payer_key p := pool - tk)"
    have st: "attribute (i # payers) pools us = attribute payers pools1 us1"
      using False by (simp add: Let_def pool_def p_def payer_key_def tk_def us1_def pools1_def)
    have other: "us1 ! j = us ! j" if "j \<in> set payers" for j
      using that Cons.prems(1) unfolding us1_def by (metis distinct.simps(2) nth_list_update_neq)
    have IH: "map bare (attribute payers pools1 us1) = map bare us1"
      "\<forall>j < length us1. j \<notin> set payers \<longrightarrow> attribute payers pools1 us1 ! j = us1 ! j"
      "\<forall>j \<in> set payers. 0 \<le> attrMinor (attribute payers pools1 us1 ! j) \<and> attrMinor (attribute payers pools1 us1 ! j) \<le> own_room (us1 ! j)"
      "sum_of (attributed k) (attribute payers pools1 us1)
        = sum_of (attributed k) us1 + min (max 0 (pools1 k)) (sum_of (\<lambda>j. room k (us1 ! j)) payers)"
      using Cons.IH [of us1 pools1] Cons.prems other by (auto simp: us1_def)
    have bare: "map bare us1 = map bare us"
      using i by (simp add: us1_def map_update bare_def p_def list_update_same_conv)
    have tk: "0 \<le> tk" "tk \<le> own_room p" using False by (auto simp: tk_def own_room_def)
    have s1: "sum_of (attributed k) us1 = sum_of (attributed k) us + (if payer_key p = k then tk else 0)"
    proof -
      have "sum_of (attributed k) us1 = sum_of (attributed k) us + attributed k (p\<lparr>attrMinor := tk\<rparr>) - attributed k p"
        using i(1) sum_list_bump [of i "map (attributed k) us" "attributed k (p\<lparr>attrMinor := tk\<rparr>) - attributed k p"]
        by (simp add: us1_def map_update p_def)
      then show ?thesis using i(2) by (simp add: attributed_def payer_key_def)
    qed
    have "sum_of (\<lambda>j. room k (us1 ! j)) payers = sum_of (\<lambda>j. room k (us ! j)) payers" by (rule sum_of_cong) (simp add: other)
    then have "sum_of (attributed k) (attribute payers pools1 us1) = sum_of (attributed k) us
        + min (max 0 (pools k)) (room k p + sum_of (\<lambda>j. room k (us ! j)) payers)"
      using IH(4) s1 False rooms tk by (auto simp: pools1_def room_def pool_def tk_def min_def max_def)
    moreover have "attribute payers pools1 us1 ! i = p\<lparr>attrMinor := tk\<rparr>"
      using IH(2) Cons.prems(1) i by (simp add: us1_def)
    ultimately show ?thesis
      using st IH(1,2,3) bare tk other Cons.prems by (auto simp: p_def us1_def)
  qed
qed simp

lemma legacy_pools_sum:
  "legacy_pools us k = sum_of (\<lambda>u. if (su_partner_id u, su_currency u, su_direction u) = k then legacyMinor u else 0) us"
proof -
  have "fold add_pool us q k = q k + sum_of (\<lambda>u. if (su_partner_id u, su_currency u, su_direction u) = k then legacyMinor u else 0) us" for q
    by (induction us arbitrary: q) (auto simp: add_pool_def Let_def)
  then show ?thesis by (simp add: legacy_pools_def)
qed

lemma sum_over_indices: "sum_of (\<lambda>i. g (xs ! i)) (filter (\<lambda>i. P (xs ! i)) [0..<length xs]) = sum_of (\<lambda>x. if P x then g x else (0 :: int)) xs"
proof -
  have "sum_of (\<lambda>i. g (xs ! i)) (filter (\<lambda>i. P (xs ! i)) [0..<length xs])
      = sum_of (\<lambda>i. if P (xs ! i) then g (xs ! i) else 0) [0..<length xs]"
    by (simp add: sum_list_map_filter')
  then show ?thesis by (simp add: map_nth_upt [where g = "\<lambda>x. if P x then g x else 0"])
qed

lemma attribute_legacy_spec:
  assumes "\<forall>u \<in> set us. attrMinor u = 0 \<and> 0 \<le> legacyMinor u"
  shows "map bare (attribute_legacy us) = map bare us"
    and "\<forall>u \<in> set (attribute_legacy us). 0 \<le> attrMinor u \<and> attrMinor u \<le> own_room u"
    and "sum_of (attributed k) (attribute_legacy us)
      = min (legacy_pools us k) (sum_of (\<lambda>u. if legacyPayer u then room k u else 0) us)"
proof -
  define payers where "payers = js_sort (\<lambda>i j. unit_cmp (us ! i) (us ! j)) (filter (\<lambda>i. legacyPayer (us ! i)) [0..<length us])"
  have ok: "distinct payers" "\<forall>i \<in> set payers. i < length us \<and> attrMinor (us ! i) = 0"
    using assms by (auto simp: payers_def)
  note sp = attribute_spec [OF ok, of "legacy_pools us" k]
  have zero: "sum_of (attributed k) us = 0" using assms by (intro sum_of_zero) (simp add: attributed_def)
  have rooms: "sum_of (\<lambda>i. room k (us ! i)) payers = sum_of (\<lambda>u. if legacyPayer u then room k u else 0) us"
    unfolding payers_def by (simp add: sum_over_indices)
  have pool: "0 \<le> legacy_pools us k" using assms unfolding legacy_pools_sum by (intro sum_list_nonneg) auto
  have nonneg: "0 \<le> sum_of (\<lambda>u. if legacyPayer u then room k u else 0) us"
    by (rule sum_list_nonneg) (auto simp: room_def own_room_def)
  consider "\<not> list_ex (\<lambda>u. legacyMinor u \<noteq> 0) us" | "attribute_legacy us = attribute payers (legacy_pools us) us"
    unfolding attribute_legacy_def payers_def by presburger
  then have *: "map bare (attribute_legacy us) = map bare us
    \<and> (\<forall>i < length us. 0 \<le> attrMinor (attribute_legacy us ! i) \<and> attrMinor (attribute_legacy us ! i) \<le> own_room (us ! i))
    \<and> sum_of (attributed k) (attribute_legacy us) = min (legacy_pools us k) (sum_of (\<lambda>u. if legacyPayer u then room k u else 0) us)"
  proof cases
    case 1
    then have "legacy_pools us k = 0" unfolding legacy_pools_sum by (intro sum_of_zero) (auto simp: list_ex_iff)
    with 1 show ?thesis using assms zero nonneg by (auto simp: attribute_legacy_def own_room_def)
  next
    case 2
    have "0 \<le> attrMinor (attribute payers (legacy_pools us) us ! i) \<and> attrMinor (attribute payers (legacy_pools us) us ! i) \<le> own_room (us ! i)"
      if "i < length us" for i
      using sp assms that by (cases "i \<in> set payers") (auto simp: own_room_def)
    then show ?thesis using sp zero rooms pool by (simp add: 2)
  qed
  then show b: "map bare (attribute_legacy us) = map bare us"
    and "sum_of (attributed k) (attribute_legacy us) = min (legacy_pools us k) (sum_of (\<lambda>u. if legacyPayer u then room k u else 0) us)"
    by blast+
  have len: "length (attribute_legacy us) = length us" using b by (rule map_eq_imp_length_eq)
  have "own_room (attribute_legacy us ! i) = own_room (us ! i)" if "i < length us" for i
    using b len that by (metis bare_eqD(9) nth_map)
  with * len show "\<forall>u \<in> set (attribute_legacy us). 0 \<le> attrMinor u \<and> attrMinor u \<le> own_room u"
    by (auto simp: in_set_conv_nth)
qed

section \<open>The balance\<close>

definition remMinor :: "unit_work \<Rightarrow> int" where
  "remMinor u = netMinor u - effectMinor u - (legacyMinor u + attrMinor u) * sideSign (su_direction u)"

lemma partner_fromMinor_times: "partner_fromMinor m c * partner_minorFactor c = of_int m"
  by (simp add: partner_fromMinor_def partner_minorFactor_def)

lemma remMinor_eq: "netMinor u - (effectMinor u + (legacyMinor u + attrMinor u) * sideSign (su_direction u)) = remMinor u"
  by (simp add: remMinor_def)

lemma finish_unit_fields:
  "su_remaining (finish_unit u) * partner_minorFactor (su_currency u) = of_int (remMinor u)"
  "su_net (finish_unit u) * partner_minorFactor (su_currency u) = of_int (netMinor u)"
  "legacy_obligation (finish_unit u) * partner_minorFactor (su_currency u) = of_int (legacyMinor u)"
  "legacy_attributed (finish_unit u) * partner_minorFactor (su_currency u) = of_int (attrMinor u)"
  "su_partner_id (finish_unit u) = su_partner_id u" "su_currency (finish_unit u) = su_currency u"
  "su_direction (finish_unit u) = su_direction u" "unit_class (finish_unit u) = unit_class u" "member_ids (finish_unit u) = member_ids u"
  by (simp_all only: finish_unit_def Let_def remMinor_eq PartnerSettleUnit.simps PartnerSettleUnit.truncate_def
      partner_fromMinor_times)

text \<open>The legacy amount of the bookings of a side, and the old payments of the other side that can explain it.\<close>

definition legacy_of :: "PartnerSide \<Rightarrow> PartnerSettleUnit \<Rightarrow> amount" where
  "legacy_of d u = (if su_direction u = d then legacy_obligation u else 0)"

definition old_payment_of :: "(nat \<Rightarrow> bool) \<Rightarrow> PartnerSide \<Rightarrow> PartnerSettleUnit \<Rightarrow> amount" where
  "old_payment_of pw d u =
     (if su_direction u = other_side d \<and> unit_class u = PAYER \<and> \<not> list_ex pw (member_ids u)
      then max 0 (su_net u * of_int (sideSign (su_direction u))) else 0)"

definition unexplained_legacy :: "(nat \<Rightarrow> bool) \<Rightarrow> PartnerSettleUnit list \<Rightarrow> PartnerSide \<Rightarrow> amount" where
  "unexplained_legacy pw us d = max 0 (sum_of (legacy_of d) us - sum_of (old_payment_of pw d) us)"

lemma sum_same_bare:
  assumes "map bare vs = map bare us" "\<And>u v. bare u = bare v \<Longrightarrow> F u = F v"
  shows "map F vs = map F us"
  using assms(1)
proof (induction vs arbitrary: us)
  case (Cons v vs)
  then obtain u us' where "us = u # us'" "bare v = bare u" "map bare vs = map bare us'" by (cases us) auto
  with Cons.IH assms(2) [of v u] show ?case by simp
qed simp

lemma side_split: "(\<Sum>u \<leftarrow> us. f u * sideSign (su_direction u))
    = sum_of (\<lambda>u. if su_direction u = DEBIT then f u else 0) us - sum_of (\<lambda>u. if su_direction u = CREDIT then f u else (0 :: int)) us"
  by (induction us) (auto simp: sideSign_def intro: PartnerSide.exhaust)

lemma filter_bare: "map bare vs = map bare us \<Longrightarrow> map bare (filter (unit_of p c) vs) = map bare (filter (unit_of p c) us)"
proof (induction vs arbitrary: us)
  case (Cons v vs)
  then obtain u us' where us: "us = u # us'" "bare v = bare u" "map bare vs = map bare us'" by (cases us) auto
  then have "unit_of p c v = unit_of p c u" using bare_eqD [OF us(2)] by (simp add: unit_of_def)
  with Cons.IH [OF us(3)] us show ?case by simp
qed simp

lemma attributed_side:
  "sum_of (\<lambda>u. if su_direction u = d then attrMinor u else 0) (filter (unit_of p c) us)
    = sum_of (attributed (p, c, other_side d)) us"
  unfolding sum_list_map_filter'
  by (rule sum_of_cong) (auto simp: attributed_def payer_key_def unit_of_def other_side_def intro: PartnerSide.exhaust)

lemma collect_ok:
  assumes "u \<in> set (collect_units rows coverage pw)"
  shows "attrMinor u = 0 \<and> 0 \<le> legacyMinor u \<and> (legacyPayer u \<longleftrightarrow> unit_class u = PAYER \<and> \<not> list_ex pw (member_ids u))"
proof -
  obtain grp where u: "u = unit_of_group (effectByRow coverage) pw grp" using assms by (auto simp: collect_units_def)
  have "0 \<le> sum_of (legacy_minor (su_currency u)) grp" by (rule sum_list_nonneg) (auto simp: legacy_minor_def)
  then show ?thesis using unit_of_group_sums(3,7,8) [of "effectByRow coverage" pw grp] u by metis
qed

lemma collect_sums:
  fixes p :: nat and c :: PartnerCurrency and coverage :: "PartnerUnitCoverage list" and pw :: "nat \<Rightarrow> bool"
  assumes "\<forall>r \<in> set rows. plain_type r"
  defines "T \<equiv> filter (unit_of p c) (collect_units rows coverage pw)"
  shows "sum_of netMinor T - sum_of effectMinor T
    = sum_of (\<lambda>r. signed_minor c r - effectByRow coverage (pr_id r)) (filter (row_of p c) rows)"
proof -
  have "sum_of (\<lambda>u. netMinor u - effectMinor u) T
      = sum_of (\<lambda>r. signed_minor c r - effectByRow coverage (pr_id r)) (filter (row_of p c) rows)"
    unfolding T_def collect_units_def
    by (rule unit_sum [OF assms(1)]) (auto simp: unit_of_group_sums(1,2) unit_of_def sum_list_subtractf)
  then show ?thesis by (simp add: sum_list_subtractf)
qed

lemma room_of_partner:
  "sum_of (\<lambda>u. if legacyPayer u then room (p, c, d) u else 0) us
    = sum_of (\<lambda>u. if legacyPayer u \<and> su_direction u = other_side d then own_room u else 0) (filter (unit_of p c) us)"
  unfolding sum_list_map_filter'
  by (rule sum_of_cong) (auto simp: room_def payer_key_def unit_of_def other_side_def intro: PartnerSide.exhaust)

lemma pool_of_partner:
  "legacy_pools us (p, c, d) = sum_of (\<lambda>u. if su_direction u = d then legacyMinor u else 0) (filter (unit_of p c) us)"
  unfolding sum_list_map_filter' legacy_pools_sum
  by (rule sum_of_cong) (auto simp: unit_of_def)

lemma open_minor:
  fixes p :: nat and c :: PartnerCurrency and coverage :: "PartnerUnitCoverage list" and pw :: "nat \<Rightarrow> bool"
  assumes "\<forall>r \<in> set rows. plain_type r"
  defines "T \<equiv> filter (unit_of p c) (collect_units rows coverage pw)"
    and "S \<equiv> filter (unit_of p c) (attribute_legacy (collect_units rows coverage pw))"
  defines "L \<equiv> \<lambda>d. sum_of (\<lambda>u. if su_direction u = d then legacyMinor u else 0) T"
    and "R \<equiv> \<lambda>d. sum_of (\<lambda>u. if legacyPayer u \<and> su_direction u = other_side d then own_room u else 0) T"
  shows "sum_of remMinor S = sum_of (\<lambda>r. signed_minor c r - effectByRow coverage (pr_id r)) (filter (row_of p c) rows)
    - (max 0 (L DEBIT - R DEBIT) - max 0 (L CREDIT - R CREDIT))"
proof -
  let ?ws = "collect_units rows coverage pw"
  have ok: "\<forall>u \<in> set ?ws. attrMinor u = 0 \<and> 0 \<le> legacyMinor u" using collect_ok by blast
  have b: "map bare S = map bare T" unfolding S_def T_def by (rule filter_bare [OF attribute_legacy_spec(1) [OF ok]])
  have "map netMinor S = map netMinor T" "map effectMinor S = map effectMinor T"
    and legacy: "map (\<lambda>u. legacyMinor u * sideSign (su_direction u)) S = map (\<lambda>u. legacyMinor u * sideSign (su_direction u)) T"
    using sum_same_bare [OF b, of netMinor] sum_same_bare [OF b, of effectMinor]
      sum_same_bare [OF b, of "\<lambda>u. legacyMinor u * sideSign (su_direction u)"] bare_eqD by metis+
  moreover have "sum_of remMinor S = sum_of netMinor S - sum_of effectMinor S - (\<Sum>u \<leftarrow> S. legacyMinor u * sideSign (su_direction u))
      - (\<Sum>u \<leftarrow> S. attrMinor u * sideSign (su_direction u))"
    by (induction S) (simp_all add: remMinor_def distrib_right)
  moreover have "(\<Sum>u \<leftarrow> T. legacyMinor u * sideSign (su_direction u)) = L DEBIT - L CREDIT" by (simp add: side_split L_def)
  moreover have A: "sum_of (\<lambda>u. if su_direction u = other_side d then attrMinor u else 0) S = min (L d) (R d)" for d
  proof -
    have "sum_of (\<lambda>u. if su_direction u = other_side d then attrMinor u else 0) S
        = sum_of (attributed (p, c, d)) (attribute_legacy ?ws)"
      unfolding S_def attributed_side by (cases d) (simp_all add: other_side_def)
    also have "\<dots> = min (L d) (R d)"
      unfolding attribute_legacy_spec(3) [OF ok] room_of_partner pool_of_partner L_def R_def T_def ..
    finally show ?thesis .
  qed
  moreover have "(\<Sum>u \<leftarrow> S. attrMinor u * sideSign (su_direction u)) = min (L CREDIT) (R CREDIT) - min (L DEBIT) (R DEBIT)"
    using A [of DEBIT] A [of CREDIT] by (simp add: side_split other_side_def)
  moreover have "sum_of netMinor T - sum_of effectMinor T
      = sum_of (\<lambda>r. signed_minor c r - effectByRow coverage (pr_id r)) (filter (row_of p c) rows)"
    unfolding T_def by (rule collect_sums [OF assms(1)])
  ultimately show ?thesis by (simp add: min_def max_def)
qed

lemma unit_open_facts:
  assumes "u \<in> set (attribute_legacy (collect_units rows coverage pw))"
  shows "legacyPayer u \<longleftrightarrow> unit_class u = PAYER \<and> \<not> list_ex pw (member_ids u)"
    and "0 \<le> attrMinor u" "attrMinor u \<le> own_room u"
proof -
  let ?ws = "collect_units rows coverage pw"
  have ok: "\<forall>u \<in> set ?ws. attrMinor u = 0 \<and> 0 \<le> legacyMinor u" using collect_ok by blast
  have "bare u \<in> set (map bare ?ws)" using assms unfolding attribute_legacy_spec(1) [OF ok, symmetric] by simp
  then obtain v where "v \<in> set ?ws" "bare u = bare v" by auto
  with collect_ok [of v rows coverage pw] show "legacyPayer u \<longleftrightarrow> unit_class u = PAYER \<and> \<not> list_ex pw (member_ids u)"
    using bare_eqD [of u v] by simp
  show "0 \<le> attrMinor u" "attrMinor u \<le> own_room u" using attribute_legacy_spec(2) [OF ok] assms by blast+
qed

lemma partner_minorFactor_pos [simp]: "0 < partner_minorFactor c"
  by (simp add: partner_minorFactor_def)

lemma max_0_of_int: "max 0 x * f = of_int (max 0 m)" if "x * f = of_int m" "0 < f" for x f :: rat
proof -
  have "0 \<le> x \<longleftrightarrow> 0 \<le> (of_int m :: rat)" using that by (metis zero_le_mult_iff less_imp_le mult_nonneg_nonneg not_less)
  then show ?thesis using that by (auto simp: max_def)
qed

lemma own_room_amount:
  "max 0 (su_net (finish_unit u) * of_int (sideSign (su_direction u))) * partner_minorFactor (su_currency u) = of_int (own_room u)"
proof -
  have "su_net (finish_unit u) * of_int (sideSign (su_direction u)) * partner_minorFactor (su_currency u)
      = of_int (netMinor u * sideSign (su_direction u))"
    using finish_unit_fields(2) [of u] by (simp add: ac_simps)
  from max_0_of_int [OF this] show ?thesis by (simp add: own_room_def)
qed

lemma bare_legacy:
  "bare u = bare v \<Longrightarrow> (if su_direction u = d then legacyMinor u else 0) = (if su_direction v = d then legacyMinor v else 0)"
  using bare_eqD(4,8) [of u v] by simp

lemma bare_room:
  "bare u = bare v \<Longrightarrow> (if legacyPayer u \<and> su_direction u = d then own_room u else 0)
    = (if legacyPayer v \<and> su_direction v = d then own_room v else 0)"
  using bare_eqD(5,8,9) [of u v] by simp

lemma scaled_sum: "(\<And>u. u \<in> set us \<Longrightarrow> f u * k = of_int (g u)) \<Longrightarrow> sum_of f us * k = (of_int (sum_of g us) :: rat)"
  by (induction us) (simp_all add: distrib_right)

lemma unexplained_minor:
  fixes p :: nat and c :: PartnerCurrency and rows :: "PartnerUnitLedgerRow list"
    and coverage :: "PartnerUnitCoverage list" and pw :: "nat \<Rightarrow> bool"
  defines "S \<equiv> filter (unit_of p c) (attribute_legacy (collect_units rows coverage pw))"
  shows "unexplained_legacy pw (map finish_unit S) d * partner_minorFactor c
    = of_int (max 0 (sum_of (\<lambda>u. if su_direction u = d then legacyMinor u else 0) S
        - sum_of (\<lambda>u. if legacyPayer u \<and> su_direction u = other_side d then own_room u else 0) S))"
proof -
  have c: "su_currency u = c" if "u \<in> set S" for u using that by (auto simp: S_def unit_of_def)
  have "legacy_of d (finish_unit u) * partner_minorFactor c = of_int (if su_direction u = d then legacyMinor u else 0)"
    if "u \<in> set S" for u
    using finish_unit_fields(3) [of u] c [OF that] by (simp add: legacy_of_def finish_unit_fields)
  then have L: "sum_of (legacy_of d) (map finish_unit S) * partner_minorFactor c
      = of_int (sum_of (\<lambda>u. if su_direction u = d then legacyMinor u else 0) S)"
    using scaled_sum [of S "\<lambda>u. legacy_of d (finish_unit u)"] by (simp add: comp_def)
  have "old_payment_of pw d (finish_unit u) * partner_minorFactor c
      = of_int (if legacyPayer u \<and> su_direction u = other_side d then own_room u else 0)" if "u \<in> set S" for u
    using own_room_amount [of u] c [OF that] unit_open_facts(1) [of u rows coverage pw] that
    by (auto simp: old_payment_of_def finish_unit_fields S_def)
  then have "sum_of (old_payment_of pw d) (map finish_unit S) * partner_minorFactor c
      = of_int (sum_of (\<lambda>u. if legacyPayer u \<and> su_direction u = other_side d then own_room u else 0) S)"
    using scaled_sum [of S "\<lambda>u. old_payment_of pw d (finish_unit u)"] by (simp add: comp_def)
  with L show ?thesis unfolding unexplained_legacy_def by (intro max_0_of_int) (simp_all add: left_diff_distrib)
qed

lemma build_members:
  "mset (concat (map member_ids (buildPartnerSettleUnits rows coverage pw))) = mset (map pr_id (filter tracked rows))"
proof -
  let ?ws = "collect_units rows coverage pw"
  have ok: "\<forall>u \<in> set ?ws. attrMinor u = 0 \<and> 0 \<le> legacyMinor u" using collect_ok by blast
  have "map member_ids (attribute_legacy ?ws) = map member_ids ?ws"
    by (rule sum_same_bare [OF attribute_legacy_spec(1) [OF ok]]) (rule bare_eqD(12))
  then have "map member_ids (buildPartnerSettleUnits rows coverage pw)
      = map (\<lambda>g. member_ids (unit_of_group (effectByRow coverage) pw (snd g))) (unit_groups rows)"
    by (simp add: buildPartnerSettleUnits_def collect_units_def comp_def finish_unit_fields)
  moreover have "mset (concat (map (\<lambda>g. member_ids (unit_of_group ef pw (snd g))) gs)) = mset (map pr_id (concat (map snd gs)))" for ef gs
    by (induction gs) (simp_all add: unit_of_group_sums(6))
  ultimately show ?thesis using unit_groups_mset [of rows] by (metis mset_map)
qed

lemma open_is_balance:
  fixes p :: nat and c :: PartnerCurrency and coverage :: "PartnerUnitCoverage list" and pw :: "nat \<Rightarrow> bool"
  assumes "\<forall>r \<in> set rows. plain_type r"
  defines "units \<equiv> buildPartnerSettleUnits rows coverage pw"
    and "us \<equiv> filter (unit_of p c) (buildPartnerSettleUnits rows coverage pw)"
  shows "mset (concat (map member_ids units)) = mset (map pr_id (filter tracked rows))
    \<and> sum_of su_remaining us * partner_minorFactor c
      = of_int (\<Sum>r \<leftarrow> filter (row_of p c) rows. signed_minor c r - effectByRow coverage (pr_id r))
        - (unexplained_legacy pw us DEBIT - unexplained_legacy pw us CREDIT) * partner_minorFactor c
    \<and> (\<forall>u \<in> set us. 0 \<le> legacy_attributed u \<and> legacy_attributed u \<le> max 0 (su_net u * of_int (sideSign (su_direction u))))"
proof -
  let ?ws = "collect_units rows coverage pw"
  define S where "S = filter (unit_of p c) (attribute_legacy ?ws)"
  have us: "us = map finish_unit S"
    by (simp add: us_def buildPartnerSettleUnits_def filter_map S_def comp_def unit_of_def [abs_def] finish_unit_fields)
  have c: "su_currency u = c" if "u \<in> set S" for u using that by (auto simp: S_def unit_of_def)
  have ok: "\<forall>u \<in> set ?ws. attrMinor u = 0 \<and> 0 \<le> legacyMinor u" using collect_ok by blast
  have b: "map bare S = map bare (filter (unit_of p c) ?ws)"
    unfolding S_def by (rule filter_bare [OF attribute_legacy_spec(1) [OF ok]])
  have same: "sum_of (\<lambda>u. if su_direction u = d then legacyMinor u else 0) (filter (unit_of p c) ?ws)
      = sum_of (\<lambda>u. if su_direction u = d then legacyMinor u else 0) S"
    "sum_of (\<lambda>u. if legacyPayer u \<and> su_direction u = other_side d then own_room u else 0) (filter (unit_of p c) ?ws)
      = sum_of (\<lambda>u. if legacyPayer u \<and> su_direction u = other_side d then own_room u else 0) S" for d
    by (rule arg_cong [where f = sum_list], rule sum_same_bare [OF b [symmetric]], erule bare_legacy bare_room)+
  have "su_remaining (finish_unit u) * partner_minorFactor c = of_int (remMinor u)" if "u \<in> set S" for u
    using finish_unit_fields(1) [of u] c [OF that] by simp
  then have "sum_of su_remaining us * partner_minorFactor c = of_int (sum_of remMinor S)"
    unfolding us using scaled_sum [of S "\<lambda>u. su_remaining (finish_unit u)"] by (simp add: comp_def)
  moreover note open_minor [OF assms(1), of p c coverage pw, unfolded same, folded S_def]
  ultimately have "sum_of su_remaining us * partner_minorFactor c
      = of_int (\<Sum>r \<leftarrow> filter (row_of p c) rows. signed_minor c r - effectByRow coverage (pr_id r))
        - (unexplained_legacy pw us DEBIT - unexplained_legacy pw us CREDIT) * partner_minorFactor c"
    unfolding us S_def unexplained_minor left_diff_distrib by (simp add: S_def [symmetric])
  moreover have "0 \<le> legacy_attributed u \<and> legacy_attributed u \<le> max 0 (su_net u * of_int (sideSign (su_direction u)))"
    if "u \<in> set us" for u
  proof -
    obtain w where w: "u = finish_unit w" "w \<in> set S" using \<open>u \<in> set us\<close> us by auto
    then have "0 \<le> attrMinor w" "attrMinor w \<le> own_room w" using unit_open_facts(2,3) [of w rows coverage pw] by (simp_all add: S_def)
    then have "0 \<le> legacy_attributed u * partner_minorFactor (su_currency w)"
      "legacy_attributed u * partner_minorFactor (su_currency w) \<le> max 0 (su_net u * of_int (sideSign (su_direction u))) * partner_minorFactor (su_currency w)"
      unfolding w(1) finish_unit_fields(4,7) own_room_amount by simp_all
    then show ?thesis using partner_minorFactor_pos [of "su_currency w"]
      by (simp add: zero_le_mult_iff mult_le_cancel_right_pos)
  qed
  ultimately show ?thesis using build_members by (simp add: units_def)
qed

text \<open>C12. What is open on a partner account is its balance. The units partition the ledger rows; in each
  currency the open amounts of a partner's units add up to the ledger rows less the coverage
  written on them, corrected only by the legacy amounts of a side that no old payment of the other side can
  explain; and no old payment explains more than its own amount.\<close>

theorem partner_open_is_balance:
  fixes p :: nat and c :: PartnerCurrency and coverage :: "PartnerUnitCoverage list" and pw :: "nat \<Rightarrow> bool"
  assumes "\<forall>r \<in> set rows. plain_type r"
  defines "units \<equiv> buildPartnerSettleUnits rows coverage pw"
    and "us \<equiv> filter (unit_of p c) (buildPartnerSettleUnits rows coverage pw)"
  shows "mset (concat (map member_ids units)) = mset (map pr_id (filter tracked rows))
    \<and> sum_of su_remaining us * partner_minorFactor c
      = of_int (\<Sum>r \<leftarrow> filter (row_of p c) rows. signed_minor c r - effectByRow coverage (pr_id r))
        - (unexplained_legacy pw us DEBIT - unexplained_legacy pw us CREDIT) * partner_minorFactor c
    \<and> (\<forall>u \<in> set us. 0 \<le> legacy_attributed u \<and> legacy_attributed u \<le> max 0 (su_net u * of_int (sideSign (su_direction u))))"
  unfolding units_def us_def by (rule open_is_balance [OF assms(1)])

text \<open>A booking of 100 USD with 40 of legacy coverage, an old payment of 30 and 20 of new coverage.\<close>

definition sample_ledger_row :: "nat \<Rightarrow> string \<Rightarrow> amount \<Rightarrow> PartnerSide \<Rightarrow> amount \<Rightarrow> PartnerUnitLedgerRow" where
  "sample_ledger_row i typ amt d legacy =
     \<lparr>pr_id = i, pr_partner_id = 7, pr_transaction_type = Some typ, pr_reference_table = None, pr_reference_id = None,
      tx_source_table = None, tx_source_id = None, pr_amount = amt, pr_currency = ''USD'', pr_direction = d,
      pr_created_at = ''2026-01-01'', pr_sort_at = ''2026-01-01'', pr_shop_day = ''2026-01-01'', is_cash_moved = False,
      is_obligation_head = (typ = ''FOR''), legacy_covered_amount = legacy, pr_notes = None, pr_source_txn_id = None\<rparr>"

definition sample_ledger :: "PartnerUnitLedgerRow list" where
  "sample_ledger = [sample_ledger_row 1 ''FOR'' 100 DEBIT 40, sample_ledger_row 2 ''SETTLEMENT'' 30 CREDIT 0]"

definition sample_cover :: "PartnerUnitCoverage list" where
  "sample_cover = [\<lparr>pc_partner_ledger_id = 1, pc_currency = SettleUSD, pc_side = DEBIT, pc_amount = 20\<rparr>]"

theorem partner_open_is_balance_witness:
  "sum_of su_remaining (filter (unit_of 7 SettleUSD) (buildPartnerSettleUnits sample_ledger sample_cover (\<lambda>_. False))) * 100
    = of_int (\<Sum>r \<leftarrow> filter (row_of 7 SettleUSD) sample_ledger. signed_minor SettleUSD r - effectByRow sample_cover (pr_id r)) - 1000
   \<and> map su_remaining (buildPartnerSettleUnits sample_ledger sample_cover (\<lambda>_. False)) = [40, 0]"
proof -
  have "\<forall>r \<in> set sample_ledger. plain_type r" by code_simp
  note partner_open_is_balance [OF this, where p = 7 and c = SettleUSD and coverage = sample_cover and pw = "\<lambda>_. False"]
  moreover have "unexplained_legacy (\<lambda>_. False) (filter (unit_of 7 SettleUSD) (buildPartnerSettleUnits sample_ledger sample_cover (\<lambda>_. False))) DEBIT = 10"
    by code_simp
  moreover have "unexplained_legacy (\<lambda>_. False) (filter (unit_of 7 SettleUSD) (buildPartnerSettleUnits sample_ledger sample_cover (\<lambda>_. False))) CREDIT = 0"
    by code_simp
  moreover have "map su_remaining (buildPartnerSettleUnits sample_ledger sample_cover (\<lambda>_. False)) = [40, 0]" by code_simp
  ultimately show ?thesis by (simp add: partner_minorFactor_def)
qed

section \<open>The row a unit stands for\<close>

lemma unit_head_row:
  assumes "u \<in> set (buildPartnerSettleUnits rows coverage pw)"
  shows "\<exists>r \<in> set rows. tracked r \<and> su_id u = pr_id r \<and> su_partner_id u = pr_partner_id r \<and> su_currency u = head_currency r"
proof -
  let ?ws = "collect_units rows coverage pw"
  have ok: "\<forall>u \<in> set ?ws. attrMinor u = 0 \<and> 0 \<le> legacyMinor u" using collect_ok by blast
  obtain w where w: "u = finish_unit w" "w \<in> set (attribute_legacy ?ws)" using assms by (auto simp: buildPartnerSettleUnits_def)
  then have "bare w \<in> set (map bare ?ws)" unfolding attribute_legacy_spec(1) [OF ok, symmetric] by simp
  then obtain g where g: "g \<in> set (unit_groups rows)" "bare w = bare (unit_of_group (effectByRow coverage) pw (snd g))"
    by (auto simp: collect_units_def)
  have ne: "snd g \<noteq> []" and tr: "\<And>x. x \<in> set (snd g) \<Longrightarrow> tracked x"
    using unit_groups_ok [of rows] g(1) by (auto simp: groups_ok_def)
  have "set (concat (map snd (unit_groups rows))) = set (filter tracked rows)" by (rule mset_eq_setD [OF unit_groups_mset])
  then have r: "unit_head (snd g) \<in> set rows" "tracked (unit_head (snd g))" using unit_head_in [OF ne] g(1) tr by auto
  have "su_id w = su_id (unit_of_group (effectByRow coverage) pw (snd g))" using g(2) by (metis bare_eqD(1) truncate_su_id)
  then have "su_id u = pr_id (unit_head (snd g))"
    by (simp add: w(1) finish_unit_def Let_def PartnerSettleUnit.truncate_def unit_of_group_def unit_head_def)
  moreover have "su_partner_id u = pr_partner_id (unit_head (snd g))" "su_currency u = head_currency (unit_head (snd g))"
    using bare_eqD(6,7) [OF g(2)] by (simp_all add: w(1) finish_unit_fields unit_of_group_sums(4,5))
  ultimately show ?thesis using r by blast
qed

lemma unit_remaining_whole:
  assumes "u \<in> set (buildPartnerSettleUnits rows coverage pw)"
  shows "\<exists>m :: int. su_remaining u * partner_minorFactor (su_currency u) = of_int m"
proof -
  obtain w where "u = finish_unit w" using assms by (auto simp: buildPartnerSettleUnits_def)
  then show ?thesis using finish_unit_fields(1) [of w] by (auto simp: finish_unit_fields)
qed

end
