(* ===== verification/Partner_Settlement_Safety.thy ===== *)
theory Partner_Settlement_Safety
  imports Partner_Settlement Partner_Units_Properties
begin

text \<open>
  The invariant of the partner books: the rows that coverage names exist, and the active coverage that
  a settlement and the rows linked to it wrote adds up to zero in each currency. Every operation keeps it.
\<close>

section \<open>Whole amounts\<close>

lemma partner_round_scaled: "partner_round x c = of_int (math_round (x * partner_minorFactor c)) / partner_minorFactor c"
  by (simp add: partner_round_def partner_minorFactor_def)

interpretation whole: rounding "\<lambda>x. partner_round x c" "1 / partner_minorFactor c" for c
  unfolding partner_round_scaled
  using rounding_round_scaled [of "partner_minorFactor c"] by (simp add: round_scaled_def [abs_def])

lemma round_shift: "partner_round x c = x \<Longrightarrow> partner_round (x + y) c = x + partner_round y c"
proof -
  assume "partner_round x c = x"
  then obtain n :: int where "x = of_int n * (1 / partner_minorFactor c)" using whole.fixed_iff by blast
  then have x: "x * partner_minorFactor c = of_int n" by (simp add: partner_minorFactor_def)
  have "math_round (of_int n + y * partner_minorFactor c) = n + math_round (y * partner_minorFactor c)"
    by (simp add: math_round_def add.assoc)
  then show ?thesis using x by (simp add: partner_round_scaled distrib_right add_divide_distrib) (metis x nonzero_mult_div_cancel_right partner_minorFactor_pos less_numeral_extra(3))
qed

lemma whole_eps: "partner_round x c = x \<Longrightarrow> 0 \<le> x \<Longrightarrow> x \<le> EPS c \<longleftrightarrow> x = 0"
proof -
  assume "partner_round x c = x" "0 \<le> x"
  then obtain n :: int where n: "x = of_int n * (1 / partner_minorFactor c)" using whole.fixed_iff by blast
  have "0 \<le> n" using \<open>0 \<le> x\<close> n by (simp add: zero_le_divide_iff partner_minorFactor_def split: if_splits)
  then have "n = 0 \<or> 1 \<le> n" by auto
  then show ?thesis using n by (auto simp: EPS_def partner_minorFactor_def)
qed

section \<open>The books\<close>

definition effect_of :: "'a PartnerCoverageWrite_scheme \<Rightarrow> amount" where
  "effect_of w = partnerCoverageEffect (cw_side w) (cw_amount w)"

text \<open>A settlement row or discount that points at another ledger row belongs to that row's settlement.\<close>

definition linked_to :: "partner_ledger_row \<Rightarrow> nat option" where
  "linked_to r =
     (if (pl_transaction_type r = Some ''SETTLEMENT'' \<or> pl_transaction_type r = Some ''DISCOUNT'')
         \<and> pl_reference_table r = Some ''partner_ledger'' then pl_reference_id r else None)"

definition anchor_in :: "partner_ledger_row list \<Rightarrow> nat \<Rightarrow> nat" where
  "anchor_in rows s =
     (case find (\<lambda>r. pl_id r = s) rows of None \<Rightarrow> s | Some r \<Rightarrow> (case linked_to r of None \<Rightarrow> s | Some a \<Rightarrow> a))"

definition plain_row :: "partner_ledger_row \<Rightarrow> bool" where
  "plain_row r \<longleftrightarrow> CHR ''|'' \<notin> set (text_or (pl_transaction_type r) [])"

definition ledger_ok :: "partner_ledger_row list \<Rightarrow> nat \<Rightarrow> bool" where
  "ledger_ok rows n \<longleftrightarrow>
     distinct (map pl_id rows) \<and> (\<forall>r \<in> set rows. pl_id r \<le> n \<and> plain_row r
       \<and> (\<forall>a. linked_to r = Some a \<longrightarrow> (\<exists>q \<in> set rows. pl_id q = a \<and> pl_partner_id q = pl_partner_id r \<and> linked_to q = None)))"

definition cover_ok :: "partner_ledger_row list \<Rightarrow> 'a PartnerCoverageWrite_scheme \<Rightarrow> bool" where
  "cover_ok rows x \<longleftrightarrow>
     partner_round (cw_amount x) (cw_currency x) = cw_amount x
     \<and> (\<exists>r \<in> set rows. pl_id r = cw_partner_ledger_id x \<and> pl_partner_id r = cw_partner_id x \<and> pl_currency r = currency_text (cw_currency x))
     \<and> (\<exists>r \<in> set rows. pl_id r = cw_settlement_ledger_id x \<and> pl_partner_id r = cw_partner_id x)"

definition part_of :: "partner_ledger_row list \<Rightarrow> nat \<Rightarrow> PartnerCurrency \<Rightarrow> 'a PartnerCoverageWrite_scheme \<Rightarrow> bool" where
  "part_of rows a c x \<longleftrightarrow> anchor_in rows (cw_settlement_ledger_id x) = a \<and> cw_currency x = c"

definition net_effect :: "partner_ledger_row list \<Rightarrow> coverage_row list \<Rightarrow> nat \<Rightarrow> PartnerCurrency \<Rightarrow> amount" where
  "net_effect rows cs a c = sum_of (\<lambda>x. if \<not> cv_is_reversed x \<and> part_of rows a c x then effect_of x else 0) cs"

definition rows_ok :: "partner_ledger_row list \<Rightarrow> coverage_row list \<Rightarrow> nat \<Rightarrow> bool" where
  "rows_ok rows cs n \<longleftrightarrow> distinct (map cv_id cs) \<and> (\<forall>x \<in> set cs. cv_id x \<le> n \<and> cover_ok rows x)"

definition coverage_ok :: "partner_ledger_row list \<Rightarrow> coverage_row list \<Rightarrow> nat \<Rightarrow> bool" where
  "coverage_ok rows cs n \<longleftrightarrow> rows_ok rows cs n \<and> (\<forall>a c. net_effect rows cs a c = 0)"

definition books_ok :: "partner_db \<Rightarrow> bool" where
  "books_ok db \<longleftrightarrow>
     ledger_ok (pd_ledger db) (ledger_counter db) \<and> coverage_ok (pd_ledger db) (pd_coverage db) (coverage_counter db)"

section \<open>Changes that leave the books alone\<close>

text \<open>The covered and the legacy amount of a ledger row are stamps for the profit reports.\<close>

definition bare_row :: "partner_ledger_row \<Rightarrow> partner_ledger_row" where
  "bare_row r = r\<lparr>pl_covered_amount := 0, pl_legacy_covered_amount := 0\<rparr>"

lemma bare_row_fields [simp]:
  "pl_id (bare_row r) = pl_id r" "pl_partner_id (bare_row r) = pl_partner_id r" "pl_currency (bare_row r) = pl_currency r"
  "pl_direction (bare_row r) = pl_direction r" "pl_transaction_type (bare_row r) = pl_transaction_type r"
  "pl_reference_table (bare_row r) = pl_reference_table r" "pl_reference_id (bare_row r) = pl_reference_id r"
  "pl_amount (bare_row r) = pl_amount r"
  "linked_to (bare_row r) = linked_to r" "plain_row (bare_row r) = plain_row r"
  by (simp_all add: bare_row_def linked_to_def plain_row_def)

lemma anchor_bare: "anchor_in (map bare_row rows) s = anchor_in rows s"
  by (induction rows) (auto simp: anchor_in_def)

lemma ledger_ok_bare: "ledger_ok (map bare_row rows) n = ledger_ok rows n"
  by (simp add: ledger_ok_def comp_def)

lemma cover_ok_bare: "cover_ok (map bare_row rows) x = cover_ok rows x"
  by (simp add: cover_ok_def)

lemma coverage_ok_bare: "coverage_ok (map bare_row rows) cs n = coverage_ok rows cs n"
  by (simp add: coverage_ok_def rows_ok_def cover_ok_bare net_effect_def part_of_def anchor_bare)

definition same_books :: "partner_db \<Rightarrow> partner_db \<Rightarrow> bool" where
  "same_books db db' \<longleftrightarrow>
     map bare_row (pd_ledger db') = map bare_row (pd_ledger db) \<and> ledger_counter db' = ledger_counter db
     \<and> pd_coverage db' = pd_coverage db \<and> coverage_counter db' = coverage_counter db"

lemma same_books_refl [simp]: "same_books db db"
  by (simp add: same_books_def)

lemma same_books_trans: "same_books a b \<Longrightarrow> same_books b c \<Longrightarrow> same_books a c"
  by (simp add: same_books_def)

lemma same_books_ok: "same_books db db' \<Longrightarrow> books_ok db' = books_ok db"
  unfolding same_books_def books_ok_def by (metis ledger_ok_bare coverage_ok_bare)

lemma fold_same_books: "(\<And>x d. same_books d (f x d)) \<Longrightarrow> same_books db (fold f xs db)"
  by (induction xs arbitrary: db) (auto intro: same_books_trans)

lemma set_covered_same: "same_books db (set_covered i v db)"
  by (simp add: same_books_def set_covered_def bare_row_def)

lemma share_heads_same: "same_books db (share_heads c db0 left hs db)"
proof (induction hs arbitrary: left db)
  case (Cons h hs)
  show ?case unfolding share_heads.simps Let_def by (rule same_books_trans [OF set_covered_same Cons.IH])
qed simp

lemma sync_same: "same_books db (syncObligationCovered e p ids db)"
  by (auto simp: syncObligationCovered_def sync_unit_def Let_def intro!: fold_same_books share_heads_same)

lemma unwind_same: "same_books db (snd (unwindLegacy p c d b db))"
  unfolding unwindLegacy_def Let_def snd_conv by (rule fold_same_books) (simp add: same_books_def bare_row_def)

lemma unwind_all_same: "same_books (snd s) (snd (unwind_all p ls s))"
proof (induction ls arbitrary: s)
  case (Cons l ls)
  obtain ids db where s: "s = (ids, db)" by (cases s)
  obtain more db1 where u: "unwindLegacy p (lb_currency l) (lb_direction l) (lb_budget l) db = (more, db1)" by fastforce
  then have "same_books db db1" using unwind_same by (metis snd_conv)
  with Cons.IH [of "(ids @ more, db1)"] show ?case by (auto simp: s u intro: same_books_trans)
qed simp

section \<open>Writing coverage\<close>

definition rounded :: "PartnerCoverageWrite \<Rightarrow> PartnerCoverageWrite" where
  "rounded w = w\<lparr>cw_amount := partner_round (cw_amount w) (cw_currency w)\<rparr>"

definition new_cover :: "nat \<Rightarrow> PartnerCoverageWrite \<Rightarrow> coverage_row" where
  "new_cover n w = PartnerCoverageWrite.extend (rounded w) (coverage_row.fields n False)"

lemma new_cover_fields [simp]:
  "cv_id (new_cover n w) = n" "\<not> cv_is_reversed (new_cover n w)"
  "cw_settlement_ledger_id (new_cover n w) = cw_settlement_ledger_id w" "cw_partner_ledger_id (new_cover n w) = cw_partner_ledger_id w"
  "cw_partner_id (new_cover n w) = cw_partner_id w" "cw_currency (new_cover n w) = cw_currency w" "cw_side (new_cover n w) = cw_side w"
  "cw_amount (new_cover n w) = partner_round (cw_amount w) (cw_currency w)"
  "effect_of (new_cover n w) = effect_of (rounded w)" "part_of rows a c (new_cover n w) = part_of rows a c w"
  "cover_ok rows (new_cover n w) = cover_ok rows (rounded w)"
  by (simp_all add: new_cover_def PartnerCoverageWrite.defs coverage_row.defs rounded_def effect_of_def part_of_def cover_ok_def)

lemma insert_coverage_eq:
  "insert_coverage w db = (if partner_round (cw_amount w) (cw_currency w) \<le> EPS (cw_currency w) then db
     else db\<lparr>pd_coverage := pd_coverage db @ [new_cover (coverage_counter db + 1) w], coverage_counter := coverage_counter db + 1\<rparr>)"
  by (simp add: insert_coverage_def Let_def new_cover_def rounded_def)

lemma effect_zero: "cw_amount w = 0 \<Longrightarrow> effect_of w = 0"
  by (simp add: effect_of_def partnerCoverageEffect_def)

definition write_ok :: "partner_ledger_row list \<Rightarrow> PartnerCoverageWrite \<Rightarrow> bool" where
  "write_ok rows w \<longleftrightarrow> 0 \<le> cw_amount w \<and> cover_ok rows (rounded w)"

lemma skipped_effect:
  assumes "0 \<le> cw_amount w" "partner_round (cw_amount w) (cw_currency w) \<le> EPS (cw_currency w)"
  shows "effect_of (rounded w) = 0"
proof -
  have "partner_round (cw_amount w) (cw_currency w) = 0"
    using whole_eps [OF whole.rnd_idem] whole.rnd_nonneg [OF assms(1)] assms(2) by blast
  then show ?thesis by (simp add: effect_zero rounded_def)
qed

lemma insert_fold:
  assumes "\<forall>w \<in> set ws. write_ok (pd_ledger db) w" "rows_ok (pd_ledger db) (pd_coverage db) (coverage_counter db)"
  defines "db' \<equiv> fold insert_coverage ws db"
  shows "pd_ledger db' = pd_ledger db \<and> ledger_counter db' = ledger_counter db \<and> pd_txns db' = pd_txns db
    \<and> rows_ok (pd_ledger db) (pd_coverage db') (coverage_counter db')
    \<and> net_effect (pd_ledger db) (pd_coverage db') a c = net_effect (pd_ledger db) (pd_coverage db) a c
      + sum_of (\<lambda>w. if part_of (pd_ledger db) a c w then effect_of (rounded w) else 0) ws"
  using assms(1,2) unfolding db'_def
proof (induction ws arbitrary: db)
  case (Cons w ws)
  define db1 where "db1 = insert_coverage w db"
  have w: "write_ok (pd_ledger db) w" using Cons.prems(1) by simp
  have st: "pd_ledger db1 = pd_ledger db \<and> ledger_counter db1 = ledger_counter db \<and> pd_txns db1 = pd_txns db
    \<and> rows_ok (pd_ledger db) (pd_coverage db1) (coverage_counter db1)
    \<and> net_effect (pd_ledger db) (pd_coverage db1) a c = net_effect (pd_ledger db) (pd_coverage db) a c
      + (if part_of (pd_ledger db) a c w then effect_of (rounded w) else 0)"
  proof (cases "partner_round (cw_amount w) (cw_currency w) \<le> EPS (cw_currency w)")
    case True
    then have "effect_of (rounded w) = 0" using skipped_effect w by (simp add: write_ok_def)
    with True Cons.prems(2) show ?thesis by (simp add: db1_def insert_coverage_eq)
  next
    case False
    then show ?thesis using Cons.prems(2) w
      by (auto simp: db1_def insert_coverage_eq rows_ok_def net_effect_def write_ok_def dest: bspec)
  qed
  show ?case using Cons.IH [of db1] Cons.prems(1) st by (simp add: db1_def)
qed simp

lemma writeCoverage_balances:
  assumes "ledger_ok (pd_ledger db) (ledger_counter db)" "rows_ok (pd_ledger db) (pd_coverage db) (coverage_counter db)"
    and "\<forall>w \<in> set ws. write_ok (pd_ledger db) w"
    and "\<And>a c. net_effect (pd_ledger db) (pd_coverage db) a c
      + sum_of (\<lambda>w. if part_of (pd_ledger db) a c w then effect_of (rounded w) else 0) ws = 0"
  shows "books_ok (writeCoverage e ws db)"
proof -
  have "books_ok (fold insert_coverage ws db)"
    using insert_fold [OF assms(3,2)] assms(1,4) by (auto simp: books_ok_def coverage_ok_def)
  moreover have "same_books (fold insert_coverage ws db) (writeCoverage e ws db)"
    unfolding writeCoverage_def by (rule fold_same_books) (rule sync_same)
  ultimately show ?thesis using same_books_ok by blast
qed

lemma writeCoverage_ok:
  assumes "books_ok db" "\<forall>w \<in> set ws. write_ok (pd_ledger db) w"
    and "\<And>a c. sum_of (\<lambda>w. if part_of (pd_ledger db) a c w then effect_of (rounded w) else 0) ws = 0"
  shows "books_ok (writeCoverage e ws db)"
  using assms by (intro writeCoverage_balances) (auto simp: books_ok_def coverage_ok_def)

text \<open>All rows of a settlement carry its id, so the writes of one settlement have one anchor.\<close>

lemma one_anchor_sum:
  assumes "\<forall>w \<in> set ws. cw_settlement_ledger_id w = s"
    and "\<And>c. sum_of (\<lambda>w. if cw_currency w = c then effect_of (rounded w) else 0) ws = 0"
  shows "sum_of (\<lambda>w. if part_of rows a c w then effect_of (rounded w) else 0) ws = 0"
proof (cases "anchor_in rows s = a")
  case True
  then have "sum_of (\<lambda>w. if part_of rows a c w then effect_of (rounded w) else 0) ws
      = sum_of (\<lambda>w. if cw_currency w = c then effect_of (rounded w) else 0) ws"
    using assms(1) by (intro sum_of_cong) (simp add: part_of_def)
  then show ?thesis using assms(2) by simp
next
  case False
  then show ?thesis using assms(1) by (intro sum_of_zero) (simp add: part_of_def)
qed

section \<open>The units of a partner in the books\<close>

lemma currency_text_head: "tracked r \<Longrightarrow> pr_currency r = currency_text (head_currency r)"
  by (auto simp: tracked_def currency_text_def head_currency_def)

lemma loaded_row_in:
  assumes "r \<in> set (loadLedgerRows e p db)"
  obtains q where "q \<in> set (pd_ledger db)" "r = load_row e db q" "pl_partner_id q = p" "pl_currency q = ''USD'' \<or> pl_currency q = ''LBP''"
  using assms by (auto simp: loadLedgerRows_def)

lemma load_row_fields [simp]:
  "pr_id (load_row e db q) = pl_id q" "pr_partner_id (load_row e db q) = pl_partner_id q"
  "pr_currency (load_row e db q) = pl_currency q" "pr_transaction_type (load_row e db q) = pl_transaction_type q"
  "pr_amount (load_row e db q) = pl_amount q" "pr_direction (load_row e db q) = pl_direction q"
  by (simp_all add: load_row_def Let_def)

lemma unit_in_books:
  assumes "u \<in> set (loadUnits e p db)"
  shows "\<exists>q \<in> set (pd_ledger db). pl_id q = su_id u \<and> pl_partner_id q = p \<and> pl_currency q = currency_text (su_currency u)"
    and "partner_round (su_remaining u) (su_currency u) = su_remaining u"
proof -
  obtain r where r: "r \<in> set (loadLedgerRows e p db)" "tracked r" "su_id u = pr_id r" "su_currency u = head_currency r"
    using unit_head_row assms unfolding loadUnits_def by blast
  from r(1) obtain q where "q \<in> set (pd_ledger db)" "r = load_row e db q" "pl_partner_id q = p" by (rule loaded_row_in)
  then show "\<exists>q \<in> set (pd_ledger db). pl_id q = su_id u \<and> pl_partner_id q = p \<and> pl_currency q = currency_text (su_currency u)"
    using r currency_text_head [OF r(2)] by auto
  obtain m :: int where "su_remaining u * partner_minorFactor (su_currency u) = of_int m"
    using unit_remaining_whole assms unfolding loadUnits_def by blast
  then show "partner_round (su_remaining u) (su_currency u) = su_remaining u"
    unfolding partner_round_scaled by (simp add: partner_minorFactor_def field_simps split: if_splits)
qed

section \<open>The balance-based settlement\<close>

lemma whole_sum: "(\<And>x. x \<in> set xs \<Longrightarrow> partner_round (f x) c = f x) \<Longrightarrow> partner_round (sum_of f xs) c = sum_of f xs"
  by (induction xs) (auto simp: whole.rnd_zero intro: whole.fixed_add)

lemma rounded_takes_sum:
  assumes "0 \<le> eps" "\<And>r. r \<in> set rows \<Longrightarrow> partner_round (outstanding r) c = outstanding r"
  shows "sum_of (\<lambda>t. partner_round (ft_take t) c) (allocateFifo rows b eps) = partner_round (sum_of ft_take (allocateFifo rows b eps)) c"
proof (cases "allocateFifo rows b eps" rule: rev_cases)
  case Nil
  then show ?thesis by (simp add: whole.rnd_zero)
next
  case (snoc ts t)
  have "drawn_by (=) ts rows"
    using fifo_loop_full_before_last assms(1) snoc by (auto simp: allocateFifo_def split: if_splits)
  then have w: "partner_round (ft_take x) c = ft_take x" if "x \<in> set ts" for x
    using drawn_by_member [of "(=)" ts rows x] that assms(2) by force
  then have "sum_of (\<lambda>t. partner_round (ft_take t) c) ts = sum_of ft_take ts" by (intro sum_of_cong)
  with round_shift [OF whole_sum [of ts ft_take c]] w show ?thesis by (simp add: snoc)
qed

lemma EPS_pos: "0 < EPS c"
  by (simp add: EPS_def)

lemma effect_rounded:
  "effect_of (rounded w) = of_int (sideSign (cw_side w)) * partner_round (cw_amount w) (cw_currency w)"
  by (simp add: effect_of_def rounded_def partnerCoverageEffect_def)

lemma legacy_writes_balance:
  assumes "target = (if pl_direction entry = CREDIT then DEBIT else CREDIT)"
    and "sum_of (\<lambda>t. partner_round (ft_take t) c) ts = partner_round (sum_of ft_take ts) c"
  shows "sum_of (\<lambda>w. if cw_currency w = c' then effect_of (rounded w) else 0) (legacy_writes entry source c target ts) = 0"
proof (cases "c' = c")
  case True
  have "of_int (sideSign target) = - (of_int (sideSign (pl_direction entry)) :: rat)"
    using assms(1) by (cases "pl_direction entry") (simp_all add: sideSign_def)
  moreover have "sum_of (\<lambda>w. if cw_currency w = c' then effect_of (rounded w) else 0) (legacy_writes entry source c target ts)
      = of_int (sideSign target) * sum_of (\<lambda>t. partner_round (ft_take t) c) ts
        + of_int (sideSign (pl_direction entry)) * partner_round (sum_of ft_take ts) c"
    by (simp add: True legacy_writes_def effect_rounded comp_def sum_of_scale)
  ultimately show ?thesis using assms(2) by simp
next
  case False
  then show ?thesis by (intro sum_of_zero) (auto simp: legacy_writes_def)
qed

lemma write_okI:
  assumes "0 \<le> cw_amount w"
    and "\<exists>r \<in> set rows. pl_id r = cw_partner_ledger_id w \<and> pl_partner_id r = cw_partner_id w \<and> pl_currency r = currency_text (cw_currency w)"
    and "\<exists>r \<in> set rows. pl_id r = cw_settlement_ledger_id w \<and> pl_partner_id r = cw_partner_id w"
  shows "write_ok rows w"
  using assms by (simp add: write_ok_def cover_ok_def rounded_def whole.rnd_idem)

lemma applyLegacyPathCoverage_ok:
  assumes "books_ok db" "entry \<in> set (pd_ledger db)"
  shows "books_ok (applyLegacyPathCoverage e entry source db)"
proof -
  define c where "c = (if pl_currency entry = ''LBP'' then SettleLBP else SettleUSD)"
  define target where "target = (if pl_direction entry = CREDIT then DEBIT else CREDIT)"
  define fr where "fr = map (\<lambda>u. \<lparr>fo_id = su_id u, outstanding = \<bar>su_remaining u\<bar>\<rparr>) (legacy_targets e entry c target db)"
  define ts where "ts = allocateFifo fr \<bar>pl_amount entry\<bar> (EPS c)"
  consider "applyLegacyPathCoverage e entry source db = db"
    | "applyLegacyPathCoverage e entry source db = writeCoverage e (legacy_writes entry source c target ts) db"
      "pl_currency entry = ''USD'' \<or> pl_currency entry = ''LBP''"
    unfolding applyLegacyPathCoverage_def Let_def c_def [symmetric] target_def [symmetric] fr_def [symmetric] ts_def [symmetric] by metis
  then show ?thesis
  proof cases
    case 2
    have cur: "pl_currency entry = currency_text c" using 2(2) by (auto simp: c_def currency_text_def)
    have u: "u \<in> set (loadUnits e (pl_partner_id entry) db) \<and> su_currency u = c" if "u \<in> set (legacy_targets e entry c target db)" for u
      using that by (auto simp: legacy_targets_def)
    have whole: "partner_round (outstanding r) c = outstanding r" if row: "r \<in> set fr" for r
    proof -
      obtain x where x: "x \<in> set (legacy_targets e entry c target db)" "outstanding r = \<bar>su_remaining x\<bar>" using row by (auto simp: fr_def)
      then have "partner_round (su_remaining x) c = su_remaining x" using unit_in_books(2) [of x e "pl_partner_id entry" db] u [of x] by blast
      then show ?thesis using whole.fixed_diff [of 0 c "su_remaining x"] by (auto simp: x(2) abs_if whole.rnd_zero)
    qed
    have take: "0 \<le> ft_take t" "\<exists>q \<in> set (pd_ledger db). pl_id q = ft_id t \<and> pl_partner_id q = pl_partner_id entry \<and> pl_currency q = currency_text c"
      if "t \<in> set ts" for t
    proof -
      show "0 \<le> ft_take t" using fifo.take_pos [of t fr] EPS_pos [of c] that unfolding ts_def by force
      obtain r where "r \<in> set fr" "fo_id r = ft_id t" using fifo.take_from_row \<open>t \<in> set ts\<close> unfolding ts_def by blast
      then obtain x where "x \<in> set (legacy_targets e entry c target db)" "su_id x = ft_id t" by (auto simp: fr_def)
      then show "\<exists>q \<in> set (pd_ledger db). pl_id q = ft_id t \<and> pl_partner_id q = pl_partner_id entry \<and> pl_currency q = currency_text c"
        using unit_in_books(1) [of x e "pl_partner_id entry" db] u [of x] by auto
    qed
    have "0 \<le> sum_of ft_take ts" using take(1) by (rule sum_of_nonneg)
    then have "\<forall>w \<in> set (legacy_writes entry source c target ts). write_ok (pd_ledger db) w"
      using take assms(2) cur by (auto simp: legacy_writes_def intro!: write_okI)
    moreover have "sum_of (\<lambda>t. partner_round (ft_take t) c) ts = partner_round (sum_of ft_take ts) c"
      unfolding ts_def using EPS_pos [of c] whole by (intro rounded_takes_sum) simp_all
    from legacy_writes_balance [OF target_def this]
    have "sum_of (\<lambda>w. if part_of (pd_ledger db) a c' w then effect_of (rounded w) else 0) (legacy_writes entry source c target ts) = 0" for a c'
      by (intro one_anchor_sum [where s = "pl_id entry"]) (auto simp: legacy_writes_def)
    ultimately show ?thesis unfolding 2(1) by (rule writeCoverage_ok [OF assms(1)])
  qed (use assms(1) in simp)
qed

section \<open>New ledger rows\<close>

definition entry_link :: "CreateLedgerEntryData \<Rightarrow> nat option" where
  "entry_link d =
     (if (ce_transaction_type d = Some ''SETTLEMENT'' \<or> ce_transaction_type d = Some ''DISCOUNT'')
         \<and> ce_reference_table d = Some ''partner_ledger'' then ce_reference_id d else None)"

text \<open>What the callers give: a type without a bar, and a link only to a row of the same partner that is not itself linked.\<close>

definition entry_ok :: "partner_db \<Rightarrow> CreateLedgerEntryData \<Rightarrow> bool" where
  "entry_ok db d \<longleftrightarrow>
     CHR ''|'' \<notin> set (text_or (ce_transaction_type d) [])
     \<and> (\<forall>a. entry_link d = Some a \<longrightarrow> (\<exists>q \<in> set (pd_ledger db). pl_id q = a \<and> pl_partner_id q = ce_partner_id d \<and> linked_to q = None))"

lemma anchor_append: "s \<in> pl_id ` set rows \<Longrightarrow> anchor_in (rows @ new) s = anchor_in rows s"
proof -
  assume "s \<in> pl_id ` set rows"
  then obtain r where "find (\<lambda>r. pl_id r = s) rows = Some r" by (metis (mono_tags, lifting) find_None_iff imageE not_None_eq)
  moreover have "find P (xs @ ys) = find P xs" if "find P xs = Some y" for P xs ys and y :: partner_ledger_row
    using that by (induction xs) auto
  ultimately show ?thesis by (simp add: anchor_in_def)
qed

lemma cover_ok_append: "cover_ok rows x \<Longrightarrow> cover_ok (rows @ new) x"
  by (auto simp: cover_ok_def)

lemma net_effect_append:
  assumes "\<forall>x \<in> set cs. cover_ok rows x"
  shows "net_effect (rows @ new) cs a c = net_effect rows cs a c"
proof -
  have "cw_settlement_ledger_id x \<in> pl_id ` set rows" if "x \<in> set cs" for x using assms that by (force simp: cover_ok_def)
  then show ?thesis unfolding net_effect_def by (intro sum_of_cong) (simp add: part_of_def anchor_append)
qed

lemma insert_ledger_ok:
  assumes "books_ok db" "entry_ok db d" "insert_ledger e d db = (row, db1)"
  shows "books_ok db1 \<and> row \<in> set (pd_ledger db1) \<and> pd_coverage db1 = pd_coverage db \<and> pd_ledger db1 = pd_ledger db @ [row]
    \<and> pl_partner_id row = ce_partner_id d \<and> linked_to row = entry_link d \<and> pl_id row = ledger_counter db + 1
    \<and> pl_currency row = ce_currency d \<and> pl_direction row = ce_direction d"
proof -
  have row: "pl_id row = ledger_counter db + 1" "pl_partner_id row = ce_partner_id d" "linked_to row = entry_link d"
    "plain_row row \<longleftrightarrow> CHR ''|'' \<notin> set (text_or (ce_transaction_type d) [])"
    "pl_currency row = ce_currency d" "pl_direction row = ce_direction d"
    and db1: "db1 = db\<lparr>pd_ledger := pd_ledger db @ [row], ledger_counter := ledger_counter db + 1\<rparr>"
    using assms(3) by (auto simp: insert_ledger_def Let_def linked_to_def entry_link_def plain_row_def)
  have old: "ledger_ok (pd_ledger db) (ledger_counter db)" "rows_ok (pd_ledger db) (pd_coverage db) (coverage_counter db)"
    "net_effect (pd_ledger db) (pd_coverage db) a c = 0" for a c
    using assms(1) by (auto simp: books_ok_def coverage_ok_def)
  have "ledger_ok (pd_ledger db1) (ledger_counter db1)"
    using old(1) assms(2) row unfolding ledger_ok_def entry_ok_def db1 by (fastforce simp: le_Suc_eq)
  moreover have "coverage_ok (pd_ledger db1) (pd_coverage db1) (coverage_counter db1)"
    using old(2,3) net_effect_append [of "pd_coverage db" "pd_ledger db"] by (auto simp: coverage_ok_def rows_ok_def db1 cover_ok_append)
  ultimately show ?thesis using row by (auto simp: books_ok_def db1)
qed

lemma addLedgerEntry_ok:
  assumes "books_ok db" "entry_ok db d"
  shows "books_ok (snd (addLedgerEntry e d db))"
proof -
  obtain row db1 where i: "insert_ledger e d db = (row, db1)" by fastforce
  with insert_ledger_ok [OF assms i] show ?thesis
    by (auto simp: addLedgerEntry_def i intro!: applyLegacyPathCoverage_ok)
qed

section \<open>Undo\<close>

definition still_active :: "PartnerCurrency \<Rightarrow> coverage_row list \<Rightarrow> nat list \<times> PartnerCoverageWrite list \<Rightarrow> amount" where
  "still_active c rows s =
     sum_of (\<lambda>x. if cw_currency x = c \<and> cv_id x \<notin> set (fst s) then effect_of x else 0) rows
     + sum_of (\<lambda>w. if cw_currency w = c then effect_of (rounded w) else 0) (snd s)"

lemma relief_effect:
  assumes "partner_round k c = k"
  shows "of_int (sideSign (if k > 0 then CREDIT else DEBIT)) * partner_round \<bar>k\<bar> c = - k"
proof -
  have "partner_round \<bar>k\<bar> c = \<bar>k\<bar>" using whole.fixed_diff [OF whole.rnd_zero assms] assms by (auto simp: abs_if)
  then show ?thesis by (auto simp: sideSign_def)
qed

definition relief_ok :: "PartnerReversalPlan \<Rightarrow> partner_ledger_row list \<Rightarrow> PartnerCoverageWrite \<Rightarrow> bool" where
  "relief_ok plan ownRows w \<longleftrightarrow>
     0 \<le> cw_amount w \<and> cw_partner_id w = rp_partnerId plan \<and> cw_settlement_ledger_id w = hd (rp_ledgerIds plan)
     \<and> (\<exists>t \<in> set ownRows. pl_id t = cw_partner_ledger_id w \<and> pl_currency t = currency_text (cw_currency w))"

lemma relief_loop_spec:
  fixes plan :: PartnerReversalPlan and txn :: "nat option" and ownRows :: "partner_ledger_row list"
  assumes "distinct (map fst ks)" "\<forall>(c, k) \<in> set ks. still_active c rows s = k \<and> partner_round k c = k"
    and "\<forall>w \<in> set (snd s). cw_currency w \<notin> fst ` set ks" and ids: "inj_on cv_id (set rows)"
  defines "out \<equiv> relief_loop plan txn ownRows rows ks s"
  shows "(\<forall>c. still_active c rows out = (if c \<in> fst ` set ks then 0 else still_active c rows s))
    \<and> set (fst out) \<subseteq> set (fst s) \<union> cv_id ` set rows
    \<and> (\<forall>w \<in> set (snd out). w \<in> set (snd s) \<or> relief_ok plan ownRows w)"
  using assms(1-3) unfolding out_def
proof (induction ks arbitrary: s)
  case (Cons ck ks)
  obtain c k where ck: "ck = (c, k)" by (cases ck)
  obtain R W where s: "s = (R, W)" by (cases s)
  have k: "still_active c rows s = k" "partner_round k c = k" using Cons.prems(2) by (auto simp: ck)
  have none: "sum_of (\<lambda>w. if cw_currency w = c then effect_of (rounded w) else 0) W = 0"
    using Cons.prems(3) by (intro sum_of_zero) (auto simp: s ck)
  define s1 where "s1 = (if \<bar>k\<bar> \<le> EPS c then s else case relief_target ownRows c of
      None \<Rightarrow> (R @ map cv_id (filter (\<lambda>x. cw_currency x = c \<and> cv_id x \<notin> set R) rows), W)
    | Some t \<Rightarrow> (R, W @ [\<lparr>cw_transaction_id = txn, cw_settlement_ledger_id = hd (rp_ledgerIds plan),
                                  cw_partner_ledger_id = pl_id t, cw_partner_id = rp_partnerId plan, cw_currency = c,
                                  cw_side = (if k > 0 then CREDIT else DEBIT), cw_amount = \<bar>k\<bar>,
                                  cw_source = COVER_RELIEF, cw_closes_row = False\<rparr>]))"
  have st: "relief_loop plan txn ownRows rows (ck # ks) s = relief_loop plan txn ownRows rows ks s1"
    by (simp add: s ck s1_def Let_def k(2) split: option.splits)
  have zero: "still_active c rows s1 = 0"
  proof -
    consider "\<bar>k\<bar> \<le> EPS c" | "\<not> \<bar>k\<bar> \<le> EPS c" "relief_target ownRows c = None"
      | t where "\<not> \<bar>k\<bar> \<le> EPS c" "relief_target ownRows c = Some t" by (cases "relief_target ownRows c") auto
    then show ?thesis
    proof cases
      case 1
      have "partner_round \<bar>k\<bar> c = \<bar>k\<bar>" using whole.fixed_diff [OF whole.rnd_zero k(2)] k(2) by (auto simp: abs_if)
      with 1 whole_eps [of "\<bar>k\<bar>" c] k(1) show ?thesis by (simp add: s1_def)
    next
      case 2
      then show ?thesis using none by (auto simp: s1_def still_active_def intro!: sum_of_zero)
    next
      case (3 t)
      then show ?thesis using k relief_effect [OF k(2)] by (simp add: s1_def s still_active_def effect_rounded)
    qed
  qed
  have other: "still_active c' rows s1 = still_active c' rows s" if "c' \<noteq> c" for c'
    using that by (auto simp: s1_def s still_active_def split: option.splits intro!: sum_of_cong dest: inj_onD [OF ids])
  have sub: "set (fst s1) \<subseteq> set (fst s) \<union> cv_id ` set rows" by (auto simp: s1_def s split: option.splits)
  have rel: "\<forall>w \<in> set (snd s1). w \<in> set (snd s) \<or> (cw_currency w = c \<and> relief_ok plan ownRows w)"
    by (auto simp: s1_def s relief_target_def relief_ok_def find_Some_iff split: option.splits)
  have cn: "c \<notin> fst ` set ks" using Cons.prems(1) by (simp add: ck)
  have two: "still_active c' rows s1 = k' \<and> partner_round k' c' = k'" if m: "(c', k') \<in> set ks" for c' k'
  proof -
    have "c' \<noteq> c" using cn m by force
    with other [of c'] Cons.prems(2) m show ?thesis by fastforce
  qed
  have three: "cw_currency w \<notin> fst ` set ks" if m: "w \<in> set (snd s1)" for w
    using bspec [OF rel m] cn Cons.prems(3) by auto
  have pre: "distinct (map fst ks)" "\<forall>(c', k') \<in> set ks. still_active c' rows s1 = k' \<and> partner_round k' c' = k'"
    "\<forall>w \<in> set (snd s1). cw_currency w \<notin> fst ` set ks"
    using Cons.prems(1) two three by (simp, blast, blast)
  from Cons.IH [OF pre] show ?case unfolding st using zero other sub rel cn by (fastforce simp: ck)
next
  case Nil
  then show ?case by (cases s) auto
qed

definition kept_value :: "PartnerCurrency \<Rightarrow> (PartnerCurrency \<times> amount) list \<Rightarrow> amount" where
  "kept_value c ks = sum_of (\<lambda>k. if fst k = c then snd k else 0) ks"

lemma keep_add_keys: "fst ` set (keep_add c v ks) = insert c (fst ` set ks)"
  by (induction ks) auto

lemma keep_add_distinct: "distinct (map fst ks) \<Longrightarrow> distinct (map fst (keep_add c v ks))"
proof (induction ks)
  case (Cons k ks)
  then show ?case using keep_add_keys [of c v ks] by (auto simp flip: set_map)
qed simp

lemma keep_add_value: "kept_value c' (keep_add c v ks) = kept_value c' ks + (if c' = c then v else 0)"
  by (induction ks) (auto simp: kept_value_def)

lemma kept_value_lookup:
  "distinct (map fst ks) \<Longrightarrow> (c, k) \<in> set ks \<Longrightarrow> kept_value c ks = k"
proof (induction ks)
  case (Cons a ks)
  show ?case
  proof (cases "(c, k) \<in> set ks")
    case True
    then have "c \<in> fst ` set ks" by (metis fst_conv image_eqI)
    then have "fst a \<noteq> c" using Cons.prems(1) by auto
    with True Cons show ?thesis by (simp add: kept_value_def)
  next
    case False
    with Cons.prems(2) have a: "a = (c, k)" by simp
    have "c \<notin> fst ` set ks" using Cons.prems(1) by (simp add: a)
    then have "kept_value c ks = 0" unfolding kept_value_def by (intro sum_of_zero) force
    with a show ?thesis by (simp add: kept_value_def)
  qed
qed simp

lemma kept_effects_spec:
  "distinct (map fst (kept_effects cs))
   \<and> fst ` set (kept_effects cs) = cw_currency ` set cs
   \<and> kept_value c (kept_effects cs) = sum_of (\<lambda>x. if cw_currency x = c then effect_of x else 0) cs"
proof -
  let ?f = "\<lambda>c. keep_add (cw_currency c) (partnerCoverageEffect (cw_side c) (cw_amount c))"
  have "distinct (map fst ks) \<Longrightarrow> distinct (map fst (fold ?f cs ks)) \<and> fst ` set (fold ?f cs ks) = fst ` set ks \<union> cw_currency ` set cs
      \<and> kept_value c (fold ?f cs ks) = kept_value c ks + sum_of (\<lambda>x. if cw_currency x = c then effect_of x else 0) cs" for ks
    by (induction cs arbitrary: ks) (auto simp: keep_add_distinct keep_add_keys keep_add_value effect_of_def)
  from this [of "[]"] show ?thesis by (simp add: kept_effects_def kept_value_def)
qed

lemma effect_whole: "cover_ok rows x \<Longrightarrow> partner_round (effect_of x) (cw_currency x) = effect_of x"
  using whole.fixed_diff [OF whole.rnd_zero, of "cw_amount x" "cw_currency x"]
  by (cases "cw_side x") (auto simp: cover_ok_def effect_of_def partnerCoverageEffect_def sideSign_def)

text \<open>The rows an undo reverses: the active coverage of the settlement and of the rows linked to it.\<close>

definition own_coverage :: "nat list \<Rightarrow> partner_db \<Rightarrow> coverage_row list" where
  "own_coverage own db = sort_key cv_id (filter (\<lambda>c. \<not> cv_is_reversed c \<and> cw_settlement_ledger_id c \<in> set own) (pd_coverage db))"

definition undo_ok :: "nat \<Rightarrow> PartnerReversalPlan \<Rightarrow> partner_db \<Rightarrow> bool" where
  "undo_ok a plan db \<longleftrightarrow>
     rp_ledgerIds plan \<noteq> [] \<and> hd (rp_ledgerIds plan) = a \<and> anchor_in (pd_ledger db) a = a
     \<and> (\<forall>x \<in> set (pd_coverage db). cw_settlement_ledger_id x \<in> set (rp_ledgerIds plan)
          \<longleftrightarrow> anchor_in (pd_ledger db) (cw_settlement_ledger_id x) = a)
     \<and> (\<forall>r \<in> set (pd_ledger db). pl_id r \<in> set (rp_ledgerIds plan) \<longrightarrow> pl_partner_id r = rp_partnerId plan)
     \<and> (\<exists>r \<in> set (pd_ledger db). pl_id r = a \<and> pl_partner_id r = rp_partnerId plan)"

lemma sum_own:
  assumes "undo_ok a plan db"
  shows "sum_of (\<lambda>x. if \<not> cv_is_reversed x \<and> part_of (pd_ledger db) a c x \<and> cv_id x \<notin> R then effect_of x else 0) (pd_coverage db)
    = sum_of (\<lambda>x. if cw_currency x = c \<and> cv_id x \<notin> R then effect_of x else 0) (own_coverage (rp_ledgerIds plan) db)"
proof -
  let ?own = "\<lambda>c. \<not> cv_is_reversed c \<and> cw_settlement_ledger_id c \<in> set (rp_ledgerIds plan)"
  have "sum_of (\<lambda>x. if cw_currency x = c \<and> cv_id x \<notin> R then effect_of x else 0) (own_coverage (rp_ledgerIds plan) db)
      = sum_of (\<lambda>x. if cw_currency x = c \<and> cv_id x \<notin> R then effect_of x else 0) (filter ?own (pd_coverage db))"
    by (rule sum_of_mset_eq) (simp add: own_coverage_def)
  also have "\<dots> = sum_of (\<lambda>x. if ?own x then (if cw_currency x = c \<and> cv_id x \<notin> R then effect_of x else 0) else 0) (pd_coverage db)"
    by (simp add: sum_list_map_filter')
  also have "\<dots> = sum_of (\<lambda>x. if \<not> cv_is_reversed x \<and> part_of (pd_ledger db) a c x \<and> cv_id x \<notin> R then effect_of x else 0) (pd_coverage db)"
    using assms by (intro sum_of_cong) (auto simp: undo_ok_def part_of_def)
  finally show ?thesis by simp
qed

lemma mark_reversed_net:
  assumes "undo_ok a plan db" "distinct (map cv_id (pd_coverage db))" "set R \<subseteq> cv_id ` set (own_coverage (rp_ledgerIds plan) db)"
  shows "net_effect (pd_ledger db) (pd_coverage (mark_reversed R db)) a' c
    = (if a' = a then sum_of (\<lambda>x. if cw_currency x = c \<and> cv_id x \<notin> set R then effect_of x else 0) (own_coverage (rp_ledgerIds plan) db)
       else net_effect (pd_ledger db) (pd_coverage db) a' c)"
proof -
  have "net_effect (pd_ledger db) (pd_coverage (mark_reversed R db)) a' c
      = sum_of (\<lambda>x. if \<not> cv_is_reversed x \<and> part_of (pd_ledger db) a' c x \<and> cv_id x \<notin> set R then effect_of x else 0) (pd_coverage db)"
    unfolding net_effect_def mark_reversed_def
    by (auto simp: comp_def part_of_def effect_of_def intro!: sum_of_cong)
  moreover have "\<dots> = net_effect (pd_ledger db) (pd_coverage db) a' c" if "a' \<noteq> a"
  proof -
    have "cv_id x \<notin> set R" if x: "x \<in> set (pd_coverage db)" "part_of (pd_ledger db) a' c x" for x
    proof
      assume "cv_id x \<in> set R"
      then obtain y where "y \<in> set (own_coverage (rp_ledgerIds plan) db)" "cv_id y = cv_id x" using assms(3) by auto
      then have "x \<in> set (own_coverage (rp_ledgerIds plan) db)"
        using assms(2) x(1) by (auto simp: own_coverage_def distinct_map dest: inj_onD)
      then show False using assms(1) x \<open>a' \<noteq> a\<close> by (auto simp: own_coverage_def undo_ok_def part_of_def)
    qed
    then show ?thesis unfolding net_effect_def by (intro sum_of_cong) auto
  qed
  ultimately show ?thesis using sum_own [OF assms(1)] by simp
qed

lemma relief_balances:
  assumes "rows_ok ledger cs n" "set rows \<subseteq> set cs"
    and out: "relief_loop plan txn ownRows rows (kept_effects (filter shared rows)) (map cv_id (filter (\<lambda>c. \<not> shared c) rows), []) = (R, W)"
  shows "still_active c rows (R, W) = 0" "set R \<subseteq> cv_id ` set rows" "\<forall>w \<in> set W. relief_ok plan ownRows w"
proof -
  define s0 where "s0 = (map cv_id (filter (\<lambda>c. \<not> shared c) rows), [] :: PartnerCoverageWrite list)"
  define ks where "ks = kept_effects (filter shared rows)"
  let ?sum = "\<lambda>c. sum_of (\<lambda>x. if cw_currency x = c then effect_of x else 0) (filter shared rows)"
  have inj: "inj_on cv_id (set rows)" using assms(1,2) by (auto simp: rows_ok_def distinct_map intro: inj_on_subset)
  have active: "still_active c rows s0 = ?sum c" for c
  proof -
    have "cv_id x \<in> set (fst s0) \<longleftrightarrow> \<not> shared x" if "x \<in> set rows" for x using that inj by (auto simp: s0_def dest: inj_onD)
    then have "sum_of (\<lambda>x. if cw_currency x = c \<and> cv_id x \<notin> set (fst s0) then effect_of x else 0) rows
        = sum_of (\<lambda>x. if shared x then (if cw_currency x = c then effect_of x else 0) else 0) rows" by (intro sum_of_cong) auto
    then show ?thesis by (simp add: still_active_def s0_def sum_list_map_filter')
  qed
  have kept: "distinct (map fst ks)" "fst ` set ks = cw_currency ` set (filter shared rows)" "kept_value c ks = ?sum c" for c
    using kept_effects_spec [of "filter shared rows"] by (auto simp: ks_def)
  have whole: "partner_round (?sum c) c = ?sum c" for c
    using assms(1,2) effect_whole by (intro whole_sum) (auto simp: rows_ok_def whole.rnd_zero)
  have "\<forall>(c, k) \<in> set ks. still_active c rows s0 = k \<and> partner_round k c = k"
    using kept_value_lookup [OF kept(1)] kept(3) active whole by fastforce
  from relief_loop_spec [OF kept(1) this _ inj, of plan txn ownRows]
  have spec: "\<forall>c. still_active c rows (R, W) = (if c \<in> fst ` set ks then 0 else still_active c rows s0)"
    "set R \<subseteq> set (fst s0) \<union> cv_id ` set rows" "\<forall>w \<in> set W. w \<in> set (snd s0) \<or> relief_ok plan ownRows w"
    using out unfolding ks_def [symmetric] s0_def [symmetric] by (simp_all add: s0_def)
  show "set R \<subseteq> cv_id ` set rows" "\<forall>w \<in> set W. relief_ok plan ownRows w" using spec(2,3) by (auto simp: s0_def)
  have "?sum c = 0" if "c \<notin> fst ` set ks" using that kept(2) by (intro sum_of_zero) auto
  then show "still_active c rows (R, W) = 0" using spec(1) active by simp
qed

lemma reverse_coverage_ok:
  assumes "books_ok db" "undo_ok a plan db"
  shows "books_ok (reverse_coverage e plan txn (own_coverage (rp_ledgerIds plan) db) db)"
proof -
  define own where "own = rp_ledgerIds plan"
  define rows where "rows = own_coverage own db"
  define shared where "shared = is_shared own (loadUnits e (rp_partnerId plan) db) db"
  define ownRows where "ownRows = sort_key pl_id (filter (\<lambda>r. pl_id r \<in> set own) (pd_ledger db))"
  obtain R W where out: "relief_loop plan txn ownRows rows (kept_effects (filter shared rows)) (map cv_id (filter (\<lambda>c. \<not> shared c) rows), []) = (R, W)"
    by fastforce
  define db1 where "db1 = mark_reversed R db"
  have books: "ledger_ok (pd_ledger db) (ledger_counter db)" "rows_ok (pd_ledger db) (pd_coverage db) (coverage_counter db)"
    and bal: "\<And>a c. net_effect (pd_ledger db) (pd_coverage db) a c = 0"
    using assms(1) by (auto simp: books_ok_def coverage_ok_def)
  have "set rows \<subseteq> set (pd_coverage db)" by (auto simp: rows_def own_coverage_def)
  note rel = relief_balances [OF books(2) this out]
  have led: "pd_ledger db1 = pd_ledger db" "ledger_counter db1 = ledger_counter db" by (simp_all add: db1_def mark_reversed_def)
  have rows1: "rows_ok (pd_ledger db) (pd_coverage db1) (coverage_counter db1)"
  proof -
    have "map cv_id (pd_coverage db1) = map cv_id (pd_coverage db)" by (simp add: db1_def mark_reversed_def)
    moreover have "\<forall>x \<in> set (pd_coverage db1). cv_id x \<le> coverage_counter db1 \<and> cover_ok (pd_ledger db) x"
      using books(2) by (auto simp: db1_def mark_reversed_def rows_ok_def cover_ok_def)
    ultimately show ?thesis using books(2) by (simp add: rows_ok_def)
  qed
  have one: "cw_settlement_ledger_id w = a" if "w \<in> set W" for w using rel(3) that assms(2) by (auto simp: relief_ok_def undo_ok_def)
  have wok: "\<forall>w \<in> set W. write_ok (pd_ledger db1) w"
  proof
    fix w assume w: "w \<in> set W"
    then obtain t where t: "0 \<le> cw_amount w" "cw_partner_id w = rp_partnerId plan" "t \<in> set ownRows"
      "pl_id t = cw_partner_ledger_id w" "pl_currency t = currency_text (cw_currency w)"
      using rel(3) by (auto simp: relief_ok_def)
    then have "t \<in> set (pd_ledger db)" "pl_partner_id t = rp_partnerId plan"
      using assms(2) by (auto simp: ownRows_def own_def undo_ok_def)
    moreover obtain q where "q \<in> set (pd_ledger db)" "pl_id q = a" "pl_partner_id q = rp_partnerId plan"
      using assms(2) by (auto simp: undo_ok_def)
    ultimately show "write_ok (pd_ledger db1) w" unfolding led using t one [OF w] by (intro write_okI) metis+
  qed
  have "net_effect (pd_ledger db1) (pd_coverage db1) a' c
      + sum_of (\<lambda>w. if part_of (pd_ledger db1) a' c w then effect_of (rounded w) else 0) W = 0" for a' c
  proof (cases "a' = a")
    case True
    have "sum_of (\<lambda>w. if part_of (pd_ledger db) a c w then effect_of (rounded w) else 0) W
        = sum_of (\<lambda>w. if cw_currency w = c then effect_of (rounded w) else 0) W"
      using one assms(2) by (intro sum_of_cong) (auto simp: part_of_def undo_ok_def)
    then show ?thesis
      using rel(1) [of c] mark_reversed_net [OF assms(2), of R a c] books(2) rel(2)
      by (simp add: True led [unfolded db1_def] db1_def still_active_def rows_def own_def rows_ok_def)
  next
    case False
    then have "sum_of (\<lambda>w. if part_of (pd_ledger db) a' c w then effect_of (rounded w) else 0) W = 0"
      using one assms(2) by (intro sum_of_zero) (auto simp: part_of_def undo_ok_def)
    then show ?thesis
      using mark_reversed_net [OF assms(2), of R a' c] books(2) rel(2) bal False
      by (simp add: led [unfolded db1_def] db1_def rows_def own_def rows_ok_def)
  qed
  note final = writeCoverage_balances [OF _ _ wok this, of e, unfolded led, OF books(1) rows1]
  have "books_ok db1" if "W = []"
    using that final by (simp add: writeCoverage_def touched_def)
  then show ?thesis
    using final by (simp add: reverse_coverage_def Let_def own_def [symmetric] rows_def [symmetric] shared_def [symmetric]
        ownRows_def [symmetric] out db1_def [symmetric])
qed

lemma applyReversal_ok:
  assumes "books_ok db" "undo_ok a plan db"
  shows "books_ok (applyReversal e plan txn db)"
proof -
  define rows where "rows = own_coverage (rp_ledgerIds plan) db"
  define db1 where "db1 = (if rows = [] then db else reverse_coverage e plan txn rows db)"
  have "books_ok db1" using reverse_coverage_ok [OF assms] assms(1) by (simp add: db1_def rows_def)
  moreover obtain ids db2 where u: "unwind_all (rp_partnerId plan) (rp_legacy plan) (map cw_partner_ledger_id rows, db1) = (ids, db2)"
    by fastforce
  then have "same_books db1 db2" using unwind_all_same by (metis snd_conv)
  moreover have "applyReversal e plan txn db = syncObligationCovered e (rp_partnerId plan) ids db2"
    unfolding applyReversal_def Let_def own_coverage_def [symmetric] rows_def [symmetric] db1_def [symmetric] u by simp
  ultimately show ?thesis using same_books_ok sync_same by metis
qed

section \<open>The undo of a settlement\<close>

definition grown :: "partner_db \<Rightarrow> partner_db \<Rightarrow> bool" where
  "grown db db' \<longleftrightarrow> books_ok db' \<and> pd_coverage db' = pd_coverage db
     \<and> (\<exists>new. pd_ledger db' = pd_ledger db @ new \<and> (\<forall>r \<in> set new. pl_id r > ledger_counter db))
     \<and> ledger_counter db \<le> ledger_counter db'"

lemma grown_trans: "grown a b \<Longrightarrow> grown b c \<Longrightarrow> grown a c"
  unfolding grown_def by (auto; meson le_less_trans)

lemma reversal_entry_ok:
  assumes "entry \<in> set (pd_ledger db)" "linked_to entry = None" "plain_row r"
  shows "entry_ok db (reversal_entry (pl_partner_id entry) (pl_id entry) text r)"
  using assms by (auto simp: entry_ok_def entry_link_def reversal_entry_def plain_row_def)

lemma reversal_insert:
  assumes "books_ok db" "entry \<in> set (pd_ledger db)" "linked_to entry = None" "plain_row r"
  shows "grown db (snd (insert_ledger e (reversal_entry (pl_partner_id entry) (pl_id entry) text r) db))"
proof -
  obtain row db1 where i: "insert_ledger e (reversal_entry (pl_partner_id entry) (pl_id entry) text r) db = (row, db1)" by fastforce
  have "ledger_counter db1 = ledger_counter db + 1" using i by (auto simp: insert_ledger_def Let_def)
  then show ?thesis using insert_ledger_ok [OF assms(1) reversal_entry_ok [OF assms(2-4)] i] by (auto simp: grown_def i)
qed

lemma negate_same: "same_books db (negateCounterpartyDiscountProfit i db)"
  "pd_ledger (negateCounterpartyDiscountProfit i db) = pd_ledger db" "ledger_counter (negateCounterpartyDiscountProfit i db) = ledger_counter db"
  "pd_coverage (negateCounterpartyDiscountProfit i db) = pd_coverage db"
  by (auto simp: negateCounterpartyDiscountProfit_def createTransaction_def same_books_def split: option.split)

lemma grown_negate: "grown db d \<Longrightarrow> grown db (negateCounterpartyDiscountProfit i d)"
  using same_books_ok [OF negate_same(1), of i d] negate_same(2-4) [of i d] by (simp add: grown_def)

lemma plan_fields [simp]:
  "rp_ledgerIds (planReversal e p ids db) = ids" "rp_partnerId (planReversal e p ids db) = p"
  by (simp_all add: planReversal_def)

lemma reverse_linked_grown:
  assumes "books_ok db" "entry \<in> set (pd_ledger db)" "linked_to entry = None" "plain_row r" "tn_source_id original = pl_id entry"
  shows "grown db (reverse_linked e original (pl_partner_id entry) r db)"
  using reversal_insert [OF assms(1-4), of e] grown_negate by (simp add: reverse_linked_def Let_def assms(5))

lemma reverse_linked_all:
  assumes "books_ok db" "entry \<in> set (pd_ledger db)" "linked_to entry = None" "\<forall>r \<in> set rs. plain_row r" "tn_source_id original = pl_id entry"
  shows "grown db (fold (reverse_linked e original (pl_partner_id entry)) rs db)"
  using assms
proof (induction rs arbitrary: db)
  case (Cons r rs)
  let ?db = "reverse_linked e original (pl_partner_id entry) r db"
  have g: "grown db ?db" using Cons.prems by (intro reverse_linked_grown) auto
  then have "grown ?db (fold (reverse_linked e original (pl_partner_id entry)) rs ?db)"
    using Cons.prems by (intro Cons.IH) (auto simp: grown_def)
  with g show ?case by (auto intro: grown_trans)
qed (simp add: grown_def)

lemma find_unique: "distinct (map f xs) \<Longrightarrow> x \<in> set xs \<Longrightarrow> find (\<lambda>y. f y = f x) xs = Some x"
  by (induction xs) auto

lemma anchor_of_row: "ledger_ok rows n \<Longrightarrow> q \<in> set rows \<Longrightarrow> anchor_in rows (pl_id q) = (case linked_to q of None \<Rightarrow> pl_id q | Some a \<Rightarrow> a)"
  by (simp add: anchor_in_def ledger_ok_def find_unique)

definition linked_rows :: "nat \<Rightarrow> partner_db \<Rightarrow> partner_ledger_row list" where
  "linked_rows a db = sort_key pl_id (filter (\<lambda>r. pl_reference_table r = Some ''partner_ledger'' \<and> pl_reference_id r = Some a
     \<and> (pl_transaction_type r = Some ''SETTLEMENT'' \<or> pl_transaction_type r = Some ''DISCOUNT'')) (pd_ledger db))"

lemma linked_rows_iff: "r \<in> set (linked_rows a db) \<longleftrightarrow> r \<in> set (pd_ledger db) \<and> linked_to r = Some a"
  by (auto simp: linked_rows_def linked_to_def)

lemma undo_plan_ok:
  assumes "books_ok db" "entry \<in> set (pd_ledger db)" "linked_to entry = None" "grown db db'"
  shows "undo_ok (pl_id entry) (planReversal e (pl_partner_id entry) (pl_id entry # map pl_id (linked_rows (pl_id entry) db)) db) db'"
proof -
  have led: "ledger_ok (pd_ledger db) (ledger_counter db)" and cov: "\<forall>x \<in> set (pd_coverage db). cover_ok (pd_ledger db) x"
    using assms(1) by (auto simp: books_ok_def coverage_ok_def rows_ok_def)
  obtain new where new: "pd_ledger db' = pd_ledger db @ new" "\<forall>r \<in> set new. pl_id r > ledger_counter db" "pd_coverage db' = pd_coverage db"
    using assms(4) by (auto simp: grown_def)
  let ?own = "pl_id entry # map pl_id (linked_rows (pl_id entry) db)"
  have anch: "anchor_in (pd_ledger db') (pl_id q) = (case linked_to q of None \<Rightarrow> pl_id q | Some a \<Rightarrow> a)" if "q \<in> set (pd_ledger db)" for q
    using that anchor_of_row [OF led] by (simp add: new(1) anchor_append)
  have inj: "inj_on pl_id (set (pd_ledger db))" using led by (simp add: ledger_ok_def distinct_map)
  have own_id: "pl_id q \<in> set ?own \<longleftrightarrow> q = entry \<or> linked_to q = Some (pl_id entry)" if "q \<in> set (pd_ledger db)" for q
    using that assms(2) inj by (auto simp: linked_rows_iff dest: inj_onD)
  have own_iff: "pl_id q \<in> set ?own \<longleftrightarrow> anchor_in (pd_ledger db') (pl_id q) = pl_id entry" if q: "q \<in> set (pd_ledger db)" for q
    unfolding own_id [OF q] anch [OF q] using q assms(2,3) inj by (auto split: option.splits dest: inj_onD)
  have "cw_settlement_ledger_id x \<in> set ?own \<longleftrightarrow> anchor_in (pd_ledger db') (cw_settlement_ledger_id x) = pl_id entry"
    if "x \<in> set (pd_coverage db)" for x
  proof -
    obtain q where "q \<in> set (pd_ledger db)" "pl_id q = cw_settlement_ledger_id x" using cov \<open>x \<in> _\<close> by (auto simp: cover_ok_def)
    then show ?thesis using own_iff by metis
  qed
  moreover have "pl_partner_id r = pl_partner_id entry" if r: "r \<in> set (pd_ledger db')" "pl_id r \<in> set ?own" for r
  proof -
    have "pl_id r \<le> ledger_counter db" using r(2) led assms(2) by (auto simp: linked_rows_iff ledger_ok_def)
    then have old: "r \<in> set (pd_ledger db)" using r(1) new by force
    then consider "r = entry" | "linked_to r = Some (pl_id entry)" using own_id r(2) by blast
    then show ?thesis
    proof cases
      case 2
      then obtain q where "q \<in> set (pd_ledger db)" "pl_id q = pl_id entry" "pl_partner_id q = pl_partner_id r"
        using led old by (auto simp: ledger_ok_def)
      then show ?thesis using inj assms(2) by (metis inj_onD)
    qed simp
  qed
  moreover have "anchor_in (pd_ledger db') (pl_id entry) = pl_id entry" using anch [OF assms(2)] assms(3) by simp
  moreover have "entry \<in> set (pd_ledger db')" using assms(2) new(1) by simp
  ultimately show ?thesis unfolding undo_ok_def plan_fields new(3) by (metis list.sel(1) list.distinct(1))
qed

lemma reversePartnerSettlementLedger_ok:
  assumes "books_ok db"
    and "\<And>entry. find (\<lambda>r. pl_id r = tn_source_id original) (pd_ledger db) = Some entry \<Longrightarrow> linked_to entry = None"
  shows "books_ok (reversePartnerSettlementLedger e original txn db)"
proof -
  define a where "a = tn_source_id original"
  define msg where "msg = ''Reversal of settlement/payment txn #'' @ nat_text (tn_id original)"
  define undone where "undone = (\<lambda>entry. applyReversal e (planReversal e (pl_partner_id entry) (a # map pl_id (linked_rows a db)) db) txn
    (fold (reverse_linked e original (pl_partner_id entry)) (linked_rows a db)
      (snd (insert_ledger e (reversal_entry (pl_partner_id entry) a msg entry) db))))"
  have "reversePartnerSettlementLedger e original txn db
      = (if (tn_type original \<noteq> ''PARTNER_SETTLEMENT'' \<and> tn_type original \<noteq> ''PARTNER_PAYMENT'') \<or> tn_source_table original \<noteq> ''partner_ledger''
         then db else case find (\<lambda>r. pl_id r = a) (pd_ledger db) of None \<Rightarrow> db | Some entry \<Rightarrow> undone entry)"
    unfolding reversePartnerSettlementLedger_def a_def [symmetric] linked_rows_def [symmetric] msg_def [symmetric] Let_def undone_def ..
  then consider "reversePartnerSettlementLedger e original txn db = db"
    | entry where "find (\<lambda>r. pl_id r = a) (pd_ledger db) = Some entry" "reversePartnerSettlementLedger e original txn db = undone entry"
    by (cases "find (\<lambda>r. pl_id r = a) (pd_ledger db)") (simp, metis option.simps(5))
  then show ?thesis
  proof cases
    case (2 entry)
    then have entry: "entry \<in> set (pd_ledger db)" "pl_id entry = a" by (auto simp: find_Some_iff)
    have link: "linked_to entry = None" using assms(2) 2(1) by (simp add: a_def)
    have plain: "plain_row r" if "r \<in> set (pd_ledger db)" for r
      using that assms(1) by (auto simp: books_ok_def ledger_ok_def)
    define db1 where "db1 = snd (insert_ledger e (reversal_entry (pl_partner_id entry) a msg entry) db)"
    have g1: "grown db db1"
      unfolding db1_def entry(2) [symmetric] by (rule reversal_insert [OF assms(1) entry(1) link plain [OF entry(1)]])
    then have "books_ok db1" "entry \<in> set (pd_ledger db1)" using entry(1) by (auto simp: grown_def)
    then have "grown db1 (fold (reverse_linked e original (pl_partner_id entry)) (linked_rows a db) db1)"
      using link plain entry by (intro reverse_linked_all) (auto simp: linked_rows_iff a_def)
    from grown_trans [OF g1 this] show ?thesis
      unfolding 2(2) undone_def db1_def [symmetric]
      using undo_plan_ok [OF assms(1) entry(1) link] applyReversal_ok entry(2) by (metis grown_def)
  qed (use assms(1) in simp)
qed

end
