(* ===== verification/Partner_Settlement_Balance.thy ===== *)
theory Partner_Settlement_Balance
  imports Partner_Settlement_Safety
begin

text \<open>
  What the invariant of the partner books gives a reader: the active coverage of a partner adds up to zero
  in each currency, so the open amounts of the loaded units add up to the ledger balance.
\<close>

section \<open>Sums by key\<close>

lemma sum_of_delta: "distinct ks \<Longrightarrow> sum_of (\<lambda>k. if a = k then v else 0) ks = (if a \<in> set ks then v else (0 :: rat))"
  by (induction ks) auto

lemma sum_by_key:
  fixes f :: "'a \<Rightarrow> rat"
  assumes "distinct ks"
  shows "sum_of (\<lambda>k. sum_of (\<lambda>x. if key x = k then f x else 0) xs) ks = sum_of (\<lambda>x. if key x \<in> set ks then f x else 0) xs"
  by (subst sum_of_swap) (simp add: sum_of_delta [OF assms])

lemma sum_of_int: "of_int (sum_of f xs) = (sum_of (\<lambda>x. of_int (f x)) xs :: rat)"
  by (induction xs) auto

section \<open>The effect of the coverage on a row\<close>

lemma effectByRow_sum:
  "effectByRow cov i
    = sum_of (\<lambda>k. if pc_partner_ledger_id k = i then partner_toMinor (pc_amount k) (pc_currency k) * sideSign (pc_side k) else 0) cov"
proof -
  have "fold add_effect cov m i
      = m i + sum_of (\<lambda>k. if pc_partner_ledger_id k = i then partner_toMinor (pc_amount k) (pc_currency k) * sideSign (pc_side k) else 0) cov" for m
    by (induction cov arbitrary: m) (auto simp: add_effect_def)
  then show ?thesis by (simp add: effectByRow_def)
qed

lemma partner_whole_minor: "partner_round x c = x \<Longrightarrow> of_int (partner_toMinor x c) = x * partner_minorFactor c"
proof -
  assume "partner_round x c = x"
  then have "of_int (math_round (x * partner_minorFactor c)) = x * partner_minorFactor c"
    unfolding partner_round_scaled using partner_minorFactor_pos [of c] by (metis less_numeral_extra(3) nonzero_eq_divide_eq)
  then show ?thesis by (simp add: partner_toMinor_def js_or_def)
qed

definition minor_effect :: "coverage_row \<Rightarrow> amount" where
  "minor_effect x = effect_of x * partner_minorFactor (cw_currency x)"

lemma grouped_effect:
  assumes "\<forall>x \<in> set cs. partner_round (cw_amount x) (cw_currency x) = cw_amount x"
  shows "of_int (effectByRow (grouped_coverage cs) i) = sum_of (\<lambda>x. if cw_partner_ledger_id x = i then minor_effect x else 0) cs"
proof -
  let ?f = "\<lambda>x. if cw_partner_ledger_id x = i then minor_effect x else 0"
  have key: "(if pc_partner_ledger_id k = i then of_int (partner_toMinor (pc_amount k) (pc_currency k) * sideSign (pc_side k)) else 0)
      = sum_of (\<lambda>x. if cover_key x = (j, c, s) then ?f x else 0) cs"
    if k: "k = \<lparr>pc_partner_ledger_id = j, pc_currency = c, pc_side = s,
                pc_amount = sum_of cw_amount (filter (\<lambda>x. cover_key x = (j, c, s)) cs)\<rparr>" for k j c s
  proof -
    let ?own = "filter (\<lambda>x. cover_key x = (j, c, s)) cs"
    have own: "cw_partner_ledger_id x = j" "cw_currency x = c" "cw_side x = s" if "x \<in> set ?own" for x
      using that by (auto simp: cover_key_def)
    have "partner_round (sum_of cw_amount ?own) c = sum_of cw_amount ?own"
      using assms own(2) by (intro whole_sum) auto
    from partner_whole_minor [OF this]
    have "of_int (partner_toMinor (pc_amount k) (pc_currency k) * sideSign (pc_side k))
        = sum_of (\<lambda>x. (of_int (sideSign s) * partner_minorFactor c) * cw_amount x) ?own"
      unfolding sum_of_scale by (simp add: k)
    also have "\<dots> = sum_of minor_effect ?own"
      using own by (intro sum_of_cong) (simp add: minor_effect_def effect_of_def partnerCoverageEffect_def)
    also have "\<dots> = sum_of (\<lambda>x. if cover_key x = (j, c, s) then minor_effect x else 0) cs" by (rule sum_list_map_filter')
    finally have amounts: "of_int (partner_toMinor (pc_amount k) (pc_currency k) * sideSign (pc_side k))
        = sum_of (\<lambda>x. if cover_key x = (j, c, s) then minor_effect x else 0) cs" .
    show ?thesis
    proof (cases "j = i")
      case True
      then show ?thesis unfolding amounts by (auto simp: k cover_key_def intro!: sum_of_cong)
    next
      case False
      then have "sum_of (\<lambda>x. if cover_key x = (j, c, s) then ?f x else 0) cs = 0" by (intro sum_of_zero) (simp add: cover_key_def)
      with False show ?thesis by (simp add: k)
    qed
  qed
  have "of_int (effectByRow (grouped_coverage cs) i)
      = sum_of (\<lambda>(j, c, s). sum_of (\<lambda>x. if cover_key x = (j, c, s) then ?f x else 0) cs) (remdups (map cover_key cs))"
    unfolding effectByRow_sum grouped_coverage_def sum_of_int map_map comp_def
    by (rule sum_of_cong) (clarsimp simp only: prod.case key [OF refl, symmetric], simp)
  also have "\<dots> = sum_of (\<lambda>k. sum_of (\<lambda>x. if cover_key x = k then ?f x else 0) cs) (remdups (map cover_key cs))"
    by (rule sum_of_cong) (simp split: prod.split)
  also have "\<dots> = sum_of (\<lambda>x. if cover_key x \<in> set (remdups (map cover_key cs)) then ?f x else 0) cs"
    by (rule sum_by_key) simp
  also have "\<dots> = sum_of ?f cs" by (rule sum_of_cong) simp
  finally show ?thesis .
qed

section \<open>The coverage of a partner adds up to zero\<close>

lemma anchor_row:
  assumes "ledger_ok rows n" "cover_ok rows x"
  shows "\<exists>q \<in> set rows. pl_id q = anchor_in rows (cw_settlement_ledger_id x) \<and> pl_partner_id q = cw_partner_id x"
proof -
  obtain r where r: "r \<in> set rows" "pl_id r = cw_settlement_ledger_id x" "pl_partner_id r = cw_partner_id x"
    using assms(2) by (auto simp: cover_ok_def)
  have "anchor_in rows (cw_settlement_ledger_id x) = (case linked_to r of None \<Rightarrow> pl_id r | Some a \<Rightarrow> a)"
    using anchor_of_row [OF assms(1) r(1)] r(2) by simp
  then show ?thesis using r assms(1) by (cases "linked_to r") (auto simp: ledger_ok_def, metis)
qed

lemma partner_net_zero:
  assumes "books_ok db"
  shows "sum_of (\<lambda>x. if cw_currency x = c then effect_of x else 0) (active_coverage p db) = 0"
proof -
  define rows where "rows = pd_ledger db"
  define cs where "cs = pd_coverage db"
  define anchor where "anchor = (\<lambda>x :: coverage_row. anchor_in rows (cw_settlement_ledger_id x))"
  let ?f = "\<lambda>x. if cw_partner_id x = p \<and> \<not> cv_is_reversed x \<and> cw_currency x = c then effect_of x else 0"
  have books: "ledger_ok rows (ledger_counter db)" "\<forall>x \<in> set cs. cover_ok rows x" "net_effect rows cs a c = 0" for a
    using assms by (auto simp: books_ok_def coverage_ok_def rows_ok_def rows_def cs_def)
  have ids: "inj_on pl_id (set rows)" using books(1) by (simp add: ledger_ok_def distinct_map)
  have same: "cw_partner_id x = cw_partner_id y" if "x \<in> set cs" "y \<in> set cs" "anchor x = anchor y" for x y
    using anchor_row [OF books(1), of x] anchor_row [OF books(1), of y] that books(2) ids by (metis anchor_def inj_onD)
  have each: "sum_of (\<lambda>x. if anchor x = a then ?f x else 0) cs = 0" for a
  proof (cases "\<exists>y \<in> set cs. anchor y = a \<and> cw_partner_id y = p")
    case True
    then have "cw_partner_id x = p" if "x \<in> set cs" "anchor x = a" for x using same that by metis
    then have "sum_of (\<lambda>x. if anchor x = a then ?f x else 0) cs = net_effect rows cs a c"
      unfolding net_effect_def by (intro sum_of_cong) (auto simp: part_of_def anchor_def)
    then show ?thesis using books(3) by simp
  next
    case False
    then show ?thesis by (intro sum_of_zero) auto
  qed
  have "sum_of (\<lambda>a. sum_of (\<lambda>x. if anchor x = a then ?f x else 0) cs) (remdups (map anchor cs)) = 0"
    by (rule sum_of_zero) (rule each)
  then have "sum_of (\<lambda>x. if anchor x \<in> set (remdups (map anchor cs)) then ?f x else 0) cs = 0"
    by (subst (asm) sum_by_key) simp_all
  moreover have "sum_of (\<lambda>x. if anchor x \<in> set (remdups (map anchor cs)) then ?f x else 0) cs = sum_of ?f cs"
    by (rule sum_of_cong) simp
  moreover have "sum_of (\<lambda>x. if cw_currency x = c then effect_of x else 0) (active_coverage p db) = sum_of ?f cs"
    unfolding active_coverage_def sum_list_map_filter' cs_def by (rule sum_of_cong) simp
  ultimately show ?thesis by simp
qed

section \<open>The loaded rows\<close>

lemma currency_text_inject [simp]: "currency_text c = currency_text d \<longleftrightarrow> c = d"
  by (cases c; cases d) (simp_all add: currency_text_def)

lemma loaded_filter:
  "filter (row_of p c) (loadLedgerRows e p db)
    = map (load_row e db) (sort_key pl_id (filter (\<lambda>r. pl_partner_id r = p \<and> pl_currency r = currency_text c) (pd_ledger db)))"
proof -
  have head: "row_of p c (load_row e db r) \<longleftrightarrow> pl_partner_id r = p \<and> pl_currency r = currency_text c" for r
    by (cases c) (auto simp: row_of_def tracked_def head_currency_def currency_text_def)
  have "filter (row_of p c) (loadLedgerRows e p db) = map (load_row e db)
      (sort_key pl_id (filter (\<lambda>r. row_of p c (load_row e db r)) (filter (\<lambda>r. pl_partner_id r = p \<and> (pl_currency r = ''USD'' \<or> pl_currency r = ''LBP'')) (pd_ledger db))))"
    by (simp add: loadLedgerRows_def filter_map comp_def filter_sort)
  moreover have "filter (\<lambda>r. row_of p c (load_row e db r)) (filter (\<lambda>r. pl_partner_id r = p \<and> (pl_currency r = ''USD'' \<or> pl_currency r = ''LBP'')) (pd_ledger db))
      = filter (\<lambda>r. pl_partner_id r = p \<and> pl_currency r = currency_text c) (pd_ledger db)"
    by (auto simp: head currency_text_def intro!: filter_cong)
  ultimately show ?thesis by simp
qed

lemma loaded_ids:
  "mset (map pr_id (filter (row_of p c) (loadLedgerRows e p db)))
    = mset (map pl_id (filter (\<lambda>r. pl_partner_id r = p \<and> pl_currency r = currency_text c) (pd_ledger db)))"
  by (simp add: loaded_filter comp_def)

lemma loaded_effect_zero:
  assumes "books_ok db"
  shows "(\<Sum>r \<leftarrow> filter (row_of p c) (loadLedgerRows e p db). effectByRow (grouped_coverage (active_coverage p db)) (pr_id r)) = 0"
proof -
  let ?cs = "active_coverage p db"
  let ?ids = "map pl_id (filter (\<lambda>r. pl_partner_id r = p \<and> pl_currency r = currency_text c) (pd_ledger db))"
  have books: "ledger_ok (pd_ledger db) (ledger_counter db)" "\<forall>x \<in> set ?cs. cover_ok (pd_ledger db) x \<and> cw_partner_id x = p"
    using assms by (auto simp: books_ok_def coverage_ok_def rows_ok_def active_coverage_def)
  have whole: "\<forall>x \<in> set ?cs. partner_round (cw_amount x) (cw_currency x) = cw_amount x" using books(2) by (simp add: cover_ok_def)
  have inj: "inj_on pl_id (set (pd_ledger db))" using books(1) by (simp add: ledger_ok_def distinct_map)
  have dist: "distinct ?ids"
    using books(1) by (auto simp: ledger_ok_def distinct_map intro: inj_on_subset)
  have here: "cw_partner_ledger_id x \<in> set ?ids \<longleftrightarrow> cw_currency x = c" if x: "x \<in> set ?cs" for x
  proof -
    obtain r where r: "r \<in> set (pd_ledger db)" "pl_id r = cw_partner_ledger_id x" "pl_partner_id r = p" "pl_currency r = currency_text (cw_currency x)"
      using books(2) x by (auto simp: cover_ok_def)
    have one: "q = r" if "q \<in> set (pd_ledger db)" "pl_id q = cw_partner_ledger_id x" for q
      using inj_onD [OF inj _ that(1) r(1)] r(2) that(2) by simp
    have "cw_partner_ledger_id x \<in> set ?ids
        \<longleftrightarrow> (\<exists>q \<in> set (pd_ledger db). pl_id q = cw_partner_ledger_id x \<and> pl_partner_id q = p \<and> pl_currency q = currency_text c)"
      by (force simp: image_iff eq_commute [of "cw_partner_ledger_id x"])
    also have "\<dots> \<longleftrightarrow> pl_partner_id r = p \<and> pl_currency r = currency_text c" using one r(1,2) by blast
    finally show ?thesis by (simp only: r(3,4) currency_text_inject simp_thms)
  qed
  have "sum_list (map (\<lambda>r. rat_of_int (effectByRow (grouped_coverage ?cs) (pr_id r))) (filter (row_of p c) (loadLedgerRows e p db)))
      = sum_of (\<lambda>i. of_int (effectByRow (grouped_coverage ?cs) i)) (map pr_id (filter (row_of p c) (loadLedgerRows e p db)))"
    by (simp add: comp_def)
  also have "\<dots> = sum_of (\<lambda>i. of_int (effectByRow (grouped_coverage ?cs) i)) ?ids"
    by (rule sum_of_mset_eq [OF loaded_ids])
  also have "\<dots> = sum_of (\<lambda>i. sum_of (\<lambda>x. if cw_partner_ledger_id x = i then minor_effect x else 0) ?cs) ?ids"
    by (rule sum_of_cong) (rule grouped_effect [OF whole])
  also have "\<dots> = sum_of (\<lambda>x. if cw_partner_ledger_id x \<in> set ?ids then minor_effect x else 0) ?cs"
    by (rule sum_by_key [OF dist])
  also have "\<dots> = sum_of (\<lambda>x. partner_minorFactor c * (if cw_currency x = c then effect_of x else 0)) ?cs"
    using here by (intro sum_of_cong) (auto simp: minor_effect_def)
  also have "\<dots> = 0" unfolding sum_of_scale using partner_net_zero [OF assms] by simp
  finally have "rat_of_int (\<Sum>r \<leftarrow> filter (row_of p c) (loadLedgerRows e p db). effectByRow (grouped_coverage ?cs) (pr_id r)) = 0"
    by (simp add: sum_of_int)
  then show ?thesis by (simp only: of_int_eq_0_iff)
qed

section \<open>The balance\<close>

definition ledger_balance :: "nat \<Rightarrow> PartnerCurrency \<Rightarrow> partner_db \<Rightarrow> amount" where
  "ledger_balance p c db =
     sum_of (\<lambda>r. of_int (partner_toMinor (pl_amount r) c * sideSign (pl_direction r)) / partner_minorFactor c)
       (filter (\<lambda>r. pl_partner_id r = p \<and> pl_currency r = currency_text c) (pd_ledger db))"

definition open_amount :: "partner_env \<Rightarrow> nat \<Rightarrow> PartnerCurrency \<Rightarrow> partner_db \<Rightarrow> amount" where
  "open_amount e p c db = sum_of su_remaining (filter (unit_of p c) (loadUnits e p db))"

definition unexplained :: "partner_env \<Rightarrow> nat \<Rightarrow> PartnerCurrency \<Rightarrow> partner_db \<Rightarrow> PartnerSide \<Rightarrow> amount" where
  "unexplained e p c db d = unexplained_legacy (payers_with_coverage p db) (filter (unit_of p c) (loadUnits e p db)) d"

lemma loaded_balance:
  "of_int (sum_of (signed_minor c) (filter (row_of p c) (loadLedgerRows e p db))) / partner_minorFactor c = ledger_balance p c db"
proof -
  let ?P = "\<lambda>r. pl_partner_id r = p \<and> pl_currency r = currency_text c"
  have "mset (filter (row_of p c) (loadLedgerRows e p db)) = mset (map (load_row e db) (filter ?P (pd_ledger db)))"
    unfolding loaded_filter by simp
  then have "sum_of (signed_minor c) (filter (row_of p c) (loadLedgerRows e p db)) = sum_of (signed_minor c) (map (load_row e db) (filter ?P (pd_ledger db)))"
    by (rule sum_of_mset_eq)
  also have "\<dots> = sum_of (\<lambda>r. partner_toMinor (pl_amount r) c * sideSign (pl_direction r)) (filter ?P (pd_ledger db))"
    by (simp add: signed_minor_def comp_def)
  finally show ?thesis
    by (simp add: ledger_balance_def sum_of_int divide_inverse) (simp add: sum_of_scale [of "inverse (partner_minorFactor c)", symmetric] mult.commute)
qed

lemma books_balance:
  assumes "books_ok db"
  shows "open_amount e p c db = ledger_balance p c db - (unexplained e p c db DEBIT - unexplained e p c db CREDIT)"
proof -
  let ?rows = "loadLedgerRows e p db"
  let ?cov = "grouped_coverage (active_coverage p db)"
  have "\<forall>r \<in> set ?rows. plain_type r"
    using assms by (auto simp: loadLedgerRows_def plain_type_def books_ok_def ledger_ok_def plain_row_def)
  note open_is_balance [OF this, where p = p and c = c and coverage = ?cov and pw = "payers_with_coverage p db",
      folded loadUnits_def, folded open_amount_def, folded unexplained_def]
  moreover have "(\<Sum>r \<leftarrow> filter (row_of p c) ?rows. signed_minor c r - effectByRow ?cov (pr_id r)) = sum_of (signed_minor c) (filter (row_of p c) ?rows)"
    using loaded_effect_zero [OF assms, of p c e] by (simp add: sum_list_subtractf)
  ultimately have "open_amount e p c db * partner_minorFactor c
      = of_int (sum_of (signed_minor c) (filter (row_of p c) ?rows)) - (unexplained e p c db DEBIT - unexplained e p c db CREDIT) * partner_minorFactor c"
    by simp
  then have "of_int (sum_of (signed_minor c) (filter (row_of p c) ?rows))
      = (open_amount e p c db + (unexplained e p c db DEBIT - unexplained e p c db CREDIT)) * partner_minorFactor c"
    by (simp add: distrib_right)
  then have "ledger_balance p c db = open_amount e p c db + (unexplained e p c db DEBIT - unexplained e p c db CREDIT)"
    unfolding loaded_balance [symmetric, of _ _ _ e] by (simp add: partner_minorFactor_def)
  then show ?thesis by simp
qed

end
