(* ===== verification/Account_Settlement_Sources.thy ===== *)
theory Account_Settlement_Sources
  imports Account_Settlement_Properties
begin

text \<open>
  Where the takes of an account settlement come from when no commission is settled with it: netting that is
  neutral, then forgiven amounts and money, all on one side; the forgiven amount is used first, so money
  is taken only on the side it was paid for. Every take is whole.
\<close>

section \<open>Whole takes\<close>

definition whole_state :: "settle_frame \<Rightarrow> settle_state \<Rightarrow> bool" where
  "whole_state fr s \<longleftrightarrow> length (rem s) = n_all fr \<and> (\<forall>x \<in> set (rem s). x \<in> \<int>) \<and> (\<forall>(i, src, m) \<in> set (ss_takes s). m \<in> \<int>)"

lemma whole_stateI:
  assumes "length (rem s) = n_all fr" "\<And>i. i < n_all fr \<Longrightarrow> rem s ! i \<in> \<int>" "\<And>i src m. (i, src, m) \<in> set (ss_takes s) \<Longrightarrow> m \<in> \<int>"
  shows "whole_state fr s"
  using assms unfolding whole_state_def by (auto simp: in_set_conv_nth)

lemma whole_rem: "whole_state fr s \<Longrightarrow> i < n_all fr \<Longrightarrow> rem s ! i \<in> \<int>"
  by (simp add: whole_state_def)

lemma fifo_whole_takes:
  assumes "b \<in> \<int>" "\<And>r. r \<in> set rows \<Longrightarrow> outstanding r \<in> \<int>" "t \<in> set (allocateFifo rows b e)"
  shows "ft_take t \<in> \<int>"
proof -
  have "ft_take t \<in> \<int>" if "t \<in> set (allocateFifo_loop rows b e)"
    using assms(1,2) that
    by (induction rows b e rule: allocateFifo_loop.induct) (auto simp: Let_def Ints_min split: if_splits)
  with assms(3) show ?thesis by (simp add: allocateFifo_def split: if_splits)
qed

lemma rows_whole_takes:
  assumes "b \<in> \<int>" "\<And>i. i \<in> set Q \<Longrightarrow> f i \<in> \<int>" "t \<in> set (allocateFifo (fifo_rows Q f) b e)"
  shows "ft_take t \<in> \<int>"
  by (rule fifo_whole_takes [OF assms(1) _ assms(3)]) (use assms(2) in \<open>auto simp: fifo_rows_def\<close>)

lemma record_take_whole:
  assumes "whole_state fr s" "m \<in> \<int>" "i < n_all fr"
  shows "whole_state fr (record_take fr i src m s)"
proof (cases "m \<le> 0")
  case False
  have "rem s ! i + (if orig fr ! i > 0 then - m else m) \<in> \<int>" using whole_rem [OF assms(1,3)] assms(2) by auto
  with False assms show ?thesis
    by (auto simp: record_take_def whole_state_def dest!: set_update_subset_insert [THEN subsetD])
qed (use assms in \<open>simp add: record_take_def\<close>)

lemma record_all_whole:
  assumes "whole_state fr s" "\<And>t. t \<in> set ts \<Longrightarrow> ft_take t \<in> \<int> \<and> ft_id t < n_all fr"
  shows "whole_state fr (record_all fr src ts s)"
  using assms
proof (induction ts arbitrary: s)
  case (Cons t ts)
  then show ?case by (simp add: record_all_def record_take_whole)
qed (simp add: record_all_def)

lemma fifo_ids: "t \<in> set (allocateFifo (fifo_rows Q f) b e) \<Longrightarrow> ft_id t \<in> set Q"
  using fifo.take_from_row [of t "fifo_rows Q f" b e] by (auto simp: fifo_rows_def)

lemma net_whole:
  assumes "whole_state fr s" "set D \<subseteq> {..<n_all fr}" "set C \<subseteq> {..<n_all fr}" "\<And>c. cap = Some c \<Longrightarrow> c \<in> \<int>"
  shows "whole_state fr (snd (net fr D C cap s)) \<and> fst (net fr D C cap s) \<in> \<int>"
proof -
  define dI where "dI = filter (\<lambda>i. rem s ! i > epsMinor fr) D"
  define cI where "cI = filter (\<lambda>i. rem s ! i < - epsMinor fr) C"
  define N where "N = (let both = min (sum_of (\<lambda>i. rem s ! i) dI) (sum_of (\<lambda>i. - rem s ! i) cI) in case cap of None \<Rightarrow> both | Some c \<Rightarrow> min both c)"
  have sub: "i < n_all fr" if "i \<in> set dI \<or> i \<in> set cI" for i using that assms(2,3) by (auto simp: dI_def cI_def)
  have rI: "rem s ! i \<in> \<int>" if "i \<in> set dI \<or> i \<in> set cI" for i using whole_rem [OF assms(1) sub [OF that]] .
  have NI: "N \<in> \<int>" unfolding N_def Let_def using assms(4) rI by (cases cap) (auto intro!: Ints_min Ints_sum_of)
  have takes: "ft_take t \<in> \<int> \<and> ft_id t < n_all fr"
    if "t \<in> set (allocateFifo (fifo_rows dI (\<lambda>i. rem s ! i)) N (1 / 2)) \<or> t \<in> set (allocateFifo (fifo_rows cI (\<lambda>i. - rem s ! i)) N (1 / 2))" for t
    using that rows_whole_takes [OF NI, of dI "\<lambda>i. rem s ! i" t "1 / 2"] rows_whole_takes [OF NI, of cI "\<lambda>i. - rem s ! i" t "1 / 2"]
      fifo_ids [of t dI] fifo_ids [of t cI] rI sub by auto
  have "whole_state fr (s\<lparr>netPairs := ps\<rparr>)" for ps using assms(1) by (simp add: whole_state_def)
  then have "whole_state fr (record_all fr NETTING (allocateFifo (fifo_rows cI (\<lambda>i. - rem s ! i)) N (1 / 2))
      (record_all fr NETTING (allocateFifo (fifo_rows dI (\<lambda>i. rem s ! i)) N (1 / 2)) (s\<lparr>netPairs := ps\<rparr>)))" for ps
    using takes by (intro record_all_whole) auto
  then show ?thesis using assms(1) NI
    by (simp add: net_def Let_def dI_def [symmetric] cI_def [symmetric] N_def [unfolded Let_def, symmetric])
qed

lemma start_whole: "frame_ok fr \<Longrightarrow> whole_state fr (settle_start fr)"
  by (rule whole_stateI) (auto simp: settle_start_def frame_ok_def)

lemma netted_whole: "frame_ok fr \<Longrightarrow> whole_state fr (netted fr)"
  unfolding netted_def Let_def
  by (intro net_whole [THEN conjunct1] start_whole) (simp_all add: pools_below)

lemma use_credit_whole:
  assumes "frame_ok fr" "whole_state fr s" "owed fr s \<in> \<int>"
  shows "whole_state fr (snd (use_credit fr inp s)) \<and> fst (use_credit fr inp s) \<in> \<int>"
proof -
  have "min (creditUsedMinor fr inp) (owed fr s) \<in> \<int>" using assms(3) by (intro Ints_min) (simp_all add: creditUsedMinor_def Ints_abs)
  then show ?thesis
    using net_whole [OF assms(2) pools_below(4,3) [OF assms(1)], of "Some (min (creditUsedMinor fr inp) (owed fr s))"] assms(2)
    by (simp add: use_credit_def)
qed

section \<open>The money and the forgiven amount\<close>

abbreviation source_sum :: "AccountSettleCoverageSource \<Rightarrow> (nat \<times> AccountSettleCoverageSource \<times> amount) list \<Rightarrow> amount" where
  "source_sum src xs \<equiv> sum_of (\<lambda>(i, x, m). if x = src then m else 0) xs"

lemma take_record: "ss_takes (record_take fr i src m s) = ss_takes s @ (if m > 0 then [(i, src, m)] else [])"
  by (simp add: record_take_def)

lemma tag_takes_new:
  assumes "0 \<le> w" "w \<in> \<int>" "\<And>t. t \<in> set ts \<Longrightarrow> 0 \<le> ft_take t \<and> ft_take t \<in> \<int>"
  shows "\<exists>new. ss_takes (tag_takes fr ts w 0 s) = ss_takes s @ new
    \<and> (\<forall>(i, src, m) \<in> set new. i \<in> ft_id ` set ts \<and> src \<in> {WAIVE, PAYMENT} \<and> 0 < m \<and> m \<in> \<int>)
    \<and> source_sum WAIVE new = min w (sum_of ft_take ts)
    \<and> source_sum PAYMENT new = sum_of ft_take ts - min w (sum_of ft_take ts)"
  using assms
proof (induction ts arbitrary: s w)
  case (Cons t ts)
  define a where "a = min (ft_take t) w"
  define b where "b = ft_take t - a"
  have t: "0 \<le> ft_take t" "ft_take t \<in> \<int>" using Cons.prems(3) by auto
  have ab: "0 \<le> a" "a \<in> \<int>" "0 \<le> b" "b \<in> \<int>" "0 \<le> w - a" "w - a \<in> \<int>"
    using t Cons.prems(1,2) by (auto simp: a_def b_def Ints_min)
  define s1 where "s1 = record_take fr (ft_id t) PAYMENT b (record_take fr (ft_id t) WAIVE a s)"
  have st: "tag_takes fr (t # ts) w 0 s = tag_takes fr ts (w - a) 0 s1"
  proof -
    have "min b 0 = 0" using ab(3) by simp
    moreover have "record_take fr (ft_id t) COMMISSION 0 x = x" for x by (simp add: record_take_def)
    ultimately show ?thesis unfolding tag_takes.simps Let_def a_def [symmetric] b_def [symmetric] s1_def by simp
  qed
  from Cons.IH [OF ab(5,6), of s1] Cons.prems(3) obtain new where new: "ss_takes (tag_takes fr ts (w - a) 0 s1) = ss_takes s1 @ new"
    "\<forall>(i, src, m) \<in> set new. i \<in> ft_id ` set ts \<and> src \<in> {WAIVE, PAYMENT} \<and> 0 < m \<and> m \<in> \<int>"
    "source_sum WAIVE new = min (w - a) (sum_of ft_take ts)" "source_sum PAYMENT new = sum_of ft_take ts - min (w - a) (sum_of ft_take ts)"
    by auto
  define here where "here = (if a > 0 then [(ft_id t, WAIVE, a)] else []) @ (if b > 0 then [(ft_id t, PAYMENT, b)] else [])"
  have s1: "ss_takes s1 = ss_takes s @ here" by (simp add: s1_def here_def take_record)
  have sums: "source_sum WAIVE here = a" "source_sum PAYMENT here = b" using ab by (auto simp: here_def)
  have "0 \<le> sum_of ft_take ts" using Cons.prems(3) by (intro sum_of_nonneg) auto
  then have m: "a + min (w - a) (sum_of ft_take ts) = min w (ft_take t + sum_of ft_take ts)"
    using t Cons.prems(1) by (auto simp: a_def min_def)
  have "\<forall>(i, src, m) \<in> set here. i \<in> ft_id ` set (t # ts) \<and> src \<in> {WAIVE, PAYMENT} \<and> 0 < m \<and> m \<in> \<int>"
    using ab by (auto simp: here_def)
  with new(2) have "\<forall>(i, src, m) \<in> set (here @ new). i \<in> ft_id ` set (t # ts) \<and> src \<in> {WAIVE, PAYMENT} \<and> 0 < m \<and> m \<in> \<int>"
    by auto
  with new(1,3,4) s1 sums m show ?case unfolding st by (intro exI [of _ "here @ new"]) (simp add: b_def)
qed simp

text \<open>What the takes of a settlement are, when the commission is not settled with it.\<close>

definition sources_ok :: "settle_frame \<Rightarrow> amount \<Rightarrow> amount \<Rightarrow> settle_state \<Rightarrow> bool" where
  "sources_ok fr paid sg s \<longleftrightarrow>
     (sg = 1 \<or> sg = -1)
     \<and> (\<forall>(i, src, m) \<in> set (ss_takes s). i < n_all fr \<and> 0 < m \<and> m \<in> \<int> \<and> src \<noteq> COMMISSION
          \<and> (src \<noteq> NETTING \<longrightarrow> (orig fr ! i > 0) = (sg > 0)))
     \<and> recorded fr (\<lambda>x. x = NETTING) s = 0
     \<and> (0 < source_sum PAYMENT (ss_takes s) \<longrightarrow> 0 < paid * sg)"

lemma netting_only: "netted_ok fr s \<Longrightarrow> src \<noteq> NETTING \<Longrightarrow> source_sum src (ss_takes s) = 0"
  by (rule sum_of_zero) (force simp: netted_ok_def)

lemma netted_sources:
  assumes "netted_ok fr s" "whole_state fr s" "sg = 1 \<or> sg = -1"
  shows "sources_ok fr paid sg s"
  using assms netting_only [OF assms(1), of PAYMENT] by (fastforce simp: sources_ok_def netted_ok_def settle_inv_def whole_state_def)

lemma spend_budget_sources:
  assumes fr: "frame_ok fr" and ok: "netted_ok fr s" "whole_state fr s" and fm: "forMoney \<in> \<int>" and noc: "\<not> commission_covers inp"
    and run: "spend_budget fr inp dir tooHigh forMoney s = (applied, creditTaken, s')"
  shows "\<exists>sg. sources_ok fr (toMinor (factor fr) (ai_paid inp)) sg s'"
proof (cases "budget_of fr inp dir = 0")
  case True
  then have "s' = s" using run by (simp add: spend_budget_def)
  then show ?thesis using netted_sources [OF ok, of 1] by auto
next
  case False
  define b where "b = budget_of fr inp dir"
  define sg :: amount where "sg = (if b > 0 then 1 else -1)"
  define ts where "ts = fst (budget_takes fr sg b tooHigh forMoney s)"
  define w where "w = max 0 (waiveMinor fr inp dir * sg)"
  have s': "s' = tag_takes fr ts w 0 s"
    using run False noc by (auto simp: spend_budget_def Let_def case_prod_beta b_def sg_def ts_def w_def commissionCoverMinor_def)
  have inv: "settle_inv fr s" using ok by (simp add: netted_ok_def)
  have sg: "sg = 1 \<or> sg = -1" by (simp add: sg_def)
  have bI: "b \<in> \<int>" by (simp add: b_def budget_whole)
  note bt = budget_takes_ok [OF fr inv bI sg fm, where tooHigh = tooHigh, folded ts_def]
  have t: "0 \<le> ft_take t \<and> ft_take t \<in> \<int>" "ft_id t < n_all fr" if "t \<in> set ts" for t
    using bt(1) that by (auto simp: budget_ok_def fitting_def less_imp_le)
  have w: "0 \<le> w" "w \<in> \<int>" using budget_whole(2) [of fr inp dir] sg by (auto simp: w_def max_def)
  obtain new where new: "ss_takes s' = ss_takes s @ new"
    "\<forall>(i, src, m) \<in> set new. i \<in> ft_id ` set ts \<and> src \<in> {WAIVE, PAYMENT} \<and> 0 < m \<and> m \<in> \<int>"
    "source_sum PAYMENT new = sum_of ft_take ts - min w (sum_of ft_take ts)"
    using tag_takes_new [OF w t(1), of ts fr s] unfolding s' by blast
  have pay: "0 < toMinor (factor fr) (ai_paid inp) * sg" if "0 < source_sum PAYMENT (ss_takes s')"
  proof -
    have "w < sum_of ft_take ts" using that netting_only [OF ok(1), of PAYMENT] by (simp add: new(1,3) min_def split: if_splits)
    moreover have "sum_of ft_take ts \<le> \<bar>b\<bar>" using bt(1) by (simp add: budget_ok_def)
    moreover have "\<bar>b\<bar> = b * sg" by (simp add: sg_def)
    moreover have "b = toMinor (factor fr) (ai_paid inp) + waiveMinor fr inp dir" using noc by (simp add: b_def budget_of_def commissionCoverMinor_def)
    ultimately have "waiveMinor fr inp dir * sg < (toMinor (factor fr) (ai_paid inp) + waiveMinor fr inp dir) * sg" by (simp add: w_def)
    then show ?thesis by (simp add: distrib_right)
  qed
  have "recorded fr (\<lambda>x. x = NETTING) s' = recorded fr (\<lambda>x. x = NETTING) s"
  proof -
    have "filter (\<lambda>(i, src, m). src = NETTING) new = []" using new(2) by (auto simp: filter_empty_conv)
    then show ?thesis by (simp add: recorded_def new(1))
  qed
  then have "sources_ok fr (toMinor (factor fr) (ai_paid inp)) sg s'"
    using netted_sources [OF ok sg, of "toMinor (factor fr) (ai_paid inp)"] new(2) pay t(2) bt(2)
    unfolding sources_ok_def new(1) set_append by fastforce
  then show ?thesis ..
qed

lemma settle_run_sources:
  assumes fr: "frame_ok fr" and run: "settle_run fr inp = (dir, tooHigh, creditApplied, applied, s)" and noc: "\<not> commission_covers inp"
  shows "\<exists>sg. sources_ok fr (toMinor (factor fr) (ai_paid inp)) sg s"
proof -
  define s1 where "s1 = netted fr"
  define s2 where "s2 = snd (use_credit fr inp s1)"
  define fm where "fm = creditForMoneyMinor fr inp dir (fst (use_credit fr inp s1))"
  have run2: "spend_budget fr inp dir tooHigh fm s2 = (applied, fst (snd (spend_budget fr inp dir tooHigh fm s2)), s)"
    using run by (auto simp: settle_run_def Let_def case_prod_beta s1_def s2_def fm_def)
  have ok1: "netted_ok fr s1" "one_sided fr s1" using netted_spec [OF fr] by (simp_all add: s1_def)
  have "settle_inv fr s1" using ok1 by (simp add: netted_ok_def)
  then have w2: "whole_state fr s2" "fst (use_credit fr inp s1) \<in> \<int>"
    using use_credit_whole [OF fr netted_whole [OF fr]] owed_whole(1) [OF fr] by (auto simp: s1_def s2_def)
  have ok2: "netted_ok fr s2" using use_credit_spec [OF fr ok1] by (simp add: s2_def)
  have "fm \<in> \<int>" using w2(2) by (simp add: fm_def creditForMoneyMinor_def creditUsedMinor_def Ints_abs)
  from spend_budget_sources [OF fr ok2 w2(1) this noc run2] show ?thesis .
qed

end
