(* ===== verification/Partner_Settle_Days_Safety.thy ===== *)
theory Partner_Settle_Days_Safety
  imports Partner_Settle_Days Partner_Settlement_Balance Account_Settlement_Sources
begin

text \<open>
  Settling days keeps the partner books: what a settlement writes adds up to zero in each currency, because
  its nettings are neutral and its money and forgiven amount are booked once on the rows they cover and once,
  on the other side, on the settlement's own rows.
\<close>

section \<open>The units of a partner have ids of their own\<close>

lemma distinct_heads: "distinct (concat xss) \<Longrightarrow> \<forall>xs \<in> set xss. xs \<noteq> [] \<Longrightarrow> distinct (map hd xss)"
proof (induction xss)
  case (Cons xs xss)
  have "hd xs \<in> set xs" using Cons.prems(2) by simp
  moreover have "hd ys \<in> set (concat xss)" if "ys \<in> set xss" for ys using that Cons.prems(2) by (auto intro: hd_in_set)
  ultimately have "hd xs \<notin> hd ` set xss" using Cons.prems(1) by auto
  with Cons show ?case by simp
qed simp

lemma finish_unit_ids: "su_id (finish_unit u) = su_id u" "member_ids (finish_unit u) = member_ids u"
  by (simp_all add: finish_unit_def Let_def PartnerSettleUnit.truncate_def)

lemma unit_id_head:
  assumes "u \<in> set (buildPartnerSettleUnits rows coverage pw)"
  shows "member_ids u \<noteq> [] \<and> su_id u = hd (member_ids u)"
proof -
  let ?ws = "collect_units rows coverage pw"
  have ok: "\<forall>u \<in> set ?ws. attrMinor u = 0 \<and> 0 \<le> legacyMinor u" using collect_ok by blast
  obtain w where w: "u = finish_unit w" "w \<in> set (attribute_legacy ?ws)" using assms by (auto simp: buildPartnerSettleUnits_def)
  then have "bare w \<in> bare ` set ?ws" using attribute_legacy_spec(1) [OF ok] by (metis image_eqI list.set_map)
  then obtain v where v: "v \<in> set ?ws" "bare v = bare w" by auto
  then have same: "member_ids w = member_ids v" "su_id w = su_id v"
    using bare_eqD(12) [OF v(2)] truncate_su_id [OF bare_eqD(1) [OF v(2)]] by simp_all
  obtain g where g: "g \<in> set (unit_groups rows)" "v = unit_of_group (effectByRow coverage) pw (snd g)"
    using v(1) by (auto simp: collect_units_def)
  then have "snd g \<noteq> []" using unit_groups_ok [of rows] by (auto simp: groups_ok_def)
  then have "js_sort byMemberId (snd g) \<noteq> []" by (metis length_0_conv length_js_sort)
  then show ?thesis by (simp add: w(1) finish_unit_ids same g(2) unit_of_group_def Let_def hd_map)
qed

lemma loaded_units_distinct:
  assumes "books_ok db"
  shows "distinct (map su_id (loadUnits e p db))"
proof -
  let ?units = "loadUnits e p db"
  have "distinct (map pl_id (pd_ledger db))" using assms by (simp add: books_ok_def ledger_ok_def)
  then have "distinct (map pr_id (loadLedgerRows e p db))"
    by (simp add: loadLedgerRows_def comp_def distinct_map inj_on_def)
  then have "distinct (map pr_id (filter tracked (loadLedgerRows e p db)))"
    by (simp add: distinct_map inj_on_def)
  then have "distinct (concat (map member_ids ?units))"
    using build_members [of "loadLedgerRows e p db"] unfolding loadUnits_def by (metis mset_eq_imp_distinct_iff)
  moreover have "\<forall>xs \<in> set (map member_ids ?units). xs \<noteq> []" using unit_id_head unfolding loadUnits_def by auto
  ultimately have "distinct (map hd (map member_ids ?units))" by (rule distinct_heads)
  moreover have "map hd (map member_ids ?units) = map su_id ?units" using unit_id_head unfolding loadUnits_def by auto
  ultimately show ?thesis by (simp only:)
qed

lemma unit_by_id_self: "distinct (map su_id units) \<Longrightarrow> u \<in> set units \<Longrightarrow> unit_by_id units (su_id u) = Some u"
  unfolding unit_by_id_def by (rule find_unique) (simp_all add: rev_map [symmetric])

section \<open>The rows of the allocation\<close>

lemma minorFactor_eq: "minorFactor c = partner_minorFactor c"
  by (simp add: minorFactor_def partner_minorFactor_def)

lemma whole_toMinor: "partner_round x c = x \<Longrightarrow> toMinor (partner_minorFactor c) x = x * partner_minorFactor c"
  using partner_whole_minor [of x c] by (simp add: toMinor_def partner_toMinor_def js_or_def split: if_splits)

lemma alloc_row:
  fixes d :: PartnerSettleDaysInput and day account :: "PartnerSettleUnit list" and c :: PartnerCurrency and paid waive :: amount
  defines "fr \<equiv> make_frame (alloc_input d day account c paid waive)"
  assumes "i < n_all fr"
  shows "\<exists>u \<in> set day \<union> set account. su_currency u = c \<and> all_rows fr ! i = toAlloc (sd_partnerId d) u
    \<and> orig fr ! i = toMinor (partner_minorFactor c) (su_remaining u)"
proof -
  let ?inp = "alloc_input d day account c paid waive"
  have "all_rows fr ! i \<in> set (all_rows fr)" using assms(2) by simp
  also have "set (all_rows fr) = set (ai_rows ?inp) \<union> set (account_credits ?inp)"
    by (simp add: fr_def make_frame_def Let_def)
  finally obtain u where u: "u \<in> set day \<union> set account" "su_currency u = c" "all_rows fr ! i = toAlloc (sd_partnerId d) u"
    by (auto simp: alloc_input_def)
  moreover have "orig fr = map (\<lambda>r. toMinor (minorFactor (ai_currency ?inp)) (ar_remaining r)) (all_rows fr)"
    by (simp add: fr_def make_frame_def Let_def)
  then have "orig fr ! i = toMinor (minorFactor (ai_currency ?inp)) (ar_remaining (all_rows fr ! i))"
    using assms(2) by simp
  ultimately show ?thesis by (auto simp: minorFactor_eq alloc_input_def toAlloc_def)
qed

lemma alloc_factor: "factor (make_frame (alloc_input d day account c paid waive)) = partner_minorFactor c"
  by (simp add: make_frame_def Let_def minorFactor_eq alloc_input_def)

section \<open>A plan balances\<close>

text \<open>A plan of one currency with the state its allocation ended in.\<close>

definition known_units :: "PartnerSettleUnit list \<Rightarrow> PartnerSettleUnit list \<Rightarrow> bool" where
  "known_units units us \<longleftrightarrow> set us \<subseteq> set units \<and> distinct (map su_id units)
     \<and> (\<forall>u \<in> set us. partner_round (su_remaining u) (su_currency u) = su_remaining u)"

definition plan_state :: "PartnerSettleUnit list \<Rightarrow> settle_frame \<Rightarrow> settle_state \<Rightarrow> amount \<Rightarrow> day_plan \<Rightarrow> bool" where
  "plan_state units fr s sg p \<longleftrightarrow>
     sources_ok fr (dp_paid p * partner_minorFactor (dp_currency p)) sg s
     \<and> as_takes (dp_alloc p) = map (\<lambda>(i, src, m). \<lparr>at_kind = ar_kind (all_rows fr ! i), at_id = ar_id (all_rows fr ! i),
          at_member = member_supplier_id (all_rows fr ! i), at_source = src, at_amount = m / partner_minorFactor (dp_currency p)\<rparr>) (ss_takes s)
     \<and> (\<forall>(i, src, m) \<in> set (ss_takes s). \<exists>u. unit_by_id units (ar_id (all_rows fr ! i)) = Some u \<and> su_id u = ar_id (all_rows fr ! i)
          \<and> u \<in> set units \<and> su_currency u = dp_currency p \<and> (orig fr ! i > 0) = (su_remaining u > 0) \<and> su_remaining u \<noteq> 0)
     \<and> waiveApplied p = source_sum WAIVE (ss_takes s) / partner_minorFactor (dp_currency p)
     \<and> moneyApplied p = source_sum PAYMENT (ss_takes s) / partner_minorFactor (dp_currency p)"

lemma round_whole_minor: "m \<in> \<int> \<Longrightarrow> partner_round (m / partner_minorFactor c) c = m / partner_minorFactor c"
  unfolding whole.fixed_iff by (elim Ints_cases) auto

lemma legs_net_whole: "partner_round (settleLegsNetIn legs c rate) c = settleLegsNetIn legs c rate"
proof -
  have "roundSettleAmount x c = partner_round x c" for x by (simp add: roundSettleAmount_def partner_round_def)
  then show ?thesis unfolding settleLegsNetIn_def by (simp add: whole.rnd_idem)
qed

lemma fold_source_sum:
  assumes "as_takes a = map (\<lambda>(i, src, m). \<lparr>at_kind = K i, at_id = I i, at_member = M i, at_source = src, at_amount = m / f\<rparr>) xs"
  shows "takes_from src a = source_sum src xs / f"
proof -
  have "sum_of at_amount (filter (\<lambda>t. at_source t = src) (map (\<lambda>(i, src, m). \<lparr>at_kind = K i, at_id = I i, at_member = M i, at_source = src, at_amount = m / f\<rparr>) xs))
      = source_sum src xs / f"
    by (induction xs) (auto simp: add_divide_distrib)
  then show ?thesis by (simp add: takes_from_def assms)
qed

lemma plan_section_state:
  assumes plan: "plan_section d day account (c, sec) = Inr p" and known: "known_units units (day @ account)"
  shows "\<exists>fr s sg. plan_state units fr s sg p" "dp_currency p = c" "dp_section p = sec"
    "partner_round (dp_paid p) c = dp_paid p" "0 \<le> dp_net p" "\<bar>dp_paid p\<bar> = dp_net p"
proof -
  define net where "net = settleLegsNetIn (sec_payments sec) c (case sd_exchange_rate d of None \<Rightarrow> 0 | Some r \<Rightarrow> r)"
  define paid where "paid = (if sec_payer sec = PARTNER then net else - net)"
  define waive where "waive = (case sec_forgive sec of None \<Rightarrow> 0 | Some f \<Rightarrow> fg_amount f)"
  define inp where "inp = alloc_input d day account c paid waive"
  define fr where "fr = make_frame inp"
  have p: "p = \<lparr>dp_currency = c, dp_section = sec, dp_net = partner_round net c, dp_paid = paid, dp_alloc = allocateAccountSettlement inp,
      waiveApplied = partner_round (takes_from WAIVE (allocateAccountSettlement inp)) c,
      moneyApplied = partner_round (takes_from PAYMENT (allocateAccountSettlement inp)) c\<rparr>" and chg: "\<not> net < - EPS c"
    using plan unfolding plan_section_def Let_def prod.case net_def [symmetric] paid_def [symmetric] waive_def [symmetric] inp_def [symmetric]
    by (simp_all split: if_splits)
  have net: "partner_round net c = net" unfolding net_def by (rule legs_net_whole)
  have pos: "0 \<le> net"
  proof (rule ccontr)
    assume "\<not> 0 \<le> net"
    then have "0 \<le> - net" "- net \<le> EPS c" using chg by auto
    moreover have "partner_round (- net) c = - net" using whole.fixed_diff [OF whole.rnd_zero net] by simp
    ultimately have "- net = 0" using whole_eps by blast
    with \<open>\<not> 0 \<le> net\<close> show False by simp
  qed
  show "dp_currency p = c" "dp_section p = sec" by (simp_all add: p)
  show "0 \<le> dp_net p" "\<bar>dp_paid p\<bar> = dp_net p" using pos by (auto simp: p net paid_def)
  have paid: "partner_round paid c = paid" using net whole.fixed_diff [OF whole.rnd_zero net] by (simp add: paid_def)
  then show "partner_round (dp_paid p) c = dp_paid p" by (simp add: p)
  obtain dir tooHigh cr applied s where run: "settle_run fr inp = (dir, tooHigh, cr, applied, s)" by (metis prod_cases5)
  have ok: "frame_ok fr" by (simp add: fr_def make_frame_ok)
  have f: "factor fr = partner_minorFactor c" by (simp add: fr_def inp_def alloc_factor)
  have "toMinor (factor fr) (ai_paid inp) = paid * partner_minorFactor c"
    using whole_toMinor [OF paid] by (simp add: f) (simp add: inp_def alloc_input_def)
  then obtain sg where src: "sources_ok fr (paid * partner_minorFactor c) sg s"
    using settle_run_sources [OF ok run] by (auto simp: inp_def alloc_input_def)
  have inv: "settle_inv fr s" using settle_run_spec [OF ok run] by simp
  have takes: "as_takes (dp_alloc p) = map (\<lambda>(i, src, m). \<lparr>at_kind = ar_kind (all_rows fr ! i), at_id = ar_id (all_rows fr ! i),
      at_member = member_supplier_id (all_rows fr ! i), at_source = src, at_amount = m / partner_minorFactor c\<rparr>) (ss_takes s)"
    using settle_parts(1) [OF run [unfolded fr_def]] by (simp add: p fr_def [symmetric] f fromMinor_def) (auto simp: fromMinor_def)
  have unit: "\<exists>u. unit_by_id units (ar_id (all_rows fr ! i)) = Some u \<and> su_id u = ar_id (all_rows fr ! i)
      \<and> u \<in> set units \<and> su_currency u = c \<and> (orig fr ! i > 0) = (su_remaining u > 0) \<and> su_remaining u \<noteq> 0"
    if x: "(i, src, m) \<in> set (ss_takes s)" for i src m
  proof -
    have i: "i < n_all fr" "0 < m" using src x by (auto simp: sources_ok_def)
    obtain u where u: "u \<in> set day \<union> set account" "su_currency u = c" "all_rows fr ! i = toAlloc (sd_partnerId d) u"
      "orig fr ! i = toMinor (partner_minorFactor c) (su_remaining u)"
      using alloc_row [OF i(1) [unfolded fr_def inp_def]] by (auto simp: fr_def inp_def)
    have orig: "orig fr ! i = su_remaining u * partner_minorFactor c"
      using known u(1,2) unfolding u(4) by (intro whole_toMinor) (auto simp: known_units_def)
    have "m \<le> sum_of (\<lambda>(j, src, m). m) (filter (\<lambda>(j, src, m). j = i) (ss_takes s))"
      using member_sum_of_le [of "(i, src, m)" "filter (\<lambda>(j, src, m). j = i) (ss_takes s)" "\<lambda>(j, src, m). m"] x src
      by (force simp: sources_ok_def)
    then have "m \<le> \<bar>orig fr ! i\<bar>" using inv i(1) by (force simp: settle_inv_def)
    with i(2) have "su_remaining u \<noteq> 0" by (auto simp: orig)
    moreover have "u \<in> set units" "unit_by_id units (su_id u) = Some u"
      using known u(1) by (auto simp: known_units_def intro!: unit_by_id_self)
    moreover have "(orig fr ! i > 0) = (su_remaining u > 0)" unfolding orig by (simp add: partner_minorFactor_def)
    moreover have "ar_id (all_rows fr ! i) = su_id u" by (simp add: u(3) toAlloc_def)
    ultimately show ?thesis using u(2) by auto
  qed
  have sums: "source_sum src (ss_takes s) \<in> \<int>" for src using src by (intro Ints_sum_of) (auto simp: sources_ok_def)
  have "plan_state units fr s sg p"
    unfolding plan_state_def using src takes unit round_whole_minor [OF sums] fold_source_sum [OF takes]
    by (simp add: p) blast
  then show "\<exists>fr s sg. plan_state units fr s sg p" by blast
qed

lemma cover_effect:
  assumes "partner_round amt c = amt"
  shows "effect_of (rounded (settle_cover txn a p c i side amt src cl)) = of_int (sideSign side) * amt"
  by (simp add: effect_rounded settle_cover_def assms)

lemma plan_state_unit:
  assumes "plan_state units fr s sg p" "(i, src, m) \<in> set (ss_takes s)"
  shows "\<exists>u. unit_by_id units (ar_id (all_rows fr ! i)) = Some u \<and> su_id u = ar_id (all_rows fr ! i)
    \<and> u \<in> set units \<and> su_currency u = dp_currency p \<and> (orig fr ! i > 0) = (su_remaining u > 0) \<and> su_remaining u \<noteq> 0"
  using assms unfolding plan_state_def by (elim conjE) (drule bspec, assumption, simp)

lemma take_writes_effect:
  assumes "plan_state units fr s sg p"
  shows "sum_of (\<lambda>w. effect_of (rounded w)) (take_writes units txn a pid p)
    = sum_of (\<lambda>(i, src, m). signed fr i m / partner_minorFactor (dp_currency p)) (ss_takes s)"
proof -
  define f where "f = partner_minorFactor (dp_currency p)"
  define g where "g = (\<lambda>t :: AccountSettleAllocTake. case unit_by_id units (at_id t) of None \<Rightarrow> []
    | Some u \<Rightarrow> [settle_cover txn a pid (dp_currency p) (su_id u) (partnerCoverSide (su_remaining u)) (at_amount t)
                   (cover_source (at_source t)) (list_ex (\<lambda>r. snd r = su_id u) (as_closed (dp_alloc p)))])"
  define h where "h = (\<lambda>(i, src, m). \<lparr>at_kind = ar_kind (all_rows fr ! i), at_id = ar_id (all_rows fr ! i),
    at_member = member_supplier_id (all_rows fr ! i), at_source = src, at_amount = m / f\<rparr>)"
  have "as_takes (dp_alloc p) = map h (ss_takes s)" using assms unfolding plan_state_def h_def f_def by blast
  moreover have "take_writes units txn a pid p = concat (map g (as_takes (dp_alloc p)))" unfolding take_writes_def g_def ..
  ultimately have tw: "take_writes units txn a pid p = concat (map g (map h (ss_takes s)))" by metis
  have one: "sum_of (\<lambda>w. effect_of (rounded w)) (g (h x)) = (case x of (i, src, m) \<Rightarrow> signed fr i m / f)" if mem: "x \<in> set (ss_takes s)" for x
  proof -
    obtain i src m where x: "x = (i, src, m)" by (cases x) auto
    obtain u where u: "unit_by_id units (ar_id (all_rows fr ! i)) = Some u" "(orig fr ! i > 0) = (su_remaining u > 0)"
      using plan_state_unit [OF assms, of i src m] mem by (auto simp: x)
    have "m \<in> \<int>" using assms mem by (auto simp: plan_state_def sources_ok_def x)
    then have "partner_round (m / f) (dp_currency p) = m / f" unfolding f_def by (rule round_whole_minor)
    from cover_effect [OF this] u show ?thesis
      by (simp add: x g_def h_def signed_def partnerCoverSide_def sideSign_def)
  qed
  show ?thesis unfolding tw sum_of_concat map_map f_def [symmetric] using one by (intro sum_of_cong) simp
qed

lemma sources_sum:
  assumes "sources_ok fr paid sg s"
  shows "sum_of (\<lambda>(i, src, m). signed fr i m / f) (ss_takes s)
    = sg * (source_sum WAIVE (ss_takes s) / f) + sg * (source_sum PAYMENT (ss_takes s) / f)"
proof -
  have each: "(case x of (i, src, m) \<Rightarrow> signed fr i m / f)
      = (case x of (i, src, m) \<Rightarrow> if src = NETTING then signed fr i m else 0) / f
        + sg / f * (case x of (i, src, m) \<Rightarrow> if src = WAIVE then m else 0)
        + sg / f * (case x of (i, src, m) \<Rightarrow> if src = PAYMENT then m else 0)" if "x \<in> set (ss_takes s)" for x
  proof -
    obtain i src m where x: "x = (i, src, m)" by (cases x) auto
    have "src \<noteq> COMMISSION" "src \<noteq> NETTING \<Longrightarrow> (orig fr ! i > 0) = (sg > 0)" "sg = 1 \<or> sg = -1"
      using assms that by (auto simp: sources_ok_def x)
    then show ?thesis by (cases src) (auto simp: x signed_def)
  qed
  have "sum_of (\<lambda>(i, src, m). if src = NETTING then signed fr i m else 0) (ss_takes s) = recorded fr (\<lambda>x. x = NETTING) s"
    unfolding recorded_def sum_list_map_filter' by (rule sum_of_cong) (auto split: prod.split)
  also have "\<dots> = 0" using assms by (simp add: sources_ok_def)
  finally have net: "sum_of (\<lambda>x. (case x of (i, src, m) \<Rightarrow> if src = NETTING then signed fr i m else 0) / f) (ss_takes s) = 0"
    using sum_of_scale [of "inverse f" "\<lambda>(i, src, m). if src = NETTING then signed fr i m else 0"] by (simp add: divide_inverse mult.commute)
  have "sum_of (\<lambda>(i, src, m). signed fr i m / f) (ss_takes s)
      = sum_of (\<lambda>x. (case x of (i, src, m) \<Rightarrow> if src = NETTING then signed fr i m else 0) / f
        + sg / f * (case x of (i, src, m) \<Rightarrow> if src = WAIVE then m else 0)
        + sg / f * (case x of (i, src, m) \<Rightarrow> if src = PAYMENT then m else 0)) (ss_takes s)"
    by (rule sum_of_cong) (rule each)
  also have "\<dots> = sg / f * source_sum WAIVE (ss_takes s) + sg / f * source_sum PAYMENT (ss_takes s)"
    by (simp only: sum_list_addf sum_of_scale net add_0)
  finally show ?thesis by simp
qed

lemma first_waive_side:
  assumes st: "plan_state units fr s sg p" and pos: "0 < source_sum WAIVE (ss_takes s)"
  shows "of_int (sideSign (discount_side units p)) = - sg"
proof -
  have "\<exists>x \<in> set (ss_takes s). fst (snd x) = WAIVE"
  proof (rule ccontr)
    assume "\<not> (\<exists>x \<in> set (ss_takes s). fst (snd x) = WAIVE)"
    then have "source_sum WAIVE (ss_takes s) = 0" by (intro sum_of_zero) auto
    with pos show False by simp
  qed
  then have "\<exists>t \<in> set (as_takes (dp_alloc p)). at_source t = WAIVE" using st by (force simp: plan_state_def)
  then obtain t where t: "find (\<lambda>t. at_source t = WAIVE) (as_takes (dp_alloc p)) = Some t" by (metis (mono_tags, lifting) find_None_iff not_None_eq)
  then have "t \<in> set (as_takes (dp_alloc p))" "at_source t = WAIVE" by (auto simp: find_Some_iff)
  then obtain i m where x: "(i, WAIVE, m) \<in> set (ss_takes s)" "at_id t = ar_id (all_rows fr ! i)"
    using st by (auto simp: plan_state_def)
  obtain u where u: "unit_by_id units (at_id t) = Some u" "(orig fr ! i > 0) = (su_remaining u > 0)" "su_remaining u \<noteq> 0"
    using plan_state_unit [OF st x(1)] x(2) by auto
  have "(orig fr ! i > 0) = (sg > 0)" "sg = 1 \<or> sg = -1" using st x(1) by (auto simp: plan_state_def sources_ok_def)
  then show ?thesis using u by (auto simp: discount_side_def t sideSign_def)
qed

definition plan_rows_ok :: "PartnerSettleUnit list \<Rightarrow> day_plan \<Rightarrow> partner_ledger_row \<Rightarrow> partner_ledger_row option \<Rightarrow> bool" where
  "plan_rows_ok units p own disc \<longleftrightarrow>
     pl_direction own = settle_side p
     \<and> (case disc of None \<Rightarrow> waiveApplied p \<le> EPS (dp_currency p) | Some r \<Rightarrow> pl_direction r = discount_side units p)"

lemma plan_writes_balance:
  assumes st: "plan_state units fr s sg p" and rows: "plan_rows_ok units p own disc"
  shows "sum_of (\<lambda>w. effect_of (rounded w)) (take_writes units txn a pid p @ own_writes txn a pid p own @ discount_writes txn a pid p disc) = 0"
proof -
  define c where "c = dp_currency p"
  define W where "W = source_sum WAIVE (ss_takes s)"
  define P where "P = source_sum PAYMENT (ss_takes s)"
  have src: "sources_ok fr (dp_paid p * partner_minorFactor c) sg s" using st by (simp add: plan_state_def c_def)
  have amounts: "waiveApplied p = W / partner_minorFactor c" "moneyApplied p = P / partner_minorFactor c"
    using st by (simp_all add: plan_state_def c_def W_def P_def)
  have sums: "source_sum x (ss_takes s) \<in> \<int>" "0 \<le> source_sum x (ss_takes s)" for x
  proof -
    have "m \<in> \<int> \<and> 0 < m" if "(i, y, m) \<in> set (ss_takes s)" for i y m using src that by (auto simp: sources_ok_def)
    then show "source_sum x (ss_takes s) \<in> \<int>" "0 \<le> source_sum x (ss_takes s)"
      by (force intro!: Ints_sum_of, force intro!: sum_of_nonneg simp: less_imp_le)
  qed
  then have int: "W \<in> \<int>" "P \<in> \<int>" "0 \<le> W" "0 \<le> P" by (simp_all add: W_def P_def)
  have whole: "partner_round (W / partner_minorFactor c) c = W / partner_minorFactor c" "partner_round (P / partner_minorFactor c) c = P / partner_minorFactor c"
    using round_whole_minor [OF int(1)] round_whole_minor [OF int(2)] by blast+
  have nonneg: "0 \<le> W / partner_minorFactor c" "0 \<le> P / partner_minorFactor c" using int(3,4) by (simp_all add: partner_minorFactor_def)
  have zero: "W / partner_minorFactor c \<le> EPS c \<longleftrightarrow> W = 0" "P / partner_minorFactor c \<le> EPS c \<longleftrightarrow> P = 0"
    using whole_eps [OF whole(1) nonneg(1)] whole_eps [OF whole(2) nonneg(2)] by (simp_all add: partner_minorFactor_def)
  have own: "sum_of (\<lambda>w. effect_of (rounded w)) (own_writes txn a pid p own) = - (sg * (P / partner_minorFactor c))"
  proof (cases "P = 0")
    case False
    then have "0 < dp_paid p * partner_minorFactor c * sg" using src int(4) by (simp add: sources_ok_def P_def)
    then have "0 < partner_minorFactor c * (dp_paid p * sg)" by (simp only: ac_simps)
    then have "0 < dp_paid p * sg" by (rule zero_less_mult_pos) (rule partner_minorFactor_pos)
    moreover have "sg = 1 \<or> sg = -1" using src by (simp add: sources_ok_def)
    ultimately have "of_int (sideSign (settle_side p)) = - sg" by (auto simp: settle_side_def sideSign_def)
    with False rows show ?thesis
      using zero(2) cover_effect [OF whole(2)] by (simp add: own_writes_def amounts c_def [symmetric] plan_rows_ok_def)
  qed (use zero(2) in \<open>simp add: own_writes_def amounts c_def [symmetric]\<close>)
  have disc: "sum_of (\<lambda>w. effect_of (rounded w)) (discount_writes txn a pid p disc) = - (sg * (W / partner_minorFactor c))"
  proof (cases disc)
    case None
    then show ?thesis using rows zero(1) by (simp add: plan_rows_ok_def amounts c_def [symmetric] discount_writes_def)
  next
    case (Some r)
    have "W = 0 \<or> of_int (sideSign (discount_side units p)) = - sg" using first_waive_side [OF st, folded W_def] int(3) by fastforce
    then show ?thesis using rows Some cover_effect [OF whole(1)]
      by (auto simp: plan_rows_ok_def amounts c_def [symmetric] discount_writes_def)
  qed
  show ?thesis
    using take_writes_effect [OF st, of txn a pid] sources_sum [OF src, of "partner_minorFactor c"] own disc
    by (simp add: c_def [symmetric] W_def P_def)
qed

section \<open>The rows a settlement adds\<close>

lemma linkTransaction_ok: "books_ok (linkTransaction i t db) = books_ok db"
  "pd_ledger (linkTransaction i t db) = pd_ledger db"
proof -
  define f where "f = (\<lambda>c :: coverage_row. if cw_settlement_ledger_id c = i \<and> cw_transaction_id c = None then c\<lparr>cw_transaction_id := Some t\<rparr> else c)"
  have same: "cv_id (f x) = cv_id x" "cover_ok rows (f x) = cover_ok rows x" "cv_is_reversed (f x) = cv_is_reversed x"
    "part_of rows a c (f x) = part_of rows a c x" "effect_of (f x) = effect_of x" for x rows a c
    by (simp_all add: f_def cover_ok_def part_of_def effect_of_def)
  have link: "linkTransaction i t db = db\<lparr>pd_coverage := map f (pd_coverage db)\<rparr>" by (simp add: linkTransaction_def f_def)
  show "books_ok (linkTransaction i t db) = books_ok db"
    by (simp add: books_ok_def coverage_ok_def rows_ok_def net_effect_def link comp_def same cong: if_cong)
  show "pd_ledger (linkTransaction i t db) = pd_ledger db" by (simp add: linkTransaction_def)
qed

lemma createTransaction_same:
  "same_books db (snd (createTransaction t db))" "pd_ledger (snd (createTransaction t db)) = pd_ledger db"
  by (simp_all add: createTransaction_def same_books_def)

lemma recordDiscount_ok: "books_ok (recordDiscount e row db) = books_ok db" "pd_ledger (recordDiscount e row db) = pd_ledger db"
  using same_books_ok [OF createTransaction_same(1)]
  by (simp_all add: recordDiscount_def Let_def case_prod_beta linkTransaction_ok createTransaction_same(2))

lemma post_legs_same:
  "post_legs e txn pls db = Inr db' \<Longrightarrow> same_books db db' \<and> pd_ledger db' = pd_ledger db"
proof (induction pls arbitrary: db)
  case (Cons pl pls)
  obtain db1 db2 where "insertPaymentRow \<lparr>pp_transaction_id = txn, pp_method = sl_method (snd pl), pp_drawer_name = leg_drawer e (snd pl),
      pp_currency_code = leg_currency (snd pl), pp_amount = signed_leg pl, pp_is_change = (sl_direction (snd pl) = Some LEG_OUT)\<rparr> db = Inr db1"
    "applyDrawerDelta (leg_drawer e (snd pl)) (leg_currency (snd pl)) (signed_leg pl) db1 = Inr db2" "post_legs e txn pls db2 = Inr db'"
    using Cons.prems by (auto simp: Let_def split: sum.splits)
  moreover from this have "same_books db db2 \<and> pd_ledger db2 = pd_ledger db"
    by (auto simp: insertPaymentRow_def applyDrawerDelta_def same_books_def split: sum.splits)
  ultimately show ?case using Cons.IH [of db2] by (auto intro: same_books_trans)
qed simp

text \<open>A row of the partner that links can point at.\<close>

definition anchor_row_of :: "nat \<Rightarrow> nat \<Rightarrow> partner_db \<Rightarrow> bool" where
  "anchor_row_of p a db \<longleftrightarrow> (\<exists>q \<in> set (pd_ledger db). pl_id q = a \<and> pl_partner_id q = p \<and> linked_to q = None)"

lemma uncovered_entry:
  "ce_skipCoverage d \<Longrightarrow> addLedgerEntry e d db = insert_ledger e d db"
  by (cases "insert_ledger e d db") (simp add: addLedgerEntry_def)

lemma settlement_entry_link:
  "entry_link (settlement_entry d anchor p) = anchor" "ce_partner_id (settlement_entry d anchor p) = sd_partnerId d"
  "ce_skipCoverage (settlement_entry d anchor p)" "ce_currency (settlement_entry d anchor p) = currency_text (dp_currency p)"
  "ce_direction (settlement_entry d anchor p) = settle_side p"
  by (simp_all add: settlement_entry_def entry_link_def)

definition own_row_ok :: "PartnerSettleDaysInput \<Rightarrow> partner_db \<Rightarrow> day_plan \<Rightarrow> partner_ledger_row \<Rightarrow> bool" where
  "own_row_ok d db p row \<longleftrightarrow> row \<in> set (pd_ledger db) \<and> pl_partner_id row = sd_partnerId d
     \<and> pl_currency row = currency_text (dp_currency p) \<and> pl_direction row = settle_side p"

lemma settle_rows_ok:
  assumes "books_ok db" "\<And>a. anchor = Some a \<Longrightarrow> anchor_row_of (sd_partnerId d) a db" "settle_rows e d anchor ps db = (rows, db')"
  shows "books_ok db' \<and> set (pd_ledger db) \<subseteq> set (pd_ledger db') \<and> list_all2 (own_row_ok d db') ps rows
    \<and> (ps \<noteq> [] \<longrightarrow> anchor_row_of (sd_partnerId d) (case anchor of None \<Rightarrow> pl_id (hd rows) | Some a \<Rightarrow> a) db')"
  using assms
proof (induction ps arbitrary: anchor db rows)
  case (Cons p ps)
  obtain row db1 where i: "insert_ledger e (settlement_entry d anchor p) db = (row, db1)" by fastforce
  define a where "a = (case anchor of None \<Rightarrow> pl_id row | Some a \<Rightarrow> a)"
  obtain rest where rest: "settle_rows e d (Some a) ps db1 = (rest, db')" "rows = row # rest"
    using Cons.prems(3) by (auto simp: uncovered_entry settlement_entry_link i a_def split: prod.splits)
  have "entry_ok db (settlement_entry d anchor p)"
    using Cons.prems(2) unfolding entry_ok_def settlement_entry_link
    by (simp add: settlement_entry_def text_or_def anchor_row_of_def)
  note ins = insert_ledger_ok [OF Cons.prems(1) this i, unfolded settlement_entry_link]
  have anchor1: "anchor_row_of (sd_partnerId d) a db1"
    using Cons.prems(2) ins by (cases anchor) (auto simp: a_def anchor_row_of_def)
  from Cons.IH [OF _ _ rest(1)] ins anchor1
  have IH: "books_ok db' \<and> set (pd_ledger db1) \<subseteq> set (pd_ledger db') \<and> list_all2 (own_row_ok d db') ps rest" by auto
  moreover have "own_row_ok d db' p row" using IH ins by (auto simp: own_row_ok_def)
  moreover have "anchor_row_of (sd_partnerId d) a db'" using anchor1 IH by (auto simp: anchor_row_of_def)
  moreover have "(case anchor of None \<Rightarrow> pl_id (hd rows) | Some a \<Rightarrow> a) = a" by (simp add: a_def rest(2) split: option.split)
  ultimately show ?case using ins rest(2) by auto
qed auto

definition disc_row_ok :: "PartnerSettleDaysInput \<Rightarrow> PartnerSettleUnit list \<Rightarrow> partner_db \<Rightarrow> day_plan \<Rightarrow> partner_ledger_row option \<Rightarrow> bool" where
  "disc_row_ok d units db p disc \<longleftrightarrow>
     (case disc of None \<Rightarrow> waiveApplied p \<le> EPS (dp_currency p)
      | Some r \<Rightarrow> \<not> waiveApplied p \<le> EPS (dp_currency p) \<and> r \<in> set (pd_ledger db) \<and> pl_partner_id r = sd_partnerId d
          \<and> pl_currency r = currency_text (dp_currency p) \<and> pl_direction r = discount_side units p)"

lemma discount_entry_link:
  "entry_link (discount_entry d units a p) = Some a" "ce_partner_id (discount_entry d units a p) = sd_partnerId d"
  "ce_skipCoverage (discount_entry d units a p)" "ce_currency (discount_entry d units a p) = currency_text (dp_currency p)"
  "ce_direction (discount_entry d units a p) = discount_side units p"
  by (simp_all add: discount_entry_def entry_link_def)

lemma discount_rows_ok:
  assumes "books_ok db" "anchor_row_of (sd_partnerId d) a db" "discount_rows e d units a ps db = (discs, db')"
  shows "books_ok db' \<and> set (pd_ledger db) \<subseteq> set (pd_ledger db') \<and> list_all2 (disc_row_ok d units db') ps discs"
  using assms
proof (induction ps arbitrary: db discs)
  case (Cons p ps)
  show ?case
  proof (cases "waiveApplied p \<le> EPS (dp_currency p)")
    case True
    then obtain rest where rest: "discount_rows e d units a ps db = (rest, db')" "discs = None # rest"
      using Cons.prems(3) by (auto split: prod.splits)
    from Cons.IH [OF Cons.prems(1,2) rest(1)] True show ?thesis by (simp add: rest(2) disc_row_ok_def)
  next
    case False
    obtain row db1 where i: "insert_ledger e (discount_entry d units a p) db = (row, db1)" by fastforce
    obtain rest where rest: "discount_rows e d units a ps (recordDiscount e row db1) = (rest, db')" "discs = Some row # rest"
      using Cons.prems(3) False by (auto simp: uncovered_entry discount_entry_link i split: prod.splits)
    have "entry_ok db (discount_entry d units a p)"
      using Cons.prems(2) unfolding entry_ok_def discount_entry_link
      by (simp add: discount_entry_def text_or_def anchor_row_of_def)
    note ins = insert_ledger_ok [OF Cons.prems(1) this i, unfolded discount_entry_link]
    have "anchor_row_of (sd_partnerId d) a (recordDiscount e row db1)"
      using Cons.prems(2) ins by (auto simp: anchor_row_of_def recordDiscount_ok)
    from Cons.IH [OF _ this rest(1)] ins
    have IH: "books_ok db' \<and> set (pd_ledger db1) \<subseteq> set (pd_ledger db') \<and> list_all2 (disc_row_ok d units db') ps rest"
      by (simp add: recordDiscount_ok)
    moreover have "disc_row_ok d units db' p (Some row)" using IH ins False by (auto simp: disc_row_ok_def)
    ultimately show ?thesis using ins rest(2) by auto
  qed
qed simp

section \<open>Settling days keeps the books\<close>

lemma zip3_rows:
  "list_all2 P xs ys \<Longrightarrow> list_all2 Q xs zs \<Longrightarrow> (x, y, z) \<in> set (zip xs (zip ys zs)) \<Longrightarrow> x \<in> set xs \<and> P x y \<and> Q x z"
proof (induction xs arbitrary: ys zs)
  case (Cons a xs)
  then show ?case by (cases ys; cases zs) auto
qed simp

lemma all_results_Inr: "all_results rs = Inr xs \<Longrightarrow> x \<in> set xs \<Longrightarrow> Inr x \<in> set rs"
  by (induction rs arbitrary: xs) (auto split: sum.splits)

lemma all_results_empty: "all_results rs = Inr [] \<Longrightarrow> rs = []"
  by (cases rs) (auto split: sum.splits)

lemma unit_by_id_in: "unit_by_id units i = Some u \<Longrightarrow> u \<in> set units"
  unfolding unit_by_id_def find_Some_iff by (metis nth_mem set_rev)

lemma scope_day_units: "scope_day units ids = Inr us \<Longrightarrow> set us \<subseteq> set units"
proof (induction ids arbitrary: us)
  case (Cons i ids)
  then obtain u vs where "unit_by_id units i = Some u" "scope_day units ids = Inr vs" "us = u # vs"
    by (auto split: option.splits if_splits sum.splits)
  then show ?case using Cons.IH unit_by_id_in by auto
qed simp

lemma settle_plans_Inr:
  assumes "books_ok db" "settle_plans e d db = Inr plans"
  defines "units \<equiv> loadUnits e (sd_partnerId d) db"
  obtains day where "known_units units (day @ scope_account d units)" "scope_day units (sd_selections d) = Inr day"
    "all_results (map (plan_section d day (scope_account d units)) (sections d)) = Inr plans" "plans \<noteq> []"
proof -
  obtain day where day: "scope_day units (sd_selections d) = Inr day"
    "all_results (map (plan_section d day (scope_account d units)) (sections d)) = Inr plans" "sections d \<noteq> []"
    using assms(2) unfolding settle_plans_def units_def [symmetric] Let_def by (auto split: if_splits option.splits sum.splits)
  have "set (day @ scope_account d units) \<subseteq> set units"
    using scope_day_units [OF day(1)] by (auto simp: scope_account_def)
  moreover from this have "\<forall>u \<in> set (day @ scope_account d units). partner_round (su_remaining u) (su_currency u) = su_remaining u"
    using unit_in_books(2) unfolding units_def by blast
  ultimately have "known_units units (day @ scope_account d units)"
    using loaded_units_distinct [OF assms(1)] by (simp add: known_units_def units_def)
  moreover have "plans \<noteq> []" using all_results_empty day(2,3) by fastforce
  ultimately show thesis using that day(1,2) by blast
qed

lemma settleDays_steps:
  assumes "settleDays e d db = Inr (t, db')"
  obtains plans owns db1 db2 db3 discs db4 where "settle_plans e d db = Inr plans" "settle_rows e d None plans db = (owns, db1)"
    "createTransaction (settlement_txn e d plans (pl_id (hd owns))) db1 = (t, db2)" "post_legs e t (all_legs plans) db2 = Inr db3"
    "discount_rows e d (loadUnits e (sd_partnerId d) db) (pl_id (hd owns)) plans db3 = (discs, db4)"
    "db' = writeCoverage e (day_writes (loadUnits e (sd_partnerId d) db) t (pl_id (hd owns)) (sd_partnerId d) plans owns discs) db4"
proof -
  obtain plans where plans: "settle_plans e d db = Inr plans" using assms by (auto simp: settleDays_def split: sum.splits)
  obtain owns db1 where rows: "settle_rows e d None plans db = (owns, db1)" by fastforce
  obtain t2 db2 where txn: "createTransaction (settlement_txn e d plans (pl_id (hd owns))) db1 = (t2, db2)" by fastforce
  obtain db3 where posted: "post_legs e t2 (all_legs plans) db2 = Inr db3"
    using assms by (auto simp: settleDays_def plans rows txn Let_def split: sum.splits)
  obtain discs db4 where discs: "discount_rows e d (loadUnits e (sd_partnerId d) db) (pl_id (hd owns)) plans db3 = (discs, db4)" by fastforce
  have "t2 = t" "db' = writeCoverage e (day_writes (loadUnits e (sd_partnerId d) db) t (pl_id (hd owns)) (sd_partnerId d) plans owns discs) db4"
    using assms by (auto simp: settleDays_def plans rows txn Let_def posted discs)
  then show thesis using that plans rows txn posted discs by blast
qed

lemma plans_state:
  assumes "all_results (map (plan_section d day account) (sections d)) = Inr plans" "known_units units (day @ account)" "p \<in> set plans"
  shows "\<exists>fr s sg. plan_state units fr s sg p" "\<exists>c sec. plan_section d day account (c, sec) = Inr p"
proof -
  obtain c sec where "plan_section d day account (c, sec) = Inr p" using all_results_Inr [OF assms(1,3)] by auto
  then show "\<exists>fr s sg. plan_state units fr s sg p" "\<exists>c sec. plan_section d day account (c, sec) = Inr p"
    using plan_section_state(1) [OF _ assms(2)] by blast+
qed

definition units_in_ledger :: "nat \<Rightarrow> PartnerSettleUnit list \<Rightarrow> partner_db \<Rightarrow> bool" where
  "units_in_ledger p units db \<longleftrightarrow>
     (\<forall>u \<in> set units. \<exists>q \<in> set (pd_ledger db). pl_id q = su_id u \<and> pl_partner_id q = p \<and> pl_currency q = currency_text (su_currency u))"

lemma settle_cover_fields [simp]:
  "cw_settlement_ledger_id (settle_cover txn a p c i side amt src cl) = a" "cw_partner_ledger_id (settle_cover txn a p c i side amt src cl) = i"
  "cw_partner_id (settle_cover txn a p c i side amt src cl) = p" "cw_currency (settle_cover txn a p c i side amt src cl) = c"
  "cw_amount (settle_cover txn a p c i side amt src cl) = amt"
  by (simp_all add: settle_cover_def)

lemma take_write_cases:
  assumes st: "plan_state units fr s sg p" and w: "w \<in> set (take_writes units txn a pid p)"
  shows "\<exists>t u src cl. t \<in> set (as_takes (dp_alloc p)) \<and> at_id t = su_id u
    \<and> w = settle_cover txn a pid (dp_currency p) (su_id u) (partnerCoverSide (su_remaining u)) (at_amount t) src cl
    \<and> u \<in> set units \<and> su_currency u = dp_currency p \<and> 0 \<le> at_amount t \<and> partner_round (at_amount t) (dp_currency p) = at_amount t"
proof -
  obtain t u where t: "t \<in> set (as_takes (dp_alloc p))" "unit_by_id units (at_id t) = Some u"
    and eq: "w = settle_cover txn a pid (dp_currency p) (su_id u) (partnerCoverSide (su_remaining u)) (at_amount t)
      (cover_source (at_source t)) (list_ex (\<lambda>r. snd r = su_id u) (as_closed (dp_alloc p)))"
  proof -
    obtain t where t: "t \<in> set (as_takes (dp_alloc p))" "w \<in> set (case unit_by_id units (at_id t) of None \<Rightarrow> []
       | Some u \<Rightarrow> [settle_cover txn a pid (dp_currency p) (su_id u) (partnerCoverSide (su_remaining u)) (at_amount t)
                      (cover_source (at_source t)) (list_ex (\<lambda>r. snd r = su_id u) (as_closed (dp_alloc p)))])"
      using w unfolding take_writes_def by auto
    with that show thesis by (cases "unit_by_id units (at_id t)") auto
  qed
  have tk: "as_takes (dp_alloc p) = map (\<lambda>(i, src, m). \<lparr>at_kind = ar_kind (all_rows fr ! i), at_id = ar_id (all_rows fr ! i),
      at_member = member_supplier_id (all_rows fr ! i), at_source = src, at_amount = m / partner_minorFactor (dp_currency p)\<rparr>) (ss_takes s)"
    and src: "sources_ok fr (dp_paid p * partner_minorFactor (dp_currency p)) sg s"
    using st by (simp_all add: plan_state_def)
  obtain i src m where x: "(i, src, m) \<in> set (ss_takes s)" "at_id t = ar_id (all_rows fr ! i)" "at_amount t = m / partner_minorFactor (dp_currency p)"
    using t(1) unfolding tk by auto
  have m: "0 < m" "m \<in> \<int>" using src x(1) by (auto simp: sources_ok_def)
  then have "0 \<le> at_amount t" "partner_round (at_amount t) (dp_currency p) = at_amount t"
    unfolding x(3) by (simp_all add: partner_minorFactor_def round_whole_minor [unfolded partner_minorFactor_def])
  moreover have "at_id t = su_id u \<and> u \<in> set units \<and> su_currency u = dp_currency p" using plan_state_unit [OF st x(1)] t(2) x(2) by auto
  ultimately show ?thesis using eq t(1) by blast
qed

lemma chunk_ok:
  assumes st: "plan_state units fr s sg p" and own: "own_row_ok d db p own" and disc: "disc_row_ok d units db p disc"
    and units: "units_in_ledger (sd_partnerId d) units db" and anchor: "anchor_row_of (sd_partnerId d) a db"
    and w: "w \<in> set (take_writes units txn a (sd_partnerId d) p @ own_writes txn a (sd_partnerId d) p own @ discount_writes txn a (sd_partnerId d) p disc)"
  shows "cw_currency w = dp_currency p \<and> cw_settlement_ledger_id w = a \<and> write_ok (pd_ledger db) w"
proof -
  have anc: "\<exists>r \<in> set (pd_ledger db). pl_id r = a \<and> pl_partner_id r = sd_partnerId d" using anchor by (auto simp: anchor_row_of_def)
  consider "w \<in> set (take_writes units txn a (sd_partnerId d) p)"
    | "w = settle_cover txn a (sd_partnerId d) (dp_currency p) (pl_id own) (pl_direction own) (moneyApplied p) COVER_PAYMENT False" "moneyApplied p > EPS (dp_currency p)"
    | r where "disc = Some r" "w = settle_cover txn a (sd_partnerId d) (dp_currency p) (pl_id r) (pl_direction r) (waiveApplied p) COVER_DISCOUNT True"
    using w by (auto simp: own_writes_def discount_writes_def split: if_splits option.splits)
  then show ?thesis
  proof cases
    case 1
    from take_write_cases [OF st 1] obtain t :: AccountSettleAllocTake and u src cl where u: "w = settle_cover txn a (sd_partnerId d) (dp_currency p) (su_id u)
        (partnerCoverSide (su_remaining u)) (at_amount t) src cl"
      "u \<in> set units" "su_currency u = dp_currency p" "0 \<le> at_amount t" by blast
    have "\<exists>q \<in> set (pd_ledger db). pl_id q = su_id u \<and> pl_partner_id q = sd_partnerId d \<and> pl_currency q = currency_text (dp_currency p)"
      using units u(2,3) unfolding units_in_ledger_def by metis
    with anc u(4) show ?thesis unfolding u(1) by (simp add: write_okI)
  next
    case 2
    then have "0 \<le> moneyApplied p" using EPS_pos [of "dp_currency p"] by linarith
    then show ?thesis using own anc unfolding 2(1) by (auto simp: own_row_ok_def intro!: write_okI)
  next
    case (3 r)
    then have "0 \<le> waiveApplied p" using disc EPS_pos [of "dp_currency p"] by (simp add: disc_row_ok_def)
    then show ?thesis using disc 3(1) anc unfolding 3(2) by (auto simp: disc_row_ok_def intro!: write_okI)
  qed
qed

lemma rows_ok_of: "own_row_ok d db p own \<Longrightarrow> disc_row_ok d units db p disc \<Longrightarrow> plan_rows_ok units p own disc"
  by (auto simp: own_row_ok_def disc_row_ok_def plan_rows_ok_def split: option.splits)

lemma day_writes_ok:
  fixes txn :: nat
  assumes st: "\<And>p. p \<in> set plans \<Longrightarrow> \<exists>fr s sg. plan_state units fr s sg p"
    and own: "list_all2 (own_row_ok d db) plans owns" and disc: "list_all2 (disc_row_ok d units db) plans discs"
    and units: "units_in_ledger (sd_partnerId d) units db" and anchor: "anchor_row_of (sd_partnerId d) a db"
  defines "ws \<equiv> day_writes units txn a (sd_partnerId d) plans owns discs"
  shows "\<forall>w \<in> set ws. write_ok (pd_ledger db) w"
    and "sum_of (\<lambda>w. if part_of (pd_ledger db) a' c w then effect_of (rounded w) else 0) ws = 0"
proof -
  define ch where "ch = (\<lambda>(p, own, disc). take_writes units txn a (sd_partnerId d) p @ own_writes txn a (sd_partnerId d) p own
    @ discount_writes txn a (sd_partnerId d) p disc)"
  let ?rows = "zip plans (zip owns discs)"
  have ws: "ws = concat (map ch ?rows)" by (simp add: ws_def day_writes_def ch_def)
  have each: "(\<forall>w \<in> set (ch x). cw_currency w = dp_currency (fst x) \<and> cw_settlement_ledger_id w = a \<and> write_ok (pd_ledger db) w)
      \<and> sum_of (\<lambda>w. effect_of (rounded w)) (ch x) = 0" if mem: "x \<in> set ?rows" for x
  proof -
    obtain p ow di where x: "x = (p, ow, di)" by (cases x) auto
    have r: "p \<in> set plans" "own_row_ok d db p ow" "disc_row_ok d units db p di"
      using zip3_rows [OF own disc] mem unfolding x by blast+
    obtain fr s sg where ps: "plan_state units fr s sg p" using st [OF r(1)] by blast
    show ?thesis
      using chunk_ok [OF ps r(2,3) units anchor] plan_writes_balance [OF ps rows_ok_of [OF r(2,3)]]
      unfolding x ch_def prod.case fst_conv by blast
  qed
  then show "\<forall>w \<in> set ws. write_ok (pd_ledger db) w" unfolding ws by auto
  have cur: "sum_of (\<lambda>w. if cw_currency w = c' then effect_of (rounded w) else 0) ws = 0" for c'
    unfolding ws sum_of_concat map_map
  proof (rule sum_of_zero)
    fix x assume x: "x \<in> set ?rows"
    then have "sum_of (\<lambda>w. if cw_currency w = c' then effect_of (rounded w) else 0) (ch x)
        = sum_of (\<lambda>w. if dp_currency (fst x) = c' then effect_of (rounded w) else 0) (ch x)"
      using each by (intro sum_of_cong) auto
    then show "((\<lambda>xs. sum_of (\<lambda>w. if cw_currency w = c' then effect_of (rounded w) else 0) xs) \<circ> ch) x = 0"
      using each [OF x] by (cases "dp_currency (fst x) = c'") auto
  qed
  have "\<forall>w \<in> set ws. cw_settlement_ledger_id w = a" using each unfolding ws by auto
  then show "sum_of (\<lambda>w. if part_of (pd_ledger db) a' c w then effect_of (rounded w) else 0) ws = 0"
    using cur by (rule one_anchor_sum)
qed

lemma settleDays_ok:
  assumes "books_ok db" "settleDays e d db = Inr (txn, db')"
  shows "books_ok db'"
  using assms(2)
proof (rule settleDays_steps)
  fix plans db1 db2 db3 discs db4 and owns :: "partner_ledger_row list"
  let ?pid = "sd_partnerId d" and ?a = "pl_id (hd owns)"
  define units where "units = loadUnits e ?pid db"
  assume plans: "settle_plans e d db = Inr plans" and r: "settle_rows e d None plans db = (owns, db1)"
    and t: "createTransaction (settlement_txn e d plans ?a) db1 = (txn, db2)" and p3: "post_legs e txn (all_legs plans) db2 = Inr db3"
    and r4: "discount_rows e d (loadUnits e ?pid db) ?a plans db3 = (discs, db4)"
    and out: "db' = writeCoverage e (day_writes (loadUnits e ?pid db) txn ?a ?pid plans owns discs) db4"
  obtain day where known: "known_units units (day @ scope_account d units)" and ne: "plans \<noteq> []"
    and pl: "all_results (map (plan_section d day (scope_account d units)) (sections d)) = Inr plans"
    using settle_plans_Inr [OF assms(1) plans] unfolding units_def by metis
  have s1: "books_ok db1" "set (pd_ledger db) \<subseteq> set (pd_ledger db1)" "list_all2 (own_row_ok d db1) plans owns" "anchor_row_of ?pid ?a db1"
    using settle_rows_ok [OF assms(1) _ r] ne by auto
  have b2: "same_books db1 db2" "pd_ledger db2 = pd_ledger db1" using createTransaction_same [where db = db1] t by (metis snd_conv)+
  have s3: "books_ok db3" "pd_ledger db3 = pd_ledger db1"
    using post_legs_same [OF p3] same_books_ok [OF same_books_trans [OF b2(1)]] s1(1) b2(2) by auto
  have "anchor_row_of ?pid ?a db3" using s1(4) s3(2) by (simp add: anchor_row_of_def)
  from discount_rows_ok [OF s3(1) this r4]
  have s4: "books_ok db4" "set (pd_ledger db1) \<subseteq> set (pd_ledger db4)" "list_all2 (disc_row_ok d units db4) plans discs"
    by (auto simp: s3(2) units_def)
  have own4: "list_all2 (own_row_ok d db4) plans owns"
    using s1(3) s4(2) by (auto simp: own_row_ok_def elim!: list_all2_mono)
  have anc4: "anchor_row_of ?pid ?a db4" using s1(4) s4(2) by (auto simp: anchor_row_of_def)
  have units4: "units_in_ledger ?pid units db4"
    unfolding units_in_ledger_def
  proof
    fix u assume "u \<in> set units"
    with unit_in_books(1) [of u e ?pid db] s1(2) s4(2)
    show "\<exists>q \<in> set (pd_ledger db4). pl_id q = su_id u \<and> pl_partner_id q = ?pid \<and> pl_currency q = currency_text (su_currency u)"
      unfolding units_def by blast
  qed
  show ?thesis
    unfolding out units_def [symmetric] using day_writes_ok [OF plans_state(1) [OF pl known] own4 s4(3) units4 anc4]
    by (intro writeCoverage_ok [OF s4(1)]) blast+
qed

end
