(* ===== verification/Partner_Settlement_Properties.thy ===== *)
theory Partner_Settlement_Properties
  imports Partner_Settle_Days_Safety
begin

text \<open>
  What the partner settlement promises: when a settlement of days goes through, what it covers, what it does to
  the drawers, and that on every state the open amounts add up to the balance of the ledger.
\<close>

section \<open>When a settlement of days goes through\<close>

definition leg_refused :: "partner_env \<Rightarrow> settle_leg \<Rightarrow> bool" where
  "leg_refused e leg \<longleftrightarrow> leg_drawer e leg = BINANCE_DRAWER_NAME \<and> leg_currency leg = ''LBP''"

lemma posting_refused_iff: "(\<exists>x. postingCurrency (leg_drawer e leg) (leg_currency leg) = Inl x) \<longleftrightarrow> leg_refused e leg"
  by (auto simp: postingCurrency_def leg_refused_def)

lemma post_legs_succeeds:
  "(\<exists>db'. post_legs e txn pls db = Inr db') \<longleftrightarrow> (\<forall>pl \<in> set pls. \<not> leg_refused e (snd pl))"
proof (induction pls arbitrary: db)
  case (Cons pl pls)
  show ?case
  proof (cases "postingCurrency (leg_drawer e (snd pl)) (leg_currency (snd pl))")
    case (Inl x)
    then have "leg_refused e (snd pl)" using posting_refused_iff by blast
    then show ?thesis using Inl by (auto simp: insertPaymentRow_def)
  next
    case (Inr cur)
    then have "\<not> leg_refused e (snd pl)" using posting_refused_iff by (metis sum.distinct(1))
    then show ?thesis using Inr Cons.IH by (simp add: insertPaymentRow_def applyDrawerDelta_def Let_def)
  qed
qed simp

lemma settleDays_succeeds:
  assumes "settle_plans e d db = Inr plans"
  shows "(\<exists>r. settleDays e d db = Inr r) \<longleftrightarrow> (\<forall>pl \<in> set (all_legs plans). \<not> leg_refused e (snd pl))"
proof -
  obtain owns db1 where r: "settle_rows e d None plans db = (owns, db1)" by fastforce
  obtain t db2 where t: "createTransaction (settlement_txn e d plans (pl_id (hd owns))) db1 = (t, db2)" by fastforce
  have "(\<exists>r. settleDays e d db = Inr r) \<longleftrightarrow> (\<exists>db3. post_legs e t (all_legs plans) db2 = Inr db3)"
    by (auto simp: settleDays_def assms r t Let_def split: sum.splits prod.splits)
  then show ?thesis by (simp add: post_legs_succeeds)
qed

section \<open>The money\<close>

definition same_money :: "partner_db \<Rightarrow> partner_db \<Rightarrow> bool" where
  "same_money db db' \<longleftrightarrow> pd_payments db' = pd_payments db \<and> pd_drawers db' = pd_drawers db"

lemma same_money_refl [simp]: "same_money db db"
  by (simp add: same_money_def)

lemma same_money_trans: "same_money a b \<Longrightarrow> same_money b c \<Longrightarrow> same_money a c"
  by (simp add: same_money_def)

lemma fold_same_money: "(\<And>x d. same_money d (f x d)) \<Longrightarrow> same_money db (fold f xs db)"
  by (induction xs arbitrary: db) (auto intro: same_money_trans)

lemma share_heads_money: "same_money db (share_heads c db0 rest hs db)"
proof (induction hs arbitrary: rest db)
  case (Cons h hs)
  have "same_money db (set_covered i v db)" for i v by (simp add: set_covered_def same_money_def)
  then show ?case unfolding share_heads.simps Let_def by (rule same_money_trans [OF _ Cons.IH])
qed simp

lemma sync_money: "same_money db (syncObligationCovered e p ids db)"
  by (auto simp: syncObligationCovered_def sync_unit_def Let_def intro!: fold_same_money share_heads_money)

lemma writeCoverage_money: "same_money db (writeCoverage e ws db)"
proof -
  have "same_money db (fold insert_coverage ws db)"
    by (rule fold_same_money) (simp add: insert_coverage_def Let_def same_money_def)
  moreover have "same_money db1 (fold (\<lambda>t. syncObligationCovered e (fst t) (snd t)) (touched ws) db1)" for db1
    by (rule fold_same_money) (rule sync_money)
  ultimately show ?thesis unfolding writeCoverage_def by (rule same_money_trans)
qed

lemma insert_ledger_money: "insert_ledger e x db = (row, db') \<Longrightarrow> same_money db db'"
  by (auto simp: insert_ledger_def Let_def same_money_def)

lemma settle_rows_money: "settle_rows e d anchor ps db = (rows, db') \<Longrightarrow> same_money db db'"
proof (induction ps arbitrary: anchor db rows)
  case (Cons p ps)
  then show ?case
    by (auto simp: uncovered_entry settlement_entry_link split: prod.splits
        intro: same_money_trans [OF insert_ledger_money])
qed simp

lemma recordDiscount_money: "same_money db (recordDiscount e row db)"
  by (simp add: recordDiscount_def Let_def createTransaction_def linkTransaction_def same_money_def)

lemma discount_rows_money: "discount_rows e d units a ps db = (rows, db') \<Longrightarrow> same_money db db'"
proof (induction ps arbitrary: db rows)
  case (Cons p ps)
  then show ?case
    by (auto simp: uncovered_entry discount_entry_link split: prod.splits if_splits
        intro: same_money_trans [OF insert_ledger_money same_money_trans [OF recordDiscount_money]])
qed simp

definition paid_into :: "string \<times> string \<Rightarrow> partner_payment list \<Rightarrow> amount" where
  "paid_into k ps = sum_of pp_amount (filter (\<lambda>q. (pp_drawer_name q, pp_currency_code q) = k) ps)"

lemma post_legs_money:
  "post_legs e txn pls db = Inr db' \<Longrightarrow>
    \<exists>new. pd_payments db' = pd_payments db @ new \<and> map pp_amount new = map signed_leg pls
      \<and> (\<forall>q \<in> set new. pp_transaction_id q = txn) \<and> (\<forall>k. pd_drawers db' k = pd_drawers db k + paid_into k new)"
proof (induction pls arbitrary: db)
  case (Cons pl pls)
  let ?row = "\<lparr>pp_transaction_id = txn, pp_method = sl_method (snd pl), pp_drawer_name = leg_drawer e (snd pl),
      pp_currency_code = leg_currency (snd pl), pp_amount = signed_leg pl, pp_is_change = (sl_direction (snd pl) = Some LEG_OUT)\<rparr>"
  obtain cur where cur: "postingCurrency (leg_drawer e (snd pl)) (leg_currency (snd pl)) = Inr cur"
    using Cons.prems by (auto simp: insertPaymentRow_def Let_def split: sum.splits)
  define row where "row = ?row\<lparr>pp_currency_code := cur\<rparr>"
  define db2 where "db2 = db\<lparr>pd_payments := pd_payments db @ [row],
    pd_drawers := (pd_drawers db)((leg_drawer e (snd pl), cur) := pd_drawers db (leg_drawer e (snd pl), cur) + signed_leg pl)\<rparr>"
  have "post_legs e txn pls db2 = Inr db'"
    using Cons.prems cur by (simp add: insertPaymentRow_def applyDrawerDelta_def Let_def db2_def row_def)
  from Cons.IH [OF this] obtain new where new: "pd_payments db' = pd_payments db2 @ new" "map pp_amount new = map signed_leg pls"
    "\<forall>q \<in> set new. pp_transaction_id q = txn" "\<And>k. pd_drawers db' k = pd_drawers db2 k + paid_into k new" by blast
  have "pd_drawers db' k = pd_drawers db k + paid_into k (row # new)" for k
    unfolding new(4) by (simp add: db2_def paid_into_def row_def)
  then show ?case using new(1-3) by (intro exI [of _ "row # new"]) (simp add: db2_def row_def)
qed (simp add: paid_into_def)

text \<open>A section whose lines are all in its own currency, in whole amounts.\<close>

definition plain_section :: "day_plan \<Rightarrow> bool" where
  "plain_section p \<longleftrightarrow>
     (\<forall>l \<in> set (sec_payments (dp_section p)). sl_currency_code l = box_code (dp_currency p)
        \<and> partner_round (sl_amount l) (dp_currency p) = sl_amount l)"

lemma roundSettle_partner: "roundSettleAmount x c = partner_round x c"
  by (simp add: roundSettleAmount_def partner_round_def)

lemma net_of_own_lines:
  assumes "\<forall>l \<in> set legs. sl_currency_code l = box_code c \<and> partner_round (sl_amount l) c = sl_amount l"
  shows "settleLegsNetIn legs c rate = sum_of (\<lambda>l. leg_sign l * \<bar>sl_amount l\<bar>) legs"
proof -
  have abs: "partner_round \<bar>x\<bar> c = \<bar>x\<bar>" if "partner_round x c = x" for x
    using whole.fixed_diff [OF whole.rnd_zero that] that by (auto simp: abs_if)
  have "fold (\<lambda>leg sum. sum + leg_sign leg * sl_amount leg) (settleLegsInBoxCurrency legs c rate) x
      = x + sum_of (\<lambda>l. leg_sign l * \<bar>sl_amount l\<bar>) legs" for x
    using assms
    by (induction legs arbitrary: x) (simp_all add: settleLegsInBoxCurrency_def roundSettle_partner settleLegAmountIn_def leg_sign_def abs)
  moreover have "partner_round (sum_of (\<lambda>l. leg_sign l * \<bar>sl_amount l\<bar>) legs) c = sum_of (\<lambda>l. leg_sign l * \<bar>sl_amount l\<bar>) legs"
  proof (rule whole_sum)
    fix l assume "l \<in> set legs"
    then have "partner_round \<bar>sl_amount l\<bar> c = \<bar>sl_amount l\<bar>" using assms abs by blast
    then show "partner_round (leg_sign l * \<bar>sl_amount l\<bar>) c = leg_sign l * \<bar>sl_amount l\<bar>"
      using whole.fixed_diff [OF whole.rnd_zero, of "\<bar>sl_amount l\<bar>" c] by (auto simp: leg_sign_def)
  qed
  ultimately show ?thesis by (simp add: settleLegsNetIn_def roundSettle_partner)
qed

lemma plain_section_paid:
  assumes "plan_section d day account (c, sec) = Inr p" "plain_section p"
  shows "sum_of (\<lambda>l. signed_leg (sec_payer (dp_section p), l)) (sec_payments (dp_section p)) = dp_paid p"
proof -
  have p: "dp_section p = sec" "dp_currency p = c"
    "dp_paid p = (if sec_payer sec = PARTNER then 1 else -1) * settleLegsNetIn (sec_payments sec) c (case sd_exchange_rate d of None \<Rightarrow> 0 | Some r \<Rightarrow> r)"
    using assms(1) by (auto simp: plan_section_def Let_def split: if_splits)
  have "settleLegsNetIn (sec_payments sec) c r = sum_of (\<lambda>l. leg_sign l * \<bar>sl_amount l\<bar>) (sec_payments sec)" for r
    using assms(2) by (intro net_of_own_lines) (simp add: plain_section_def p)
  moreover have "signed_leg (sec_payer sec, l) = (if sec_payer sec = PARTNER then 1 else -1) * (leg_sign l * \<bar>sl_amount l\<bar>)" for l
    by (simp add: signed_leg_def Let_def leg_sign_def)
  ultimately show ?thesis unfolding p by (simp add: sum_of_scale)
qed

lemma settle_plans_sections:
  assumes "settle_plans e d db = Inr plans" "p \<in> set plans"
  shows "\<exists>day account cs. plan_section d day account cs = Inr p"
proof -
  obtain day account where "all_results (map (plan_section d day account) (sections d)) = Inr plans"
    using assms(1) unfolding settle_plans_def Let_def by (auto split: if_splits option.splits sum.splits)
  from all_results_Inr [OF this assms(2)] show ?thesis unfolding set_map by (metis imageE)
qed

text \<open>C9. The drawers follow the payments of a settlement. A settlement of days adds one payment row for each
  payment line, with the sign of who hands the money over (change the other way), all of them under its own
  transaction; and every drawer changes, in every currency, by exactly the new payment rows that name it. Where the
  lines of a section are in its own currency they add up to the amount the settlement counts as paid.
\<close>

theorem settleDays_money:
  assumes "settleDays e d db = Inr (t, db')"
  shows "\<exists>plans new. settle_plans e d db = Inr plans \<and> pd_payments db' = pd_payments db @ new
    \<and> map pp_amount new = map signed_leg (all_legs plans) \<and> (\<forall>q \<in> set new. pp_transaction_id q = t)
    \<and> (\<forall>k. pd_drawers db' k = pd_drawers db k + paid_into k new)
    \<and> (\<forall>p \<in> set plans. plain_section p \<longrightarrow>
         sum_of (\<lambda>l. signed_leg (sec_payer (dp_section p), l)) (sec_payments (dp_section p)) = dp_paid p)"
  using assms
proof (rule settleDays_steps)
  fix plans db1 db2 db3 discs db4 and owns :: "partner_ledger_row list"
  assume plans: "settle_plans e d db = Inr plans" and r: "settle_rows e d None plans db = (owns, db1)"
    and t: "createTransaction (settlement_txn e d plans (pl_id (hd owns))) db1 = (t, db2)" and p3: "post_legs e t (all_legs plans) db2 = Inr db3"
    and r4: "discount_rows e d (loadUnits e (sd_partnerId d) db) (pl_id (hd owns)) plans db3 = (discs, db4)"
    and out: "db' = writeCoverage e (day_writes (loadUnits e (sd_partnerId d) db) t (pl_id (hd owns)) (sd_partnerId d) plans owns discs) db4"
  have before: "same_money db db2"
    using settle_rows_money [OF r] t by (auto simp: same_money_def createTransaction_def)
  have after: "same_money db3 db'"
    unfolding out using discount_rows_money [OF r4] writeCoverage_money by (rule same_money_trans)
  obtain new where "pd_payments db3 = pd_payments db2 @ new" "map pp_amount new = map signed_leg (all_legs plans)"
    "\<forall>q \<in> set new. pp_transaction_id q = t" "\<forall>k. pd_drawers db3 k = pd_drawers db2 k + paid_into k new"
    using post_legs_money [OF p3] by blast
  moreover have "sum_of (\<lambda>l. signed_leg (sec_payer (dp_section p), l)) (sec_payments (dp_section p)) = dp_paid p"
    if p: "p \<in> set plans" "plain_section p" for p
  proof -
    obtain day account cs where "plan_section d day account cs = Inr p" using settle_plans_sections [OF plans p(1)] by blast
    then show ?thesis using plain_section_paid p(2) by (metis surj_pair)
  qed
  ultimately show ?thesis using plans before after unfolding same_money_def by metis
qed

text \<open>A partner who owes 100 USD for a sale and is owed 30 for another; 60 paid in cash, 4 forgiven.\<close>

definition sample_env :: partner_env where
  "sample_env = \<lparr>request_time = ''2026-01-02'', sort_text = (\<lambda>x. x), localDay = (\<lambda>x. x),
     shop = \<lparr>tenant = 1, now = [], clock = []\<rparr>, shop_methods = \<lparr>pm_rows = [], pm_next = 1\<rparr>, market_rate = Some 90000\<rparr>"

definition sample_booking :: "nat \<Rightarrow> amount \<Rightarrow> PartnerSide \<Rightarrow> partner_ledger_row" where
  "sample_booking i amt dir =
     \<lparr>pl_id = i, pl_partner_id = 7, pl_transaction_type = Some ''FOR_SALE'', pl_reference_table = Some ''sales'', pl_reference_id = Some i,
      pl_amount = amt, pl_currency = ''USD'', pl_direction = dir, pl_notes = None, pl_created_at = ''2026-01-01'',
      pl_covered_amount = 0, pl_legacy_covered_amount = 0\<rparr>"

definition sample_books :: partner_db where
  "sample_books = \<lparr>pd_ledger = [sample_booking 1 100 DEBIT, sample_booking 2 30 CREDIT], ledger_counter = 2, pd_coverage = [],
     coverage_counter = 0, pd_txns = [], txn_counter = 0, pd_partners = [7], pd_payments = [], pd_drawers = (\<lambda>_. 0)\<rparr>"

definition sample_leg :: settle_leg where
  "sample_leg = \<lparr>sl_method = ''CASH'', sl_currency_code = ''USD'', sl_amount = 60, sl_direction = None\<rparr>"

definition sample_request :: PartnerSettleDaysInput where
  "sample_request = \<lparr>sd_partnerId = 7, sd_selections = [1, 2], include_account_credits = False, sd_credit_used = (\<lambda>_. 0),
     expected_owed = (\<lambda>c. if c = SettleUSD then 70 else 0),
     per_currency = (\<lambda>c. if c = SettleUSD then Some \<lparr>sec_payer = PARTNER, sec_payments = [sample_leg],
        sec_forgive = Some \<lparr>fg_amount = 4, fg_reason = None\<rparr>\<rparr> else None),
     sd_notes = None, sd_exchange_rate = None\<rparr>"

lemma sample_plans:
  "case settle_plans sample_env sample_request sample_books of Inl x \<Rightarrow> False | Inr ps \<Rightarrow> all_legs ps = [(PARTNER, sample_leg)]"
  by code_simp

lemma sample_settles: "\<exists>t db'. settleDays sample_env sample_request sample_books = Inr (t, db')"
proof -
  obtain ps where ps: "settle_plans sample_env sample_request sample_books = Inr ps" "all_legs ps = [(PARTNER, sample_leg)]"
    using sample_plans by (auto split: sum.splits)
  have "leg_drawer sample_env sample_leg = ''General''" by code_simp
  then have "\<not> leg_refused sample_env sample_leg" by (simp add: leg_refused_def BINANCE_DRAWER_NAME_def)
  then show ?thesis using settleDays_succeeds [OF ps(1)] ps(2) by auto
qed

theorem settleDays_money_witness:
  "\<exists>t db'. settleDays sample_env sample_request sample_books = Inr (t, db') \<and> map pp_amount (pd_payments db') = [60]"
proof -
  obtain t db' where s: "settleDays sample_env sample_request sample_books = Inr (t, db')" using sample_settles by blast
  from settleDays_money [OF s] obtain plans new where "settle_plans sample_env sample_request sample_books = Inr plans"
    "pd_payments db' = pd_payments sample_books @ new" "map pp_amount new = map signed_leg (all_legs plans)" by blast
  moreover from this have "all_legs plans = [(PARTNER, sample_leg)]" using sample_plans by simp
  moreover have "signed_leg (PARTNER, sample_leg) = 60" by (simp add: signed_leg_def sample_leg_def)
  ultimately show ?thesis using s by (auto simp: sample_books_def)
qed

section \<open>Every reachable state\<close>

text \<open>
  The writes of the partner books: an entry of the ledger (a booking, a payment by balance or an adjustment),
  a settlement of days, the undo of a settlement (its source row is the first row of the settlement, so
  not a linked one), the discount and the link of a transaction, and any write to the other tables.
\<close>

inductive partner_step :: "partner_db \<Rightarrow> partner_db \<Rightarrow> bool" where
  step_entry: "entry_ok db d \<Longrightarrow> partner_step db (snd (addLedgerEntry e d db))"
| step_settle: "settleDays e d db = Inr (t, db') \<Longrightarrow> partner_step db db'"
| step_undo: "(\<forall>entry. find (\<lambda>r. pl_id r = tn_source_id original) (pd_ledger db) = Some entry \<longrightarrow> linked_to entry = None)
    \<Longrightarrow> partner_step db (reversePartnerSettlementLedger e original txn db)"
| step_discount: "partner_step db (recordDiscount e row db)"
| step_link: "partner_step db (linkTransaction i t db)"
| step_others: "partner_step db (db\<lparr>pd_txns := ts, txn_counter := n, pd_partners := ps, pd_payments := pays, pd_drawers := ds\<rparr>)"

inductive_cases partner_stepE: "partner_step db db'"

interpretation partner_books: step_invariant partner_step books_ok
proof
  fix db db' assume "partner_step db db'" "books_ok db"
  then show "books_ok db'"
  proof cases
    case (step_entry d e)
    then show ?thesis using addLedgerEntry_ok [OF \<open>books_ok db\<close>] by simp
  next
    case (step_settle e d t)
    then show ?thesis using settleDays_ok [OF \<open>books_ok db\<close>] by blast
  next
    case (step_undo original e txn)
    then show ?thesis using reversePartnerSettlementLedger_ok [OF \<open>books_ok db\<close>] by simp
  next
    case (step_others ts n ps pays ds)
    then show ?thesis using \<open>books_ok db\<close> by (simp add: books_ok_def)
  qed (use \<open>books_ok db\<close> in \<open>simp_all add: recordDiscount_ok linkTransaction_ok\<close>)
qed

lemma empty_books_ok: "ledger_ok (pd_ledger db) (ledger_counter db) \<Longrightarrow> pd_coverage db = [] \<Longrightarrow> books_ok db"
  by (simp add: books_ok_def coverage_ok_def rows_ok_def net_effect_def)

text \<open>C1. The partner books balance on every state that any sequence of bookings, payments by balance,
  settlements of days, discounts, undone settlements and writes elsewhere reaches from a ledger without
  coverage rows (its rows may carry legacy amounts in \<open>covered_amount\<close>): in each currency the active coverage of a partner adds up to
  zero, and what the settlement screens show as open for the partner is the balance of the ledger less one correction, the
  legacy coverage of the partner's debits that no payment from before the coverage table explains less that of the credits.
  So the open amounts are the ledger balance exactly when the two are the same, in particular when all legacy coverage is explained.
\<close>

theorem reachable_partner_balanced:
  assumes "partner_step\<^sup>*\<^sup>* db0 db" "ledger_ok (pd_ledger db0) (ledger_counter db0)" "pd_coverage db0 = []"
  shows "sum_of (\<lambda>x. if cw_currency x = c then effect_of x else 0) (active_coverage p db) = 0
    \<and> open_amount e p c db = ledger_balance p c db - (unexplained e p c db DEBIT - unexplained e p c db CREDIT)"
proof -
  have "books_ok db" by (rule partner_books.run_keeps [OF assms(1) empty_books_ok [OF assms(2,3)]])
  then show ?thesis using partner_net_zero books_balance by blast
qed

lemma sample_ledger_ok: "ledger_ok (pd_ledger sample_books) (ledger_counter sample_books)"
  by (simp add: ledger_ok_def sample_books_def sample_booking_def plain_row_def linked_to_def text_or_def)

theorem reachable_partner_balanced_witness:
  "\<exists>t db. settleDays sample_env sample_request sample_books = Inr (t, db)
    \<and> open_amount sample_env 7 SettleUSD db
      = ledger_balance 7 SettleUSD db - (unexplained sample_env 7 SettleUSD db DEBIT - unexplained sample_env 7 SettleUSD db CREDIT)"
proof -
  obtain t db where s: "settleDays sample_env sample_request sample_books = Inr (t, db)" using sample_settles by blast
  then have "partner_step\<^sup>*\<^sup>* sample_books db" by (intro r_into_rtranclp step_settle)
  from reachable_partner_balanced [OF this sample_ledger_ok] s show ?thesis by (auto simp: sample_books_def)
qed

end
