(* ===== verification/Partner_Settle_Days_Cover.thy ===== *)
theory Partner_Settle_Days_Cover
  imports Partner_Settlement_Properties
begin

text \<open>
  What a settlement of days covers: never more of a row than is open on it, on the side that is open, and only
  rows that were picked or account rows the request includes.
\<close>

section \<open>What an allocation takes of a unit\<close>

lemma alloc_ids:
  "mset (map ar_id (all_rows (make_frame (alloc_input d day account c paid waive))))
    = mset (map su_id (filter (\<lambda>u. su_currency u = c) (day @ account)))"
proof -
  let ?inp = "alloc_input d day account c paid waive"
  have "mset (map ar_id (all_rows (make_frame ?inp))) = image_mset ar_id (mset (ai_rows ?inp @ account_credits ?inp))"
    using all_rows_make [of ?inp] by simp
  also have "\<dots> = mset (map su_id (filter (\<lambda>u. su_currency u = c) (day @ account)))"
    by (simp add: alloc_input_def toAlloc_def image_mset.compositionality comp_def)
  finally show ?thesis .
qed

lemma sum_at_index:
  assumes "distinct (map ar_id (all_rows fr))" "settle_inv fr s" "i < n_all fr"
  shows "sum_of (\<lambda>(j, src, m). m) (filter (\<lambda>(j, src, m). ar_id (all_rows fr ! j) = ar_id (all_rows fr ! i)) (ss_takes s)) \<le> \<bar>orig fr ! i\<bar>"
proof -
  have "j = i" if "j < n_all fr" "ar_id (all_rows fr ! j) = ar_id (all_rows fr ! i)" for j
    using assms(1,3) that by (metis (no_types, lifting) distinct_map inj_onD nth_eq_iff_index_eq nth_mem)
  then have "filter (\<lambda>(j, src, m). ar_id (all_rows fr ! j) = ar_id (all_rows fr ! i)) (ss_takes s) = filter (\<lambda>(j, src, m). j = i) (ss_takes s)"
    using assms(2) by (intro filter_cong) (auto simp: settle_inv_def)
  then show ?thesis using assms(2,3) by (force simp: settle_inv_def)
qed

definition taken_of :: "PartnerSettleUnit \<Rightarrow> day_plan \<Rightarrow> amount" where
  "taken_of u p = sum_of at_amount (filter (\<lambda>t. at_id t = su_id u) (as_takes (dp_alloc p)))"

lemma plan_takes_within:
  assumes plan: "plan_section d day account (c, sec) = Inr p" and known: "known_units units (day @ account)"
    and dist: "distinct (map su_id (day @ account))" and u: "u \<in> set units"
  shows "taken_of u p \<le> \<bar>su_remaining u\<bar>"
    and "t \<in> set (as_takes (dp_alloc p)) \<Longrightarrow> at_id t \<in> su_id ` set (day @ account)"
proof -
  obtain paid waive where alloc: "dp_alloc p = allocateAccountSettlement (alloc_input d day account c paid waive)"
    using plan by (auto simp: plan_section_def Let_def split: if_splits)
  define inp where "inp = alloc_input d day account c paid waive"
  define fr where "fr = make_frame inp"
  obtain dir tooHigh cr applied s where run: "settle_run fr inp = (dir, tooHigh, cr, applied, s)" by (metis prod_cases5)
  have ok: "frame_ok fr" by (simp add: fr_def make_frame_ok)
  have inv: "settle_inv fr s" using settle_run_spec [OF ok run] by simp
  have f: "factor fr = partner_minorFactor c" by (simp add: fr_def inp_def alloc_factor)
  have takes: "as_takes (dp_alloc p) = map (\<lambda>(i, src, m). \<lparr>at_kind = ar_kind (all_rows fr ! i), at_id = ar_id (all_rows fr ! i),
      at_member = member_supplier_id (all_rows fr ! i), at_source = src, at_amount = m / partner_minorFactor c\<rparr>) (ss_takes s)"
    using settle_parts(1) [OF run [unfolded fr_def]] by (simp add: alloc inp_def [symmetric] fr_def [symmetric] f) (auto simp: fromMinor_def)
  have "distinct (map su_id (filter (\<lambda>u. su_currency u = c) (day @ account)))"
    using dist by (simp only: distinct_map distinct_filter) (metis filter_is_subset inj_on_subset distinct_filter)
  then have ids: "distinct (map ar_id (all_rows fr))"
    using alloc_ids [of d day account c paid waive] unfolding fr_def inp_def by (metis mset_eq_imp_distinct_iff)
  have row: "\<exists>v \<in> set day \<union> set account. su_currency v = c \<and> ar_id (all_rows fr ! i) = su_id v
      \<and> orig fr ! i = toMinor (partner_minorFactor c) (su_remaining v)" if "i < n_all fr" for i
    using alloc_row [OF that [unfolded fr_def inp_def]] by (auto simp: fr_def inp_def toAlloc_def)
  have lt: "i < n_all fr" if "(i, src, m) \<in> set (ss_takes s)" for i src m using inv that by (auto simp: settle_inv_def)
  show "at_id t \<in> su_id ` set (day @ account)" if t: "t \<in> set (as_takes (dp_alloc p))"
  proof -
    obtain i src m where x: "(i, src, m) \<in> set (ss_takes s)" "at_id t = ar_id (all_rows fr ! i)" using t unfolding takes by auto
    with row [OF lt [OF x(1)]] show ?thesis by auto
  qed
  have sum: "taken_of u p = sum_of (\<lambda>(j, src, m). m) (filter (\<lambda>(j, src, m). ar_id (all_rows fr ! j) = su_id u) (ss_takes s)) / partner_minorFactor c"
  proof -
    have "sum_of at_amount (filter (\<lambda>t. at_id t = su_id u) (map (\<lambda>(i, src, m). \<lparr>at_kind = ar_kind (all_rows fr ! i),
        at_id = ar_id (all_rows fr ! i), at_member = member_supplier_id (all_rows fr ! i), at_source = src, at_amount = m / k\<rparr>) xs))
      = sum_of (\<lambda>(j, src, m). m) (filter (\<lambda>(j, src, m). ar_id (all_rows fr ! j) = su_id u) xs) / k" for k xs
      by (induction xs) (auto simp: add_divide_distrib)
    then show ?thesis unfolding taken_of_def takes .
  qed
  show "taken_of u p \<le> \<bar>su_remaining u\<bar>"
  proof (cases "\<exists>i < n_all fr. ar_id (all_rows fr ! i) = su_id u")
    case False
    then have "filter (\<lambda>(j, src, m). ar_id (all_rows fr ! j) = su_id u) (ss_takes s) = []" using lt by (auto simp: filter_empty_conv)
    then show ?thesis unfolding sum by simp
  next
    case True
    then obtain i where i: "i < n_all fr" "ar_id (all_rows fr ! i) = su_id u" by blast
    obtain v where v: "v \<in> set day \<union> set account" "su_currency v = c" "su_id v = su_id u" "orig fr ! i = toMinor (partner_minorFactor c) (su_remaining v)"
      using row [OF i(1)] i(2) by metis
    have vu: "v = u" using known v(1,3) u by (auto simp: known_units_def distinct_map dest: inj_onD)
    have "partner_round (su_remaining u) c = su_remaining u" using known v(1,2) unfolding vu by (auto simp: known_units_def)
    then have "orig fr ! i = su_remaining u * partner_minorFactor c" unfolding v(4) vu by (rule whole_toMinor)
    then have "taken_of u p \<le> \<bar>su_remaining u * partner_minorFactor c\<bar> / partner_minorFactor c"
      using sum_at_index [OF ids inv i(1)] i(2) unfolding sum by (intro divide_right_mono) (simp_all add: partner_minorFactor_def)
    then show ?thesis by (simp add: partner_minorFactor_def abs_mult split: if_splits)
  qed
qed

section \<open>Distinct scopes\<close>

lemma scope_day_ids:
  "scope_day units ids = Inr us \<Longrightarrow> map su_id us = ids \<and> (\<forall>u \<in> set us. partnerUnitScope u = DAY_SCOPE)"
proof (induction ids arbitrary: us)
  case (Cons i ids)
  then obtain u vs where u: "unit_by_id units i = Some u" "scope_day units ids = Inr vs" "us = u # vs" "partnerUnitScope u = DAY_SCOPE"
    by (auto split: option.splits if_splits sum.splits)
  then have "su_id u = i" by (auto simp: unit_by_id_def find_Some_iff)
  with u Cons.IH show ?case by auto
qed simp

lemma scopes_distinct:
  assumes "distinct (map su_id units)" "distinct ids" "scope_day units ids = Inr day"
  shows "distinct (map su_id (day @ scope_account d units))"
proof -
  have acc: "set (scope_account d units) \<subseteq> set units" "\<forall>u \<in> set (scope_account d units). partnerUnitScope u = ACCOUNT_SCOPE"
    by (auto simp: scope_account_def)
  have "distinct (map su_id (scope_account d units))" using assms(1) by (auto simp: scope_account_def distinct_map intro: inj_on_subset)
  moreover have "su_id u \<noteq> su_id v" if "u \<in> set day" "v \<in> set (scope_account d units)" for u v
  proof
    assume "su_id u = su_id v"
    then have "u = v" using assms(1) scope_day_units [OF assms(3)] acc(1) that by (auto simp: distinct_map dest: inj_onD)
    then show False using scope_day_ids [OF assms(3)] acc(2) that by force
  qed
  then have "su_id ` set day \<inter> su_id ` set (scope_account d units) = {}" by force
  ultimately show ?thesis using scope_day_ids [OF assms(3)] assms(2) by auto
qed

section \<open>The coverage a settlement adds\<close>

definition written :: "coverage_row \<Rightarrow> PartnerCoverageWrite \<Rightarrow> bool" where
  "written x w \<longleftrightarrow> (\<exists>n. x = new_cover n w)"

lemma list_all2_left: "list_all2 P xs ys \<Longrightarrow> x \<in> set xs \<Longrightarrow> \<exists>y \<in> set ys. P x y"
  by (induction rule: list_all2_induct) auto

lemma insert_fold_new:
  "\<exists>new. pd_coverage (fold insert_coverage ws db) = pd_coverage db @ new
    \<and> list_all2 written new (filter (\<lambda>w. \<not> partner_round (cw_amount w) (cw_currency w) \<le> EPS (cw_currency w)) ws)"
proof (induction ws arbitrary: db)
  case (Cons w ws)
  obtain new where new: "pd_coverage (fold insert_coverage ws (insert_coverage w db)) = pd_coverage (insert_coverage w db) @ new"
    "list_all2 written new (filter (\<lambda>w. \<not> partner_round (cw_amount w) (cw_currency w) \<le> EPS (cw_currency w)) ws)"
    using Cons.IH by blast
  show ?case
  proof (cases "partner_round (cw_amount w) (cw_currency w) \<le> EPS (cw_currency w)")
    case True
    then have "insert_coverage w db = db" by (simp add: insert_coverage_eq)
    with new True show ?thesis by auto
  next
    case False
    define x where "x = new_cover (coverage_counter db + 1) w"
    have "pd_coverage (insert_coverage w db) = pd_coverage db @ [x]" using False by (simp add: insert_coverage_eq x_def)
    moreover have "written x w" by (auto simp: written_def x_def)
    ultimately show ?thesis using new False by (intro exI [of _ "x # new"]) simp
  qed
qed simp

lemma writeCoverage_new:
  "\<exists>new. pd_coverage (writeCoverage e ws db) = pd_coverage db @ new
    \<and> list_all2 written new (filter (\<lambda>w. \<not> partner_round (cw_amount w) (cw_currency w) \<le> EPS (cw_currency w)) ws)"
proof -
  have "same_books (fold insert_coverage ws db) (writeCoverage e ws db)"
    unfolding writeCoverage_def by (rule fold_same_books) (rule sync_same)
  then show ?thesis using insert_fold_new by (simp add: same_books_def)
qed

lemma written_sum:
  assumes "list_all2 written new ws" "\<forall>w \<in> set ws. cw_partner_ledger_id w = i \<longrightarrow> partner_round (cw_amount w) (cw_currency w) = cw_amount w"
  shows "sum_of cw_amount (filter (\<lambda>x. cw_partner_ledger_id x = i) new) = sum_of cw_amount (filter (\<lambda>w. cw_partner_ledger_id w = i) ws)"
  using assms
proof (induction new ws rule: list_all2_induct)
  case (Cons x new w ws)
  then have "cw_partner_ledger_id x = cw_partner_ledger_id w" "cw_amount x = partner_round (cw_amount w) (cw_currency w)" by (auto simp: written_def)
  with Cons show ?case by auto
qed simp

lemma settle_rows_fresh:
  assumes "settle_rows e d anchor ps db = (rows, db')"
  shows "pd_coverage db' = pd_coverage db \<and> ledger_counter db \<le> ledger_counter db' \<and> (\<forall>r \<in> set rows. ledger_counter db < pl_id r)"
  using assms
proof (induction ps arbitrary: anchor db rows)
  case (Cons p ps)
  obtain row db1 where i: "insert_ledger e (settlement_entry d anchor p) db = (row, db1)" by fastforce
  obtain rest a where rest: "settle_rows e d (Some a) ps db1 = (rest, db')" "rows = row # rest"
    using Cons.prems by (auto simp: uncovered_entry settlement_entry_link i split: prod.splits)
  have "pd_coverage db1 = pd_coverage db" "ledger_counter db1 = ledger_counter db + 1" "pl_id row = ledger_counter db + 1"
    using i by (auto simp: insert_ledger_def Let_def)
  with Cons.IH [OF rest(1)] show ?case by (auto simp: rest(2))
qed simp

lemma settle_rows_length: "settle_rows e d anchor ps db = (rows, db') \<Longrightarrow> length rows = length ps"
  by (induction ps arbitrary: anchor db rows) (auto split: prod.splits)

lemma discount_rows_length: "discount_rows e d units a ps db = (rows, db') \<Longrightarrow> length rows = length ps"
  by (induction ps arbitrary: db rows) (auto split: prod.splits if_splits)

definition covers_from :: "partner_db \<Rightarrow> partner_db \<Rightarrow> bool" where
  "covers_from db db' \<longleftrightarrow> length (pd_coverage db') = length (pd_coverage db) \<and> ledger_counter db \<le> ledger_counter db'"

lemma recordDiscount_covers: "covers_from db (recordDiscount e row db)"
  by (simp add: covers_from_def recordDiscount_def Let_def createTransaction_def linkTransaction_def)

lemma discount_rows_fresh:
  assumes "discount_rows e d units a ps db = (discs, db')"
  shows "covers_from db db' \<and> (\<forall>r. Some r \<in> set discs \<longrightarrow> ledger_counter db < pl_id r)"
  using assms
proof (induction ps arbitrary: db discs)
  case (Cons p ps)
  show ?case
  proof (cases "waiveApplied p \<le> EPS (dp_currency p)")
    case True
    then obtain rest where "discount_rows e d units a ps db = (rest, db')" "discs = None # rest"
      using Cons.prems by (auto split: prod.splits)
    then show ?thesis using Cons.IH by auto
  next
    case False
    obtain row db1 where i: "insert_ledger e (discount_entry d units a p) db = (row, db1)" by fastforce
    obtain rest where rest: "discount_rows e d units a ps (recordDiscount e row db1) = (rest, db')" "discs = Some row # rest"
      using Cons.prems False by (auto simp: uncovered_entry discount_entry_link i split: prod.splits)
    have "covers_from db db1" "ledger_counter db < ledger_counter db1" "pl_id row = ledger_counter db + 1"
      using i by (auto simp: insert_ledger_def Let_def covers_from_def)
    with Cons.IH [OF rest(1)] recordDiscount_covers [of db1 e row] show ?thesis by (force simp: rest(2) covers_from_def)
  qed
qed (simp add: covers_from_def)

section \<open>A settlement never covers more than is open\<close>

lemma all_results_map: "all_results (map f xs) = Inr ys \<Longrightarrow> list_all2 (\<lambda>x y. f x = Inr y) xs ys"
  by (induction xs arbitrary: ys) (auto split: sum.splits)

lemma sections_distinct: "distinct (map fst (sections d))"
  by (auto simp: sections_def both_currencies_def split: option.split)

lemma sum_one_key:
  fixes g :: "'a \<Rightarrow> rat"
  assumes "distinct (map k ps)" "\<And>p. p \<in> set ps \<Longrightarrow> k p \<noteq> c \<Longrightarrow> g p = 0" "\<And>p. p \<in> set ps \<Longrightarrow> g p \<le> B" "0 \<le> B"
  shows "sum_of g ps \<le> B"
  using assms(1-3)
proof (induction ps)
  case (Cons p ps)
  show ?case
  proof (cases "k p = c")
    case True
    then have "k q \<noteq> c" if "q \<in> set ps" for q
    proof -
      have "k q \<in> k ` set ps" using that by (rule imageI)
      then show ?thesis using True Cons.prems(1) by auto
    qed
    then have "sum_of g ps = 0" using Cons.prems(2) by (intro sum_of_zero) simp
    then show ?thesis using Cons.prems(3) by simp
  next
    case False
    then show ?thesis using Cons by simp
  qed
qed (simp add: assms(4))

lemma take_writes_sum:
  assumes st: "plan_state units fr s sg p"
  shows "sum_of cw_amount (filter (\<lambda>w. cw_partner_ledger_id w = su_id u) (take_writes units txn a pid p)) = taken_of u p"
proof -
  let ?g = "\<lambda>t. case unit_by_id units (at_id t) of None \<Rightarrow> []
    | Some u \<Rightarrow> [settle_cover txn a pid (dp_currency p) (su_id u) (partnerCoverSide (su_remaining u)) (at_amount t)
                   (cover_source (at_source t)) (list_ex (\<lambda>r. snd r = su_id u) (as_closed (dp_alloc p)))]"
  have known: "\<exists>v. unit_by_id units (at_id t) = Some v \<and> su_id v = at_id t" if mem: "t \<in> set (as_takes (dp_alloc p))" for t
  proof -
    have "as_takes (dp_alloc p) = map (\<lambda>(i, src, m). \<lparr>at_kind = ar_kind (all_rows fr ! i), at_id = ar_id (all_rows fr ! i),
      at_member = member_supplier_id (all_rows fr ! i), at_source = src, at_amount = m / partner_minorFactor (dp_currency p)\<rparr>) (ss_takes s)"
      using st by (simp add: plan_state_def)
    then obtain i src m where "(i, src, m) \<in> set (ss_takes s)" "at_id t = ar_id (all_rows fr ! i)" using mem by auto
    then show ?thesis using plan_state_unit [OF st] by metis
  qed
  have "sum_of cw_amount (filter (\<lambda>w. cw_partner_ledger_id w = su_id u) (concat (map ?g ts)))
      = sum_of at_amount (filter (\<lambda>t. at_id t = su_id u) ts)" if "set ts \<subseteq> set (as_takes (dp_alloc p))" for ts
    using that
  proof (induction ts)
    case (Cons t ts)
    then obtain v where "unit_by_id units (at_id t) = Some v" "su_id v = at_id t" using known [of t] by auto
    with Cons show ?case by auto
  qed simp
  then show ?thesis by (simp add: take_writes_def taken_of_def)
qed

lemma day_writes_within:
  fixes pid a txn :: nat
  assumes st: "\<forall>p \<in> set plans. \<exists>fr s sg. plan_state units fr s sg p"
    and within: "\<forall>p \<in> set plans. taken_of u p \<le> \<bar>su_remaining u\<bar>"
    and cur: "distinct (map dp_currency plans)" and units: "distinct (map su_id units)" "u \<in> set units"
    and own: "\<forall>r \<in> set owns. pl_id r \<noteq> su_id u" and disc: "\<forall>r. Some r \<in> set discs \<longrightarrow> pl_id r \<noteq> su_id u"
    and len: "length owns = length plans" "length discs = length plans"
  defines "ws \<equiv> filter (\<lambda>w. cw_partner_ledger_id w = su_id u) (day_writes units txn a pid plans owns discs)"
  shows "sum_of cw_amount ws \<le> \<bar>su_remaining u\<bar>"
    and "w \<in> set ws \<Longrightarrow> \<exists>p \<in> set plans. w \<in> set (take_writes units txn a pid p)"
proof -
  have chunks: "filter (\<lambda>w. cw_partner_ledger_id w = su_id u)
      (take_writes units txn a pid p @ own_writes txn a pid p ow @ discount_writes txn a pid p di)
      = filter (\<lambda>w. cw_partner_ledger_id w = su_id u) (take_writes units txn a pid p)"
    if "(p, ow, di) \<in> set (zip plans (zip owns discs))" for p ow di
  proof -
    have "(ow, di) \<in> set (zip owns discs)" using that by (rule set_zip_rightD)
    then have "ow \<in> set owns" "di \<in> set discs" by (blast dest: set_zip_leftD set_zip_rightD)+
    then show ?thesis using own disc by (auto simp: own_writes_def discount_writes_def filter_empty_conv split: option.splits)
  qed
  have ws: "ws = concat (map (\<lambda>p. filter (\<lambda>w. cw_partner_ledger_id w = su_id u) (take_writes units txn a pid p)) plans)"
  proof -
    have "ws = concat (map (\<lambda>(p, ow, di). filter (\<lambda>w. cw_partner_ledger_id w = su_id u) (take_writes units txn a pid p)) (zip plans (zip owns discs)))"
      unfolding ws_def day_writes_def filter_concat map_map
      by (intro arg_cong [where f = concat] map_cong refl) (auto simp: chunks [simplified])
    also have "map (\<lambda>(p, ow, di). filter (\<lambda>w. cw_partner_ledger_id w = su_id u) (take_writes units txn a pid p)) (zip plans (zip owns discs))
        = map (\<lambda>p. filter (\<lambda>w. cw_partner_ledger_id w = su_id u) (take_writes units txn a pid p)) (map fst (zip plans (zip owns discs)))"
      by (simp add: case_prod_beta comp_def)
    finally show ?thesis using len by (simp add: map_fst_zip)
  qed
  have each: "sum_of cw_amount (filter (\<lambda>w. cw_partner_ledger_id w = su_id u) (take_writes units txn a pid p)) = taken_of u p"
    if p: "p \<in> set plans" for p
    using st p take_writes_sum by blast
  have "sum_of cw_amount ws = sum_of (taken_of u) plans"
    unfolding ws sum_of_concat map_map comp_def using each by (rule sum_of_cong)
  also have "\<dots> \<le> \<bar>su_remaining u\<bar>"
  proof (rule sum_one_key [OF cur, where c = "su_currency u"])
    fix p assume p: "p \<in> set plans" "dp_currency p \<noteq> su_currency u"
    obtain fr s sg where ps: "plan_state units fr s sg p" using st p(1) by blast
    have "filter (\<lambda>w. cw_partner_ledger_id w = su_id u) (take_writes units txn a pid p) = []"
    proof (rule ccontr)
      assume "filter (\<lambda>w. cw_partner_ledger_id w = su_id u) (take_writes units txn a pid p) \<noteq> []"
      then obtain w where "w \<in> set (take_writes units txn a pid p)" "cw_partner_ledger_id w = su_id u" by (auto simp: filter_empty_conv)
      with take_write_cases [OF ps this(1)] obtain v where "v \<in> set units" "su_currency v = dp_currency p" "su_id v = su_id u" by auto
      then show False using units p(2) by (metis distinct_map inj_onD)
    qed
    then show "taken_of u p = 0" using each [OF p(1)] by simp
  qed (use within in simp_all)
  finally show "sum_of cw_amount ws \<le> \<bar>su_remaining u\<bar>" .
  show "\<exists>p \<in> set plans. w \<in> set (take_writes units txn a pid p)" if "w \<in> set ws" using that unfolding ws by auto
qed

lemma plans_currencies:
  assumes "all_results (map (plan_section d day account) (sections d)) = Inr plans" "known_units units (day @ account)"
  shows "map dp_currency plans = map fst (sections d)"
proof -
  have "list_all2 (\<lambda>cs p. plan_section d day account cs = Inr p) (sections d) plans" by (rule all_results_map [OF assms(1)])
  then show ?thesis
  proof (induction rule: list_all2_induct)
    case (Cons cs css p ps)
    then show ?case using plan_section_state(2) [OF _ assms(2), of d "fst cs" "snd cs" p] by simp
  qed simp
qed

lemma settle_cover_side: "cw_side (settle_cover txn a p c i side amt src cl) = side"
  by (simp add: settle_cover_def)

lemma settle_sizes:
  assumes "settle_rows e d None plans db = (owns, db1)" "createTransaction tx db1 = (t, db2)"
    "post_legs e t legs db2 = Inr db3" "discount_rows e d units a plans db3 = (discs, db4)"
  shows "\<forall>r \<in> set owns. ledger_counter db < pl_id r" "\<forall>r. Some r \<in> set discs \<longrightarrow> ledger_counter db < pl_id r"
    "length owns = length plans" "length discs = length plans" "length (pd_coverage db4) = length (pd_coverage db)"
proof -
  note own = settle_rows_fresh [OF assms(1)]
  have mid: "same_books db1 db3"
    using createTransaction_same(1) [of db1 tx] post_legs_same [OF assms(3)] assms(2) by (auto intro: same_books_trans)
  note disc = discount_rows_fresh [OF assms(4)]
  show "\<forall>r \<in> set owns. ledger_counter db < pl_id r" using own by blast
  show "\<forall>r. Some r \<in> set discs \<longrightarrow> ledger_counter db < pl_id r" using own disc mid by (fastforce simp: same_books_def)
  show "length (pd_coverage db4) = length (pd_coverage db)" using own disc mid by (simp add: same_books_def covers_from_def)
  show "length owns = length plans" by (rule settle_rows_length [OF assms(1)])
  show "length discs = length plans" by (rule discount_rows_length [OF assms(4)])
qed

lemma day_write_of_unit:
  fixes pid a txn :: nat
  assumes pl: "all_results (map (plan_section d day account) (sections d)) = Inr plans" and known: "known_units units (day @ account)"
    and scopes: "distinct (map su_id (day @ account))" and units: "distinct (map su_id units)" "u \<in> set units"
    and p: "p \<in> set plans" "w \<in> set (take_writes units txn a pid p)" and w: "cw_partner_ledger_id w = su_id u"
  shows "0 \<le> cw_amount w \<and> partner_round (cw_amount w) (cw_currency w) = cw_amount w \<and> cw_side w = partnerCoverSide (su_remaining u)
    \<and> cw_currency w = su_currency u \<and> su_id u \<in> su_id ` set (day @ account)"
proof -
  obtain fr s sg where ps: "plan_state units fr s sg p" using plans_state(1) [OF pl known p(1)] by blast
  obtain tk :: AccountSettleAllocTake and v src cl where v: "tk \<in> set (as_takes (dp_alloc p))" "at_id tk = su_id v"
    "w = settle_cover txn a pid (dp_currency p) (su_id v) (partnerCoverSide (su_remaining v)) (at_amount tk) src cl"
    "v \<in> set units" "su_currency v = dp_currency p" "0 \<le> at_amount tk" "partner_round (at_amount tk) (dp_currency p) = at_amount tk"
    using take_write_cases [OF ps p(2)] by blast
  have "su_id v = su_id u" using w by (simp add: v(3))
  then have vu: "v = u" using units v(4) by (metis distinct_map inj_onD)
  have "at_id tk \<in> su_id ` set (day @ account)"
    using plans_state(2) [OF pl known p(1)] plan_takes_within(2) [OF _ known scopes units(2) v(1)] by blast
  then show ?thesis using v(2,5-7) by (simp add: v(3) vu settle_cover_side)
qed

text \<open>What the writer adds for one row is at most what it was asked to write for it.\<close>

lemma writeCoverage_within:
  fixes i :: nat and W :: "PartnerCoverageWrite list" and e :: partner_env and db :: partner_db
  defines "ws \<equiv> filter (\<lambda>w. cw_partner_ledger_id w = i) W"
    and "new \<equiv> filter (\<lambda>x. cw_partner_ledger_id x = i) (drop (length (pd_coverage db)) (pd_coverage (writeCoverage e W db)))"
  assumes wt: "\<forall>w \<in> set ws. 0 \<le> cw_amount w \<and> partner_round (cw_amount w) (cw_currency w) = cw_amount w"
  shows "sum_of cw_amount new \<le> sum_of cw_amount ws"
    and "x \<in> set new \<Longrightarrow> 0 < cw_amount x \<and> (\<exists>w \<in> set ws. cw_side x = cw_side w \<and> cw_currency x = cw_currency w)"
proof -
  obtain nw where nw: "pd_coverage (writeCoverage e W db) = pd_coverage db @ nw"
    "list_all2 written nw (filter (\<lambda>w. \<not> partner_round (cw_amount w) (cw_currency w) \<le> EPS (cw_currency w)) W)"
    (is "list_all2 _ _ (filter ?keep _)")
    using writeCoverage_new by blast
  have new: "new = filter (\<lambda>x. cw_partner_ledger_id x = i) nw" by (simp add: new_def nw(1))
  have whole: "\<forall>w \<in> set (filter ?keep W). cw_partner_ledger_id w = i \<longrightarrow> partner_round (cw_amount w) (cw_currency w) = cw_amount w"
    using wt unfolding ws_def by fastforce
  have "filter (\<lambda>w. cw_partner_ledger_id w = i) (filter ?keep W) = filter ?keep ws"
    unfolding ws_def filter_filter by (simp add: conj_commute)
  then have "sum_of cw_amount new = sum_of cw_amount (filter ?keep ws)"
    unfolding new written_sum [OF nw(2) whole] by (simp only:)
  also have "\<dots> \<le> sum_of cw_amount ws"
    unfolding sum_list_map_filter' using wt by (intro sum_of_mono) auto
  finally show "sum_of cw_amount new \<le> sum_of cw_amount ws" .
  assume x: "x \<in> set new"
  then have xn: "x \<in> set nw" "cw_partner_ledger_id x = i" by (simp_all add: new)
  then obtain w where w: "w \<in> set W" "?keep w" "written x w" using list_all2_left [OF nw(2)] by fastforce
  then obtain n where xw: "x = new_cover n w" by (auto simp: written_def)
  with xn(2) w(1) have "w \<in> set ws" by (simp add: ws_def)
  with wt w(2) EPS_pos [of "cw_currency w"] show "0 < cw_amount x \<and> (\<exists>w \<in> set ws. cw_side x = cw_side w \<and> cw_currency x = cw_currency w)"
    by (auto simp: xw)
qed

lemma scope_of_unit:
  assumes day: "scope_day units (sd_selections d) = Inr day" and known: "known_units units (day @ scope_account d units)"
    and u: "u \<in> set units" and mem: "su_id u \<in> su_id ` set (day @ scope_account d units)"
  shows "su_id u \<in> set (sd_selections d) \<or> (include_account_credits d \<and> partnerUnitScope u = ACCOUNT_SCOPE)"
proof -
  obtain v where v: "v \<in> set day \<union> set (scope_account d units)" "su_id v = su_id u"
    using mem unfolding set_append by (metis imageE)
  have "v = u" using known v u by (metis (no_types, lifting) Un_iff distinct_map inj_onD known_units_def set_append subsetD)
  moreover have "set (sd_selections d) = su_id ` set day" using scope_day_ids [OF day] by (metis list.set_map)
  ultimately show ?thesis using v(1) by (auto simp: scope_account_def split: if_splits)
qed

text \<open>C2. A settlement of days never covers more of a row than is open on it. On a state whose books are in order, and with
  no row picked twice, the coverage a settlement adds to a unit (the group of a booking with its reversals)
  is of at most the amount that was open on it, in its currency and on its open side; and only picked units
  are covered, and, when the request includes them, the account's own open rows.
\<close>

theorem settleDays_covers:
  assumes "books_ok db" "distinct (sd_selections d)" "settleDays e d db = Inr (t, db')" "u \<in> set (loadUnits e (sd_partnerId d) db)"
  defines "new \<equiv> filter (\<lambda>x. cw_partner_ledger_id x = su_id u) (drop (length (pd_coverage db)) (pd_coverage db'))"
  shows "sum_of cw_amount new \<le> \<bar>su_remaining u\<bar>
    \<and> (\<forall>x \<in> set new. 0 < cw_amount x \<and> cw_side x = partnerCoverSide (su_remaining u) \<and> cw_currency x = su_currency u
         \<and> (su_id u \<in> set (sd_selections d) \<or> (include_account_credits d \<and> partnerUnitScope u = ACCOUNT_SCOPE)))"
  using assms(3)
proof (rule settleDays_steps)
  fix plans db1 db2 db3 discs db4 and owns :: "partner_ledger_row list"
  let ?pid = "sd_partnerId d" and ?a = "pl_id (hd owns)"
  define units where "units = loadUnits e ?pid db"
  assume plans: "settle_plans e d db = Inr plans" and r: "settle_rows e d None plans db = (owns, db1)"
    and t: "createTransaction (settlement_txn e d plans ?a) db1 = (t, db2)" and p3: "post_legs e t (all_legs plans) db2 = Inr db3"
    and r4: "discount_rows e d (loadUnits e ?pid db) ?a plans db3 = (discs, db4)"
    and out: "db' = writeCoverage e (day_writes (loadUnits e ?pid db) t ?a ?pid plans owns discs) db4"
  obtain day where known: "known_units units (day @ scope_account d units)" and day: "scope_day units (sd_selections d) = Inr day"
    and pl: "all_results (map (plan_section d day (scope_account d units)) (sections d)) = Inr plans"
    using settle_plans_Inr [OF assms(1) plans] unfolding units_def by metis
  have u: "u \<in> set units" and dist: "distinct (map su_id units)" using assms(4) known by (simp_all add: units_def known_units_def)
  have scopes: "distinct (map su_id (day @ scope_account d units))" by (rule scopes_distinct [OF dist assms(2) day])
  have st: "\<forall>p \<in> set plans. \<exists>fr s sg. plan_state units fr s sg p" using plans_state(1) [OF pl known] by blast
  have within: "\<forall>p \<in> set plans. taken_of u p \<le> \<bar>su_remaining u\<bar>"
    using plans_state(2) [OF pl known] plan_takes_within(1) [OF _ known scopes u] by blast
  note sizes = settle_sizes [OF r t p3 r4]
  define ws where "ws = filter (\<lambda>w. cw_partner_ledger_id w = su_id u) (day_writes units t ?a ?pid plans owns discs)"
  have "su_id u \<le> ledger_counter db" using unit_in_books(1) [OF assms(4)] assms(1) by (auto simp: books_ok_def ledger_ok_def)
  then have fresh: "\<forall>r \<in> set owns. pl_id r \<noteq> su_id u" "\<forall>r. Some r \<in> set discs \<longrightarrow> pl_id r \<noteq> su_id u" using sizes(1,2) by fastforce+
  have cur: "distinct (map dp_currency plans)" unfolding plans_currencies [OF pl known] by (rule sections_distinct)
  note dw = day_writes_within [OF st within cur dist u fresh sizes(3,4), where txn = t and a = ?a and pid = ?pid, folded ws_def]
  have wt: "\<forall>w \<in> set ws. 0 \<le> cw_amount w \<and> partner_round (cw_amount w) (cw_currency w) = cw_amount w \<and> cw_side w = partnerCoverSide (su_remaining u)
      \<and> cw_currency w = su_currency u \<and> su_id u \<in> su_id ` set (day @ scope_account d units)" (is "\<forall>w \<in> set ws. ?P w")
  proof
    fix w assume w: "w \<in> set ws"
    then obtain p where "p \<in> set plans" "w \<in> set (take_writes units t ?a ?pid p)" using dw(2) by blast
    then show "?P w" using day_write_of_unit [OF pl known scopes dist u] w unfolding ws_def mem_Collect_eq set_filter by blast
  qed
  have new: "new = filter (\<lambda>x. cw_partner_ledger_id x = su_id u)
      (drop (length (pd_coverage db4)) (pd_coverage (writeCoverage e (day_writes units t ?a ?pid plans owns discs) db4)))"
    by (simp add: new_def out units_def sizes(5))
  note written = writeCoverage_within [where i = "su_id u" and e = e and db = db4, of "day_writes units t ?a ?pid plans owns discs", folded ws_def new]
  have "sum_of cw_amount new \<le> \<bar>su_remaining u\<bar>" using written(1) wt dw(1) by (blast intro: order_trans)
  moreover have "\<forall>x \<in> set new. 0 < cw_amount x \<and> cw_side x = partnerCoverSide (su_remaining u) \<and> cw_currency x = su_currency u
      \<and> (su_id u \<in> set (sd_selections d) \<or> (include_account_credits d \<and> partnerUnitScope u = ACCOUNT_SCOPE))"
    using written(2) wt scope_of_unit [OF day known u] by metis
  ultimately show ?thesis by blast
qed

theorem settleDays_covers_witness:
  "\<exists>t db' u. settleDays sample_env sample_request sample_books = Inr (t, db') \<and> u \<in> set (loadUnits sample_env 7 sample_books)
    \<and> sum_of cw_amount (filter (\<lambda>x. cw_partner_ledger_id x = su_id u) (pd_coverage db')) \<le> \<bar>su_remaining u\<bar>"
proof -
  obtain t db' where s: "settleDays sample_env sample_request sample_books = Inr (t, db')" using sample_settles by blast
  have "length (loadUnits sample_env 7 sample_books) = 2" by code_simp
  then obtain u where u: "u \<in> set (loadUnits sample_env 7 sample_books)" by (metis length_0_conv list.set_intros(1) neq_Nil_conv zero_neq_numeral)
  have "books_ok sample_books" by (rule empty_books_ok [OF sample_ledger_ok]) (simp add: sample_books_def)
  moreover have "distinct (sd_selections sample_request)" "sd_partnerId sample_request = 7" by (simp_all add: sample_request_def)
  ultimately show ?thesis using settleDays_covers [OF _ _ s, of u] s u by (auto simp: sample_books_def)
qed

end
