(* ===== verification/Partner_Settle_Undo.thy ===== *)
theory Partner_Settle_Undo
  imports Partner_Settle_Days_Cover
begin

text \<open>
  Undoing a settlement gives back the ledger balance: the undo adds the opposite of the settlement's first row and
  of every row linked to it, which are exactly the rows the settlement of days added.
\<close>

section \<open>The balance as a sum over the ledger\<close>

definition row_balance :: "nat \<Rightarrow> PartnerCurrency \<Rightarrow> partner_ledger_row \<Rightarrow> amount" where
  "row_balance p c r =
     (if pl_partner_id r = p \<and> pl_currency r = currency_text c
      then of_int (partner_toMinor (pl_amount r) c * sideSign (pl_direction r)) / partner_minorFactor c else 0)"

lemma ledger_balance_rows: "ledger_balance p c db = sum_of (row_balance p c) (pd_ledger db)"
  unfolding ledger_balance_def sum_list_map_filter' by (rule sum_of_cong) (simp add: row_balance_def)

lemma row_balance_bare: "row_balance p c (bare_row r) = row_balance p c r"
  by (simp add: row_balance_def)

lemma sum_bare:
  fixes g :: "partner_ledger_row \<Rightarrow> amount"
  assumes "map bare_row rs = map bare_row rs'" "\<And>r. g (bare_row r) = g r"
  shows "sum_of g rs = sum_of g rs'"
proof -
  have "map g rs = map g (map bare_row rs)" using assms(2) by simp
  also have "\<dots> = map g rs'" using assms by simp
  finally show ?thesis by simp
qed

definition same_ledger :: "partner_db \<Rightarrow> partner_db \<Rightarrow> bool" where
  "same_ledger db db' \<longleftrightarrow> map bare_row (pd_ledger db') = map bare_row (pd_ledger db)"

lemma same_ledger_balance: "same_ledger db db' \<Longrightarrow> ledger_balance p c db' = ledger_balance p c db"
  unfolding same_ledger_def ledger_balance_rows using sum_bare row_balance_bare by blast

lemma same_books_ledger: "same_books db db' \<Longrightarrow> same_ledger db db'"
  by (simp add: same_books_def same_ledger_def)

lemma writeCoverage_ledger: "same_ledger db (writeCoverage e ws db)"
proof -
  have "pd_ledger (fold insert_coverage ws db) = pd_ledger db"
    by (induction ws arbitrary: db) (simp_all add: insert_coverage_def Let_def)
  moreover have "same_books (fold insert_coverage ws db) (writeCoverage e ws db)"
    unfolding writeCoverage_def by (rule fold_same_books) (rule sync_same)
  ultimately show ?thesis by (simp add: same_books_def same_ledger_def)
qed

lemma applyReversal_ledger: "same_ledger db (applyReversal e plan txn db)"
proof -
  define rows where "rows = own_coverage (rp_ledgerIds plan) db"
  define db1 where "db1 = (if rows = [] then db else reverse_coverage e plan txn rows db)"
  have "same_ledger d (mark_reversed ids d)" for ids d by (simp add: same_ledger_def mark_reversed_def)
  moreover have "same_ledger d (writeCoverage e ws (mark_reversed ids d))" for ids ws d
    using writeCoverage_ledger [of "mark_reversed ids d" e ws] by (simp add: same_ledger_def mark_reversed_def)
  ultimately have l1: "same_ledger db db1"
    by (auto simp: db1_def reverse_coverage_def Let_def case_prod_beta same_ledger_def [of db db])
  obtain ids db2 where u: "unwind_all (rp_partnerId plan) (rp_legacy plan) (map cw_partner_ledger_id rows, db1) = (ids, db2)"
    by fastforce
  then have "same_books db1 db2" using unwind_all_same by (metis snd_conv)
  moreover have "applyReversal e plan txn db = syncObligationCovered e (rp_partnerId plan) ids db2"
    unfolding applyReversal_def Let_def own_coverage_def [symmetric] rows_def [symmetric] db1_def [symmetric] u by simp
  ultimately have "same_books db1 (applyReversal e plan txn db)" using sync_same same_books_trans by metis
  then show ?thesis using l1 same_books_ledger by (metis same_ledger_def)
qed

section \<open>What an undo does to the balance\<close>

lemma insert_ledger_balance:
  "ledger_balance p c (snd (insert_ledger e d db)) = ledger_balance p c db + row_balance p c (fst (insert_ledger e d db))"
  by (simp add: ledger_balance_rows insert_ledger_def Let_def)

lemma reversal_balance:
  assumes "pl_partner_id r = q"
  shows "row_balance p c (fst (insert_ledger e (reversal_entry q i text r) db)) = - row_balance p c r"
proof -
  have "of_int (x * sideSign (if pl_direction r = DEBIT then CREDIT else DEBIT)) = - (of_int (x * sideSign (pl_direction r)) :: rat)" for x
    by (cases "pl_direction r") (simp_all add: sideSign_def)
  then show ?thesis using assms by (simp add: insert_ledger_def Let_def reversal_entry_def row_balance_def del: of_int_mult)
qed

lemma reverse_linked_balance:
  assumes "pl_partner_id r = q"
  shows "ledger_balance p c (reverse_linked e original q r db) = ledger_balance p c db - row_balance p c r"
  using insert_ledger_balance [of p c e "reversal_entry q (tn_source_id original) (linked_text (tn_id original) r) r" db]
    reversal_balance [OF assms] same_ledger_balance [OF same_books_ledger [OF negate_same(1)]]
  by (simp add: reverse_linked_def Let_def)

lemma reverse_all_balance:
  assumes "\<forall>r \<in> set rs. pl_partner_id r = q"
  shows "ledger_balance p c (fold (reverse_linked e original q) rs db) = ledger_balance p c db - sum_of (row_balance p c) rs"
  using assms by (induction rs arbitrary: db) (simp_all add: reverse_linked_balance)

definition settlement_of :: "txn_row \<Rightarrow> partner_ledger_row \<Rightarrow> partner_db \<Rightarrow> bool" where
  "settlement_of original entry db \<longleftrightarrow>
     (tn_type original = ''PARTNER_SETTLEMENT'' \<or> tn_type original = ''PARTNER_PAYMENT'') \<and> tn_source_table original = ''partner_ledger''
     \<and> find (\<lambda>r. pl_id r = tn_source_id original) (pd_ledger db) = Some entry"

lemma undo_balance:
  assumes "books_ok db" "settlement_of original entry db"
  shows "ledger_balance p c (reversePartnerSettlementLedger e original txn db)
    = ledger_balance p c db - row_balance p c entry - sum_of (row_balance p c) (linked_rows (pl_id entry) db)"
proof -
  let ?q = "pl_partner_id entry" and ?a = "tn_source_id original"
  let ?db1 = "snd (insert_ledger e (reversal_entry ?q ?a (''Reversal of settlement/payment txn #'' @ nat_text (tn_id original)) entry) db)"
  have entry: "entry \<in> set (pd_ledger db)" "pl_id entry = ?a" using assms(2) by (auto simp: settlement_of_def find_Some_iff)
  have same: "pl_partner_id r = ?q" if "r \<in> set (linked_rows ?a db)" for r
  proof -
    have "r \<in> set (pd_ledger db)" "linked_to r = Some ?a" using that by (auto simp: linked_rows_iff)
    then obtain s where s: "s \<in> set (pd_ledger db)" "pl_id s = ?a" "pl_partner_id s = pl_partner_id r"
      using assms(1) by (auto simp: books_ok_def ledger_ok_def)
    have "inj_on pl_id (set (pd_ledger db))" using assms(1) by (simp add: books_ok_def ledger_ok_def distinct_map)
    then have "s = entry" using s entry by (metis inj_onD)
    then show ?thesis using s(3) by simp
  qed
  have "reversePartnerSettlementLedger e original txn db
      = applyReversal e (planReversal e ?q (?a # map pl_id (linked_rows ?a db)) db) txn (fold (reverse_linked e original ?q) (linked_rows ?a db) ?db1)"
    using assms(2) by (auto simp: reversePartnerSettlementLedger_def settlement_of_def linked_rows_def Let_def)
  then have "ledger_balance p c (reversePartnerSettlementLedger e original txn db)
      = ledger_balance p c (fold (reverse_linked e original ?q) (linked_rows ?a db) ?db1)"
    using same_ledger_balance [OF applyReversal_ledger] by simp
  also have "\<dots> = ledger_balance p c ?db1 - sum_of (row_balance p c) (linked_rows ?a db)"
    using same by (intro reverse_all_balance) blast
  also have "ledger_balance p c ?db1 = ledger_balance p c db - row_balance p c entry"
    unfolding insert_ledger_balance by (simp add: reversal_balance)
  finally show ?thesis by (simp add: entry(2))
qed

section \<open>The rows and the transactions a settlement adds\<close>

lemma settle_rows_ledger:
  assumes "settle_rows e d anchor ps db = (rows, db')"
  shows "pd_ledger db' = pd_ledger db @ rows
    \<and> (case anchor of Some a \<Rightarrow> \<forall>r \<in> set rows. linked_to r = Some a
        | None \<Rightarrow> rows \<noteq> [] \<longrightarrow> linked_to (hd rows) = None \<and> (\<forall>r \<in> set (tl rows). linked_to r = Some (pl_id (hd rows))))"
  using assms
proof (induction ps arbitrary: anchor db rows)
  case (Cons p ps)
  obtain row db1 where i: "insert_ledger e (settlement_entry d anchor p) db = (row, db1)" by fastforce
  define a where "a = (case anchor of None \<Rightarrow> pl_id row | Some a \<Rightarrow> a)"
  obtain rest where rest: "settle_rows e d (Some a) ps db1 = (rest, db')" "rows = row # rest"
    using Cons.prems by (auto simp: uncovered_entry settlement_entry_link i a_def split: prod.splits)
  have row: "pd_ledger db1 = pd_ledger db @ [row]" using i by (auto simp: insert_ledger_def Let_def)
  have link: "linked_to row = anchor"
    using i by (cases anchor) (auto simp: insert_ledger_def Let_def linked_to_def settlement_entry_def)
  from Cons.IH [OF rest(1)] row link show ?case by (cases anchor) (auto simp: rest(2) a_def)
qed (auto split: option.split)

definition booked :: "'a option list \<Rightarrow> 'a list" where
  "booked xs = concat (map (\<lambda>x. case x of None \<Rightarrow> [] | Some r \<Rightarrow> [r]) xs)"

lemma booked_simps [simp]: "booked [] = []" "booked (None # xs) = booked xs" "booked (Some r # xs) = r # booked xs"
  by (simp_all add: booked_def)

lemma discount_rows_ledger:
  assumes "discount_rows e d units a ps db = (discs, db')"
  shows "pd_ledger db' = pd_ledger db @ booked discs \<and> (\<forall>r \<in> set (booked discs). linked_to r = Some a)"
  using assms
proof (induction ps arbitrary: db discs)
  case (Cons p ps)
  show ?case
  proof (cases "waiveApplied p \<le> EPS (dp_currency p)")
    case True
    then obtain rest where "discount_rows e d units a ps db = (rest, db')" "discs = None # rest"
      using Cons.prems by (auto split: prod.splits)
    then show ?thesis using Cons.IH by auto
  next
    case False
    obtain row db1 where i: "insert_ledger e (discount_entry d units a p) db = (row, db1)" by fastforce
    obtain rest where rest: "discount_rows e d units a ps (recordDiscount e row db1) = (rest, db')" "discs = Some row # rest"
      using Cons.prems False by (auto simp: uncovered_entry discount_entry_link i split: prod.splits)
    have "pd_ledger db1 = pd_ledger db @ [row]" "linked_to row = Some a"
      using i by (auto simp: insert_ledger_def Let_def linked_to_def discount_entry_def)
    with Cons.IH [OF rest(1)] show ?thesis by (simp add: rest(2) recordDiscount_ok)
  qed
qed simp

definition txns_from :: "partner_db \<Rightarrow> partner_db \<Rightarrow> bool" where
  "txns_from db db' \<longleftrightarrow> txn_counter db \<le> txn_counter db'
     \<and> (\<exists>more. pd_txns db' = pd_txns db @ more \<and> (\<forall>x \<in> set more. txn_counter db < tn_id x))"

lemma txns_from_same: "pd_txns db' = pd_txns db \<Longrightarrow> txn_counter db' = txn_counter db \<Longrightarrow> txns_from db db'"
  by (simp add: txns_from_def)

lemma txns_from_trans: "txns_from a b \<Longrightarrow> txns_from b c \<Longrightarrow> txns_from a c"
  unfolding txns_from_def by auto (metis le_less_trans)

lemma insert_ledger_txns: "insert_ledger e x db = (row, db') \<Longrightarrow> pd_txns db' = pd_txns db \<and> txn_counter db' = txn_counter db"
  by (auto simp: insert_ledger_def Let_def)

lemma settle_rows_txns: "settle_rows e d anchor ps db = (rows, db') \<Longrightarrow> pd_txns db' = pd_txns db \<and> txn_counter db' = txn_counter db"
proof (induction ps arbitrary: anchor db rows)
  case (Cons p ps)
  then show ?case
    by (auto simp: uncovered_entry settlement_entry_link split: prod.splits dest!: insert_ledger_txns)
qed simp

lemma post_legs_txns: "post_legs e txn pls db = Inr db' \<Longrightarrow> pd_txns db' = pd_txns db \<and> txn_counter db' = txn_counter db"
proof (induction pls arbitrary: db)
  case (Cons pl pls)
  then show ?case by (fastforce simp: Let_def insertPaymentRow_def applyDrawerDelta_def split: sum.splits)
qed simp

lemma recordDiscount_txns: "txns_from db (recordDiscount e row db)"
  by (simp add: txns_from_def recordDiscount_def Let_def createTransaction_def linkTransaction_def)

lemma discount_rows_txns: "discount_rows e d units a ps db = (discs, db') \<Longrightarrow> txns_from db db'"
proof (induction ps arbitrary: db discs)
  case (Cons p ps)
  show ?case
  proof (cases "waiveApplied p \<le> EPS (dp_currency p)")
    case True
    then show ?thesis using Cons by (auto split: prod.splits)
  next
    case False
    obtain row db1 where i: "insert_ledger e (discount_entry d units a p) db = (row, db1)" by fastforce
    obtain rest where "discount_rows e d units a ps (recordDiscount e row db1) = (rest, db')"
      using Cons.prems False by (auto simp: uncovered_entry discount_entry_link i split: prod.splits)
    with Cons.IH have "txns_from (recordDiscount e row db1) db'" by blast
    moreover have "txns_from db db1" using insert_ledger_txns [OF i] by (simp add: txns_from_same)
    ultimately show ?thesis using recordDiscount_txns txns_from_trans by blast
  qed
qed (simp add: txns_from_def)

lemma writeCoverage_txns: "pd_txns (writeCoverage e ws db) = pd_txns db \<and> txn_counter (writeCoverage e ws db) = txn_counter db"
proof -
  have heads: "pd_txns (share_heads c db0 rest hs x) = pd_txns x \<and> txn_counter (share_heads c db0 rest hs x) = txn_counter x" for c db0 rest hs x
    by (induction hs arbitrary: rest x) (simp_all add: Let_def set_covered_def)
  have keep: "pd_txns (fold f xs x) = pd_txns x \<and> txn_counter (fold f xs x) = txn_counter x"
    if "\<And>y z. pd_txns (f y z) = pd_txns z \<and> txn_counter (f y z) = txn_counter z" for f :: "'b \<Rightarrow> partner_db \<Rightarrow> partner_db" and xs x
    using that by (induction xs arbitrary: x) auto
  have sync: "pd_txns (syncObligationCovered e p ids x) = pd_txns x \<and> txn_counter (syncObligationCovered e p ids x) = txn_counter x" for p ids x
    using keep [of sync_unit] heads by (simp add: syncObligationCovered_def sync_unit_def Let_def)
  have "pd_txns (fold insert_coverage ws db) = pd_txns db \<and> txn_counter (fold insert_coverage ws db) = txn_counter db"
    by (rule keep) (simp add: insert_coverage_def Let_def)
  moreover have "pd_txns (fold (\<lambda>t. syncObligationCovered e (fst t) (snd t)) ts x) = pd_txns x
      \<and> txn_counter (fold (\<lambda>t. syncObligationCovered e (fst t) (snd t)) ts x) = txn_counter x" for ts x
    by (rule keep) (rule sync)
  ultimately show ?thesis by (simp add: writeCoverage_def)
qed

section \<open>What a settlement leaves behind\<close>

definition settled_by :: "partner_db \<Rightarrow> nat \<Rightarrow> partner_db \<Rightarrow> partner_ledger_row \<Rightarrow> partner_ledger_row list \<Rightarrow> bool" where
  "settled_by db t db' own rest \<longleftrightarrow>
     map bare_row (pd_ledger db') = map bare_row (pd_ledger db @ own # rest)
     \<and> ledger_counter db < pl_id own \<and> linked_to own = None \<and> (\<forall>r \<in> set rest. linked_to r = Some (pl_id own))
     \<and> (\<exists>x more. pd_txns db' = pd_txns db @ x # more \<and> tn_id x = t \<and> tn_type x = ''PARTNER_SETTLEMENT''
          \<and> tn_source_table x = ''partner_ledger'' \<and> tn_source_id x = pl_id own \<and> (\<forall>y \<in> set more. t < tn_id y))
     \<and> t = txn_counter db + 1"

lemma createTransaction_spec:
  "createTransaction x db = (t, db') \<Longrightarrow> t = txn_counter db + 1 \<and> txn_counter db' = t \<and> pd_txns db' = pd_txns db @ [x\<lparr>tn_id := t, tn_active := True\<rparr>]"
  by (auto simp: createTransaction_def Let_def)

lemma settleDays_settled_by:
  assumes "books_ok db" "settleDays e d db = Inr (t, db')"
  shows "\<exists>own rest. settled_by db t db' own rest"
  using assms(2)
proof (rule settleDays_steps)
  fix plans db1 db2 db3 discs db4 and owns :: "partner_ledger_row list"
  assume plans: "settle_plans e d db = Inr plans" and r: "settle_rows e d None plans db = (owns, db1)"
    and t: "createTransaction (settlement_txn e d plans (pl_id (hd owns))) db1 = (t, db2)" and p3: "post_legs e t (all_legs plans) db2 = Inr db3"
    and r4: "discount_rows e d (loadUnits e (sd_partnerId d) db) (pl_id (hd owns)) plans db3 = (discs, db4)"
    and out: "db' = writeCoverage e (day_writes (loadUnits e (sd_partnerId d) db) t (pl_id (hd owns)) (sd_partnerId d) plans owns discs) db4"
  have "plans \<noteq> []" using settle_plans_Inr [OF assms(1) plans] by metis
  then have "owns \<noteq> []" using settle_rows_length [OF r] by auto
  then have owns: "owns = hd owns # tl owns" by simp
  have l1: "pd_ledger db1 = pd_ledger db @ owns" "linked_to (hd owns) = None" "\<forall>r \<in> set (tl owns). linked_to r = Some (pl_id (hd owns))"
    using settle_rows_ledger [OF r] \<open>owns \<noteq> []\<close> by auto
  have l3: "pd_ledger db3 = pd_ledger db1"
    using post_legs_same [OF p3] createTransaction_same [where db = db1] t by (metis snd_conv)
  have l4: "pd_ledger db4 = pd_ledger db3 @ booked discs" "\<forall>r \<in> set (booked discs). linked_to r = Some (pl_id (hd owns))"
    using discount_rows_ledger [OF r4] by auto
  have "map bare_row (pd_ledger db') = map bare_row (pd_ledger db4)"
    unfolding out using writeCoverage_ledger by (simp add: same_ledger_def)
  then have rows: "map bare_row (pd_ledger db') = map bare_row (pd_ledger db @ hd owns # (tl owns @ booked discs))"
    by (metis l1(1) l3 l4(1) owns append.assoc append_Cons)
  have fresh: "ledger_counter db < pl_id (hd owns)" using settle_rows_fresh [OF r] \<open>owns \<noteq> []\<close> by simp
  let ?x = "(settlement_txn e d plans (pl_id (hd owns)))\<lparr>tn_id := t, tn_active := True\<rparr>"
  have t1: "t = txn_counter db + 1" "txn_counter db2 = t" "pd_txns db2 = pd_txns db @ [?x]"
    using createTransaction_spec [OF t] settle_rows_txns [OF r] by simp_all
  have "txns_from db3 db4" by (rule discount_rows_txns [OF r4])
  then obtain more where "pd_txns db4 = pd_txns db3 @ more" "\<forall>y \<in> set more. t < tn_id y"
    using post_legs_txns [OF p3] t1(2) by (auto simp: txns_from_def)
  then have "pd_txns db' = pd_txns db @ ?x # more" "\<forall>y \<in> set more. t < tn_id y"
    using post_legs_txns [OF p3] t1(3) writeCoverage_txns by (simp_all add: out)
  then show ?thesis
    using rows fresh l1(2,3) l4(2) t1(1) unfolding settled_by_def
    by (intro exI [of _ "hd owns"] exI [of _ "tl owns @ booked discs"]) (auto simp: settlement_txn_def intro!: exI [of _ ?x])
qed

definition txn_ids_ok :: "partner_db \<Rightarrow> bool" where
  "txn_ids_ok db \<longleftrightarrow> (\<forall>x \<in> set (pd_txns db). tn_id x \<le> txn_counter db)"

lemma settled_original:
  assumes "settled_by db t db' own rest" "txn_ids_ok db" "original \<in> set (pd_txns db')" "tn_id original = t"
  shows "tn_type original = ''PARTNER_SETTLEMENT'' \<and> tn_source_table original = ''partner_ledger'' \<and> tn_source_id original = pl_id own"
proof -
  obtain x more where x: "pd_txns db' = pd_txns db @ x # more" "tn_type x = ''PARTNER_SETTLEMENT''"
    "tn_source_table x = ''partner_ledger''" "tn_source_id x = pl_id own" "\<forall>y \<in> set more. t < tn_id y" "t = txn_counter db + 1"
    using assms(1) by (auto simp: settled_by_def)
  have "original \<notin> set (pd_txns db)" using assms(2,4) x(6) by (fastforce simp: txn_ids_ok_def)
  moreover have "original \<notin> set more" using assms(4) x(5) by blast
  ultimately have "original = x" using assms(3) x(1) by auto
  then show ?thesis using x by simp
qed

lemma settled_own_row:
  assumes "settled_by db t db' own rest" "books_ok db'"
  shows "\<exists>entry. find (\<lambda>r. pl_id r = pl_id own) (pd_ledger db') = Some entry \<and> bare_row entry = bare_row own"
proof -
  have "bare_row own \<in> set (map bare_row (pd_ledger db'))" using assms(1) by (simp add: settled_by_def)
  then obtain entry where e: "entry \<in> set (pd_ledger db')" "bare_row entry = bare_row own" by auto
  then have "pl_id entry = pl_id own" by (metis bare_row_fields(1))
  moreover have "distinct (map pl_id (pd_ledger db'))" using assms(2) by (simp add: books_ok_def ledger_ok_def)
  ultimately have "find (\<lambda>r. pl_id r = pl_id own) (pd_ledger db') = Some entry" using e(1) by (metis find_unique)
  then show ?thesis using e(2) by blast
qed

lemma filter_bare_rows: "filter P (map bare_row rs) = map bare_row (filter (\<lambda>r. P (bare_row r)) rs)"
  by (simp add: filter_map comp_def)

lemma settled_linked_sum:
  assumes "settled_by db t db' own rest" "books_ok db"
  shows "sum_of (row_balance p c) (linked_rows (pl_id own) db') = sum_of (row_balance p c) rest"
proof -
  let ?linked = "\<lambda>r. linked_to r = Some (pl_id own)"
  have "\<not> ?linked r" if mem: "r \<in> set (pd_ledger db)" for r
  proof
    assume "?linked r"
    then obtain q where "q \<in> set (pd_ledger db)" "pl_id q = pl_id own" using mem assms(2) by (auto simp: books_ok_def ledger_ok_def)
    then have "pl_id own \<le> ledger_counter db" using assms(2) by (auto simp: books_ok_def ledger_ok_def)
    then show False using assms(1) by (simp add: settled_by_def)
  qed
  then have old: "filter ?linked (pd_ledger db) = []" by (simp add: filter_empty_conv)
  have new: "filter ?linked (own # rest) = rest" using assms(1) by (simp add: settled_by_def)
  have "map bare_row (filter ?linked (pd_ledger db')) = filter ?linked (map bare_row (pd_ledger db'))" by (simp add: filter_bare_rows)
  also have "\<dots> = filter ?linked (map bare_row (pd_ledger db @ own # rest))" using assms(1) by (simp add: settled_by_def)
  also have "\<dots> = map bare_row (filter ?linked (pd_ledger db) @ filter ?linked (own # rest))" by (simp add: filter_bare_rows)
  finally have "map bare_row (filter ?linked (pd_ledger db')) = map bare_row rest" by (simp only: old new append_Nil)
  then have "sum_of (row_balance p c) (filter ?linked (pd_ledger db')) = sum_of (row_balance p c) rest"
    by (rule sum_bare) (rule row_balance_bare)
  moreover have "linked_rows (pl_id own) db' = sort_key pl_id (filter ?linked (pd_ledger db'))"
    unfolding linked_rows_def by (intro arg_cong [where f = "sort_key pl_id"] filter_cong refl) (auto simp: linked_to_def)
  then have "mset (linked_rows (pl_id own) db') = mset (filter ?linked (pd_ledger db'))" by simp
  ultimately show ?thesis by (metis mset_map sum_mset_sum_list)
qed

text \<open>C7. An undone settlement gives the debt back. Take a settlement of days that went through on books that hold
  the invariant of the partner ledger, and the transaction row it booked. Undoing that transaction brings the ledger
  balance of every partner in every currency back to what it was before the settlement, whatever the shop's
  environment is at the time of the undo, and leaves books that hold the invariant, so that what the settlement
  screens show as open follows.
\<close>

theorem settle_undo_restores:
  assumes "books_ok db" "txn_ids_ok db" "settleDays e d db = Inr (t, db')" "original \<in> set (pd_txns db')" "tn_id original = t"
  shows "ledger_balance p c (reversePartnerSettlementLedger e' original txn db') = ledger_balance p c db
    \<and> books_ok (reversePartnerSettlementLedger e' original txn db')"
proof -
  obtain own rest where s: "settled_by db t db' own rest" using settleDays_settled_by [OF assms(1,3)] by blast
  have ok: "books_ok db'" by (rule settleDays_ok [OF assms(1,3)])
  note orig = settled_original [OF s assms(2,4,5)]
  obtain entry where entry: "find (\<lambda>r. pl_id r = pl_id own) (pd_ledger db') = Some entry" "bare_row entry = bare_row own"
    using settled_own_row [OF s ok] by blast
  then have same: "pl_id entry = pl_id own" "linked_to entry = None" "row_balance p c entry = row_balance p c own"
    using s by (metis bare_row_fields(1), metis bare_row_fields(9) settled_by_def, metis row_balance_bare)
  have "settlement_of original entry db'" using orig entry(1) by (simp add: settlement_of_def)
  then have "ledger_balance p c (reversePartnerSettlementLedger e' original txn db')
      = ledger_balance p c db' - row_balance p c own - sum_of (row_balance p c) rest"
    using undo_balance [OF ok] settled_linked_sum [OF s assms(1)] same(1,3) by simp
  moreover have "ledger_balance p c db' = ledger_balance p c db + row_balance p c own + sum_of (row_balance p c) rest"
    using sum_bare [of "pd_ledger db'" "pd_ledger db @ own # rest" "row_balance p c"] s
    by (simp add: ledger_balance_rows settled_by_def row_balance_bare)
  moreover have "books_ok (reversePartnerSettlementLedger e' original txn db')"
    by (rule reversePartnerSettlementLedger_ok [OF ok]) (simp add: orig entry(1) same(2))
  ultimately show ?thesis by simp
qed

theorem settle_undo_restores_witness:
  "\<exists>t db' original. settleDays sample_env sample_request sample_books = Inr (t, db') \<and> original \<in> set (pd_txns db') \<and> tn_id original = t
    \<and> ledger_balance 7 SettleUSD (reversePartnerSettlementLedger sample_env original None db') = 70"
proof -
  obtain t db' where s: "settleDays sample_env sample_request sample_books = Inr (t, db')" using sample_settles by blast
  have ok: "books_ok sample_books" by (rule empty_books_ok [OF sample_ledger_ok]) (simp add: sample_books_def)
  have ids: "txn_ids_ok sample_books" by (simp add: txn_ids_ok_def sample_books_def)
  obtain own rest where sb: "settled_by sample_books t db' own rest" using settleDays_settled_by [OF ok s] by blast
  then obtain x where x: "x \<in> set (pd_txns db')" "tn_id x = t" unfolding settled_by_def by (metis in_set_conv_decomp)
  have "ledger_balance 7 SettleUSD sample_books = 70" by code_simp
  then show ?thesis using settle_undo_restores [OF ok ids s x] s x by metis
qed

end
