(* ===== verification/Calendar_Dates.thy ===== *)
theory Calendar_Dates
  imports Prelude
begin

text \<open>
  Model of \<open>packages/core/src/utils/calendarDate.ts\<close>: whole days added to a \<open>YYYY-MM-DD\<close> text, and the days
  between two such texts. What the file uses of JavaScript's \<open>Date\<close> in UTC is modelled as the language standard
  defines it, on whole days (\<open>DayFromYear\<close>, \<open>YearFromTime\<close>, \<open>MakeDay\<close>), with the two-digit years
  of \<open>Date.UTC\<close>. A part of a text made of digits is a decimal number, any other part is not a number (signs,
  decimal points and exponents, which \<open>Number\<close> also reads, are left out), and the limits of \<open>Date\<close> at 100 million
  days are not reached.
\<close>

section \<open>Days and years\<close>

definition day_from_year :: "int \<Rightarrow> int" where
  "day_from_year y = 365 * (y - 1970) + (y - 1969) div 4 - (y - 1901) div 100 + (y - 1601) div 400"

definition leap_year :: "int \<Rightarrow> bool" where
  "leap_year y \<longleftrightarrow> (4 dvd y \<and> \<not> 100 dvd y) \<or> 400 dvd y"

text \<open>The largest year that does not start after the day: an estimate, at most one year off.\<close>

definition year_from_day :: "int \<Rightarrow> int" where
  "year_from_day t =
     (let y = 1970 + 400 * t div 146097
      in if t < day_from_year y then y - 1 else if day_from_year (y + 1) \<le> t then y + 1 else y)"

definition month_start :: "bool \<Rightarrow> int \<Rightarrow> int" where
  "month_start leap m =
     [0, 31, 59, 90, 120, 151, 181, 212, 243, 273, 304, 334] ! nat m + (if leap \<and> 2 \<le> m then 1 else 0)"

text \<open>The month that holds the \<open>d\<close>-th day of a year; months and days count from 0.\<close>

definition month_index :: "bool \<Rightarrow> int \<Rightarrow> int" where
  "month_index leap d = int (length (filter (\<lambda>m. month_start leap m \<le> d) [1 .. 11]))"

definition month_from_day :: "int \<Rightarrow> int" where
  "month_from_day t = (let y = year_from_day t in month_index (leap_year y) (t - day_from_year y))"

definition date_from_day :: "int \<Rightarrow> int" where
  "date_from_day t =
     (let y = year_from_day t in t - day_from_year y - month_start (leap_year y) (month_from_day t) + 1)"

text \<open>Months count from 0, and a month or a date out of range carries over.\<close>

definition make_day :: "int \<Rightarrow> int \<Rightarrow> int \<Rightarrow> int" where
  "make_day y m d =
     (let ym = y + m div 12 in day_from_year ym + month_start (leap_year ym) (m mod 12) + d - 1)"

definition date_utc :: "int \<Rightarrow> int \<Rightarrow> int \<Rightarrow> int" where
  "date_utc y m d = make_day (if 0 \<le> y \<and> y \<le> 99 then 1900 + y else y) m d"

definition set_utc_date :: "int \<Rightarrow> int \<Rightarrow> int" where
  "set_utc_date t d = make_day (year_from_day t) (month_from_day t) d"

section \<open>Texts\<close>

fun split_dash :: "string \<Rightarrow> string list" where
  "split_dash [] = [[]]"
| "split_dash (c # cs) = (if c = CHR ''-'' then [] # split_dash cs else (c # hd (split_dash cs)) # tl (split_dash cs))"

definition number_of_part :: "string \<Rightarrow> int option" where
  "number_of_part s = (if list_all is_digit s then Some (int (digits_value s)) else None)"

text \<open>\<open>None\<close> is \<open>NaN\<close>, here and for the day numbers computed from it.\<close>

definition day_of_text :: "string \<Rightarrow> int option" where
  "day_of_text s =
     (case map number_of_part (split_dash s) of
        Some y # Some m # Some d # _ \<Rightarrow> Some (date_utc y (m - 1) d)
      | _ \<Rightarrow> None)"

definition int_text :: "int \<Rightarrow> string" where
  "int_text n = (if n < 0 then ''-'' @ nat_text (nat (- n)) else nat_text (nat n))"

definition pad_two :: "string \<Rightarrow> string" where
  "pad_two s = replicate (2 - length s) (CHR ''0'') @ s"

definition text_of_day :: "int \<Rightarrow> string" where
  "text_of_day t =
     int_text (year_from_day t) @ ''-'' @ pad_two (int_text (month_from_day t + 1)) @ ''-'' @ pad_two (int_text (date_from_day t))"

definition addDaysToDateString :: "string \<Rightarrow> int \<Rightarrow> string" where
  "addDaysToDateString dateStr days =
     (case day_of_text dateStr of
        None \<Rightarrow> ''NaN-NaN-NaN''
      | Some t \<Rightarrow> text_of_day (set_utc_date t (date_from_day t + days)))"

definition daysBetweenDateStrings :: "string \<Rightarrow> string \<Rightarrow> int option" where
  "daysBetweenDateStrings fromStr toStr =
     (case (day_of_text fromStr, day_of_text toStr) of
        (Some f, Some t) \<Rightarrow> Some (math_round (of_int ((t - f) * 86400000) / 86400000))
      | _ \<Rightarrow> None)"

section \<open>A day as a cashier reads it\<close>

definition WEEKDAYS :: "string list" where
  "WEEKDAYS = [''Sun'', ''Mon'', ''Tue'', ''Wed'', ''Thu'', ''Fri'', ''Sat'']"

definition MONTHS :: "string list" where
  "MONTHS = [''Jan'', ''Feb'', ''Mar'', ''Apr'', ''May'', ''Jun'', ''Jul'', ''Aug'', ''Sep'', ''Oct'', ''Nov'', ''Dec'']"

text \<open>The first of January 1970 was a Thursday.\<close>

definition week_day :: "int \<Rightarrow> int" where
  "week_day t = (t + 4) mod 7"

definition match_day :: "string \<Rightarrow> (string \<times> string \<times> string) option" where
  "match_day s =
     (case split_dash s of
        [y, m, d] \<Rightarrow>
          if length y = 4 \<and> length m = 2 \<and> length d = 2 \<and> list_all is_digit (y @ m @ d) then Some (y, m, d) else None
      | _ \<Rightarrow> None)"

definition shopDayLabel :: "string \<Rightarrow> string" where
  "shopDayLabel day =
     (case match_day day of
        None \<Rightarrow> day
      | Some (y, m, d) \<Rightarrow>
          (let t = date_utc (int (digits_value y)) (int (digits_value m) - 1) (int (digits_value d))
           in if date_from_day t \<noteq> int (digits_value d) then day
              else WEEKDAYS ! nat (week_day t) @ '' '' @ int_text (date_from_day t) @ '' '' @ MONTHS ! nat (month_from_day t)))"

section \<open>The year of a day\<close>

lemma div_bounds: "0 < n \<Longrightarrow> n * (x div n) \<le> x" "0 < n \<Longrightarrow> x < n * (x div n) + n" for n x :: int
  using pos_mod_sign [of n x] pos_mod_bound [of n x] mult_div_mod_eq [of n x] by linarith+

lemma div_step: "(x + 1) div n = x div n + (if n dvd (x + 1) then 1 else 0)" if n: "0 < n" for n x :: int
proof (cases "n dvd (x + 1)")
  case True
  then obtain k where k: "x + 1 = n * k" by (elim dvdE)
  have "x = n * (k - 1) + (n - 1)" using k by (simp add: algebra_simps)
  then have "x div n = k - 1" using n by (intro int_div_pos_eq [where r = "n - 1"]) auto
  then show ?thesis using True k n by simp
next
  case False
  have "x mod n + 1 < n"
  proof (rule ccontr)
    assume "\<not> x mod n + 1 < n"
    then have "x mod n = n - 1" using pos_mod_bound [OF n, of x] by simp
    then have "x + 1 = n * (x div n + 1)" using mult_div_mod_eq [of n x] by (simp add: distrib_left)
    then show False using False by simp
  qed
  then have "(x + 1) div n = x div n"
    using pos_mod_sign [OF n, of x] mult_div_mod_eq [of n x] by (intro int_div_pos_eq [where r = "x mod n + 1"]) auto
  then show ?thesis using False by simp
qed

lemma day_from_year_bounds:
  "146097 * k \<le> 400 * day_from_year (1970 + k) + 506" "400 * day_from_year (1970 + k) \<le> 146097 * k + 589"
proof -
  define x y z where "x = (k + 1) div 4" and "y = (k + 69) div 100" and "z = (k + 369) div 400"
  note bounds = div_bounds [of 4 "k + 1", simplified, folded x_def] div_bounds [of 100 "k + 69", simplified, folded y_def]
    div_bounds [of 400 "k + 369", simplified, folded z_def]
  have dy: "400 * day_from_year (1970 + k) = 146000 * k + 400 * x - 400 * y + 400 * z"
    by (simp add: day_from_year_def x_def y_def z_def add_ac)
  show "146097 * k \<le> 400 * day_from_year (1970 + k) + 506" unfolding dy using bounds by linarith
  show "400 * day_from_year (1970 + k) \<le> 146097 * k + 589" unfolding dy using bounds by linarith
qed

lemma year_length: "day_from_year (y + 1) = day_from_year y + (if leap_year y then 366 else 365)"
proof -
  have "4 dvd ((y - 1969) + 1) \<longleftrightarrow> 4 dvd y" using dvd_diff_left_iff [of 4 1968 y] by (simp add: algebra_simps)
  then have a: "(y + 1 - 1969) div 4 = (y - 1969) div 4 + (if 4 dvd y then 1 else 0)"
    using div_step [of 4 "y - 1969"] by (simp add: algebra_simps)
  have "100 dvd ((y - 1901) + 1) \<longleftrightarrow> 100 dvd y" using dvd_diff_left_iff [of 100 1900 y] by (simp add: algebra_simps)
  then have b: "(y + 1 - 1901) div 100 = (y - 1901) div 100 + (if 100 dvd y then 1 else 0)"
    using div_step [of 100 "y - 1901"] by (simp add: algebra_simps)
  have "400 dvd ((y - 1601) + 1) \<longleftrightarrow> 400 dvd y" using dvd_diff_left_iff [of 400 1600 y] by (simp add: algebra_simps)
  then have c: "(y + 1 - 1601) div 400 = (y - 1601) div 400 + (if 400 dvd y then 1 else 0)"
    using div_step [of 400 "y - 1601"] by (simp add: algebra_simps)
  have "100 dvd y" if "400 dvd y" using dvd_trans [OF _ that, of 100] by simp
  moreover have "4 dvd y" if "100 dvd y" using dvd_trans [OF _ that, of 4] by simp
  ultimately show ?thesis unfolding day_from_year_def leap_year_def a b c by auto
qed

lemma year_strict: "y < z \<Longrightarrow> day_from_year y < day_from_year z"
proof (induction z rule: int_gr_induct)
  case (step z)
  then show ?case using year_length [of z] by (auto split: if_splits)
qed (use year_length [of y] in \<open>auto split: if_splits\<close>)

lemma year_mono: "y \<le> z \<Longrightarrow> day_from_year y \<le> day_from_year z"
  using year_strict [of y z] by (cases "y = z") auto

lemma year_from_day_spec: "day_from_year (year_from_day t) \<le> t \<and> t < day_from_year (year_from_day t + 1)"
proof -
  define k where "k = 400 * t div 146097"
  have k: "146097 * k \<le> 400 * t" "400 * t < 146097 * k + 146097" using div_bounds [of 146097 "400 * t"] by (simp_all add: k_def)
  have y: "year_from_day t = (if t < day_from_year (1970 + k) then 1970 + k - 1 else if day_from_year (1970 + k + 1) \<le> t then 1970 + k + 1 else 1970 + k)"
    by (simp add: year_from_day_def Let_def k_def)
  have "400 * day_from_year (1970 + (k - 1)) \<le> 400 * t" "400 * t < 400 * day_from_year (1970 + (k + 2))"
    using day_from_year_bounds(2) [of "k - 1"] day_from_year_bounds(1) [of "k + 2"] k by (auto simp: algebra_simps)
  then show ?thesis unfolding y by (auto simp: algebra_simps)
qed

lemma year_from_day_unique: "day_from_year y \<le> t \<Longrightarrow> t < day_from_year (y + 1) \<Longrightarrow> year_from_day t = y"
  using year_from_day_spec [of t] year_mono [of "y + 1" "year_from_day t"] year_mono [of "year_from_day t + 1" y] by linarith

section \<open>The month and the date of a day\<close>

text \<open>The month of a day is one of the twelve, and the day lies in it.\<close>

definition month_fits :: "bool \<Rightarrow> int \<Rightarrow> bool" where
  "month_fits leap d \<longleftrightarrow>
     (let m = month_index leap d in 0 \<le> m \<and> m \<le> 11 \<and> month_start leap m \<le> d \<and> d - month_start leap m \<le> 30)"

lemma month_fits_all: "list_all (month_fits True) [0 .. 365]" "list_all (month_fits False) [0 .. 364]"
  by code_simp+

lemma month_fits: "0 \<le> d \<Longrightarrow> d < (if leap then 366 else 365) \<Longrightarrow> month_fits leap d"
  using month_fits_all by (cases leap) (auto simp: list_all_iff)

lemma day_parts:
  "0 \<le> month_from_day t" "month_from_day t \<le> 11" "1 \<le> date_from_day t" "date_from_day t \<le> 31"
  "t = day_from_year (year_from_day t) + month_start (leap_year (year_from_day t)) (month_from_day t) + date_from_day t - 1"
proof -
  let ?y = "year_from_day t" and ?d = "t - day_from_year (year_from_day t)"
  have "0 \<le> ?d" "?d < (if leap_year ?y then 366 else 365)"
    using year_from_day_spec [of t] year_length [of ?y] by (auto split: if_splits)
  then have fits: "month_fits (leap_year ?y) ?d" by (rule month_fits)
  show "0 \<le> month_from_day t" "month_from_day t \<le> 11" "1 \<le> date_from_day t" "date_from_day t \<le> 31"
    "t = day_from_year (year_from_day t) + month_start (leap_year (year_from_day t)) (month_from_day t) + date_from_day t - 1"
    using fits by (simp_all add: month_fits_def month_from_day_def date_from_day_def Let_def)
qed

lemma make_day_parts: "make_day (year_from_day t) (month_from_day t) (date_from_day t + n) = t + n"
  using day_parts [of t] by (simp add: make_day_def Let_def)

lemma set_utc_date_add: "set_utc_date t (date_from_day t + n) = t + n"
  by (simp add: set_utc_date_def make_day_parts)

lemma date_utc_parts: "99 < year_from_day t \<Longrightarrow> date_utc (year_from_day t) (month_from_day t) (date_from_day t) = t"
  using make_day_parts [of t 0] by (simp add: date_utc_def)

lemma length_filter_mono: "(\<And>x. P x \<Longrightarrow> Q x) \<Longrightarrow> length (filter P xs) \<le> length (filter Q xs)"
  by (induction xs) (auto intro: le_SucI)

lemma month_index_mono: "d \<le> e \<Longrightarrow> month_index leap d \<le> month_index leap e"
  unfolding month_index_def of_nat_le_iff by (rule length_filter_mono) simp

lemma year_from_day_mono: "s \<le> t \<Longrightarrow> year_from_day s \<le> year_from_day t"
  using year_from_day_spec [of s] year_from_day_spec [of t] year_mono [of "year_from_day t + 1" "year_from_day s"] by linarith

lemma day_order:
  "s < t \<longleftrightarrow> year_from_day s < year_from_day t \<or> year_from_day s = year_from_day t \<and>
     (month_from_day s < month_from_day t \<or> month_from_day s = month_from_day t \<and> date_from_day s < date_from_day t)"
proof (cases "year_from_day s = year_from_day t")
  case True
  have mono: "month_from_day a \<le> month_from_day b" if "year_from_day a = year_from_day b" "a \<le> b" for a b
    unfolding month_from_day_def Let_def that(1) using that(2) by (intro month_index_mono) simp
  show ?thesis
    using True mono [of s t] mono [of t s] day_parts(5) [of s] day_parts(5) [of t]
    by (cases "month_from_day s = month_from_day t") (simp; linarith)+
next
  case False
  then show ?thesis using year_from_day_mono [of s t] year_from_day_mono [of t s] by linarith
qed

section \<open>Reading and writing texts\<close>

lemma split_dash_plain: "CHR ''-'' \<notin> set s \<Longrightarrow> split_dash s = [s]"
  by (induction s) auto

lemma split_dash_append: "CHR ''-'' \<notin> set s \<Longrightarrow> split_dash (s @ CHR ''-'' # r) = s # split_dash r"
  by (induction s) auto

lemma foldl_digits:
  "foldl (\<lambda>n c. 10 * n + (of_char c - 48)) a s = a * 10 ^ length s + foldl (\<lambda>n c. 10 * n + (of_char c - 48)) 0 s" for a :: nat
proof (induction s arbitrary: a)
  case (Cons c s)
  show ?case using Cons.IH [of "10 * a + (of_char c - 48)"] Cons.IH [of "of_char c - 48"] by (simp add: add_mult_distrib)
qed simp

lemma digits_value_Cons: "digits_value (c # s) = (of_char c - 48) * 10 ^ length s + digits_value s"
  using foldl_digits [of "of_char c - 48" s] by (simp add: digits_value_def)

lemma digits_value_pad [simp]: "digits_value (pad_two s) = digits_value s"
proof -
  have "digits_value (replicate k (CHR ''0'') @ s) = digits_value s" for k
    by (induction k) (simp_all add: digits_value_Cons)
  then show ?thesis by (simp add: pad_two_def)
qed

lemma digits_value_bound: "list_all is_digit s \<Longrightarrow> digits_value s < 10 ^ length s"
proof (induction s)
  case (Cons c s)
  have "(of_char c - 48 :: nat) \<le> 9" using Cons.prems by (auto simp: is_digit_def)
  then have "(of_char c - 48 :: nat) * 10 ^ length s \<le> 9 * 10 ^ length s" by (rule mult_right_mono) simp
  moreover have "digits_value s < 10 ^ length s" using Cons by simp
  ultimately show ?case unfolding digits_value_Cons length_Cons power_Suc by linarith
qed (simp add: digits_value_def)

lemma digits_order:
  "length s = length t \<Longrightarrow> list_all is_digit s \<Longrightarrow> list_all is_digit t \<Longrightarrow> s < t \<longleftrightarrow> digits_value s < digits_value t"
proof (induction s t rule: list_induct2)
  case (Cons c s d t)
  have bounds: "digits_value s < 10 ^ length s" "digits_value t < 10 ^ length s"
    using digits_value_bound [of s] digits_value_bound [of t] Cons by auto
  let ?c = "of_char c - 48 :: nat" and ?d = "of_char d - 48 :: nat"
  have range: "48 \<le> (of_char c :: nat)" "48 \<le> (of_char d :: nat)" using Cons.prems by (simp_all add: is_digit_def)
  have order: "c < d \<longleftrightarrow> ?c < ?d" "c = d \<longleftrightarrow> ?c = ?d"
    using range of_char_eq_iff [of c d, where ?'a = nat] unfolding less_char_def by linarith+
  have "Suc ?c * 10 ^ length s \<le> ?d * 10 ^ length s" if "?c < ?d" using that by (intro mult_right_mono) auto
  moreover have "Suc ?d * 10 ^ length s \<le> ?c * 10 ^ length s" if "?d < ?c" using that by (intro mult_right_mono) auto
  ultimately have "?c * 10 ^ length s + digits_value s < ?d * 10 ^ length s + digits_value t \<longleftrightarrow>
      ?c < ?d \<or> ?c = ?d \<and> digits_value s < digits_value t"
    using bounds by (cases ?c ?d rule: linorder_cases) auto
  then show ?case using Cons order by (simp add: digits_value_Cons)
qed simp

lemma append_order: "length s = length t \<Longrightarrow> s @ u < t @ v \<longleftrightarrow> s < t \<or> s = t \<and> u < v" for s :: "'a :: linorder list"
  by (induction s t rule: list_induct2) auto

text \<open>A number of at most \<open>k\<close> digits, written with exactly \<open>k\<close> of them.\<close>

lemma nat_text_is_digits: "list_all is_digit (nat_text n)"
  using nat_text_digits by (fastforce simp: list_all_iff is_digit_def)

lemma nat_text_length: "10 ^ k \<le> n \<Longrightarrow> n < 10 ^ Suc k \<Longrightarrow> length (nat_text n) = Suc k"
proof (induction k arbitrary: n)
  case 0
  then show ?case by (simp add: nat_text.simps)
next
  case (Suc k)
  have "10 ^ k \<le> n div 10" "n div 10 < 10 ^ Suc k" using Suc.prems by (simp_all add: less_mult_imp_div_less less_eq_div_iff_mult_less_eq mult.commute)
  moreover have "10 \<le> n" using Suc.prems(1) by (simp add: le_trans [OF _ Suc.prems(1)])
  ultimately show ?case using Suc.IH [of "n div 10"] by (subst nat_text.simps) simp
qed

lemma pad_two_text: "n < 100 \<Longrightarrow> list_all is_digit (pad_two (nat_text n)) \<and> length (pad_two (nat_text n)) = 2"
  using nat_text_is_digits [of n] nat_text_length [of 0 n] nat_text_length [of 1 n]
  by (cases "n = 0"; cases "n < 10") (auto simp: pad_two_def is_digit_def nat_text.simps [of 0] list_all_iff)

lemma pad_two_order:
  "m < 100 \<Longrightarrow> n < 100 \<Longrightarrow> pad_two (nat_text m) < pad_two (nat_text n) \<longleftrightarrow> m < n"
  "m < 100 \<Longrightarrow> n < 100 \<Longrightarrow> pad_two (nat_text m) = pad_two (nat_text n) \<longleftrightarrow> m = n"
  using pad_two_text [of m] pad_two_text [of n] digits_order [of "pad_two (nat_text m)" "pad_two (nat_text n)"]
  by (auto dest: arg_cong [of _ _ digits_value])

lemma no_dash: "list_all is_digit s \<Longrightarrow> CHR ''-'' \<notin> set s"
  by (auto simp: list_all_iff is_digit_def)

section \<open>Dates of four-digit years\<close>

text \<open>The day numbers of the years 1000 to 9999, whose texts are \<open>YYYY-MM-DD\<close>.\<close>

definition date_day :: "int \<Rightarrow> bool" where
  "date_day t \<longleftrightarrow> 1000 \<le> year_from_day t \<and> year_from_day t \<le> 9999"

lemma date_day_convex: "date_day a \<Longrightarrow> date_day b \<Longrightarrow> a \<le> t \<Longrightarrow> t \<le> b \<Longrightarrow> date_day t"
  using year_from_day_mono [of a t] year_from_day_mono [of t b] by (simp add: date_day_def)

lemma text_of_day_parts:
  assumes "date_day t"
  obtains y m d where "text_of_day t = nat_text y @ CHR ''-'' # pad_two (nat_text m) @ CHR ''-'' # pad_two (nat_text d)"
    "int y = year_from_day t" "int m = month_from_day t + 1" "int d = date_from_day t" "1000 \<le> y" "y \<le> 9999" "m < 100" "d < 100"
proof
  let ?y = "nat (year_from_day t)" and ?m = "nat (month_from_day t + 1)" and ?d = "nat (date_from_day t)"
  show "text_of_day t = nat_text ?y @ CHR ''-'' # pad_two (nat_text ?m) @ CHR ''-'' # pad_two (nat_text ?d)"
    using assms day_parts(1,3) [of t] by (simp add: text_of_day_def int_text_def date_day_def)
qed (use assms day_parts(1-4) [of t] in \<open>auto simp: date_day_def\<close>)

lemma date_utc_date_day: "date_day t \<Longrightarrow> date_utc (year_from_day t) (month_from_day t) (date_from_day t) = t"
  by (rule date_utc_parts) (simp add: date_day_def)

lemma day_of_text_of_day: "day_of_text (text_of_day t) = Some t" if t: "date_day t"
  by (rule text_of_day_parts [OF t])
    (simp add: day_of_text_def split_dash_append split_dash_plain number_of_part_def no_dash nat_text_is_digits pad_two_text
      date_utc_date_day [OF t])

lemma text_of_day_order: "date_day s \<Longrightarrow> date_day t \<Longrightarrow> text_of_day s < text_of_day t \<longleftrightarrow> s < t"
proof -
  assume s: "date_day s" and t: "date_day t"
  obtain y m d where 1: "text_of_day s = nat_text y @ CHR ''-'' # pad_two (nat_text m) @ CHR ''-'' # pad_two (nat_text d)"
    "int y = year_from_day s" "int m = month_from_day s + 1" "int d = date_from_day s" "1000 \<le> y" "y \<le> 9999" "m < 100" "d < 100"
    using text_of_day_parts [OF s] .
  obtain z n e where 2: "text_of_day t = nat_text z @ CHR ''-'' # pad_two (nat_text n) @ CHR ''-'' # pad_two (nat_text e)"
    "int z = year_from_day t" "int n = month_from_day t + 1" "int e = date_from_day t" "1000 \<le> z" "z \<le> 9999" "n < 100" "e < 100"
    using text_of_day_parts [OF t] .
  have len: "length (nat_text y) = 4" "length (nat_text z) = 4"
    using nat_text_length [of 3 y] nat_text_length [of 3 z] 1 2 by simp_all
  have "nat_text y < nat_text z \<longleftrightarrow> y < z"
    using digits_order [of "nat_text y" "nat_text z"] len nat_text_is_digits by simp
  then have "text_of_day s < text_of_day t \<longleftrightarrow> y < z \<or> y = z \<and> (m < n \<or> m = n \<and> d < e)"
    unfolding 1(1) 2(1) using len pad_two_text [of m] pad_two_text [of n] 1 2 by (simp add: append_order pad_two_order)
  then show ?thesis using day_order [of s t] 1(2-4) 2(2-4) by linarith
qed

text \<open>Adding and subtracting days on the texts is adding and subtracting day numbers.\<close>

lemma addDays_text: "date_day t \<Longrightarrow> addDaysToDateString (text_of_day t) n = text_of_day (t + n)"
  by (simp add: addDaysToDateString_def day_of_text_of_day set_utc_date_add)

lemma daysBetween_text: "daysBetweenDateStrings (text_of_day s) (text_of_day t) = Some (t - s)" if "date_day s" "date_day t"
proof -
  have "(of_int ((t - s) * 86400000) / 86400000 :: rat) = of_int (t - s)" by simp
  then show ?thesis
    unfolding daysBetweenDateStrings_def by (simp only: day_of_text_of_day [OF that(1)] day_of_text_of_day [OF that(2)] option.case prod.case math_round_of_int)
qed

lemma text_of_day_match:
  assumes t: "date_day t"
  obtains y m d where "match_day (text_of_day t) = Some (y, m, d)" "int (digits_value y) = year_from_day t"
    "int (digits_value m) - 1 = month_from_day t" "int (digits_value d) = date_from_day t"
proof -
  obtain y m d where p: "text_of_day t = nat_text y @ CHR ''-'' # pad_two (nat_text m) @ CHR ''-'' # pad_two (nat_text d)"
    "int y = year_from_day t" "int m = month_from_day t + 1" "int d = date_from_day t" "1000 \<le> y" "y \<le> 9999" "m < 100" "d < 100"
    using text_of_day_parts [OF t] .
  have len: "length (nat_text y) = 4" using nat_text_length [of 3 y] p by simp
  have "split_dash (text_of_day t) = [nat_text y, pad_two (nat_text m), pad_two (nat_text d)]"
    unfolding p(1) using no_dash nat_text_is_digits pad_two_text p by (simp add: split_dash_append split_dash_plain)
  then have "match_day (text_of_day t) = Some (nat_text y, pad_two (nat_text m), pad_two (nat_text d))"
    using len nat_text_is_digits pad_two_text [of m] pad_two_text [of d] p by (simp add: match_day_def)
  then show thesis using that p(2-4) by simp
qed

text \<open>A real date is labelled with its own weekday, date and month.\<close>

lemma shopDayLabel_text:
  "date_day t \<Longrightarrow> shopDayLabel (text_of_day t) =
     WEEKDAYS ! nat (week_day t) @ '' '' @ int_text (date_from_day t) @ '' '' @ MONTHS ! nat (month_from_day t)"
  by (frule date_utc_date_day, elim text_of_day_match) (simp add: shopDayLabel_def)

text \<open>A month out of range is not noticed: the text is labelled as a day of the next year.\<close>

lemma thirteenth_month:
  "match_day ''2026-13-05'' = Some (''2026'', ''13'', ''05'')" "date_utc 2026 12 5 = 20823"
  by code_simp+

lemma thirteenth_month_parts: "date_from_day 20823 = 5" "month_from_day 20823 = 0" "week_day 20823 = 2"
  by code_simp+

lemma digit_examples: "digits_value ''2026'' = 2026" "digits_value ''13'' = 13" "digits_value ''05'' = 5" "int_text 5 = ''5''"
  by code_simp+

lemma shopDayLabel_thirteenth_month: "shopDayLabel ''2026-13-05'' = ''Tue 5 Jan''"
  by (simp add: shopDayLabel_def thirteenth_month thirteenth_month_parts digit_examples WEEKDAYS_def MONTHS_def)

section \<open>Property\<close>

text \<open>On the texts of dates in four-digit years, the days between two texts are the difference of their day numbers,
  adding that many days to the first text gives the second one, and the order of the texts, which the sources compare
  as strings, is the order of the days.\<close>

theorem date_texts_are_days:
  assumes "date_day s" "date_day t"
  shows "daysBetweenDateStrings (text_of_day s) (text_of_day t) = Some (t - s) \<and>
    addDaysToDateString (text_of_day s) (t - s) = text_of_day t \<and>
    (text_of_day s < text_of_day t \<longleftrightarrow> s < t)"
  using assms by (simp add: daysBetween_text addDays_text text_of_day_order)

lemma leap_example: "date_day 20147" "date_day 20148" "text_of_day 20147 = ''2025-02-28''" "text_of_day 20148 = ''2025-03-01''"
  by code_simp+

theorem date_texts_are_days_witness:
  "daysBetweenDateStrings ''2025-02-28'' ''2025-03-01'' = Some 1 \<and> addDaysToDateString ''2025-02-28'' 1 = ''2025-03-01'' \<and>
    ''2025-02-28'' < ''2025-03-01''"
  using date_texts_are_days [of 20147 20148, unfolded leap_example] leap_example by (simp only: leap_example) simp

end
