(* ===== verification/Line_Validity.thy ===== *)
theory Line_Validity
  imports Calendar_Dates
begin

text \<open>
  Model of \<open>packages/core/src/utils/carrierLineValidity.ts\<close>: where a charge or a sale of days moves the expiry of a
  SIM line of the shop, and the days that were sold ahead of it. Days are whole numbers; \<open>None\<close> stands for \<open>null\<close> in an
  expiry and for \<open>NaN\<close> in a number of days. The wording of the refusal (\<open>burnedLineMessage\<close>) is left out.
\<close>

section \<open>Where a line stands\<close>

definition MAX_LINE_VALIDITY_DAYS :: int where
  "MAX_LINE_VALIDITY_DAYS = 365"

definition LINE_REVIVAL_GRACE_DAYS :: int where
  "LINE_REVIVAL_GRACE_DAYS = 5"

datatype LineValidityState = NO_EXPIRY | VALID | GRACE | BURNED

record LineValidityClassification =
  lc_state :: LineValidityState
  lc_lapseDays :: "int option"
  lc_daysRemaining :: "int option"

definition classifyLineValidity :: "string option \<Rightarrow> string \<Rightarrow> LineValidityClassification" where
  "classifyLineValidity expiry today =
     (case expiry of
        None \<Rightarrow> \<lparr>lc_state = NO_EXPIRY, lc_lapseDays = Some 0, lc_daysRemaining = Some 0\<rparr>
      | Some e \<Rightarrow>
          if e = '''' then \<lparr>lc_state = NO_EXPIRY, lc_lapseDays = Some 0, lc_daysRemaining = Some 0\<rparr>
          else (case daysBetweenDateStrings today e of
                  None \<Rightarrow> \<lparr>lc_state = BURNED, lc_lapseDays = None, lc_daysRemaining = None\<rparr>
                | Some r \<Rightarrow>
                    if r \<ge> 0 then \<lparr>lc_state = VALID, lc_lapseDays = Some 0, lc_daysRemaining = Some r\<rparr>
                    else \<lparr>lc_state = (if - r \<le> LINE_REVIVAL_GRACE_DAYS then GRACE else BURNED),
                          lc_lapseDays = Some (- r), lc_daysRemaining = Some r\<rparr>))"

section \<open>Where a movement takes it\<close>

record ValidityProjection =
  vp_expiry :: "string option"
  vp_capped :: bool
  vp_burned :: bool
  vp_state :: LineValidityState
  vp_lapseDays :: "int option"
  vp_daysLostToCap :: "int option"
  vp_daysOwed :: int
  vp_soldAhead :: int
  vp_owedApplied :: int

definition unchanged_line :: "string option \<Rightarrow> LineValidityClassification \<Rightarrow> int \<Rightarrow> ValidityProjection" where
  "unchanged_line expiry c daysOwed =
     \<lparr>vp_expiry = expiry, vp_capped = False, vp_burned = False, vp_state = lc_state c, vp_lapseDays = lc_lapseDays c,
      vp_daysLostToCap = Some 0, vp_daysOwed = daysOwed, vp_soldAhead = 0, vp_owedApplied = 0\<rparr>"

text \<open>A sale of days. A line that is valid has an expiry and days remaining.\<close>

definition project_sale :: "string option \<Rightarrow> int \<Rightarrow> string \<Rightarrow> int \<Rightarrow> ValidityProjection" where
  "project_sale expiry daysDelta today daysOwed =
     (let c = classifyLineValidity expiry today; unchanged = unchanged_line expiry c daysOwed; magnitude = - daysDelta
      in case lc_state c of
           VALID \<Rightarrow>
             (let available = the (lc_daysRemaining c)
              in if magnitude \<le> available then unchanged\<lparr>vp_expiry := Some (addDaysToDateString (the expiry) daysDelta)\<rparr>
                 else (let soldAhead = magnitude - available
                       in unchanged\<lparr>vp_expiry := Some today, vp_state := VALID, vp_lapseDays := Some 0,
                            vp_daysOwed := daysOwed + soldAhead, vp_soldAhead := soldAhead\<rparr>))
         | GRACE \<Rightarrow> unchanged\<lparr>vp_daysOwed := daysOwed + magnitude, vp_soldAhead := magnitude\<rparr>
         | _ \<Rightarrow> unchanged\<lparr>vp_expiry := Some (addDaysToDateString (case expiry of None \<Rightarrow> today | Some e \<Rightarrow> e) daysDelta)\<rparr>)"

definition project_charge :: "string option \<Rightarrow> int \<Rightarrow> string \<Rightarrow> int \<Rightarrow> ValidityProjection" where
  "project_charge expiry daysDelta today daysOwed =
     (let c = classifyLineValidity expiry today;
          unchanged = unchanged_line expiry c daysOwed;
          owedBefore = max daysOwed 0;
          owedApplied = min daysDelta owedBefore;
          remainingDelta = daysDelta - owedApplied;
          owedAfter = owedBefore - owedApplied
      in if remainingDelta = 0 then unchanged\<lparr>vp_daysOwed := owedAfter, vp_owedApplied := owedApplied\<rparr>
         else if lc_state c = BURNED \<and> owedBefore = 0
         then unchanged\<lparr>vp_expiry := None, vp_burned := True, vp_daysOwed := owedBefore\<rparr>
         else
           (let base = (if lc_state c = VALID then the expiry else today);
                extended = addDaysToDateString base remainingDelta;
                ceiling = addDaysToDateString today MAX_LINE_VALIDITY_DAYS
            in if extended > ceiling
               then unchanged\<lparr>vp_expiry := Some ceiling, vp_capped := True, vp_daysLostToCap := daysBetweenDateStrings ceiling extended,
                      vp_daysOwed := owedAfter, vp_owedApplied := owedApplied\<rparr>
               else unchanged\<lparr>vp_expiry := Some extended, vp_daysOwed := owedAfter, vp_owedApplied := owedApplied\<rparr>))"

definition projectValidityExpiry :: "string option \<Rightarrow> int \<Rightarrow> string \<Rightarrow> int \<Rightarrow> ValidityProjection" where
  "projectValidityExpiry expiry daysDelta today daysOwed =
     (if daysDelta = 0 then unchanged_line expiry (classifyLineValidity expiry today) daysOwed
      else if daysDelta < 0 then project_sale expiry daysDelta today daysOwed
      else project_charge expiry daysDelta today daysOwed)"

section \<open>The rule on day numbers\<close>

text \<open>
  The rule of the source's header, on numbers of days instead of texts: the expiry (if any) and the days owed after the
  movement, or \<open>None\<close> when the charge is refused.
\<close>

definition sale_of_days :: "int option \<Rightarrow> int \<Rightarrow> int \<Rightarrow> int \<Rightarrow> int option \<times> int" where
  "sale_of_days expiry sold today owing =
     (case expiry of
        None \<Rightarrow> (Some (today - sold), owing)
      | Some e \<Rightarrow>
          if today \<le> e then (Some (max today (e - sold)), owing + max 0 (sold - (e - today)))
          else if today - e \<le> 5 then (Some e, owing + sold)
          else (Some (e - sold), owing))"

definition charge_of_days :: "int option \<Rightarrow> int \<Rightarrow> int \<Rightarrow> int \<Rightarrow> (int option \<times> int) option" where
  "charge_of_days expiry days today owing =
     (if days \<le> owing then Some (expiry, owing - days)
      else if owing = 0 \<and> (\<exists>e. expiry = Some e \<and> today - e > 5) then None
      else Some (Some (min (today + 365) ((case expiry of Some e \<Rightarrow> max today e | None \<Rightarrow> today) + (days - owing))), 0))"

text \<open>All dates a movement can touch lie in four-digit years.\<close>

definition dates_fit :: "int option \<Rightarrow> int \<Rightarrow> int \<Rightarrow> bool" where
  "dates_fit expiry daysDelta today \<longleftrightarrow>
     (let es = (case expiry of None \<Rightarrow> [today] | Some e \<Rightarrow> [today, e])
      in list_all (\<lambda>e. date_day (e - \<bar>daysDelta\<bar>) \<and> date_day (e + \<bar>daysDelta\<bar> + 365)) es)"

lemma dates_fitD:
  assumes "dates_fit expiry d today"
  shows "- \<bar>d\<bar> \<le> n \<Longrightarrow> n \<le> \<bar>d\<bar> + 365 \<Longrightarrow> date_day (today + n)"
    "expiry = Some e \<Longrightarrow> - \<bar>d\<bar> \<le> n \<Longrightarrow> n \<le> \<bar>d\<bar> + 365 \<Longrightarrow> date_day (e + n)"
  using assms date_day_convex [of "today - \<bar>d\<bar>" "today + \<bar>d\<bar> + 365" "today + n"]
    date_day_convex [of "e - \<bar>d\<bar>" "e + \<bar>d\<bar> + 365" "e + n"]
  by (auto simp: dates_fit_def split: option.splits)

lemma text_of_day_nonempty: "text_of_day t \<noteq> ''''"
  by (simp add: text_of_day_def)

lemma classify_text:
  "date_day today \<Longrightarrow> date_day e \<Longrightarrow> classifyLineValidity (Some (text_of_day e)) (text_of_day today) =
     \<lparr>lc_state = (if today \<le> e then VALID else if today - e \<le> 5 then GRACE else BURNED),
      lc_lapseDays = Some (max 0 (today - e)), lc_daysRemaining = Some (e - today)\<rparr>"
  by (auto simp: classifyLineValidity_def text_of_day_nonempty daysBetween_text LINE_REVIVAL_GRACE_DAYS_def)

lemma classify_none: "classifyLineValidity None today = \<lparr>lc_state = NO_EXPIRY, lc_lapseDays = Some 0, lc_daysRemaining = Some 0\<rparr>"
  by (simp add: classifyLineValidity_def)

lemma project_sale_days:
  assumes fit: "dates_fit expiry d today" and d: "d < 0"
  shows "let p = project_sale (map_option text_of_day expiry) d (text_of_day today) owing; (e', o') = sale_of_days expiry (- d) today owing
    in vp_expiry p = map_option text_of_day e' \<and> vp_daysOwed p = o' \<and> \<not> vp_burned p"
proof (cases expiry)
  case None
  then show ?thesis using dates_fitD(1) [OF fit, of 0] d
    by (simp add: project_sale_def sale_of_days_def classify_none unchanged_line_def Let_def addDays_text)
next
  case (Some e)
  have "date_day today" "date_day e" using dates_fitD(1) [OF fit, of 0] dates_fitD(2) [OF fit Some, of 0] d by simp_all
  then show ?thesis using d
    by (auto simp: Some project_sale_def sale_of_days_def classify_text unchanged_line_def Let_def addDays_text max_def)
qed

lemma extended_days:
  assumes "date_day base" "date_day today" "date_day (base + n)" "date_day (today + 365)"
  shows "addDaysToDateString (text_of_day base) n = text_of_day (base + n)"
    "addDaysToDateString (text_of_day today) 365 = text_of_day (today + 365)"
    "text_of_day (today + 365) < text_of_day (base + n) \<longleftrightarrow> today + 365 < base + n"
    "daysBetweenDateStrings (text_of_day (today + 365)) (text_of_day (base + n)) = Some (base + n - (today + 365))"
  using assms by (simp_all add: addDays_text text_of_day_order daysBetween_text)

lemma project_charge_days:
  assumes fit: "dates_fit expiry d today" and d: "0 < d" and owing: "0 \<le> owing"
  shows "let p = project_charge (map_option text_of_day expiry) d (text_of_day today) owing in
    case charge_of_days expiry d today owing of
      None \<Rightarrow> vp_burned p \<and> vp_expiry p = None \<and> vp_daysOwed p = owing
    | Some (e', o') \<Rightarrow> \<not> vp_burned p \<and> vp_expiry p = map_option text_of_day e' \<and> vp_daysOwed p = o'"
proof -
  have t: "date_day today" "date_day (today + 365)" "date_day (today + (d - owing))" if "owing < d"
    using dates_fitD(1) [OF fit, of 0] dates_fitD(1) [OF fit, of 365] dates_fitD(1) [OF fit, of "d - owing"] d owing that by simp_all
  show ?thesis
  proof (cases "d \<le> owing")
    case True
    then show ?thesis using d by (simp add: project_charge_def charge_of_days_def unchanged_line_def Let_def)
  next
    case False
    then have less: "owing < d" by simp
    note today = t [OF less] extended_days [OF t(1,1,3,2), OF less less less less]
    show ?thesis
    proof (cases expiry)
      case None
      then show ?thesis using less d owing today
        by (simp add: project_charge_def charge_of_days_def classify_none unchanged_line_def Let_def MAX_LINE_VALIDITY_DAYS_def)
    next
      case (Some e)
      have e: "date_day e" "date_day (e + (d - owing))"
        using dates_fitD(2) [OF fit Some, of 0] dates_fitD(2) [OF fit Some, of "d - owing"] d owing less by simp_all
      show ?thesis using less d owing today e extended_days [OF e(1) today(1) e(2) today(2)]
        by (auto simp: Some project_charge_def charge_of_days_def classify_text unchanged_line_def Let_def MAX_LINE_VALIDITY_DAYS_def)
    qed
  qed
qed

text \<open>On a valid line the days lost to the ceiling are reported.\<close>

lemma valid_movement:
  assumes fit: "dates_fit (Some e) d today" and valid: "today \<le> e" and owing: "0 \<le> owing"
  defines "p \<equiv> projectValidityExpiry (Some (text_of_day e)) d (text_of_day today) owing"
  shows "d \<le> 0 \<Longrightarrow> vp_expiry p = Some (text_of_day (max today (e + d))) \<and> vp_daysLostToCap p = Some 0 \<and> vp_daysOwed p = owing + max 0 (today - e - d)"
    "0 < d \<Longrightarrow> d \<le> owing \<Longrightarrow> vp_expiry p = Some (text_of_day e) \<and> vp_daysLostToCap p = Some 0 \<and> vp_daysOwed p = owing - d"
    "owing < d \<Longrightarrow> vp_expiry p = Some (text_of_day (min (today + 365) (e + (d - owing)))) \<and>
      vp_daysLostToCap p = Some (max 0 (e + (d - owing) - (today + 365))) \<and> vp_daysOwed p = 0"
proof -
  have dates: "date_day today" "date_day e" using dates_fitD(1) [OF fit, of 0] dates_fitD(2) [OF fit refl, of 0] by simp_all
  show "d \<le> 0 \<Longrightarrow> vp_expiry p = Some (text_of_day (max today (e + d))) \<and> vp_daysLostToCap p = Some 0 \<and> vp_daysOwed p = owing + max 0 (today - e - d)"
    using dates valid
    by (auto simp: p_def projectValidityExpiry_def project_sale_def classify_text unchanged_line_def Let_def addDays_text max_def)
  show "0 < d \<Longrightarrow> d \<le> owing \<Longrightarrow> vp_expiry p = Some (text_of_day e) \<and> vp_daysLostToCap p = Some 0 \<and> vp_daysOwed p = owing - d"
    by (simp add: p_def projectValidityExpiry_def project_charge_def unchanged_line_def Let_def)
  assume less: "owing < d"
  have more: "date_day (today + 365)" "date_day (e + (d - owing))"
    using dates_fitD(1) [OF fit, of 365] dates_fitD(2) [OF fit refl, of "d - owing"] owing less by simp_all
  show "vp_expiry p = Some (text_of_day (min (today + 365) (e + (d - owing)))) \<and>
      vp_daysLostToCap p = Some (max 0 (e + (d - owing) - (today + 365))) \<and> vp_daysOwed p = 0"
    using less owing valid dates more extended_days [OF dates(2,1) more(2,1)]
    by (auto simp: p_def projectValidityExpiry_def project_charge_def classify_text unchanged_line_def Let_def MAX_LINE_VALIDITY_DAYS_def)
qed

section \<open>Properties\<close>

text \<open>C18. On dates, the projection follows the rule of the header on day numbers: a sale takes the days from the expiry, pins
  a valid line at today and puts the rest on the days owed; a charge pays the days owed first, adds the remaining days to
  the later of today and the expiry, at most up to 365 days from today, and is refused exactly when the line
  lapsed more than 5 days ago and owes nothing.\<close>

theorem projection_refines_rule:
  assumes "dates_fit expiry d today" "0 \<le> owing"
  shows "let p = projectValidityExpiry (map_option text_of_day expiry) d (text_of_day today) owing;
             rule = (if d = 0 then Some (expiry, owing)
                     else if d < 0 then Some (sale_of_days expiry (- d) today owing)
                     else charge_of_days expiry d today owing)
         in case rule of
              None \<Rightarrow> vp_burned p \<and> vp_expiry p = None \<and> vp_daysOwed p = owing
            | Some (e', o') \<Rightarrow> \<not> vp_burned p \<and> vp_expiry p = map_option text_of_day e' \<and> vp_daysOwed p = o'"
proof (cases d "0 :: int" rule: linorder_cases)
  case less
  then show ?thesis using project_sale_days [OF assms(1) less, of owing]
    by (auto simp: projectValidityExpiry_def Let_def split: prod.splits)
next
  case equal
  then show ?thesis by (simp add: projectValidityExpiry_def unchanged_line_def Let_def)
next
  case greater
  then show ?thesis using project_charge_days [OF assms(1) greater assms(2)] by (simp add: projectValidityExpiry_def Let_def)
qed

text \<open>An expiry on 2026-09-30 seen from 2026-08-29: 32 days are left.\<close>

lemma validity_example:
  "dates_fit (Some 20726) 400 20694" "dates_fit (Some 20726) (- 40) 20694"
  "text_of_day 20694 = ''2026-08-29''" "text_of_day 20726 = ''2026-09-30''" "text_of_day 21059 = ''2027-08-29''"
  by code_simp+

theorem projection_refines_rule_witness:
  "vp_expiry (projectValidityExpiry (Some ''2026-09-30'') 400 ''2026-08-29'' 10) = Some ''2027-08-29'' \<and>
   vp_daysOwed (projectValidityExpiry (Some ''2026-09-30'') 400 ''2026-08-29'' 10) = 0"
  using projection_refines_rule [OF validity_example(1), of 10] by (simp add: validity_example charge_of_days_def Let_def)

text \<open>C19. A movement on a valid line loses no day: the days left minus the days owed change by exactly the days charged or sold,
  less the days the ceiling cut off, which the projection reports; the line stays valid, owes no negative number of
  days, and after a charge that reaches the expiry it holds at most 365 days.\<close>

theorem valid_line_days_conserved:
  assumes "dates_fit (Some e) d today" "today \<le> e" "0 \<le> owing"
  shows "let p = projectValidityExpiry (Some (text_of_day e)) d (text_of_day today) owing
    in \<exists>e' lost. vp_expiry p = Some (text_of_day e') \<and> vp_daysLostToCap p = Some lost \<and>
         (e' - today) - vp_daysOwed p = (e - today) - owing + d - lost \<and>
         today \<le> e' \<and> 0 \<le> lost \<and> 0 \<le> vp_daysOwed p \<and> (owing < d \<longrightarrow> e' - today \<le> 365)"
proof (cases "d \<le> 0" "d \<le> owing" rule: bool.exhaust [case_product bool.exhaust])
  case True_True
  then show ?thesis using valid_movement(1) [OF assms] assms by (auto simp: Let_def)
next
  case True_False
  then show ?thesis using assms(3) by simp
next
  case False_True
  then show ?thesis using valid_movement(2) [OF assms] assms by (auto simp: Let_def)
next
  case False_False
  then have "owing < d" by simp
  then show ?thesis using valid_movement(3) [OF assms] assms unfolding Let_def
    by (intro exI [of _ "min (today + 365) (e + (d - owing))"] exI [of _ "max 0 (e + (d - owing) - (today + 365))"]) auto
qed

theorem valid_line_days_conserved_witness:
  "let p = projectValidityExpiry (Some ''2026-09-30'') (- 40) ''2026-08-29'' 0
   in \<exists>e' lost. vp_expiry p = Some (text_of_day e') \<and> vp_daysLostToCap p = Some lost \<and> (e' - 20694) - vp_daysOwed p = - 8 - lost"
  using valid_line_days_conserved [OF validity_example(2), of 0] by (auto simp: validity_example Let_def)

text \<open>Whatever the texts are, a movement is refused exactly when it charges a burned line that owes no days.\<close>

lemma refused_iff_burned:
  "vp_burned (projectValidityExpiry expiry d today owing) \<longleftrightarrow> 0 < d \<and> lc_state (classifyLineValidity expiry today) = BURNED \<and> owing \<le> 0"
  by (auto simp: projectValidityExpiry_def project_sale_def project_charge_def unchanged_line_def Let_def
      split: LineValidityState.splits)

end
