(* ===== verification/Carrier_Lines.thy ===== *)
theory Carrier_Lines
  imports Line_Validity Telecom_Credit Payment_Methods
begin

text \<open>
  Model of \<open>repositories/CarrierLineRepository.ts\<close> (without \<open>recordUsage\<close>, which books an expense), of
  \<open>CarrierLineMovementRepository.ts\<close> and of \<open>CarrierLineOwedDeliveryRepository.ts\<close>: the SIM lines of one shop, the
  movements of their credits and days, and the days still to send. The tables are lists of records with counters for the row
  ids; the unique index on primary lines and the \<open>NOT NULL\<close> columns of \<open>create_db.sql\<close> are checked where a statement can
  run into them. Row times, and the summary and the metadata of a transaction, are left out.
\<close>

section \<open>Data\<close>

record carrier_line =
  cl_id :: nat
  cl_carrier :: TelecomCarrierKey
  cl_phone_number :: string
  cl_label :: "string option"
  cl_credits :: amount
  cl_validity_expires_at :: "string option"
  cl_days_owed :: int
  cl_notes :: "string option"
  cl_is_active :: bool
  cl_is_primary :: bool

record line_movement =
  mv_id :: nat
  mv_carrier_line_id :: nat
  mv_transaction_id :: "nat option"
  mv_credits_delta :: amount
  mv_validity_days_delta :: int
  mv_previous_validity_expires_at :: "string option"
  mv_days_owed_delta :: int
  mv_previous_days_owed :: int
  mv_reason :: string
  mv_is_reversed :: bool

record line_txn =
  lt_id :: nat
  lt_source_id :: nat
  lt_user_id :: nat
  lt_amount_usd :: amount
  lt_reason :: string

record line_payment =
  lp_transaction_id :: nat
  lp_method :: string
  lp_drawer_name :: string
  lp_currency_code :: string
  lp_amount :: amount
  lp_note :: string
  lp_created_by :: nat

datatype delivery_status = PENDING_DELIVERY | SENT_DELIVERY

record owed_delivery =
  od_id :: nat
  od_carrier_line_id :: nat
  od_transaction_id :: "nat option"
  od_client_id :: "nat option"
  od_client_name :: "string option"
  od_days_owed :: int
  od_status :: delivery_status
  od_sent_at :: "string option"
  od_sent_by :: "nat option"

record line_db =
  ld_lines :: "carrier_line list"
  line_counter :: nat
  ld_movements :: "line_movement list"
  movement_counter :: nat
  ld_txns :: "line_txn list"
  line_txn_counter :: nat
  ld_payments :: "line_payment list"
  ld_drawers :: "string \<times> string \<Rightarrow> amount"
  ld_deliveries :: "owed_delivery list"
  delivery_counter :: nat

text \<open>What a call can throw.\<close>

datatype line_error = NO_ACTOR | PRIMARY_TAKEN | LINE_POSTING_REFUSED | NULL_DAYS | EXCLUSIVE_INPUT | LINE_NOT_FOUND nat
  | LINE_BURNED "int option" | LATER_RECHARGE_FIRST string | OLDER_SALE_REVERSED string

definition CARRIER_DRAWER_NAMES :: "TelecomCarrierKey \<Rightarrow> string" where
  "CARRIER_DRAWER_NAMES c = (case c of alfa \<Rightarrow> ''Alfa'' | mtc \<Rightarrow> ''MTC'')"

definition LINE_USAGE_MIN_DELTA_USD :: amount where
  "LINE_USAGE_MIN_DELTA_USD = 1 / 100"

record CreateCarrierLineData =
  ccl_carrier :: TelecomCarrierKey
  ccl_phone_number :: string
  ccl_label :: "string option"
  ccl_credits :: "amount option"
  ccl_validity_expires_at :: "string option"
  ccl_notes :: "string option"

text \<open>The outer \<open>None\<close> is \<open>undefined\<close>, the inner one \<open>null\<close>.\<close>

record UpdateCarrierLineData =
  ucl_carrier :: "TelecomCarrierKey option"
  ucl_phone_number :: "string option"
  ucl_label :: "string option option"
  ucl_credits :: "amount option"
  ucl_validity_expires_at :: "string option option"
  ucl_days_owed :: "int option"
  ucl_notes :: "string option option"
  ucl_is_active :: "bool option"

definition no_update :: UpdateCarrierLineData where
  "no_update = \<lparr>ucl_carrier = None, ucl_phone_number = None, ucl_label = None, ucl_credits = None, ucl_validity_expires_at = None,
     ucl_days_owed = None, ucl_notes = None, ucl_is_active = None\<rparr>"

section \<open>Reads\<close>

definition line_by_id :: "nat \<Rightarrow> line_db \<Rightarrow> carrier_line option" where
  "line_by_id i db = find (\<lambda>l. cl_id l = i) (ld_lines db)"

definition getCarrierCreditsSum :: "TelecomCarrierKey \<Rightarrow> line_db \<Rightarrow> amount" where
  "getCarrierCreditsSum c db = sum_of cl_credits (filter (\<lambda>l. cl_carrier l = c \<and> cl_is_active l) (ld_lines db))"

definition getPrimary :: "TelecomCarrierKey \<Rightarrow> line_db \<Rightarrow> carrier_line option" where
  "getPrimary c db = find (\<lambda>l. cl_carrier l = c \<and> cl_is_primary l \<and> cl_is_active l) (ld_lines db)"

definition movement_by_id :: "nat \<Rightarrow> line_db \<Rightarrow> line_movement option" where
  "movement_by_id i db = find (\<lambda>m. mv_id m = i) (ld_movements db)"

text \<open>The index \<open>idx_carrier_lines_one_primary_per_carrier\<close>.\<close>

definition primary_index_ok :: "carrier_line list \<Rightarrow> bool" where
  "primary_index_ok ls = distinct (map cl_carrier (filter cl_is_primary ls))"

section \<open>The drawer of a carrier\<close>

definition line_payment_insert :: "line_payment \<Rightarrow> line_db \<Rightarrow> line_error + line_db" where
  "line_payment_insert p db =
     (case postingCurrency (lp_drawer_name p) (lp_currency_code p) of
        Inl _ \<Rightarrow> Inl LINE_POSTING_REFUSED
      | Inr cur \<Rightarrow> Inr (db\<lparr>ld_payments := ld_payments db @ [p\<lparr>lp_currency_code := cur\<rparr>]\<rparr>))"

definition line_drawer_delta :: "string \<Rightarrow> string \<Rightarrow> amount \<Rightarrow> line_db \<Rightarrow> line_error + line_db" where
  "line_drawer_delta drawer currencyCode delta db =
     (case postingCurrency drawer currencyCode of
        Inl _ \<Rightarrow> Inl LINE_POSTING_REFUSED
      | Inr cur \<Rightarrow> Inr (db\<lparr>ld_drawers := (ld_drawers db)((drawer, cur) := ld_drawers db (drawer, cur) + delta)\<rparr>))"

definition line_transaction :: "nat \<Rightarrow> nat \<Rightarrow> amount \<Rightarrow> string \<Rightarrow> line_db \<Rightarrow> nat \<times> line_db" where
  "line_transaction lineId user deltaUsd reasonTag db =
     (let i = line_txn_counter db + 1
      in (i, db\<lparr>ld_txns := ld_txns db @ [\<lparr>lt_id = i, lt_source_id = lineId, lt_user_id = user, lt_amount_usd = deltaUsd, lt_reason = reasonTag\<rparr>],
                line_txn_counter := i\<rparr>))"

definition postCarrierDrawerAdjustment ::
  "TelecomCarrierKey \<Rightarrow> amount \<Rightarrow> nat option \<Rightarrow> string \<Rightarrow> nat \<Rightarrow> string \<Rightarrow> line_db \<Rightarrow> line_error + line_db" where
  "postCarrierDrawerAdjustment carrier deltaUsd userId noteText lineId reasonTag db =
     (if \<bar>deltaUsd\<bar> \<le> LINE_USAGE_MIN_DELTA_USD / 2 then Inr db
      else case userId of
        None \<Rightarrow> Inl NO_ACTOR
      | Some user \<Rightarrow>
          (let drawerName = CARRIER_DRAWER_NAMES carrier;
               (txn, db1) = line_transaction lineId user deltaUsd reasonTag db
           in case line_payment_insert
                     \<lparr>lp_transaction_id = txn, lp_method = ''CHECKPOINT_ADJUSTMENT'', lp_drawer_name = drawerName,
                      lp_currency_code = ''USD'', lp_amount = deltaUsd, lp_note = noteText, lp_created_by = user\<rparr> db1 of
                Inl err \<Rightarrow> Inl err
              | Inr db2 \<Rightarrow> line_drawer_delta drawerName ''USD'' deltaUsd db2))"

section \<open>Changing lines by hand\<close>

text \<open>Every method returns the new state; the line it hands back is \<open>line_by_id\<close> on that state.\<close>

definition createLine :: "CreateCarrierLineData \<Rightarrow> nat option \<Rightarrow> line_db \<Rightarrow> line_error + line_db" where
  "createLine d userId db =
     (let existingActive = list_ex (\<lambda>l. cl_carrier l = ccl_carrier d \<and> cl_is_active l) (ld_lines db);
          credits = (case ccl_credits d of None \<Rightarrow> 0 | Some c \<Rightarrow> c);
          i = line_counter db + 1;
          row = \<lparr>cl_id = i, cl_carrier = ccl_carrier d, cl_phone_number = ccl_phone_number d, cl_label = ccl_label d,
                 cl_credits = credits, cl_validity_expires_at = ccl_validity_expires_at d, cl_days_owed = 0, cl_notes = ccl_notes d,
                 cl_is_active = True, cl_is_primary = (\<not> existingActive)\<rparr>;
          rows = ld_lines db @ [row]
      in if \<not> primary_index_ok rows then Inl PRIMARY_TAKEN
         else (let db1 = db\<lparr>ld_lines := rows, line_counter := i\<rparr>
               in if credits \<noteq> 0
                  then postCarrierDrawerAdjustment (ccl_carrier d) credits userId
                         (''Carrier line '' @ ccl_phone_number d @ '' created'') i ''created'' db1
                  else Inr db1))"

definition the_new :: "'a option \<Rightarrow> 'a \<Rightarrow> 'a" where
  "the_new v old = (case v of None \<Rightarrow> old | Some x \<Rightarrow> x)"

definition set_columns :: "UpdateCarrierLineData \<Rightarrow> carrier_line \<Rightarrow> carrier_line" where
  "set_columns d l = l\<lparr>cl_carrier := the_new (ucl_carrier d) (cl_carrier l), cl_phone_number := the_new (ucl_phone_number d) (cl_phone_number l),
     cl_label := the_new (ucl_label d) (cl_label l), cl_credits := the_new (ucl_credits d) (cl_credits l),
     cl_validity_expires_at := the_new (ucl_validity_expires_at d) (cl_validity_expires_at l),
     cl_days_owed := the_new (ucl_days_owed d) (cl_days_owed l), cl_notes := the_new (ucl_notes d) (cl_notes l),
     cl_is_active := the_new (ucl_is_active d) (cl_is_active l)\<rparr>"

definition write_line :: "nat \<Rightarrow> (carrier_line \<Rightarrow> carrier_line) \<Rightarrow> line_db \<Rightarrow> line_db" where
  "write_line i f db = db\<lparr>ld_lines := map (\<lambda>l. if cl_id l = i then f l else l) (ld_lines db)\<rparr>"

definition updateLine :: "nat \<Rightarrow> UpdateCarrierLineData \<Rightarrow> line_db \<Rightarrow> line_error + line_db" where
  "updateLine i d db =
     (if d = no_update then Inr db
      else (let db1 = write_line i (set_columns d) db
            in if primary_index_ok (ld_lines db1) then Inr db1 else Inl PRIMARY_TAKEN))"

definition updateLineAndSyncDrawer :: "nat \<Rightarrow> UpdateCarrierLineData \<Rightarrow> nat option \<Rightarrow> line_db \<Rightarrow> line_error + line_db" where
  "updateLineAndSyncDrawer i d userId db =
     (case line_by_id i db of
        None \<Rightarrow> Inr db
      | Some before \<Rightarrow>
          (case updateLine i d db of
             Inl err \<Rightarrow> Inl err
           | Inr db1 \<Rightarrow>
               (let creditsDelta = cl_credits (the (line_by_id i db1)) - cl_credits before
                in if \<bar>creditsDelta\<bar> > LINE_USAGE_MIN_DELTA_USD / 2
                   then postCarrierDrawerAdjustment (cl_carrier before) creditsDelta userId
                          (''Carrier line '' @ cl_phone_number before @ '' credits edited'') i ''edited'' db1
                   else Inr db1)))"

record NewMovement =
  nm_carrier_line_id :: nat
  nm_transaction_id :: "nat option"
  nm_credits_delta :: amount
  nm_validity_days_delta :: "int option"
  nm_previous_validity_expires_at :: "string option"
  nm_days_owed_delta :: int
  nm_previous_days_owed :: int
  nm_reason :: string

text \<open>A number of days that is \<open>NaN\<close> is stored as \<open>NULL\<close>, which the column refuses.\<close>

definition createMovement :: "NewMovement \<Rightarrow> line_db \<Rightarrow> line_error + line_movement \<times> line_db" where
  "createMovement d db =
     (case nm_validity_days_delta d of
        None \<Rightarrow> Inl NULL_DAYS
      | Some days \<Rightarrow>
          (let i = movement_counter db + 1;
               row = \<lparr>mv_id = i, mv_carrier_line_id = nm_carrier_line_id d, mv_transaction_id = nm_transaction_id d,
                      mv_credits_delta = nm_credits_delta d, mv_validity_days_delta = days,
                      mv_previous_validity_expires_at = nm_previous_validity_expires_at d, mv_days_owed_delta = nm_days_owed_delta d,
                      mv_previous_days_owed = nm_previous_days_owed d, mv_reason = nm_reason d, mv_is_reversed = False\<rparr>
           in Inr (row, db\<lparr>ld_movements := ld_movements db @ [row], movement_counter := i\<rparr>)))"

text \<open>The days between an expiry and the one typed in, when both are dates.\<close>

definition typed_days :: "string option \<Rightarrow> string option option \<Rightarrow> int option" where
  "typed_days stored typed =
     (case (stored, typed) of
        (Some old, Some (Some new)) \<Rightarrow> if old \<noteq> '''' \<and> new \<noteq> '''' then daysBetweenDateStrings old new else Some 0
      | _ \<Rightarrow> Some 0)"

definition updateBalance :: "nat \<Rightarrow> amount option \<Rightarrow> string option option \<Rightarrow> nat option \<Rightarrow> line_db \<Rightarrow> line_error + line_db" where
  "updateBalance i newCredits newExpiry userId db =
     (case line_by_id i db of
        None \<Rightarrow> Inr db
      | Some line \<Rightarrow>
          (let patch = no_update\<lparr>ucl_credits := newCredits, ucl_validity_expires_at := newExpiry\<rparr>;
               creditsChanged = (newCredits \<noteq> None \<and> newCredits \<noteq> Some (cl_credits line));
               validityChanged = (newExpiry \<noteq> None \<and> newExpiry \<noteq> Some (cl_validity_expires_at line))
           in if \<not> creditsChanged \<and> \<not> validityChanged then updateLine i patch db
              else (let creditsDelta = (if creditsChanged then the newCredits - cl_credits line else 0);
                        validityDaysDelta = (if validityChanged then typed_days (cl_validity_expires_at line) newExpiry else Some 0)
                    in case updateLine i patch db of
                         Inl err \<Rightarrow> Inl err
                       | Inr db1 \<Rightarrow>
                           (case createMovement
                                   \<lparr>nm_carrier_line_id = i, nm_transaction_id = None, nm_credits_delta = creditsDelta,
                                    nm_validity_days_delta = validityDaysDelta,
                                    nm_previous_validity_expires_at = cl_validity_expires_at line, nm_days_owed_delta = 0,
                                    nm_previous_days_owed = 0, nm_reason = ''manual''\<rparr> db1 of
                              Inl err \<Rightarrow> Inl err
                            | Inr (_, db2) \<Rightarrow>
                                if creditsDelta \<noteq> 0
                                then postCarrierDrawerAdjustment (cl_carrier line) creditsDelta userId
                                       (''Carrier line '' @ cl_phone_number line @ '' balance updated'') i ''quick-update'' db2
                                else Inr db2))))"

definition toggleActive :: "nat \<Rightarrow> nat option \<Rightarrow> line_db \<Rightarrow> line_error + line_db" where
  "toggleActive i userId db =
     (case line_by_id i db of
        None \<Rightarrow> Inr db
      | Some before \<Rightarrow>
          (let db1 = write_line i (\<lambda>l. l\<lparr>cl_is_active := \<not> cl_is_active l,
                                         cl_is_primary := (if cl_is_active l then False else cl_is_primary l)\<rparr>) db;
               now_active = cl_is_active (the (line_by_id i db1))
           in if cl_is_active before \<noteq> now_active
              then (let delta = (if now_active then cl_credits before else - cl_credits before);
                        tag = (if now_active then ''reactivated'' else ''deactivated'')
                    in postCarrierDrawerAdjustment (cl_carrier before) delta userId
                         (''Carrier line '' @ cl_phone_number before @ '' '' @ tag) i tag db1)
              else Inr db1))"

definition archive :: "nat \<Rightarrow> nat option \<Rightarrow> line_db \<Rightarrow> line_error + line_db" where
  "archive i userId db =
     (case line_by_id i db of
        None \<Rightarrow> Inr db
      | Some before \<Rightarrow>
          (let db1 = write_line i (\<lambda>l. l\<lparr>cl_is_active := False, cl_is_primary := False\<rparr>) db
           in if cl_is_active before
              then postCarrierDrawerAdjustment (cl_carrier before) (- cl_credits before) userId
                     (''Carrier line '' @ cl_phone_number before @ '' archived'') i ''archived'' db1
              else Inr db1))"

text \<open>Two statements: the first takes the flag from the carrier's primary line, the second gives it to this one.\<close>

definition setPrimary :: "nat \<Rightarrow> line_db \<Rightarrow> line_error + line_db" where
  "setPrimary i db =
     (case line_by_id i db of
        None \<Rightarrow> Inr db
      | Some line \<Rightarrow>
          (let db1 = db\<lparr>ld_lines := map (\<lambda>l. if cl_carrier l = cl_carrier line \<and> cl_is_primary l then l\<lparr>cl_is_primary := False\<rparr> else l) (ld_lines db)\<rparr>;
               db2 = write_line i (\<lambda>l. l\<lparr>cl_is_primary := True\<rparr>) db1
           in if primary_index_ok (ld_lines db2) then Inr db2 else Inl PRIMARY_TAKEN))"

section \<open>Movements\<close>

record ApplyCarrierLineMovementInput =
  am_carrierLineId :: nat
  am_creditsDelta :: amount
  am_validityDaysDelta :: int
  am_validityExpiresAt :: "string option"
  am_reason :: string
  am_transactionId :: "nat option"
  am_today :: "string option"

definition line_state :: "amount \<Rightarrow> string option \<Rightarrow> int \<Rightarrow> UpdateCarrierLineData" where
  "line_state balance expiry daysOwed =
     no_update\<lparr>ucl_credits := Some balance, ucl_validity_expires_at := Some expiry, ucl_days_owed := Some daysOwed\<rparr>"

definition computeAppliedState ::
  "carrier_line \<Rightarrow> amount \<Rightarrow> int \<Rightarrow> string option \<Rightarrow> string \<Rightarrow> line_error + UpdateCarrierLineData \<times> ValidityProjection option" where
  "computeAppliedState line creditsDelta validityDaysDelta validityExpiresAt today =
     (let newCredits = cl_credits line + creditsDelta
      in case validityExpiresAt of
           Some e \<Rightarrow> Inr (line_state newCredits (Some e) (cl_days_owed line), None)
         | None \<Rightarrow>
             if validityDaysDelta = 0 then Inr (line_state newCredits (cl_validity_expires_at line) (cl_days_owed line), None)
             else (let projection = projectValidityExpiry (cl_validity_expires_at line) validityDaysDelta today (cl_days_owed line)
                   in if vp_burned projection then Inl (LINE_BURNED (vp_lapseDays projection))
                      else Inr (line_state newCredits (vp_expiry projection) (vp_daysOwed projection), Some projection)))"

text \<open>The days and the days owed that the movement row records.\<close>

definition recorded_deltas :: "string option \<Rightarrow> string option \<Rightarrow> int \<Rightarrow> ValidityProjection option \<Rightarrow> int option \<times> int" where
  "recorded_deltas previous validityExpiresAt validityDaysDelta projection =
     (case validityExpiresAt of
        Some e \<Rightarrow>
          (case previous of
             None \<Rightarrow> (Some 0, 0)
           | Some old \<Rightarrow> (if old = '''' then Some 0 else daysBetweenDateStrings old e, 0))
      | None \<Rightarrow>
          (case projection of
             None \<Rightarrow> (Some 0, 0)
           | Some p \<Rightarrow>
               if validityDaysDelta < 0 then (Some (- (- validityDaysDelta - vp_soldAhead p)), vp_soldAhead p)
               else (Some validityDaysDelta, - vp_owedApplied p)))"

definition applyMovement :: "string \<Rightarrow> ApplyCarrierLineMovementInput \<Rightarrow> line_db \<Rightarrow> line_error + line_movement \<times> line_db" where
  "applyMovement clientDay d db =
     (if am_validityExpiresAt d \<noteq> None \<and> am_validityDaysDelta d \<noteq> 0 then Inl EXCLUSIVE_INPUT
      else case line_by_id (am_carrierLineId d) db of
        None \<Rightarrow> Inl (LINE_NOT_FOUND (am_carrierLineId d))
      | Some line \<Rightarrow>
          (let today = (case am_today d of None \<Rightarrow> clientDay | Some t \<Rightarrow> t);
               previous = cl_validity_expires_at line
           in case computeAppliedState line (am_creditsDelta d) (am_validityDaysDelta d) (am_validityExpiresAt d) today of
                Inl err \<Rightarrow> Inl err
              | Inr (nextState, projection) \<Rightarrow>
                  (case updateLine (am_carrierLineId d) nextState db of
                     Inl err \<Rightarrow> Inl err
                   | Inr db1 \<Rightarrow>
                       (let (daysDelta, owedDelta) = recorded_deltas previous (am_validityExpiresAt d) (am_validityDaysDelta d) projection
                        in createMovement
                             \<lparr>nm_carrier_line_id = am_carrierLineId d, nm_transaction_id = am_transactionId d,
                              nm_credits_delta = am_creditsDelta d, nm_validity_days_delta = daysDelta,
                              nm_previous_validity_expires_at = previous, nm_days_owed_delta = owedDelta,
                              nm_previous_days_owed = cl_days_owed line, nm_reason = am_reason d\<rparr> db1))))"

definition getLaterUnreversedValidityMovement :: "nat \<Rightarrow> nat \<Rightarrow> line_db \<Rightarrow> line_movement option" where
  "getLaterUnreversedValidityMovement lineId after db =
     find (\<lambda>m. mv_carrier_line_id m = lineId \<and> after < mv_id m \<and> \<not> mv_is_reversed m \<and> mv_validity_days_delta m \<noteq> 0)
       (sort_key mv_id (ld_movements db))"

definition getOlderReversedValidityMovement :: "nat \<Rightarrow> nat \<Rightarrow> line_db \<Rightarrow> line_movement option" where
  "getOlderReversedValidityMovement lineId older db =
     find (\<lambda>m. mv_carrier_line_id m = lineId \<and> mv_id m < older \<and> mv_is_reversed m \<and> mv_validity_days_delta m \<noteq> 0)
       (rev (sort_key mv_id (ld_movements db)))"

definition markReversed :: "nat \<Rightarrow> line_db \<Rightarrow> line_db" where
  "markReversed i db =
     db\<lparr>ld_movements := map (\<lambda>m. if mv_id m = i \<and> \<not> mv_is_reversed m then m\<lparr>mv_is_reversed := True\<rparr> else m) (ld_movements db)\<rparr>"

text \<open>The expiry that a reversal writes.\<close>

definition reversed_expiry :: "line_movement \<Rightarrow> carrier_line \<Rightarrow> string \<Rightarrow> string option" where
  "reversed_expiry m line today =
     (if mv_validity_days_delta m < 0 then
        (case mv_previous_validity_expires_at m of
           None \<Rightarrow> None
         | Some previous \<Rightarrow>
             (let alreadyPaidOff = (if mv_days_owed_delta m > 0 then max 0 (mv_days_owed_delta m - cl_days_owed line) else 0);
                  base = (case cl_validity_expires_at line of None \<Rightarrow> previous | Some e \<Rightarrow> e);
                  restored = addDaysToDateString base (- mv_validity_days_delta m + alreadyPaidOff);
                  ceiling = addDaysToDateString today MAX_LINE_VALIDITY_DAYS;
                  effectiveCeiling = (if previous > ceiling then previous else ceiling)
              in Some (if restored > effectiveCeiling then effectiveCeiling else restored)))
      else if mv_validity_days_delta m > 0 then mv_previous_validity_expires_at m
      else cl_validity_expires_at line)"

definition line_label :: "carrier_line \<Rightarrow> string" where
  "line_label l = (if cl_phone_number l = '''' then ''this line'' else cl_phone_number l)"

definition reversal_blocked :: "line_movement \<Rightarrow> carrier_line \<Rightarrow> line_db \<Rightarrow> line_error option" where
  "reversal_blocked m line db =
     (if mv_validity_days_delta m > 0 then
        (if getLaterUnreversedValidityMovement (mv_carrier_line_id m) (mv_id m) db \<noteq> None then Some (LATER_RECHARGE_FIRST (line_label line))
         else if getOlderReversedValidityMovement (mv_carrier_line_id m) (mv_id m) db \<noteq> None then Some (OLDER_SALE_REVERSED (line_label line))
         else None)
      else None)"

text \<open>The result is \<open>None\<close> when there is no such movement, and the movement as it is then otherwise.\<close>

definition reverseMovement :: "nat \<Rightarrow> string \<Rightarrow> line_db \<Rightarrow> line_error + line_movement option \<times> line_db" where
  "reverseMovement movementId today db =
     (case movement_by_id movementId db of
        None \<Rightarrow> Inr (None, db)
      | Some m \<Rightarrow>
          (case line_by_id (mv_carrier_line_id m) db of
             None \<Rightarrow> Inl (LINE_NOT_FOUND (mv_carrier_line_id m))
           | Some line \<Rightarrow>
               if mv_is_reversed m then Inr (Some m, db)
               else (case reversal_blocked m line db of
                       Some err \<Rightarrow> Inl err
                     | None \<Rightarrow>
                         (case updateLine (mv_carrier_line_id m)
                                 (line_state (cl_credits line - mv_credits_delta m) (reversed_expiry m line today)
                                   (max 0 (cl_days_owed line - mv_days_owed_delta m))) db of
                            Inl err \<Rightarrow> Inl err
                          | Inr db1 \<Rightarrow> Inr (Some (m\<lparr>mv_is_reversed := True\<rparr>), markReversed movementId db1)))))"

section \<open>Days still to send\<close>

definition delivery_by_id :: "nat \<Rightarrow> line_db \<Rightarrow> owed_delivery option" where
  "delivery_by_id i db = find (\<lambda>d. od_id d = i) (ld_deliveries db)"

text \<open>\<open>reversed_source t\<close>: the transaction \<open>t\<close> was voided or refunded, a read of the transactions table.\<close>

definition getAllPending :: "(nat \<Rightarrow> bool) \<Rightarrow> line_db \<Rightarrow> owed_delivery list" where
  "getAllPending reversed_source db =
     sort_key od_id (filter (\<lambda>d. od_status d = PENDING_DELIVERY \<and>
       (case od_transaction_id d of None \<Rightarrow> True | Some t \<Rightarrow> \<not> reversed_source t)) (ld_deliveries db))"

definition createDelivery :: "nat \<Rightarrow> nat option \<Rightarrow> nat option \<Rightarrow> string option \<Rightarrow> int \<Rightarrow> line_db \<Rightarrow> line_db" where
  "createDelivery lineId txn clientId clientName daysOwed db =
     (let i = delivery_counter db + 1
      in db\<lparr>ld_deliveries := ld_deliveries db @
             [\<lparr>od_id = i, od_carrier_line_id = lineId, od_transaction_id = txn, od_client_id = clientId, od_client_name = clientName,
               od_days_owed = daysOwed, od_status = PENDING_DELIVERY, od_sent_at = None, od_sent_by = None\<rparr>],
            delivery_counter := i\<rparr>)"

definition markSent :: "nat \<Rightarrow> nat \<Rightarrow> string \<Rightarrow> line_db \<Rightarrow> line_db" where
  "markSent i userId requestNow db =
     (case delivery_by_id i db of
        None \<Rightarrow> db
      | Some d \<Rightarrow>
          if od_status d = SENT_DELIVERY then db
          else db\<lparr>ld_deliveries := map (\<lambda>r. if od_id r = i
                   then r\<lparr>od_status := SENT_DELIVERY, od_sent_at := Some requestNow, od_sent_by := Some userId\<rparr> else r) (ld_deliveries db)\<rparr>)"

end
