(* ===== verification/Carrier_Lines_Safety.thy ===== *)
theory Carrier_Lines_Safety
  imports Carrier_Lines
begin

text \<open>
  The drawer of a carrier and the credits of its active lines. Every change of the state is labelled with the drift it leaves
  between the two: none for the changes by hand of whole cents that the source has in mind, the credits of a movement until its
  caller has posted them, and what an edit of an archived line or of a line's carrier posts to the wrong drawer.
\<close>

section \<open>The invariant\<close>

definition active_credit :: "TelecomCarrierKey \<Rightarrow> carrier_line \<Rightarrow> amount" where
  "active_credit c l = (if cl_carrier l = c \<and> cl_is_active l then cl_credits l else 0)"

definition line_keys :: "line_db \<Rightarrow> bool" where
  "line_keys db \<longleftrightarrow> distinct (map cl_id (ld_lines db)) \<and> (\<forall>l \<in> set (ld_lines db). cl_id l \<le> line_counter db)"

text \<open>The drift of each carrier: its drawer less the credits of its active lines.\<close>

type_synonym drift = "TelecomCarrierKey \<Rightarrow> amount"

definition lines_booked :: "drift \<Rightarrow> line_db \<Rightarrow> bool" where
  "lines_booked f db \<longleftrightarrow> line_keys db \<and> primary_index_ok (ld_lines db) \<and>
     (\<forall>c. ld_drawers db (CARRIER_DRAWER_NAMES c, ''USD'') = getCarrierCreditsSum c db + f c)"

section \<open>Amounts in cents\<close>

text \<open>What the adjustment of a drawer by an amount posts, and what it falls short of: nothing on whole cents.\<close>

definition posted :: "amount \<Rightarrow> amount" where
  "posted x = (if \<bar>x\<bar> \<le> LINE_USAGE_MIN_DELTA_USD / 2 then 0 else x)"

definition short :: "amount \<Rightarrow> amount" where
  "short x = posted x - x"

definition in_cents :: "amount \<Rightarrow> bool" where
  "in_cents x \<longleftrightarrow> (\<exists>n :: int. x = of_int n / 100)"

lemma posted_zero [simp]: "posted 0 = 0" "short 0 = 0"
  by (simp_all add: posted_def short_def)

lemma in_cents_uminus [simp]: "in_cents (- x) \<longleftrightarrow> in_cents x"
  unfolding in_cents_def by (metis minus_divide_left of_int_minus minus_minus)

lemma in_cents_small: "in_cents x \<Longrightarrow> \<bar>x\<bar> \<le> LINE_USAGE_MIN_DELTA_USD / 2 \<longleftrightarrow> x = 0"
proof -
  assume "in_cents x"
  then obtain n :: int where n: "x = of_int n / 100" by (auto simp: in_cents_def)
  show ?thesis
  proof (cases "n = 0")
    case False
    then have "1 \<le> \<bar>n\<bar>" by simp
    then have "(1 :: rat) \<le> \<bar>of_int n\<bar>" by (simp flip: of_int_abs)
    then show ?thesis using n False by (simp add: LINE_USAGE_MIN_DELTA_USD_def)
  qed (simp add: n LINE_USAGE_MIN_DELTA_USD_def)
qed

lemma short_cents: "in_cents x \<Longrightarrow> short x = 0"
  using in_cents_small [of x] by (auto simp: short_def posted_def)

section \<open>The drawer\<close>

lemma carrier_drawer_inject [simp]: "CARRIER_DRAWER_NAMES c = CARRIER_DRAWER_NAMES d \<longleftrightarrow> c = d"
  by (simp add: CARRIER_DRAWER_NAMES_def split: TelecomCarrierKey.splits)

lemma carrier_posting [simp]: "postingCurrency (CARRIER_DRAWER_NAMES c) ''USD'' = Inr ''USD''"
  by (simp add: postingCurrency_def BINANCE_DRAWER_NAME_def CARRIER_DRAWER_NAMES_def split: TelecomCarrierKey.splits)

definition same_lines :: "line_db \<Rightarrow> line_db \<Rightarrow> bool" where
  "same_lines db db' \<longleftrightarrow> ld_lines db' = ld_lines db \<and> line_counter db' = line_counter db \<and>
     ld_movements db' = ld_movements db \<and> movement_counter db' = movement_counter db"

lemma same_lines_reads: "same_lines db db' \<Longrightarrow> line_by_id i db' = line_by_id i db" "same_lines db db' \<Longrightarrow> getCarrierCreditsSum c db' = getCarrierCreditsSum c db"
  by (simp_all add: same_lines_def line_by_id_def getCarrierCreditsSum_def)

lemma carrier_drawer_delta:
  "line_drawer_delta (CARRIER_DRAWER_NAMES c) ''USD'' x db =
     Inr (db\<lparr>ld_drawers := (ld_drawers db)((CARRIER_DRAWER_NAMES c, ''USD'') := ld_drawers db (CARRIER_DRAWER_NAMES c, ''USD'') + x)\<rparr>)"
  by (simp add: line_drawer_delta_def)

lemma post_adjustment:
  assumes "postCarrierDrawerAdjustment c x u t i tag db = Inr db'"
  shows "same_lines db db'"
    "ld_drawers db' (CARRIER_DRAWER_NAMES d, ''USD'') =
       ld_drawers db (CARRIER_DRAWER_NAMES d, ''USD'') + (if d = c \<and> \<not> \<bar>x\<bar> \<le> LINE_USAGE_MIN_DELTA_USD / 2 then x else 0)"
  using assms
  by (auto simp: postCarrierDrawerAdjustment_def line_transaction_def line_payment_insert_def carrier_drawer_delta same_lines_def Let_def
      split: if_splits option.splits)

lemma post_drawer:
  "postCarrierDrawerAdjustment c x u t i tag db = Inr db' \<Longrightarrow>
     ld_drawers db' (CARRIER_DRAWER_NAMES d, ''USD'') = ld_drawers db (CARRIER_DRAWER_NAMES d, ''USD'') + (if d = c then posted x else 0)"
  using post_adjustment(2) [of c x u t i tag db db' d] by (simp add: posted_def)

lemma post_succeeds: "\<exists>db'. postCarrierDrawerAdjustment c x (Some u) t i tag db = Inr db'"
  by (simp add: postCarrierDrawerAdjustment_def line_transaction_def line_payment_insert_def carrier_drawer_delta Let_def)

section \<open>One line changes\<close>

lemma credits_sum: "getCarrierCreditsSum c db = sum_of (active_credit c) (ld_lines db)"
  by (simp add: getCarrierCreditsSum_def active_credit_def [abs_def] sum_list_map_filter')

lemma line_by_idD: "line_by_id i db = Some l \<Longrightarrow> l \<in> set (ld_lines db) \<and> cl_id l = i"
  by (auto simp: line_by_id_def find_Some_iff)

lemma find_by_key: "distinct (map k xs) \<Longrightarrow> x \<in> set xs \<Longrightarrow> find (\<lambda>y. k y = k x) xs = Some x"
  by (induction xs) (auto simp: image_iff)

lemma line_by_id_in: "line_keys db \<Longrightarrow> l \<in> set (ld_lines db) \<Longrightarrow> line_by_id (cl_id l) db = Some l"
  by (simp add: line_keys_def line_by_id_def find_by_key)

text \<open>A change that keeps the id of a line, and one that keeps its carrier too and gives no line the primary flag.\<close>

definition keeps_id :: "(carrier_line \<Rightarrow> carrier_line) \<Rightarrow> bool" where
  "keeps_id f \<longleftrightarrow> (\<forall>l. cl_id (f l) = cl_id l)"

definition keeps_line :: "(carrier_line \<Rightarrow> carrier_line) \<Rightarrow> bool" where
  "keeps_line f \<longleftrightarrow> (\<forall>l. cl_id (f l) = cl_id l \<and> cl_carrier (f l) = cl_carrier l \<and> (cl_is_primary (f l) \<longrightarrow> cl_is_primary l))"

lemma keeps_line_id: "keeps_line f \<Longrightarrow> keeps_id f"
  by (simp add: keeps_line_def keeps_id_def)

lemma write_line_simps [simp]:
  "ld_lines (write_line i f db) = map (\<lambda>l. if cl_id l = i then f l else l) (ld_lines db)"
  "line_counter (write_line i f db) = line_counter db" "ld_movements (write_line i f db) = ld_movements db"
  "movement_counter (write_line i f db) = movement_counter db" "ld_drawers (write_line i f db) = ld_drawers db"
  by (simp_all add: write_line_def)

lemma write_line_ids: "keeps_id f \<Longrightarrow> map cl_id (ld_lines (write_line i f db)) = map cl_id (ld_lines db)"
  by (auto simp: keeps_id_def)

lemma line_keys_ids: "line_keys db \<longleftrightarrow> distinct (map cl_id (ld_lines db)) \<and> (\<forall>i \<in> set (map cl_id (ld_lines db)). i \<le> line_counter db)"
  by (simp add: line_keys_def)

lemma write_line_keys: "keeps_id f \<Longrightarrow> line_keys db \<Longrightarrow> line_keys (write_line i f db)"
  unfolding line_keys_ids write_line_simps(2) by (simp only: write_line_ids) blast

lemma write_line_read:
  assumes "keeps_id f" "line_keys db" "line_by_id i db = Some l"
  shows "line_by_id i (write_line i f db) = Some (f l)"
proof -
  have l: "l \<in> set (ld_lines db)" "cl_id l = i" using line_by_idD [OF assms(3)] by auto
  then have "f l \<in> set (ld_lines (write_line i f db))" "cl_id (f l) = i" using assms(1) by (auto simp: keeps_id_def)
  then show ?thesis using line_by_id_in [OF write_line_keys [OF assms(1,2)]] by blast
qed

lemma primary_index_fewer:
  assumes "\<And>l. cl_carrier (g l) = cl_carrier l \<and> (cl_is_primary (g l) \<longrightarrow> cl_is_primary l)" "primary_index_ok ls"
  shows "primary_index_ok (map g ls)"
proof -
  have "set (map cl_carrier (filter cl_is_primary (map g ks))) \<subseteq> set (map cl_carrier (filter cl_is_primary ks))" for ks
    using assms(1) by (force simp: image_iff)
  then show ?thesis using assms unfolding primary_index_ok_def by (induction ls) (auto split: if_splits)
qed

lemma write_line_primary: "keeps_line f \<Longrightarrow> primary_index_ok (ld_lines db) \<Longrightarrow> primary_index_ok (ld_lines (write_line i f db))"
  unfolding write_line_simps by (rule primary_index_fewer) (simp_all add: keeps_line_def)

lemma write_line_sum:
  assumes "line_keys db" "line_by_id i db = Some l"
  shows "getCarrierCreditsSum c (write_line i f db) = getCarrierCreditsSum c db - active_credit c l + active_credit c (f l)"
  using sum_of_update_key [of cl_id "ld_lines db" l "active_credit c" f] line_by_idD [OF assms(2)] assms(1)
  by (simp add: credits_sum line_keys_def)

text \<open>One line changes, and some drawers: the drift changes by what is posted less what the line counts for.\<close>

definition change_drift :: "drift \<Rightarrow> carrier_line \<Rightarrow> carrier_line \<Rightarrow> drift" where
  "change_drift post l l' c = post c - (active_credit c l' - active_credit c l)"

lemma one_line_booked:
  assumes ok: "lines_booked f0 db" and f: "keeps_id f" and l: "line_by_id i db = Some l"
    and lines: "ld_lines db' = ld_lines (write_line i f db)" "line_counter db' = line_counter db" "primary_index_ok (ld_lines db')"
    and drawers: "\<And>c. ld_drawers db' (CARRIER_DRAWER_NAMES c, ''USD'') = ld_drawers db (CARRIER_DRAWER_NAMES c, ''USD'') + post c"
    and drift: "\<And>c. g c = change_drift post l (f l) c"
  shows "lines_booked (\<lambda>c. f0 c + g c) db'"
proof -
  have keys: "line_keys db"
    and sums: "\<And>c. ld_drawers db (CARRIER_DRAWER_NAMES c, ''USD'') = getCarrierCreditsSum c db + f0 c" using ok by (simp_all add: lines_booked_def)
  have "line_keys db'" using write_line_keys [OF f keys, of i] lines(1,2) by (simp add: line_keys_def)
  moreover have "getCarrierCreditsSum c db' = getCarrierCreditsSum c db - active_credit c l + active_credit c (f l)" for c
    using write_line_sum [OF keys l, of c f] lines(1) by (simp add: getCarrierCreditsSum_def)
  ultimately show ?thesis using lines(3) drawers sums drift by (simp add: lines_booked_def change_drift_def)
qed

lemma unchanged_booked: "lines_booked f db \<Longrightarrow> (\<And>c. g c = 0) \<Longrightarrow> lines_booked (\<lambda>c. f c + g c) db"
  by (simp add: lines_booked_def)

section \<open>The operations\<close>

lemma write_line_cong:
  assumes "line_keys db" "line_by_id i db = Some l" "f l = g l"
  shows "write_line i f db = write_line i g db"
proof -
  have "f x = g x" if "x \<in> set (ld_lines db)" "cl_id x = i" for x
    using line_by_id_in [OF assms(1) that(1)] that(2) assms(2,3) by simp
  then show ?thesis by (simp add: write_line_def)
qed

lemma set_columns_none: "set_columns no_update l = l"
  by (simp add: set_columns_def no_update_def the_new_def)

lemma updateLine_writes: "updateLine i d db = Inr db1 \<Longrightarrow> db1 = write_line i (set_columns d) db"
proof -
  have "write_line i (set_columns no_update) db = db" by (simp add: write_line_def set_columns_none cong: if_cong)
  then show "updateLine i d db = Inr db1 \<Longrightarrow> db1 = write_line i (set_columns d) db"
    by (auto simp: updateLine_def Let_def split: if_splits)
qed

lemma updateLine_index: "updateLine i d db = Inr db1 \<Longrightarrow> primary_index_ok (ld_lines db) \<Longrightarrow> primary_index_ok (ld_lines db1)"
  by (auto simp: updateLine_def Let_def split: if_splits)

lemma set_columns_id: "keeps_id (set_columns d)"
  by (simp add: keeps_id_def set_columns_def)

lemma set_columns_keeps: "ucl_carrier d = None \<Longrightarrow> keeps_line (set_columns d)"
  by (simp add: keeps_line_def set_columns_def the_new_def)

lemma updateLine_succeeds:
  "ucl_carrier d = None \<Longrightarrow> primary_index_ok (ld_lines db) \<Longrightarrow> updateLine i d db = Inr (write_line i (set_columns d) db)"
proof -
  assume "ucl_carrier d = None" "primary_index_ok (ld_lines db)"
  then have "primary_index_ok (ld_lines (write_line i (set_columns d) db))" by (intro write_line_primary set_columns_keeps)
  then obtain db1 where "updateLine i d db = Inr db1" unfolding updateLine_def Let_def by (cases "d = no_update") simp_all
  then show "updateLine i d db = Inr (write_line i (set_columns d) db)" using updateLine_writes [of i d db db1] by simp
qed

lemma set_columns_line_state:
  "set_columns (line_state balance expiry days) l = l\<lparr>cl_credits := balance, cl_validity_expires_at := expiry, cl_days_owed := days\<rparr>"
  by (simp add: set_columns_def line_state_def no_update_def the_new_def)

lemma line_state_keeps: "keeps_line (set_columns (line_state balance expiry days))"
  by (rule set_columns_keeps) (simp add: line_state_def no_update_def)

lemma line_state_id: "keeps_id (set_columns (line_state balance expiry days))"
  by (rule set_columns_id)

text \<open>An edit of a line by hand, whatever it changes: the drawer of the line's old carrier gets the difference of its credits.\<close>

definition edit_drift :: "carrier_line \<Rightarrow> carrier_line \<Rightarrow> drift" where
  "edit_drift l l' = change_drift (\<lambda>c. if c = cl_carrier l then posted (cl_credits l' - cl_credits l) else 0) l l'"

definition edited_drift :: "nat \<Rightarrow> line_db \<Rightarrow> line_db \<Rightarrow> drift" where
  "edited_drift i db db' = (case (line_by_id i db, line_by_id i db') of (Some l, Some l') \<Rightarrow> edit_drift l l' | _ \<Rightarrow> (\<lambda>_. 0))"

lemma set_columns_credits: "cl_credits (set_columns d l) = the_new (ucl_credits d) (cl_credits l)"
  by (simp add: set_columns_def)

lemma edit_booked:
  assumes ok: "lines_booked f db" and l: "line_by_id i db = Some l"
    and u: "updateLine i d db = Inr db1"
    and db1: "ld_lines db2 = ld_lines db1" "line_counter db2 = line_counter db1" "ld_drawers db2 = ld_drawers db1"
    and db': "same_lines db2 db'"
      "\<And>c. ld_drawers db' (CARRIER_DRAWER_NAMES c, ''USD'') = ld_drawers db2 (CARRIER_DRAWER_NAMES c, ''USD'') +
        (if c = cl_carrier l then posted (the_new (ucl_credits d) (cl_credits l) - cl_credits l) else 0)"
  shows "lines_booked (\<lambda>c. f c + edited_drift i db db' c) db'"
proof (rule one_line_booked [OF ok set_columns_id l])
  have keys: "line_keys db" and index: "primary_index_ok (ld_lines db)" using ok by (simp_all add: lines_booked_def)
  note w = updateLine_writes [OF u]
  show lines: "ld_lines db' = ld_lines (write_line i (set_columns d) db)" "line_counter db' = line_counter db"
    using w db1 db'(1) by (simp_all add: same_lines_def)
  show "primary_index_ok (ld_lines db')" using updateLine_index [OF u index] w lines(1) by simp
  show "ld_drawers db' (CARRIER_DRAWER_NAMES c, ''USD'') = ld_drawers db (CARRIER_DRAWER_NAMES c, ''USD'') +
      (if c = cl_carrier l then posted (the_new (ucl_credits d) (cl_credits l) - cl_credits l) else 0)" for c
    using db'(2) [of c] db1(3) w by simp
  have "line_by_id i db' = Some (set_columns d l)"
    using write_line_read [OF set_columns_id keys l] lines(1) by (simp add: line_by_id_def)
  then show "edited_drift i db db' c =
      change_drift (\<lambda>c. if c = cl_carrier l then posted (the_new (ucl_credits d) (cl_credits l) - cl_credits l) else 0) l (set_columns d l) c" for c
    using l by (simp add: edited_drift_def edit_drift_def) (simp only: set_columns_credits)
qed

lemma no_edit_drift: "line_by_id i db = None \<Longrightarrow> edited_drift i db db' c = 0"
  by (simp add: edited_drift_def)

lemma sync_booked:
  assumes ok: "lines_booked f db" and run: "updateLineAndSyncDrawer i d u db = Inr db'"
  shows "lines_booked (\<lambda>c. f c + edited_drift i db db' c) db'"
proof (cases "line_by_id i db")
  case None
  with run have "db' = db" by (simp add: updateLineAndSyncDrawer_def)
  with ok None show ?thesis by (intro unchanged_booked) (simp_all add: no_edit_drift)
next
  case (Some l)
  have keys: "line_keys db" using ok by (simp add: lines_booked_def)
  obtain db1 where u: "updateLine i d db = Inr db1" using run Some by (auto simp: updateLineAndSyncDrawer_def split: sum.splits)
  have read: "line_by_id i db1 = Some (set_columns d l)"
    using write_line_read [OF set_columns_id keys Some] updateLine_writes [OF u] by simp
  let ?delta = "the_new (ucl_credits d) (cl_credits l) - cl_credits l"
  have "same_lines db1 db' \<and> (\<forall>c. ld_drawers db' (CARRIER_DRAWER_NAMES c, ''USD'') =
      ld_drawers db1 (CARRIER_DRAWER_NAMES c, ''USD'') + (if c = cl_carrier l then posted ?delta else 0))"
  proof (cases "\<bar>?delta\<bar> > LINE_USAGE_MIN_DELTA_USD / 2")
    case True
    then have "postCarrierDrawerAdjustment (cl_carrier l) ?delta u (''Carrier line '' @ cl_phone_number l @ '' credits edited'') i ''edited'' db1 = Inr db'"
      using run Some u read by (simp add: updateLineAndSyncDrawer_def set_columns_credits Let_def)
    then show ?thesis using post_adjustment(1) post_drawer by blast
  next
    case False
    then have "db' = db1" using run Some u read by (simp add: updateLineAndSyncDrawer_def set_columns_credits Let_def)
    then show ?thesis using False by (simp add: same_lines_def posted_def)
  qed
  then show ?thesis by (intro edit_booked [OF ok Some u refl refl refl]) auto
qed

lemma createMovement_frame:
  "createMovement d db = Inr (m, db') \<Longrightarrow> ld_lines db' = ld_lines db \<and> line_counter db' = line_counter db \<and> ld_drawers db' = ld_drawers db"
  by (auto simp: createMovement_def Let_def split: option.splits)

text \<open>The parts of a successful edit of the balance.\<close>

lemma updateBalance_cases:
  assumes run: "updateBalance i c e u db = Inr db'" and l: "line_by_id i db = Some l"
  defines "d \<equiv> no_update\<lparr>ucl_credits := c, ucl_validity_expires_at := e\<rparr>" and "delta \<equiv> the_new c (cl_credits l) - cl_credits l"
  obtains db1 db2 where "updateLine i d db = Inr db1" "db2 = db1 \<or> (\<exists>row m. createMovement row db1 = Inr (m, db2))"
    "same_lines db2 db'" "\<And>k. ld_drawers db' (CARRIER_DRAWER_NAMES k, ''USD'') = ld_drawers db2 (CARRIER_DRAWER_NAMES k, ''USD'') +
       (if k = cl_carrier l then posted delta else 0)"
proof -
  let ?changed = "c \<noteq> None \<and> c \<noteq> Some (cl_credits l)"
  have delta: "(if ?changed then the c - cl_credits l else 0) = delta" by (auto simp: delta_def the_new_def)
  show thesis
  proof (cases "\<not> ?changed \<and> \<not> (e \<noteq> None \<and> e \<noteq> Some (cl_validity_expires_at l))")
    case True
    then have "updateLine i d db = Inr db'" using run l by (simp add: updateBalance_def d_def Let_def)
    moreover have "delta = 0" using True by (auto simp: delta_def the_new_def)
    ultimately show thesis by (intro that [of db' db']) (simp_all add: same_lines_def)
  next
    case False
    note steps = run [unfolded updateBalance_def l option.case Let_def if_not_P [OF False] delta, folded d_def]
    obtain db1 where u: "updateLine i d db = Inr db1" using steps by (cases "updateLine i d db") simp_all
    let ?row = "\<lambda>days. \<lparr>nm_carrier_line_id = i, nm_transaction_id = None, nm_credits_delta = delta, nm_validity_days_delta = days,
        nm_previous_validity_expires_at = cl_validity_expires_at l, nm_days_owed_delta = 0, nm_previous_days_owed = 0, nm_reason = ''manual''\<rparr>"
    obtain days m db2 where mv: "createMovement (?row days) db1 = Inr (m, db2)"
      and post: "(if delta \<noteq> 0 then postCarrierDrawerAdjustment (cl_carrier l) delta u
        (''Carrier line '' @ cl_phone_number l @ '' balance updated'') i ''quick-update'' db2 else Inr db2) = Inr db'"
      using steps unfolding u sum.case by (auto split: sum.splits prod.splits simp del: split_paired_Ex)
    have "same_lines db2 db' \<and> (\<forall>k. ld_drawers db' (CARRIER_DRAWER_NAMES k, ''USD'') =
        ld_drawers db2 (CARRIER_DRAWER_NAMES k, ''USD'') + (if k = cl_carrier l then posted delta else 0))"
      using post post_adjustment(1) post_drawer by (cases "delta = 0") (auto simp: same_lines_def)
    then show thesis using mv by (intro that [OF u, of db2]) auto
  qed
qed

lemma balance_booked:
  assumes ok: "lines_booked f db" and run: "updateBalance i c e u db = Inr db'"
  shows "lines_booked (\<lambda>k. f k + edited_drift i db db' k) db'"
proof (cases "line_by_id i db")
  case None
  with run have "db' = db" by (simp add: updateBalance_def)
  with ok None show ?thesis by (intro unchanged_booked) (simp_all add: no_edit_drift)
next
  case (Some l)
  let ?d = "no_update\<lparr>ucl_credits := c, ucl_validity_expires_at := e\<rparr>"
  obtain db1 db2 where u: "updateLine i ?d db = Inr db1" and mv: "db2 = db1 \<or> (\<exists>row m. createMovement row db1 = Inr (m, db2))"
    and post: "same_lines db2 db'" "\<And>k. ld_drawers db' (CARRIER_DRAWER_NAMES k, ''USD'') = ld_drawers db2 (CARRIER_DRAWER_NAMES k, ''USD'') +
       (if k = cl_carrier l then posted (the_new c (cl_credits l) - cl_credits l) else 0)"
    by (rule updateBalance_cases [OF run Some]) blast
  have "ld_lines db2 = ld_lines db1 \<and> line_counter db2 = line_counter db1 \<and> ld_drawers db2 = ld_drawers db1"
    using mv createMovement_frame by auto
  then show ?thesis using post by (intro edit_booked [OF ok Some u, of db2]) (simp_all add: no_update_def)
qed

text \<open>Switching a line on or off posts the credits that begin or cease to count.\<close>

definition toggle_drift :: "nat \<Rightarrow> line_db \<Rightarrow> drift" where
  "toggle_drift i db c = (case line_by_id i db of None \<Rightarrow> 0
     | Some l \<Rightarrow> if c = cl_carrier l then short (if cl_is_active l then - cl_credits l else cl_credits l) else 0)"

definition archive_drift :: "nat \<Rightarrow> line_db \<Rightarrow> drift" where
  "archive_drift i db c = (case line_by_id i db of None \<Rightarrow> 0
     | Some l \<Rightarrow> if c = cl_carrier l \<and> cl_is_active l then short (- cl_credits l) else 0)"

lemma toggle_booked:
  assumes ok: "lines_booked f db" and run: "toggleActive i u db = Inr db'"
  shows "lines_booked (\<lambda>c. f c + toggle_drift i db c) db'"
proof (cases "line_by_id i db")
  case None
  then show ?thesis using ok run by (simp add: toggleActive_def toggle_drift_def)
next
  case (Some l)
  let ?f = "\<lambda>l. l\<lparr>cl_is_active := \<not> cl_is_active l, cl_is_primary := (if cl_is_active l then False else cl_is_primary l)\<rparr>"
  let ?x = "if cl_is_active l then - cl_credits l else cl_credits l"
  have f: "keeps_line ?f" by (simp add: keeps_line_def)
  have keys: "line_keys db" and index: "primary_index_ok (ld_lines db)" using ok by (simp_all add: lines_booked_def)
  obtain t tag where post: "postCarrierDrawerAdjustment (cl_carrier l) ?x u t i tag (write_line i ?f db) = Inr db'"
    using run Some write_line_read [OF keeps_line_id [OF f] keys Some] by (cases "cl_is_active l") (auto simp: toggleActive_def Let_def)
  note frame = post_adjustment(1) [OF post, unfolded same_lines_def]
  show ?thesis
  proof (rule one_line_booked [OF ok keeps_line_id [OF f] Some])
    show lines: "ld_lines db' = ld_lines (write_line i ?f db)" "line_counter db' = line_counter db" using frame by simp_all
    show "primary_index_ok (ld_lines db')" using write_line_primary [OF f index] lines(1) by simp
    show "ld_drawers db' (CARRIER_DRAWER_NAMES c, ''USD'') = ld_drawers db (CARRIER_DRAWER_NAMES c, ''USD'') +
        (if c = cl_carrier l then posted ?x else 0)" for c
      using post_drawer [OF post, of c] by simp
    show "toggle_drift i db c = change_drift (\<lambda>c. if c = cl_carrier l then posted ?x else 0) l (?f l) c" for c
      using Some by (auto simp: toggle_drift_def change_drift_def active_credit_def short_def)
  qed
qed

lemma archive_booked:
  assumes ok: "lines_booked f db" and run: "archive i u db = Inr db'"
  shows "lines_booked (\<lambda>c. f c + archive_drift i db c) db'"
proof (cases "line_by_id i db")
  case None
  then show ?thesis using ok run by (simp add: archive_def archive_drift_def)
next
  case (Some l)
  let ?f = "\<lambda>l. l\<lparr>cl_is_active := False, cl_is_primary := False\<rparr>"
  have f: "keeps_line ?f" by (simp add: keeps_line_def)
  have index: "primary_index_ok (ld_lines db)" using ok by (simp add: lines_booked_def)
  let ?gone = "if cl_is_active l then posted (- cl_credits l) else 0"
  have db': "same_lines (write_line i ?f db) db' \<and> (\<forall>c. ld_drawers db' (CARRIER_DRAWER_NAMES c, ''USD'') =
      ld_drawers (write_line i ?f db) (CARRIER_DRAWER_NAMES c, ''USD'') + (if c = cl_carrier l then ?gone else 0))"
  proof (cases "cl_is_active l")
    case True
    then show ?thesis using run Some post_adjustment(1) post_drawer by (auto simp: archive_def Let_def)
  next
    case False
    then show ?thesis using run Some by (simp add: archive_def Let_def same_lines_def)
  qed
  show ?thesis
  proof (rule one_line_booked [OF ok keeps_line_id [OF f] Some])
    show lines: "ld_lines db' = ld_lines (write_line i ?f db)" "line_counter db' = line_counter db" using db' by (simp_all add: same_lines_def)
    show "primary_index_ok (ld_lines db')" using write_line_primary [OF f index] lines(1) by simp
    show "ld_drawers db' (CARRIER_DRAWER_NAMES c, ''USD'') = ld_drawers db (CARRIER_DRAWER_NAMES c, ''USD'') +
        (if c = cl_carrier l then ?gone else 0)" for c
      using db' by simp
    show "archive_drift i db c = change_drift (\<lambda>c. if c = cl_carrier l then ?gone else 0) l (?f l) c" for c
      using Some by (auto simp: archive_drift_def change_drift_def active_credit_def short_def)
  qed
qed

lemma primary_booked:
  assumes ok: "lines_booked f db" and run: "setPrimary i db = Inr db'"
  shows "lines_booked f db'"
proof (cases "line_by_id i db")
  case None
  then show ?thesis using ok run by (simp add: setPrimary_def)
next
  case (Some l)
  let ?g = "\<lambda>x. if cl_carrier x = cl_carrier l \<and> cl_is_primary x then x\<lparr>cl_is_primary := False\<rparr> else x"
  let ?f = "\<lambda>x. if cl_id x = i then x\<lparr>cl_is_primary := True\<rparr> else x"
  have lines: "ld_lines db' = map (?f \<circ> ?g) (ld_lines db)" and index: "primary_index_ok (ld_lines db')"
    and rest: "line_counter db' = line_counter db" "ld_drawers db' = ld_drawers db"
    using run Some by (auto simp: setPrimary_def Let_def write_line_def split: if_splits)
  have same: "cl_id ((?f \<circ> ?g) x) = cl_id x" "active_credit c ((?f \<circ> ?g) x) = active_credit c x" for x c
    by (auto simp: active_credit_def)
  have ids: "map cl_id (ld_lines db') = map cl_id (ld_lines db)" using same(1) unfolding lines by simp
  have "getCarrierCreditsSum c db' = getCarrierCreditsSum c db" for c
    using same(2) unfolding credits_sum lines map_map by (simp only: comp_assoc [symmetric]) (simp add: comp_def)
  then show ?thesis using ok index rest ids unfolding lines_booked_def line_keys_ids by metis
qed

text \<open>A new line: primary when no line of its carrier is active.\<close>

definition new_line :: "CreateCarrierLineData \<Rightarrow> line_db \<Rightarrow> carrier_line" where
  "new_line d db = \<lparr>cl_id = line_counter db + 1, cl_carrier = ccl_carrier d, cl_phone_number = ccl_phone_number d, cl_label = ccl_label d,
     cl_credits = the_new (ccl_credits d) 0, cl_validity_expires_at = ccl_validity_expires_at d, cl_days_owed = 0, cl_notes = ccl_notes d,
     cl_is_active = True, cl_is_primary = (\<not> list_ex (\<lambda>l. cl_carrier l = ccl_carrier d \<and> cl_is_active l) (ld_lines db))\<rparr>"

definition add_line :: "CreateCarrierLineData \<Rightarrow> line_db \<Rightarrow> line_db" where
  "add_line d db = db\<lparr>ld_lines := ld_lines db @ [new_line d db], line_counter := line_counter db + 1\<rparr>"

lemma createLine_eq:
  "createLine d u db =
     (if \<not> primary_index_ok (ld_lines (add_line d db)) then Inl PRIMARY_TAKEN
      else if the_new (ccl_credits d) 0 \<noteq> 0
      then postCarrierDrawerAdjustment (ccl_carrier d) (the_new (ccl_credits d) 0) u (''Carrier line '' @ ccl_phone_number d @ '' created'')
        (line_counter db + 1) ''created'' (add_line d db)
      else Inr (add_line d db))"
  by (simp add: createLine_def add_line_def new_line_def the_new_def Let_def)

definition create_drift :: "CreateCarrierLineData \<Rightarrow> drift" where
  "create_drift d c = (if c = ccl_carrier d then short (the_new (ccl_credits d) 0) else 0)"

lemma createLine_cases:
  assumes run: "createLine d u db = Inr db'"
  shows "same_lines (add_line d db) db'" "primary_index_ok (ld_lines (add_line d db))"
    "ld_drawers db' (CARRIER_DRAWER_NAMES c, ''USD'') = ld_drawers db (CARRIER_DRAWER_NAMES c, ''USD'') +
       (if c = ccl_carrier d then posted (the_new (ccl_credits d) 0) else 0)"
proof -
  let ?x = "the_new (ccl_credits d) 0"
  show index: "primary_index_ok (ld_lines (add_line d db))" using run by (auto simp: createLine_eq split: if_splits)
  have "same_lines (add_line d db) db' \<and> (\<forall>c. ld_drawers db' (CARRIER_DRAWER_NAMES c, ''USD'') =
      ld_drawers (add_line d db) (CARRIER_DRAWER_NAMES c, ''USD'') + (if c = ccl_carrier d then posted ?x else 0))"
    using run index post_adjustment(1) post_drawer by (cases "?x = 0") (auto simp: createLine_eq same_lines_def)
  then show "same_lines (add_line d db) db'" "ld_drawers db' (CARRIER_DRAWER_NAMES c, ''USD'') =
      ld_drawers db (CARRIER_DRAWER_NAMES c, ''USD'') + (if c = ccl_carrier d then posted ?x else 0)"
    by (simp_all add: add_line_def)
qed

lemma create_booked:
  assumes ok: "lines_booked f db" and run: "createLine d u db = Inr db'"
  shows "lines_booked (\<lambda>c. f c + create_drift d c) db'"
proof -
  note c = createLine_cases [OF run]
  have lines: "ld_lines db' = ld_lines db @ [new_line d db]" "line_counter db' = line_counter db + 1"
    using c(1) by (simp_all add: same_lines_def add_line_def)
  have "getCarrierCreditsSum k db' = getCarrierCreditsSum k db + (if k = ccl_carrier d then the_new (ccl_credits d) 0 else 0)" for k
    by (simp add: credits_sum lines active_credit_def new_line_def)
  moreover have "line_keys db'"
    using ok by (fastforce simp: lines_booked_def line_keys_def lines new_line_def)
  moreover have "primary_index_ok (ld_lines db')" using c(2) by (simp add: lines add_line_def)
  ultimately show ?thesis using ok c(3) by (simp add: lines_booked_def create_drift_def short_def)
qed

section \<open>Movements\<close>

text \<open>What a movement does to its line and writes down.\<close>

lemma computeAppliedState_state:
  "computeAppliedState l x d e today = Inr (state, p) \<Longrightarrow> \<exists>expiry days. state = line_state (cl_credits l + x) expiry days"
  by (auto simp: computeAppliedState_def Let_def split: option.splits if_splits)

lemma applyMovement_cases:
  assumes "applyMovement day d db = Inr (m, db1)"
  obtains l expiry days where "line_by_id (am_carrierLineId d) db = Some l"
    "ld_lines db1 = ld_lines (write_line (am_carrierLineId d) (set_columns (line_state (cl_credits l + am_creditsDelta d) expiry days)) db)"
    "line_counter db1 = line_counter db" "ld_drawers db1 = ld_drawers db"
proof -
  obtain l where l: "line_by_id (am_carrierLineId d) db = Some l"
    using assms by (auto simp: applyMovement_def split: if_splits option.splits)
  let ?today = "case am_today d of None \<Rightarrow> day | Some t \<Rightarrow> t"
  obtain state p where c: "computeAppliedState l (am_creditsDelta d) (am_validityDaysDelta d) (am_validityExpiresAt d) ?today = Inr (state, p)"
    using assms l by (auto simp: applyMovement_def Let_def split: if_splits sum.splits)
  obtain db0 where u: "updateLine (am_carrierLineId d) state db = Inr db0"
    using assms l c by (auto simp: applyMovement_def Let_def split: if_splits sum.splits)
  obtain row where mv: "createMovement row db0 = Inr (m, db1)"
    using assms l c u by (auto simp: applyMovement_def Let_def split: if_splits sum.splits prod.splits)
  obtain expiry days where "state = line_state (cl_credits l + am_creditsDelta d) expiry days" using computeAppliedState_state [OF c] by blast
  then show thesis using that [OF l, of expiry days] createMovement_frame [OF mv] updateLine_writes [OF u] by simp
qed

lemma reverseMovement_cases:
  assumes "reverseMovement i today db = Inr (r, db1)" "movement_by_id i db = Some m" "\<not> mv_is_reversed m"
  obtains l where "line_by_id (mv_carrier_line_id m) db = Some l" "reversal_blocked m l db = None" "r = Some (m\<lparr>mv_is_reversed := True\<rparr>)"
    "db1 = markReversed i (write_line (mv_carrier_line_id m) (set_columns (line_state (cl_credits l - mv_credits_delta m)
       (reversed_expiry m l today) (max 0 (cl_days_owed l - mv_days_owed_delta m)))) db)"
proof -
  obtain l where l: "line_by_id (mv_carrier_line_id m) db = Some l"
    using assms by (auto simp: reverseMovement_def split: option.splits)
  have b: "reversal_blocked m l db = None" using assms l by (auto simp: reverseMovement_def split: option.splits)
  obtain db0 where u: "updateLine (mv_carrier_line_id m) (line_state (cl_credits l - mv_credits_delta m)
       (reversed_expiry m l today) (max 0 (cl_days_owed l - mv_days_owed_delta m))) db = Inr db0"
    using assms l b by (auto simp: reverseMovement_def split: sum.splits)
  then show thesis using that [OF l b] assms l b updateLine_writes [OF u] by (simp add: reverseMovement_def)
qed

lemma markReversed_frame:
  "ld_lines (markReversed i db) = ld_lines db" "line_counter (markReversed i db) = line_counter db" "ld_drawers (markReversed i db) = ld_drawers db"
  by (simp_all add: markReversed_def)

text \<open>A movement changes the credits of its line and leaves the money to its caller.\<close>

definition move_drift :: "nat \<Rightarrow> amount \<Rightarrow> line_db \<Rightarrow> drift" where
  "move_drift i x db c = (case line_by_id i db of None \<Rightarrow> 0 | Some l \<Rightarrow> if cl_carrier l = c \<and> cl_is_active l then - x else 0)"

lemma credit_change_booked:
  assumes ok: "lines_booked f db" and l: "line_by_id i db = Some l"
    and db1: "ld_lines db1 = ld_lines (write_line i (set_columns (line_state (cl_credits l + x) expiry days)) db)"
      "line_counter db1 = line_counter db" "ld_drawers db1 = ld_drawers db"
  shows "lines_booked (\<lambda>c. f c + move_drift i x db c) db1"
proof (rule one_line_booked [OF ok line_state_id l db1(1,2)])
  show "primary_index_ok (ld_lines db1)"
    using ok write_line_primary [OF line_state_keeps] db1(1) by (simp add: lines_booked_def)
  show "ld_drawers db1 (CARRIER_DRAWER_NAMES c, ''USD'') = ld_drawers db (CARRIER_DRAWER_NAMES c, ''USD'') + 0" for c
    using db1(3) by simp
  show "move_drift i x db c = change_drift (\<lambda>_. 0) l (set_columns (line_state (cl_credits l + x) expiry days) l) c" for c
    using l by (simp add: move_drift_def change_drift_def active_credit_def set_columns_line_state)
qed

lemma move_booked:
  assumes ok: "lines_booked f db" and run: "applyMovement day d db = Inr (m, db1)"
  shows "lines_booked (\<lambda>c. f c + move_drift (am_carrierLineId d) (am_creditsDelta d) db c) db1"
  by (rule applyMovement_cases [OF run]) (rule credit_change_booked [OF ok])

definition reverse_drift :: "nat \<Rightarrow> line_db \<Rightarrow> drift" where
  "reverse_drift i db = (case movement_by_id i db of None \<Rightarrow> (\<lambda>_. 0)
     | Some m \<Rightarrow> if mv_is_reversed m then (\<lambda>_. 0) else move_drift (mv_carrier_line_id m) (- mv_credits_delta m) db)"

lemma reverse_booked:
  assumes ok: "lines_booked f db" and run: "reverseMovement i today db = Inr (r, db1)"
  shows "lines_booked (\<lambda>c. f c + reverse_drift i db c) db1"
proof (cases "movement_by_id i db")
  case None
  then show ?thesis using ok run by (simp add: reverseMovement_def reverse_drift_def)
next
  case (Some m)
  show ?thesis
  proof (cases "mv_is_reversed m")
    case True
    then show ?thesis using ok run Some by (simp add: reverseMovement_def reverse_drift_def split: option.splits)
  next
    case False
    obtain l where l: "line_by_id (mv_carrier_line_id m) db = Some l"
      and db1: "db1 = markReversed i (write_line (mv_carrier_line_id m) (set_columns (line_state (cl_credits l - mv_credits_delta m)
       (reversed_expiry m l today) (max 0 (cl_days_owed l - mv_days_owed_delta m)))) db)"
      by (rule reverseMovement_cases [OF run Some False])
    show ?thesis
      using credit_change_booked [OF ok l, of db1 "- mv_credits_delta m" "reversed_expiry m l today" "max 0 (cl_days_owed l - mv_days_owed_delta m)"]
        Some False by (simp add: db1 markReversed_frame reverse_drift_def)
  qed
qed

section \<open>Reachable states\<close>

text \<open>
  Every operation with any arguments, labelled with its drift; beside them the post of a caller on the drawer of a carrier, which
  sales, purchases and reversals make for the credits they move.
\<close>

inductive line_step :: "drift \<Rightarrow> line_db \<Rightarrow> line_db \<Rightarrow> bool" where
  step_create: "createLine d u db = Inr db' \<Longrightarrow> line_step (create_drift d) db db'"
| step_edit: "updateLineAndSyncDrawer i d u db = Inr db' \<Longrightarrow> line_step (edited_drift i db db') db db'"
| step_balance: "updateBalance i c e u db = Inr db' \<Longrightarrow> line_step (edited_drift i db db') db db'"
| step_toggle: "toggleActive i u db = Inr db' \<Longrightarrow> line_step (toggle_drift i db) db db'"
| step_archive: "archive i u db = Inr db' \<Longrightarrow> line_step (archive_drift i db) db db'"
| step_primary: "setPrimary i db = Inr db' \<Longrightarrow> line_step (\<lambda>_. 0) db db'"
| step_move: "applyMovement day d db = Inr (m, db') \<Longrightarrow> line_step (move_drift (am_carrierLineId d) (am_creditsDelta d) db) db db'"
| step_reverse: "reverseMovement i today db = Inr (r, db') \<Longrightarrow> line_step (reverse_drift i db) db db'"
| step_post: "line_drawer_delta (CARRIER_DRAWER_NAMES k) ''USD'' x db = Inr db' \<Longrightarrow> line_step (\<lambda>c. if c = k then x else 0) db db'"
| step_owe: "line_step (\<lambda>_. 0) db (createDelivery i t cid cname days db)"
| step_sent: "line_step (\<lambda>_. 0) db (markSent j user at_time db)"

text \<open>A step with the drift so far.\<close>

definition booked_step :: "drift \<times> line_db \<Rightarrow> drift \<times> line_db \<Rightarrow> bool" where
  "booked_step s t \<longleftrightarrow> (\<exists>g. line_step g (snd s) (snd t) \<and> fst t = (\<lambda>c. fst s c + g c))"

lemma delivery_booked: "lines_booked f (createDelivery i t cid cname days db) = lines_booked f db" "lines_booked f (markSent j user w db) = lines_booked f db"
  by (simp_all add: lines_booked_def line_keys_def getCarrierCreditsSum_def createDelivery_def markSent_def Let_def split: option.splits)

lemma post_booked:
  "line_drawer_delta (CARRIER_DRAWER_NAMES k) ''USD'' x db = Inr db' \<Longrightarrow> lines_booked f db \<Longrightarrow> lines_booked (\<lambda>c. f c + (if c = k then x else 0)) db'"
  by (auto simp: carrier_drawer_delta lines_booked_def line_keys_def getCarrierCreditsSum_def)

lemma line_step_booked: "line_step g db db' \<Longrightarrow> lines_booked f db \<Longrightarrow> lines_booked (\<lambda>c. f c + g c) db'"
proof (induction rule: line_step.induct)
  case step_primary then show ?case using primary_booked by simp
qed (auto intro: create_booked sync_booked balance_booked toggle_booked archive_booked move_booked reverse_booked post_booked simp: delivery_booked)

interpretation carrier_books: step_invariant booked_step "\<lambda>(f, db). lines_booked f db"
  by unfold_locales (auto simp: booked_step_def intro: line_step_booked)

text \<open>The changes the source has in mind leave no drift: amounts in whole cents, edits of an active line that keep its carrier
  and its active flag, and movements of a line together with the post of the same amount.\<close>

lemma edit_in_place_drift:
  assumes "cl_is_active l" "cl_is_active l'" "cl_carrier l' = cl_carrier l" "in_cents (cl_credits l' - cl_credits l)"
  shows "edit_drift l l' c = 0"
  using assms short_cents [OF assms(4)] by (simp add: edit_drift_def change_drift_def active_credit_def short_def)

lemma move_and_post_drift:
  "line_by_id i db = Some l \<Longrightarrow> cl_is_active l \<Longrightarrow> move_drift i x db c + (if c = cl_carrier l then x else 0) = 0"
  by (simp add: move_drift_def)

end
