(* ===== verification/Carrier_Lines_Properties.thy ===== *)
theory Carrier_Lines_Properties
  imports Carrier_Lines_Safety
begin

text \<open>
  The properties of the SIM lines: what every reachable state satisfies, the reversal of a movement, and the places where the
  code leaves what its comments promise.
\<close>

section \<open>Reversing the newest movement\<close>

definition movement_keys :: "line_db \<Rightarrow> bool" where
  "movement_keys db \<longleftrightarrow> distinct (map mv_id (ld_movements db)) \<and> (\<forall>m \<in> set (ld_movements db). mv_id m \<le> movement_counter db)"

lemma movement_by_id_in: "movement_keys db \<Longrightarrow> m \<in> set (ld_movements db) \<Longrightarrow> movement_by_id (mv_id m) db = Some m"
  by (simp add: movement_keys_def movement_by_id_def find_by_key)

lemma createMovement_row:
  assumes "createMovement d db = Inr (m, db')"
  shows "ld_movements db' = ld_movements db @ [m]" "movement_counter db' = mv_id m" "mv_id m = movement_counter db + 1"
    "\<not> mv_is_reversed m" "mv_carrier_line_id m = nm_carrier_line_id d" "mv_credits_delta m = nm_credits_delta d"
    "nm_validity_days_delta d = Some (mv_validity_days_delta m)"
    "mv_previous_validity_expires_at m = nm_previous_validity_expires_at d" "mv_days_owed_delta m = nm_days_owed_delta d"
    "db' = db\<lparr>ld_movements := ld_movements db @ [m], movement_counter := mv_id m\<rparr>"
  using assms by (auto simp: createMovement_def Let_def split: option.splits)

text \<open>The parts of a successful movement.\<close>

lemma applyMovement_parts:
  assumes run: "applyMovement day d db = Inr (m, db1)" and l: "line_by_id (am_carrierLineId d) db = Some l"
  obtains expiry owed p where
    "computeAppliedState l (am_creditsDelta d) (am_validityDaysDelta d) (am_validityExpiresAt d) (the_new (am_today d) day) =
       Inr (line_state (cl_credits l + am_creditsDelta d) expiry owed, p)"
    "recorded_deltas (cl_validity_expires_at l) (am_validityExpiresAt d) (am_validityDaysDelta d) p
       = (Some (mv_validity_days_delta m), mv_days_owed_delta m)"
    "db1 = (write_line (am_carrierLineId d) (set_columns (line_state (cl_credits l + am_creditsDelta d) expiry owed)) db)
       \<lparr>ld_movements := ld_movements db @ [m], movement_counter := mv_id m\<rparr>"
    "mv_id m = movement_counter db + 1" "\<not> mv_is_reversed m" "mv_carrier_line_id m = am_carrierLineId d"
    "mv_credits_delta m = am_creditsDelta d" "mv_previous_validity_expires_at m = cl_validity_expires_at l"
proof -
  have today: "(case am_today d of None \<Rightarrow> day | Some t \<Rightarrow> t) = the_new (am_today d) day" by (simp add: the_new_def)
  let ?day = "the_new (am_today d) day" and ?e = "am_validityExpiresAt d"
  obtain state p where c: "computeAppliedState l (am_creditsDelta d) (am_validityDaysDelta d) ?e ?day = Inr (state, p)"
    using run l unfolding applyMovement_def today by (auto simp: Let_def split: if_splits sum.splits)
  obtain expiry owed where state: "state = line_state (cl_credits l + am_creditsDelta d) expiry owed"
    using computeAppliedState_state [OF c] by blast
  obtain db0 where u: "updateLine (am_carrierLineId d) state db = Inr db0"
    using run l c unfolding applyMovement_def today by (auto simp: Let_def split: if_splits sum.splits)
  obtain dd od where rec: "recorded_deltas (cl_validity_expires_at l) ?e (am_validityDaysDelta d) p = (dd, od)" by fastforce
  let ?row = "\<lparr>nm_carrier_line_id = am_carrierLineId d, nm_transaction_id = am_transactionId d, nm_credits_delta = am_creditsDelta d,
      nm_validity_days_delta = dd, nm_previous_validity_expires_at = cl_validity_expires_at l, nm_days_owed_delta = od,
      nm_previous_days_owed = cl_days_owed l, nm_reason = am_reason d\<rparr>"
  have mv: "createMovement ?row db0 = Inr (m, db1)"
    using run l c u rec unfolding applyMovement_def today by (simp add: Let_def split: if_splits)
  note row = createMovement_row [OF mv, simplified]
  show thesis
    using row rec updateLine_writes [OF u] c state
    by (intro that [of expiry owed p]) simp_all
qed

text \<open>Reversing on the line as the movement left it gives the old expiry and the old days owed.\<close>

lemma sale_reversal:
  assumes fit: "dates_fit e d t" and d: "d < 0" and owing: "0 \<le> owing"
  defines "p \<equiv> projectValidityExpiry (map_option text_of_day e) d (text_of_day t) owing"
  assumes m: "mv_validity_days_delta m = d + vp_soldAhead p" "mv_days_owed_delta m = vp_soldAhead p"
      "mv_previous_validity_expires_at m = map_option text_of_day e"
    and l: "cl_validity_expires_at l = vp_expiry p" "cl_days_owed l = vp_daysOwed p"
  shows "reversed_expiry m l today' = map_option text_of_day e \<and> vp_daysOwed p - vp_soldAhead p = owing"
proof (cases e)
  case None
  then show ?thesis using d m l
    by (simp add: reversed_expiry_def p_def projectValidityExpiry_def project_sale_def classify_none unchanged_line_def Let_def)
next
  case (Some x)
  have dates: "date_day t" "date_day x" "date_day (x + d)"
    using dates_fitD(1) [OF fit, of 0] dates_fitD(2) [OF fit Some, of 0] dates_fitD(2) [OF fit Some, of d] d by simp_all
  note defs = p_def projectValidityExpiry_def project_sale_def classify_text unchanged_line_def
  have undo: "addDaysToDateString (text_of_day (x + d)) (- d) = text_of_day x" "addDaysToDateString (text_of_day t) (x - t) = text_of_day x"
    using dates by (simp_all add: addDays_text)
  consider "t \<le> x" "- d \<le> x - t" | "t \<le> x" "\<not> - d \<le> x - t" | "x < t" "t - x \<le> 5" | "x < t" "\<not> t - x \<le> 5" by linarith
  then show ?thesis
  proof cases
    case 1
    then have "vp_soldAhead p = 0" "vp_expiry p = Some (text_of_day (x + d))" "vp_daysOwed p = owing"
      using d dates by (simp_all add: Some defs Let_def addDays_text)
    then show ?thesis using m l d undo(1) by (simp add: reversed_expiry_def Some Let_def)
  next
    case 2
    then have "vp_soldAhead p = - d - (x - t)" "vp_expiry p = Some (text_of_day t)" "vp_daysOwed p = owing + (- d - (x - t))"
      using d dates by (simp_all add: Some defs Let_def)
    then show ?thesis using m l d undo(2) owing 2 by (cases "x = t") (simp_all add: reversed_expiry_def Some Let_def max_def)
  next
    case 3
    then have "vp_soldAhead p = - d" "vp_expiry p = Some (text_of_day x)" "vp_daysOwed p = owing - d"
      using d dates by (simp_all add: Some defs Let_def)
    then show ?thesis using m l by (simp add: reversed_expiry_def Some)
  next
    case 4
    then have "vp_soldAhead p = 0" "vp_expiry p = Some (text_of_day (x + d))" "vp_daysOwed p = owing"
      using d dates by (simp_all add: Some defs Let_def addDays_text)
    then show ?thesis using m l d undo(1) by (simp add: reversed_expiry_def Some Let_def)
  qed
qed

lemma charge_owed:
  "0 < d \<Longrightarrow> 0 \<le> owing \<Longrightarrow> \<not> vp_burned p \<Longrightarrow> p = projectValidityExpiry e d today owing \<Longrightarrow> vp_daysOwed p + vp_owedApplied p = owing"
  by (auto simp: projectValidityExpiry_def project_charge_def unchanged_line_def Let_def)

lemma movement_reversal:
  assumes fit: "dates_fit e d t" and owing: "0 \<le> cl_days_owed l" and old: "cl_validity_expires_at l = map_option text_of_day e"
    and run: "computeAppliedState l x d None (text_of_day t) = Inr (line_state b expiry owed, p)"
    and rec: "recorded_deltas (cl_validity_expires_at l) None d p = (Some (mv_validity_days_delta m), mv_days_owed_delta m)"
    and m: "mv_previous_validity_expires_at m = cl_validity_expires_at l"
    and l': "cl_validity_expires_at l' = expiry" "cl_days_owed l' = owed"
  shows "reversed_expiry m l' today' = cl_validity_expires_at l \<and> max 0 (owed - mv_days_owed_delta m) = cl_days_owed l"
proof (cases d "0 :: int" rule: linorder_cases)
  case equal
  then have "expiry = cl_validity_expires_at l" "owed = cl_days_owed l" "p = None"
    using run by (auto simp: computeAppliedState_def line_state_def no_update_def)
  then show ?thesis using rec l' owing by (simp add: recorded_deltas_def reversed_expiry_def)
next
  case less
  define q where "q = projectValidityExpiry (map_option text_of_day e) d (text_of_day t) (cl_days_owed l)"
  have q: "expiry = vp_expiry q" "owed = vp_daysOwed q" "p = Some q"
    using run less by (auto simp: computeAppliedState_def line_state_def no_update_def old Let_def q_def split: if_splits)
  have r: "mv_validity_days_delta m = d + vp_soldAhead q" "mv_days_owed_delta m = vp_soldAhead q"
    using rec less by (auto simp: recorded_deltas_def q)
  show ?thesis
    using sale_reversal [OF fit less owing, of m l' today', folded q_def] r m l' q old owing by simp
next
  case greater
  define q where "q = projectValidityExpiry (map_option text_of_day e) d (text_of_day t) (cl_days_owed l)"
  have q: "owed = vp_daysOwed q" "p = Some q" "\<not> vp_burned q"
    using run greater by (auto simp: computeAppliedState_def line_state_def no_update_def old Let_def q_def split: if_splits)
  have r: "mv_validity_days_delta m = d" "mv_days_owed_delta m = - vp_owedApplied q"
    using rec greater by (auto simp: recorded_deltas_def q)
  show ?thesis
    using charge_owed [OF greater owing q(3) q_def] r m owing greater q(1) by (simp add: reversed_expiry_def)
qed

lemma movement_read:
  assumes "movement_keys db" "mv_id m = movement_counter db + 1" "ld_movements db1 = ld_movements db @ [m]"
  shows "movement_by_id (mv_id m) db1 = Some m"
proof -
  have "distinct (map mv_id (ld_movements db1))" "m \<in> set (ld_movements db1)" using assms by (fastforce simp: movement_keys_def)+
  then show ?thesis by (simp add: movement_by_id_def find_by_key)
qed

text \<open>A movement that sets the expiry of a line with an expiry to a date read off the SIM.\<close>

lemma absolute_reversal:
  assumes dates: "date_day x" "date_day y" and owing: "0 \<le> cl_days_owed l" and old: "cl_validity_expires_at l = Some (text_of_day x)"
    and run: "computeAppliedState l c d (Some (text_of_day y)) today = Inr (line_state b expiry owed, p)"
    and rec: "recorded_deltas (cl_validity_expires_at l) (Some (text_of_day y)) d p = (Some (mv_validity_days_delta m), mv_days_owed_delta m)"
    and m: "mv_previous_validity_expires_at m = cl_validity_expires_at l"
    and l': "cl_validity_expires_at l' = expiry" "cl_days_owed l' = owed"
  shows "reversed_expiry m l' today' = cl_validity_expires_at l \<and> max 0 (owed - mv_days_owed_delta m) = cl_days_owed l"
proof -
  have state: "expiry = Some (text_of_day y)" "owed = cl_days_owed l"
    using run by (auto simp: computeAppliedState_def line_state_def no_update_def Let_def)
  have r: "mv_validity_days_delta m = y - x" "mv_days_owed_delta m = 0"
    using rec dates text_of_day_nonempty [of x] by (auto simp: recorded_deltas_def old daysBetween_text)
  have "addDaysToDateString (text_of_day y) (x - y) = text_of_day x"
    using dates by (simp add: addDays_text)
  then have "reversed_expiry m l' today' = Some (text_of_day x)"
    using m l' state r old by (auto simp: reversed_expiry_def Let_def)
  then show ?thesis using r state owing old by simp
qed

text \<open>The movements whose effect on the expiry a reversal can take back: days on a line whose dates fit, and a date typed on a
  line that had one.\<close>

definition restorable :: "ApplyCarrierLineMovementInput \<Rightarrow> string \<Rightarrow> carrier_line \<Rightarrow> bool" where
  "restorable d today l \<longleftrightarrow>
     (am_validityExpiresAt d = None \<and> (\<exists>e t. cl_validity_expires_at l = map_option text_of_day e \<and> today = text_of_day t
        \<and> dates_fit e (am_validityDaysDelta d) t))
     \<or> (\<exists>x y. am_validityExpiresAt d = Some (text_of_day y) \<and> cl_validity_expires_at l = Some (text_of_day x) \<and> date_day x \<and> date_day y)"

lemma restorable_days:
  "am_validityExpiresAt d = None \<Longrightarrow> cl_validity_expires_at l = map_option text_of_day e \<Longrightarrow> today = text_of_day t
    \<Longrightarrow> dates_fit e (am_validityDaysDelta d) t \<Longrightarrow> restorable d today l"
  unfolding restorable_def by blast

lemma find_not_None: "find P xs \<noteq> None \<longleftrightarrow> (\<exists>x \<in> set xs. P x)"
  by (auto simp: find_None_iff)

text \<open>The guard on charges looks for a reversed movement of days on the same line.\<close>

definition days_reversed :: "nat \<Rightarrow> line_db \<Rightarrow> bool" where
  "days_reversed i db \<longleftrightarrow> (\<exists>m \<in> set (ld_movements db). mv_carrier_line_id m = i \<and> mv_is_reversed m \<and> mv_validity_days_delta m \<noteq> 0)"

lemma newest_movement_guard:
  assumes keys: "movement_keys db" and m: "mv_id m = movement_counter db + 1" "\<not> mv_is_reversed m"
    and db1: "ld_movements db1 = ld_movements db @ [m]"
  shows "reversal_blocked m l db1 =
    (if 0 < mv_validity_days_delta m \<and> days_reversed (mv_carrier_line_id m) db then Some (OLDER_SALE_REVERSED (line_label l)) else None)"
proof -
  have "getLaterUnreversedValidityMovement (mv_carrier_line_id m) (mv_id m) db1 = None"
    using keys m by (fastforce simp: getLaterUnreversedValidityMovement_def find_None_iff db1 movement_keys_def)
  moreover have "getOlderReversedValidityMovement (mv_carrier_line_id m) (mv_id m) db1 \<noteq> None \<longleftrightarrow> days_reversed (mv_carrier_line_id m) db"
    unfolding getOlderReversedValidityMovement_def find_not_None days_reversed_def db1
    using keys m by (fastforce simp: movement_keys_def)
  ultimately show ?thesis by (simp add: reversal_blocked_def)
qed

lemma restorable_undone:
  assumes "restorable d today l" "0 \<le> cl_days_owed l"
    and "computeAppliedState l x (am_validityDaysDelta d) (am_validityExpiresAt d) today = Inr (line_state b expiry owed, p)"
    and "recorded_deltas (cl_validity_expires_at l) (am_validityExpiresAt d) (am_validityDaysDelta d) p = (Some (mv_validity_days_delta m), mv_days_owed_delta m)"
    and "mv_previous_validity_expires_at m = cl_validity_expires_at l"
    and "cl_validity_expires_at l' = expiry" "cl_days_owed l' = owed"
  shows "reversed_expiry m l' today' = cl_validity_expires_at l \<and> max 0 (owed - mv_days_owed_delta m) = cl_days_owed l"
  using assms(1) unfolding restorable_def
proof (elim disjE conjE exE)
  fix e t
  assume days: "am_validityExpiresAt d = None" "cl_validity_expires_at l = map_option text_of_day e" "today = text_of_day t"
    "dates_fit e (am_validityDaysDelta d) t"
  show ?thesis
    by (rule movement_reversal [OF days(4) assms(2) days(2) assms(3,4) [unfolded days(1,3)] assms(5-7)])
next
  fix x y
  assume typed: "am_validityExpiresAt d = Some (text_of_day y)" "cl_validity_expires_at l = Some (text_of_day x)" "date_day x" "date_day y"
  show ?thesis
    by (rule absolute_reversal [OF typed(3,4) assms(2) typed(2) assms(3,4) [unfolded typed(1)] assms(5-7)])
qed

lemma newest_movement_undone:
  assumes keys: "line_keys db" "movement_keys db" "primary_index_ok (ld_lines db)"
    and line: "line_by_id (am_carrierLineId d) db = Some l" "0 \<le> cl_days_owed l" "restorable d (the_new (am_today d) day) l"
    and run: "applyMovement day d db = Inr (m, db1)"
    and free: "mv_validity_days_delta m \<le> 0 \<or> \<not> days_reversed (am_carrierLineId d) db"
  shows "reverseMovement (mv_id m) today' db1 =
    Inr (Some (m\<lparr>mv_is_reversed := True\<rparr>),
         db\<lparr>ld_movements := ld_movements db @ [m\<lparr>mv_is_reversed := True\<rparr>], movement_counter := mv_id m\<rparr>)"
proof -
  let ?i = "am_carrierLineId d"
  obtain expiry owed p where c: "computeAppliedState l (am_creditsDelta d) (am_validityDaysDelta d) (am_validityExpiresAt d) (the_new (am_today d) day) =
       Inr (line_state (cl_credits l + am_creditsDelta d) expiry owed, p)"
    and rec: "recorded_deltas (cl_validity_expires_at l) (am_validityExpiresAt d) (am_validityDaysDelta d) p = (Some (mv_validity_days_delta m), mv_days_owed_delta m)"
    and db1: "db1 = (write_line ?i (set_columns (line_state (cl_credits l + am_creditsDelta d) expiry owed)) db)
       \<lparr>ld_movements := ld_movements db @ [m], movement_counter := mv_id m\<rparr>"
    and m: "mv_id m = movement_counter db + 1" "\<not> mv_is_reversed m" "mv_carrier_line_id m = ?i" "mv_credits_delta m = am_creditsDelta d"
      "mv_previous_validity_expires_at m = cl_validity_expires_at l"
    using applyMovement_parts [OF run line(1)] by blast
  let ?f = "set_columns (line_state (cl_credits l + am_creditsDelta d) expiry owed)"
  have read: "line_by_id ?i db1 = Some (?f l)"
    using write_line_read [OF line_state_id keys(1) line(1)] by (simp add: db1 line_by_id_def)
  have fields: "cl_validity_expires_at (?f l) = expiry" "cl_days_owed (?f l) = owed" "cl_credits (?f l) = cl_credits l + am_creditsDelta d"
    by (simp_all add: set_columns_line_state)
  note undone = restorable_undone [OF line(3,2) c rec m(5) fields(1,2), of today']
  let ?g = "set_columns (line_state (cl_credits l) (cl_validity_expires_at l) (cl_days_owed l))"
  have "updateLine ?i (line_state (cl_credits l) (cl_validity_expires_at l) (cl_days_owed l)) db1 = Inr (write_line ?i ?g db1)"
    using write_line_primary [OF line_state_keeps keys(3)] by (intro updateLine_succeeds) (simp_all add: db1 line_state_def no_update_def)
  moreover have open_guard: "\<not> (0 < mv_validity_days_delta m \<and> days_reversed ?i db)" using free by linarith
  ultimately have run2: "reverseMovement (mv_id m) today' db1 = Inr (Some (m\<lparr>mv_is_reversed := True\<rparr>), markReversed (mv_id m) (write_line ?i ?g db1))"
    using movement_read [OF keys(2) m(1), of db1] read m undone open_guard newest_movement_guard [OF keys(2) m(1,2), of db1 "?f l"]
    by (simp add: reverseMovement_def fields db1)
  have "write_line ?i (?g \<circ> ?f) db = write_line ?i id db"
    by (rule write_line_cong [OF keys(1) line(1)]) (simp add: set_columns_line_state)
  moreover have "write_line ?i ?g (write_line ?i ?f db) = write_line ?i (?g \<circ> ?f) db"
    by (simp add: write_line_def set_columns_line_state comp_def cong: if_cong)
  ultimately have lines: "write_line ?i ?g (write_line ?i ?f db) = db" by (simp add: write_line_def cong: if_cong)
  have "mv_id x \<noteq> mv_id m" if "x \<in> set (ld_movements db)" for x using keys(2) m(1) that by (fastforce simp: movement_keys_def)
  then have "map (\<lambda>x. if mv_id x = mv_id m \<and> \<not> mv_is_reversed x then x\<lparr>mv_is_reversed := True\<rparr> else x) (ld_movements db) = ld_movements db"
    by (intro map_idI) simp
  then have "markReversed (mv_id m) (write_line ?i ?g db1) = (write_line ?i ?g (write_line ?i ?f db))
      \<lparr>ld_movements := ld_movements db @ [m\<lparr>mv_is_reversed := True\<rparr>], movement_counter := mv_id m\<rparr>"
    using m(2) by (simp add: markReversed_def db1 write_line_def)
  then show ?thesis using run2 by (simp only: lines)
qed

section \<open>Properties\<close>

text \<open>C5. Whatever the operations on the SIM lines do from an empty table, with any arguments, each carrier has at most one primary
  line, and the drawer of a carrier differs from the credits of its active lines by exactly the drift of the steps: what a
  movement's caller has not posted, what an edit of an archived line or of a line's carrier or active flag posts beside the sum, and changes of half
  a cent or less. Creating, toggling and archiving lines, editing an active line in place and moving
  credits together with the post of the same amount add nothing on whole cents.\<close>

theorem reachable_carrier_drawers:
  assumes "booked_step\<^sup>*\<^sup>* (\<lambda>_. 0, db0) (f, db)" "ld_lines db0 = []" "\<forall>c. ld_drawers db0 (CARRIER_DRAWER_NAMES c, ''USD'') = 0"
  shows "(\<forall>c. ld_drawers db (CARRIER_DRAWER_NAMES c, ''USD'') = getCarrierCreditsSum c db + f c)
    \<and> distinct (map cl_carrier (filter cl_is_primary (ld_lines db)))
    \<and> (\<forall>d c. in_cents (the_new (ccl_credits d) 0) \<longrightarrow> create_drift d c = 0)
    \<and> (\<forall>i l c. line_by_id i db = Some l \<and> in_cents (cl_credits l) \<longrightarrow> toggle_drift i db c = 0 \<and> archive_drift i db c = 0)
    \<and> (\<forall>l l' c. cl_is_active l \<and> cl_is_active l' \<and> cl_carrier l' = cl_carrier l \<and> in_cents (cl_credits l' - cl_credits l)
        \<longrightarrow> edit_drift l l' c = 0)
    \<and> (\<forall>i l x c. line_by_id i db = Some l \<and> cl_is_active l \<longrightarrow> move_drift i x db c + (if c = cl_carrier l then x else 0) = 0)"
proof -
  have "lines_booked (\<lambda>_. 0) db0"
    using assms(2,3) by (simp add: lines_booked_def line_keys_def primary_index_ok_def getCarrierCreditsSum_def)
  then have "lines_booked f db" using carrier_books.run_keeps [OF assms(1)] by simp
  then show ?thesis
    by (simp add: lines_booked_def primary_index_ok_def create_drift_def toggle_drift_def archive_drift_def short_cents
        edit_in_place_drift move_and_post_drift)
qed

text \<open>C8. Reversing the newest movement puts the table of lines back exactly as it was, on whichever
  day it is done, and leaves the movement in the log, marked as reversed: a movement of credits, of days, or of both, and a date
  typed as the new expiry of a line that had one. (The other case, a date typed on a line without one, records no days and its
  expiry stays; the source says so at \<open>validityExpiresAt\<close>.) A movement that takes days away or leaves them can always be
  reversed so; a charge of days, unless a movement of days of the line was reversed before.\<close>

theorem apply_then_reverse:
  assumes keys: "line_keys db" "movement_keys db" "primary_index_ok (ld_lines db)"
    and line: "line_by_id (am_carrierLineId d) db = Some l" "0 \<le> cl_days_owed l" "restorable d (the_new (am_today d) day) l"
    and run: "applyMovement day d db = Inr (m, db1)"
    and free: "mv_validity_days_delta m \<le> 0 \<or> \<not> days_reversed (am_carrierLineId d) db"
  shows "reverseMovement (mv_id m) today' db1 =
    Inr (Some (m\<lparr>mv_is_reversed := True\<rparr>),
         db\<lparr>ld_movements := ld_movements db @ [m\<lparr>mv_is_reversed := True\<rparr>], movement_counter := mv_id m\<rparr>)"
  by (rule newest_movement_undone [OF assms])

lemma applied_line: "applyMovement day d db = Inr (m, db1) \<Longrightarrow> \<exists>l. line_by_id (am_carrierLineId d) db = Some l"
  by (auto simp: applyMovement_def split: if_splits option.splits)

lemma charge_recorded:
  assumes "applyMovement day d db = Inr (m, db1)" "0 < am_validityDaysDelta d"
  shows "mv_validity_days_delta m = am_validityDaysDelta d"
proof -
  have none: "am_validityExpiresAt d = None" using assms by (auto simp: applyMovement_def split: if_splits)
  obtain l where l: "line_by_id (am_carrierLineId d) db = Some l" using applied_line [OF assms(1)] by blast
  show ?thesis
    by (rule applyMovement_parts [OF assms(1) l])
      (use assms(2) none in \<open>auto simp: computeAppliedState_def recorded_deltas_def Let_def split: if_splits\<close>)
qed

text \<open>A movement adds its row to the log.\<close>

lemma applyMovement_log:
  assumes "applyMovement day d db = Inr (m, db1)"
  shows "map cl_id (ld_lines db1) = map cl_id (ld_lines db)" "line_counter db1 = line_counter db"
    "ld_movements db1 = ld_movements db @ [m]" "mv_id m = movement_counter db + 1" "movement_counter db1 = mv_id m"
    "\<not> mv_is_reversed m" "mv_carrier_line_id m = am_carrierLineId d"
proof -
  obtain l where l: "line_by_id (am_carrierLineId d) db = Some l" using applied_line [OF assms] by blast
  obtain expiry owed where db1: "db1 = (write_line (am_carrierLineId d) (set_columns (line_state (cl_credits l + am_creditsDelta d) expiry owed)) db)
       \<lparr>ld_movements := ld_movements db @ [m], movement_counter := mv_id m\<rparr>"
    and m: "mv_id m = movement_counter db + 1" "\<not> mv_is_reversed m" "mv_carrier_line_id m = am_carrierLineId d"
    by (rule applyMovement_parts [OF assms l]) blast
  show "mv_id m = movement_counter db + 1" "\<not> mv_is_reversed m" "mv_carrier_line_id m = am_carrierLineId d" by (fact m)+
  show "ld_movements db1 = ld_movements db @ [m]" "movement_counter db1 = mv_id m" "line_counter db1 = line_counter db" by (simp_all add: db1)
  show "map cl_id (ld_lines db1) = map cl_id (ld_lines db)"
    using write_line_ids [OF line_state_id] by (simp add: db1)
qed

section \<open>The log only grows\<close>

lemma movement_keys_ids: "movement_keys db \<longleftrightarrow> distinct (map mv_id (ld_movements db)) \<and>
    (\<forall>i \<in> set (map mv_id (ld_movements db)). i \<le> movement_counter db)"
  by (simp add: movement_keys_def)

lemma line_known: "line_by_id i db \<noteq> None \<longleftrightarrow> i \<in> set (map cl_id (ld_lines db))"
  unfolding line_by_id_def find_not_None by auto

text \<open>Lines and movements keep their ids; a movement keeps its row, or the step is its reversal.\<close>

definition log_grows :: "line_db \<Rightarrow> line_db \<Rightarrow> bool" where
  "log_grows db db' \<longleftrightarrow> set (map cl_id (ld_lines db)) \<subseteq> set (map cl_id (ld_lines db')) \<and>
     (line_keys db \<longrightarrow> line_keys db') \<and> (movement_keys db \<longrightarrow> movement_keys db') \<and>
     (\<forall>m \<in> set (ld_movements db). m \<in> set (ld_movements db')
        \<or> \<not> mv_is_reversed m \<and> (\<exists>today r. reverseMovement (mv_id m) today db = Inr (r, db')))"

lemma log_sameI:
  assumes "map cl_id (ld_lines db') = map cl_id (ld_lines db)" "line_counter db' = line_counter db"
    "ld_movements db' = ld_movements db" "movement_counter db' = movement_counter db"
  shows "log_grows db db'"
  using assms unfolding log_grows_def line_keys_ids movement_keys_def by auto

lemma log_addI:
  assumes "map cl_id (ld_lines db') = map cl_id (ld_lines db)" "line_counter db' = line_counter db"
    "ld_movements db' = ld_movements db @ [m]" "movement_counter db' = mv_id m" "mv_id m = movement_counter db + 1"
  shows "log_grows db db'"
proof -
  have "movement_keys db \<Longrightarrow> movement_keys db'" using assms(3-5) by (fastforce simp: movement_keys_def)
  with assms show ?thesis unfolding log_grows_def line_keys_ids by auto
qed

lemma update_log:
  assumes "updateLine i d db = Inr db1"
  shows "map cl_id (ld_lines db1) = map cl_id (ld_lines db)" "line_counter db1 = line_counter db"
    "ld_movements db1 = ld_movements db" "movement_counter db1 = movement_counter db"
  unfolding updateLine_writes [OF assms] by (simp_all only: write_line_ids [OF set_columns_id] write_line_simps(2-5))

lemma sync_grows: "updateLineAndSyncDrawer i d u db = Inr db' \<Longrightarrow> log_grows db db'"
proof -
  assume run: "updateLineAndSyncDrawer i d u db = Inr db'"
  show ?thesis
  proof (cases "line_by_id i db")
    case None
    with run show ?thesis by (intro log_sameI) (simp_all add: updateLineAndSyncDrawer_def)
  next
    case (Some l)
    then obtain db1 where u: "updateLine i d db = Inr db1" using run by (auto simp: updateLineAndSyncDrawer_def split: sum.splits)
    have "same_lines db1 db'"
      using run Some u post_adjustment(1) by (auto simp: updateLineAndSyncDrawer_def Let_def same_lines_def split: if_splits)
    then show ?thesis using update_log [OF u] by (intro log_sameI) (simp_all add: same_lines_def)
  qed
qed

lemma balance_grows: "updateBalance i c e u db = Inr db' \<Longrightarrow> log_grows db db'"
proof -
  assume run: "updateBalance i c e u db = Inr db'"
  show ?thesis
  proof (cases "line_by_id i db")
    case None
    with run show ?thesis by (intro log_sameI) (simp_all add: updateBalance_def)
  next
    case (Some l)
    obtain db1 db2 where u: "updateLine i (no_update\<lparr>ucl_credits := c, ucl_validity_expires_at := e\<rparr>) db = Inr db1"
      and mv: "db2 = db1 \<or> (\<exists>row m. createMovement row db1 = Inr (m, db2))" and post: "same_lines db2 db'"
      by (rule updateBalance_cases [OF run Some]) blast
    show ?thesis
    proof (cases "db2 = db1")
      case True
      with update_log [OF u] post show ?thesis by (intro log_sameI) (simp_all add: same_lines_def)
    next
      case False
      then obtain row m where "createMovement row db1 = Inr (m, db2)" using mv by blast
      note row = createMovement_row [OF this]
      show ?thesis
        using update_log [OF u] post row(1-3) row(10) by (intro log_addI [of _ _ m]) (simp_all add: same_lines_def)
    qed
  qed
qed

lemma toggle_grows: "toggleActive i u db = Inr db' \<Longrightarrow> log_grows db db'"
proof -
  assume run: "toggleActive i u db = Inr db'"
  let ?f = "\<lambda>l. l\<lparr>cl_is_active := \<not> cl_is_active l, cl_is_primary := (if cl_is_active l then False else cl_is_primary l)\<rparr>"
  have "keeps_id ?f" by (simp add: keeps_id_def)
  note ids = write_line_ids [OF this, of i db]
  have "db' = db \<or> same_lines (write_line i ?f db) db'"
    using run post_adjustment(1) by (auto simp: toggleActive_def Let_def same_lines_def split: option.splits if_splits)
  then show ?thesis using ids by (intro log_sameI) (auto simp: same_lines_def)
qed

lemma archive_grows: "archive i u db = Inr db' \<Longrightarrow> log_grows db db'"
proof -
  assume run: "archive i u db = Inr db'"
  let ?f = "\<lambda>l. l\<lparr>cl_is_active := False, cl_is_primary := False\<rparr>"
  have "keeps_id ?f" by (simp add: keeps_id_def)
  note ids = write_line_ids [OF this, of i db]
  have "db' = db \<or> same_lines (write_line i ?f db) db'"
    using run post_adjustment(1) by (auto simp: archive_def Let_def same_lines_def split: option.splits if_splits)
  then show ?thesis using ids by (intro log_sameI) (auto simp: same_lines_def)
qed

lemma primary_grows: "setPrimary i db = Inr db' \<Longrightarrow> log_grows db db'"
proof -
  assume run: "setPrimary i db = Inr db'"
  show ?thesis
  proof (cases "line_by_id i db")
    case (Some l)
    let ?g = "\<lambda>x. if cl_carrier x = cl_carrier l \<and> cl_is_primary x then x\<lparr>cl_is_primary := False\<rparr> else x"
    let ?f = "\<lambda>x. x\<lparr>cl_is_primary := True\<rparr>"
    have db': "db' = write_line i ?f (db\<lparr>ld_lines := map ?g (ld_lines db)\<rparr>)"
      using run Some by (simp add: setPrimary_def Let_def split: if_splits)
    have "keeps_id ?f" by (simp add: keeps_id_def)
    moreover have "map cl_id (map ?g ls) = map cl_id ls" for ls by simp
    ultimately have "map cl_id (ld_lines db') = map cl_id (ld_lines db)" using write_line_ids unfolding db' by simp
    then show ?thesis by (rule log_sameI) (simp_all add: db')
  qed (use run in \<open>auto simp: setPrimary_def intro: log_sameI\<close>)
qed

lemma create_grows: "createLine d u db = Inr db' \<Longrightarrow> log_grows db db'"
proof -
  assume run: "createLine d u db = Inr db'"
  note c = createLine_cases(1) [OF run]
  have "line_keys db \<Longrightarrow> line_keys db'" using c by (fastforce simp: same_lines_def add_line_def line_keys_def new_line_def)
  with c show ?thesis by (auto simp: log_grows_def same_lines_def add_line_def movement_keys_def)
qed

lemma reverse_grows: "reverseMovement i today db = Inr (r, db') \<Longrightarrow> log_grows db db'"
proof -
  assume run: "reverseMovement i today db = Inr (r, db')"
  show ?thesis
  proof (cases "\<exists>m. movement_by_id i db = Some m \<and> \<not> mv_is_reversed m")
    case False
    with run have "db' = db" by (auto simp: reverseMovement_def split: option.splits if_splits)
    then show ?thesis by (intro log_sameI) simp_all
  next
    case True
    then obtain m where m: "movement_by_id i db = Some m" "\<not> mv_is_reversed m" by blast
    obtain b e o' where db': "db' = markReversed i (write_line (mv_carrier_line_id m) (set_columns (line_state b e o')) db)"
      by (rule reverseMovement_cases [OF run m]) blast
    have lines: "map cl_id (ld_lines db') = map cl_id (ld_lines db)" "line_counter db' = line_counter db"
      using write_line_ids [OF line_state_id] by (simp_all add: db' markReversed_frame)
    have log: "ld_movements db' = map (\<lambda>m. if mv_id m = i \<and> \<not> mv_is_reversed m then m\<lparr>mv_is_reversed := True\<rparr> else m) (ld_movements db)"
      "movement_counter db' = movement_counter db" by (simp_all add: db' markReversed_def)
    have "map mv_id (ld_movements db') = map mv_id (ld_movements db)" unfolding log by simp
    then have "movement_keys db \<Longrightarrow> movement_keys db'" unfolding movement_keys_ids log(2) by simp
    moreover have "x \<in> set (ld_movements db') \<or> \<not> mv_is_reversed x \<and> (\<exists>today r. reverseMovement (mv_id x) today db = Inr (r, db'))"
      if "x \<in> set (ld_movements db)" for x
      using that run unfolding log(1) by (cases "mv_id x = i \<and> \<not> mv_is_reversed x") auto
    ultimately show ?thesis using lines unfolding log_grows_def line_keys_ids by simp
  qed
qed

lemma step_grows: "line_step g db db' \<Longrightarrow> log_grows db db'"
proof (induction rule: line_step.induct)
  case (step_move day d db m db')
  show ?case by (rule log_addI [OF applyMovement_log(1-3,5,4) [OF step_move]])
next
  case (step_post k x db db')
  then show ?case by (intro log_sameI) (auto simp: carrier_drawer_delta)
next
  case step_owe
  show ?case by (rule log_sameI) (simp_all add: createDelivery_def Let_def)
next
  case step_sent
  show ?case by (rule log_sameI) (simp_all add: markSent_def split: option.splits)
qed (auto intro: create_grows sync_grows balance_grows toggle_grows archive_grows primary_grows reverse_grows)

section \<open>Charges that can never be reversed\<close>

definition charge_stuck :: "nat \<Rightarrow> line_db \<Rightarrow> bool" where
  "charge_stuck k db \<longleftrightarrow> line_keys db \<and> movement_keys db \<and>
     (\<exists>m \<in> set (ld_movements db). mv_id m = k \<and> \<not> mv_is_reversed m \<and> 0 < mv_validity_days_delta m
        \<and> mv_carrier_line_id m \<in> set (map cl_id (ld_lines db))
        \<and> (\<exists>x \<in> set (ld_movements db). mv_carrier_line_id x = mv_carrier_line_id m \<and> mv_id x < k \<and> mv_is_reversed x
             \<and> mv_validity_days_delta x \<noteq> 0))"

lemma stuck_refused:
  assumes "charge_stuck k db"
  shows "\<exists>s. reverseMovement k today db = Inl (OLDER_SALE_REVERSED s) \<or> reverseMovement k today db = Inl (LATER_RECHARGE_FIRST s)"
proof -
  obtain m x where keys: "movement_keys db"
    and m: "m \<in> set (ld_movements db)" "mv_id m = k" "\<not> mv_is_reversed m" "0 < mv_validity_days_delta m"
      "mv_carrier_line_id m \<in> set (map cl_id (ld_lines db))"
    and x: "x \<in> set (ld_movements db)" "mv_carrier_line_id x = mv_carrier_line_id m" "mv_id x < k" "mv_is_reversed x" "mv_validity_days_delta x \<noteq> 0"
    using assms unfolding charge_stuck_def by blast
  have read: "movement_by_id k db = Some m" using movement_by_id_in [OF keys m(1)] m(2) by simp
  obtain l where l: "line_by_id (mv_carrier_line_id m) db = Some l" using m(5) unfolding line_known [symmetric] by blast
  have "getOlderReversedValidityMovement (mv_carrier_line_id m) (mv_id m) db \<noteq> None"
    unfolding getOlderReversedValidityMovement_def find_not_None using x m(2) by auto
  then show ?thesis using read l m(3,4) by (simp add: reverseMovement_def reversal_blocked_def)
qed

lemma stuck_stays:
  assumes grows: "log_grows db db'" and stuck: "charge_stuck k db"
  shows "charge_stuck k db'"
proof -
  obtain m x where keys: "line_keys db" "movement_keys db"
    and m: "m \<in> set (ld_movements db)" "mv_id m = k" "\<not> mv_is_reversed m" "0 < mv_validity_days_delta m"
      "mv_carrier_line_id m \<in> set (map cl_id (ld_lines db))"
    and x: "x \<in> set (ld_movements db)" "mv_carrier_line_id x = mv_carrier_line_id m" "mv_id x < k" "mv_is_reversed x" "mv_validity_days_delta x \<noteq> 0"
    using stuck unfolding charge_stuck_def by blast
  have "reverseMovement k today db \<noteq> Inr (r, db')" for today r using stuck_refused [OF stuck, of today] by auto
  then have "m \<in> set (ld_movements db')" using grows m(1,2) unfolding log_grows_def by blast
  moreover have "x \<in> set (ld_movements db')" using grows x(1,4) unfolding log_grows_def by blast
  moreover have "line_keys db'" "movement_keys db'" "mv_carrier_line_id m \<in> set (map cl_id (ld_lines db'))"
    using grows keys m(5) unfolding log_grows_def by blast+
  ultimately show ?thesis unfolding charge_stuck_def using m(2-4) x(2-5) by blast
qed

definition days_undone :: "nat \<Rightarrow> line_db \<Rightarrow> bool" where
  "days_undone i db \<longleftrightarrow> line_keys db \<and> movement_keys db \<and> days_reversed i db"

lemma undone_stays: "log_grows db db' \<Longrightarrow> days_undone i db \<Longrightarrow> days_undone i db'"
  unfolding log_grows_def days_undone_def days_reversed_def by blast

interpretation stuck: step_invariant booked_step "\<lambda>(f, db). charge_stuck k db" for k
  by unfold_locales (auto simp: booked_step_def intro: stuck_stays [OF step_grows])

interpretation undone: step_invariant booked_step "\<lambda>(f, db). days_undone i db" for i
  by unfold_locales (auto simp: booked_step_def intro: undone_stays [OF step_grows])

text \<open>C37. Once a movement of days of a line was reversed, even a charge that was the newest movement then, no later charge of
  that line can ever be reversed: whatever operations come between that reversal and the charge, and between the charge and the
  attempt, on any day, the guard refuses. It takes the reversed movement for a sale of days that was undone out of order.\<close>

theorem charge_after_reversed_charge_stuck:
  assumes past: "line_keys db0" "movement_keys db0" "days_reversed (am_carrierLineId d) db0"
    and before: "booked_step\<^sup>*\<^sup>* (f0, db0) (f, db)"
    and charge: "applyMovement day d db = Inr (m, db1)" "0 < am_validityDaysDelta d"
    and after: "booked_step\<^sup>*\<^sup>* (g, db1) (g', db2)"
  shows "\<exists>s. reverseMovement (mv_id m) today db2 = Inl (OLDER_SALE_REVERSED s)
    \<or> reverseMovement (mv_id m) today db2 = Inl (LATER_RECHARGE_FIRST s)"
proof -
  have "days_undone (am_carrierLineId d) db0" using past by (simp add: days_undone_def)
  then have undone: "days_undone (am_carrierLineId d) db" using undone.run_keeps [OF before] by simp
  note log = applyMovement_log [OF charge(1)]
  have keys1: "line_keys db1" "movement_keys db1"
    using log_addI [OF log(1-3,5,4)] undone by (auto simp: log_grows_def days_undone_def)
  obtain x where x: "x \<in> set (ld_movements db)" "mv_carrier_line_id x = am_carrierLineId d" "mv_is_reversed x" "mv_validity_days_delta x \<noteq> 0"
    using undone unfolding days_undone_def days_reversed_def by blast
  have older: "mv_id x < mv_id m" using undone x(1) log(4) by (fastforce simp: days_undone_def movement_keys_def)
  have known: "mv_carrier_line_id m \<in> set (map cl_id (ld_lines db1))"
    using applied_line [OF charge(1)] line_known [of "am_carrierLineId d" db] log(1,7) by simp
  have "m \<in> set (ld_movements db1)" "x \<in> set (ld_movements db1)" using log(3) x(1) by simp_all
  then have "charge_stuck (mv_id m) db1"
    unfolding charge_stuck_def using keys1 x older known log(6,7) charge_recorded [OF charge] charge(2) by metis
  then have "charge_stuck (mv_id m) db2" using stuck.run_keeps [OF after] by simp
  then show ?thesis by (rule stuck_refused)
qed

section \<open>Where the drawer and the index are left behind\<close>

text \<open>C39. Editing the credits of an archived line moves the drawer of its carrier by the difference, although an archived line does
  not count in the sum that the drawer must equal.\<close>

theorem archived_edit_unbalances:
  assumes "line_keys db" "primary_index_ok (ld_lines db)" "line_by_id i db = Some l" "\<not> cl_is_active l" "\<bar>x - cl_credits l\<bar> > 1 / 200"
  shows "\<exists>db'. updateLineAndSyncDrawer i (no_update\<lparr>ucl_credits := Some x\<rparr>) (Some u) db = Inr db' \<and>
    getCarrierCreditsSum (cl_carrier l) db' = getCarrierCreditsSum (cl_carrier l) db \<and>
    ld_drawers db' (CARRIER_DRAWER_NAMES (cl_carrier l), ''USD'') =
      ld_drawers db (CARRIER_DRAWER_NAMES (cl_carrier l), ''USD'') + (x - cl_credits l)"
proof -
  let ?d = "no_update\<lparr>ucl_credits := Some x\<rparr>" and ?c = "cl_carrier l"
  have none: "ucl_carrier ?d = None" by (simp add: no_update_def)
  let ?db1 = "write_line i (set_columns ?d) db"
  have u: "updateLine i ?d db = Inr ?db1" by (rule updateLine_succeeds [OF none assms(2)])
  have row: "set_columns ?d l = l\<lparr>cl_credits := x\<rparr>" by (simp add: set_columns_def no_update_def the_new_def)
  have read: "line_by_id i ?db1 = Some (l\<lparr>cl_credits := x\<rparr>)" using write_line_read [OF set_columns_id assms(1,3)] row by simp
  have sum: "getCarrierCreditsSum ?c ?db1 = getCarrierCreditsSum ?c db"
    using write_line_sum [OF assms(1,3), of ?c "set_columns ?d"] assms(4) by (simp add: row active_credit_def)
  obtain db' where post: "postCarrierDrawerAdjustment ?c (x - cl_credits l) (Some u) (''Carrier line '' @ cl_phone_number l @ '' credits edited'') i ''edited'' ?db1 = Inr db'"
    using post_succeeds by blast
  then have "updateLineAndSyncDrawer i ?d (Some u) db = Inr db'"
    using assms(3,5) u read by (simp add: updateLineAndSyncDrawer_def LINE_USAGE_MIN_DELTA_USD_def Let_def)
  moreover have "getCarrierCreditsSum ?c db' = getCarrierCreditsSum ?c db" using same_lines_reads(2) [OF post_adjustment(1) [OF post]] sum by simp
  moreover have "ld_drawers db' (CARRIER_DRAWER_NAMES ?c, ''USD'') = ld_drawers db (CARRIER_DRAWER_NAMES ?c, ''USD'') + (x - cl_credits l)"
    using post_adjustment(2) [OF post, of ?c] assms(5) by (simp add: LINE_USAGE_MIN_DELTA_USD_def)
  ultimately show ?thesis by blast
qed

lemma primary_index_count:
  "primary_index_ok ls \<longleftrightarrow> (\<forall>c. length (filter (\<lambda>l. cl_carrier l = c \<and> cl_is_primary l) ls) \<le> 1)"
proof (induction ls)
  case (Cons x ls)
  have split: "primary_index_ok (x # ls) \<longleftrightarrow>
      primary_index_ok ls \<and> (cl_is_primary x \<longrightarrow> filter (\<lambda>l. cl_carrier l = cl_carrier x \<and> cl_is_primary l) ls = [])"
    by (auto simp: primary_index_ok_def filter_empty_conv image_iff)
  show ?case
  proof
    assume "primary_index_ok (x # ls)"
    then show "\<forall>c. length (filter (\<lambda>l. cl_carrier l = c \<and> cl_is_primary l) (x # ls)) \<le> 1" using Cons.IH split by auto
  next
    assume all: "\<forall>c. length (filter (\<lambda>l. cl_carrier l = c \<and> cl_is_primary l) (x # ls)) \<le> 1"
    then have "length (filter (\<lambda>l. cl_carrier l = c \<and> cl_is_primary l) ls) \<le> 1" for c
      using order_trans [OF _ spec [OF all, of c]] by simp
    moreover have "filter (\<lambda>l. cl_carrier l = cl_carrier x \<and> cl_is_primary l) ls = []" if "cl_is_primary x"
      using spec [OF all, of "cl_carrier x"] that by simp
    ultimately show "primary_index_ok (x # ls)" using Cons.IH split by blast
  qed
qed (simp add: primary_index_ok_def)

lemma setPrimary_total: "line_keys db \<Longrightarrow> primary_index_ok (ld_lines db) \<Longrightarrow> line_by_id i db = Some l \<Longrightarrow>
    setPrimary i db = Inr (db\<lparr>ld_lines := map (\<lambda>x. if cl_id x = i then x\<lparr>cl_is_primary := True\<rparr>
      else if cl_carrier x = cl_carrier l \<and> cl_is_primary x then x\<lparr>cl_is_primary := False\<rparr> else x) (ld_lines db)\<rparr>)"
proof -
  assume keys: "line_keys db" and index: "primary_index_ok (ld_lines db)" and l: "line_by_id i db = Some l"
  let ?h = "\<lambda>x. if cl_id x = i then x\<lparr>cl_is_primary := True\<rparr>
      else if cl_carrier x = cl_carrier l \<and> cl_is_primary x then x\<lparr>cl_is_primary := False\<rparr> else x"
  have only: "cl_carrier x = cl_carrier l" if "x \<in> set (ld_lines db)" "cl_id x = i" for x
    using line_by_id_in [OF keys that(1)] that(2) l by simp
  have "length (filter (\<lambda>x. cl_carrier x = c \<and> cl_is_primary x) (map ?h (ld_lines db))) \<le> 1" for c
  proof (cases "c = cl_carrier l")
    case True
    have "length (filter (\<lambda>x. cl_carrier x = c \<and> cl_is_primary x) (map ?h ls)) \<le> length (filter (\<lambda>x. cl_id x = i) ls)" for ls
      unfolding filter_map length_map True by (rule length_filter_mono) (auto split: if_splits)
    moreover have "length (filter (\<lambda>x. cl_id x = i) ls) \<le> 1" if "distinct (map cl_id ls)" for ls
      using that by (induction ls) (auto simp: filter_empty_conv image_iff)
    ultimately show ?thesis using keys le_trans by (fastforce simp: line_keys_def)
  next
    case False
    have "filter (\<lambda>x. cl_carrier (?h x) = c \<and> cl_is_primary (?h x)) (ld_lines db) = filter (\<lambda>x. cl_carrier x = c \<and> cl_is_primary x) (ld_lines db)"
      using False only by (intro filter_cong) auto
    then have "length (filter (\<lambda>x. cl_carrier x = c \<and> cl_is_primary x) (map ?h (ld_lines db))) =
        length (filter (\<lambda>x. cl_carrier x = c \<and> cl_is_primary x) (ld_lines db))" by (simp only: filter_map length_map comp_def)
    then show ?thesis using index unfolding primary_index_count by simp
  qed
  then have ok: "primary_index_ok (map ?h (ld_lines db))" unfolding primary_index_count by blast
  let ?g = "\<lambda>x. if cl_carrier x = cl_carrier l \<and> cl_is_primary x then x\<lparr>cl_is_primary := False\<rparr> else x"
  have two: "write_line i (\<lambda>x. x\<lparr>cl_is_primary := True\<rparr>) (db\<lparr>ld_lines := map ?g (ld_lines db)\<rparr>) = db\<lparr>ld_lines := map ?h (ld_lines db)\<rparr>"
    by (auto simp: write_line_def)
  show ?thesis unfolding setPrimary_def l option.case Let_def two using ok by simp
qed

text \<open>C38. An archived line of a carrier without active lines can be made primary, although only an active line is supposed to be;
  from then on no new line of that carrier can be created, because the new line is to be primary as well and the unique index
  refuses it.\<close>

theorem archived_primary_blocks_create:
  assumes "line_keys db" "primary_index_ok (ld_lines db)" "line_by_id i db = Some l"
    "\<not> list_ex (\<lambda>x. cl_carrier x = cl_carrier l \<and> cl_is_active x) (ld_lines db)"
  shows "\<exists>db1. setPrimary i db = Inr db1 \<and> (\<forall>d u. ccl_carrier d = cl_carrier l \<longrightarrow> createLine d u db1 = Inl PRIMARY_TAKEN)"
proof (intro exI conjI allI impI)
  let ?h = "\<lambda>x. if cl_id x = i then x\<lparr>cl_is_primary := True\<rparr>
      else if cl_carrier x = cl_carrier l \<and> cl_is_primary x then x\<lparr>cl_is_primary := False\<rparr> else x"
  let ?db1 = "db\<lparr>ld_lines := map ?h (ld_lines db)\<rparr>"
  show "setPrimary i db = Inr ?db1" by (rule setPrimary_total [OF assms(1-3)])
  fix d :: CreateCarrierLineData and u assume d: "ccl_carrier d = cl_carrier l"
  have "l \<in> set (ld_lines db)" "cl_id l = i" using line_by_idD [OF assms(3)] by auto
  then have "l\<lparr>cl_is_primary := True\<rparr> \<in> set (filter cl_is_primary (ld_lines ?db1))" by (auto intro!: image_eqI [of _ _ l])
  then have "cl_carrier (l\<lparr>cl_is_primary := True\<rparr>) \<in> set (map cl_carrier (filter cl_is_primary (ld_lines ?db1)))"
    unfolding set_map by (rule imageI)
  moreover have "cl_is_primary (new_line d ?db1)" "cl_carrier (new_line d ?db1) = cl_carrier l"
    using assms(4) d by (auto simp: new_line_def list_ex_iff)
  ultimately have "\<not> primary_index_ok (ld_lines (add_line d ?db1))" by (simp add: primary_index_ok_def add_line_def)
  then show "createLine d u ?db1 = Inl PRIMARY_TAKEN" by (simp add: createLine_eq)
qed

section \<open>Examples\<close>

text \<open>A shop with one mtc line of 500 credits that expires on 2026-09-30.\<close>

definition sample_line :: carrier_line where
  "sample_line = \<lparr>cl_id = 1, cl_carrier = mtc, cl_phone_number = ''03123456'', cl_label = None, cl_credits = 500,
     cl_validity_expires_at = Some ''2026-09-30'', cl_days_owed = 0, cl_notes = None, cl_is_active = True, cl_is_primary = True\<rparr>"

definition no_lines :: line_db where
  "no_lines = \<lparr>ld_lines = [], line_counter = 0, ld_movements = [], movement_counter = 0, ld_txns = [], line_txn_counter = 0,
     ld_payments = [], ld_drawers = (\<lambda>_. 0), ld_deliveries = [], delivery_counter = 0\<rparr>"

definition sample_lines :: line_db where
  "sample_lines = no_lines\<lparr>ld_lines := [sample_line], line_counter := 1\<rparr>"

definition sample_move :: "amount \<Rightarrow> int \<Rightarrow> ApplyCarrierLineMovementInput" where
  "sample_move x d = \<lparr>am_carrierLineId = 1, am_creditsDelta = x, am_validityDaysDelta = d, am_validityExpiresAt = None,
     am_reason = ''DAYS'', am_transactionId = Some 7, am_today = Some ''2026-08-29''\<rparr>"

lemmas sample_defs = sample_lines_def sample_line_def no_lines_def

lemma sample_keys: "line_keys sample_lines" "movement_keys sample_lines" "primary_index_ok (ld_lines sample_lines)"
  "line_by_id 1 sample_lines = Some sample_line"
  by (simp_all add: sample_defs line_keys_def movement_keys_def primary_index_ok_def line_by_id_def)

theorem reachable_carrier_drawers_witness:
  "\<exists>db db'. booked_step\<^sup>*\<^sup>* (\<lambda>_. 0, no_lines) (\<lambda>_. 0, db) \<and> getCarrierCreditsSum mtc db = 500 \<and> ld_drawers db (''MTC'', ''USD'') = 500
     \<and> booked_step\<^sup>*\<^sup>* (\<lambda>_. 0, no_lines) (\<lambda>c. if c = mtc then 4 else 0, db') \<and> ld_drawers db' (''MTC'', ''USD'') = getCarrierCreditsSum mtc db' + 4"
proof -
  let ?d = "\<lparr>ccl_carrier = mtc, ccl_phone_number = ''03123456'', ccl_label = None, ccl_credits = Some 500,
     ccl_validity_expires_at = Some ''2026-09-30'', ccl_notes = None\<rparr>"
  have index: "primary_index_ok (ld_lines (add_line ?d no_lines))"
    by (simp add: primary_index_ok_def add_line_def no_lines_def new_line_def)
  then obtain db where run: "createLine ?d (Some 1) no_lines = Inr db"
    using post_succeeds by (fastforce simp: createLine_eq the_new_def)
  have "in_cents 500" unfolding in_cents_def by (rule exI [of _ 50000]) simp
  then have "create_drift ?d = (\<lambda>_. 0)" by (simp add: create_drift_def the_new_def short_cents fun_eq_iff)
  then have "line_step (\<lambda>_. 0) no_lines db" using step_create [OF run] by simp
  then have steps: "booked_step\<^sup>*\<^sup>* (\<lambda>_. 0, no_lines) (\<lambda>_. 0, db)" by (intro r_into_rtranclp) (force simp: booked_step_def)
  obtain db' where "line_drawer_delta (CARRIER_DRAWER_NAMES mtc) ''USD'' 4 db = Inr db'" by (simp add: carrier_drawer_delta)
  then have "booked_step (\<lambda>_. 0, db) (\<lambda>c. if c = mtc then 4 else 0, db')" using step_post by (force simp: booked_step_def)
  with steps have steps': "booked_step\<^sup>*\<^sup>* (\<lambda>_. 0, no_lines) (\<lambda>c. if c = mtc then 4 else 0, db')" by simp
  have "getCarrierCreditsSum mtc db = 500"
    using createLine_cases(1) [OF run]
    by (simp add: same_lines_def add_line_def no_lines_def new_line_def the_new_def credits_sum active_credit_def)
  moreover have "ld_drawers db (CARRIER_DRAWER_NAMES mtc, ''USD'') = getCarrierCreditsSum mtc db"
    "ld_drawers db' (CARRIER_DRAWER_NAMES mtc, ''USD'') = getCarrierCreditsSum mtc db' + 4"
    using reachable_carrier_drawers [OF steps] reachable_carrier_drawers [OF steps'] by (simp_all add: no_lines_def)
  ultimately show ?thesis using steps steps' by (auto simp: CARRIER_DRAWER_NAMES_def)
qed

theorem archived_edit_unbalances_witness:
  "\<exists>db'. updateLineAndSyncDrawer 1 (no_update\<lparr>ucl_credits := Some 300\<rparr>) (Some 1)
       (sample_lines\<lparr>ld_lines := [sample_line\<lparr>cl_is_active := False, cl_is_primary := False\<rparr>]\<rparr>) = Inr db' \<and>
     getCarrierCreditsSum mtc db' = 0 \<and> ld_drawers db' (CARRIER_DRAWER_NAMES mtc, ''USD'') = - 200"
  using archived_edit_unbalances [of "sample_lines\<lparr>ld_lines := [sample_line\<lparr>cl_is_active := False, cl_is_primary := False\<rparr>]\<rparr>" 1
      "sample_line\<lparr>cl_is_active := False, cl_is_primary := False\<rparr>" 300 1]
  by (simp add: sample_defs line_keys_def primary_index_ok_def line_by_id_def getCarrierCreditsSum_def)

theorem archived_primary_blocks_create_witness:
  "\<exists>db1. setPrimary 1 (sample_lines\<lparr>ld_lines := [sample_line\<lparr>cl_is_active := False, cl_is_primary := False\<rparr>]\<rparr>) = Inr db1 \<and>
     createLine \<lparr>ccl_carrier = mtc, ccl_phone_number = ''03999999'', ccl_label = None, ccl_credits = None,
       ccl_validity_expires_at = None, ccl_notes = None\<rparr> (Some 1) db1 = Inl PRIMARY_TAKEN"
  using archived_primary_blocks_create [of "sample_lines\<lparr>ld_lines := [sample_line\<lparr>cl_is_active := False, cl_is_primary := False\<rparr>]\<rparr>" 1
      "sample_line\<lparr>cl_is_active := False, cl_is_primary := False\<rparr>"]
  by (fastforce simp: sample_defs line_keys_def primary_index_ok_def line_by_id_def)

text \<open>The line sells 40 days with 32 left, and is charged with 30 days twice.\<close>

lemma sample_days: "dates_fit (Some 20726) (- 40) 20694" "dates_fit (Some 20726) 30 20694"
  "text_of_day 20694 = ''2026-08-29''" "text_of_day 20726 = ''2026-09-30''" "text_of_day 20756 = ''2026-10-30''"
  by code_simp+

lemma sample_charge: "projectValidityExpiry (Some ''2026-09-30'') 30 ''2026-08-29'' 0 =
   \<lparr>vp_expiry = Some ''2026-10-30'', vp_capped = False, vp_burned = False, vp_state = VALID, vp_lapseDays = Some 0,
     vp_daysLostToCap = Some 0, vp_daysOwed = 0, vp_soldAhead = 0, vp_owedApplied = 0\<rparr>"
  by code_simp

lemma sample_sale: "projectValidityExpiry (Some ''2026-09-30'') (- 40) ''2026-08-29'' 0 =
   \<lparr>vp_expiry = Some ''2026-08-29'', vp_capped = False, vp_burned = False, vp_state = VALID, vp_lapseDays = Some 0,
     vp_daysLostToCap = Some 0, vp_daysOwed = 8, vp_soldAhead = 8, vp_owedApplied = 0\<rparr>"
  by code_simp

lemma sample_applies:
  assumes "ld_lines db = [sample_line]"
  shows "\<exists>m db1. applyMovement day (sample_move x 30) db = Inr (m, db1) \<and> mv_validity_days_delta m = 30"
    "\<exists>m db1. applyMovement day (sample_move x (- 40)) db = Inr (m, db1) \<and> mv_validity_days_delta m = - 32"
proof -
  have l: "line_by_id 1 db = Some sample_line" using assms by (simp add: line_by_id_def sample_line_def)
  have u: "updateLine 1 (line_state b e d) db = Inr (write_line 1 (set_columns (line_state b e d)) db)" for b e d
    by (rule updateLine_succeeds) (simp_all add: assms line_state_def no_update_def primary_index_ok_def)
  show "\<exists>m db1. applyMovement day (sample_move x 30) db = Inr (m, db1) \<and> mv_validity_days_delta m = 30"
    using l u sample_charge
    by (simp add: applyMovement_def sample_move_def computeAppliedState_def sample_line_def recorded_deltas_def createMovement_def Let_def)
  show "\<exists>m db1. applyMovement day (sample_move x (- 40)) db = Inr (m, db1) \<and> mv_validity_days_delta m = - 32"
    using l u sample_sale
    by (simp add: applyMovement_def sample_move_def computeAppliedState_def sample_line_def recorded_deltas_def createMovement_def Let_def)
qed

lemma sample_only: "ld_lines sample_lines = [sample_line]"
  by (simp add: sample_lines_def)

lemma sample_restorable: "restorable (sample_move x 30) ''2026-08-29'' sample_line" "restorable (sample_move x (- 40)) ''2026-08-29'' sample_line"
  using sample_days
  by (auto simp: sample_move_def sample_line_def intro!: restorable_days [of _ _ "Some 20726" _ 20694])

lemma sample_today: "the_new (am_today (sample_move x d)) day = ''2026-08-29''"
  by (simp add: sample_move_def the_new_def)

theorem apply_then_reverse_witness:
  "\<exists>m db1 db2. applyMovement ''2026-08-29'' (sample_move (- 4) (- 40)) sample_lines = Inr (m, db1) \<and>
     reverseMovement (mv_id m) ''2026-09-02'' db1 = Inr (Some (m\<lparr>mv_is_reversed := True\<rparr>), db2) \<and> ld_lines db2 = [sample_line]"
proof -
  obtain m db1 where run: "applyMovement ''2026-08-29'' (sample_move (- 4) (- 40)) sample_lines = Inr (m, db1)" and m: "mv_validity_days_delta m = - 32"
    using sample_applies(2) [OF sample_only] by blast
  have "reverseMovement (mv_id m) ''2026-09-02'' db1 = Inr (Some (m\<lparr>mv_is_reversed := True\<rparr>),
      sample_lines\<lparr>ld_movements := ld_movements sample_lines @ [m\<lparr>mv_is_reversed := True\<rparr>], movement_counter := mv_id m\<rparr>)"
    by (rule apply_then_reverse [OF sample_keys(1-3) _ _ _ run, of sample_line])
      (use sample_keys(4) m in \<open>simp_all add: sample_today sample_restorable, simp_all add: sample_move_def sample_line_def\<close>)
  then show ?thesis using run by (auto simp: sample_lines_def)
qed

text \<open>A charge, its reversal as the newest movement, a second charge, days promised to a client: the second charge is stuck.\<close>

theorem charge_after_reversed_charge_stuck_witness:
  "\<exists>m1 db1 r db2 m2 db3 db4 s. applyMovement ''2026-08-29'' (sample_move 0 30) sample_lines = Inr (m1, db1) \<and>
     reverseMovement (mv_id m1) ''2026-08-29'' db1 = Inr (r, db2) \<and> ld_lines db2 = [sample_line] \<and>
     applyMovement ''2026-08-29'' (sample_move 0 30) db2 = Inr (m2, db3) \<and>
     createDelivery 1 None None None 3 db3 = db4 \<and>
     (reverseMovement (mv_id m2) ''2026-08-29'' db4 = Inl (OLDER_SALE_REVERSED s)
      \<or> reverseMovement (mv_id m2) ''2026-08-29'' db4 = Inl (LATER_RECHARGE_FIRST s))"
proof -
  obtain m1 db1 where run1: "applyMovement ''2026-08-29'' (sample_move 0 30) sample_lines = Inr (m1, db1)" and d1: "mv_validity_days_delta m1 = 30"
    using sample_applies(1) [OF sample_only] by blast
  define db2 where "db2 = sample_lines\<lparr>ld_movements := [m1\<lparr>mv_is_reversed := True\<rparr>], movement_counter := mv_id m1\<rparr>"
  have "reverseMovement (mv_id m1) ''2026-08-29'' db1 = Inr (Some (m1\<lparr>mv_is_reversed := True\<rparr>),
      sample_lines\<lparr>ld_movements := ld_movements sample_lines @ [m1\<lparr>mv_is_reversed := True\<rparr>], movement_counter := mv_id m1\<rparr>)"
    by (rule newest_movement_undone [OF sample_keys(1-3) _ _ _ run1, of sample_line])
      (use sample_keys(4) in \<open>simp_all add: sample_today sample_restorable, simp_all add: sample_move_def sample_line_def days_reversed_def sample_defs\<close>)
  then have undo: "reverseMovement (mv_id m1) ''2026-08-29'' db1 = Inr (Some (m1\<lparr>mv_is_reversed := True\<rparr>), db2)"
    by (simp add: db2_def sample_defs)
  have only: "ld_lines db2 = [sample_line]" by (simp add: db2_def sample_lines_def)
  obtain m2 db3 where run2: "applyMovement ''2026-08-29'' (sample_move 0 30) db2 = Inr (m2, db3)"
    using sample_applies(1) [OF only] by blast
  have past: "line_keys db2" "movement_keys db2" "days_reversed (am_carrierLineId (sample_move 0 30)) db2"
    using sample_keys(1) applyMovement_log(7) [OF run1] d1
    by (simp_all add: db2_def line_keys_def movement_keys_def days_reversed_def)
  have "booked_step\<^sup>*\<^sup>* (\<lambda>_. 0, db3) (\<lambda>_. 0, createDelivery 1 None None None 3 db3)"
    by (intro r_into_rtranclp) (force simp: booked_step_def intro: step_owe)
  from charge_after_reversed_charge_stuck [OF past rtranclp.rtrancl_refl run2 _ this, of "''2026-08-29''"]
  show ?thesis using run1 undo only run2 by (auto simp: sample_move_def)
qed

end
