(* ===== verification/Spec2Isabelle.thy ===== *)
theory Spec2Isabelle
  imports Fifo_Coverage Largest_Remainder Exchange_Lots_Properties Stock_Batches_Properties
    Currency_Converter_Properties Debt_Repayment_Properties Payment_Methods_Properties
    Account_Settlement_Rows Offline_Properties Offline_Review_Properties Telecom_Credit_Properties
    Partner_Settle_Undo Carrier_Lines_Properties
begin

text \<open>
  Verification of the core of LiraTek, a point-of-sale system for phone shops: the engines that decide
  which money covers which debt, what stock and foreign currency cost, and how work done on a PC
  without a connection is booked on the server. All of it is TypeScript under
  \<open>packages/core/src\<close>, shared by the desktop app (Electron, IPC) and the web backend (REST).

  \<^bold>\<open>How the parts interact.\<close> Money and stock that arrive in lots are used up oldest first. One
  function, \<open>allocateFifo\<close> (\<open>utils/fifoCoverage.ts\<close>), does that for stock batches, currency lots and
  supplier accounts; a second one, \<open>allocateProportional\<close> (\<open>utils/largestRemainder.ts\<close>), splits a
  total over rows to the last unit. The repositories keep the lots and the settlement rows that
  explain every unit they lost, so that a refund can give it back. The payment-method registry decides
  which cash drawer a payment leg moves. An account with another shop (a partner) is a ledger whose rows are
  grouped into units; a settlement of some days covers units through the same engine as a supplier account, posts
  the money and writes coverage rows, from which its undo knows what to give back. A PC that loses its connection records its actions as events
  with ids from a range of its own; it uploads them in batches, and merge rounds book them through
  the same services, in each PC's order, as one transaction per event; what cannot be booked
  waits on a review list for an admin.

  \<^bold>\<open>Theories.\<close>

  \<^item> \<open>Prelude\<close>: JavaScript numbers as exact rationals with \<open>Math.round\<close>, the stable \<open>Array.sort\<close>, the
    request context (tenant, time), list lemmas, and the interfaces \<open>rounding\<close> (a rounding to a unit),
    \<open>js_comparator\<close> (an order given by a comparator) and \<open>step_invariant\<close> (a relation and a property its steps keep).
  \<^item> \<open>Fifo_Coverage\<close>: \<open>allocateFifo\<close>, its soundness and completeness, the declarative allocation it
    equals, and the locale \<open>fifo_allocator\<close> through which the repositories use it.
  \<^item> \<open>Largest_Remainder\<close>: \<open>allocateProportional\<close>; exact totals and the quota rule.
  \<^item> \<open>Exchange_Lots\<close>, \<open>_Safety\<close>, \<open>_Properties\<close>: \<open>repositories/ExchangeLotRepository.ts\<close> and
    \<open>constants/exchangeLotPolicy.ts\<close>. The tables \<open>exchange_lots\<close> and \<open>exchange_lot_settlements\<close> are lists
    of records with counters for the row ids; every method is a function on that record.
  \<^item> \<open>Stock_Batches\<close>, \<open>_Safety\<close>, \<open>_Properties\<close>: \<open>repositories/StockBatchRepository.ts\<close> in the same way, with
    the table constraints of \<open>create_db.sql\<close> that the code can run into.
  \<^item> \<open>Currency_Converter\<close>, \<open>_Properties\<close>: \<open>utils/currencyConverter.ts\<close>, \<open>lotMarketRate.ts\<close>, \<open>exchangeRates.ts\<close>.
  \<^item> \<open>Debt_Repayment\<close>, \<open>_Properties\<close>: \<open>utils/debtRepaymentAllocation.ts\<close>.
  \<^item> \<open>Payment_Methods\<close>, \<open>_Properties\<close>: \<open>repositories/PaymentMethodRepository.ts\<close>, \<open>utils/payments.ts\<close>,
    \<open>paymentLegs.ts\<close>, the drawer constants and the seed of a new tenant's methods.
  \<^item> \<open>Fifo_Queues\<close>, \<open>Account_Settlement\<close>, \<open>_Safety\<close>, \<open>_Properties\<close>, \<open>_Rows\<close>, \<open>_Sources\<close>:
    \<open>utils/accountSettleAllocation.ts\<close>, which runs the allocator several times over the same queues of debts and
    credits; \<open>_Sources\<close> says what the takes of each source add up to.
  \<^item> \<open>Settle_Legs\<close>: \<open>utils/settleLegConversion.ts\<close>, payment lines in two currencies. \<open>Partner_Units\<close>, \<open>_Properties\<close>:
    \<open>utils/partnerSettleUnits.ts\<close>, the units of a partner ledger and what is open on them.
  \<^item> \<open>Partner_Settlement\<close>: \<open>repositories/PartnerSettlementRepository.ts\<close> without \<open>settleDays\<close>, with \<open>addLedgerEntry\<close>
    (\<open>PartnerRepository\<close>), \<open>createTransaction\<close> and the undo of a settlement (\<open>TransactionRepository\<close>) and the SQL
    of \<open>constants/partnerObligation.ts\<close>. \<open>Partner_Settle_Days\<close>: \<open>settleDays\<close>, with \<open>recordDiscount\<close>, \<open>insertPaymentRow\<close>,
    \<open>applyDrawerDelta\<close> and the caps of \<open>validators/exchange.ts\<close> and \<open>counterparty.ts\<close>. One record \<open>partner_db\<close> holds the
    ledger, the coverage, the transactions, the payments and the drawers of a shop. \<open>Partner_Settlement_Safety\<close> and
    \<open>Partner_Settle_Days_Safety\<close> keep its invariant \<open>books_ok\<close>; \<open>Partner_Settlement_Balance\<close> relates it to the ledger balance;
    \<open>Partner_Settlement_Properties\<close> (money, reachable states), \<open>Partner_Settle_Days_Cover\<close> (what is covered) and
    \<open>Partner_Settle_Undo\<close> (the undo) hold the properties.
  \<^item> \<open>Offline_Ids\<close>: \<open>offline/idRange.ts\<close>. \<open>Offline_Store\<close>: the tables of offline work
    (\<open>OfflineEventRepository\<close>, \<open>OfflineIdMapRepository\<close>, \<open>OfflineReviewRepository\<close>, \<open>OfflineDeviceRepository\<close>), the
    review kinds and the clock correction of \<open>skew.ts\<close>. \<open>Offline_Upload\<close>: \<open>OfflineEventService.upload\<close>.
  \<^item> \<open>Replay_Engine\<close>, \<open>_Properties\<close>: \<open>offline/ReplayEngine.ts\<close> and \<open>actorPolicy.ts\<close>. \<open>Offline_Merge\<close>,
    \<open>_Properties\<close>: \<open>OfflineMergeProcessor.ts\<close>. \<open>Offline_Review\<close>, \<open>_Properties\<close>: \<open>OfflineReviewService.ts\<close>.
    \<open>Offline_Properties\<close>: the store as a whole.
  \<^item> \<open>Telecom_Credit\<close>, \<open>_Properties\<close>: \<open>utils/telecomCredit.ts\<close>, the days-only sale of prepaid phone cards.
  \<^item> \<open>Calendar_Dates\<close>: \<open>utils/calendarDate.ts\<close>, date texts and JavaScript's UTC dates on whole days.
    \<open>Line_Validity\<close>: \<open>utils/carrierLineValidity.ts\<close>, where a charge or a sale of days moves the expiry of a SIM line of the
    shop. \<open>Carrier_Lines\<close>, \<open>_Safety\<close>, \<open>_Properties\<close>: \<open>CarrierLineRepository.ts\<close>, \<open>CarrierLineMovementRepository.ts\<close> and
    \<open>CarrierLineOwedDeliveryRepository.ts\<close> on one record \<open>line_db\<close> of lines, movements, adjustments and drawers.

  \<^bold>\<open>What is shown.\<close> Lots, batches and accounts: on every reachable ledger what a lot received is what it
  has left plus what its active settlements took (for stock batches as long as every undo of a refund covers whole consumption
  rows; otherwise they account for too much, never too little); consuming and restoring are inverse; a consumption
  draws exactly what the allocator says; no operation reaches another tenant's rows; the exact error
  conditions of adjustments, voids and undos. Allocation: no row, credit or transfer is
  covered beyond what it owes, no money is lost, and a remainder is left only when nothing open could
  take it. Conversion: the reverse calculator inverts the forward one up to the twelve digits kept.
  Drawers: the built-in methods keep their drawers through every sequence of changes, so cash reaches the drawer
  the rule names. Partner accounts: on every state that bookings, settlements and undos reach, what is shown as open
  is the balance of the ledger less the legacy coverage that no old payment explains; a settlement covers no row beyond what is open on it and only rows in its scope; each
  drawer changes by exactly the payment rows; undoing a settlement brings every balance back; a box paid in
  two currencies loses no money. Offline work: ids are lossless; an upload can be repeated; an event is
  booked completely or not at all, at most once, and not left waiting for ever; a merge round ends,
  never skips an event and stops a PC only for a technical failure; the cursors, keys and audit log agree on every store that uploads
  and rounds can reach; an admin's action books once and books nothing when it fails. Phone cards: the returnable credit is
  the best that SMS transfers can do, and the derived split of a card's cost adds up.
  SIM lines: after any operations the drawer of a carrier is the credits of its active lines plus the drift of the steps, which is
  zero for the changes the source has in mind; the
  expiry follows the written rule and no day of a valid line is lost; a movement and its reversal cancel unless the movement typed a date on a line that had none; where
  the code leaves its own comments (archived lines, a charge after a reversed charge) is shown too.
  Dates: date texts are added, subtracted and ordered like day numbers.

  \<^bold>\<open>Loops and bounds.\<close> No definition uses fuel. Loops over lists are structural; the loops that look
  for more work (\<open>skip_settled\<close>, \<open>merge_loop\<close>, \<open>releaseDependants_loop\<close>) are functions with termination
  proofs, whose measures are the events still ahead of a cursor or not yet tried. Amounts are exact
  rationals, so the rounding steps of the code are modelled and binary floating-point error is not;
  \<open>NaN\<close> and infinities are values only where the code tests for them (\<open>jsnum\<close> in \<open>Prelude\<close>). Times are instants in milliseconds; stored JSON is the
  value that was written.

  \<^bold>\<open>Parameters.\<close> The replay engine gets its environment as a record: the bindings (each calls
  the service that the web route calls), the recorded schemas, the rewriting of ids in a payload, the duplicate
  detector and the reads of other tables. The theorems hold for every such environment. The digest of
  an upload and the channel table are parameters in the same way. The partner books take the shop's settings, the
  request time, the two SQLite functions on times (\<open>strftime\<close>, \<open>localDayExpr\<close>) and the market rate from a record of
  the same kind (\<open>partner_env\<close>).

  \<^bold>\<open>Not modelled.\<close> The screens (\<open>frontend\<close>), the REST routes, authentication and e-mail (\<open>backend\<close>),
  the IPC handlers and the desktop side of offline work (\<open>electron-app\<close>), the mobile app and the
  migrations: transport, rendering and data definition. The large reporting repositories
  (\<open>ProfitRepository\<close>, \<open>TransactionRepository\<close>, \<open>SupplierRepository\<close> and others) are SQL over the whole
  database and need a model of the complete schema first; of \<open>TransactionRepository\<close> and \<open>PartnerRepository\<close> the parts
  that partner settlements use are modelled. Of \<open>PartnerSettlementRepository\<close> the read \<open>getDayDetail\<close> and the checks for
  a schema older than v225 are left out, of the transactions the summary, the metadata and the details. Of
  \<open>CarrierLineRepository\<close> the booking of used credits as an expense (\<open>recordUsage\<close>) is left out. Within the offline work: pairing of
  PCs, the copy a PC works on, the bindings, the duplicate detector and the schema comparison.
\<close>

end
